(* ===== verification/Prelude.thy ===== *)
theory Prelude
  imports Main "HOL-Library.Word" "HOL-Library.Char_ord" "HOL-Library.List_Lexorder"
    "HOL-Library.AList"
begin

text \<open>
  Vocabulary shared by all components.

  \<^item> Machine integers: \<open>u32\<close> and \<open>u64\<close> are words; \<open>i64\<close> is \<open>int\<close> with the range
    checks written out where the code can leave the range.
  \<^item> A Rust \<open>String\<close> is a HOL \<open>string\<close>. A \<open>char\<close> stands for the Unicode scalar value
    with its code (0 to 255), so \<open>trim\<close>, \<open>to_ascii_lowercase\<close> and the ordering of strings
    are exact on text of that range.
  \<^item> \<open>Result<T, E>\<close> is \<open>'e + 'a\<close> (\<open>Inl\<close> the error). A panic is \<open>None\<close> of an \<open>option\<close>.
  \<^item> A \<open>HashMap\<close> that is only looked up is a map \<open>'k \<rightharpoonup> 'v\<close>; where the code iterates over it
    and then sorts, it is an association list. A \<open>BTreeSet\<close> is a sorted list without
    duplicates.
\<close>

named_theorems rust_simps \<open>rules for the Rust standard-library operations of the model\<close>
named_theorems inv_intros \<open>introduction rules for component invariants\<close>

type_synonym u32 = "32 word"
type_synonym u64 = "64 word"

subsection \<open>Results\<close>

fun bind_res :: "'e + 'a \<Rightarrow> ('a \<Rightarrow> 'e + 'b) \<Rightarrow> 'e + 'b" where
  "bind_res (Inl e) f = Inl e"
| "bind_res (Inr x) f = f x"

lemma bind_res_Inr [rust_simps]:
  "bind_res m f = Inr y \<longleftrightarrow> (\<exists>x. m = Inr x \<and> f x = Inr y)"
  by (cases m) auto

lemma bind_res_Inl [rust_simps]:
  "bind_res m f = Inl e \<longleftrightarrow> m = Inl e \<or> (\<exists>x. m = Inr x \<and> f x = Inl e)"
  by (cases m) auto

lemma bind_res_cong [fundef_cong]:
  "m = m' \<Longrightarrow> (\<And>x. m' = Inr x \<Longrightarrow> f x = g x) \<Longrightarrow> bind_res m f = bind_res m' g"
  by (cases m') auto

text \<open>\<open>collect_res f xs\<close> is \<open>xs.iter().map(f).collect::<Result<Vec<_>, _>>()\<close>: the first error
  wins.\<close>

fun collect_res :: "('a \<Rightarrow> 'e + 'b) \<Rightarrow> 'a list \<Rightarrow> 'e + 'b list" where
  "collect_res f [] = Inr []"
| "collect_res f (x # xs) =
     bind_res (f x) (\<lambda>y. bind_res (collect_res f xs) (\<lambda>ys. Inr (y # ys)))"

lemma collect_res_Inr:
  "collect_res f xs = Inr ys \<longleftrightarrow> list_all2 (\<lambda>x y. f x = Inr y) xs ys"
  by (induction xs arbitrary: ys) (auto simp: rust_simps list_all2_Cons1)

text \<open>\<open>each_res f xs\<close> is a \<open>for\<close> loop whose body may return an error.\<close>

fun each_res :: "('a \<Rightarrow> 'e + unit) \<Rightarrow> 'a list \<Rightarrow> 'e + unit" where
  "each_res f [] = Inr ()"
| "each_res f (x # xs) = bind_res (f x) (\<lambda>_. each_res f xs)"

lemma each_res_Inr [rust_simps]:
  "each_res f xs = Inr u \<longleftrightarrow> (\<forall>x \<in> set xs. f x = Inr ())"
  by (induction xs) (auto simp: bind_res_Inr)

lemma each_res_InlD: "each_res f xs = Inl e \<Longrightarrow> \<exists>x \<in> set xs. f x = Inl e"
  by (induction xs) (auto simp: bind_res_Inl)

lemma each_res_InlI: "x \<in> set xs \<Longrightarrow> f x \<noteq> Inr () \<Longrightarrow> \<exists>e. each_res f xs = Inl e"
proof -
  assume "x \<in> set xs" "f x \<noteq> Inr ()"
  then have "each_res f xs \<noteq> Inr ()" by (auto simp: each_res_Inr)
  then show ?thesis by (cases "each_res f xs") auto
qed

text \<open>A guard: \<open>if cond { return Err(e) }\<close>.\<close>

definition fail_if :: "bool \<Rightarrow> 'e \<Rightarrow> 'e + unit" where
  "fail_if c e = (if c then Inl e else Inr ())"

lemma fail_if_simps [rust_simps]:
  "fail_if c e = Inr u \<longleftrightarrow> \<not> c"
  "fail_if c e = Inl d \<longleftrightarrow> c \<and> d = e"
  by (auto simp: fail_if_def)

fun unwrap_or :: "'a option \<Rightarrow> 'a \<Rightarrow> 'a" where
  "unwrap_or None d = d"
| "unwrap_or (Some x) d = x"

subsection \<open>Ordered sets as sorted lists\<close>

definition btree_of_list :: "'a::linorder list \<Rightarrow> 'a list" where
  "btree_of_list xs = foldr insort_insert xs []"

lemma set_insort_insert [rust_simps]: "set (insort_insert x xs) = insert x (set xs)"
  by (auto simp: insort_insert_key_def set_insort_key)

lemma sorted_insort_insert' [inv_intros]: "sorted xs \<Longrightarrow> sorted (insort_insert x xs)"
  by (simp add: insort_insert_key_def sorted_insort)

lemma distinct_insort_insert' [inv_intros]: "distinct xs \<Longrightarrow> distinct (insort_insert x xs)"
  by (simp add: insort_insert_key_def distinct_insort)

lemma length_insort_insert: "length (insort_insert x xs) \<le> Suc (length xs)"
  by (simp add: insort_insert_key_def)

lemma btree_of_list_props [simp]:
  "set (btree_of_list xs) = set xs" "sorted (btree_of_list xs)" "distinct (btree_of_list xs)"
  unfolding btree_of_list_def
  by (induction xs) (auto simp: rust_simps intro: inv_intros)

subsection \<open>Association lists\<close>

text \<open>\<open>entry(k).or_insert(v)\<close>, and \<open>*entry(k).or_insert(0) += 1\<close>.\<close>

definition al_or_insert :: "'k \<Rightarrow> 'v \<Rightarrow> ('k \<times> 'v) list \<Rightarrow> ('k \<times> 'v) list" where
  "al_or_insert k v al = (if k \<in> fst ` set al then al else al @ [(k, v)])"

definition al_bump :: "'k \<Rightarrow> ('k \<times> nat) list \<Rightarrow> ('k \<times> nat) list" where
  "al_bump k al = AList.update k (Suc (unwrap_or (map_of al k) 0)) al"

lemma map_of_al_or_insert:
  "map_of (al_or_insert k v al) x =
     (if x = k \<and> map_of al k = None then Some v else map_of al x)"
proof (cases "k \<in> fst ` set al")
  case True
  then have "map_of al k \<noteq> None" by (simp add: map_of_eq_None_iff)
  with True show ?thesis by (simp add: al_or_insert_def)
next
  case False
  then have "map_of al k = None" by (simp add: map_of_eq_None_iff)
  with False show ?thesis by (auto simp: al_or_insert_def map_add_def split: option.splits)
qed

lemma keys_al_or_insert:
  "map fst (al_or_insert k v al) = (if k \<in> fst ` set al then map fst al else map fst al @ [k])"
  by (simp add: al_or_insert_def)

lemma keys_update_existing: "k \<in> fst ` set al \<Longrightarrow> map fst (AList.update k v al) = map fst al"
  by (induction al) auto

lemma map_of_al_bump:
  "map_of (al_bump k al) x =
     (if x = k then Some (Suc (unwrap_or (map_of al k) 0)) else map_of al x)"
  by (simp add: al_bump_def update_conv')

lemma sum_update_decr:
  "map_of al k = Some (Suc d) \<Longrightarrow>
     Suc (sum_list (map snd (AList.update k d al))) = sum_list (map snd al)"
  by (induction al) (auto split: if_splits)

subsection \<open>Lists\<close>

lemma count_list_filter_notin:
  "x \<notin> A \<Longrightarrow>
     length (filter (\<lambda>d. d \<notin> insert x A) ds) + count_list ds x = length (filter (\<lambda>d. d \<notin> A) ds)"
  by (induction ds) auto

lemma count_list_eq_0: "x \<notin> set xs \<Longrightarrow> count_list xs x = 0"
  by (induction xs) auto

lemma count_list_pos: "x \<in> set xs \<Longrightarrow> 0 < count_list xs x"
  by (induction xs) auto

lemma count_list_le_filter: "x \<notin> A \<Longrightarrow> count_list ds x \<le> length (filter (\<lambda>d. d \<notin> A) ds)"
  by (induction ds) auto

lemma count_list_replicate: "count_list (replicate n y) x = (if x = y then n else 0)"
  by (induction n) auto

end
