(* ===== verification/Rust_Text.thy ===== *)
theory Rust_Text
  imports Prelude
begin

text \<open>
  The text operations of the Rust standard library the components use: \<open>trim\<close>,
  \<open>to_ascii_lowercase\<close>, \<open>replace\<close> of one character, \<open>Display\<close> of integers and
  \<open>str::parse::<i64>\<close> with its four errors, plus the JSON values of \<open>serde_json\<close> that the
  handlers read.
\<close>

subsection \<open>White space and case\<close>

definition is_ws :: "char \<Rightarrow> bool" where
  "is_ws c \<longleftrightarrow> c = CHR '' '' \<or> c = CHR 0x09 \<or> c = CHR 0x0A \<or> c = CHR 0x0B \<or> c = CHR 0x0C
     \<or> c = CHR 0x0D \<or> c = CHR 0x85 \<or> c = CHR 0xA0"

definition trim_start :: "string \<Rightarrow> string" where
  "trim_start s = dropWhile is_ws s"

definition trim_end :: "string \<Rightarrow> string" where
  "trim_end s = rev (dropWhile is_ws (rev s))"

definition trim :: "string \<Rightarrow> string" where
  "trim s = trim_end (trim_start s)"

definition lower_char :: "char \<Rightarrow> char" where
  "lower_char c =
     (if 65 \<le> (of_char c :: nat) \<and> (of_char c :: nat) \<le> 90 then char_of (of_char c + 32 :: nat) else c)"

definition to_lower :: "string \<Rightarrow> string" where
  "to_lower s = map lower_char s"

lemma dropWhile_rev_head: "xs \<noteq> [] \<Longrightarrow> \<not> P (hd xs) \<Longrightarrow> hd (rev (dropWhile P (rev xs))) = hd xs"
proof -
  assume ne: "xs \<noteq> []" and h: "\<not> P (hd xs)"
  have "hd xs \<in> set (rev xs)" using ne by simp
  with h have "dropWhile P (rev xs) \<noteq> []" by (auto simp: dropWhile_eq_Nil_conv)
  moreover have "rev (dropWhile P (rev xs)) = take (length (dropWhile P (rev xs))) xs"
    by (metis dropWhile_eq_drop length_drop length_rev rev_drop rev_rev_ident)
  ultimately show ?thesis by (metis hd_take length_greater_0_conv)
qed

lemma trim_edges: "trim s \<noteq> [] \<Longrightarrow> \<not> is_ws (hd (trim s)) \<and> \<not> is_ws (last (trim s))"
proof -
  assume ne: "trim s \<noteq> []"
  let ?t = "trim_start s"
  have t: "?t \<noteq> []" using ne by (auto simp: trim_def trim_end_def)
  then have h: "\<not> is_ws (hd ?t)" unfolding trim_start_def by (rule hd_dropWhile)
  have "hd (trim s) = hd ?t"
    unfolding trim_def trim_end_def using t h by (rule dropWhile_rev_head)
  moreover have "dropWhile is_ws (rev ?t) \<noteq> []" using ne by (simp add: trim_def trim_end_def)
  then have "\<not> is_ws (last (trim s))"
    by (simp add: trim_def trim_end_def last_rev hd_dropWhile)
  ultimately show ?thesis using h by simp
qed

lemma trim_fixed: "s = [] \<or> (\<not> is_ws (hd s) \<and> \<not> is_ws (last s)) \<Longrightarrow> trim s = s"
proof (cases "s = []")
  case True
  then show ?thesis by (simp add: trim_def trim_end_def trim_start_def)
next
  case False
  assume "s = [] \<or> (\<not> is_ws (hd s) \<and> \<not> is_ws (last s))"
  with False have h: "\<not> is_ws (hd s)" and l: "\<not> is_ws (hd (rev s))" by (auto simp: hd_rev)
  have "dropWhile is_ws s = s" using h False by (cases s) auto
  moreover have "dropWhile is_ws (rev s) = rev s" using l False by (cases "rev s") auto
  ultimately show ?thesis by (simp add: trim_def trim_end_def trim_start_def)
qed

lemma trim_idem [simp]: "trim (trim s) = trim s"
  by (rule trim_fixed) (use trim_edges in blast)

lemma lower_char_idem [simp]: "lower_char (lower_char c) = lower_char c"
proof (cases "65 \<le> (of_char c :: nat) \<and> (of_char c :: nat) \<le> 90")
  case True
  then have "(of_char c + 32 :: nat) < 256" by simp
  then have "(of_char (char_of (of_char c + 32 :: nat)) :: nat) = of_char c + 32" by simp
  with True show ?thesis by (simp add: lower_char_def)
next
  case False
  then have "lower_char c = c" by (auto simp: lower_char_def)
  then show ?thesis by simp
qed

lemma to_lower_idem [simp]: "to_lower (to_lower s) = to_lower s"
  by (simp add: to_lower_def)

subsection \<open>Display of integers\<close>

definition digit_char :: "nat \<Rightarrow> char" where
  "digit_char d = char_of (48 + d)"

fun show_nat :: "nat \<Rightarrow> string" where
  "show_nat n = (if n < 10 then [digit_char n] else show_nat (n div 10) @ [digit_char (n mod 10)])"

declare show_nat.simps [simp del]

definition show_int :: "int \<Rightarrow> string" where
  "show_int i = (if i < 0 then CHR ''-'' # show_nat (nat (- i)) else show_nat (nat i))"

definition show_bool :: "bool \<Rightarrow> string" where
  "show_bool b = (if b then ''true'' else ''false'')"

subsection \<open>Parsing integers\<close>

datatype int_error = EmptyInt | InvalidDigit | PosOverflow | NegOverflow

fun int_error_text :: "int_error \<Rightarrow> string" where
  "int_error_text EmptyInt = ''cannot parse integer from empty string''"
| "int_error_text InvalidDigit = ''invalid digit found in string''"
| "int_error_text PosOverflow = ''number too large to fit in target type''"
| "int_error_text NegOverflow = ''number too small to fit in target type''"

definition to_digit :: "char \<Rightarrow> nat option" where
  "to_digit c = (let v = (of_char c :: nat) in if 48 \<le> v \<and> v \<le> 57 then Some (v - 48) else None)"

definition i64_max :: int where "i64_max = 9223372036854775807"
definition i64_min :: int where "i64_min = - 9223372036854775808"

text \<open>The accumulating loop of \<open>from_str_radix\<close>: for every character the digit is checked
  first, then the multiplication, then the addition (subtraction for a negative number).\<close>

fun parse_digits :: "bool \<Rightarrow> int \<Rightarrow> string \<Rightarrow> int_error + int" where
  "parse_digits neg acc [] = Inr acc"
| "parse_digits neg acc (c # cs) =
     (case to_digit c of
        None \<Rightarrow> Inl InvalidDigit
      | Some d \<Rightarrow>
          (let acc' = (if neg then acc * 10 - int d else acc * 10 + int d)
           in if neg \<and> acc' < i64_min then Inl NegOverflow
              else if \<not> neg \<and> i64_max < acc' then Inl PosOverflow
              else parse_digits neg acc' cs))"

fun parse_i64 :: "string \<Rightarrow> int_error + int" where
  "parse_i64 [] = Inl EmptyInt"
| "parse_i64 [c] =
     (if c = CHR ''+'' \<or> c = CHR ''-'' then Inl InvalidDigit else parse_digits False 0 [c])"
| "parse_i64 (c # cs) =
     (if c = CHR ''-'' then parse_digits True 0 cs
      else if c = CHR ''+'' then parse_digits False 0 cs
      else parse_digits False 0 (c # cs))"

lemma parse_digits_range:
  "parse_digits neg acc s = Inr v \<Longrightarrow> i64_min \<le> acc \<Longrightarrow> acc \<le> i64_max \<Longrightarrow>
     (if neg then acc \<le> 0 else 0 \<le> acc) \<Longrightarrow> i64_min \<le> v \<and> v \<le> i64_max"
proof (induction neg acc s rule: parse_digits.induct)
  case (1 neg acc)
  then show ?case by simp
next
  case (2 neg acc c cs)
  from "2.prems"(1) obtain d where d: "to_digit c = Some d" by (auto split: option.splits)
  define acc' where "acc' = (if neg then acc * 10 - int d else acc * 10 + int d)"
  have rec: "parse_digits neg acc' cs = Inr v"
    and ok: "\<not> (neg \<and> acc' < i64_min)" "\<not> (\<not> neg \<and> i64_max < acc')"
    using "2.prems"(1) d by (auto simp: acc'_def Let_def split: if_splits)
  have sgn: "if neg then acc' \<le> 0 else 0 \<le> acc'"
    using "2.prems"(4) by (auto simp: acc'_def split: if_splits)
  have rng: "i64_min \<le> acc'" "acc' \<le> i64_max"
    using sgn ok by (auto simp: i64_min_def i64_max_def split: if_splits)
  show ?case
    using "2.IH"[OF d acc'_def ok] rec rng sgn by blast
qed

lemma parse_i64_range: "parse_i64 s = Inr v \<Longrightarrow> i64_min \<le> v \<and> v \<le> i64_max"
proof -
  assume p: "parse_i64 s = Inr v"
  consider c where "s = [c]" | c d t where "s = c # d # t" | "s = []"
    by (cases s rule: parse_i64.cases) auto
  then have "parse_digits False 0 s = Inr v \<or> (\<exists>neg. parse_digits neg 0 (tl s) = Inr v)"
    using p by cases (auto simp del: parse_digits.simps split: if_splits)
  then obtain neg t where "parse_digits neg 0 t = Inr v" by blast
  then show ?thesis
    by (rule parse_digits_range) (auto simp: i64_min_def i64_max_def)
qed

lemma to_digit_digit_char [simp]: "d < 10 \<Longrightarrow> to_digit (digit_char d) = Some d"
  by (simp add: to_digit_def digit_char_def Let_def)

lemma parse_digits_append:
  "parse_digits False acc (xs @ ys) = bind_res (parse_digits False acc xs) (\<lambda>v. parse_digits False v ys)"
  by (induction xs arbitrary: acc) (auto simp: Let_def split: option.splits)

lemma parse_show_nat: "int n \<le> i64_max \<Longrightarrow> parse_digits False 0 (show_nat n) = Inr (int n)"
proof (induction n rule: show_nat.induct)
  case (1 n)
  show ?case
  proof (cases "n < 10")
    case True
    then show ?thesis by (subst show_nat.simps) (use 1 in \<open>simp add: i64_max_def\<close>)
  next
    case False
    have le: "int (n div 10) \<le> i64_max" using "1.prems" by linarith
    have "int (n div 10) * 10 + int (n mod 10) = int n" by presburger
    with False "1.IH"[OF False le] "1.prems" show ?thesis
      by (subst show_nat.simps) (simp add: parse_digits_append Let_def)
  qed
qed

lemma show_nat_nonempty: "show_nat n \<noteq> []"
  by (subst show_nat.simps) simp

lemma show_nat_digits: "c \<in> set (show_nat n) \<Longrightarrow> \<exists>d < 10. c = digit_char d"
proof (induction n rule: show_nat.induct)
  case (1 n)
  show ?case
  proof (cases "n < 10")
    case True
    with "1.prems" show ?thesis by (subst (asm) show_nat.simps) auto
  next
    case False
    with "1.prems" have "c \<in> set (show_nat (n div 10)) \<or> c = digit_char (n mod 10)"
      by (subst (asm) show_nat.simps) auto
    with "1.IH"[OF False] show ?thesis by (auto intro: exI[of _ "n mod 10"])
  qed
qed

lemma digit_char_not_sign:
  assumes "d < 10"
  shows "digit_char d \<noteq> CHR ''+''" "digit_char d \<noteq> CHR ''-''"
proof -
  have v: "(of_char (digit_char d) :: nat) = 48 + d" using assms by (simp add: digit_char_def)
  show "digit_char d \<noteq> CHR ''+''"
  proof
    assume "digit_char d = CHR ''+''"
    then have "(of_char (digit_char d) :: nat) = 43" by simp
    with v show False by simp
  qed
  show "digit_char d \<noteq> CHR ''-''"
  proof
    assume "digit_char d = CHR ''-''"
    then have "(of_char (digit_char d) :: nat) = 45" by simp
    with v show False by simp
  qed
qed

lemma parse_i64_show_nat: "int n \<le> i64_max \<Longrightarrow> parse_i64 (show_nat n) = Inr (int n)"
proof -
  assume le: "int n \<le> i64_max"
  obtain c cs where s: "show_nat n = c # cs" using show_nat_nonempty[of n] by (cases "show_nat n") auto
  then obtain d where "d < 10" "c = digit_char d" using show_nat_digits[of c n] by auto
  then have "c \<noteq> CHR ''+''" "c \<noteq> CHR ''-''" using digit_char_not_sign by auto
  then have "parse_i64 (c # cs) = parse_digits False 0 (c # cs)"
    by (cases cs) (simp_all del: parse_digits.simps)
  then show ?thesis using parse_show_nat[OF le] s by simp
qed

end
