(* ===== verification/Json.thy ===== *)
theory Json
  imports Rust_Text
begin

text \<open>
  The JSON values (\<open>serde_json::Value\<close>) the handlers read, with the accessors the source
  calls. A number is an integer (anything \<open>serde_json\<close> keeps as \<open>i64\<close> or \<open>u64\<close>) or a float,
  represented by the text it displays as: no component computes with floats. An object is an
  association list; \<open>get\<close> finds the first entry of a key.
\<close>

datatype json =
    JNull
  | JBool bool
  | JInt int
  | JFloat string
  | JString string
  | JArray "json list"
  | JObject "(string \<times> json) list"

fun j_get :: "json \<Rightarrow> string \<Rightarrow> json option" where
  "j_get (JObject fs) k = map_of fs k"
| "j_get _ k = None"

fun as_str :: "json \<Rightarrow> string option" where
  "as_str (JString s) = Some s"
| "as_str _ = None"

fun as_bool :: "json \<Rightarrow> bool option" where
  "as_bool (JBool b) = Some b"
| "as_bool _ = None"

fun as_i64 :: "json \<Rightarrow> int option" where
  "as_i64 (JInt i) = (if i64_min \<le> i \<and> i \<le> i64_max then Some i else None)"
| "as_i64 _ = None"

fun as_u64 :: "json \<Rightarrow> nat option" where
  "as_u64 (JInt i) = (if 0 \<le> i then Some (nat i) else None)"
| "as_u64 _ = None"

fun as_array :: "json \<Rightarrow> json list option" where
  "as_array (JArray xs) = Some xs"
| "as_array _ = None"

fun as_object :: "json \<Rightarrow> (string \<times> json) list option" where
  "as_object (JObject fs) = Some fs"
| "as_object _ = None"

fun is_null :: "json \<Rightarrow> bool" where
  "is_null JNull = True"
| "is_null _ = False"

text \<open>A number that \<open>serde_json\<close> can hold: \<open>i64::MIN .. u64::MAX\<close>.\<close>

definition json_int_ok :: "int \<Rightarrow> bool" where
  "json_int_ok i \<longleftrightarrow> i64_min \<le> i \<and> i \<le> 18446744073709551615"

definition opt_bind_str :: "json option \<Rightarrow> string option" where
  "opt_bind_str v = Option.bind v as_str"

end
