(* ===== verification/Dag_Types.thy ===== *)
theory Dag_Types
  imports Json
begin

text \<open>
  Node and error shapes of the plan DAG (\<open>plan_dag/parser/types\<close>), the typed modes parsed out
  of raw hints (\<open>acceptance/types.rs\<close>, \<open>rollback/types\<close>) and the projections of a node that
  the scheduler reads. The field \<open>id\<close> of the source is \<open>node_id\<close> here.
\<close>

subsection \<open>Typed modes\<close>

datatype acceptance_mode = InnerStatus | EvidenceKeys | Manual

fun acceptance_mode_wire :: "acceptance_mode \<Rightarrow> string" where
  "acceptance_mode_wire InnerStatus = ''inner_status''"
| "acceptance_mode_wire EvidenceKeys = ''evidence_keys''"
| "acceptance_mode_wire Manual = ''manual''"

definition parse_acceptance_mode :: "string \<Rightarrow> acceptance_mode option" where
  "parse_acceptance_mode raw =
     (let lc = to_lower (trim raw)
      in if lc = ''inner_status'' \<or> lc = ''inner-status'' then Some InnerStatus
         else if lc = ''evidence_keys'' \<or> lc = ''evidence-keys'' then Some EvidenceKeys
         else if lc = ''manual'' then Some Manual
         else None)"

datatype acceptance_requires = AllSucceeded | AnySucceeded | RequiresEvidenceKeys

fun acceptance_requires_wire :: "acceptance_requires \<Rightarrow> string" where
  "acceptance_requires_wire AllSucceeded = ''all_succeeded''"
| "acceptance_requires_wire AnySucceeded = ''any_succeeded''"
| "acceptance_requires_wire RequiresEvidenceKeys = ''evidence_keys''"

definition parse_acceptance_requires :: "string \<Rightarrow> acceptance_requires option" where
  "parse_acceptance_requires raw =
     (let lc = to_lower (trim raw)
      in if lc = ''all_succeeded'' \<or> lc = ''all-succeeded'' then Some AllSucceeded
         else if lc = ''any_succeeded'' \<or> lc = ''any-succeeded'' then Some AnySucceeded
         else if lc = ''evidence_keys'' \<or> lc = ''evidence-keys'' then Some RequiresEvidenceKeys
         else None)"

datatype rollback_policy = RbNone | RbDescriptor | RbWorkstation

fun rollback_policy_wire :: "rollback_policy \<Rightarrow> string" where
  "rollback_policy_wire RbNone = ''none''"
| "rollback_policy_wire RbDescriptor = ''descriptor''"
| "rollback_policy_wire RbWorkstation = ''workstation''"

definition parse_rollback_policy :: "string \<Rightarrow> rollback_policy option" where
  "parse_rollback_policy raw =
     (let lc = to_lower (trim raw)
      in if lc = ''none'' then Some RbNone
         else if lc = ''descriptor'' then Some RbDescriptor
         else if lc = ''workstation'' then Some RbWorkstation
         else None)"

datatype rollback_cascade_mode = CascadeNone | CascadePlan | CascadeDispatchSafe

fun rollback_cascade_wire :: "rollback_cascade_mode \<Rightarrow> string" where
  "rollback_cascade_wire CascadeNone = ''none''"
| "rollback_cascade_wire CascadePlan = ''plan''"
| "rollback_cascade_wire CascadeDispatchSafe = ''dispatch-safe''"

definition parse_rollback_cascade :: "string \<Rightarrow> rollback_cascade_mode option" where
  "parse_rollback_cascade raw =
     (let lc = to_lower (trim raw)
      in if lc = ''none'' then Some CascadeNone
         else if lc = ''plan'' then Some CascadePlan
         else if lc = ''dispatch-safe'' \<or> lc = ''dispatch_safe'' then Some CascadeDispatchSafe
         else None)"

datatype review_gate_kind = GateNone | GateQuestionEvent

subsection \<open>Constants\<close>

definition VALID_TARGETS :: "string list" where
  "VALID_TARGETS = [''mission_execution'', ''mission_task_delegate'', ''mission_flow_run'']"

definition FAILURE_POLICY_FAIL_FAST :: string where
  "FAILURE_POLICY_FAIL_FAST = ''fail-fast''"

definition FAILURE_POLICY_CONTINUE :: string where
  "FAILURE_POLICY_CONTINUE = ''continue''"

definition MAX_NODE_ATTEMPTS_CAP :: u32 where "MAX_NODE_ATTEMPTS_CAP = 3"

definition MAX_RETRY_DELAY_MS :: u64 where "MAX_RETRY_DELAY_MS = 60000"

subsection \<open>Nodes\<close>

record dag_node =
  node_id :: string
  target :: string
  objective :: "string option"
  depends_on :: "string list"
  condition :: "string option"
  failure_policy :: string
  timeout_ms :: "int option"
  dispatch_strategy :: "string option"
  target_project :: "string option"
  requested_cwd :: "string option"
  flow_id :: "string option"
  scope :: "string option"
  commit_policy :: "string option"
  owned_files_raw :: "string option"
  forbidden_files_raw :: "string option"
  acceptance_commands_raw :: "string option"
  execution_order :: "string option"
  parallel_group :: "string option"
  atom_level :: "u32 option"
  atom_task_id :: "string option"
  predicted_tool_sequence_raw :: "string option"
  context_sources_raw :: "string option"
  acceptance_mode_raw :: "string option"
  acceptance_evidence_keys_raw :: "string option"
  acceptance_depends_on :: "string list"
  acceptance_requires_raw :: "string option"
  acceptance_source_node :: "string option"
  workstation_dispatch_flag :: "string option"
  review_gate :: "string option"
  review_action :: "string option"
  review_text :: "string option"
  retry_count :: "u32 option"
  retry_delay_ms :: "u64 option"
  retry_parse_error :: "(string \<times> string \<times> string) option"
  rollback_policy :: "string option"
  rollback_objective :: "string option"
  rollback_owned_files_raw :: "string option"
  rollback_acceptance_commands_raw :: "string option"
  compensates :: "string option"
  compensate_node :: "string option"
  rollback_cascade :: "string option"
  rollback_after :: "string list"
  unsupported_fields :: "(string \<times> string) list"

record parsed_dag =
  nodes :: "dag_node list"
  unsupported_top_forms :: "string list"

definition empty_node :: dag_node where
  "empty_node =
     \<lparr> node_id = '''', target = '''', objective = None, depends_on = [], condition = None,
       failure_policy = '''', timeout_ms = None, dispatch_strategy = None, target_project = None,
       requested_cwd = None, flow_id = None, scope = None, commit_policy = None,
       owned_files_raw = None, forbidden_files_raw = None, acceptance_commands_raw = None,
       execution_order = None, parallel_group = None, atom_level = None, atom_task_id = None,
       predicted_tool_sequence_raw = None, context_sources_raw = None, acceptance_mode_raw = None,
       acceptance_evidence_keys_raw = None, acceptance_depends_on = [],
       acceptance_requires_raw = None, acceptance_source_node = None,
       workstation_dispatch_flag = None, review_gate = None, review_action = None,
       review_text = None, retry_count = None, retry_delay_ms = None, retry_parse_error = None,
       rollback_policy = None, rollback_objective = None, rollback_owned_files_raw = None,
       rollback_acceptance_commands_raw = None, compensates = None, compensate_node = None,
       rollback_cascade = None, rollback_after = [], unsupported_fields = [] \<rparr>"

subsection \<open>Build errors\<close>

datatype dag_build_error =
    InvalidContract string
  | NoNodes
  | DuplicateId string
  | InvalidTarget string string
  | DependencyMissing string string
  | SelfDependency string
  | Cycle "string list"
  | InvalidRetryHint string string string string
  | AcceptanceDependencyMissing string string
  | AcceptanceSourceNodeInvalid string string
  | AcceptanceFanInRequiresMissing string "string option"
  | AcceptanceFanInDepNotAncestor string string
  | CompensateNodeInvalid string string string string
  | CompensateDirectionMismatch string string string

subsection \<open>Projections of a node\<close>

definition blank :: "string option \<Rightarrow> bool" where
  "blank s \<longleftrightarrow> (case s of None \<Rightarrow> True | Some r \<Rightarrow> trim r = [])"

definition workstation_dispatch_opt_in :: "dag_node \<Rightarrow> bool" where
  "workstation_dispatch_opt_in n =
     (case workstation_dispatch_flag n of
        Some raw \<Rightarrow> to_lower (trim raw) \<in> {''true'', ''yes'', ''on'', ''1''}
      | None \<Rightarrow> False)"

definition review_gate_kind :: "dag_node \<Rightarrow> review_gate_kind" where
  "review_gate_kind n =
     (case review_gate n of
        None \<Rightarrow> GateNone
      | Some s \<Rightarrow>
          (let lc = to_lower (trim s)
           in if lc = '''' \<or> lc = ''none'' then GateNone
              else if lc = ''question-event'' \<or> lc = ''question_event'' then GateQuestionEvent
              else GateNone))"

text \<open>\<open>saturating_add\<close> and \<open>clamp\<close> on \<open>u32\<close>.\<close>

definition sat_add_u32 :: "u32 \<Rightarrow> u32 \<Rightarrow> u32" where
  "sat_add_u32 a b = (if uint a + uint b < 2 ^ 32 then a + b else - 1)"

definition sat_sub_u32 :: "u32 \<Rightarrow> u32 \<Rightarrow> u32" where
  "sat_sub_u32 a b = (if b \<le> a then a - b else 0)"

definition effective_max_attempts :: "dag_node \<Rightarrow> u32" where
  "effective_max_attempts n =
     (let extra = unwrap_or (retry_count n) 0; total = sat_add_u32 extra 1
      in max 1 (min total MAX_NODE_ATTEMPTS_CAP))"

definition retry_enabled :: "dag_node \<Rightarrow> bool" where
  "retry_enabled n \<longleftrightarrow> effective_max_attempts n > 1"

definition effective_retry_delay_ms :: "dag_node \<Rightarrow> u64 option" where
  "effective_retry_delay_ms n =
     (case retry_delay_ms n of
        None \<Rightarrow> None
      | Some d \<Rightarrow> if d > 0 then Some (min d MAX_RETRY_DELAY_MS) else None)"

definition acceptance_mode_kind :: "dag_node \<Rightarrow> acceptance_mode option" where
  "acceptance_mode_kind n =
     (case acceptance_mode_raw n of
        None \<Rightarrow> None
      | Some raw \<Rightarrow> if trim raw = [] then None else parse_acceptance_mode (trim raw))"

definition acceptance_requires_kind :: "dag_node \<Rightarrow> acceptance_requires option" where
  "acceptance_requires_kind n =
     (case acceptance_requires_raw n of
        None \<Rightarrow> None
      | Some raw \<Rightarrow> if trim raw = [] then None else parse_acceptance_requires (trim raw))"

definition has_acceptance_hints :: "dag_node \<Rightarrow> bool" where
  "has_acceptance_hints n \<longleftrightarrow>
     \<not> blank (acceptance_mode_raw n) \<or> \<not> blank (acceptance_commands_raw n)
     \<or> \<not> blank (acceptance_evidence_keys_raw n)
     \<or> (acceptance_depends_on n \<noteq> [] \<or> \<not> blank (acceptance_requires_raw n))"

definition has_acceptance_fan_in :: "dag_node \<Rightarrow> bool" where
  "has_acceptance_fan_in n \<longleftrightarrow>
     acceptance_depends_on n \<noteq> [] \<and> acceptance_requires_kind n \<noteq> None"

definition rollback_policy_kind :: "dag_node \<Rightarrow> rollback_policy option" where
  "rollback_policy_kind n =
     (case rollback_policy n of
        None \<Rightarrow> None
      | Some raw \<Rightarrow> if trim raw = [] then None else parse_rollback_policy (trim raw))"

subsection \<open>Bounds of the retry projections\<close>

lemma max_attempts_bounds:
  "1 \<le> effective_max_attempts n \<and> effective_max_attempts n \<le> 3"
  by (auto simp: effective_max_attempts_def MAX_NODE_ATTEMPTS_CAP_def Let_def max_def min_def)

lemma u32_sum_fits: "uint (a :: u32) + uint b < 2 ^ 32 \<longleftrightarrow> unat a + unat b < 2 ^ 32"
proof -
  have "uint a + uint b = int (unat a + unat b)" by (simp only: uint_nat of_nat_add)
  moreover have "(2 :: int) ^ 32 = int (2 ^ 32)" by (simp only: of_nat_power of_nat_numeral)
  ultimately show ?thesis by (simp only: of_nat_less_iff)
qed

lemma unat_sat_add_u32: "unat (sat_add_u32 a b) = min (unat a + unat b) (2 ^ 32 - 1)"
proof (cases "unat a + unat b < 2 ^ 32")
  case True
  then show ?thesis unfolding sat_add_u32_def u32_sum_fits by (simp add: unat_word_ariths min_def)
next
  case False
  moreover have "unat (- 1 :: u32) = 4294967295" by (simp add: unsigned_minus_1_eq_mask mask_eq_exp_minus_1)
  ultimately show ?thesis unfolding sat_add_u32_def u32_sum_fits by (simp add: min_def)
qed

lemma unat_sat_sub_u32: "unat (sat_sub_u32 a b) = unat a - unat b"
  by (auto simp: sat_sub_u32_def unat_sub word_le_nat_alt)

text \<open>The attempt budget as a natural number.\<close>

lemma unat_effective_max_attempts:
  "unat (effective_max_attempts n) = min (Suc (unat (unwrap_or (retry_count n) 0))) 3"
proof -
  let ?t = "sat_add_u32 (unwrap_or (retry_count n) 0) 1"
  have t: "unat ?t = min (Suc (unat (unwrap_or (retry_count n) 0))) (2 ^ 32 - 1)"
    by (simp add: unat_sat_add_u32)
  then have "1 \<le> unat ?t" by simp
  then have "1 \<le> ?t" by (simp add: word_le_nat_alt)
  then have "effective_max_attempts n = min ?t 3"
    by (auto simp: effective_max_attempts_def MAX_NODE_ATTEMPTS_CAP_def Let_def max_def min_def)
  moreover have "unat (min ?t 3) = min (unat ?t) 3"
    by (auto simp: min_def word_le_nat_alt)
  ultimately show ?thesis using t by (simp add: min_def)
qed

end
