(* ===== verification/Dag_Outcome.thy ===== *)
theory Dag_Outcome
  imports Dag_Types
begin

text \<open>
  What one run of the plan DAG produces: the acceptance and rollback evaluations attached to a
  node, the node states and lifecycle phases (\<open>outcome/state.rs\<close>), the per-node result
  (\<open>outcome/node_result.rs\<close>) and the aggregate over all results (\<open>outcome/execution.rs\<close>).
  Instants (\<open>chrono::DateTime\<close>) are seconds, as \<open>int\<close>.
\<close>

subsection \<open>Acceptance\<close>

datatype acceptance_status = NotEvaluated | Accepted | Rejected | ManualRequired

fun acceptance_status_wire :: "acceptance_status \<Rightarrow> string" where
  "acceptance_status_wire NotEvaluated = ''not_evaluated''"
| "acceptance_status_wire Accepted = ''accepted''"
| "acceptance_status_wire Rejected = ''rejected''"
| "acceptance_status_wire ManualRequired = ''manual_required''"

record fan_in_outcome =
  fi_mode :: acceptance_requires
  fi_source_nodes :: "string list"
  fi_passed :: bool
  fi_reason :: string

record acceptance_evaluation =
  acc_status :: acceptance_status
  acc_mode :: "acceptance_mode option"
  acc_commands :: "string list"
  acc_evidence_keys :: "string list"
  acc_reason :: string
  acc_fan_in :: "fan_in_outcome option"

definition acceptance_is_inactive :: "acceptance_evaluation \<Rightarrow> bool" where
  "acceptance_is_inactive e \<longleftrightarrow>
     acc_status e = NotEvaluated \<and> acc_mode e = None \<and> acc_commands e = [] \<and>
     acc_evidence_keys e = [] \<and> acc_fan_in e = None"

subsection \<open>Rollback\<close>

datatype rollback_status = NotRequested | DescriptorReady | Dispatched | Refused | RbFailed

fun rollback_status_wire :: "rollback_status \<Rightarrow> string" where
  "rollback_status_wire NotRequested = ''not_requested''"
| "rollback_status_wire DescriptorReady = ''descriptor_ready''"
| "rollback_status_wire Dispatched = ''dispatched''"
| "rollback_status_wire Refused = ''refused''"
| "rollback_status_wire RbFailed = ''failed''"

record compensation_outcome =
  co_node_id :: string
  co_policy :: rollback_policy
  co_status :: rollback_status
  co_reason :: string
  co_objective :: "string option"
  co_owned_files :: "string list"
  co_acceptance_commands :: "string list"
  co_task_brief_preview :: "string option"
  co_task_brief_path :: "string option"
  co_inner_payload :: "json option"

record cascade_outcome =
  ca_mode :: rollback_cascade_mode
  ca_cascade_root :: string
  ca_compensations :: "compensation_outcome list"
  ca_reason :: string

definition cascade_is_inactive :: "cascade_outcome \<Rightarrow> bool" where
  "cascade_is_inactive c \<longleftrightarrow> ca_mode c = CascadeNone \<and> ca_compensations c = []"

record rollback_evaluation =
  rb_policy :: rollback_policy
  rb_status :: rollback_status
  rb_reason :: string
  rb_objective :: "string option"
  rb_owned_files :: "string list"
  rb_acceptance_commands :: "string list"
  rb_task_brief_preview :: "string option"
  rb_task_brief_path :: "string option"
  rb_inner_payload :: "json option"
  rb_cascade :: "cascade_outcome option"

definition rollback_is_inactive :: "rollback_evaluation \<Rightarrow> bool" where
  "rollback_is_inactive e \<longleftrightarrow>
     rb_policy e = RbNone \<and> rb_status e = NotRequested \<and> rb_objective e = None \<and>
     rb_owned_files e = [] \<and> rb_acceptance_commands e = [] \<and>
     (case rb_cascade e of None \<Rightarrow> True | Some c \<Rightarrow> cascade_is_inactive c)"

subsection \<open>Node states and results\<close>

datatype node_state =
    Succeeded
  | Failed string
  | SkippedUpstreamFailed string
  | SkippedCondition
  | SkippedFailFastAbort string
  | Paused string "string option"

datatype node_lifecycle =
    LPending | LReady | LClaimed | LRunning | LSucceeded | LFailed | LSkipped | LPaused

record node_result =
  nr_id :: string
  nr_target :: string
  nr_state :: node_state
  nr_dispatch_strategy :: string
  nr_inner_payload :: json
  nr_attempts_made :: u32
  nr_max_attempts :: u32
  nr_retry_skipped_non_retryable :: bool
  nr_rollback :: "rollback_evaluation option"
  nr_acceptance :: "acceptance_evaluation option"

definition skipped_result :: "string \<Rightarrow> string \<Rightarrow> node_state \<Rightarrow> string \<Rightarrow> node_result" where
  "skipped_result x tgt st strategy =
     \<lparr> nr_id = x, nr_target = tgt, nr_state = st, nr_dispatch_strategy = strategy,
       nr_inner_payload = JNull, nr_attempts_made = 0, nr_max_attempts = 1,
       nr_retry_skipped_non_retryable = False, nr_rollback = None, nr_acceptance = None \<rparr>"

subsection \<open>Aggregates\<close>

record execution_outcome =
  eo_results :: "node_result list"
  eo_aborted_fail_fast :: bool

fun is_paused :: "node_state \<Rightarrow> bool" where
  "is_paused (Paused _ _) = True" | "is_paused _ = False"

fun is_failed :: "node_state \<Rightarrow> bool" where
  "is_failed (Failed _) = True" | "is_failed _ = False"

definition any_paused :: "execution_outcome \<Rightarrow> bool" where
  "any_paused o' \<longleftrightarrow> list_ex (\<lambda>r. is_paused (nr_state r)) (eo_results o')"

definition any_failed :: "execution_outcome \<Rightarrow> bool" where
  "any_failed o' \<longleftrightarrow> list_ex (\<lambda>r. is_failed (nr_state r)) (eo_results o')"

definition all_succeeded :: "execution_outcome \<Rightarrow> bool" where
  "all_succeeded o' \<longleftrightarrow>
     eo_results o' \<noteq> [] \<and> list_all (\<lambda>r. nr_state r = Succeeded) (eo_results o')"

definition aggregate_status :: "execution_outcome \<Rightarrow> string" where
  "aggregate_status o' =
     (if eo_aborted_fail_fast o' then ''dag_failed''
      else if all_succeeded o' then ''dag_succeeded''
      else if any_failed o' then ''dag_partial''
      else if any_paused o' then ''dag_paused''
      else ''dag_partial'')"

definition runner_status :: "execution_outcome \<Rightarrow> string" where
  "runner_status o' =
     (if eo_aborted_fail_fast o' then ''fail_fast_aborted''
      else if all_succeeded o' then ''all_nodes_dispatched''
      else if \<not> any_failed o' \<and> any_paused o' then ''review_gate_paused''
      else ''partial_dispatched'')"

datatype plan_status =
    PlanDraft | PlanAwaitingApproval | PlanApproved | PlanExecuting
  | PlanSucceeded | PlanFailed | PlanSuperseded

fun plan_status_str :: "plan_status \<Rightarrow> string" where
  "plan_status_str PlanDraft = ''draft''"
| "plan_status_str PlanAwaitingApproval = ''awaiting_approval''"
| "plan_status_str PlanApproved = ''approved''"
| "plan_status_str PlanExecuting = ''executing''"
| "plan_status_str PlanSucceeded = ''succeeded''"
| "plan_status_str PlanFailed = ''failed''"
| "plan_status_str PlanSuperseded = ''superseded''"

definition target_plan_status :: "execution_outcome \<Rightarrow> plan_status option" where
  "target_plan_status o' =
     (if all_succeeded o' then Some PlanSucceeded
      else if eo_aborted_fail_fast o' \<or> any_failed o' then Some PlanFailed
      else None)"

definition paused_node_ids :: "execution_outcome \<Rightarrow> string list" where
  "paused_node_ids o' = map nr_id (filter (\<lambda>r. is_paused (nr_state r)) (eo_results o'))"

definition review_question_ids :: "execution_outcome \<Rightarrow> string list" where
  "review_question_ids o' =
     concat (map (\<lambda>r. case nr_state r of Paused q _ \<Rightarrow> [q] | _ \<Rightarrow> []) (eo_results o'))"

text \<open>The JSON rows of the response. Objects are built in the order the code inserts keys; a key
  set later is set at the end.\<close>

fun state_row :: "node_state \<Rightarrow> string \<times> (string \<times> string) list" where
  "state_row Succeeded = (''succeeded'', [])"
| "state_row (Failed reason) = (''failed'', [(''reason'', reason)])"
| "state_row (SkippedUpstreamFailed d) = (''skipped_upstream_failed'', [(''failed_dep'', d)])"
| "state_row SkippedCondition = (''skipped_condition'', [])"
| "state_row (SkippedFailFastAbort a) = (''skipped_fail_fast_abort'', [(''aborter'', a)])"
| "state_row (Paused q _) = (''paused'', [(''review_question_id'', q)])"

fun is_skipped :: "node_state \<Rightarrow> bool" where
  "is_skipped (SkippedUpstreamFailed _) = True"
| "is_skipped SkippedCondition = True"
| "is_skipped (SkippedFailFastAbort _) = True"
| "is_skipped _ = False"

definition skipped_nodes_json :: "execution_outcome \<Rightarrow> json" where
  "skipped_nodes_json o' =
     JArray (map (\<lambda>r. JObject
         ([(''id'', JString (nr_id r)), (''target'', JString (nr_target r)),
           (''state'', JString (fst (state_row (nr_state r))))]
          @ map (\<lambda>kv. (fst kv, JString (snd kv))) (snd (state_row (nr_state r)))))
       (filter (\<lambda>r. is_skipped (nr_state r)) (eo_results o')))"

definition paused_nodes_json :: "execution_outcome \<Rightarrow> json" where
  "paused_nodes_json o' =
     JArray (concat (map (\<lambda>r. case nr_state r of
         Paused q w \<Rightarrow>
           [JObject ([(''id'', JString (nr_id r)), (''target'', JString (nr_target r)),
                      (''state'', JString ''paused''), (''review_question_id'', JString q)]
                     @ (case w of None \<Rightarrow> [] | Some t \<Rightarrow> [(''review_question_warning'', JString t)]))]
       | _ \<Rightarrow> []) (eo_results o')))"

subsection \<open>What the aggregates say\<close>

lemma aggregate_succeeded:
  "aggregate_status o' = ''dag_succeeded'' \<longleftrightarrow> \<not> eo_aborted_fail_fast o' \<and> all_succeeded o'"
  by (auto simp: aggregate_status_def)

lemma all_succeeded_not: "all_succeeded o' \<Longrightarrow> \<not> any_failed o' \<and> \<not> any_paused o'"
  by (auto simp: all_succeeded_def any_failed_def any_paused_def list_all_iff list_ex_iff)

lemma review_ids_length: "length (review_question_ids o') = length (paused_node_ids o')"
proof -
  have "length (concat (map (\<lambda>r. case nr_state r of Paused q _ \<Rightarrow> [q] | _ \<Rightarrow> []) rs)) =
      length (filter (\<lambda>r. is_paused (nr_state r)) rs)" for rs
    by (induction rs) (auto split: node_state.splits)
  then show ?thesis by (simp add: review_question_ids_def paused_node_ids_def)
qed

end
