(* ===== verification/Lisp_List.thy ===== *)
theory Lisp_List
  imports Rust_Text
begin

text \<open>
  The bracketed string lists that carry \<open>owned-files\<close>, \<open>acceptance-commands\<close> and the other list
  hints of a plan: the printer (\<open>lisp_string_list\<close>, \<open>parser/validation.rs\<close>) and the reader
  (\<open>split_lisp_string_list\<close>, \<open>plan/execute_hints.rs\<close>). The reader's loop need not end, so it is
  a \<open>partial_function\<close>: \<open>None\<close> means that the call does not return.
\<close>

abbreviation dquote :: char where "dquote \<equiv> CHR 0x22"
abbreviation bslash :: char where "bslash \<equiv> CHR 0x5C"

subsection \<open>The printer\<close>

definition escape_char :: "char \<Rightarrow> string" where
  "escape_char c =
     (if c = bslash then [bslash, bslash] else if c = dquote then [bslash, dquote] else [c])"

definition escape_text :: "string \<Rightarrow> string" where
  "escape_text s = concat (map escape_char s)"

definition lisp_quote :: "string \<Rightarrow> string" where
  "lisp_quote s = dquote # escape_text s @ [dquote]"

fun join_with :: "string \<Rightarrow> string list \<Rightarrow> string" where
  "join_with sep [] = []"
| "join_with sep [s] = s"
| "join_with sep (s # ss) = s @ sep @ join_with sep ss"

definition lisp_string_list :: "string list \<Rightarrow> string" where
  "lisp_string_list vs = ''['' @ join_with '' '' (map lisp_quote vs) @ '']''"

subsection \<open>The reader\<close>

definition strip_char_prefix :: "char \<Rightarrow> string \<Rightarrow> string option" where
  "strip_char_prefix c s = (case s of [] \<Rightarrow> None | x # xs \<Rightarrow> if x = c then Some xs else None)"

definition strip_char_suffix :: "char \<Rightarrow> string \<Rightarrow> string option" where
  "strip_char_suffix c s = (if s \<noteq> [] \<and> last s = c then Some (butlast s) else None)"

definition strip_brackets :: "char \<Rightarrow> char \<Rightarrow> string \<Rightarrow> string option" where
  "strip_brackets l r s = Option.bind (strip_char_prefix l s) (strip_char_suffix r)"

definition is_sep :: "char \<Rightarrow> bool" where
  "is_sep c \<longleftrightarrow> is_ws c \<or> c = CHR '',''"

definition is_bracket :: "char \<Rightarrow> bool" where
  "is_bracket c \<longleftrightarrow> c \<in> {CHR ''('', CHR '')'', CHR ''['', CHR '']''}"

definition word_char :: "char \<Rightarrow> bool" where
  "word_char c \<longleftrightarrow> \<not> is_ws c \<and> c \<noteq> CHR '','' \<and> c \<noteq> dquote \<and> \<not> is_bracket c"

text \<open>The scan of a quoted item: its text and what is left, from the closing quote on.\<close>

fun scan_quoted :: "bool \<Rightarrow> string \<Rightarrow> string \<times> string" where
  "scan_quoted esc [] = ([], [])"
| "scan_quoted esc (c # cs) =
     (if esc then (case scan_quoted False cs of (s, r) \<Rightarrow> (c # s, r))
      else if c = bslash then (case scan_quoted True cs of (s, r) \<Rightarrow> (c # s, r))
      else if c = dquote then ([], c # cs)
      else (case scan_quoted False cs of (s, r) \<Rightarrow> (c # s, r)))"

definition push_item :: "string list \<Rightarrow> string \<Rightarrow> string list" where
  "push_item out s = (if trim s = [] then out else out @ [s])"

partial_function (option) split_loop :: "string \<Rightarrow> string list \<Rightarrow> string list option" where
  "split_loop cs out =
     (case dropWhile is_sep cs of
        [] \<Rightarrow> Some out
      | c # rest \<Rightarrow>
          if c = dquote then
            split_loop (drop 1 (snd (scan_quoted False rest)))
              (push_item out (fst (scan_quoted False rest)))
          else
            split_loop (dropWhile word_char (c # rest))
              (push_item out (takeWhile word_char (c # rest))))"

definition split_lisp_string_list :: "string option \<Rightarrow> string list option" where
  "split_lisp_string_list raw =
     (case raw of
        None \<Rightarrow> Some []
      | Some r \<Rightarrow>
          if trim r = [] then Some []
          else
            split_loop
              (case strip_brackets (CHR ''['') (CHR '']'') (trim r) of
                 Some i \<Rightarrow> i
               | None \<Rightarrow> unwrap_or (strip_brackets (CHR ''('') (CHR '')'') (trim r)) (trim r))
              [])"

subsection \<open>Reading what was printed\<close>

lemma not_ws_marks [simp]:
  "\<not> is_ws dquote" "\<not> is_ws (CHR ''['')" "\<not> is_ws (CHR '']'')" "is_ws (CHR '' '')"
  by (simp_all add: is_ws_def)

lemma escape_text_Cons [simp]: "escape_text (c # s) = escape_char c @ escape_text s"
  and escape_text_Nil [simp]: "escape_text [] = []"
  by (simp_all add: escape_text_def)

lemma scan_escaped: "scan_quoted False (escape_text s @ dquote # rest) = (escape_text s, dquote # rest)"
  by (induction s) (auto simp: escape_char_def)

lemma escape_text_plain: "bslash \<notin> set s \<Longrightarrow> dquote \<notin> set s \<Longrightarrow> escape_text s = s"
  by (induction s) (auto simp: escape_char_def)

declare split_loop.simps [code]

lemma split_loop_quoted:
  "split_loop (lisp_quote s @ rest) out = split_loop rest (push_item out (escape_text s))"
proof -
  have "dropWhile is_sep (lisp_quote s @ rest) = dquote # escape_text s @ dquote # rest"
    by (simp add: lisp_quote_def is_sep_def)
  then show ?thesis by (subst split_loop.simps) (simp add: scan_escaped)
qed

lemma split_loop_Nil [simp]: "split_loop [] out = Some out"
  by (subst split_loop.simps) simp

lemma split_loop_space [simp]: "split_loop (CHR '' '' # cs) out = split_loop cs out"
  by (subst (1 2) split_loop.simps) (simp add: is_sep_def)

lemma split_loop_join:
  "split_loop (join_with '' '' (map lisp_quote vs)) out = Some (foldl push_item out (map escape_text vs))"
proof (induction "'' ''" "map lisp_quote vs" arbitrary: vs out rule: join_with.induct)
  case 1
  then show ?case by simp
next
  case (2 s)
  then obtain v where "vs = [v]" by auto
  with split_loop_quoted[of v "[]"] show ?case by simp
next
  case (3 s t ss)
  then obtain v ws where vs: "vs = v # ws" and ws: "t # ss = map lisp_quote ws" by auto
  from 3(1)[OF ws] vs ws show ?case
    using split_loop_quoted[of v "'' '' @ join_with '' '' (map lisp_quote ws)" out]
    by (cases ws) auto
qed

lemma foldl_push_item: "foldl push_item out ss = out @ filter (\<lambda>s. trim s \<noteq> []) ss"
  by (induction ss arbitrary: out) (auto simp: push_item_def)

lemma split_printed:
  "split_lisp_string_list (Some (lisp_string_list vs)) =
     Some (filter (\<lambda>s. trim s \<noteq> []) (map escape_text vs))"
proof -
  let ?i = "join_with '' '' (map lisp_quote vs)"
  have t: "trim (lisp_string_list vs) = lisp_string_list vs"
    by (rule trim_fixed) (simp add: lisp_string_list_def)
  have "strip_brackets (CHR ''['') (CHR '']'') (lisp_string_list vs) = Some ?i"
    by (simp add: strip_brackets_def strip_char_prefix_def strip_char_suffix_def lisp_string_list_def
        butlast_append)
  moreover have "lisp_string_list vs \<noteq> []" by (simp add: lisp_string_list_def)
  ultimately show ?thesis
    by (simp add: split_lisp_string_list_def t split_loop_join foldl_push_item)
qed

text \<open>Escaping only ever lengthens an item.\<close>

lemma length_escape: "length s \<le> length (escape_text s)"
  by (induction s) (auto simp: escape_char_def)

lemma escape_text_same: "escape_text s = s \<longleftrightarrow> bslash \<notin> set s \<and> dquote \<notin> set s"
proof (induction s)
  case Nil
  then show ?case by simp
next
  case (Cons c s)
  show ?case
  proof (cases "c = bslash \<or> c = dquote")
    case True
    have "length (escape_text (c # s)) > length (c # s)"
      using True length_escape[of s] by (auto simp: escape_char_def)
    then have "escape_text (c # s) \<noteq> c # s" by (metis less_irrefl)
    with True show ?thesis by auto
  next
    case False
    with Cons show ?thesis by (auto simp: escape_char_def)
  qed
qed

lemma escaped_list_same:
  "filter (\<lambda>s. trim s \<noteq> []) (map escape_text vs) = vs \<longleftrightarrow>
     (\<forall>v \<in> set vs. trim v \<noteq> [] \<and> bslash \<notin> set v \<and> dquote \<notin> set v)"
proof
  assume e: "filter (\<lambda>s. trim s \<noteq> []) (map escape_text vs) = vs"
  then have "length (filter (\<lambda>s. trim s \<noteq> []) (map escape_text vs)) = length (map escape_text vs)" by simp
  then have "\<forall>s \<in> set (map escape_text vs). trim s \<noteq> []"
    using length_filter_less[of _ "map escape_text vs" "\<lambda>s. trim s \<noteq> []"] by fastforce
  then have all: "\<forall>v \<in> set vs. trim (escape_text v) \<noteq> []" by simp
  then have "filter (\<lambda>s. trim s \<noteq> []) (map escape_text vs) = map escape_text vs" by (simp add: filter_id_conv)
  with e have "map escape_text vs = vs" by simp
  then have same: "\<forall>v \<in> set vs. escape_text v = v" using map_eq_conv[of escape_text vs "\<lambda>v. v"] by simp
  then show "\<forall>v \<in> set vs. trim v \<noteq> [] \<and> bslash \<notin> set v \<and> dquote \<notin> set v"
    using all by (metis escape_text_same)
next
  assume a: "\<forall>v \<in> set vs. trim v \<noteq> [] \<and> bslash \<notin> set v \<and> dquote \<notin> set v"
  then have "map escape_text vs = vs" by (simp add: escape_text_same map_idI)
  then show "filter (\<lambda>s. trim s \<noteq> []) (map escape_text vs) = vs" using a by (simp add: filter_id_conv)
qed

subsection \<open>When the reader returns\<close>

lemma scan_quoted_suffix: "\<exists>pre. cs = pre @ snd (scan_quoted esc cs)"
proof (induction esc cs rule: scan_quoted.induct)
  case (1 esc)
  then show ?case by simp
next
  case (2 esc c cs)
  have "\<exists>pre. c # cs = pre @ snd (scan_quoted b cs)" if "\<exists>pre. cs = pre @ snd (scan_quoted b cs)" for b
    using that by (metis append_Cons)
  moreover have "\<exists>pre. c # cs = pre @ (c # cs)" by simp
  ultimately show ?case using 2 by (auto simp: case_prod_beta)
qed

lemma split_loop_returns: "\<forall>c \<in> set cs. \<not> is_bracket c \<Longrightarrow> \<exists>ys. split_loop cs out = Some ys"
proof (induction "length cs" arbitrary: cs out rule: less_induct)
  case less
  show ?case
  proof (cases "dropWhile is_sep cs")
    case Nil
    show ?thesis by (subst split_loop.simps) (simp only: Nil list.case option.inject, simp)
  next
    case (Cons c rest)
    then have sub: "set (c # rest) \<subseteq> set cs" and len: "length (c # rest) \<le> length cs"
      using set_dropWhileD[of _ is_sep cs] length_dropWhile_le[of is_sep cs] by (auto simp del: length_Cons)
    have nsep: "\<not> is_sep c" using hd_dropWhile[of is_sep cs] Cons by simp
    show ?thesis
    proof (cases "c = dquote")
      case True
      let ?r = "drop 1 (snd (scan_quoted False rest))"
      obtain pre where pre: "rest = pre @ snd (scan_quoted False rest)" using scan_quoted_suffix by blast
      have "set ?r \<subseteq> set rest" using pre by (metis le_supE order_refl order_trans set_append set_drop_subset)
      moreover have "length ?r \<le> length rest"
        using arg_cong[OF pre, of length] by simp
      moreover have "set rest \<subseteq> set cs" "length rest < length cs" using sub len by auto
      ultimately have "\<exists>ys. split_loop ?r out' = Some ys" for out'
        by (intro less.hyps) (use less.prems in auto)
      with True Cons show ?thesis by (subst split_loop.simps) simp
    next
      case False
      have w: "word_char c" using nsep False less.prems sub by (auto simp: word_char_def is_sep_def)
      let ?r = "dropWhile word_char (c # rest)"
      have "set ?r \<subseteq> set cs" using sub set_dropWhileD by (metis subset_iff)
      moreover have "length ?r < length cs"
        using w len length_dropWhile_le[of word_char rest] by simp
      ultimately have "\<exists>ys. split_loop ?r out' = Some ys" for out'
        using less.hyps[of ?r] less.prems by blast
      with False Cons show ?thesis by (subst split_loop.simps) simp
    qed
  qed
qed

text \<open>A bracket where an item should start makes no progress: the loop never ends.\<close>

lemma split_loop_stuck_aux:
  assumes "split_loop cs out = Some ys"
  shows "\<forall>c rest. dropWhile is_sep cs = c # rest \<longrightarrow> \<not> is_bracket c"
proof (rule split_loop.raw_induct
    [where P = "\<lambda>cs out ys. \<forall>c rest. dropWhile is_sep cs = c # rest \<longrightarrow> \<not> is_bracket c", OF _ assms],
    goal_cases)
  case (1 f cs out ys)
  show ?case
  proof (intro allI impI notI)
    fix c rest
    assume d: "dropWhile is_sep cs = c # rest" and b: "is_bracket c"
    then have nw: "\<not> word_char c" and nq: "c \<noteq> dquote" and ns: "\<not> is_sep c"
      by (auto simp: word_char_def is_bracket_def is_sep_def is_ws_def)
    from 1(2) d nw nq have "f (c # rest) (push_item out []) = Some ys" by simp
    from 1(1)[OF this] ns b show False by simp
  qed
qed

lemma split_loop_stuck: "is_bracket c \<Longrightarrow> \<forall>x \<in> set pre. is_sep x \<Longrightarrow> split_loop (pre @ c # rest) out = None"
proof -
  assume b: "is_bracket c" and pre: "\<forall>x \<in> set pre. is_sep x"
  then have "dropWhile is_sep (pre @ c # rest) = c # rest"
    by (auto simp: dropWhile_append2 is_bracket_def is_sep_def is_ws_def)
  with split_loop_stuck_aux[of "pre @ c # rest" out] b show ?thesis
    by (cases "split_loop (pre @ c # rest) out") auto
qed

end
