(* ===== verification/Acceptance.thy ===== *)
theory Acceptance
  imports Dag_Outcome Lisp_List
begin

text \<open>
  The deterministic acceptance phase (\<open>acceptance/payload.rs\<close>, \<open>acceptance/evaluator.rs\<close>,
  \<open>acceptance/fan_in.rs\<close>, \<open>acceptance/pause.rs\<close>). An evaluation reads list hints, whose reader
  may not return: the evaluators are options, \<open>None\<close> standing for a call that does not return.
  In three messages the source has an em dash, written \<open>--\<close> here.
\<close>

subsection \<open>Debug format of a string list\<close>

definition hex_digit :: "nat \<Rightarrow> char" where
  "hex_digit d = (if d < 10 then char_of (48 + d) else char_of (87 + d))"

definition show_hex :: "nat \<Rightarrow> string" where
  "show_hex n = (if n < 16 then [hex_digit n] else [hex_digit (n div 16), hex_digit (n mod 16)])"

definition debug_char :: "char \<Rightarrow> string" where
  "debug_char c =
     (let n = (of_char c :: nat) in
      if n = 0 then [bslash, CHR ''0'']
      else if n = 9 then [bslash, CHR ''t'']
      else if n = 13 then [bslash, CHR ''r'']
      else if n = 10 then [bslash, CHR ''n'']
      else if c = bslash \<or> c = dquote then [bslash, c]
      else if n < 32 \<or> (127 \<le> n \<and> n \<le> 160) \<or> n = 173 then [bslash, CHR ''u'', CHR 0x7B] @ show_hex n @ [CHR 0x7D]
      else [c])"

definition show_debug :: "string \<Rightarrow> string" where
  "show_debug s = dquote # concat (map debug_char s) @ [dquote]"

definition show_debug_list :: "string list \<Rightarrow> string" where
  "show_debug_list ss = ''['' @ join_with '', '' (map show_debug ss) @ '']''"

subsection \<open>Reading the inner payload\<close>

definition starts_with :: "string \<Rightarrow> string \<Rightarrow> bool" where
  "starts_with p s \<longleftrightarrow> take (length p) s = p"

definition opt_str :: "json \<Rightarrow> string \<Rightarrow> string option" where
  "opt_str v k = Option.bind (j_get v k) as_str"

definition opt_bool :: "json \<Rightarrow> string \<Rightarrow> bool option" where
  "opt_bool v k = Option.bind (j_get v k) as_bool"

definition ticked :: "string \<Rightarrow> string \<Rightarrow> string" where
  "ticked k s = k @ ''=`'' @ s @ ''`''"

definition inner_payload_failure_signal :: "json \<Rightarrow> string option" where
  "inner_payload_failure_signal p =
     (case as_object p of None \<Rightarrow> None | Some _ \<Rightarrow>
        if (case opt_str p ''error'' of None \<Rightarrow> False | Some s \<Rightarrow> trim s \<noteq> []) then
          Some (ticked ''error'' (the (opt_str p ''error'')))
        else if opt_bool p ''success'' = Some False then Some ''success=false''
        else if opt_bool p ''ok'' = Some False then Some ''ok=false''
        else if (case opt_str p ''status'' of None \<Rightarrow> False
                 | Some s \<Rightarrow> to_lower (trim s) \<in> {''error'', ''failed'', ''fail''}) then
          Some (ticked ''status'' (the (opt_str p ''status'')))
        else if (case opt_str p ''workstation_dispatch_status'' of None \<Rightarrow> False
                 | Some s \<Rightarrow> to_lower (trim s) = ''failed'' \<or> starts_with ''skipped_'' (to_lower (trim s))) then
          Some (ticked ''workstation_dispatch_status'' (the (opt_str p ''workstation_dispatch_status'')))
        else None)"

definition nested_holders :: "string list" where
  "nested_holders = [''evidence'', ''typed_evidence'', ''inner_result'', ''inner_dispatch'', ''result'']"

text \<open>The search for a key. The code looks a nested holder up with \<open>map.get\<close>; walking the
  entries and asking whether one is the first with a holder's key is the same search.\<close>

fun payload_contains_key :: "json \<Rightarrow> string \<Rightarrow> bool"
  and fields_contain_key :: "string set \<Rightarrow> (string \<times> json) list \<Rightarrow> string \<Rightarrow> bool"
  and items_contain_key :: "json list \<Rightarrow> string \<Rightarrow> bool" where
  "payload_contains_key (JObject fs) key = (key \<in> fst ` set fs \<or> fields_contain_key {} fs key)"
| "payload_contains_key (JArray vs) key = items_contain_key vs key"
| "payload_contains_key _ key = False"
| "fields_contain_key seen [] key = False"
| "fields_contain_key seen ((k, v) # fs) key =
     ((k \<in> set nested_holders \<and> k \<notin> seen \<and> payload_contains_key v key)
      \<or> fields_contain_key (insert k seen) fs key)"
| "items_contain_key [] key = False"
| "items_contain_key (v # vs) key = (payload_contains_key v key \<or> items_contain_key vs key)"

definition inner_payload_missing_keys :: "json \<Rightarrow> string list \<Rightarrow> string list" where
  "inner_payload_missing_keys p required = filter (\<lambda>k. \<not> payload_contains_key p k) required"

lemma fields_contain_key_lookup:
  "fields_contain_key seen fs key \<longleftrightarrow>
     (\<exists>k \<in> set nested_holders. k \<notin> seen \<and> (\<exists>v. map_of fs k = Some v \<and> payload_contains_key v key))"
proof (induction fs arbitrary: seen)
  case Nil
  then show ?case by simp
next
  case (Cons kv fs)
  obtain k v where kv: "kv = (k, v)" by (cases kv)
  have ih: "fields_contain_key (insert k seen) fs key \<longleftrightarrow>
      (\<exists>j \<in> set nested_holders. j \<notin> insert k seen \<and> (\<exists>v. map_of fs j = Some v \<and> payload_contains_key v key))"
    by (rule Cons.IH)
  show ?case unfolding kv fields_contain_key.simps ih by auto
qed

text \<open>The search as the code states it: the object has the key, or the value of one of the five
  holders contains it.\<close>

lemma payload_contains_key_object:
  "payload_contains_key (JObject fs) key \<longleftrightarrow>
     key \<in> fst ` set fs \<or>
     (\<exists>k \<in> set nested_holders. \<exists>v. j_get (JObject fs) k = Some v \<and> payload_contains_key v key)"
  by (simp add: fields_contain_key_lookup)

lemma payload_contains_key_array:
  "payload_contains_key (JArray vs) key \<longleftrightarrow> (\<exists>v \<in> set vs. payload_contains_key v key)"
proof -
  have "items_contain_key vs key \<longleftrightarrow> (\<exists>v \<in> set vs. payload_contains_key v key)"
    by (induction vs) auto
  then show ?thesis by simp
qed

subsection \<open>The per-node evaluator\<close>

definition eval_with ::
  "acceptance_status \<Rightarrow> acceptance_mode option \<Rightarrow> string list \<Rightarrow> string list \<Rightarrow> string \<Rightarrow> acceptance_evaluation"
where
  "eval_with st m cmds keys reason =
     \<lparr> acc_status = st, acc_mode = m, acc_commands = cmds, acc_evidence_keys = keys,
       acc_reason = reason, acc_fan_in = None \<rparr>"

definition evaluate_hints ::
  "dag_node \<Rightarrow> json \<Rightarrow> bool \<Rightarrow> string list \<Rightarrow> string list \<Rightarrow> acceptance_evaluation"
where
  "evaluate_hints n payload dispatch_succeeded commands keys =
     (let mode_raw = trim (unwrap_or (acceptance_mode_raw n) []);
          mode = (if mode_raw = [] then None else parse_acceptance_mode mode_raw);
          mk = (\<lambda>st reason. eval_with st mode commands keys reason)
      in if mode = None \<and> commands = [] \<and> keys = [] then
           mk NotEvaluated ''no acceptance hints declared''
         else if mode = None \<and> commands = [] \<and> has_acceptance_fan_in n then
           mk NotEvaluated ''per-node acceptance deferred to cross-node fan-in evaluator''
         else case mode of
           Some Manual \<Rightarrow> mk ManualRequired ''acceptance-mode=manual; human approval required''
         | Some InnerStatus \<Rightarrow>
             if \<not> dispatch_succeeded then
               mk Rejected ''inner_status: dispatch classification was not Ok''
             else (case inner_payload_failure_signal payload of
                 Some detail \<Rightarrow>
                   mk Rejected (''inner_status: inner payload reports non-success ('' @ detail @ '')'')
               | None \<Rightarrow>
                   mk Accepted ''inner_status: dispatch Ok and payload carries no error signal'')
         | Some EvidenceKeys \<Rightarrow>
             if keys = [] then
               mk ManualRequired ''evidence_keys mode declared but :acceptance-evidence-keys is empty''
             else (let missing = inner_payload_missing_keys payload keys in
               if missing = [] then
                 mk Accepted ''evidence_keys: all required keys present in inner payload''
               else mk Rejected (''evidence_keys: missing required keys '' @ show_debug_list missing))
         | None \<Rightarrow>
             if commands \<noteq> [] then
               mk ManualRequired (''acceptance commands declared ('' @ show_nat (length commands)
                 @ '' item(s)) without :acceptance-mode; PLAN DAG never runs shell -- manual approval required'')
             else
               mk ManualRequired (''acceptance evidence keys declared ('' @ show_nat (length keys)
                 @ '' item(s)) without :acceptance-mode; manual approval required''))"

definition evaluate_node_acceptance ::
  "dag_node \<Rightarrow> json \<Rightarrow> bool \<Rightarrow> acceptance_evaluation option" where
  "evaluate_node_acceptance n payload dispatch_succeeded =
     Option.bind (split_lisp_string_list (acceptance_commands_raw n)) (\<lambda>commands.
     Option.bind (split_lisp_string_list (acceptance_evidence_keys_raw n)) (\<lambda>keys.
       Some (evaluate_hints n payload dispatch_succeeded commands keys)))"

subsection \<open>Cross-node fan-in\<close>

definition fi_out :: "acceptance_requires \<Rightarrow> string list \<Rightarrow> bool \<Rightarrow> string \<Rightarrow> fan_in_outcome" where
  "fi_out m srcs ok reason =
     \<lparr> fi_mode = m, fi_source_nodes = srcs, fi_passed = ok, fi_reason = reason \<rparr>"

definition node_succeeded :: "(string \<rightharpoonup> node_result) \<Rightarrow> string \<Rightarrow> bool" where
  "node_succeeded prior x = (case prior x of None \<Rightarrow> False | Some r \<Rightarrow> nr_state r = Succeeded)"

definition fan_in_result ::
  "dag_node \<Rightarrow> acceptance_requires \<Rightarrow> (string \<rightharpoonup> node_result) \<Rightarrow> fan_in_outcome option" where
  "fan_in_result n mode prior =
     (let srcs = acceptance_depends_on n in
      case mode of
        AllSucceeded \<Rightarrow>
          (let failing = filter (\<lambda>x. \<not> node_succeeded prior x) srcs in
           Some (if failing = [] then
               fi_out mode srcs True
                 (''all_succeeded: every source node ('' @ show_nat (length srcs) @ '') reached succeeded'')
             else
               fi_out mode srcs False
                 (''all_succeeded: source node(s) not succeeded: '' @ show_debug_list failing)))
      | AnySucceeded \<Rightarrow>
          Some (if list_ex (node_succeeded prior) srcs then
              fi_out mode srcs True ''any_succeeded: at least one source node reached succeeded''
            else
              fi_out mode srcs False
                (''any_succeeded: no source node ('' @ show_nat (length srcs) @ '') reached succeeded''))
      | RequiresEvidenceKeys \<Rightarrow>
          (let source = unwrap_or (acceptance_source_node n) [] in
           Option.bind (split_lisp_string_list (acceptance_evidence_keys_raw n)) (\<lambda>keys.
           Some (if source = [] then
               fi_out mode srcs False ''evidence_keys: :acceptance-source-node is missing''
             else if keys = [] then
               fi_out mode [source] False
                 ''evidence_keys: :acceptance-evidence-keys is empty -- nothing to prove''
             else case prior source of
               None \<Rightarrow>
                 fi_out mode [source] False (''evidence_keys: source node `'' @ source @ ''` produced no result'')
             | Some r \<Rightarrow>
                 (let missing = inner_payload_missing_keys (nr_inner_payload r) keys in
                  if missing = [] then
                    fi_out mode [source] True
                      (''evidence_keys: source node `'' @ source @ ''` carries every required key'')
                  else
                    fi_out mode [source] False
                      (''evidence_keys: source node `'' @ source @ ''` missing keys '' @ show_debug_list missing))))))"

definition apply_acceptance_fan_in ::
  "acceptance_evaluation \<Rightarrow> dag_node \<Rightarrow> (string \<rightharpoonup> node_result) \<Rightarrow> acceptance_evaluation option" where
  "apply_acceptance_fan_in base n prior =
     (if \<not> has_acceptance_fan_in n then Some base
      else Option.bind (fan_in_result n (the (acceptance_requires_kind n)) prior) (\<lambda>out.
        let next = base\<lparr> acc_fan_in := Some out \<rparr>; why = ''acceptance_fan_in: '' @ fi_reason out in
        Some (if acc_status base = Rejected \<or> acc_status base = ManualRequired then next
          else if fi_passed out then
            (if acc_status next = NotEvaluated then next\<lparr> acc_status := Accepted, acc_reason := why \<rparr> else next)
          else next\<lparr> acc_status := Rejected, acc_reason := why \<rparr>)))"

definition derive_acceptance_pause_id :: "string \<Rightarrow> int \<Rightarrow> string \<Rightarrow> string" where
  "derive_acceptance_pause_id plan_id plan_version x =
     ''acceptance:plan:'' @ plan_id @ '':v'' @ show_int plan_version @ '':'' @ x"

subsection \<open>The acceptance phase of a successful dispatch (\<open>runtime/acceptance.rs\<close>)\<close>

fun acceptance_label :: "acceptance_status \<Rightarrow> string" where
  "acceptance_label NotEvaluated = ''succeeded''"
| "acceptance_label Accepted = ''succeeded''"
| "acceptance_label Rejected = ''failed''"
| "acceptance_label ManualRequired = ''paused''"

fun acceptance_lifecycle :: "acceptance_status \<Rightarrow> node_lifecycle" where
  "acceptance_lifecycle NotEvaluated = LSucceeded"
| "acceptance_lifecycle Accepted = LSucceeded"
| "acceptance_lifecycle Rejected = LFailed"
| "acceptance_lifecycle ManualRequired = LPaused"

definition acceptance_node_state ::
  "string \<Rightarrow> int \<Rightarrow> dag_node \<Rightarrow> acceptance_evaluation \<Rightarrow> node_state" where
  "acceptance_node_state plan_id plan_version n e =
     (case acc_status e of
        NotEvaluated \<Rightarrow> Succeeded
      | Accepted \<Rightarrow> Succeeded
      | Rejected \<Rightarrow> Failed (''acceptance_rejected: '' @ acc_reason e)
      | ManualRequired \<Rightarrow> Paused (derive_acceptance_pause_id plan_id plan_version (node_id n)) None)"

record success_acceptance =
  sa_acceptance :: acceptance_evaluation
  sa_active :: bool
  sa_lifecycle :: node_lifecycle
  sa_state :: node_state
  sa_label :: string

definition evaluate_success_acceptance ::
  "string \<Rightarrow> int \<Rightarrow> dag_node \<Rightarrow> json \<Rightarrow> (string \<rightharpoonup> node_result) \<Rightarrow> success_acceptance option" where
  "evaluate_success_acceptance plan_id plan_version n payload results =
     Option.bind (evaluate_node_acceptance n payload True) (\<lambda>base.
     Option.bind (apply_acceptance_fan_in base n results) (\<lambda>e.
       Some \<lparr> sa_acceptance = e, sa_active = (\<not> acceptance_is_inactive e),
              sa_lifecycle = acceptance_lifecycle (acc_status e),
              sa_state = acceptance_node_state plan_id plan_version n e,
              sa_label = acceptance_label (acc_status e) \<rparr>))"

definition sa_rejected :: "success_acceptance \<Rightarrow> bool" where
  "sa_rejected s \<longleftrightarrow> acc_status (sa_acceptance s) = Rejected"

subsection \<open>What acceptance promises\<close>

text \<open>The two gates a dispatched node passes to count as succeeded.\<close>

definition node_gate :: "dag_node \<Rightarrow> json \<Rightarrow> string list \<Rightarrow> string list \<Rightarrow> bool" where
  "node_gate n payload commands keys \<longleftrightarrow>
     (case acceptance_mode_kind n of
        Some Manual \<Rightarrow> False
      | Some InnerStatus \<Rightarrow> inner_payload_failure_signal payload = None
      | Some EvidenceKeys \<Rightarrow> keys \<noteq> [] \<and> (\<forall>k \<in> set keys. payload_contains_key payload k)
      | None \<Rightarrow> commands = [] \<and> (keys = [] \<or> has_acceptance_fan_in n))"

definition fan_in_gate :: "dag_node \<Rightarrow> (string \<rightharpoonup> node_result) \<Rightarrow> string list \<Rightarrow> bool" where
  "fan_in_gate n prior keys \<longleftrightarrow>
     (if \<not> has_acceptance_fan_in n then True
      else case acceptance_requires_kind n of
        None \<Rightarrow> True
      | Some AllSucceeded \<Rightarrow> (\<forall>x \<in> set (acceptance_depends_on n). node_succeeded prior x)
      | Some AnySucceeded \<Rightarrow> (\<exists>x \<in> set (acceptance_depends_on n). node_succeeded prior x)
      | Some RequiresEvidenceKeys \<Rightarrow>
          keys \<noteq> [] \<and>
          (case acceptance_source_node n of
             None \<Rightarrow> False
           | Some source \<Rightarrow> source \<noteq> [] \<and>
               (case prior source of
                  None \<Rightarrow> False
                | Some r \<Rightarrow> \<forall>k \<in> set keys. payload_contains_key (nr_inner_payload r) k)))"

lemma missing_keys_Nil: "inner_payload_missing_keys p ks = [] \<longleftrightarrow> (\<forall>k \<in> set ks. payload_contains_key p k)"
  by (auto simp: inner_payload_missing_keys_def filter_empty_conv)

lemma mode_kind_trim:
  "acceptance_mode_kind n =
     (if trim (unwrap_or (acceptance_mode_raw n) []) = [] then None
      else parse_acceptance_mode (trim (unwrap_or (acceptance_mode_raw n) [])))"
  by (cases "acceptance_mode_raw n") (auto simp: acceptance_mode_kind_def trim_def trim_end_def trim_start_def)

lemma evaluate_hints_status:
  "acc_status (evaluate_hints n payload True commands keys) \<in> {NotEvaluated, Accepted} \<longleftrightarrow>
     node_gate n payload commands keys"
  unfolding evaluate_hints_def mode_kind_trim[symmetric] Let_def node_gate_def eval_with_def
  by (auto simp: missing_keys_Nil split: option.splits acceptance_mode.splits)

lemma fan_in_passed:
  assumes "has_acceptance_fan_in n" "split_lisp_string_list (acceptance_evidence_keys_raw n) = Some keys"
  shows "\<exists>out. fan_in_result n (the (acceptance_requires_kind n)) prior = Some out \<and>
    (fi_passed out \<longleftrightarrow> fan_in_gate n prior keys)"
proof -
  obtain m where m: "acceptance_requires_kind n = Some m"
    using assms(1) by (auto simp: has_acceptance_fan_in_def)
  show ?thesis
  proof (cases m)
    case AllSucceeded
    then show ?thesis using assms m
      by (auto simp: fan_in_result_def fan_in_gate_def fi_out_def filter_empty_conv Let_def)
  next
    case AnySucceeded
    then show ?thesis using assms m
      by (auto simp: fan_in_result_def fan_in_gate_def fi_out_def list_ex_iff Let_def)
  next
    case RequiresEvidenceKeys
    then show ?thesis using assms m
      by (cases "acceptance_source_node n")
        (auto simp: fan_in_result_def fan_in_gate_def fi_out_def missing_keys_Nil Let_def split: option.splits)
  qed
qed

lemma fan_in_status:
  assumes "split_lisp_string_list (acceptance_evidence_keys_raw n) = Some keys"
  shows "\<exists>e. apply_acceptance_fan_in base n prior = Some e \<and>
    acc_status e =
      (if \<not> has_acceptance_fan_in n \<or> acc_status base = Rejected \<or> acc_status base = ManualRequired
       then acc_status base
       else if fan_in_gate n prior keys then Accepted else Rejected)"
proof (cases "has_acceptance_fan_in n")
  case False
  then show ?thesis by (simp add: apply_acceptance_fan_in_def)
next
  case True
  obtain out where o: "fan_in_result n (the (acceptance_requires_kind n)) prior = Some out"
    "fi_passed out \<longleftrightarrow> fan_in_gate n prior keys" using fan_in_passed[OF True assms] by blast
  show ?thesis using True o
    by (cases "acc_status base") (auto simp: apply_acceptance_fan_in_def Let_def)
qed

lemma success_acceptance_iff:
  assumes "split_lisp_string_list (acceptance_commands_raw n) = Some commands"
    and "split_lisp_string_list (acceptance_evidence_keys_raw n) = Some keys"
  shows "\<exists>s. evaluate_success_acceptance pid ver n payload prior = Some s \<and>
    (sa_lifecycle s = LSucceeded \<longleftrightarrow> node_gate n payload commands keys \<and> fan_in_gate n prior keys) \<and>
    (sa_state s = Succeeded \<longleftrightarrow> sa_lifecycle s = LSucceeded) \<and>
    (sa_lifecycle s = LFailed \<longleftrightarrow> sa_rejected s) \<and> (is_failed (sa_state s) \<longleftrightarrow> sa_rejected s) \<and>
    (sa_lifecycle s = LPaused \<longleftrightarrow> is_paused (sa_state s))"
proof -
  let ?base = "evaluate_hints n payload True commands keys"
  obtain e where e: "apply_acceptance_fan_in ?base n prior = Some e"
    "acc_status e =
      (if \<not> has_acceptance_fan_in n \<or> acc_status ?base = Rejected \<or> acc_status ?base = ManualRequired
       then acc_status ?base else if fan_in_gate n prior keys then Accepted else Rejected)"
    using fan_in_status[OF assms(2)] by blast
  have g: "\<not> has_acceptance_fan_in n \<Longrightarrow> fan_in_gate n prior keys" by (simp add: fan_in_gate_def)
  have st: "acc_status e \<in> {NotEvaluated, Accepted} \<longleftrightarrow>
      node_gate n payload commands keys \<and> fan_in_gate n prior keys"
    using e(2) g evaluate_hints_status[of n payload commands keys] by (cases "acc_status ?base") auto
  show ?thesis
    using e(1) st assms
    by (cases "acc_status e")
      (auto simp: evaluate_success_acceptance_def evaluate_node_acceptance_def sa_rejected_def acceptance_node_state_def)
qed

end
