(* ===== verification/Workstation.thy ===== *)
theory Workstation
  imports Acceptance
begin

text \<open>
  The routing decision of the workstation dispatcher (\<open>workstation_dispatch/decision.rs\<close>), the
  hints and outcomes of its substrate (\<open>workstation_dispatch.rs\<close>,
  \<open>workstation_dispatch/outcome.rs\<close>) and the projection of a plan node into hints
  (\<open>plan_dag/dispatch/workstation.rs\<close>). The substrate itself (processes, files, the project
  registry) is an argument of the functions that call it.
\<close>

subsection \<open>Hints and outcomes\<close>

record ws_hints =
  wh_objective :: "string option"
  wh_scope :: "string option"
  wh_owned_files :: "string list"
  wh_forbidden_files :: "string list"
  wh_acceptance_commands :: "string list"
  wh_commit_policy :: "string option"
  wh_target_project :: "string option"
  wh_requested_cwd :: "string option"
  wh_dispatch_strategy :: "string option"

datatype safe_descriptor_reason =
    UnsupportedTarget string
  | ProjectRootUnresolved string
  | MissingObjective
  | MalformedTaskContract string string
  | CompletionLogUnavailable string

fun safe_reason_status :: "safe_descriptor_reason \<Rightarrow> string" where
  "safe_reason_status (UnsupportedTarget _) = ''skipped_unsupported_target''"
| "safe_reason_status (ProjectRootUnresolved _) = ''skipped_project_root_unresolved''"
| "safe_reason_status MissingObjective = ''skipped_missing_objective''"
| "safe_reason_status (MalformedTaskContract _ _) = ''skipped_malformed_task_contract''"
| "safe_reason_status (CompletionLogUnavailable _) = ''skipped_completion_log_unavailable''"

fun safe_reason_detail :: "safe_descriptor_reason \<Rightarrow> string" where
  "safe_reason_detail (UnsupportedTarget t) =
     ''workstation-dispatch v0 only wraps `mission_task_delegate`, got `'' @ t @ ''`''"
| "safe_reason_detail (ProjectRootUnresolved r) = r"
| "safe_reason_detail MissingObjective =
     ''workstation-dispatch v0 requires either an explicit objective or a plan hint; refusing to dispatch a content-free task brief''"
| "safe_reason_detail (MalformedTaskContract path reason) =
     ''task_contract_path `'' @ path @ ''` is malformed: '' @ reason @
     '' -- refusing to fall back to the legacy natural-language brief because the contract is the SSOT''"
| "safe_reason_detail (CompletionLogUnavailable reason) = reason"

datatype ws_outcome =
    WsDispatched (brief: string) (brief_path: "string option") (payload: json)
  | WsInnerError string json
  | WsDryRun string
  | WsSafeDescriptor safe_descriptor_reason "string option"

fun ws_status :: "ws_outcome \<Rightarrow> string" where
  "ws_status (WsDispatched _ _ _) = ''dispatched''"
| "ws_status (WsInnerError _ _) = ''inner_returned_error''"
| "ws_status (WsDryRun _) = ''dry_run_no_dispatch''"
| "ws_status (WsSafeDescriptor r _) = safe_reason_status r"

definition node_to_workstation_hints :: "dag_node \<Rightarrow> ws_hints option" where
  "node_to_workstation_hints n =
     Option.bind (split_lisp_string_list (owned_files_raw n)) (\<lambda>owned.
     Option.bind (split_lisp_string_list (forbidden_files_raw n)) (\<lambda>forbidden.
     Option.bind (split_lisp_string_list (acceptance_commands_raw n)) (\<lambda>cmds.
       Some \<lparr> wh_objective = objective n, wh_scope = scope n, wh_owned_files = owned,
              wh_forbidden_files = forbidden, wh_acceptance_commands = cmds,
              wh_commit_policy = commit_policy n, wh_target_project = target_project n,
              wh_requested_cwd = requested_cwd n, wh_dispatch_strategy = dispatch_strategy n \<rparr>)))"

text \<open>The classification of an outcome and whether the failure must not be retried.\<close>

definition workstation_classification :: "dag_node \<Rightarrow> ws_outcome \<Rightarrow> (string + unit) \<times> bool" where
  "workstation_classification n out =
     (case out of
        WsDispatched _ _ _ \<Rightarrow> (Inr (), False)
      | WsDryRun _ \<Rightarrow> (Inr (), False)
      | WsInnerError _ p \<Rightarrow>
          (Inl (unwrap_or (opt_str p ''error'') ''workstation_dispatch inner handler returned error''), False)
      | WsSafeDescriptor r _ \<Rightarrow>
          (Inl (''workstation_dispatch refused to dispatch node `'' @ node_id n @ ''`: '' @ safe_reason_detail r),
           True))"

subsection \<open>The routing decision\<close>

datatype ws_source = ExplicitArg | PlanHint | Inferred | SrcDisabled | NotApplicable

fun ws_source_wire :: "ws_source \<Rightarrow> string" where
  "ws_source_wire ExplicitArg = ''explicit_arg''"
| "ws_source_wire PlanHint = ''plan_hint''"
| "ws_source_wire Inferred = ''inferred''"
| "ws_source_wire SrcDisabled = ''disabled''"
| "ws_source_wire NotApplicable = ''not_applicable''"

record dispatch_decision =
  dd_source :: ws_source
  dd_reason :: "string option"

definition decision_enabled :: "dispatch_decision \<Rightarrow> bool" where
  "decision_enabled d \<longleftrightarrow> dd_source d \<in> {ExplicitArg, PlanHint, Inferred}"

definition INFERABLE_DISPATCH_STRATEGIES :: "string list" where
  "INFERABLE_DISPATCH_STRATEGIES =
     [''fresh-code-alignment'', ''resident-lisp'', ''agent-team'', ''mixed'']"

record inference_context =
  ic_target :: string
  ic_dispatch_strategy :: string
  ic_objective :: "string option"
  ic_owned_files_present :: bool
  ic_scope_present :: bool
  ic_target_project_present :: bool
  ic_requested_cwd_present :: bool

definition explicit_workstation_dispatch_flag :: "json \<Rightarrow> bool option" where
  "explicit_workstation_dispatch_flag args = opt_bool args ''workstation_dispatch''"

definition decide :: "ws_source \<Rightarrow> string \<Rightarrow> dispatch_decision" where
  "decide s r = \<lparr> dd_source = s, dd_reason = Some r \<rparr>"

definition evaluate_dispatch_decision ::
  "json \<Rightarrow> bool \<Rightarrow> inference_context \<Rightarrow> dispatch_decision" where
  "evaluate_dispatch_decision args plan_hint ctx =
     (let explicit = explicit_workstation_dispatch_flag args in
      if explicit = Some False then
        decide SrcDisabled ''workstation_dispatch=false suppresses both opt-in and auto-inference''
      else if explicit = Some True then
        decide ExplicitArg ''caller passed workstation_dispatch=true''
      else if plan_hint then
        decide PlanHint ''PLAN.lisp / node carried :workstation-dispatch true''
      else if ic_target ctx \<noteq> ''mission_task_delegate'' then
        decide NotApplicable
          (''auto-inference only wraps mission_task_delegate; resolved target is `'' @ ic_target ctx @ ''`'')
      else if ic_dispatch_strategy ctx \<notin> set INFERABLE_DISPATCH_STRATEGIES then
        decide NotApplicable
          (''auto-inference requires a known workstation dispatch strategy (''
           @ show_debug_list INFERABLE_DISPATCH_STRATEGIES @ ''); got `'' @ ic_dispatch_strategy ctx @ ''`'')
      else if blank (ic_objective ctx) then
        decide NotApplicable
          ''auto-inference requires a non-empty objective (caller arg or PLAN.lisp hint)''
      else if \<not> (ic_owned_files_present ctx \<or> ic_scope_present ctx
                 \<or> ic_target_project_present ctx \<or> ic_requested_cwd_present ctx) then
        decide NotApplicable
          ''auto-inference requires at least one scoping signal: owned_files, scope, target_project, or requested_cwd''
      else
        decide Inferred
          (''inferred from target=mission_task_delegate, dispatch_strategy=`''
           @ ic_dispatch_strategy ctx @ ''`, non-empty objective, scoping signals present''))"

lemma decision_enabled_iff:
  "decision_enabled (evaluate_dispatch_decision args plan_hint ctx) \<longleftrightarrow>
     (case explicit_workstation_dispatch_flag args of
        Some b \<Rightarrow> b
      | None \<Rightarrow> plan_hint \<or>
          (ic_target ctx = ''mission_task_delegate'' \<and>
           ic_dispatch_strategy ctx \<in> set INFERABLE_DISPATCH_STRATEGIES \<and>
           \<not> blank (ic_objective ctx) \<and>
           (ic_owned_files_present ctx \<or> ic_scope_present ctx
            \<or> ic_target_project_present ctx \<or> ic_requested_cwd_present ctx)))"
  unfolding evaluate_dispatch_decision_def decide_def decision_enabled_def Let_def
  by (cases "explicit_workstation_dispatch_flag args") (auto split: bool.splits)

end
