(* ===== verification/Topo_Sort.thy ===== *)
theory Topo_Sort
  imports Dag_Types
begin

text \<open>
  Kahn's topological sort and the transitive-ancestor computation of the plan validator
  (\<open>parser/validation.rs\<close>). The sort is proved panic-free (the \<open>expect\<close> and the \<open>usize\<close>
  decrement can never fail), sound (a returned order lists every node once, after all its
  dependencies) and complete (a cycle is reported only when no such order exists).
\<close>

subsection \<open>Looking nodes up by id\<close>

text \<open>\<open>nodes.iter().map(|n| (n.id, n)).collect::<HashMap>()\<close>: a later duplicate wins.\<close>

definition by_id_map :: "dag_node list \<Rightarrow> string \<rightharpoonup> dag_node" where
  "by_id_map ns = map_of (rev (map (\<lambda>n. (node_id n, n)) ns))"

definition ids_of :: "dag_node list \<Rightarrow> string list" where
  "ids_of ns = map node_id ns"

definition unique_ids :: "dag_node list \<Rightarrow> bool" where
  "unique_ids ns \<longleftrightarrow> distinct (ids_of ns)"

text \<open>The dependency list of an id in a plan.\<close>

definition deps_of :: "dag_node list \<Rightarrow> string \<Rightarrow> string list" where
  "deps_of ns x = (case by_id_map ns x of None \<Rightarrow> [] | Some n \<Rightarrow> depends_on n)"

lemma set_ids_of [simp]: "set (ids_of ns) = node_id ` set ns"
  by (simp add: ids_of_def)

lemma by_id_map_Some: "by_id_map ns x = Some n \<Longrightarrow> n \<in> set ns \<and> node_id n = x"
  unfolding by_id_map_def by (auto dest!: map_of_SomeD)

lemma by_id_map_None: "by_id_map ns x = None \<longleftrightarrow> x \<notin> set (ids_of ns)"
  by (auto simp: by_id_map_def map_of_eq_None_iff image_image)

lemma by_id_map_unique: "unique_ids ns \<Longrightarrow> n \<in> set ns \<Longrightarrow> by_id_map ns (node_id n) = Some n"
proof -
  assume u: "unique_ids ns" and n: "n \<in> set ns"
  have "distinct (map fst (rev (map (\<lambda>n. (node_id n, n)) ns)))"
    using u by (simp add: unique_ids_def ids_of_def rev_map[symmetric] comp_def)
  then show ?thesis
    unfolding by_id_map_def by (rule map_of_is_SomeI) (use n in auto)
qed

lemma deps_of_node: "unique_ids ns \<Longrightarrow> n \<in> set ns \<Longrightarrow> deps_of ns (node_id n) = depends_on n"
  by (simp add: deps_of_def by_id_map_unique)

lemma deps_of_outside: "x \<notin> set (ids_of ns) \<Longrightarrow> deps_of ns x = []"
  using by_id_map_None[of ns x] by (simp add: deps_of_def)

subsection \<open>Building the degree table and the successor table\<close>

definition indeg_init :: "dag_node list \<Rightarrow> (string \<times> nat) list" where
  "indeg_init ns = foldl (\<lambda>al n. al_or_insert (node_id n) 0 al) [] ns"

definition indeg_build :: "dag_node list \<Rightarrow> (string \<times> nat) list" where
  "indeg_build ns =
     foldl (\<lambda>al n. foldl (\<lambda>al dep. al_bump (node_id n) al) al (depends_on n)) (indeg_init ns) ns"

definition succ_push :: "string \<Rightarrow> string \<Rightarrow> (string \<rightharpoonup> string list) \<Rightarrow> (string \<rightharpoonup> string list)" where
  "succ_push dep x m = m(dep \<mapsto> unwrap_or (m dep) [] @ [x])"

definition succ_build :: "dag_node list \<Rightarrow> (string \<rightharpoonup> string list)" where
  "succ_build ns =
     foldl (\<lambda>m n. foldl (\<lambda>m dep. succ_push dep (node_id n) m) m (depends_on n))
       (foldl (\<lambda>m n. m(node_id n \<mapsto> unwrap_or (m (node_id n)) [])) Map.empty ns) ns"

subsection \<open>The sort\<close>

text \<open>The inner loop over the successors of the popped node. \<open>None\<close> is a panic: the entry is
  missing (\<open>expect("succ exists")\<close>) or the count is already 0 (\<open>usize\<close> underflow).\<close>

fun kahn_relax ::
  "string list \<Rightarrow> (string \<times> nat) list \<Rightarrow> string list \<Rightarrow> ((string \<times> nat) list \<times> string list) option" where
  "kahn_relax [] indeg ready = Some (indeg, ready)"
| "kahn_relax (s # ss) indeg ready =
     (case map_of indeg s of
        None \<Rightarrow> None
      | Some 0 \<Rightarrow> None
      | Some (Suc d) \<Rightarrow>
          kahn_relax ss (AList.update s d indeg) (if d = 0 then insort_insert s ready else ready))"

lemma kahn_relax_measure:
  "kahn_relax ss indeg ready = Some (indeg', ready') \<Longrightarrow>
     sum_list (map snd indeg') + length ready' \<le> sum_list (map snd indeg) + length ready"
proof (induction ss indeg ready rule: kahn_relax.induct)
  case (1 indeg ready)
  then show ?case by simp
next
  case (2 s ss indeg ready)
  from "2.prems" obtain d where d: "map_of indeg s = Some (Suc d)"
    and rec: "kahn_relax ss (AList.update s d indeg)
       (if d = 0 then insort_insert s ready else ready) = Some (indeg', ready')"
    by (auto split: option.splits nat.splits)
  have "sum_list (map snd indeg') + length ready' \<le>
      sum_list (map snd (AList.update s d indeg))
        + length (if d = 0 then insort_insert s ready else ready)"
    using "2.IH"[OF d refl rec] .
  moreover have "length (if d = 0 then insort_insert s ready else ready) \<le> Suc (length ready)"
    using length_insort_insert[of s ready] by simp
  ultimately show ?case using sum_update_decr[OF d] by linarith
qed

function kahn_loop ::
  "(string \<rightharpoonup> string list) \<Rightarrow> (string \<times> nat) list \<Rightarrow> string list \<Rightarrow> string list
     \<Rightarrow> ((string \<times> nat) list \<times> string list) option" where
  "kahn_loop succ indeg [] order = Some (indeg, order)"
| "kahn_loop succ indeg (head # ready) order =
     (case kahn_relax (unwrap_or (succ head) []) indeg ready of
        None \<Rightarrow> None
      | Some (indeg', ready') \<Rightarrow> kahn_loop succ indeg' ready' (order @ [head]))"
  by pat_completeness auto
termination
proof (relation "measure (\<lambda>(succ, indeg, ready, order). sum_list (map snd indeg) + length ready)",
    goal_cases)
  case 1
  show ?case by simp
next
  case (2 succ indeg head ready order r indeg' ready')
  then show ?case using kahn_relax_measure by fastforce
qed

definition kahn_topo_sort :: "dag_node list \<Rightarrow> (dag_build_error + string list) option" where
  "kahn_topo_sort ns =
     (let indeg = indeg_build ns;
          ready = btree_of_list (map fst (filter (\<lambda>kv. snd kv = 0) indeg))
      in case kahn_loop (succ_build ns) indeg ready [] of
           None \<Rightarrow> None
         | Some (indeg', order) \<Rightarrow>
             Some (if length order \<noteq> length ns
                   then Inl (Cycle (sort (map fst (filter (\<lambda>kv. 0 < snd kv) indeg'))))
                   else Inr order))"

subsection \<open>What the tables hold\<close>

lemma indeg_init_keys: "unique_ids ns \<Longrightarrow> map fst (indeg_init ns) = ids_of ns"
proof -
  assume u: "unique_ids ns"
  have "distinct (map fst al @ ids_of ms) \<Longrightarrow>
      map fst (foldl (\<lambda>al n. al_or_insert (node_id n) 0 al) al ms) = map fst al @ ids_of ms"
    for al :: "(string \<times> nat) list" and ms
  proof (induction ms arbitrary: al)
    case Nil
    then show ?case by (simp add: ids_of_def)
  next
    case (Cons n ms)
    then have "node_id n \<notin> fst ` set al" by (auto simp: ids_of_def)
    then have k: "map fst (al_or_insert (node_id n) 0 al) = map fst al @ [node_id n]"
      by (simp add: keys_al_or_insert)
    with Cons.prems have "distinct (map fst (al_or_insert (node_id n) 0 al) @ ids_of ms)"
      by (auto simp: ids_of_def)
    from Cons.IH[OF this] k show ?case by (simp add: ids_of_def)
  qed
  from this[of "[]" ns] u show ?thesis by (simp add: indeg_init_def unique_ids_def)
qed

lemma map_of_indeg_init:
  assumes "map_of (indeg_init ns) k = Some v"
  shows "v = 0"
proof -
  have "(\<forall>v. map_of al k = Some v \<longrightarrow> v = 0) \<Longrightarrow>
      map_of (foldl (\<lambda>al n. al_or_insert (node_id n) 0 al) al ms) k = Some v \<Longrightarrow> v = 0"
    for al :: "(string \<times> nat) list" and ms
  proof (induction ms arbitrary: al)
    case Nil
    then show ?case by simp
  next
    case (Cons a ms)
    have "\<forall>v. map_of (al_or_insert (node_id a) 0 al) k = Some v \<longrightarrow> v = 0"
      using Cons.prems(1) by (auto simp: map_of_al_or_insert)
    from Cons.IH[OF this] Cons.prems(2) show ?case by simp
  qed
  from this[of "[]" ns] assms show ?thesis by (auto simp: indeg_init_def)
qed

lemma keys_al_bump: "map_of al k \<noteq> None \<Longrightarrow> map fst (al_bump k al) = map fst al"
  by (simp add: al_bump_def keys_update_existing map_of_eq_None_iff)

lemma bump_many:
  assumes "map_of al k \<noteq> None"
  shows "map fst (foldl (\<lambda>al dep. al_bump k al) al ds) = map fst al"
    and "map_of al x = Some c \<Longrightarrow>
      map_of (foldl (\<lambda>al dep. al_bump k al) al ds) x = Some (c + (if x = k then length ds else 0))"
proof -
  have "map fst (foldl (\<lambda>al dep. al_bump k al) al ds) = map fst al \<and>
    (\<forall>c. map_of al x = Some c \<longrightarrow>
      map_of (foldl (\<lambda>al dep. al_bump k al) al ds) x = Some (c + (if x = k then length ds else 0)))"
    using assms
  proof (induction ds arbitrary: al)
    case Nil
    then show ?case by simp
  next
    case (Cons d ds)
    have "map_of (al_bump k al) k \<noteq> None" by (simp add: map_of_al_bump)
    from Cons.IH[OF this] keys_al_bump[OF Cons.prems] show ?case
      by (auto simp: map_of_al_bump)
  qed
  then show "map fst (foldl (\<lambda>al dep. al_bump k al) al ds) = map fst al"
    and "map_of al x = Some c \<Longrightarrow>
      map_of (foldl (\<lambda>al dep. al_bump k al) al ds) x = Some (c + (if x = k then length ds else 0))"
    by auto
qed

definition indeg_step :: "(string \<times> nat) list \<Rightarrow> dag_node \<Rightarrow> (string \<times> nat) list" where
  "indeg_step al n = foldl (\<lambda>al dep. al_bump (node_id n) al) al (depends_on n)"

lemma indeg_build_step: "indeg_build ns = foldl indeg_step (indeg_init ns) ns"
  by (simp add: indeg_build_def indeg_step_def[abs_def])

lemma indeg_steps:
  assumes "\<forall>n \<in> set ms. map_of al (node_id n) \<noteq> None"
  shows "map fst (foldl indeg_step al ms) = map fst al"
    and "map_of al x = Some c \<Longrightarrow> map_of (foldl indeg_step al ms) x =
      Some (c + sum_list (map (\<lambda>n. if node_id n = x then length (depends_on n) else 0) ms))"
proof -
  have "map fst (foldl indeg_step al ms) = map fst al \<and>
    (\<forall>c. map_of al x = Some c \<longrightarrow> map_of (foldl indeg_step al ms) x =
      Some (c + sum_list (map (\<lambda>n. if node_id n = x then length (depends_on n) else 0) ms)))"
    using assms
  proof (induction ms arbitrary: al)
    case Nil
    then show ?case by simp
  next
    case (Cons n ms)
    then have mem: "map_of al (node_id n) \<noteq> None" by simp
    have keys: "map fst (indeg_step al n) = map fst al"
      unfolding indeg_step_def by (rule bump_many(1)[OF mem])
    have vals: "map_of al y = Some c \<Longrightarrow>
        map_of (indeg_step al n) y = Some (c + (if y = node_id n then length (depends_on n) else 0))"
      for y c unfolding indeg_step_def by (rule bump_many(2)[OF mem])
    have "\<forall>n' \<in> set ms. map_of (indeg_step al n) (node_id n') \<noteq> None"
    proof
      fix n' assume "n' \<in> set ms"
      with Cons.prems obtain c where "map_of al (node_id n') = Some c" by auto
      from vals[OF this] show "map_of (indeg_step al n) (node_id n') \<noteq> None" by simp
    qed
    from Cons.IH[OF this] keys vals[of x] show ?case by auto
  qed
  then show "map fst (foldl indeg_step al ms) = map fst al"
    and "map_of al x = Some c \<Longrightarrow> map_of (foldl indeg_step al ms) x =
      Some (c + sum_list (map (\<lambda>n. if node_id n = x then length (depends_on n) else 0) ms))"
    by auto
qed

lemma sum_list_no_id:
  "\<forall>m \<in> set ns. node_id m \<noteq> x \<Longrightarrow>
     sum_list (map (\<lambda>m. if node_id m = x then f m else (0::nat)) ns) = 0"
  by (induction ns) auto

lemma sum_list_unique_id:
  assumes "unique_ids ns" "n \<in> set ns"
  shows "sum_list (map (\<lambda>m. if node_id m = node_id n then f m else (0::nat)) ns) = f n"
  using assms unfolding unique_ids_def ids_of_def
proof (induction ns)
  case Nil
  then show ?case by simp
next
  case (Cons a ns)
  show ?case
  proof (cases "n = a")
    case True
    have "sum_list (map (\<lambda>m. if node_id m = node_id a then f m else 0) ns) = 0"
      using Cons.prems(1) by (intro sum_list_no_id) (auto simp: image_iff)
    with True show ?thesis by simp
  next
    case False
    with Cons.prems have "n \<in> set ns" "node_id a \<noteq> node_id n" by auto
    with Cons show ?thesis by simp
  qed
qed

lemma indeg_build_keys: "unique_ids ns \<Longrightarrow> map fst (indeg_build ns) = ids_of ns"
  and indeg_build_val:
    "unique_ids ns \<Longrightarrow> n \<in> set ns \<Longrightarrow>
       map_of (indeg_build ns) (node_id n) = Some (length (depends_on n))"
proof -
  assume u: "unique_ids ns"
  have mem: "\<forall>n \<in> set ns. map_of (indeg_init ns) (node_id n) \<noteq> None"
    using indeg_init_keys[OF u] unfolding map_of_eq_None_iff
    by (metis image_eqI list.set_map set_ids_of)
  show "map fst (indeg_build ns) = ids_of ns"
    using indeg_steps(1)[OF mem] indeg_init_keys[OF u] by (simp add: indeg_build_step)
  assume n: "n \<in> set ns"
  then obtain v where v: "map_of (indeg_init ns) (node_id n) = Some v" using mem by auto
  then have "v = 0" by (rule map_of_indeg_init)
  with indeg_steps(2)[OF mem v] sum_list_unique_id[OF u n, of "\<lambda>m. length (depends_on m)"]
  show "map_of (indeg_build ns) (node_id n) = Some (length (depends_on n))"
    by (simp add: indeg_build_step)
qed

lemma succ_push_many:
  "unwrap_or (foldl (\<lambda>m dep. succ_push dep x m) m ds h) [] =
     unwrap_or (m h) [] @ replicate (count_list ds h) x"
proof (induction ds arbitrary: m)
  case Nil
  then show ?case by simp
next
  case (Cons d ds)
  have "unwrap_or (succ_push d x m h) [] = unwrap_or (m h) [] @ (if d = h then [x] else [])"
    by (simp add: succ_push_def)
  then show ?case by (simp add: Cons.IH replicate_append_same)
qed

lemma succ_build_val:
  "unwrap_or (succ_build ns h) [] =
     concat (map (\<lambda>n. replicate (count_list (depends_on n) h) (node_id n)) ns)"
proof -
  define m0 where
    "m0 = foldl (\<lambda>m n. m(node_id n \<mapsto> unwrap_or (m (node_id n)) [])) (Map.empty :: string \<rightharpoonup> string list) ns"
  have "unwrap_or (m h) [] = [] \<Longrightarrow>
      unwrap_or (foldl (\<lambda>m n. m(node_id n \<mapsto> unwrap_or (m (node_id n)) [])) m ms h) [] = []"
    for m :: "string \<rightharpoonup> string list" and ms
  proof (induction ms arbitrary: m)
    case Nil
    then show ?case by simp
  next
    case (Cons a ms)
    have "unwrap_or ((m(node_id a \<mapsto> unwrap_or (m (node_id a)) [])) h) [] = []"
      using Cons.prems by auto
    from Cons.IH[of "m(node_id a \<mapsto> unwrap_or (m (node_id a)) [])", OF this] show ?case by simp
  qed
  from this[of Map.empty ns] have m0: "unwrap_or (m0 h) [] = []" by (simp add: m0_def)
  have "unwrap_or (foldl (\<lambda>m n. foldl (\<lambda>m dep. succ_push dep (node_id n) m) m (depends_on n)) m ms h) []
      = unwrap_or (m h) [] @ concat (map (\<lambda>n. replicate (count_list (depends_on n) h) (node_id n)) ms)"
    for m ms
    by (induction ms arbitrary: m) (auto simp: succ_push_many)
  from this[of m0 ns] m0 show ?thesis
    unfolding succ_build_def m0_def[symmetric] by simp
qed


subsection \<open>The loop invariant\<close>

definition open_deps :: "dag_node list \<Rightarrow> string list \<Rightarrow> string \<Rightarrow> nat" where
  "open_deps ns order x = length (filter (\<lambda>d. d \<notin> set order) (deps_of ns x))"

definition topo_prefix :: "dag_node list \<Rightarrow> string list \<Rightarrow> bool" where
  "topo_prefix ns order \<longleftrightarrow>
     (\<forall>i < length order. set (deps_of ns (order ! i)) \<subseteq> set (take i order))"

definition kahn_inv :: "dag_node list \<Rightarrow> (string \<times> nat) list \<Rightarrow> string list \<Rightarrow> string list \<Rightarrow> bool" where
  "kahn_inv ns indeg ready order \<longleftrightarrow>
     map fst indeg = ids_of ns \<and>
     (\<forall>x \<in> set (ids_of ns). map_of indeg x = Some (open_deps ns order x)) \<and>
     sorted ready \<and> distinct ready \<and>
     set ready = {x \<in> set (ids_of ns). x \<notin> set order \<and> open_deps ns order x = 0} \<and>
     distinct order \<and> set order \<subseteq> set (ids_of ns) \<and> topo_prefix ns order"

lemma topo_prefix_closed: "topo_prefix ns order \<Longrightarrow> x \<in> set order \<Longrightarrow> set (deps_of ns x) \<subseteq> set order"
  unfolding topo_prefix_def by (metis in_set_conv_nth set_take_subset subset_trans)

lemma topo_prefix_snoc:
  "topo_prefix ns order \<Longrightarrow> set (deps_of ns h) \<subseteq> set order \<Longrightarrow> topo_prefix ns (order @ [h])"
  unfolding topo_prefix_def by (auto simp: nth_append less_Suc_eq)

lemma open_deps_0: "open_deps ns order x = 0 \<longleftrightarrow> set (deps_of ns x) \<subseteq> set order"
  by (auto simp: open_deps_def filter_empty_conv)

lemma open_deps_snoc:
  "h \<notin> set order \<Longrightarrow>
     open_deps ns (order @ [h]) x + count_list (deps_of ns x) h = open_deps ns order x"
  using count_list_filter_notin[of h "set order" "deps_of ns x"]
  by (simp add: open_deps_def)

lemma succ_count:
  assumes u: "unique_ids ns"
  shows "count_list (unwrap_or (succ_build ns h) []) x = count_list (deps_of ns x) h"
proof -
  have c: "count_list (concat (map (\<lambda>n. replicate (count_list (depends_on n) h) (node_id n)) ms)) x
      = sum_list (map (\<lambda>n. if node_id n = x then count_list (depends_on n) h else 0) ms)" for ms
    by (induction ms) (auto simp: count_list_replicate)
  show ?thesis
  proof (cases "x \<in> set (ids_of ns)")
    case True
    then obtain n where n: "n \<in> set ns" "x = node_id n" by auto
    then show ?thesis
      unfolding succ_build_val c
      using sum_list_unique_id[OF u n(1), of "\<lambda>n. count_list (depends_on n) h"] n
      by (simp add: deps_of_node[OF u])
  next
    case False
    then have "\<forall>m \<in> set ns. node_id m \<noteq> x" by auto
    then show ?thesis
      unfolding succ_build_val c using False by (simp add: deps_of_outside sum_list_no_id)
  qed
qed

text \<open>One pass over the successors subtracts every occurrence and never panics.\<close>

lemma kahn_relax_ok:
  assumes "\<forall>x \<in> set ss. \<exists>v. map_of indeg x = Some v \<and> count_list ss x \<le> v"
    and "sorted ready" "distinct ready"
  shows "\<exists>indeg' ready'.
    kahn_relax ss indeg ready = Some (indeg', ready') \<and> map fst indeg' = map fst indeg \<and>
    (\<forall>x v. map_of indeg x = Some v \<longrightarrow> map_of indeg' x = Some (v - count_list ss x)) \<and>
    sorted ready' \<and> distinct ready' \<and>
    set ready' = set ready \<union> {x \<in> set ss. map_of indeg x = Some (count_list ss x)}"
  using assms
proof (induction ss arbitrary: indeg ready)
  case Nil
  then show ?case by simp
next
  case (Cons s ss)
  obtain v where v: "map_of indeg s = Some v" "Suc (count_list ss s) \<le> v"
    using Cons.prems(1) by auto
  then obtain d where d: "v = Suc d" by (cases v) auto
  let ?i = "AList.update s d indeg"
  let ?r = "if d = 0 then insort_insert s ready else ready"
  have upd: "map_of ?i y = (if y = s then Some d else map_of indeg y)" for y
    by (simp add: update_conv')
  have keys: "map fst ?i = map fst indeg"
    using v(1) by (intro keys_update_existing) (metis map_of_eq_None_iff option.simps(3))
  have pre: "\<forall>x \<in> set ss. \<exists>v. map_of ?i x = Some v \<and> count_list ss x \<le> v"
  proof
    fix x assume "x \<in> set ss"
    then obtain w where w: "map_of indeg x = Some w" "count_list (s # ss) x \<le> w"
      using Cons.prems(1) by (meson list.set_intros(2))
    show "\<exists>v. map_of ?i x = Some v \<and> count_list ss x \<le> v"
      using w v d by (cases "x = s") (simp_all add: upd)
  qed
  have sd0: "sorted ?r" "distinct ?r" using Cons.prems(2,3) by (auto intro: inv_intros)
  obtain indeg' ready' where r: "kahn_relax ss ?i ?r = Some (indeg', ready')"
    and k: "map fst indeg' = map fst ?i"
    and vals: "\<forall>x v. map_of ?i x = Some v \<longrightarrow> map_of indeg' x = Some (v - count_list ss x)"
    and sd: "sorted ready'" "distinct ready'"
    and st: "set ready' = set ?r \<union> {x \<in> set ss. map_of ?i x = Some (count_list ss x)}"
    using Cons.IH[OF pre sd0] by (elim exE conjE)
  have new: "map_of indeg' x = Some (w - count_list (s # ss) x)" if w: "map_of indeg x = Some w" for x w
    using vals[rule_format, of x "if x = s then d else w"] w v d
    by (cases "x = s") (simp_all add: upd)
  have mem: "s \<in> set ss \<longleftrightarrow> count_list ss s \<noteq> 0"
    by (metis count_list_eq_0 count_list_pos less_irrefl)
  have at_s: "s \<in> set ready' \<longleftrightarrow> s \<in> set ready \<or> v = Suc (count_list ss s)"
  proof -
    have "s \<in> set ?r \<longleftrightarrow> s \<in> set ready \<or> d = 0" by (auto simp: rust_simps)
    moreover have "map_of ?i s = Some d" by (simp add: upd)
    ultimately show ?thesis unfolding st using v d mem by auto
  qed
  have "x \<in> set ready' \<longleftrightarrow> x \<in> set ready \<or> (x \<in> set ss \<and> map_of indeg x = Some (count_list ss x))"
    if ne: "x \<noteq> s" for x
  proof -
    have "x \<in> set ?r \<longleftrightarrow> x \<in> set ready" using ne by (auto simp: rust_simps)
    moreover have "map_of ?i x = map_of indeg x" using ne by (simp add: upd)
    ultimately show ?thesis unfolding st by simp
  qed
  then have "x \<in> set ready' \<longleftrightarrow>
      x \<in> set ready \<or> (x \<in> set (s # ss) \<and> map_of indeg x = Some (count_list (s # ss) x))" for x
    using at_s v(1) by (cases "x = s") auto
  then have "set ready' = set ready \<union> {x \<in> set (s # ss). map_of indeg x = Some (count_list (s # ss) x)}"
    by blast
  moreover have "kahn_relax (s # ss) indeg ready = Some (indeg', ready')" using v(1) d r by simp
  ultimately show ?case using k keys new sd by auto
qed

lemma kahn_inv_step:
  assumes u: "unique_ids ns" and inv: "kahn_inv ns indeg (h # ready) order"
  obtains indeg' ready' where
    "kahn_relax (unwrap_or (succ_build ns h) []) indeg ready = Some (indeg', ready')"
    "kahn_inv ns indeg' ready' (order @ [h])"
proof -
  let ?ss = "unwrap_or (succ_build ns h) []"
  from inv have keys: "map fst indeg = ids_of ns"
    and vals: "\<And>x. x \<in> set (ids_of ns) \<Longrightarrow> map_of indeg x = Some (open_deps ns order x)"
    and sr: "sorted (h # ready)" "distinct (h # ready)"
    and rdy: "set (h # ready) = {x \<in> set (ids_of ns). x \<notin> set order \<and> open_deps ns order x = 0}"
    and ord: "distinct order" "set order \<subseteq> set (ids_of ns)" "topo_prefix ns order"
    by (auto simp: kahn_inv_def)
  have h: "h \<in> set (ids_of ns)" "h \<notin> set order" "open_deps ns order h = 0"
    using rdy by auto
  have ssx: "x \<in> set ?ss \<Longrightarrow> x \<in> set (ids_of ns) \<and> h \<in> set (deps_of ns x)" for x
    using succ_count[OF u, of h x] count_list_pos[of x ?ss] deps_of_outside[of x ns]
      count_list_eq_0[of h "deps_of ns x"] by fastforce
  have cnt: "count_list ?ss x \<le> open_deps ns order x" for x
    using succ_count[OF u, of h x] open_deps_snoc[OF h(2), of ns x] by linarith
  have pre: "\<forall>x \<in> set ?ss. \<exists>v. map_of indeg x = Some v \<and> count_list ?ss x \<le> v"
    using ssx vals cnt by blast
  obtain indeg' ready' where r: "kahn_relax ?ss indeg ready = Some (indeg', ready')"
    and k': "map fst indeg' = map fst indeg"
    and v': "\<forall>x v. map_of indeg x = Some v \<longrightarrow> map_of indeg' x = Some (v - count_list ?ss x)"
    and sd: "sorted ready'" "distinct ready'"
    and st: "set ready' = set ready \<union> {x \<in> set ?ss. map_of indeg x = Some (count_list ?ss x)}"
    using kahn_relax_ok[OF pre, of ready] sr by (auto elim!: exE conjE)
  have new: "open_deps ns (order @ [h]) x = open_deps ns order x - count_list ?ss x" for x
    using open_deps_snoc[OF h(2), of ns x] succ_count[OF u, of h x] by simp
  have mem: "x \<in> set ready' \<longleftrightarrow>
      x \<in> set (ids_of ns) \<and> x \<notin> set (order @ [h]) \<and> open_deps ns (order @ [h]) x = 0" for x
  proof (cases "x \<in> set ?ss")
    case True
    have xi: "x \<in> set (ids_of ns)" and hd: "h \<in> set (deps_of ns x)" using ssx[OF True] by auto
    have "x \<noteq> h" using hd h(2,3) by (auto simp: open_deps_0)
    moreover have "x \<notin> set order" using topo_prefix_closed[OF ord(3)] hd h(2) by blast
    moreover have "0 < open_deps ns order x" using cnt[of x] count_list_pos[OF True] by linarith
    moreover have "x \<in> set (h # ready) \<Longrightarrow> open_deps ns order x = 0" using rdy by blast
    ultimately have "x \<notin> set order" "x \<noteq> h" "x \<notin> set ready" by auto
    then show ?thesis using st True vals[OF xi] xi new[of x] cnt[of x] by auto
  next
    case False
    then have "open_deps ns (order @ [h]) x = open_deps ns order x"
      using new[of x] by (simp add: count_list_eq_0)
    then show ?thesis using st False rdy sr(2) by auto
  qed
  have "kahn_inv ns indeg' ready' (order @ [h])"
    unfolding kahn_inv_def
  proof (intro conjI ballI)
    show "map fst indeg' = ids_of ns" using k' keys by simp
    show "map_of indeg' x = Some (open_deps ns (order @ [h]) x)" if "x \<in> set (ids_of ns)" for x
      using v' vals[OF that] new[of x] by simp
    show "sorted ready'" "distinct ready'" by (fact sd)+
    show "set ready' = {x \<in> set (ids_of ns). x \<notin> set (order @ [h]) \<and> open_deps ns (order @ [h]) x = 0}"
      using mem by blast
    show "distinct (order @ [h])" "set (order @ [h]) \<subseteq> set (ids_of ns)" using ord h by auto
    show "topo_prefix ns (order @ [h])"
      using topo_prefix_snoc[OF ord(3)] h(3) by (simp add: open_deps_0)
  qed
  with r show thesis by (rule that)
qed

lemma kahn_loop_ok:
  assumes "unique_ids ns" "kahn_inv ns indeg ready order"
  shows "\<exists>indeg' order'. kahn_loop (succ_build ns) indeg ready order = Some (indeg', order')
    \<and> kahn_inv ns indeg' [] order'"
  using assms
proof (induction "succ_build ns" indeg ready order rule: kahn_loop.induct)
  case (1 indeg order)
  then show ?case by simp
next
  case (2 indeg head ready order)
  obtain indeg' ready' where
    r: "kahn_relax (unwrap_or (succ_build ns head) []) indeg ready = Some (indeg', ready')"
    and inv: "kahn_inv ns indeg' ready' (order @ [head])"
    using kahn_inv_step[OF "2.prems"] by blast
  from "2.hyps"[OF r refl "2.prems"(1) inv] r show ?case by simp
qed

lemma kahn_inv_start:
  assumes u: "unique_ids ns"
  shows "kahn_inv ns (indeg_build ns)
    (btree_of_list (map fst (filter (\<lambda>kv. snd kv = 0) (indeg_build ns)))) []"
proof -
  let ?i = "indeg_build ns"
  have keys: "map fst ?i = ids_of ns" by (rule indeg_build_keys[OF u])
  then have dk: "distinct (map fst ?i)" using u by (simp add: unique_ids_def)
  have vals: "map_of ?i x = Some (open_deps ns [] x)" if "x \<in> set (ids_of ns)" for x
    using that indeg_build_val[OF u] deps_of_node[OF u] by (auto simp: open_deps_def)
  have "x \<in> set (map fst (filter (\<lambda>kv. snd kv = 0) ?i)) \<longleftrightarrow> map_of ?i x = Some 0" for x
    using dk by (auto simp: image_iff map_of_eq_Some_iff)
  moreover have "map_of ?i x = Some 0 \<longleftrightarrow> x \<in> set (ids_of ns) \<and> open_deps ns [] x = 0" for x
    using vals[of x] keys by (metis list.set_map map_of_SomeD fst_conv image_eqI option.inject)
  ultimately show ?thesis
    using keys vals by (auto simp: kahn_inv_def topo_prefix_def simp del: set_ids_of)
qed

subsection \<open>Correctness of the sort\<close>

text \<open>A complete order: every id once, each after all its dependencies.\<close>

definition topo_order :: "dag_node list \<Rightarrow> string list \<Rightarrow> bool" where
  "topo_order ns order \<longleftrightarrow>
     distinct order \<and> set order = set (ids_of ns) \<and> topo_prefix ns order"

lemma kahn_cases:
  assumes u: "unique_ids ns"
  obtains (Order) order where
      "kahn_topo_sort ns = Some (Inr order)" "topo_order ns order"
    | (Loop) ok left where
      "kahn_topo_sort ns = Some (Inl (Cycle left))" "left \<noteq> []" "sorted left" "distinct left"
      "set left = set (ids_of ns) - set ok" "topo_prefix ns ok"
      "\<And>x. x \<in> set left \<Longrightarrow> \<exists>d \<in> set (deps_of ns x). d \<notin> set ok"
proof -
  obtain indeg' order' where
    l: "kahn_loop (succ_build ns) (indeg_build ns)
         (btree_of_list (map fst (filter (\<lambda>kv. snd kv = 0) (indeg_build ns)))) []
       = Some (indeg', order')" and inv: "kahn_inv ns indeg' [] order'"
    using kahn_loop_ok[OF u kahn_inv_start[OF u]] by blast
  let ?left = "sort (map fst (filter (\<lambda>kv. 0 < snd kv) indeg'))"
  have res: "kahn_topo_sort ns =
      Some (if length order' \<noteq> length ns then Inl (Cycle ?left) else Inr order')"
    using l by (simp add: kahn_topo_sort_def Let_def)
  have keys: "map fst indeg' = ids_of ns" and
    vals: "\<And>x. x \<in> set (ids_of ns) \<Longrightarrow> map_of indeg' x = Some (open_deps ns order' x)" and
    none: "\<And>x. x \<in> set (ids_of ns) \<Longrightarrow> x \<notin> set order' \<Longrightarrow> open_deps ns order' x \<noteq> 0" and
    ord: "distinct order'" "set order' \<subseteq> set (ids_of ns)" "topo_prefix ns order'"
    using inv by (auto simp: kahn_inv_def)
  have dk: "distinct (map fst indeg')" using keys u by (simp add: unique_ids_def)
  have len: "length ns = card (set (ids_of ns))"
    using u distinct_card[of "ids_of ns"] by (simp add: unique_ids_def ids_of_def)
  have left_mem: "x \<in> set ?left \<longleftrightarrow> x \<in> set (ids_of ns) \<and> open_deps ns order' x \<noteq> 0" for x
  proof
    assume "x \<in> set ?left"
    then obtain v where v: "(x, v) \<in> set indeg'" "0 < v" by auto
    then have xi: "x \<in> set (ids_of ns)" using keys by (metis fst_conv image_eqI list.set_map)
    have "map_of indeg' x = Some v" using dk v(1) by (simp add: map_of_eq_Some_iff)
    with vals[OF xi] v(2) xi show "x \<in> set (ids_of ns) \<and> open_deps ns order' x \<noteq> 0" by simp
  next
    assume a: "x \<in> set (ids_of ns) \<and> open_deps ns order' x \<noteq> 0"
    then have "(x, open_deps ns order' x) \<in> set indeg'" using vals map_of_SomeD by fastforce
    with a show "x \<in> set ?left" by force
  qed
  have closed: "x \<in> set order' \<Longrightarrow> open_deps ns order' x = 0" for x
    using topo_prefix_closed[OF ord(3)] by (auto simp: open_deps_0)
  show thesis
  proof (cases "length order' = length ns")
    case True
    then have "card (set order') = card (set (ids_of ns))" using ord(1) len by (simp add: distinct_card)
    then have "set order' = set (ids_of ns)" using ord(2) by (simp add: card_subset_eq)
    then show thesis using Order[of order'] res True ord by (simp add: topo_order_def)
  next
    case False
    have ne: "set order' \<noteq> set (ids_of ns)" using False ord(1) len by (metis distinct_card)
    have sl: "set ?left = set (ids_of ns) - set order'" using left_mem none closed by blast
    show thesis
    proof (rule Loop[of ?left order'])
      show "kahn_topo_sort ns = Some (Inl (Cycle ?left))" using res False by simp
      show "?left \<noteq> []" using sl ne ord(2) by (metis Diff_eq_empty_iff set_empty subset_antisym)
      show "sorted ?left" by simp
      show "distinct ?left" using dk by (simp add: distinct_map_filter)
      show "set ?left = set (ids_of ns) - set order'" by (fact sl)
      show "topo_prefix ns order'" by (fact ord(3))
      show "\<exists>d \<in> set (deps_of ns x). d \<notin> set order'" if "x \<in> set ?left" for x
        using that left_mem[of x] by (auto simp: open_deps_0)
    qed
  qed
qed

lemma kahn_sound: "unique_ids ns \<Longrightarrow> kahn_topo_sort ns = Some (Inr order) \<Longrightarrow> topo_order ns order"
  by (erule kahn_cases[of ns]) auto

lemma kahn_no_panic: "unique_ids ns \<Longrightarrow> kahn_topo_sort ns \<noteq> None"
  by (erule kahn_cases[of ns]) auto

lemma kahn_complete:
  assumes u: "unique_ids ns" and t: "topo_order ns w"
  shows "\<exists>order. kahn_topo_sort ns = Some (Inr order)"
  using u
proof (cases rule: kahn_cases)
  case (Order order)
  then show ?thesis by blast
next
  case (Loop ok left)
  let ?P = "\<lambda>i. i < length w \<and> w ! i \<in> set left"
  have "\<exists>i. ?P i"
    using Loop(2,5) t by (metis DiffD1 in_set_conv_nth list.set_intros(1) neq_Nil_conv topo_order_def)
  then have least: "?P (LEAST i. ?P i)" and below: "\<And>j. j < (LEAST i. ?P i) \<Longrightarrow> \<not> ?P j"
    by (rule LeastI_ex, blast dest: not_less_Least)
  let ?i = "LEAST i. ?P i"
  obtain d where d: "d \<in> set (deps_of ns (w ! ?i))" "d \<notin> set ok"
    using Loop(7) least by blast
  have "d \<in> set (take ?i w)" using t least d(1) by (auto simp: topo_order_def topo_prefix_def)
  then obtain j where j: "j < ?i" "j < length w" "w ! j = d" by (auto simp: in_set_conv_nth)
  then have "d \<notin> set left" using below by blast
  moreover have "d \<in> set (ids_of ns)" using j t by (metis nth_mem topo_order_def)
  ultimately show ?thesis using Loop(5) d(2) by blast
qed

end
