(* ===== verification/Rollback.thy ===== *)
theory Rollback
  imports Workstation Topo_Sort "HOL-Library.Multiset" "HOL-Library.Product_Lexorder"
begin

text \<open>
  Conservative rollback of a failed node (\<open>plan_dag/rollback\<close>): the descriptor and its safety
  check (\<open>descriptor.rs\<close>), the node-local pass (\<open>run.rs\<close>), and the cascade over compensation nodes
  (\<open>cascade/ordering.rs\<close>, \<open>cascade/plan_entry.rs\<close>, \<open>cascade/dispatch_outcome.rs\<close>,
  \<open>cascade/runner.rs\<close>). The substrate answers call number \<open>t\<close> of a run with \<open>ws t hints strategy\<close>;
  every pass returns the calls it made. \<open>brief_of\<close> is the text builder of task briefs.
\<close>

type_synonym ws_env = "nat \<Rightarrow> ws_hints \<Rightarrow> string \<Rightarrow> ws_outcome"
type_synonym brief_env = "ws_hints \<Rightarrow> string \<Rightarrow> string"

subsection \<open>Hints of a node\<close>

definition rollback_cascade_kind :: "dag_node \<Rightarrow> rollback_cascade_mode option" where
  "rollback_cascade_kind n =
     (case rollback_cascade n of
        None \<Rightarrow> None
      | Some raw \<Rightarrow> if trim raw = [] then None else parse_rollback_cascade (trim raw))"

definition has_active_rollback_cascade :: "dag_node \<Rightarrow> bool" where
  "has_active_rollback_cascade n \<longleftrightarrow>
     rollback_cascade_kind n = Some CascadePlan \<or> rollback_cascade_kind n = Some CascadeDispatchSafe"

definition has_rollback_hints :: "dag_node \<Rightarrow> bool" where
  "has_rollback_hints n \<longleftrightarrow>
     \<not> blank (rollback_policy n) \<or> \<not> blank (rollback_objective n) \<or> \<not> blank (rollback_owned_files_raw n)
     \<or> \<not> blank (rollback_acceptance_commands_raw n) \<or> \<not> blank (rollback_cascade n)
     \<or> \<not> blank (compensates n) \<or> \<not> blank (compensate_node n) \<or> rollback_after n \<noteq> []"

subsection \<open>The descriptor\<close>

record rollback_descriptor =
  rd_policy :: rollback_policy
  rd_objective :: "string option"
  rd_owned_files :: "string list"
  rd_acceptance_commands :: "string list"

definition build_rollback_descriptor :: "dag_node \<Rightarrow> rollback_descriptor option" where
  "build_rollback_descriptor n =
     Option.bind (split_lisp_string_list (rollback_owned_files_raw n)) (\<lambda>owned.
     Option.bind (split_lisp_string_list (rollback_acceptance_commands_raw n)) (\<lambda>cmds.
       Some \<lparr> rd_policy = unwrap_or (rollback_policy_kind n) RbNone,
              rd_objective = (if blank (rollback_objective n) then None
                              else Some (trim (the (rollback_objective n)))),
              rd_owned_files = owned, rd_acceptance_commands = cmds \<rparr>))"

definition to_workstation_hints :: "rollback_descriptor \<Rightarrow> dag_node \<Rightarrow> ws_hints option" where
  "to_workstation_hints d n =
     Option.bind (split_lisp_string_list (forbidden_files_raw n)) (\<lambda>forbidden.
       Some \<lparr> wh_objective = rd_objective d,
              wh_scope = Some (''rollback for failed plan-DAG node `'' @ node_id n
                @ ''` (target=`'' @ target n @ ''`)''),
              wh_owned_files = rd_owned_files d, wh_forbidden_files = forbidden,
              wh_acceptance_commands = rd_acceptance_commands d,
              wh_commit_policy = (case commit_policy n of None \<Rightarrow> Some ''scoped'' | Some p \<Rightarrow> Some p),
              wh_target_project = target_project n, wh_requested_cwd = requested_cwd n,
              wh_dispatch_strategy = dispatch_strategy n \<rparr>)"

definition safety_check_for_workstation :: "rollback_descriptor \<Rightarrow> dag_node \<Rightarrow> string + unit" where
  "safety_check_for_workstation d n =
     bind_res (fail_if (blank (rd_objective d))
       ''rollback workstation dispatch requires :rollback-objective (non-empty)'') (\<lambda>_.
     bind_res (fail_if (rd_owned_files d = [])
       ''rollback workstation dispatch requires :rollback-owned-files (>= 1 entry)'') (\<lambda>_.
     bind_res (fail_if (blank (target_project n) \<and> blank (requested_cwd n))
       ''rollback workstation dispatch requires :target-project or :requested-cwd to resolve a project root'') (\<lambda>_.
     let strat = trim (unwrap_or (dispatch_strategy n) []) in
     fail_if (strat \<notin> set INFERABLE_DISPATCH_STRATEGIES)
       (''rollback workstation dispatch requires :dispatch-strategy on the safe whitelist ''
        @ show_debug_list INFERABLE_DISPATCH_STRATEGIES @ ''; got `'' @ strat @ ''`''))))"

subsection \<open>Brief previews\<close>

text \<open>\<open>brief.len()\<close> counts UTF-8 bytes: two for a character above 127.\<close>

definition utf8_len :: "char \<Rightarrow> nat" where
  "utf8_len c = (if (of_char c :: nat) < 128 then 1 else 2)"

definition byte_len :: "string \<Rightarrow> nat" where
  "byte_len s = sum_list (map utf8_len s)"

text \<open>The longest prefix that ends on a character boundary at or before byte \<open>m\<close>.\<close>

fun take_bytes :: "nat \<Rightarrow> string \<Rightarrow> string" where
  "take_bytes m [] = []"
| "take_bytes m (c # cs) = (if utf8_len c \<le> m then c # take_bytes (m - utf8_len c) cs else [])"

definition truncate_rollback_brief_preview :: "string \<Rightarrow> string" where
  "truncate_rollback_brief_preview b =
     (if byte_len b \<le> 800 then b else take_bytes 800 b @ ''...'')"

subsection \<open>The node-local pass\<close>

definition rollback_eval ::
  "rollback_descriptor \<Rightarrow> rollback_policy \<Rightarrow> rollback_status \<Rightarrow> string \<Rightarrow> string option \<Rightarrow> string option
     \<Rightarrow> json option \<Rightarrow> rollback_evaluation" where
  "rollback_eval d pol st reason preview path inner =
     \<lparr> rb_policy = pol, rb_status = st, rb_reason = reason, rb_objective = rd_objective d,
       rb_owned_files = rd_owned_files d, rb_acceptance_commands = rd_acceptance_commands d,
       rb_task_brief_preview = preview, rb_task_brief_path = path, rb_inner_payload = inner,
       rb_cascade = None \<rparr>"

definition strategy_of :: "dag_node \<Rightarrow> string" where
  "strategy_of n = unwrap_or (dispatch_strategy n) ''unknown''"

definition map_rollback_outcome :: "rollback_descriptor \<Rightarrow> ws_outcome \<Rightarrow> rollback_evaluation" where
  "map_rollback_outcome d out =
     (case out of
        WsDispatched b path p \<Rightarrow>
          rollback_eval d RbWorkstation Dispatched
            ''rollback workstation dispatch completed; inner handler returned Ok''
            (Some (truncate_rollback_brief_preview b)) path (Some p)
      | WsDryRun b \<Rightarrow>
          rollback_eval d RbWorkstation Dispatched
            ''rollback dispatched in dry_run mode (no real handler invoked)''
            (Some (truncate_rollback_brief_preview b)) None None
      | WsInnerError b p \<Rightarrow>
          rollback_eval d RbWorkstation RbFailed
            (''rollback workstation dispatch failed: ''
             @ unwrap_or (opt_str p ''error'') ''rollback inner handler returned error'')
            (Some (truncate_rollback_brief_preview b)) None (Some p)
      | WsSafeDescriptor r b \<Rightarrow>
          rollback_eval d RbWorkstation Refused
            (''rollback workstation dispatch refused (substrate): '' @ safe_reason_detail r)
            (map_option truncate_rollback_brief_preview b) None None)"

definition run_rollback ::
  "ws_env \<Rightarrow> brief_env \<Rightarrow> nat \<Rightarrow> dag_node \<Rightarrow> (rollback_evaluation \<times> (dag_node \<times> ws_hints) list) option" where
  "run_rollback ws brief_of t n =
     Option.bind (build_rollback_descriptor n) (\<lambda>d.
       case rd_policy d of
         RbNone \<Rightarrow>
           Some (rollback_eval d RbNone NotRequested
             (if has_rollback_hints n then ''rollback policy explicitly set to none; no rollback dispatch''
              else ''no rollback hints declared'') None None None, [])
       | RbDescriptor \<Rightarrow>
           Option.bind (to_workstation_hints d n) (\<lambda>hints.
             Some (rollback_eval d RbDescriptor DescriptorReady
               ''descriptor mode: rollback intent recorded; no dispatch performed''
               (if rd_objective d \<noteq> None
                then Some (truncate_rollback_brief_preview (brief_of hints (strategy_of n))) else None)
               None None, []))
       | RbWorkstation \<Rightarrow>
           (case safety_check_for_workstation d n of
              Inl reason \<Rightarrow>
                Some (rollback_eval d RbWorkstation Refused
                  (''rollback workstation dispatch refused: '' @ reason) None None None, [])
            | Inr _ \<Rightarrow>
                Option.bind (to_workstation_hints d n) (\<lambda>hints.
                  Some (map_rollback_outcome d (ws t hints (strategy_of n)), [(n, hints)]))))"

subsection \<open>Compensation order\<close>

definition root_key :: "string \<Rightarrow> string" where
  "root_key failed_id = to_lower (trim failed_id)"

definition forward_targets :: "string \<Rightarrow> dag_node list \<Rightarrow> string list" where
  "forward_targets root_lc ns =
     map (\<lambda>n. to_lower (trim (the (compensate_node n))))
       (filter (\<lambda>n. to_lower (node_id n) = root_lc \<and> \<not> blank (compensate_node n)) ns)"

definition compensation_candidates :: "string \<Rightarrow> dag_node list \<Rightarrow> dag_node list" where
  "compensation_candidates failed_id ns =
     (let root_lc = root_key failed_id in
      filter (\<lambda>n. (case compensates n of None \<Rightarrow> False | Some s \<Rightarrow> to_lower (trim s) = root_lc)
                 \<or> to_lower (node_id n) \<in> set (forward_targets root_lc ns)) ns)"

definition after_deps :: "dag_node list \<Rightarrow> dag_node \<Rightarrow> string list" where
  "after_deps cands n =
     filter (\<lambda>a. a \<noteq> [] \<and> a \<in> set (ids_of cands)) (map trim (rollback_after n))"

definition comp_indeg :: "dag_node list \<Rightarrow> (string \<times> nat) list" where
  "comp_indeg cands =
     foldl (\<lambda>al n. foldl (\<lambda>al a. al_bump (node_id n) al) (al_or_insert (node_id n) 0 al) (after_deps cands n))
       [] cands"

definition comp_succs :: "dag_node list \<Rightarrow> (string \<rightharpoonup> string list)" where
  "comp_succs cands =
     foldl (\<lambda>m n. foldl (\<lambda>m a. succ_push a (node_id n) m) m (after_deps cands n)) Map.empty cands"

definition USIZE_MAX :: nat where "USIZE_MAX = 18446744073709551615"

fun last_index :: "string \<Rightarrow> string list \<Rightarrow> nat \<Rightarrow> nat option" where
  "last_index x [] i = None"
| "last_index x (y # ys) i =
     (case last_index x ys (Suc i) of Some j \<Rightarrow> Some j | None \<Rightarrow> if x = y then Some i else None)"

definition rank_of :: "string list \<Rightarrow> dag_node list \<Rightarrow> string \<Rightarrow> nat \<times> nat" where
  "rank_of forward_order cands x =
     (unwrap_or (last_index x forward_order 0) USIZE_MAX,
      unwrap_or (last_index x (ids_of cands) 0) USIZE_MAX)"

definition decr_children :: "string list \<Rightarrow> (string \<times> nat) list \<Rightarrow> (string \<times> nat) list" where
  "decr_children cs indeg = foldl (\<lambda>al c. AList.map_entry c (\<lambda>d. d - 1) al) indeg cs"

lemma length_decr_children: "length (decr_children cs indeg) = length indeg"
proof -
  have "length (AList.map_entry c f al) = length al" for c :: string and f and al :: "(string \<times> nat) list"
    by (induction al) auto
  then show ?thesis unfolding decr_children_def by (induction cs arbitrary: indeg) auto
qed

definition comp_ready :: "(string \<Rightarrow> nat \<times> nat) \<Rightarrow> (string \<times> nat) list \<Rightarrow> string list" where
  "comp_ready rank indeg = sort_key rank (map fst (filter (\<lambda>kv. snd kv = 0) indeg))"

lemma comp_ready_mem: "comp_ready rank indeg = x # xs \<Longrightarrow> (x, 0) \<in> set indeg"
proof -
  assume "comp_ready rank indeg = x # xs"
  then have "x \<in> set (comp_ready rank indeg)" by simp
  then show ?thesis by (auto simp: comp_ready_def)
qed

lemma comp_ready_Nil: "comp_ready rank indeg = [] \<longleftrightarrow> (\<forall>kv \<in> set indeg. snd kv \<noteq> 0)"
proof -
  have "comp_ready rank indeg = [] \<longleftrightarrow> length (comp_ready rank indeg) = 0" by simp
  also have "\<dots> \<longleftrightarrow> length (filter (\<lambda>kv. snd kv = 0) indeg) = 0"
    unfolding comp_ready_def length_sort length_map ..
  finally show ?thesis by (simp add: filter_empty_conv)
qed

lemma fst_set_delete: "fst ` set (AList.delete k al) = fst ` set al - {k}"
  by (induction al) auto

lemma delete_shorter: "(x, v) \<in> set al \<Longrightarrow> length (AList.delete x al) < length al"
proof (induction al)
  case Nil
  then show ?case by simp
next
  case (Cons kv al)
  then show ?case using length_delete_le[of x al] by (auto simp: less_Suc_eq_le)
qed

function comp_loop ::
  "(string \<Rightarrow> nat \<times> nat) \<Rightarrow> (string \<rightharpoonup> string list) \<Rightarrow> (string \<rightharpoonup> dag_node) \<Rightarrow> (string \<times> nat) list
     \<Rightarrow> dag_node list \<Rightarrow> dag_node list" where
  "comp_loop rank succs by_id indeg ordered =
     (case comp_ready rank indeg of
        [] \<Rightarrow> ordered
      | nxt # _ \<Rightarrow>
          comp_loop rank (succs(nxt := None)) (by_id(nxt := None))
            (decr_children (unwrap_or (succs nxt) []) (AList.delete nxt indeg))
            (case by_id nxt of Some n \<Rightarrow> ordered @ [n] | None \<Rightarrow> ordered))"
  by pat_completeness auto
termination
proof (relation "measure (\<lambda>(rank, succs, by_id, indeg, ordered). length indeg)", goal_cases)
  case 1
  show ?case by simp
next
  case (2 rank succs by_id indeg ordered nxt rest)
  then show ?case using delete_shorter[OF comp_ready_mem] by (simp add: length_decr_children)
qed

declare comp_loop.simps [simp del]

definition compute_compensation_order :: "string \<Rightarrow> dag_node list \<Rightarrow> string list \<Rightarrow> dag_node list" where
  "compute_compensation_order failed_id ns forward_order =
     (let cands = compensation_candidates failed_id ns in
      if cands = [] then []
      else let ordered = comp_loop (rank_of forward_order cands) (comp_succs cands) (by_id_map cands)
                           (comp_indeg cands) [];
               already = ids_of ordered
           in if length ordered < length cands
              then ordered @ filter (\<lambda>n. node_id n \<notin> set already) cands
              else ordered)"

subsection \<open>The cascade\<close>

definition comp_row ::
  "dag_node \<Rightarrow> rollback_descriptor \<Rightarrow> rollback_policy \<Rightarrow> rollback_status \<Rightarrow> string \<Rightarrow> string option
     \<Rightarrow> string option \<Rightarrow> json option \<Rightarrow> compensation_outcome" where
  "comp_row n d pol st reason preview path inner =
     \<lparr> co_node_id = node_id n, co_policy = pol, co_status = st, co_reason = reason,
       co_objective = rd_objective d, co_owned_files = rd_owned_files d,
       co_acceptance_commands = rd_acceptance_commands d, co_task_brief_preview = preview,
       co_task_brief_path = path, co_inner_payload = inner \<rparr>"

definition build_compensation_plan_entry :: "brief_env \<Rightarrow> dag_node \<Rightarrow> compensation_outcome option" where
  "build_compensation_plan_entry brief_of n =
     Option.bind (build_rollback_descriptor n) (\<lambda>d.
     Option.bind (to_workstation_hints d n) (\<lambda>hints.
       Some (comp_row n d (rd_policy d) DescriptorReady
         ''cascade plan: compensation node recorded; no dispatch performed''
         (if rd_objective d \<noteq> None
          then Some (truncate_rollback_brief_preview (brief_of hints (strategy_of n))) else None)
         None None)))"

definition map_dispatch_outcome_to_compensation ::
  "dag_node \<Rightarrow> rollback_descriptor \<Rightarrow> ws_outcome \<Rightarrow> compensation_outcome" where
  "map_dispatch_outcome_to_compensation n d out =
     (case out of
        WsDispatched b path p \<Rightarrow>
          comp_row n d RbWorkstation Dispatched
            ''cascade dispatch-safe: workstation dispatch completed; inner handler returned Ok''
            (Some (truncate_rollback_brief_preview b)) path (Some p)
      | WsDryRun b \<Rightarrow>
          comp_row n d RbWorkstation Dispatched
            ''cascade dispatch-safe: substrate ran dry_run (no real handler invoked)''
            (Some (truncate_rollback_brief_preview b)) None None
      | WsInnerError b p \<Rightarrow>
          comp_row n d RbWorkstation RbFailed
            (''cascade dispatch-safe: workstation dispatch failed: ''
             @ unwrap_or (opt_str p ''error'') ''cascade compensation inner handler returned error'')
            (Some (truncate_rollback_brief_preview b)) None (Some p)
      | WsSafeDescriptor r b \<Rightarrow>
          comp_row n d RbWorkstation Refused
            (''cascade dispatch-safe refused (substrate): '' @ safe_reason_detail r)
            (map_option truncate_rollback_brief_preview b) None None)"

definition cascade_entry ::
  "ws_env \<Rightarrow> brief_env \<Rightarrow> rollback_cascade_mode \<Rightarrow> nat \<Rightarrow> dag_node
     \<Rightarrow> (compensation_outcome \<times> (dag_node \<times> ws_hints) list) option" where
  "cascade_entry ws brief_of mode t n =
     (if mode = CascadePlan then map_option (\<lambda>c. (c, [])) (build_compensation_plan_entry brief_of n)
      else Option.bind (build_rollback_descriptor n) (\<lambda>d.
        if rd_policy d = RbWorkstation then
          (case safety_check_for_workstation d n of
             Inl reason \<Rightarrow>
               Some (comp_row n d RbWorkstation Refused (''cascade dispatch-safe refused: '' @ reason)
                 None None None, [])
           | Inr _ \<Rightarrow>
               Option.bind (to_workstation_hints d n) (\<lambda>hints.
                 Some (map_dispatch_outcome_to_compensation n d (ws t hints (strategy_of n)), [(n, hints)])))
        else map_option (\<lambda>c. (c, [])) (build_compensation_plan_entry brief_of n)))"

fun cascade_entries ::
  "ws_env \<Rightarrow> brief_env \<Rightarrow> rollback_cascade_mode \<Rightarrow> nat \<Rightarrow> dag_node list
     \<Rightarrow> (compensation_outcome list \<times> (dag_node \<times> ws_hints) list) option" where
  "cascade_entries ws brief_of mode t [] = Some ([], [])"
| "cascade_entries ws brief_of mode t (n # ns) =
     Option.bind (cascade_entry ws brief_of mode t n) (\<lambda>(c, calls).
     Option.bind (cascade_entries ws brief_of mode (t + length calls) ns) (\<lambda>(cs, calls').
       Some (c # cs, calls @ calls')))"

definition count_status :: "rollback_status \<Rightarrow> compensation_outcome list \<Rightarrow> string" where
  "count_status st cs = show_nat (length (filter (\<lambda>c. co_status c = st) cs))"

definition run_cascade_rollback ::
  "ws_env \<Rightarrow> brief_env \<Rightarrow> nat \<Rightarrow> dag_node \<Rightarrow> dag_node list \<Rightarrow> string list
     \<Rightarrow> (cascade_outcome \<times> (dag_node \<times> ws_hints) list) option" where
  "run_cascade_rollback ws brief_of t failed ns forward_order =
     (let mode = unwrap_or (rollback_cascade_kind failed) CascadeNone;
          mk = (\<lambda>cs reason. \<lparr> ca_mode = mode, ca_cascade_root = node_id failed,
                 ca_compensations = cs, ca_reason = reason \<rparr>)
      in if mode = CascadeNone then Some (mk [] ''cascade rollback not requested'', [])
         else let ordered = compute_compensation_order (node_id failed) ns forward_order in
           if ordered = [] then
             Some (mk [] (''cascade '' @ rollback_cascade_wire mode
               @ '': no compensation nodes declared `:compensates '' @ [dquote] @ node_id failed @ [dquote] @ ''`''), [])
           else Option.bind (cascade_entries ws brief_of mode t ordered) (\<lambda>(cs, calls).
             Some (mk cs (''cascade '' @ rollback_cascade_wire mode @ '': compensation_nodes=''
               @ show_nat (length cs) @ '' recorded='' @ count_status DescriptorReady cs
               @ '' dispatched='' @ count_status Dispatched cs @ '' refused='' @ count_status Refused cs
               @ '' failed='' @ count_status RbFailed cs), calls)))"

subsection \<open>Both passes (\<open>runtime/rollbacks.rs\<close>)\<close>

definition evaluate_rollback ::
  "ws_env \<Rightarrow> brief_env \<Rightarrow> nat \<Rightarrow> dag_node \<Rightarrow> dag_node list \<Rightarrow> string list
     \<Rightarrow> (rollback_evaluation option \<times> (dag_node \<times> ws_hints) list) option" where
  "evaluate_rollback ws brief_of t n ns order =
     Option.bind (run_rollback ws brief_of t n) (\<lambda>(e, calls).
       if has_active_rollback_cascade n then
         Option.bind (run_cascade_rollback ws brief_of (t + length calls) n ns order) (\<lambda>(c, calls').
           let e' = (if cascade_is_inactive c then e else e\<lparr> rb_cascade := Some c \<rparr>)
           in Some (if rollback_is_inactive e' then None else Some e', calls @ calls'))
       else Some (if rollback_is_inactive e then None else Some e, calls))"

subsection \<open>The compensation order is a permutation that respects \<open>rollback-after\<close>\<close>

definition comp_step :: "dag_node list \<Rightarrow> (string \<times> nat) list \<Rightarrow> dag_node \<Rightarrow> (string \<times> nat) list" where
  "comp_step cands al n =
     foldl (\<lambda>al a. al_bump (node_id n) al) (al_or_insert (node_id n) 0 al) (after_deps cands n)"

lemma comp_step_new:
  assumes "node_id n \<notin> fst ` set al"
  shows "map fst (comp_step cands al n) = map fst al @ [node_id n]"
    and "map_of (comp_step cands al n) x =
      (if x = node_id n then Some (length (after_deps cands n)) else map_of al x)"
proof -
  let ?al = "al_or_insert (node_id n) 0 al"
  have none: "map_of al (node_id n) = None" using assms by (simp add: map_of_eq_None_iff)
  then have some: "map_of ?al (node_id n) \<noteq> None" by (simp add: map_of_al_or_insert)
  show k: "map fst (comp_step cands al n) = map fst al @ [node_id n]"
    unfolding comp_step_def bump_many(1)[OF some] using assms by (simp add: keys_al_or_insert)
  show "map_of (comp_step cands al n) x =
      (if x = node_id n then Some (length (after_deps cands n)) else map_of al x)"
  proof (cases "map_of ?al x")
    case None
    then have "map_of al x = None" "x \<noteq> node_id n" using some by (auto simp: map_of_al_or_insert split: if_splits)
    moreover from this have "map_of (comp_step cands al n) x = None"
      using arg_cong[OF k, of set] by (auto simp: map_of_eq_None_iff)
    ultimately show ?thesis by simp
  next
    case (Some c)
    then have "map_of (comp_step cands al n) x =
        Some (c + (if x = node_id n then length (after_deps cands n) else 0))"
      unfolding comp_step_def by (rule bump_many(2)[OF some])
    with Some none show ?thesis by (auto simp: map_of_al_or_insert split: if_splits)
  qed
qed

lemma comp_indeg_props:
  assumes "unique_ids cands"
  shows "map fst (comp_indeg cands) = ids_of cands"
    and "n \<in> set cands \<Longrightarrow> map_of (comp_indeg cands) (node_id n) = Some (length (after_deps cands n))"
proof -
  have gen: "distinct (map fst al @ ids_of ms) \<Longrightarrow>
      map fst (foldl (comp_step cands) al ms) = map fst al @ ids_of ms \<and>
      (\<forall>x \<in> fst ` set al. map_of (foldl (comp_step cands) al ms) x = map_of al x) \<and>
      (\<forall>n \<in> set ms. map_of (foldl (comp_step cands) al ms) (node_id n) = Some (length (after_deps cands n)))"
    for al :: "(string \<times> nat) list" and ms
  proof (induction ms arbitrary: al)
    case Nil
    then show ?case by (simp add: ids_of_def)
  next
    case (Cons m ms)
    then have nin: "node_id m \<notin> fst ` set al" by (auto simp: ids_of_def)
    note st = comp_step_new[OF nin, of cands]
    have d: "distinct (map fst (comp_step cands al m) @ ids_of ms)"
      using Cons.prems st(1) by (auto simp: ids_of_def)
    have keys: "fst ` set (comp_step cands al m) = insert (node_id m) (fst ` set al)"
      using arg_cong[OF st(1), of set] by simp
    have rest: "node_id m \<notin> node_id ` set ms" using Cons.prems by (auto simp: ids_of_def)
    have "(node_id m, b) \<notin> set al" for b using nin by (metis fst_conv imageI)
    then show ?case using Cons.IH[OF d] st keys nin rest by (auto simp: ids_of_def)
  qed
  have fold: "comp_indeg cands = foldl (comp_step cands) [] cands"
    by (simp add: comp_indeg_def comp_step_def[abs_def])
  show "map fst (comp_indeg cands) = ids_of cands"
    using gen[of "[]" cands] assms by (simp add: fold unique_ids_def)
  show "n \<in> set cands \<Longrightarrow> map_of (comp_indeg cands) (node_id n) = Some (length (after_deps cands n))"
    using gen[of "[]" cands] assms by (simp add: fold unique_ids_def)
qed

lemma comp_succs_count:
  assumes "unique_ids cands" "n \<in> set cands"
  shows "count_list (unwrap_or (comp_succs cands h) []) (node_id n) = count_list (after_deps cands n) h"
proof -
  have "unwrap_or (foldl (\<lambda>m n. foldl (\<lambda>m a. succ_push a (node_id n) m) m (after_deps cands n)) m ms h) []
      = unwrap_or (m h) [] @ concat (map (\<lambda>n. replicate (count_list (after_deps cands n) h) (node_id n)) ms)"
    for m :: "string \<rightharpoonup> string list" and ms
    by (induction ms arbitrary: m) (simp_all add: succ_push_many)
  from this[of Map.empty cands]
  have v: "unwrap_or (comp_succs cands h) [] =
      concat (map (\<lambda>n. replicate (count_list (after_deps cands n) h) (node_id n)) cands)"
    by (simp add: comp_succs_def)
  have "count_list (concat (map (\<lambda>n. replicate (count_list (after_deps cands n) h) (node_id n)) ms)) x
      = sum_list (map (\<lambda>n. if node_id n = x then count_list (after_deps cands n) h else 0) ms)" for ms x
    by (induction ms) (auto simp: count_list_replicate)
  with v sum_list_unique_id[OF assms, of "\<lambda>n. count_list (after_deps cands n) h"] show ?thesis by simp
qed

lemma decr_children_props:
  "map fst (decr_children cs al) = map fst al"
  "map_of (decr_children cs al) x = map_option (\<lambda>d. d - count_list cs x) (map_of al x)"
proof -
  have k: "map fst (AList.map_entry c f al) = map fst al" for c :: string and f and al :: "(string \<times> nat) list"
    by (induction al) auto
  have m: "map_of (AList.map_entry c f al) x = (if x = c then map_option f (map_of al x) else map_of al x)"
    for c :: string and f and al :: "(string \<times> nat) list"
    by (induction al) auto
  show "map fst (decr_children cs al) = map fst al"
    unfolding decr_children_def by (induction cs arbitrary: al) (auto simp: k)
  show "map_of (decr_children cs al) x = map_option (\<lambda>d. d - count_list cs x) (map_of al x)"
    unfolding decr_children_def
    by (induction cs arbitrary: al) (auto simp: m option.map_comp comp_def option.map_ident)
qed

definition after_prefix :: "dag_node list \<Rightarrow> dag_node list \<Rightarrow> bool" where
  "after_prefix cands ordered \<longleftrightarrow>
     (\<forall>i < length ordered. set (after_deps cands (ordered ! i)) \<subseteq> set (ids_of (take i ordered)))"

definition comp_inv ::
  "dag_node list \<Rightarrow> (string \<rightharpoonup> string list) \<Rightarrow> (string \<rightharpoonup> dag_node) \<Rightarrow> (string \<times> nat) list
     \<Rightarrow> dag_node list \<Rightarrow> bool" where
  "comp_inv cands succs by_id indeg ordered \<longleftrightarrow>
     distinct (map fst indeg) \<and> fst ` set indeg = set (ids_of cands) - set (ids_of ordered) \<and>
     distinct (ids_of ordered) \<and> set ordered \<subseteq> set cands \<and>
     (\<forall>x. x \<notin> set (ids_of ordered) \<longrightarrow> by_id x = by_id_map cands x \<and> succs x = comp_succs cands x) \<and>
     (\<forall>n \<in> set cands. node_id n \<notin> set (ids_of ordered) \<longrightarrow>
        map_of indeg (node_id n) =
          Some (length (filter (\<lambda>a. a \<notin> set (ids_of ordered)) (after_deps cands n)))) \<and>
     after_prefix cands ordered"

lemma comp_inv_start:
  assumes "unique_ids cands"
  shows "comp_inv cands (comp_succs cands) (by_id_map cands) (comp_indeg cands) []"
proof -
  have k: "map fst (comp_indeg cands) = ids_of cands" by (rule comp_indeg_props(1)[OF assms])
  have "fst ` set (comp_indeg cands) = set (ids_of cands)" using arg_cong[OF k, of set] by simp
  with k show ?thesis
    using comp_indeg_props(2)[OF assms] assms
    by (auto simp: comp_inv_def after_prefix_def unique_ids_def ids_of_def)
qed

lemma comp_inv_step:
  assumes u: "unique_ids cands" and inv: "comp_inv cands succs by_id indeg ordered"
    and r: "comp_ready rank indeg = nxt # rest"
  obtains n where "by_id nxt = Some n" "n \<in> set cands"
    "comp_inv cands (succs(nxt := None)) (by_id(nxt := None))
       (decr_children (unwrap_or (succs nxt) []) (AList.delete nxt indeg)) (ordered @ [n])"
proof -
  from comp_ready_mem[OF r] have mem: "(nxt, 0) \<in> set indeg" .
  have dk: "distinct (map fst indeg)" and keys: "fst ` set indeg = set (ids_of cands) - set (ids_of ordered)"
    using inv by (auto simp: comp_inv_def)
  have nx: "nxt \<in> set (ids_of cands)" "nxt \<notin> set (ids_of ordered)" using mem keys by force+
  then obtain n where n: "by_id_map cands nxt = Some n" using by_id_map_None[of cands nxt] by blast
  then have nc: "n \<in> set cands" "node_id n = nxt" using by_id_map_Some by metis+
  have by_id: "by_id nxt = Some n" and su: "succs nxt = comp_succs cands nxt"
    using inv nx n by (auto simp: comp_inv_def)
  have "map_of indeg nxt = Some 0" using mem dk by simp
  moreover have "map_of indeg nxt =
      Some (length (filter (\<lambda>a. a \<notin> set (ids_of ordered)) (after_deps cands n)))"
    using inv nc nx(2) by (auto simp: comp_inv_def simp del: set_ids_of)
  ultimately have sat: "set (after_deps cands n) \<subseteq> set (ids_of ordered)"
    by (auto simp: filter_empty_conv simp del: set_ids_of)
  let ?al = "AList.delete nxt indeg"
  let ?new = "decr_children (unwrap_or (succs nxt) []) ?al"
  have kn: "map fst ?new = map fst ?al" by (rule decr_children_props(1))
  have "fst ` set ?new = fst ` set ?al" using arg_cong[OF kn, of set] by simp
  moreover have "fst ` set ?al = fst ` set indeg - {nxt}" by (rule fst_set_delete)
  ultimately have k2: "fst ` set ?new = set (ids_of cands) - set (ids_of (ordered @ [n]))"
    using keys nc by (auto simp: ids_of_def)
  have d2: "distinct (map fst ?new)" unfolding kn by (rule distinct_delete[OF dk])
  have vals: "map_of ?new (node_id m) =
      Some (length (filter (\<lambda>a. a \<notin> set (ids_of (ordered @ [n]))) (after_deps cands m)))"
    if m: "m \<in> set cands" "node_id m \<notin> set (ids_of (ordered @ [n]))" for m
  proof -
    have ne: "node_id m \<noteq> nxt" "node_id m \<notin> set (ids_of ordered)" using m nc by (auto simp: ids_of_def)
    then have "map_of ?al (node_id m) =
        Some (length (filter (\<lambda>a. a \<notin> set (ids_of ordered)) (after_deps cands m)))"
      using inv m(1) by (auto simp: comp_inv_def delete_conv' simp del: set_ids_of)
    then have "map_of ?new (node_id m) =
        Some (length (filter (\<lambda>a. a \<notin> set (ids_of ordered)) (after_deps cands m))
          - count_list (after_deps cands m) nxt)"
      by (simp add: decr_children_props(2) su comp_succs_count[OF u m(1)])
    moreover have "length (filter (\<lambda>a. a \<notin> insert nxt (set (ids_of ordered))) (after_deps cands m))
        + count_list (after_deps cands m) nxt
        = length (filter (\<lambda>a. a \<notin> set (ids_of ordered)) (after_deps cands m))"
      by (rule count_list_filter_notin[OF nx(2)])
    moreover have "set (ids_of (ordered @ [n])) = insert nxt (set (ids_of ordered))"
      using nc by (auto simp: ids_of_def)
    ultimately show ?thesis by (simp del: set_ids_of)
  qed
  have pre: "after_prefix cands (ordered @ [n])"
    using inv sat unfolding after_prefix_def comp_inv_def
    by (auto simp: nth_append less_Suc_eq simp del: set_ids_of)
  have "comp_inv cands (succs(nxt := None)) (by_id(nxt := None)) ?new (ordered @ [n])"
    using inv nc nx(2) d2 k2 vals pre unfolding comp_inv_def by (auto simp: ids_of_def)
  with by_id nc that show ?thesis by blast
qed

lemma comp_loop_ok:
  assumes u: "unique_ids cands" and inv: "comp_inv cands succs by_id indeg ordered"
  shows "\<exists>succs' by_id' indeg'. comp_inv cands succs' by_id' indeg' (comp_loop rank succs by_id indeg ordered)
    \<and> comp_ready rank indeg' = []"
  using inv
proof (induction rank succs by_id indeg ordered rule: comp_loop.induct)
  case (1 rank succs by_id indeg ordered)
  show ?case
  proof (cases "comp_ready rank indeg")
    case Nil
    then show ?thesis using "1.prems" by (subst comp_loop.simps) auto
  next
    case (Cons nxt rest)
    obtain n where n: "by_id nxt = Some n"
      "comp_inv cands (succs(nxt := None)) (by_id(nxt := None))
         (decr_children (unwrap_or (succs nxt) []) (AList.delete nxt indeg)) (ordered @ [n])"
      by (rule comp_inv_step[OF u "1.prems" Cons])
    have "comp_loop rank succs by_id indeg ordered =
        comp_loop rank (succs(nxt := None)) (by_id(nxt := None))
          (decr_children (unwrap_or (succs nxt) []) (AList.delete nxt indeg)) (ordered @ [n])"
      by (subst comp_loop.simps) (simp add: Cons n(1))
    moreover have "\<exists>succs' by_id' indeg'. comp_inv cands succs' by_id' indeg'
        (comp_loop rank (succs(nxt := None)) (by_id(nxt := None))
          (decr_children (unwrap_or (succs nxt) []) (AList.delete nxt indeg)) (ordered @ [n]))
        \<and> comp_ready rank indeg' = []"
      using "1.IH"[OF Cons] n by (simp del: fun_upd_apply)
    ultimately show ?thesis by (simp del: fun_upd_apply)
  qed
qed

text \<open>A list of nodes with distinct ids drawn from the candidates, completed by the others.\<close>

lemma complete_mset:
  assumes "unique_ids cands" "distinct (ids_of ordered)" "set ordered \<subseteq> set cands"
  shows "mset (ordered @ filter (\<lambda>n. node_id n \<notin> set (ids_of ordered)) cands) = mset cands"
proof -
  have dc: "distinct cands" and inj: "inj_on node_id (set cands)"
    using assms(1) by (auto simp: unique_ids_def ids_of_def distinct_map)
  have "distinct ordered" using assms(2) by (simp add: ids_of_def distinct_map)
  moreover have "node_id n \<in> set (ids_of ordered) \<longleftrightarrow> n \<in> set ordered" if "n \<in> set cands" for n
    using inj that assms(3) by (auto simp: inj_on_def)
  ultimately show ?thesis using dc assms(3)
    by (intro set_eq_iff_mset_eq_distinct[THEN iffD1]) auto
qed

lemma compensation_order_spec:
  fixes failed :: string and ns :: "dag_node list"
  assumes u: "unique_ids ns"
  defines "cands \<equiv> compensation_candidates failed ns"
  obtains ordered where
    "mset (compute_compensation_order failed ns order) = mset cands"
    "compute_compensation_order failed ns order =
       ordered @ filter (\<lambda>n. node_id n \<notin> set (ids_of ordered)) cands"
    "after_prefix cands ordered" "set ordered \<subseteq> set cands"
    "\<forall>n \<in> set cands. n \<notin> set ordered \<longrightarrow> (\<exists>a \<in> set (after_deps cands n). a \<notin> set (ids_of ordered))"
proof -
  have "ids_of (filter P ns) = map node_id (filter P ns)" for P by (simp add: ids_of_def)
  have uc: "unique_ids cands"
    using u by (auto simp: cands_def compensation_candidates_def Let_def unique_ids_def ids_of_def
        distinct_map inj_on_def)
  let ?o = "comp_loop (rank_of order cands) (comp_succs cands) (by_id_map cands) (comp_indeg cands) []"
  obtain succs by_id indeg where inv: "comp_inv cands succs by_id indeg ?o"
    and stop: "comp_ready (rank_of order cands) indeg = []"
    using comp_loop_ok[OF uc comp_inv_start[OF uc]] by blast
  have d: "distinct (ids_of ?o)" and sub: "set ?o \<subseteq> set cands" and pre: "after_prefix cands ?o"
    using inv by (auto simp: comp_inv_def)
  have left: "\<exists>a \<in> set (after_deps cands n). a \<notin> set (ids_of ?o)" if n: "n \<in> set cands" "n \<notin> set ?o" for n
  proof -
    have nin: "node_id n \<notin> set (ids_of ?o)"
      using n sub uc by (auto simp: unique_ids_def ids_of_def distinct_map inj_on_def)
    then have v: "map_of indeg (node_id n) =
        Some (length (filter (\<lambda>a. a \<notin> set (ids_of ?o)) (after_deps cands n)))"
      using inv n(1) by (auto simp: comp_inv_def simp del: set_ids_of)
    have "\<forall>kv \<in> set indeg. snd kv \<noteq> 0" using stop by (simp only: comp_ready_Nil)
    with map_of_SomeD[OF v] have "filter (\<lambda>a. a \<notin> set (ids_of ?o)) (after_deps cands n) \<noteq> []" by force
    then show ?thesis by (auto simp: filter_empty_conv simp del: set_ids_of)
  qed
  have full: "compute_compensation_order failed ns order =
      ?o @ filter (\<lambda>n. node_id n \<notin> set (ids_of ?o)) cands"
  proof (cases "cands = []")
    case True
    then have "?o = []" using sub by simp
    with True show ?thesis by (simp add: compute_compensation_order_def cands_def Let_def)
  next
    case False
    show ?thesis
    proof (cases "length ?o < length cands")
      case True
      with False show ?thesis by (simp add: compute_compensation_order_def cands_def Let_def)
    next
      case long: False
      have "length (?o @ filter (\<lambda>n. node_id n \<notin> set (ids_of ?o)) cands) = length cands"
        using complete_mset[OF uc d sub] by (metis size_mset)
      then have "length (filter (\<lambda>n. node_id n \<notin> set (ids_of ?o)) cands) = 0"
        using long unfolding length_append by linarith
      then have "filter (\<lambda>n. node_id n \<notin> set (ids_of ?o)) cands = []" unfolding length_0_conv .
      with False long show ?thesis by (simp add: compute_compensation_order_def cands_def[symmetric] Let_def)
    qed
  qed
  show ?thesis
    by (rule that[OF _ full pre sub]) (use full complete_mset[OF uc d sub] left in auto)
qed

subsection \<open>What the passes dispatch\<close>

text \<open>A call the safety rules allow.\<close>

definition safe_call :: "dag_node \<times> ws_hints \<Rightarrow> bool" where
  "safe_call c \<longleftrightarrow> (case c of (n, h) \<Rightarrow>
     rollback_policy_kind n = Some RbWorkstation \<and> \<not> blank (wh_objective h) \<and> wh_owned_files h \<noteq> [] \<and>
     (\<not> blank (wh_target_project h) \<or> \<not> blank (wh_requested_cwd h)) \<and>
     trim (unwrap_or (wh_dispatch_strategy h) []) \<in> set INFERABLE_DISPATCH_STRATEGIES \<and>
     split_lisp_string_list (rollback_owned_files_raw n) = Some (wh_owned_files h))"

lemma safe_callI:
  assumes "build_rollback_descriptor n = Some d" "rd_policy d = RbWorkstation"
    "safety_check_for_workstation d n = Inr u" "to_workstation_hints d n = Some h"
  shows "safe_call (n, h)"
proof -
  have pol: "rollback_policy_kind n = Some RbWorkstation"
    using assms(1,2) by (cases "rollback_policy_kind n") (auto simp: build_rollback_descriptor_def bind_eq_Some_conv)
  have own: "split_lisp_string_list (rollback_owned_files_raw n) = Some (rd_owned_files d)"
    using assms(1) by (auto simp: build_rollback_descriptor_def bind_eq_Some_conv)
  have h: "wh_objective h = rd_objective d" "wh_owned_files h = rd_owned_files d"
    "wh_target_project h = target_project n" "wh_requested_cwd h = requested_cwd n"
    "wh_dispatch_strategy h = dispatch_strategy n"
    using assms(4) by (auto simp: to_workstation_hints_def bind_eq_Some_conv)
  have "\<not> blank (rd_objective d)" "rd_owned_files d \<noteq> []"
    "\<not> (blank (target_project n) \<and> blank (requested_cwd n))"
    "trim (unwrap_or (dispatch_strategy n) []) \<in> set INFERABLE_DISPATCH_STRATEGIES"
    using assms(3) by (auto simp: safety_check_for_workstation_def Let_def rust_simps)
  then show ?thesis using pol own h by (auto simp: safe_call_def)
qed

lemma run_rollback_calls:
  assumes "run_rollback ws brief_of t n = Some (e, calls)"
  shows "(\<forall>c \<in> set calls. safe_call c \<and> fst c = n) \<and> length calls \<le> 1
    \<and> (rb_status e = Dispatched \<longrightarrow> calls \<noteq> [])
    \<and> (rollback_policy_kind n \<noteq> Some RbWorkstation \<longrightarrow> calls = [])"
proof -
  obtain d where d: "build_rollback_descriptor n = Some d"
    using assms by (auto simp: run_rollback_def bind_eq_Some_conv)
  show ?thesis
  proof (cases "rd_policy d")
    case RbWorkstation
    show ?thesis
    proof (cases "safety_check_for_workstation d n")
      case (Inl r)
      then show ?thesis using assms d RbWorkstation by (auto simp: run_rollback_def rollback_eval_def)
    next
      case (Inr u)
      then obtain h where h: "to_workstation_hints d n = Some h" "calls = [(n, h)]"
        using assms d RbWorkstation by (auto simp: run_rollback_def bind_eq_Some_conv)
      from safe_callI[OF d RbWorkstation Inr h(1)] h(2) show ?thesis by (auto simp: safe_call_def)
    qed
  qed (use assms d in \<open>auto simp: run_rollback_def rollback_eval_def bind_eq_Some_conv\<close>)
qed

lemma plan_entry_status:
  "build_compensation_plan_entry brief_of n = Some c \<Longrightarrow> co_status c = DescriptorReady \<and> co_node_id c = node_id n"
  by (auto simp: build_compensation_plan_entry_def comp_row_def bind_eq_Some_conv)

lemma cascade_entry_calls:
  assumes "cascade_entry ws brief_of mode t n = Some (c, calls)"
  shows "(\<forall>c \<in> set calls. safe_call c \<and> fst c = n) \<and> length calls \<le> 1 \<and> co_node_id c = node_id n
    \<and> (mode = CascadePlan \<longrightarrow> calls = [] \<and> co_status c = DescriptorReady)
    \<and> (calls \<noteq> [] \<longrightarrow> rollback_policy_kind n = Some RbWorkstation)
    \<and> (co_status c = Dispatched \<longrightarrow> calls \<noteq> [])"
proof (cases "mode = CascadePlan")
  case True
  then show ?thesis using assms plan_entry_status by (auto simp: cascade_entry_def)
next
  case False
  then obtain d where d: "build_rollback_descriptor n = Some d"
    using assms by (auto simp: cascade_entry_def bind_eq_Some_conv)
  show ?thesis
  proof (cases "rd_policy d = RbWorkstation")
    case ws: True
    show ?thesis
    proof (cases "safety_check_for_workstation d n")
      case (Inl r)
      then show ?thesis using assms d ws False by (auto simp: cascade_entry_def comp_row_def)
    next
      case (Inr u)
      then obtain h where h: "to_workstation_hints d n = Some h" "calls = [(n, h)]"
        "c = map_dispatch_outcome_to_compensation n d (ws t h (strategy_of n))"
        using assms d ws False by (auto simp: cascade_entry_def bind_eq_Some_conv)
      have "co_node_id c = node_id n"
        unfolding h(3) map_dispatch_outcome_to_compensation_def comp_row_def by (simp split: ws_outcome.splits)
      with safe_callI[OF d ws Inr h(1)] h(2) False show ?thesis by (auto simp: safe_call_def)
    qed
  next
    case nws: False
    then show ?thesis using assms d False plan_entry_status by (auto simp: cascade_entry_def)
  qed
qed

lemma cascade_entries_calls:
  "cascade_entries ws brief_of mode t ns = Some (cs, calls) \<Longrightarrow>
     map co_node_id cs = ids_of ns \<and> (\<forall>c \<in> set calls. safe_call c \<and> fst c \<in> set ns) \<and>
     (mode = CascadePlan \<longrightarrow> calls = [] \<and> (\<forall>c \<in> set cs. co_status c = DescriptorReady))"
proof (induction ns arbitrary: t cs calls)
  case Nil
  then show ?case by (simp add: ids_of_def)
next
  case (Cons n ns)
  then obtain c calls1 cs' calls2 where
    e: "cascade_entry ws brief_of mode t n = Some (c, calls1)"
    and r: "cascade_entries ws brief_of mode (t + length calls1) ns = Some (cs', calls2)"
    and o: "cs = c # cs'" "calls = calls1 @ calls2"
    by (auto simp: bind_eq_Some_conv)
  from cascade_entry_calls[OF e] Cons.IH[OF r] o show ?case by (auto simp: ids_of_def)
qed

lemma run_cascade_entries:
  assumes "rollback_cascade_kind n = Some m" "m \<noteq> CascadeNone"
    and "run_cascade_rollback ws brief_of t n ns order = Some (c, calls)"
  shows "cascade_entries ws brief_of m t (compute_compensation_order (node_id n) ns order) =
    Some (ca_compensations c, calls)"
  using assms
  by (cases "compute_compensation_order (node_id n) ns order = []")
    (auto simp: run_cascade_rollback_def Let_def bind_eq_Some_conv)

lemma run_cascade_calls:
  assumes u: "unique_ids ns" and r: "run_cascade_rollback ws brief_of t n ns order = Some (c, calls)"
  shows "(\<forall>k \<in> set calls. safe_call k \<and> fst k \<in> set (compensation_candidates (node_id n) ns)) \<and>
    (rollback_cascade_kind n \<noteq> Some CascadeDispatchSafe \<longrightarrow> calls = []) \<and>
    (rollback_cascade_kind n \<noteq> None \<and> rollback_cascade_kind n \<noteq> Some CascadeNone \<longrightarrow>
       map co_node_id (ca_compensations c) = ids_of (compute_compensation_order (node_id n) ns order))"
proof -
  obtain ordered where m: "mset (compute_compensation_order (node_id n) ns order) =
      mset (compensation_candidates (node_id n) ns)"
    by (rule compensation_order_spec[OF u])
  then have s: "set (compute_compensation_order (node_id n) ns order) =
      set (compensation_candidates (node_id n) ns)" by (metis set_mset_mset)
  show ?thesis
  proof (cases "unwrap_or (rollback_cascade_kind n) CascadeNone")
    case CascadeNone
    then show ?thesis using r by (cases "rollback_cascade_kind n") (auto simp: run_cascade_rollback_def)
  next
    case CascadePlan
    then have k: "rollback_cascade_kind n = Some CascadePlan" by (cases "rollback_cascade_kind n") auto
    from cascade_entries_calls[OF run_cascade_entries[OF k _ r]] k s show ?thesis by auto
  next
    case CascadeDispatchSafe
    then have k: "rollback_cascade_kind n = Some CascadeDispatchSafe" by (cases "rollback_cascade_kind n") auto
    from cascade_entries_calls[OF run_cascade_entries[OF k _ r]] k s show ?thesis by auto
  qed
qed

lemma evaluate_rollback_calls:
  assumes u: "unique_ids ns" and r: "evaluate_rollback ws brief_of t n ns order = Some (e, calls)"
  shows "\<forall>k \<in> set calls. safe_call k \<and>
    (fst k = n \<or> rollback_cascade_kind n = Some CascadeDispatchSafe
        \<and> fst k \<in> set (compensation_candidates (node_id n) ns))"
proof -
  obtain e1 c1 where r1: "run_rollback ws brief_of t n = Some (e1, c1)"
    using r by (auto simp: evaluate_rollback_def bind_eq_Some_conv)
  note p1 = run_rollback_calls[OF r1]
  show ?thesis
  proof (cases "has_active_rollback_cascade n")
    case False
    then show ?thesis using r r1 p1 by (auto simp: evaluate_rollback_def)
  next
    case True
    then obtain c c2 where r2: "run_cascade_rollback ws brief_of (t + length c1) n ns order = Some (c, c2)"
      "calls = c1 @ c2"
      using r r1 by (auto simp: evaluate_rollback_def bind_eq_Some_conv Let_def)
    show ?thesis using p1 run_cascade_calls[OF u r2(1)] r2(2) by fastforce
  qed
qed

lemma take_bytes_bound: "byte_len (take_bytes m s) \<le> m \<and> (\<exists>r. s = take_bytes m s @ r)"
proof (induction m s rule: take_bytes.induct)
  case (1 m)
  then show ?case by (simp add: byte_len_def)
next
  case (2 m c cs)
  then show ?case by (auto simp: byte_len_def)
qed

lemma preview_bound: "byte_len (truncate_rollback_brief_preview b) \<le> 803"
proof -
  have "byte_len (x @ ''...'') = byte_len x + 3" for x by (simp add: byte_len_def utf8_len_def)
  then show ?thesis using take_bytes_bound[of 800 b] by (auto simp: truncate_rollback_brief_preview_def)
qed

end
