(* ===== verification/Claim_Lease.thy ===== *)
theory Claim_Lease
  imports Topo_Sort Lisp_List
begin

text \<open>
  Claims and leases of plan nodes (\<open>plan_dag/claim_lease.rs\<close>): the knobs, the scopes a node
  claims, the claim ids and the per-run registry. The registry is stated as an interface
  (\<open>claim_store\<close>) and interpreted by the map the code keeps. A plan id (\<open>Uuid\<close>) is its text.
  \<open>try_acquire\<close> is compiled for tests only and not modelled.
\<close>

subsection \<open>Knobs\<close>

definition DEFAULT_CLAIM_LEASE_SECS :: int where "DEFAULT_CLAIM_LEASE_SECS = 1800"
definition CLAIM_LEASE_SECS_MIN :: int where "CLAIM_LEASE_SECS_MIN = 60"
definition CLAIM_LEASE_SECS_MAX :: int where "CLAIM_LEASE_SECS_MAX = 14400"

definition DEFAULT_CLAIMER_NAME :: string where "DEFAULT_CLAIMER_NAME = ''plan-dag-scheduler''"

definition clamp :: "int \<Rightarrow> int \<Rightarrow> int \<Rightarrow> int" where
  "clamp lo hi v = (if v < lo then lo else if v > hi then hi else v)"

definition parse_claim_lease_secs :: "json \<Rightarrow> int" where
  "parse_claim_lease_secs args =
     clamp CLAIM_LEASE_SECS_MIN CLAIM_LEASE_SECS_MAX
       (unwrap_or (Option.bind (j_get args ''claim_lease_secs'') as_i64) DEFAULT_CLAIM_LEASE_SECS)"

definition parse_claimer_name :: "json \<Rightarrow> string" where
  "parse_claimer_name args =
     (case Option.bind (j_get args ''claimer_name'') as_str of
        None \<Rightarrow> DEFAULT_CLAIMER_NAME
      | Some s \<Rightarrow> if trim s = [] then DEFAULT_CLAIMER_NAME else trim s)"

definition parse_enforce_claims :: "json \<Rightarrow> bool" where
  "parse_enforce_claims args = True"

subsection \<open>Scopes and claim ids\<close>

datatype scope_source = OwnedFiles | NodeScope | PlanNodeFallback

fun scope_source_wire :: "scope_source \<Rightarrow> string" where
  "scope_source_wire OwnedFiles = ''owned_files''"
| "scope_source_wire NodeScope = ''scope''"
| "scope_source_wire PlanNodeFallback = ''plan_node_fallback''"

definition derive_node_claim_scopes ::
  "dag_node \<Rightarrow> string \<Rightarrow> (string list \<times> scope_source) option" where
  "derive_node_claim_scopes n plan_id =
     Option.bind (split_lisp_string_list (owned_files_raw n)) (\<lambda>items.
       let owned = filter (\<lambda>s. trim s \<noteq> []) items in
       Some (if owned \<noteq> [] then (owned, OwnedFiles)
         else if \<not> blank (scope n) then ([trim (the (scope n))], NodeScope)
         else ([''plan/'' @ plan_id @ ''/node/'' @ node_id n], PlanNodeFallback)))"

definition derive_plan_dag_claim_id :: "string \<Rightarrow> string \<Rightarrow> u32 \<Rightarrow> string" where
  "derive_plan_dag_claim_id plan_id x attempt =
     ''plan-dag:'' @ plan_id @ '':'' @ x @ '':'' @ show_nat (unat attempt)"

lemma claim_secs_bounds: "60 \<le> parse_claim_lease_secs args \<and> parse_claim_lease_secs args \<le> 14400"
  by (simp add: parse_claim_lease_secs_def clamp_def CLAIM_LEASE_SECS_MIN_def CLAIM_LEASE_SECS_MAX_def)

lemma claimer_nonempty: "parse_claimer_name args \<noteq> []"
  by (auto simp: parse_claimer_name_def DEFAULT_CLAIMER_NAME_def split: option.splits)

lemma scopes_nonempty:
  "derive_node_claim_scopes n p = Some (ss, src) \<Longrightarrow> ss \<noteq> [] \<and> (\<forall>s \<in> set ss. s \<noteq> [])"
proof -
  assume "derive_node_claim_scopes n p = Some (ss, src)"
  then obtain items where i: "(if filter (\<lambda>s. trim s \<noteq> []) items \<noteq> []
      then (filter (\<lambda>s. trim s \<noteq> []) items, OwnedFiles)
      else if \<not> blank (scope n) then ([trim (the (scope n))], NodeScope)
      else ([''plan/'' @ p @ ''/node/'' @ node_id n], PlanNodeFallback)) = (ss, src)"
    by (auto simp: derive_node_claim_scopes_def Let_def bind_eq_Some_conv)
  have t: "trim s \<noteq> [] \<Longrightarrow> s \<noteq> []" for s by (auto simp: trim_def trim_end_def trim_start_def)
  have t0: "trim [] = []" by (simp add: trim_def trim_end_def trim_start_def)
  have b: "\<not> blank (scope n) \<Longrightarrow> trim (the (scope n)) \<noteq> []"
    by (auto simp: blank_def split: option.splits)
  show ?thesis using i t b by (auto simp: t0 split: if_splits)
qed

text \<open>Claim ids of different attempts of one node differ.\<close>

lemma show_nat_inj: "show_nat m = show_nat n \<Longrightarrow> int m \<le> i64_max \<Longrightarrow> int n \<le> i64_max \<Longrightarrow> m = n"
  by (metis Inr_inject nat_int parse_show_nat)

lemma claim_id_attempt_inj:
  "derive_plan_dag_claim_id p x a = derive_plan_dag_claim_id p x b \<longleftrightarrow> a = b"
proof
  assume "derive_plan_dag_claim_id p x a = derive_plan_dag_claim_id p x b"
  then have s: "show_nat (unat a) = show_nat (unat b)" by (simp add: derive_plan_dag_claim_id_def)
  have "int (unat w) \<le> i64_max" for w :: u32
  proof -
    have "uint w < 2 ^ 32" using uint_bounded[of w] by simp
    then show ?thesis by (simp add: i64_max_def)
  qed
  with s have "unat a = unat b" by (metis show_nat_inj)
  then show "a = b" by (simp add: word_unat_eq_iff)
qed simp

subsection \<open>The registry\<close>

record plan_dag_claim =
  claim_id :: string
  work_lease_ids :: "string list"
  claimer :: string
  scopes :: "string list"
  claim_source :: scope_source
  acquired_at :: int
  lease_expires_at :: int
  released_at :: "int option"

type_synonym claim_registry = "string \<rightharpoonup> plan_dag_claim"

definition registry_new :: claim_registry where
  "registry_new = Map.empty"

definition record_acquired :: "plan_dag_claim \<Rightarrow> claim_registry \<Rightarrow> claim_registry" where
  "record_acquired c reg = reg(claim_id c \<mapsto> c)"

text \<open>\<open>release\<close>: the first release sets the time, a later one leaves it; an unknown id is
  \<open>None\<close>.\<close>

definition release :: "string \<Rightarrow> int \<Rightarrow> claim_registry \<Rightarrow> plan_dag_claim option \<times> claim_registry" where
  "release x now reg =
     (case reg x of
        None \<Rightarrow> (None, reg)
      | Some c \<Rightarrow>
          (let c' = (if released_at c = None then c\<lparr> released_at := Some now \<rparr> else c)
           in (Some c', reg(x \<mapsto> c'))))"

definition registry_get :: "claim_registry \<Rightarrow> string \<Rightarrow> plan_dag_claim option" where
  "registry_get reg x = reg x"

text \<open>What the scheduler relies on: a claim is found under its id once recorded, a release stamps
  it once and touches no other claim.\<close>

locale claim_store =
  fixes new :: 'r
    and rec :: "plan_dag_claim \<Rightarrow> 'r \<Rightarrow> 'r"
    and rel :: "string \<Rightarrow> int \<Rightarrow> 'r \<Rightarrow> plan_dag_claim option \<times> 'r"
    and get :: "'r \<Rightarrow> string \<Rightarrow> plan_dag_claim option"
  assumes get_new: "get new x = None"
    and get_rec: "get (rec c r) x = (if x = claim_id c then Some c else get r x)"
    and rel_fst: "fst (rel x t r) =
      map_option (\<lambda>c. if released_at c = None then c\<lparr> released_at := Some t \<rparr> else c) (get r x)"
    and rel_get: "get (snd (rel x t r)) y = (if y = x then fst (rel x t r) else get r y)"
begin

definition held :: "'r \<Rightarrow> string \<Rightarrow> bool" where
  "held r x \<longleftrightarrow> (\<exists>c. get r x = Some c \<and> released_at c = None)"

lemma held_new [simp]: "\<not> held new x"
  by (simp add: held_def get_new)

lemma held_rec: "released_at c = None \<Longrightarrow> held (rec c r) x \<longleftrightarrow> x = claim_id c \<or> held r x"
  by (auto simp: held_def get_rec)

lemma held_rel: "held (snd (rel x t r)) y \<longleftrightarrow> y \<noteq> x \<and> held r y"
  by (auto simp: held_def rel_get rel_fst split: if_splits)

lemma release_once:
  assumes "get r x = Some c" "released_at c = None"
  shows "fst (rel x t r) = Some (c\<lparr> released_at := Some t \<rparr>)"
    and "fst (rel x u (snd (rel x t r))) = Some (c\<lparr> released_at := Some t \<rparr>)"
    and "get (snd (rel x u (snd (rel x t r)))) y = get (snd (rel x t r)) y"
  using assms by (auto simp: rel_fst rel_get)

end

interpretation reg: claim_store registry_new record_acquired release registry_get
proof
  show "registry_get registry_new x = None" for x
    by (simp add: registry_get_def registry_new_def)
  show "registry_get (record_acquired c r) x = (if x = claim_id c then Some c else registry_get r x)"
    for c r x by (simp add: registry_get_def record_acquired_def)
  show "fst (release x t r) =
      map_option (\<lambda>c. if released_at c = None then c\<lparr> released_at := Some t \<rparr> else c) (registry_get r x)"
    for x t r by (simp add: release_def registry_get_def Let_def split: option.splits)
  show "registry_get (snd (release x t r)) y = (if y = x then fst (release x t r) else registry_get r y)"
    for x t r y by (simp add: release_def registry_get_def Let_def split: option.splits)
qed

subsection \<open>The preview of a dry run\<close>

definition planned_claim :: "string \<Rightarrow> string \<Rightarrow> int \<Rightarrow> bool \<Rightarrow> dag_node \<Rightarrow> json option" where
  "planned_claim plan_id who lease_secs enforce n =
     map_option (\<lambda>(ss, src). JObject
       [(''node_id'', JString (node_id n)),
        (''claim_id'', JString (derive_plan_dag_claim_id plan_id (node_id n) 1)),
        (''claimer'', JString who), (''scopes'', JArray (map JString ss)),
        (''scope_source'', JString (scope_source_wire src)), (''lease_secs'', JInt lease_secs),
        (''enforce_claims'', JBool enforce)]) (derive_node_claim_scopes n plan_id)"

definition build_planned_claims ::
  "dag_node list \<Rightarrow> string list \<Rightarrow> string \<Rightarrow> string \<Rightarrow> int \<Rightarrow> bool \<Rightarrow> json option" where
  "build_planned_claims ns order plan_id who lease_secs enforce =
     map_option JArray (those (map (planned_claim plan_id who lease_secs enforce)
       (List.map_filter (by_id_map ns) order)))"

end
