(* ===== verification/Dag_Scheduler.thy ===== *)
theory Dag_Scheduler
  imports Topo_Sort "HOL-Library.Multiset"
begin

text \<open>
  The pure parts of the wave scheduler (\<open>plan_dag/scheduler.rs\<close>): the capacity preview
  \<open>compute_concurrency_plan\<close>, the parsing of \<open>max_parallel_nodes\<close>, the breadth-first
  \<open>propagate_taint\<close> and the arguments a node hands to the inner dispatcher.
\<close>

subsection \<open>Waves\<close>

definition ready_ids :: "dag_node list \<Rightarrow> string set \<Rightarrow> string list \<Rightarrow> string list" where
  "ready_ids ns completed remaining =
     filter (\<lambda>x. case by_id_map ns x of
                   None \<Rightarrow> False
                 | Some n \<Rightarrow> list_all (\<lambda>dep. dep \<in> completed) (depends_on n)) remaining"

lemma ready_ids_subset: "set (ready_ids ns c r) \<subseteq> set r"
  by (auto simp: ready_ids_def)

lemma wave_nonempty: "ready \<noteq> [] \<Longrightarrow> take (max k 1) (sort ready) \<noteq> []"
  by (metis length_0_conv length_sort max.cobounded2 not_one_le_zero take_eq_Nil)

lemma wave_subset: "set (take m (sort ready)) \<subseteq> set ready"
  by (metis set_sort set_take_subset)

lemma wave_progress:
  assumes "ready_ids ns c r \<noteq> []"
  shows "length (filter (\<lambda>x. x \<notin> set (take (max k 1) (sort (ready_ids ns c r)))) r) < length r"
proof -
  obtain x where "x \<in> set (take (max k 1) (sort (ready_ids ns c r)))"
    using wave_nonempty[OF assms, of k] by (meson list.set_sel(1))
  moreover from this have "x \<in> set r"
    using wave_subset ready_ids_subset by (metis subsetD)
  ultimately show ?thesis by (intro length_filter_less) auto
qed

function plan_waves :: "dag_node list \<Rightarrow> nat \<Rightarrow> string set \<Rightarrow> string list \<Rightarrow> string list list" where
  "plan_waves ns k completed remaining =
     (if remaining = [] then []
      else let ready = ready_ids ns completed remaining in
        if ready = [] then []
        else let wave = take (max k 1) (sort ready) in
          wave # plan_waves ns k (completed \<union> set wave) (filter (\<lambda>x. x \<notin> set wave) remaining))"
  by pat_completeness auto
termination
proof (relation "measure (\<lambda>(ns, k, c, r). length r)", goal_cases)
  case 1
  show ?case by simp
next
  case (2 ns k c r ready wave)
  then show ?case using wave_progress[of ns c r k] by simp
qed

declare plan_waves.simps [simp del]

definition compute_concurrency_plan :: "dag_node list \<Rightarrow> string list \<Rightarrow> nat \<Rightarrow> string list list" where
  "compute_concurrency_plan ns order max_parallel_nodes = plan_waves ns (max max_parallel_nodes 1) {} order"

definition parse_max_parallel_nodes :: "json \<Rightarrow> nat" where
  "parse_max_parallel_nodes args =
     (case Option.bind (j_get args ''max_parallel_nodes'') as_u64 of
        None \<Rightarrow> 1
      | Some n \<Rightarrow> max n 1)"

text \<open>Every wave is non-empty and no wider than the limit; a node only runs after its
  dependencies.\<close>

definition waves_ok :: "dag_node list \<Rightarrow> nat \<Rightarrow> string set \<Rightarrow> string list list \<Rightarrow> bool" where
  "waves_ok ns k before ws \<longleftrightarrow>
     (\<forall>i < length ws. ws ! i \<noteq> [] \<and> length (ws ! i) \<le> k \<and> sorted (ws ! i) \<and>
        (\<forall>x \<in> set (ws ! i). set (deps_of ns x) \<subseteq> before \<union> set (concat (take i ws))))"

lemma waves_ok_Nil [simp]: "waves_ok ns k b []"
  by (simp add: waves_ok_def)

lemma waves_ok_Cons:
  "waves_ok ns k b (w # ws) \<longleftrightarrow>
     w \<noteq> [] \<and> length w \<le> k \<and> sorted w \<and> (\<forall>x \<in> set w. set (deps_of ns x) \<subseteq> b) \<and>
     waves_ok ns k (b \<union> set w) ws"
  unfolding waves_ok_def by (auto simp: All_less_Suc2 Un_assoc)

lemma ready_ids_deps: "x \<in> set (ready_ids ns c r) \<Longrightarrow> set (deps_of ns x) \<subseteq> c"
  by (cases "by_id_map ns x") (auto simp: ready_ids_def deps_of_def list_all_iff)

lemma plan_waves_ok: "waves_ok ns (max k 1) c (plan_waves ns k c r)"
proof (induction ns k c r rule: plan_waves.induct)
  case (1 ns k c r)
  let ?ready = "ready_ids ns c r"
  let ?wave = "take (max k 1) (sort ?ready)"
  show ?case
  proof (cases "r = [] \<or> ?ready = []")
    case True
    then show ?thesis by (subst plan_waves.simps) auto
  next
    case False
    then have "plan_waves ns k c r =
        ?wave # plan_waves ns k (c \<union> set ?wave) (filter (\<lambda>x. x \<notin> set ?wave) r)"
      by (subst plan_waves.simps) (simp add: Let_def)
    moreover have "\<forall>x \<in> set ?wave. set (deps_of ns x) \<subseteq> c"
      using ready_ids_deps wave_subset by (metis subsetD)
    moreover have "sorted ?wave" by (simp add: sorted_wrt_take)
    ultimately show ?thesis
      using 1 False wave_nonempty[of ?ready k] by (simp add: waves_ok_Cons Let_def)
  qed
qed

text \<open>On a topological order no wave is empty before every node is placed.\<close>

lemma ready_ids_progress:
  assumes topo: "topo_order ns order" and u: "unique_ids ns"
    and r: "r = filter (\<lambda>x. x \<notin> c) order" and ne: "r \<noteq> []"
  shows "ready_ids ns c r \<noteq> []"
proof -
  obtain pre x post where sp: "order = pre @ x # post" and xc: "x \<notin> c" and pc: "\<forall>y \<in> set pre. y \<in> c"
  proof -
    from ne r have "\<exists>y \<in> set order. y \<notin> c" by (metis filter_False)
    from split_list_first_prop[OF this] that show ?thesis by blast
  qed
  have "set (deps_of ns x) \<subseteq> set pre"
    using topo sp unfolding topo_order_def topo_prefix_def
    by (auto simp: nth_append dest!: spec[of _ "length pre"])
  then have d: "set (deps_of ns x) \<subseteq> c" using pc by auto
  have "x \<in> set (ids_of ns)" using topo sp by (auto simp: topo_order_def)
  then obtain n where "by_id_map ns x = Some n" using by_id_map_None[of ns x] by blast
  with d xc sp r have "x \<in> set (ready_ids ns c r)"
    by (auto simp: ready_ids_def deps_of_def list_all_iff)
  then show ?thesis by auto
qed

lemma plan_waves_covers:
  assumes topo: "topo_order ns order" and u: "unique_ids ns"
    and r: "r = filter (\<lambda>x. x \<notin> c) order"
  shows "mset (concat (plan_waves ns k c r)) = mset r"
  using r
proof (induction "length r" arbitrary: c r rule: less_induct)
  case less
  let ?ready = "ready_ids ns c r"
  let ?wave = "take (max k 1) (sort ?ready)"
  let ?rest = "filter (\<lambda>x. x \<notin> set ?wave) r"
  show ?case
  proof (cases "r = []")
    case True
    then show ?thesis by (subst plan_waves.simps) simp
  next
    case False
    have ready: "?ready \<noteq> []" by (rule ready_ids_progress[OF topo u less.prems False])
    have d: "distinct r" using topo less.prems by (simp add: topo_order_def)
    then have dw: "distinct ?wave" by (simp add: ready_ids_def)
    have sub: "set ?wave \<subseteq> set r" using wave_subset ready_ids_subset by (metis order_trans)
    have rest: "?rest = filter (\<lambda>x. x \<notin> c \<union> set ?wave) order"
      using less.prems by (auto intro: filter_cong)
    have "mset (concat (plan_waves ns k (c \<union> set ?wave) ?rest)) = mset ?rest"
      using less.hyps[OF wave_progress[OF ready] rest] .
    moreover have "plan_waves ns k c r = ?wave # plan_waves ns k (c \<union> set ?wave) ?rest"
      using False ready by (subst plan_waves.simps) (simp add: Let_def)
    moreover have "mset ?wave + mset ?rest = mset r"
    proof -
      have "mset ?wave = mset (filter (\<lambda>x. x \<in> set ?wave) r)"
        using d dw sub by (intro set_eq_iff_mset_eq_distinct[THEN iffD1]) auto
      then show ?thesis by (simp add: multiset_partition[of "mset r" "\<lambda>x. x \<in> set ?wave", symmetric])
    qed
    ultimately show ?thesis by simp
  qed
qed

subsection \<open>Taint\<close>

definition build_successor_map :: "dag_node list \<Rightarrow> (string \<rightharpoonup> string list)" where
  "build_successor_map ns =
     foldl (\<lambda>m n. foldl (\<lambda>m dep. succ_push dep (node_id n) m) m (depends_on n)) Map.empty ns"

definition children :: "dag_node list \<Rightarrow> string \<Rightarrow> string list" where
  "children ns x = unwrap_or (build_successor_map ns x) []"

text \<open>The edges of the plan, from a dependency to the node that waits for it.\<close>

definition child_rel :: "dag_node list \<Rightarrow> (string \<times> string) set" where
  "child_rel ns = {(d, node_id n) | d n. n \<in> set ns \<and> d \<in> set (depends_on n)}"

lemma children_val:
  "children ns h = concat (map (\<lambda>n. replicate (count_list (depends_on n) h) (node_id n)) ns)"
proof -
  have "unwrap_or (foldl (\<lambda>m n. foldl (\<lambda>m dep. succ_push dep (node_id n) m) m (depends_on n)) m ms h) []
      = unwrap_or (m h) [] @ concat (map (\<lambda>n. replicate (count_list (depends_on n) h) (node_id n)) ms)"
    for m :: "string \<rightharpoonup> string list" and ms
    by (induction ms arbitrary: m) (simp_all add: succ_push_many)
  from this[of Map.empty ns] show ?thesis by (simp add: children_def build_successor_map_def)
qed

lemma set_children: "set (children ns h) = {c. (h, c) \<in> child_rel ns}"
  by (auto simp: children_val child_rel_def count_list_0_iff set_replicate_conv_if)

lemma children_ids: "set (children ns h) \<subseteq> set (ids_of ns)"
  by (auto simp: set_children child_rel_def)

text \<open>The children of one popped node: the untainted ones are tainted and queued.\<close>

fun taint_children ::
  "string \<Rightarrow> string list \<Rightarrow> (string \<rightharpoonup> string) \<Rightarrow> (string \<rightharpoonup> string) \<times> string list" where
  "taint_children root [] t = (t, [])"
| "taint_children root (c # cs) t =
     (if t c \<noteq> None then taint_children root cs t
      else case taint_children root cs (t(c \<mapsto> root)) of (t', new) \<Rightarrow> (t', c # new))"

lemma taint_children_spec:
  "taint_children root cs t = (t', new) \<Longrightarrow>
     distinct new \<and> set new = set cs - dom t \<and>
     t' = (\<lambda>x. if x \<in> set cs \<and> t x = None then Some root else t x)"
proof (induction root cs t arbitrary: t' new rule: taint_children.induct)
  case (1 root t)
  then show ?case by auto
next
  case (2 root c cs t)
  show ?case
  proof (cases "t c = None")
    case True
    with "2.prems" obtain new' where r: "taint_children root cs (t(c \<mapsto> root)) = (t', new')" "new = c # new'"
      by (auto split: prod.splits)
    have ih: "distinct new'" "set new' = set cs - (dom t \<union> {c})"
      "\<And>x. t' x = (if x \<in> set cs \<and> (t(c \<mapsto> root)) x = None then Some root else (t(c \<mapsto> root)) x)"
      using "2.IH"(2)[OF _ r(1)] True by (auto simp: fun_eq_iff split: if_splits)
    have "t' x = (if x \<in> set (c # cs) \<and> t x = None then Some root else t x)" for x
      using ih(3)[of x] True by (cases "x = c") (auto simp del: fun_upd_apply, auto)
    moreover have "set new = set (c # cs) - dom t" using ih(2) True r(2) by auto
    ultimately show ?thesis using ih(1,2) r(2) by (auto simp: fun_eq_iff)
  next
    case False
    then have "taint_children root cs t = (t', new)" using "2.prems" by simp
    from "2.IH"(1)[OF False this] False show ?thesis by (auto simp: fun_eq_iff split: if_splits)
  qed
qed

function taint_loop ::
  "dag_node list \<Rightarrow> string \<Rightarrow> string list \<Rightarrow> (string \<rightharpoonup> string) \<Rightarrow> (string \<rightharpoonup> string)" where
  "taint_loop ns root [] t = t"
| "taint_loop ns root (cur # q) t =
     (case taint_children root (children ns cur) t of
        (t', new) \<Rightarrow> taint_loop ns root (q @ new) t')"
  by pat_completeness auto
termination
proof (relation "measure (\<lambda>(ns, root, q, t). card (set (ids_of ns) - dom t) + length q)", goal_cases)
  case 1
  show ?case by simp
next
  case (2 ns root cur q t t' new)
  then have sp: "distinct new" "set new = set (children ns cur) - dom t"
    "t' = (\<lambda>x. if x \<in> set (children ns cur) \<and> t x = None then Some root else t x)"
    using taint_children_spec by metis+
  have "dom t' = dom t \<union> set new" using sp by (auto split: if_splits)
  then have "set (ids_of ns) - dom t = (set (ids_of ns) - dom t') \<union> set new"
    using sp children_ids[of ns cur] by blast
  moreover have "(set (ids_of ns) - dom t') \<inter> set new = {}" using \<open>dom t' = dom t \<union> set new\<close> by blast
  ultimately have "card (set (ids_of ns) - dom t) = card (set (ids_of ns) - dom t') + length new"
    using sp(1) by (simp add: card_Un_disjoint distinct_card del: set_ids_of)
  then show ?case by (simp del: set_ids_of)
qed

definition propagate_taint ::
  "dag_node list \<Rightarrow> string \<Rightarrow> (string \<rightharpoonup> string) \<Rightarrow> (string \<rightharpoonup> string)" where
  "propagate_taint ns failed tainted_by = taint_loop ns failed [failed] tainted_by"

definition taint_closed :: "dag_node list \<Rightarrow> (string \<rightharpoonup> string) \<Rightarrow> bool" where
  "taint_closed ns t \<longleftrightarrow> (\<forall>x \<in> dom t. \<forall>c. (x, c) \<in> child_rel ns \<longrightarrow> c \<in> dom t)"

definition descendants :: "dag_node list \<Rightarrow> string \<Rightarrow> string set" where
  "descendants ns x = {c. (x, c) \<in> (child_rel ns)\<^sup>+}"

lemma taint_loop_spec:
  assumes "\<forall>x \<in> dom t \<union> {root}. x \<in> set q \<or> set (children ns x) \<subseteq> dom t"
    and "set q \<subseteq> {root} \<union> descendants ns root"
  shows "(\<forall>x \<in> dom (taint_loop ns root q t) \<union> {root}. set (children ns x) \<subseteq> dom (taint_loop ns root q t))
    \<and> (\<forall>x. taint_loop ns root q t x =
          (if t x \<noteq> None then t x else if x \<in> dom (taint_loop ns root q t) then Some root else None))
    \<and> dom (taint_loop ns root q t) \<subseteq> dom t \<union> descendants ns root"
  using assms
proof (induction ns root q t rule: taint_loop.induct)
  case (1 ns root t)
  then show ?case by (auto simp: dom_def)
next
  case (2 ns root cur q t)
  obtain t' new where tc: "taint_children root (children ns cur) t = (t', new)" by fastforce
  note sp = taint_children_spec[OF tc]
  have dom': "dom t' = dom t \<union> set (children ns cur)" using sp by (auto split: if_splits)
  have desc: "set (children ns cur) \<subseteq> descendants ns root"
  proof
    fix c assume "c \<in> set (children ns cur)"
    then have "(cur, c) \<in> child_rel ns" by (simp add: set_children)
    moreover have "cur = root \<or> (root, cur) \<in> (child_rel ns)\<^sup>+"
      using 2(3) by (auto simp: descendants_def)
    ultimately show "c \<in> descendants ns root"
      by (auto simp: descendants_def intro: trancl_into_trancl)
  qed
  have p1: "\<forall>x \<in> dom t' \<union> {root}. x \<in> set (q @ new) \<or> set (children ns x) \<subseteq> dom t'"
  proof
    fix x assume x: "x \<in> dom t' \<union> {root}"
    show "x \<in> set (q @ new) \<or> set (children ns x) \<subseteq> dom t'"
    proof (cases "x \<in> dom t \<union> {root}")
      case True
      then show ?thesis using 2(2) dom' by auto
    next
      case False
      then have "x \<in> set new" using x dom' sp by auto
      then show ?thesis by simp
    qed
  qed
  have p2: "set (q @ new) \<subseteq> {root} \<union> descendants ns root" using 2(3) desc sp by auto
  have tl: "taint_loop ns root (cur # q) t = taint_loop ns root (q @ new) t'" by (simp add: tc)
  have e: "t x \<noteq> None \<Longrightarrow> t' x = t x" "t x = None \<Longrightarrow> t' x \<noteq> None \<Longrightarrow> t' x = Some root" for x
    using sp by (auto split: if_splits)
  from 2(1)[OF tc[symmetric] p1 p2] dom' desc e show ?case
    unfolding tl by (smt (verit, best) Un_iff domIff subset_iff)
qed

lemma propagate_taint_spec:
  assumes "taint_closed ns t"
  shows "dom (propagate_taint ns r t) = dom t \<union> descendants ns r"
    and "propagate_taint ns r t x =
      (if t x \<noteq> None then t x else if x \<in> descendants ns r then Some r else None)"
    and "taint_closed ns (propagate_taint ns r t)"
proof -
  let ?t = "propagate_taint ns r t"
  have "\<forall>x \<in> dom t \<union> {r}. x \<in> set [r] \<or> set (children ns x) \<subseteq> dom t"
    using assms by (auto simp: taint_closed_def set_children)
  then have sp: "\<forall>x \<in> dom ?t \<union> {r}. set (children ns x) \<subseteq> dom ?t"
    "\<forall>x. ?t x = (if t x \<noteq> None then t x else if x \<in> dom ?t then Some r else None)"
    "dom ?t \<subseteq> dom t \<union> descendants ns r"
    using taint_loop_spec[of t r "[r]" ns] by (auto simp: propagate_taint_def)
  have "descendants ns r \<subseteq> dom ?t"
  proof
    fix c assume "c \<in> descendants ns r"
    then have "(r, c) \<in> (child_rel ns)\<^sup>+" by (simp add: descendants_def)
    then show "c \<in> dom ?t"
    proof (induction rule: trancl_induct)
      case (base y)
      then show ?case using sp(1) set_children[of ns r] by auto
    next
      case (step y z)
      then have "z \<in> set (children ns y)" by (simp add: set_children)
      then show ?case using sp(1) step.IH by blast
    qed
  qed
  moreover have "dom t \<subseteq> dom ?t" using sp(2) by (metis domIff subsetI)
  ultimately show d: "dom ?t = dom t \<union> descendants ns r" using sp(3) by blast
  show "?t x = (if t x \<noteq> None then t x else if x \<in> descendants ns r then Some r else None)"
    using sp(2) d by (metis UnE UnI2 domIff)
  show "taint_closed ns ?t" using sp(1) by (auto simp: taint_closed_def set_children)
qed

end
