(* ===== verification/Dag_Runtime.thy ===== *)
theory Dag_Runtime
  imports Rollback Claim_Lease Dag_Scheduler
begin

text \<open>
  The wave loop that executes a plan (\<open>plan_dag/runtime.rs\<close> and \<open>plan_dag/runtime\<close>), as a state
  machine over one record \<open>run_st\<close> that holds the maps the code threads through its helpers.

  The world is the record \<open>dag_env\<close>: the lease kernel (a database), the inner tool a node is
  dispatched to, the order in which the join set reports finished tasks, the workstation substrate,
  the review bus and the clock. Each function of the environment gets the number of environment
  calls made so far (\<open>rs_tick\<close>), so it can answer every call in a different way.

  \<open>rs_log\<close> records, in order, the evidence rows the code appends, the leases it acquires, and for
  each lease it gives back whether the kernel confirmed the release or failed it: the code drops the
  error of a failed release and goes on, so that lease stays until it expires. A run is \<open>None\<close> when its fuel is used up or a list hint cannot be read (the reader
  would not return); otherwise it ends with an error (\<open>Inl\<close>, the \<open>?\<close> of the code) or a value, and the
  state it left.
\<close>

subsection \<open>World, configuration and state\<close>

record dispatch_outcome =
  do_target :: string
  do_strategy :: string
  do_payload :: json
  do_class :: "string + unit"
  do_non_retryable :: bool

record dag_env =
  env_lease :: "nat \<Rightarrow> string \<Rightarrow> u32 \<Rightarrow> string \<Rightarrow> string + json"
  env_release :: "nat \<Rightarrow> string \<Rightarrow> string + json"
  env_dispatch :: "nat \<Rightarrow> dag_node \<Rightarrow> string + dispatch_outcome"
  env_join :: "nat \<Rightarrow> nat"
  env_ws :: ws_env
  env_brief :: brief_env
  env_review :: "nat \<Rightarrow> dag_node \<Rightarrow> string \<times> string option"
  env_now :: "nat \<Rightarrow> int"

record dag_cfg =
  cf_nodes :: "dag_node list"
  cf_order :: "string list"
  cf_plan_id :: string
  cf_version :: int
  cf_max_parallel :: nat
  cf_lease_secs :: int
  cf_claimer :: string

datatype dag_event =
    EvSkipped string string
  | EvPausedGate string
  | EvClaimed string u32
  | EvClaimConflict string u32
  | EvRunning string u32
  | EvFinished string u32 bool
  | EvAcceptance string u32 acceptance_status
  | EvRollback string u32
  | EvReleased string u32 string
  | EvLeaseAcquired string
  | EvLeaseReleased string
  | EvReleaseFailed string
  | EvWorkstation "dag_node \<times> ws_hints"

record run_st =
  rs_life :: "string \<rightharpoonup> node_lifecycle"
  rs_taint :: "string \<rightharpoonup> string"
  rs_results :: "string \<rightharpoonup> node_result"
  rs_attempts :: "string \<rightharpoonup> u32"
  rs_registry :: claim_registry
  rs_active :: "string \<rightharpoonup> string"
  rs_js :: "dag_node list"
  rs_abort :: bool
  rs_aborter :: "string option"
  rs_tick :: nat
  rs_log :: "dag_event list"

type_synonym 'a run = "((string + 'a) \<times> run_st) option"

definition bind_run :: "'a run \<Rightarrow> ('a \<Rightarrow> run_st \<Rightarrow> 'b run) \<Rightarrow> 'b run" where
  "bind_run m f =
     (case m of
        None \<Rightarrow> None
      | Some (Inl e, s) \<Rightarrow> Some (Inl e, s)
      | Some (Inr x, s) \<Rightarrow> f x s)"

definition set_life :: "string \<Rightarrow> node_lifecycle \<Rightarrow> run_st \<Rightarrow> run_st" where
  "set_life x l s = s\<lparr> rs_life := (rs_life s)(x \<mapsto> l) \<rparr>"

definition put_result :: "string \<Rightarrow> node_result \<Rightarrow> run_st \<Rightarrow> run_st" where
  "put_result x r s = s\<lparr> rs_results := (rs_results s)(x \<mapsto> r) \<rparr>"

definition emit :: "dag_event \<Rightarrow> run_st \<Rightarrow> run_st" where
  "emit e s = s\<lparr> rs_log := rs_log s @ [e] \<rparr>"

definition emits :: "dag_event list \<Rightarrow> run_st \<Rightarrow> run_st" where
  "emits es s = s\<lparr> rs_log := rs_log s @ es \<rparr>"

definition ticks :: "nat \<Rightarrow> run_st \<Rightarrow> run_st" where
  "ticks k s = s\<lparr> rs_tick := rs_tick s + k \<rparr>"

definition taint_from :: "dag_cfg \<Rightarrow> dag_node \<Rightarrow> run_st \<Rightarrow> run_st" where
  "taint_from cfg n s = s\<lparr> rs_taint := propagate_taint (cf_nodes cfg) (node_id n) (rs_taint s) \<rparr>"

definition bump_attempt :: "string \<Rightarrow> run_st \<Rightarrow> u32 \<times> run_st" where
  "bump_attempt x s =
     (let a = unwrap_or (rs_attempts s x) 0 + 1
      in (a, s\<lparr> rs_attempts := (rs_attempts s)(x \<mapsto> a) \<rparr>))"

subsection \<open>Bookkeeping\<close>

definition initialize_lifecycle :: "dag_node list \<Rightarrow> (string \<rightharpoonup> node_lifecycle)" where
  "initialize_lifecycle ns = map_of (map (\<lambda>n. (node_id n, LPending)) ns)"

definition init_run :: "dag_cfg \<Rightarrow> run_st" where
  "init_run cfg =
     \<lparr> rs_life = initialize_lifecycle (cf_nodes cfg), rs_taint = Map.empty, rs_results = Map.empty,
       rs_attempts = Map.empty, rs_registry = registry_new, rs_active = Map.empty, rs_js = [],
       rs_abort = False, rs_aborter = None, rs_tick = 0, rs_log = [] \<rparr>"

definition collect_tainted_pending ::
  "string list \<Rightarrow> (string \<rightharpoonup> node_lifecycle) \<Rightarrow> (string \<rightharpoonup> string) \<Rightarrow> (string \<times> string) list" where
  "collect_tainted_pending order life tainted_by =
     concat (map (\<lambda>x. if life x = Some LPending
        then (case tainted_by x of None \<Rightarrow> [] | Some dep \<Rightarrow> [(x, dep)]) else []) order)"

definition deps_done :: "(string \<rightharpoonup> node_lifecycle) \<Rightarrow> dag_node \<Rightarrow> bool" where
  "deps_done life n \<longleftrightarrow> list_all (\<lambda>d. life d = Some LSucceeded) (depends_on n)"

definition compute_ready_ids :: "dag_cfg \<Rightarrow> (string \<rightharpoonup> node_lifecycle) \<Rightarrow> string list" where
  "compute_ready_ids cfg life =
     sort (filter (\<lambda>x. life x = Some LPending \<and>
        (case by_id_map (cf_nodes cfg) x of None \<Rightarrow> False | Some n \<Rightarrow> deps_done life n)) (cf_order cfg))"

definition has_running_nodes :: "dag_cfg \<Rightarrow> (string \<rightharpoonup> node_lifecycle) \<Rightarrow> bool" where
  "has_running_nodes cfg life \<longleftrightarrow> list_ex (\<lambda>x. life x = Some LRunning) (ids_of (cf_nodes cfg))"

definition pending_ids :: "string list \<Rightarrow> (string \<rightharpoonup> node_lifecycle) \<Rightarrow> string list" where
  "pending_ids order life = filter (\<lambda>x. life x = Some LPending) order"

definition stitch_results_topologically ::
  "(string \<rightharpoonup> node_result) \<Rightarrow> string list \<Rightarrow> node_result list" where
  "stitch_results_topologically results order = List.map_filter results order"

subsection \<open>Skips\<close>

definition skip_node :: "dag_node \<Rightarrow> node_state \<Rightarrow> string \<Rightarrow> run_st \<Rightarrow> run_st" where
  "skip_node n st reason s =
     put_result (node_id n) (skipped_result (node_id n) (target n) st (strategy_of n))
       (emit (EvSkipped (node_id n) reason) (set_life (node_id n) LSkipped s))"

definition materialize_tainted_pending_skips :: "dag_cfg \<Rightarrow> run_st \<Rightarrow> run_st" where
  "materialize_tainted_pending_skips cfg s =
     foldl (\<lambda>s (x, dep).
         case by_id_map (cf_nodes cfg) x of
           None \<Rightarrow> s
         | Some n \<Rightarrow> skip_node n (SkippedUpstreamFailed dep) ''upstream_failed'' s)
       s (collect_tainted_pending (cf_order cfg) (rs_life s) (rs_taint s))"

definition force_skip_fail_fast_pending :: "dag_cfg \<Rightarrow> string \<Rightarrow> run_st \<Rightarrow> run_st" where
  "force_skip_fail_fast_pending cfg aborter s =
     foldl (\<lambda>s x.
         case by_id_map (cf_nodes cfg) x of
           None \<Rightarrow> s
         | Some n \<Rightarrow> skip_node n (SkippedFailFastAbort aborter) ''fail_fast_aborted'' s)
       s (pending_ids (cf_order cfg) (rs_life s))"

subsection \<open>Gates\<close>

definition pause_node :: "dag_env \<Rightarrow> dag_node \<Rightarrow> run_st \<Rightarrow> run_st" where
  "pause_node env n s =
     (case env_review env (rs_tick s) n of (q, w) \<Rightarrow>
        put_result (node_id n) (skipped_result (node_id n) (target n) (Paused q w) (strategy_of n))
          (emit (EvPausedGate (node_id n)) (ticks 1 (set_life (node_id n) LPaused s))))"

definition condition_skip :: "dag_cfg \<Rightarrow> dag_node \<Rightarrow> run_st \<Rightarrow> run_st" where
  "condition_skip cfg n s = taint_from cfg n (skip_node n SkippedCondition ''condition_gated'' s)"

fun filter_ready_nodes_for_gates ::
  "dag_cfg \<Rightarrow> dag_env \<Rightarrow> nat \<Rightarrow> string list \<Rightarrow> dag_node list \<Rightarrow> run_st \<Rightarrow> dag_node list \<times> run_st" where
  "filter_ready_nodes_for_gates cfg env k [] acc s = (acc, s)"
| "filter_ready_nodes_for_gates cfg env k (x # xs) acc s =
     (case by_id_map (cf_nodes cfg) x of
        None \<Rightarrow> filter_ready_nodes_for_gates cfg env k xs acc s
      | Some n \<Rightarrow>
          if \<not> blank (condition n) then
            filter_ready_nodes_for_gates cfg env k xs acc (condition_skip cfg n s)
          else if review_gate_kind n = GateQuestionEvent then
            filter_ready_nodes_for_gates cfg env k xs acc (pause_node env n s)
          else if length (acc @ [n]) \<ge> k then (acc @ [n], s)
          else filter_ready_nodes_for_gates cfg env k xs (acc @ [n]) s)"

subsection \<open>Claims\<close>

record lease_conflict =
  lc_id :: string
  lc_owner :: string
  lc_scope :: string
  lc_offending :: string

definition conflict_string :: "json \<Rightarrow> string \<Rightarrow> string" where
  "conflict_string c key = unwrap_or (opt_str c key) ''unknown''"

text \<open>A lease is given back under \<open>let _ =\<close>: one call per lease, in order, and a failure of the kernel
  changes nothing of what follows.\<close>

fun release_leases :: "dag_env \<Rightarrow> string list \<Rightarrow> run_st \<Rightarrow> run_st" where
  "release_leases env [] s = s"
| "release_leases env (l # ls) s =
     release_leases env ls
       (emit (case env_release env (rs_tick s) l of Inl e \<Rightarrow> EvReleaseFailed l | Inr r \<Rightarrow> EvLeaseReleased l)
          (ticks 1 s))"

text \<open>The kernel is asked for one scope after the other. A refusal releases what was acquired; an
  error of the kernel (\<open>?\<close>) does not.\<close>

fun acquire_leases ::
  "dag_env \<Rightarrow> string \<Rightarrow> u32 \<Rightarrow> string list \<Rightarrow> string list \<Rightarrow> run_st \<Rightarrow> (lease_conflict + string list) run" where
  "acquire_leases env x attempt [] held s = Some (Inr (Inr held), s)"
| "acquire_leases env x attempt (sc # scs) held s =
     (case env_lease env (rs_tick s) x attempt sc of
        Inl e \<Rightarrow> Some (Inl e, ticks 1 s)
      | Inr response \<Rightarrow>
          if unwrap_or (opt_bool response ''ok'') False then
            (case Option.bind (j_get response ''claim'') (\<lambda>c. opt_str c ''id'') of
               None \<Rightarrow> acquire_leases env x attempt scs held (ticks 1 s)
             | Some l \<Rightarrow> acquire_leases env x attempt scs (held @ [l]) (emit (EvLeaseAcquired l) (ticks 1 s)))
          else
            (let conflict = unwrap_or (j_get response ''conflict'') (JObject []) in
             Some (Inr (Inl \<lparr> lc_id = conflict_string conflict ''id'',
                              lc_owner = conflict_string conflict ''owner_id'',
                              lc_scope = conflict_string conflict ''scope_key'', lc_offending = sc \<rparr>),
                   release_leases env held (ticks 1 s))))"

definition acquire_plan_dag_work_leases ::
  "dag_cfg \<Rightarrow> dag_env \<Rightarrow> dag_node \<Rightarrow> u32 \<Rightarrow> run_st \<Rightarrow> (lease_conflict + plan_dag_claim) run" where
  "acquire_plan_dag_work_leases cfg env n attempt s =
     (case derive_node_claim_scopes n (cf_plan_id cfg) of
        None \<Rightarrow> None
      | Some (ss, src) \<Rightarrow>
          (let now = env_now env (rs_tick s) in
           bind_run (acquire_leases env (node_id n) attempt ss [] s) (\<lambda>r s.
             case r of
               Inl c \<Rightarrow> Some (Inr (Inl c), s)
             | Inr held \<Rightarrow> Some (Inr (Inr
                 \<lparr> claim_id = derive_plan_dag_claim_id (cf_plan_id cfg) (node_id n) attempt,
                   work_lease_ids = held, claimer = cf_claimer cfg, scopes = ss, claim_source = src,
                   acquired_at = now, lease_expires_at = now + cf_lease_secs cfg,
                   released_at = None \<rparr>), s))))"

definition record_acquired_claim :: "dag_node \<Rightarrow> u32 \<Rightarrow> plan_dag_claim \<Rightarrow> run_st \<Rightarrow> run_st" where
  "record_acquired_claim n attempt c s =
     (let s = s\<lparr> rs_registry := record_acquired c (rs_registry s) \<rparr>;
          s = emit (EvClaimed (node_id n) attempt) (set_life (node_id n) LClaimed s)
      in s\<lparr> rs_active := (rs_active s)(node_id n \<mapsto> claim_id c) \<rparr>)"

definition release_claim_if_recorded :: "dag_env \<Rightarrow> dag_node \<Rightarrow> u32 \<Rightarrow> string \<Rightarrow> run_st \<Rightarrow> run_st" where
  "release_claim_if_recorded env n attempt label s =
     (case rs_active s (node_id n) of
        None \<Rightarrow> s
      | Some cid \<Rightarrow>
          (case release cid (env_now env (rs_tick s)) (rs_registry s) of
             (None, reg) \<Rightarrow> s\<lparr> rs_active := (rs_active s)(node_id n := None), rs_registry := reg \<rparr>
           | (Some c, reg) \<Rightarrow>
               emit (EvReleased (node_id n) attempt label)
                 (release_leases env (work_lease_ids c)
                   (s\<lparr> rs_active := (rs_active s)(node_id n := None), rs_registry := reg \<rparr>))))"

datatype claim_decision = Dispatch | ConflictFailed bool

definition conflict_reason :: "lease_conflict \<Rightarrow> string" where
  "conflict_reason c =
     ''CLAIM_CONFLICT: scope `'' @ lc_offending c @ ''` overlaps active claim '' @ lc_id c
     @ '' held by `'' @ lc_owner c @ ''` over `'' @ lc_scope c @ ''`''"

definition conflict_payload :: "dag_cfg \<Rightarrow> dag_node \<Rightarrow> u32 \<Rightarrow> lease_conflict \<Rightarrow> json option" where
  "conflict_payload cfg n attempt c =
     map_option (\<lambda>(ss, src). JObject
       [(''error'', JString (conflict_reason c)), (''claim_status'', JString ''conflict''),
        (''attempted_claim_id'', JString (derive_plan_dag_claim_id (cf_plan_id cfg) (node_id n) attempt)),
        (''attempted_claim_scopes'', JArray (map JString ss)),
        (''attempted_claim_scope_source'', JString (scope_source_wire src)),
        (''conflicting_claim_id'', JString (lc_id c)), (''conflicting_claimer'', JString (lc_owner c)),
        (''conflicting_scope'', JString (lc_scope c)), (''offending_scope'', JString (lc_offending c))])
     (derive_node_claim_scopes n (cf_plan_id cfg))"

definition record_strict_claim_conflict ::
  "dag_cfg \<Rightarrow> dag_node \<Rightarrow> u32 \<Rightarrow> lease_conflict \<Rightarrow> run_st \<Rightarrow> run_st" where
  "record_strict_claim_conflict cfg n attempt c s =
     taint_from cfg n
       (put_result (node_id n)
          \<lparr> nr_id = node_id n, nr_target = target n, nr_state = Failed (conflict_reason c),
            nr_dispatch_strategy = strategy_of n,
            nr_inner_payload = unwrap_or (conflict_payload cfg n attempt c) JNull,
            nr_attempts_made = attempt, nr_max_attempts = effective_max_attempts n,
            nr_retry_skipped_non_retryable = True, nr_rollback = None, nr_acceptance = None \<rparr>
          (emit (EvClaimConflict (node_id n) attempt) (set_life (node_id n) LFailed s)))"

definition is_fail_fast :: "dag_node \<Rightarrow> bool" where
  "is_fail_fast n \<longleftrightarrow> failure_policy n = FAILURE_POLICY_FAIL_FAST"

definition prepare_dispatch_claim ::
  "dag_cfg \<Rightarrow> dag_env \<Rightarrow> dag_node \<Rightarrow> u32 \<Rightarrow> run_st \<Rightarrow> claim_decision run" where
  "prepare_dispatch_claim cfg env n attempt s =
     bind_run (acquire_plan_dag_work_leases cfg env n attempt s) (\<lambda>r s.
       case r of
         Inr c \<Rightarrow> Some (Inr Dispatch, record_acquired_claim n attempt c s)
       | Inl c \<Rightarrow> Some (Inr (ConflictFailed (is_fail_fast n)),
                        record_strict_claim_conflict cfg n attempt c s))"

subsection \<open>Dispatch of a wave\<close>

definition spawn_dispatch_attempt :: "dag_node \<Rightarrow> u32 \<Rightarrow> run_st \<Rightarrow> run_st" where
  "spawn_dispatch_attempt n attempt s =
     (let s = emit (EvRunning (node_id n) attempt) (set_life (node_id n) LRunning s)
      in s\<lparr> rs_js := rs_js s @ [n] \<rparr>)"

definition set_abort :: "string \<Rightarrow> run_st \<Rightarrow> run_st" where
  "set_abort x s = s\<lparr> rs_abort := True, rs_aborter := Some x \<rparr>"

fun spawn_wave :: "dag_cfg \<Rightarrow> dag_env \<Rightarrow> dag_node list \<Rightarrow> run_st \<Rightarrow> unit run" where
  "spawn_wave cfg env [] s = Some (Inr (), s)"
| "spawn_wave cfg env (n # ns) s =
     (case bump_attempt (node_id n) s of (attempt, s) \<Rightarrow>
        bind_run (prepare_dispatch_claim cfg env n attempt s) (\<lambda>decision s.
          case decision of
            Dispatch \<Rightarrow> spawn_wave cfg env ns (spawn_dispatch_attempt n attempt s)
          | ConflictFailed ff \<Rightarrow> spawn_wave cfg env ns (if ff then set_abort (node_id n) s else s)))"

subsection \<open>Draining a wave\<close>

definition plan_node_should_retry :: "u32 \<Rightarrow> u32 \<Rightarrow> bool \<Rightarrow> bool \<Rightarrow> bool" where
  "plan_node_should_retry current_attempt max_attempts non_retryable abort_new_dispatch =
     (if non_retryable \<or> abort_new_dispatch then False
      else sat_sub_u32 max_attempts current_attempt > 0)"

definition rollback_pass ::
  "dag_cfg \<Rightarrow> dag_env \<Rightarrow> dag_node \<Rightarrow> u32 \<Rightarrow> run_st \<Rightarrow> (rollback_evaluation option \<times> run_st) option" where
  "rollback_pass cfg env n attempt s =
     map_option (\<lambda>(e, calls).
         let s = emits (map EvWorkstation calls) (ticks (length calls) s)
         in (e, if e = None then s else emit (EvRollback (node_id n) attempt) s))
       (evaluate_rollback (env_ws env) (env_brief env) (rs_tick s) n (cf_nodes cfg) (cf_order cfg))"

definition record_successful_dispatch ::
  "dag_cfg \<Rightarrow> dag_env \<Rightarrow> dag_node \<Rightarrow> dispatch_outcome \<Rightarrow> u32 \<Rightarrow> run_st \<Rightarrow> (bool \<times> run_st) option" where
  "record_successful_dispatch cfg env n out attempt s =
     Option.bind (evaluate_success_acceptance (cf_plan_id cfg) (cf_version cfg) n (do_payload out) (rs_results s))
       (\<lambda>acc.
        let s = (if sa_active acc then emit (EvAcceptance (node_id n) attempt (acc_status (sa_acceptance acc))) s
                 else s);
            s = set_life (node_id n) (sa_lifecycle acc) s;
            s = release_claim_if_recorded env n attempt (sa_label acc) s
        in Option.bind (if sa_rejected acc then rollback_pass cfg env n attempt s else Some (None, s)) (\<lambda>(rb, s).
        let s = (if sa_rejected acc then taint_from cfg n s else s);
            s = put_result (node_id n)
              \<lparr> nr_id = node_id n, nr_target = do_target out, nr_state = sa_state acc,
                nr_dispatch_strategy = do_strategy out, nr_inner_payload = do_payload out,
                nr_attempts_made = attempt, nr_max_attempts = effective_max_attempts n,
                nr_retry_skipped_non_retryable = False, nr_rollback = rb,
                nr_acceptance = (if sa_active acc then Some (sa_acceptance acc) else None) \<rparr> s
        in Some (sa_rejected acc \<and> is_fail_fast n, s)))"

text \<open>\<open>Ok(true)\<close>: the node was spawned again; \<open>Ok(false)\<close>: the failure is final. The sleep between
  attempts is left out.\<close>

definition retry_failed_node_if_allowed ::
  "dag_cfg \<Rightarrow> dag_env \<Rightarrow> dag_node \<Rightarrow> dispatch_outcome \<Rightarrow> u32 \<Rightarrow> run_st \<Rightarrow> bool run" where
  "retry_failed_node_if_allowed cfg env n out current_attempt s =
     (if \<not> plan_node_should_retry current_attempt (effective_max_attempts n) (do_non_retryable out) (rs_abort s)
      then Some (Inr False, s)
      else
        let s = release_claim_if_recorded env n current_attempt ''failed_will_retry'' s in
        case bump_attempt (node_id n) s of (next_attempt, s) \<Rightarrow>
        bind_run (acquire_plan_dag_work_leases cfg env n next_attempt s) (\<lambda>r s.
          case r of
            Inl _ \<Rightarrow> Some (Inr False, s)
          | Inr c \<Rightarrow> Some (Inr True,
              spawn_dispatch_attempt n next_attempt (record_acquired_claim n next_attempt c s))))"

definition record_final_failure ::
  "dag_cfg \<Rightarrow> dag_env \<Rightarrow> dag_node \<Rightarrow> dispatch_outcome \<Rightarrow> u32 \<Rightarrow> run_st \<Rightarrow> (bool \<times> run_st) option" where
  "record_final_failure cfg env n out attempt s =
     (let s = set_life (node_id n) LFailed s;
          s = release_claim_if_recorded env n attempt ''failed'' s;
          reason = (case do_class out of Inl e \<Rightarrow> e | Inr _ \<Rightarrow> ''inner handler returned error'')
      in Option.bind (rollback_pass cfg env n attempt s) (\<lambda>(rb, s).
        let s = put_result (node_id n)
              \<lparr> nr_id = node_id n, nr_target = do_target out, nr_state = Failed reason,
                nr_dispatch_strategy = do_strategy out, nr_inner_payload = do_payload out,
                nr_attempts_made = attempt, nr_max_attempts = effective_max_attempts n,
                nr_retry_skipped_non_retryable = do_non_retryable out, nr_rollback = rb,
                nr_acceptance = None \<rparr> s
        in Some (is_fail_fast n, taint_from cfg n s)))"

definition abort_if :: "bool \<Rightarrow> string \<Rightarrow> run_st \<Rightarrow> run_st" where
  "abort_if b x s = (if b then set_abort x s else s)"

definition handle_joined ::
  "dag_cfg \<Rightarrow> dag_env \<Rightarrow> dag_node \<Rightarrow> dispatch_outcome \<Rightarrow> run_st \<Rightarrow> unit run" where
  "handle_joined cfg env n out s =
     (let current_attempt = unwrap_or (rs_attempts s (node_id n)) 1;
          succeeded = (case do_class out of Inl _ \<Rightarrow> False | Inr _ \<Rightarrow> True);
          s = emit (EvFinished (node_id n) current_attempt succeeded) s
      in if succeeded then
           map_option (\<lambda>(ff, s). (Inr (), abort_if ff (node_id n) s))
             (record_successful_dispatch cfg env n out current_attempt s)
         else bind_run (retry_failed_node_if_allowed cfg env n out current_attempt s) (\<lambda>retried s.
           if retried then Some (Inr (), s)
           else map_option (\<lambda>(ff, s). (Inr (), abort_if ff (node_id n) s))
             (record_final_failure cfg env n out current_attempt s)))"

fun drop_task :: "nat \<Rightarrow> 'b list \<Rightarrow> 'b list" where
  "drop_task k [] = []"
| "drop_task k (t # ts) = (if k = 0 then ts else t # drop_task (k - 1) ts)"

text \<open>The join set reports any of its tasks next.\<close>

fun drain_dispatch_wave :: "nat \<Rightarrow> dag_cfg \<Rightarrow> dag_env \<Rightarrow> run_st \<Rightarrow> unit run" where
  "drain_dispatch_wave 0 cfg env s = None"
| "drain_dispatch_wave (Suc fuel) cfg env s =
     (if rs_js s = [] then Some (Inr (), s)
      else
        let i = env_join env (rs_tick s) mod length (rs_js s);
            n = rs_js s ! i;
            r = env_dispatch env (rs_tick s) n;
            s = ticks 1 (s\<lparr> rs_js := drop_task i (rs_js s) \<rparr>)
        in case r of
             Inl e \<Rightarrow> Some (Inl e, s)
           | Inr out \<Rightarrow>
               (case by_id_map (cf_nodes cfg) (node_id n) of
                  None \<Rightarrow> drain_dispatch_wave fuel cfg env s
                | Some m \<Rightarrow> bind_run (handle_joined cfg env m out s) (\<lambda>_ s. drain_dispatch_wave fuel cfg env s)))"

subsection \<open>The wave loop\<close>

fun wave_loop :: "nat \<Rightarrow> dag_cfg \<Rightarrow> dag_env \<Rightarrow> run_st \<Rightarrow> unit run" where
  "wave_loop 0 cfg env s = None"
| "wave_loop (Suc fuel) cfg env s =
     (let s = materialize_tainted_pending_skips cfg s;
          ready = compute_ready_ids cfg (rs_life s);
          any_running = has_running_nodes cfg (rs_life s)
      in if rs_abort s \<and> \<not> any_running then
           Some (Inr (), force_skip_fail_fast_pending cfg (unwrap_or (rs_aborter s) []) s)
         else if ready = [] \<and> \<not> any_running then Some (Inr (), s)
         else case filter_ready_nodes_for_gates cfg env (max (cf_max_parallel cfg) 1) ready [] s of
           (to_dispatch, s) \<Rightarrow>
             if to_dispatch = [] \<and> \<not> any_running then wave_loop fuel cfg env s
             else bind_run (spawn_wave cfg env to_dispatch (s\<lparr> rs_js := [] \<rparr>)) (\<lambda>_ s.
                  bind_run (drain_dispatch_wave (4 * length (cf_nodes cfg) + 1) cfg env s) (\<lambda>_ s.
                  wave_loop fuel cfg env s)))"

definition execute_with_concurrency :: "dag_cfg \<Rightarrow> dag_env \<Rightarrow> execution_outcome run" where
  "execute_with_concurrency cfg env =
     bind_run (wave_loop (length (cf_nodes cfg) + 1) cfg env (init_run cfg)) (\<lambda>_ s.
       Some (Inr \<lparr> eo_results = stitch_results_topologically (rs_results s) (cf_order cfg),
                   eo_aborted_fail_fast = rs_abort s \<rparr>, s))"

end
