(* ===== verification/Dag_Steps.thy ===== *)
theory Dag_Steps
  imports Dag_Runtime
begin

text \<open>
  A proof device for the wave loop: \<open>run_step\<close> names the moves a run can make (a tainted or aborted
  node is skipped, a ready node is gated, dispatched or refused its claim, a finished task is
  handled). It is not a model of the code: the model is \<open>Dag_Runtime\<close>. \<open>Dag_Execution\<close> proves that the
  code's readiness filter, gates, spawning and draining only make these moves, so an invariant of the
  moves is an invariant of the code, and every property of the executor is stated on
  \<open>execute_with_concurrency\<close> itself.
\<close>

subsection \<open>Frames of the small operations\<close>

lemma bind_run_Some:
  "bind_run m f = Some (r, s') \<longleftrightarrow>
     (\<exists>e. m = Some (Inl e, s') \<and> r = Inl e) \<or> (\<exists>x s. m = Some (Inr x, s) \<and> f x s = Some (r, s'))"
  by (auto simp: bind_run_def split: option.splits sum.splits prod.splits)

lemma bind_run_Inr:
  "bind_run m f = Some (Inr y, s') \<longleftrightarrow> (\<exists>x s. m = Some (Inr x, s) \<and> f x s = Some (Inr y, s'))"
  by (auto simp: bind_run_Some)

text \<open>The events of giving leases back: one attempt per lease, in order.\<close>

definition release_event :: "dag_event \<Rightarrow> string \<Rightarrow> bool" where
  "release_event e l \<longleftrightarrow> e = EvLeaseReleased l \<or> e = EvReleaseFailed l"

definition release_attempts :: "dag_event list \<Rightarrow> string list \<Rightarrow> bool" where
  "release_attempts es ls \<longleftrightarrow> list_all2 release_event es ls"

definition releases_work :: "dag_env \<Rightarrow> bool" where
  "releases_work env \<longleftrightarrow> (\<forall>t l. \<exists>r. env_release env t l = Inr r)"

definition gave_back :: "dag_env \<Rightarrow> string list \<Rightarrow> dag_event list \<Rightarrow> bool" where
  "gave_back env ls es \<longleftrightarrow> release_attempts es ls \<and> (releases_work env \<longrightarrow> es = map EvLeaseReleased ls)"

lemma release_leases_frame:
  "\<exists>es. release_leases env ls s = emits es (ticks (length ls) s) \<and> gave_back env ls es"
proof (induction ls arbitrary: s)
  case Nil
  then show ?case
    by (intro exI[of _ "[]"]) (simp add: emits_def ticks_def release_attempts_def gave_back_def)
next
  case (Cons l ls)
  let ?e = "case env_release env (rs_tick s) l of Inl e \<Rightarrow> EvReleaseFailed l | Inr r \<Rightarrow> EvLeaseReleased l"
  obtain es where es: "release_leases env ls (emit ?e (ticks 1 s)) = emits es (ticks (length ls) (emit ?e (ticks 1 s)))"
    "gave_back env ls es"
    using Cons by blast
  have "release_event ?e l" by (simp add: release_event_def split: sum.split)
  moreover have "?e = EvLeaseReleased l" if w: "releases_work env"
  proof -
    obtain r where "env_release env (rs_tick s) l = Inr r" using w by (auto simp: releases_work_def)
    then show ?thesis by simp
  qed
  ultimately show ?case using es
    by (intro exI[of _ "?e # es"])
      (simp add: emits_def emit_def ticks_def release_attempts_def gave_back_def del: sum.case)
qed

text \<open>A refused acquisition tries to give back what it holds; any other acquires and gives nothing back.\<close>

definition acquire_log ::
  "dag_env \<Rightarrow> (string + (lease_conflict + 'a)) \<Rightarrow> string list \<Rightarrow> string list \<Rightarrow> dag_event list \<Rightarrow> bool" where
  "acquire_log env r held got es \<longleftrightarrow> (\<exists>fs. es = map EvLeaseAcquired got @ fs \<and>
     (case r of Inr (Inl _) \<Rightarrow> gave_back env (held @ got) fs | _ \<Rightarrow> fs = []))"

lemma acquire_log_simps [simp]:
  "acquire_log env (Inl e) held got es \<longleftrightarrow> es = map EvLeaseAcquired got"
  "acquire_log env (Inr (Inr h)) held got es \<longleftrightarrow> es = map EvLeaseAcquired got"
  "acquire_log env (Inr (Inl c)) held got es \<longleftrightarrow>
     (\<exists>fs. es = map EvLeaseAcquired got @ fs \<and> gave_back env (held @ got) fs)"
  by (simp_all add: acquire_log_def)

lemma acquire_log_Cons:
  "acquire_log env r (held @ [l]) got es \<Longrightarrow> acquire_log env r held (l # got) (EvLeaseAcquired l # es)"
  unfolding acquire_log_def by (elim exE, rule exI) (simp split: sum.splits)

lemma acquire_leases_frame:
  "acquire_leases env x a scs held s = Some (r, s') \<Longrightarrow>
     \<exists>k got es. s' = emits es (ticks k s) \<and> acquire_log env r held got es \<and>
       (\<forall>h. r = Inr (Inr h) \<longrightarrow> h = held @ got)"
proof (induction env x a scs held s rule: acquire_leases.induct)
  case (1 env x a held s)
  then have "s' = emits [] (ticks 0 s)" by (simp add: emits_def ticks_def)
  with 1 show ?case by (intro exI[of _ 0] exI[of _ "[]"]) auto
next
  case (2 env x a sc scs held s)
  show ?case
  proof (cases "env_lease env (rs_tick s) x a sc")
    case (Inl e)
    then have "s' = emits [] (ticks 1 s)" "r = Inl e"
      using 2 by (simp_all add: emits_def)
    then show ?thesis by (intro exI[of _ 1] exI[of _ "[]"]) simp
  next
    case (Inr resp)
    show ?thesis
    proof (cases "unwrap_or (opt_bool resp ''ok'') False")
      case ok: True
      show ?thesis
      proof (cases "Option.bind (j_get resp ''claim'') (\<lambda>c. opt_str c ''id'')")
        case None
        from "2.IH"(1)[OF Inr ok None] "2.prems" Inr ok None obtain k got es where
          "s' = emits es (ticks k (ticks 1 s))" "acquire_log env r held got es" "\<forall>h. r = Inr (Inr h) \<longrightarrow> h = held @ got"
          by auto
        then show ?thesis
          by (intro exI[of _ "k + 1"] exI[of _ got] exI[of _ es]) (simp add: ticks_def add.commute add.left_commute)
      next
        case (Some l)
        from "2.IH"(2)[OF Inr ok Some] "2.prems" Inr ok Some obtain k got es where
          k: "s' = emits es (ticks k (emit (EvLeaseAcquired l) (ticks 1 s)))"
          "acquire_log env r (held @ [l]) got es" "\<forall>h. r = Inr (Inr h) \<longrightarrow> h = (held @ [l]) @ got"
          by auto
        show ?thesis
          by (intro exI[of _ "k + 1"] exI[of _ "l # got"] exI[of _ "EvLeaseAcquired l # es"])
            (use k acquire_log_Cons[OF k(2)] in \<open>simp add: ticks_def emit_def emits_def add.commute add.left_commute\<close>)
      qed
    next
      case False
      then obtain c where c: "s' = release_leases env held (ticks 1 s)" "r = Inr (Inl c)"
        using 2(3) Inr by (auto simp: Let_def)
      obtain es where "s' = emits es (ticks (length held) (ticks 1 s))" "gave_back env held es"
        using release_leases_frame[of env held "ticks 1 s"] unfolding c(1) by blast
      with c(2) show ?thesis
        by (intro exI[of _ "length held + 1"] exI[of _ "[]"] exI[of _ es]) (simp add: ticks_def)
    qed
  qed
qed

lemma acquire_leases_returns: "acquire_leases env x a scs held s \<noteq> None"
proof (induction env x a scs held s rule: acquire_leases.induct)
  case (1 env x a held s)
  then show ?case by simp
next
  case (2 env x a sc scs held s)
  then show ?case
    by (cases "env_lease env (rs_tick s) x a sc") (auto simp: Let_def split: option.splits)
qed

lemma acquire_work_frame:
  assumes "acquire_plan_dag_work_leases cfg env n a s = Some (r, s')"
  shows "\<exists>k got es. s' = emits es (ticks k s) \<and> acquire_log env r [] got es \<and>
       (\<forall>c. r = Inr (Inr c) \<longrightarrow> work_lease_ids c = got \<and> released_at c = None \<and>
          claim_id c = derive_plan_dag_claim_id (cf_plan_id cfg) (node_id n) a)"
proof -
  obtain ss src where d: "derive_node_claim_scopes n (cf_plan_id cfg) = Some (ss, src)"
    using assms by (cases "derive_node_claim_scopes n (cf_plan_id cfg)")
      (auto simp: acquire_plan_dag_work_leases_def)
  obtain r0 s0 where l: "acquire_leases env (node_id n) a ss [] s = Some (r0, s0)"
    using acquire_leases_returns[of env "node_id n" a ss "[]" s] by auto
  from acquire_leases_frame[OF l, unfolded append_Nil] obtain k got es where f:
    "s0 = emits es (ticks k s)" "acquire_log env r0 [] got es" "\<forall>h. r0 = Inr (Inr h) \<longrightarrow> h = got" by blast
  show ?thesis
  proof (cases r0)
    case (Inl e)
    show ?thesis
      by (rule exI[of _ k], rule exI[of _ got], rule exI[of _ es])
        (use assms d l f Inl in \<open>auto simp: acquire_plan_dag_work_leases_def bind_run_def Let_def\<close>)
  next
    case (Inr q)
    show ?thesis
      by (rule exI[of _ k], rule exI[of _ got], rule exI[of _ es])
        (use assms d l f Inr in \<open>cases q; auto simp: acquire_plan_dag_work_leases_def bind_run_def Let_def\<close>)
  qed
qed

definition ready_node :: "dag_cfg \<Rightarrow> run_st \<Rightarrow> dag_node \<Rightarrow> bool" where
  "ready_node cfg s n \<longleftrightarrow>
     n \<in> set (cf_nodes cfg) \<and> rs_life s (node_id n) = Some LPending \<and> deps_done (rs_life s) n"

definition dispatchable :: "dag_node \<Rightarrow> bool" where
  "dispatchable n \<longleftrightarrow> blank (condition n) \<and> review_gate_kind n \<noteq> GateQuestionEvent"

subsection \<open>The moves\<close>

inductive run_step :: "dag_cfg \<Rightarrow> dag_env \<Rightarrow> run_st \<Rightarrow> run_st \<Rightarrow> bool" for cfg env where
  Skip_Tainted:
    "n \<in> set (cf_nodes cfg) \<Longrightarrow> rs_life s (node_id n) = Some LPending \<Longrightarrow>
     rs_taint s (node_id n) = Some d \<Longrightarrow>
     run_step cfg env s (skip_node n (SkippedUpstreamFailed d) ''upstream_failed'' s)"
| Skip_Abort:
    "n \<in> set (cf_nodes cfg) \<Longrightarrow> rs_life s (node_id n) = Some LPending \<Longrightarrow> rs_abort s \<Longrightarrow> rs_js s = [] \<Longrightarrow>
     run_step cfg env s (skip_node n (SkippedFailFastAbort a) ''fail_fast_aborted'' s)"
| Gate_Condition:
    "ready_node cfg s n \<Longrightarrow> \<not> blank (condition n) \<Longrightarrow> rs_js s = [] \<Longrightarrow> \<not> rs_abort s \<Longrightarrow>
     run_step cfg env s (condition_skip cfg n s)"
| Gate_Review:
    "ready_node cfg s n \<Longrightarrow> blank (condition n) \<Longrightarrow> review_gate_kind n = GateQuestionEvent \<Longrightarrow>
     rs_js s = [] \<Longrightarrow> \<not> rs_abort s \<Longrightarrow>
     run_step cfg env s (pause_node env n s)"
| Dispatch_Node:
    "ready_node cfg s n \<Longrightarrow> dispatchable n \<Longrightarrow> length (rs_js s) < max (cf_max_parallel cfg) 1 \<Longrightarrow>
     bump_attempt (node_id n) s = (a, s1) \<Longrightarrow>
     acquire_plan_dag_work_leases cfg env n a s1 = Some (Inr (Inr c), s2) \<Longrightarrow>
     run_step cfg env s (spawn_dispatch_attempt n a (record_acquired_claim n a c s2))"
| Claim_Refused:
    "ready_node cfg s n \<Longrightarrow> dispatchable n \<Longrightarrow> bump_attempt (node_id n) s = (a, s1) \<Longrightarrow>
     acquire_plan_dag_work_leases cfg env n a s1 = Some (Inr (Inl c), s2) \<Longrightarrow>
     run_step cfg env s (abort_if (is_fail_fast n) (node_id n) (record_strict_claim_conflict cfg n a c s2))"
| Task_Joined:
    "i < length (rs_js s) \<Longrightarrow> rs_js s ! i = n \<Longrightarrow> env_dispatch env t n = Inr out \<Longrightarrow>
     handle_joined cfg env n out (ticks 1 (s\<lparr> rs_js := drop_task i (rs_js s) \<rparr>)) = Some (Inr (), s') \<Longrightarrow>
     run_step cfg env s s'"

inductive_cases run_stepE: "run_step cfg env s s'"

abbreviation run_steps :: "dag_cfg \<Rightarrow> dag_env \<Rightarrow> run_st \<Rightarrow> run_st \<Rightarrow> bool" where
  "run_steps cfg env \<equiv> (run_step cfg env)\<^sup>*\<^sup>*"

text \<open>Plans the loop is run on: validated, with a topological order.\<close>

definition cfg_ok :: "dag_cfg \<Rightarrow> bool" where
  "cfg_ok cfg \<longleftrightarrow> unique_ids (cf_nodes cfg) \<and> topo_order (cf_nodes cfg) (cf_order cfg) \<and>
     (\<forall>n \<in> set (cf_nodes cfg). set (depends_on n) \<subseteq> set (ids_of (cf_nodes cfg)))"

lemma cfg_okD:
  assumes "cfg_ok cfg"
  shows "unique_ids (cf_nodes cfg)" "distinct (cf_order cfg)" "set (cf_order cfg) = set (ids_of (cf_nodes cfg))"
  using assms by (auto simp: cfg_ok_def topo_order_def)

lemma by_id_cfg: "cfg_ok cfg \<Longrightarrow> n \<in> set (cf_nodes cfg) \<Longrightarrow> by_id_map (cf_nodes cfg) (node_id n) = Some n"
  by (simp add: cfg_ok_def by_id_map_unique)

subsection \<open>Field equations\<close>

lemma set_life_fields [simp]:
  "rs_life (set_life x l s) = (rs_life s)(x \<mapsto> l)" "rs_taint (set_life x l s) = rs_taint s"
  "rs_results (set_life x l s) = rs_results s" "rs_attempts (set_life x l s) = rs_attempts s"
  "rs_registry (set_life x l s) = rs_registry s" "rs_active (set_life x l s) = rs_active s"
  "rs_js (set_life x l s) = rs_js s" "rs_abort (set_life x l s) = rs_abort s"
  "rs_aborter (set_life x l s) = rs_aborter s" "rs_log (set_life x l s) = rs_log s"
  by (simp_all add: set_life_def)

lemma put_result_fields [simp]:
  "rs_life (put_result x r s) = rs_life s" "rs_taint (put_result x r s) = rs_taint s"
  "rs_results (put_result x r s) = (rs_results s)(x \<mapsto> r)" "rs_attempts (put_result x r s) = rs_attempts s"
  "rs_registry (put_result x r s) = rs_registry s" "rs_active (put_result x r s) = rs_active s"
  "rs_js (put_result x r s) = rs_js s" "rs_abort (put_result x r s) = rs_abort s"
  "rs_aborter (put_result x r s) = rs_aborter s" "rs_log (put_result x r s) = rs_log s"
  by (simp_all add: put_result_def)

lemma emits_fields [simp]:
  "rs_life (emits es s) = rs_life s" "rs_taint (emits es s) = rs_taint s"
  "rs_results (emits es s) = rs_results s" "rs_attempts (emits es s) = rs_attempts s"
  "rs_registry (emits es s) = rs_registry s" "rs_active (emits es s) = rs_active s"
  "rs_js (emits es s) = rs_js s" "rs_abort (emits es s) = rs_abort s"
  "rs_aborter (emits es s) = rs_aborter s" "rs_log (emits es s) = rs_log s @ es"
  by (simp_all add: emits_def)

lemma emit_emits: "emit e = emits [e]"
  by (rule ext) (simp add: emit_def emits_def)

lemma ticks_fields [simp]:
  "rs_life (ticks k s) = rs_life s" "rs_taint (ticks k s) = rs_taint s"
  "rs_results (ticks k s) = rs_results s" "rs_attempts (ticks k s) = rs_attempts s"
  "rs_registry (ticks k s) = rs_registry s" "rs_active (ticks k s) = rs_active s"
  "rs_js (ticks k s) = rs_js s" "rs_abort (ticks k s) = rs_abort s"
  "rs_aborter (ticks k s) = rs_aborter s" "rs_log (ticks k s) = rs_log s"
  by (simp_all add: ticks_def)

lemma taint_from_fields [simp]:
  "rs_life (taint_from cfg n s) = rs_life s"
  "rs_taint (taint_from cfg n s) = propagate_taint (cf_nodes cfg) (node_id n) (rs_taint s)"
  "rs_results (taint_from cfg n s) = rs_results s" "rs_attempts (taint_from cfg n s) = rs_attempts s"
  "rs_registry (taint_from cfg n s) = rs_registry s" "rs_active (taint_from cfg n s) = rs_active s"
  "rs_js (taint_from cfg n s) = rs_js s" "rs_abort (taint_from cfg n s) = rs_abort s"
  "rs_aborter (taint_from cfg n s) = rs_aborter s" "rs_log (taint_from cfg n s) = rs_log s"
  by (simp_all add: taint_from_def)

lemma abort_if_fields [simp]:
  "rs_life (abort_if b x s) = rs_life s" "rs_taint (abort_if b x s) = rs_taint s"
  "rs_results (abort_if b x s) = rs_results s" "rs_attempts (abort_if b x s) = rs_attempts s"
  "rs_registry (abort_if b x s) = rs_registry s" "rs_active (abort_if b x s) = rs_active s"
  "rs_js (abort_if b x s) = rs_js s" "rs_abort (abort_if b x s) = (rs_abort s \<or> b)"
  "rs_log (abort_if b x s) = rs_log s"
  by (simp_all add: abort_if_def set_abort_def)

lemma skip_node_fields [simp]:
  "rs_life (skip_node n st r s) = (rs_life s)(node_id n \<mapsto> LSkipped)"
  "rs_taint (skip_node n st r s) = rs_taint s"
  "rs_results (skip_node n st r s) =
     (rs_results s)(node_id n \<mapsto> skipped_result (node_id n) (target n) st (strategy_of n))"
  "rs_attempts (skip_node n st r s) = rs_attempts s" "rs_registry (skip_node n st r s) = rs_registry s"
  "rs_active (skip_node n st r s) = rs_active s" "rs_js (skip_node n st r s) = rs_js s"
  "rs_abort (skip_node n st r s) = rs_abort s" "rs_aborter (skip_node n st r s) = rs_aborter s"
  "rs_log (skip_node n st r s) = rs_log s @ [EvSkipped (node_id n) r]"
  by (simp_all add: skip_node_def emit_emits)

lemma pause_node_fields [simp]:
  "rs_life (pause_node env n s) = (rs_life s)(node_id n \<mapsto> LPaused)"
  "rs_taint (pause_node env n s) = rs_taint s"
  "rs_attempts (pause_node env n s) = rs_attempts s" "rs_registry (pause_node env n s) = rs_registry s"
  "rs_active (pause_node env n s) = rs_active s" "rs_js (pause_node env n s) = rs_js s"
  "rs_abort (pause_node env n s) = rs_abort s" "rs_aborter (pause_node env n s) = rs_aborter s"
  "rs_log (pause_node env n s) = rs_log s @ [EvPausedGate (node_id n)]"
  "\<exists>q w. rs_results (pause_node env n s) =
     (rs_results s)(node_id n \<mapsto> skipped_result (node_id n) (target n) (Paused q w) (strategy_of n))"
  by (auto simp: pause_node_def emit_emits split: prod.splits)

text \<open>The fields a claim operation leaves alone.\<close>

definition same_core :: "run_st \<Rightarrow> run_st \<Rightarrow> bool" where
  "same_core s s' \<longleftrightarrow>
     rs_life s' = rs_life s \<and> rs_taint s' = rs_taint s \<and> rs_results s' = rs_results s \<and>
     rs_attempts s' = rs_attempts s \<and> rs_js s' = rs_js s \<and> rs_abort s' = rs_abort s \<and>
     rs_aborter s' = rs_aborter s"

text \<open>Events that neither start nor finish a task.\<close>

fun task_event :: "dag_event \<Rightarrow> bool" where
  "task_event (EvRunning x a) = True"
| "task_event (EvFinished x a b) = True"
| "task_event _ = False"

definition quiet :: "dag_event list \<Rightarrow> bool" where
  "quiet es \<longleftrightarrow> (\<forall>e \<in> set es. \<not> task_event e)"

lemma quiet_simps [simp]:
  "quiet []" "quiet (es @ fs) \<longleftrightarrow> quiet es \<and> quiet fs"
  "quiet (e # es) \<longleftrightarrow> \<not> task_event e \<and> quiet es"
  "quiet (map EvLeaseReleased ls)" "quiet (map EvLeaseAcquired ls)" "quiet (map EvWorkstation cs)"
  by (auto simp: quiet_def)

lemma quiet_release: "release_attempts es ls \<Longrightarrow> quiet es"
  unfolding release_attempts_def
  by (induction rule: list_all2_induct) (auto simp: release_event_def)

lemma quiet_acquire:
  assumes "acquire_log env r held got es" shows "quiet es"
proof -
  obtain fs where "es = map EvLeaseAcquired got @ fs" "fs = [] \<or> gave_back env (held @ got) fs"
    using assms unfolding acquire_log_def by (elim exE conjE) (cases r; force split: sum.splits)
  then show ?thesis by (auto simp: gave_back_def intro: quiet_release)
qed

text \<open>Releasing a recorded claim: its leases are given back once, whatever the kernel answers.\<close>

lemma release_effect:
  assumes "rs_active s (node_id n) = Some cid" "release cid (env_now env (rs_tick s)) (rs_registry s) = (Some c, reg)"
  shows "\<exists>es. release_claim_if_recorded env n a lbl s =
     emits (es @ [EvReleased (node_id n) a lbl]) (ticks (length (work_lease_ids c))
       (s\<lparr> rs_active := (rs_active s)(node_id n := None), rs_registry := reg \<rparr>)) \<and>
     gave_back env (work_lease_ids c) es"
proof -
  let ?s = "s\<lparr> rs_active := (rs_active s)(node_id n := None), rs_registry := reg \<rparr>"
  obtain es where "release_leases env (work_lease_ids c) ?s = emits es (ticks (length (work_lease_ids c)) ?s)"
    "gave_back env (work_lease_ids c) es"
    using release_leases_frame by blast
  with assms show ?thesis
    by (intro exI[of _ es]) (simp add: release_claim_if_recorded_def emit_def emits_def)
qed

lemma release_frame:
  "same_core s (release_claim_if_recorded env n a lbl s) \<and>
   (\<exists>es. rs_log (release_claim_if_recorded env n a lbl s) = rs_log s @ es \<and> quiet es)"
proof (cases "rs_active s (node_id n)")
  case None
  then show ?thesis by (simp add: release_claim_if_recorded_def same_core_def)
next
  case (Some cid)
  obtain oc reg where r: "release cid (env_now env (rs_tick s)) (rs_registry s) = (oc, reg)" by fastforce
  show ?thesis
  proof (cases oc)
    case None
    then show ?thesis using Some r by (simp add: release_claim_if_recorded_def same_core_def)
  next
    case c: (Some c)
    obtain es where "release_claim_if_recorded env n a lbl s =
        emits (es @ [EvReleased (node_id n) a lbl]) (ticks (length (work_lease_ids c))
          (s\<lparr> rs_active := (rs_active s)(node_id n := None), rs_registry := reg \<rparr>))"
      "gave_back env (work_lease_ids c) es"
      using release_effect[OF Some r[unfolded c]] by blast
    then show ?thesis by (auto simp: same_core_def gave_back_def intro: quiet_release)
  qed
qed

lemma rollback_pass_frame:
  assumes "rollback_pass cfg env n a s = Some (rb, s')"
  shows "same_core s s' \<and> rs_registry s' = rs_registry s \<and> rs_active s' = rs_active s \<and>
    (\<exists>es. rs_log s' = rs_log s @ es \<and> quiet es \<and> (\<forall>l. EvLeaseAcquired l \<notin> set es \<and> \<not> (\<exists>e \<in> set es. release_event e l)))"
  using assms by (auto simp: rollback_pass_def same_core_def emit_emits Let_def release_event_def split: if_splits)

lemma acquire_same_core:
  assumes "acquire_plan_dag_work_leases cfg env n a s = Some (r, s')"
  shows "same_core s s' \<and> rs_registry s' = rs_registry s \<and> rs_active s' = rs_active s \<and>
    (\<exists>es. rs_log s' = rs_log s @ es \<and> quiet es)"
proof -
  from acquire_work_frame[OF assms] obtain k got es where
    "s' = emits es (ticks k s)" "acquire_log env r [] got es" by blast
  then show ?thesis using quiet_acquire by (auto simp: same_core_def)
qed

lemma record_acquired_fields [simp]:
  "rs_life (record_acquired_claim n a c s) = (rs_life s)(node_id n \<mapsto> LClaimed)"
  "rs_taint (record_acquired_claim n a c s) = rs_taint s"
  "rs_results (record_acquired_claim n a c s) = rs_results s"
  "rs_attempts (record_acquired_claim n a c s) = rs_attempts s"
  "rs_js (record_acquired_claim n a c s) = rs_js s" "rs_abort (record_acquired_claim n a c s) = rs_abort s"
  "rs_log (record_acquired_claim n a c s) = rs_log s @ [EvClaimed (node_id n) a]"
  "rs_registry (record_acquired_claim n a c s) = record_acquired c (rs_registry s)"
  "rs_active (record_acquired_claim n a c s) = (rs_active s)(node_id n \<mapsto> claim_id c)"
  by (simp_all add: record_acquired_claim_def emit_emits)

lemma spawn_fields [simp]:
  "rs_life (spawn_dispatch_attempt n a s) = (rs_life s)(node_id n \<mapsto> LRunning)"
  "rs_taint (spawn_dispatch_attempt n a s) = rs_taint s"
  "rs_results (spawn_dispatch_attempt n a s) = rs_results s"
  "rs_attempts (spawn_dispatch_attempt n a s) = rs_attempts s"
  "rs_js (spawn_dispatch_attempt n a s) = rs_js s @ [n]" "rs_abort (spawn_dispatch_attempt n a s) = rs_abort s"
  "rs_log (spawn_dispatch_attempt n a s) = rs_log s @ [EvRunning (node_id n) a]"
  "rs_registry (spawn_dispatch_attempt n a s) = rs_registry s"
  "rs_active (spawn_dispatch_attempt n a s) = rs_active s"
  by (simp_all add: spawn_dispatch_attempt_def emit_emits)

lemma conflict_fields [simp]:
  "rs_life (record_strict_claim_conflict cfg n a c s) = (rs_life s)(node_id n \<mapsto> LFailed)"
  "rs_taint (record_strict_claim_conflict cfg n a c s) =
     propagate_taint (cf_nodes cfg) (node_id n) (rs_taint s)"
  "rs_attempts (record_strict_claim_conflict cfg n a c s) = rs_attempts s"
  "rs_js (record_strict_claim_conflict cfg n a c s) = rs_js s"
  "rs_abort (record_strict_claim_conflict cfg n a c s) = rs_abort s"
  "rs_log (record_strict_claim_conflict cfg n a c s) = rs_log s @ [EvClaimConflict (node_id n) a]"
  "rs_registry (record_strict_claim_conflict cfg n a c s) = rs_registry s"
  "rs_active (record_strict_claim_conflict cfg n a c s) = rs_active s"
  by (simp_all add: record_strict_claim_conflict_def emit_emits)

lemma bump_fields:
  assumes "bump_attempt x s = (a, s1)"
  shows "a = unwrap_or (rs_attempts s x) 0 + 1" "s1 = s\<lparr> rs_attempts := (rs_attempts s)(x \<mapsto> a) \<rparr>"
  using assms by (auto simp: bump_attempt_def Let_def)

subsection \<open>The outcomes of a finished task\<close>

definition result_for :: "dag_node \<Rightarrow> node_lifecycle \<Rightarrow> u32 \<Rightarrow> node_result \<Rightarrow> bool" where
  "result_for n l a r \<longleftrightarrow>
     nr_id r = node_id n \<and> nr_attempts_made r = a \<and> nr_max_attempts r = effective_max_attempts n \<and>
     (l = LSucceeded \<longleftrightarrow> nr_state r = Succeeded) \<and> (l = LFailed \<longleftrightarrow> is_failed (nr_state r)) \<and>
     (l = LPaused \<longleftrightarrow> is_paused (nr_state r)) \<and> \<not> is_skipped (nr_state r)"

definition settled ::
  "dag_cfg \<Rightarrow> dag_node \<Rightarrow> u32 \<Rightarrow> node_lifecycle \<Rightarrow> run_st \<Rightarrow> run_st \<Rightarrow> bool" where
  "settled cfg n a l s s' \<longleftrightarrow>
     l \<in> {LSucceeded, LFailed, LPaused} \<and> rs_life s' = (rs_life s)(node_id n \<mapsto> l) \<and>
     (\<exists>r. rs_results s' = (rs_results s)(node_id n \<mapsto> r) \<and> result_for n l a r) \<and>
     rs_js s' = rs_js s \<and>
     rs_taint s' = (if l = LFailed then propagate_taint (cf_nodes cfg) (node_id n) (rs_taint s) else rs_taint s) \<and>
     (rs_abort s' \<longleftrightarrow> rs_abort s \<or> (l = LFailed \<and> is_fail_fast n)) \<and>
     (\<exists>es. rs_log s' = rs_log s @ es \<and> quiet es)"

lemma success_settled:
  assumes "record_successful_dispatch cfg env n out a s = Some (ff, s')"
  shows "\<exists>l. settled cfg n a l s (abort_if ff (node_id n) s') \<and> rs_attempts s' = rs_attempts s"
proof -
  obtain acc where e: "evaluate_success_acceptance (cf_plan_id cfg) (cf_version cfg) n (do_payload out) (rs_results s) = Some acc"
    using assms by (auto simp: record_successful_dispatch_def bind_eq_Some_conv)
  have st: "sa_lifecycle acc = acceptance_lifecycle (acc_status (sa_acceptance acc))"
    "sa_state acc = acceptance_node_state (cf_plan_id cfg) (cf_version cfg) n (sa_acceptance acc)"
    "sa_rejected acc \<longleftrightarrow> acc_status (sa_acceptance acc) = Rejected"
    using e by (auto simp: evaluate_success_acceptance_def bind_eq_Some_conv sa_rejected_def)
  let ?l = "sa_lifecycle acc"
  define s1 where "s1 = (if sa_active acc then emit (EvAcceptance (node_id n) a (acc_status (sa_acceptance acc))) s else s)"
  define s2 where "s2 = release_claim_if_recorded env n a (sa_label acc) (set_life (node_id n) ?l s1)"
  define res where "res = (\<lambda>rb. \<lparr> nr_id = node_id n, nr_target = do_target out, nr_state = sa_state acc,
                nr_dispatch_strategy = do_strategy out, nr_inner_payload = do_payload out,
                nr_attempts_made = a, nr_max_attempts = effective_max_attempts n,
                nr_retry_skipped_non_retryable = False, nr_rollback = rb,
                nr_acceptance = (if sa_active acc then Some (sa_acceptance acc) else None) \<rparr>)"
  let ?p = "if sa_rejected acc then rollback_pass cfg env n a s2 else Some (None, s2)"
  have main: "record_successful_dispatch cfg env n out a s = Option.bind ?p (\<lambda>(rb, s3).
      Some (sa_rejected acc \<and> is_fail_fast n,
        put_result (node_id n) (res rb) (if sa_rejected acc then taint_from cfg n s3 else s3)))"
    by (simp add: record_successful_dispatch_def e Let_def s1_def s2_def res_def)
  obtain rb s3 where r: "?p = Some (rb, s3)" and ff: "ff = (sa_rejected acc \<and> is_fail_fast n)"
    and s': "s' = put_result (node_id n) (res rb) (if sa_rejected acc then taint_from cfg n s3 else s3)"
    using assms unfolding main by (cases ?p) auto
  have f1: "same_core s s1" "\<exists>es. rs_log s1 = rs_log s @ es \<and> quiet es"
    by (auto simp: s1_def same_core_def emit_emits)
  have f2: "same_core (set_life (node_id n) ?l s1) s2" "\<exists>es. rs_log s2 = rs_log s1 @ es \<and> quiet es"
    using release_frame[of "set_life (node_id n) ?l s1" env n a "sa_label acc"] by (auto simp: s2_def)
  have f3: "same_core s2 s3" "\<exists>es. rs_log s3 = rs_log s2 @ es \<and> quiet es"
    using r rollback_pass_frame[of cfg env n a s2 rb s3] by (auto simp: same_core_def split: if_splits)
  have logs: "\<exists>es. rs_log s3 = rs_log s @ es \<and> quiet es" using f1(2) f2(2) f3(2) by fastforce
  have rf: "result_for n ?l a (res rb)"
    using st by (cases "acc_status (sa_acceptance acc)")
      (auto simp: res_def result_for_def acceptance_node_state_def)
  have l: "?l \<in> {LSucceeded, LFailed, LPaused}" "?l = LFailed \<longleftrightarrow> sa_rejected acc"
    using st by (cases "acc_status (sa_acceptance acc)"; auto)+
  show ?thesis
    using f1(1) f2(1) f3(1) logs l rf
    by (intro exI[of _ ?l]) (auto simp: settled_def same_core_def s' ff)
qed

lemma failure_settled:
  assumes "record_final_failure cfg env n out a s = Some (ff, s')"
  shows "settled cfg n a LFailed s (abort_if ff (node_id n) s') \<and> rs_attempts s' = rs_attempts s"
proof -
  define s2 where "s2 = release_claim_if_recorded env n a ''failed'' (set_life (node_id n) LFailed s)"
  obtain rb s3 where r: "rollback_pass cfg env n a s2 = Some (rb, s3)"
    using assms by (cases "rollback_pass cfg env n a s2")
      (auto simp: record_final_failure_def Let_def s2_def[symmetric])
  then have ff: "ff = is_fail_fast n"
    and s': "\<exists>r. s' = taint_from cfg n (put_result (node_id n) r s3) \<and> result_for n LFailed a r"
    using assms
    by (cases "do_class out"; auto simp: record_final_failure_def Let_def s2_def[symmetric] result_for_def
        intro!: exI[where P = "\<lambda>r. taint_from cfg n (put_result (node_id n) r' s3) =
          taint_from cfg n (put_result (node_id n) r s3) \<and> Q r" for r' Q])+
  have f2: "same_core (set_life (node_id n) LFailed s) s2" "\<exists>es. rs_log s2 = rs_log s @ es \<and> quiet es"
    using release_frame[of "set_life (node_id n) LFailed s" env n a "''failed''"] by (auto simp: s2_def)
  have f3: "same_core s2 s3" "\<exists>es. rs_log s3 = rs_log s2 @ es \<and> quiet es"
    using rollback_pass_frame[OF r] by auto
  have logs: "\<exists>es. rs_log s3 = rs_log s @ es \<and> quiet es" using f2(2) f3(2) by fastforce
  show ?thesis using f2(1) f3(1) logs s' ff by (auto simp: settled_def same_core_def)
qed

end
