(* ===== verification/Dag_Invariant.thy ===== *)
theory Dag_Invariant
  imports Dag_Steps
begin

text \<open>
  The lifecycle of a plan: an abstract step relation \<open>life_step\<close> over the lifecycle map, the results,
  the running tasks, the attempt counters, the taint and the log, refined by every move of the wave
  loop, and the invariant that each of its steps keeps.
\<close>

subsection \<open>Abstract steps\<close>

definition log_grows :: "run_st \<Rightarrow> run_st \<Rightarrow> dag_event list \<Rightarrow> bool" where
  "log_grows s s' es \<longleftrightarrow> rs_log s' = rs_log s @ es"

inductive life_step :: "dag_cfg \<Rightarrow> run_st \<Rightarrow> run_st \<Rightarrow> bool" for cfg where
  Skip:
    "n \<in> set (cf_nodes cfg) \<Longrightarrow> rs_life s (node_id n) = Some LPending \<Longrightarrow>
     rs_life s' = (rs_life s)(node_id n \<mapsto> LSkipped) \<Longrightarrow>
     rs_results s' = (rs_results s)(node_id n \<mapsto> r) \<Longrightarrow> is_skipped (nr_state r) \<Longrightarrow> nr_id r = node_id n \<Longrightarrow>
     rs_taint s' = rs_taint s \<and> (rs_abort s \<or> rs_taint s (node_id n) \<noteq> None) \<or>
       rs_taint s' = propagate_taint (cf_nodes cfg) (node_id n) (rs_taint s) \<Longrightarrow>
     rs_js s' = rs_js s \<Longrightarrow> rs_attempts s' = rs_attempts s \<Longrightarrow> rs_abort s' = rs_abort s \<Longrightarrow>
     quiet es \<Longrightarrow> log_grows s s' es \<Longrightarrow>
     life_step cfg s s'"
| Gate:
    "ready_node cfg s n \<Longrightarrow>
     rs_life s' = (rs_life s)(node_id n \<mapsto> LPaused) \<Longrightarrow>
     rs_results s' = (rs_results s)(node_id n \<mapsto> r) \<Longrightarrow> is_paused (nr_state r) \<Longrightarrow> nr_id r = node_id n \<Longrightarrow>
     rs_taint s' = rs_taint s \<Longrightarrow>
     rs_js s' = rs_js s \<Longrightarrow> rs_attempts s' = rs_attempts s \<Longrightarrow> rs_abort s' = rs_abort s \<Longrightarrow>
     quiet es \<Longrightarrow> log_grows s s' es \<Longrightarrow>
     life_step cfg s s'"
| Start:
    "ready_node cfg s n \<Longrightarrow> dispatchable n \<Longrightarrow> length (rs_js s) < max (cf_max_parallel cfg) 1 \<Longrightarrow>
     a = unwrap_or (rs_attempts s (node_id n)) 0 + 1 \<Longrightarrow>
     rs_life s' = (rs_life s)(node_id n \<mapsto> LRunning) \<Longrightarrow> rs_results s' = rs_results s \<Longrightarrow>
     rs_taint s' = rs_taint s \<Longrightarrow> rs_js s' = rs_js s @ [n] \<Longrightarrow>
     rs_attempts s' = (rs_attempts s)(node_id n \<mapsto> a) \<Longrightarrow> rs_abort s' = rs_abort s \<Longrightarrow>
     quiet es \<Longrightarrow> log_grows s s' (es @ [EvRunning (node_id n) a]) \<Longrightarrow>
     life_step cfg s s'"
| Refuse:
    "ready_node cfg s n \<Longrightarrow> dispatchable n \<Longrightarrow>
     a = unwrap_or (rs_attempts s (node_id n)) 0 + 1 \<Longrightarrow>
     rs_life s' = (rs_life s)(node_id n \<mapsto> LFailed) \<Longrightarrow>
     rs_results s' = (rs_results s)(node_id n \<mapsto> r) \<Longrightarrow> result_for n LFailed a r \<Longrightarrow>
     rs_taint s' = propagate_taint (cf_nodes cfg) (node_id n) (rs_taint s) \<Longrightarrow> rs_js s' = rs_js s \<Longrightarrow>
     rs_attempts s' = (rs_attempts s)(node_id n \<mapsto> a) \<Longrightarrow> rs_abort s' = (rs_abort s \<or> is_fail_fast n) \<Longrightarrow>
     quiet es \<Longrightarrow> log_grows s s' es \<Longrightarrow>
     life_step cfg s s'"
| Settle:
    "i < length (rs_js s) \<Longrightarrow> rs_js s ! i = n \<Longrightarrow> a = unwrap_or (rs_attempts s (node_id n)) 1 \<Longrightarrow>
     l \<in> {LSucceeded, LFailed, LPaused} \<Longrightarrow> l = LSucceeded \<longrightarrow> ok \<Longrightarrow>
     rs_life s' = (rs_life s)(node_id n \<mapsto> l) \<Longrightarrow>
     rs_results s' = (rs_results s)(node_id n \<mapsto> r) \<Longrightarrow> result_for n l a r \<Longrightarrow>
     rs_taint s' = (if l = LFailed then propagate_taint (cf_nodes cfg) (node_id n) (rs_taint s) else rs_taint s) \<Longrightarrow>
     rs_js s' = drop_task i (rs_js s) \<Longrightarrow>
     rs_attempts s' = rs_attempts s \<or> a < effective_max_attempts n \<and> rs_attempts s' =
       (rs_attempts s)(node_id n \<mapsto> unwrap_or (rs_attempts s (node_id n)) 0 + 1) \<Longrightarrow>
     rs_abort s' = (rs_abort s \<or> l = LFailed \<and> is_fail_fast n) \<Longrightarrow>
     quiet es \<Longrightarrow> log_grows s s' (EvFinished (node_id n) a ok # es) \<Longrightarrow>
     life_step cfg s s'"
| Retry:
    "i < length (rs_js s) \<Longrightarrow> rs_js s ! i = n \<Longrightarrow> a = unwrap_or (rs_attempts s (node_id n)) 1 \<Longrightarrow>
     a < effective_max_attempts n \<Longrightarrow> \<not> rs_abort s \<Longrightarrow>
     b = unwrap_or (rs_attempts s (node_id n)) 0 + 1 \<Longrightarrow>
     rs_life s' = (rs_life s)(node_id n \<mapsto> LRunning) \<Longrightarrow> rs_results s' = rs_results s \<Longrightarrow>
     rs_taint s' = rs_taint s \<Longrightarrow> rs_js s' = drop_task i (rs_js s) @ [n] \<Longrightarrow>
     rs_attempts s' = (rs_attempts s)(node_id n \<mapsto> b) \<Longrightarrow> rs_abort s' = rs_abort s \<Longrightarrow>
     quiet es \<Longrightarrow> log_grows s s' (EvFinished (node_id n) a False # es @ [EvRunning (node_id n) b]) \<Longrightarrow>
     life_step cfg s s'"

subsection \<open>Refinement\<close>

lemma sat_sub_pos: "sat_sub_u32 m a > 0 \<longleftrightarrow> a < m"
  by (cases "a = m") (auto simp: sat_sub_u32_def word_gt_0 split: if_splits)

lemma retry_effect:
  assumes "retry_failed_node_if_allowed cfg env n out a s = Some (Inr b, s')"
  shows "(\<not> b \<and> same_core s s' \<and> (\<exists>es. rs_log s' = rs_log s @ es \<and> quiet es)) \<or>
    a < effective_max_attempts n \<and> \<not> rs_abort s \<and>
    rs_attempts s' = (rs_attempts s)(node_id n \<mapsto> unwrap_or (rs_attempts s (node_id n)) 0 + 1) \<and>
    rs_taint s' = rs_taint s \<and> rs_results s' = rs_results s \<and> rs_abort s' = rs_abort s \<and>
    (if b then rs_life s' = (rs_life s)(node_id n \<mapsto> LRunning) \<and> rs_js s' = rs_js s @ [n] \<and>
         (\<exists>es. quiet es \<and> rs_log s' = rs_log s @ es @ [EvRunning (node_id n) (unwrap_or (rs_attempts s (node_id n)) 0 + 1)])
     else rs_life s' = rs_life s \<and> rs_js s' = rs_js s \<and> (\<exists>es. rs_log s' = rs_log s @ es \<and> quiet es))"
proof (cases "plan_node_should_retry a (effective_max_attempts n) (do_non_retryable out) (rs_abort s)")
  case False
  with assms show ?thesis by (auto simp: retry_failed_node_if_allowed_def same_core_def)
next
  case True
  then have g: "a < effective_max_attempts n" "\<not> rs_abort s"
    by (auto simp: plan_node_should_retry_def sat_sub_pos split: if_splits)
  define s1 where "s1 = release_claim_if_recorded env n a ''failed_will_retry'' s"
  have f1: "same_core s s1" "\<exists>es. rs_log s1 = rs_log s @ es \<and> quiet es"
    using release_frame[of s env n a "''failed_will_retry''"] by (auto simp: s1_def)
  obtain c s2 where b: "bump_attempt (node_id n) s1 = (c, s2)" by fastforce
  note bf = bump_fields[OF b]
  have main: "retry_failed_node_if_allowed cfg env n out a s =
     bind_run (acquire_plan_dag_work_leases cfg env n c s2) (\<lambda>r s.
          case r of Inl _ \<Rightarrow> Some (Inr False, s)
          | Inr cl \<Rightarrow> Some (Inr True, spawn_dispatch_attempt n c (record_acquired_claim n c cl s)))"
    using True b by (simp add: retry_failed_node_if_allowed_def s1_def)
  obtain r s3 where q: "acquire_plan_dag_work_leases cfg env n c s2 = Some (Inr r, s3)"
    and k: "(case r of Inl _ \<Rightarrow> Some (Inr False, s3)
          | Inr cl \<Rightarrow> Some (Inr True, spawn_dispatch_attempt n c (record_acquired_claim n c cl s3))) = Some (Inr b :: string + bool, s')"
    using assms unfolding main bind_run_Inr by (elim exE conjE) (rule that)
  have f3: "same_core s2 s3" "\<exists>es. rs_log s3 = rs_log s2 @ es \<and> quiet es"
    using acquire_same_core[OF q] by auto
  have c: "c = unwrap_or (rs_attempts s (node_id n)) 0 + 1"
    using bf f1 by (simp add: same_core_def)
  obtain e1 e3 where e: "rs_log s1 = rs_log s @ e1" "quiet e1" "rs_log s3 = rs_log s2 @ e3" "quiet e3"
    using f1 f3 by blast
  have l2: "rs_log s2 = rs_log s1" using bf by simp
  have "rs_life s3 = rs_life s" "rs_js s3 = rs_js s" "rs_taint s3 = rs_taint s" "rs_results s3 = rs_results s"
    "rs_abort s3 = rs_abort s" "rs_attempts s3 = (rs_attempts s)(node_id n \<mapsto> c)"
    using f1(1) f3(1) bf by (simp_all add: same_core_def)
  with k g c e l2 show ?thesis by (cases r) auto
qed

definition joined_shape :: "nat \<Rightarrow> dag_node \<Rightarrow> run_st \<Rightarrow> run_st \<Rightarrow> bool" where
  "joined_shape i n t s' \<longleftrightarrow>
     (rs_js s' = drop_task i (rs_js t) \<and> (\<forall>x. x \<noteq> node_id n \<longrightarrow> rs_attempts s' x = rs_attempts t x)) \<or>
     (rs_js s' = drop_task i (rs_js t) @ [n] \<and>
      unwrap_or (rs_attempts t (node_id n)) 1 < effective_max_attempts n \<and>
      rs_attempts s' = (rs_attempts t)(node_id n \<mapsto> unwrap_or (rs_attempts t (node_id n)) 0 + 1))"

lemma handle_joined_effect:
  assumes "handle_joined cfg env n out s = Some (Inr (), s')" "s = ticks 1 (t\<lparr> rs_js := drop_task i (rs_js t) \<rparr>)"
    and "i < length (rs_js t)" "rs_js t ! i = n"
  shows "life_step cfg t s' \<and> joined_shape i n t s'"
proof -
  let ?x = "node_id n"
  have s: "rs_life s = rs_life t" "rs_results s = rs_results t" "rs_taint s = rs_taint t"
    "rs_attempts s = rs_attempts t" "rs_abort s = rs_abort t" "rs_log s = rs_log t"
    "rs_js s = drop_task i (rs_js t)"
    using assms(2) by simp_all
  define a where "a = unwrap_or (rs_attempts s ?x) 1"
  define ok where "ok = (case do_class out of Inl _ \<Rightarrow> False | Inr _ \<Rightarrow> True)"
  define s1 where "s1 = emit (EvFinished ?x a ok) s"
  have s1: "rs_life s1 = rs_life t" "rs_results s1 = rs_results t" "rs_taint s1 = rs_taint t"
    "rs_attempts s1 = rs_attempts t" "rs_abort s1 = rs_abort t"
    "rs_log s1 = rs_log t @ [EvFinished ?x a ok]" "rs_js s1 = drop_task i (rs_js t)"
    using s by (simp_all add: s1_def emit_emits)
  have a: "a = unwrap_or (rs_attempts t ?x) 1" using s by (simp add: a_def)
  have main: "handle_joined cfg env n out s =
     (if ok then map_option (\<lambda>(ff, s). (Inr (), abort_if ff ?x s)) (record_successful_dispatch cfg env n out a s1)
      else bind_run (retry_failed_node_if_allowed cfg env n out a s1) (\<lambda>retried s.
           if retried then Some (Inr (), s)
           else map_option (\<lambda>(ff, s). (Inr (), abort_if ff ?x s)) (record_final_failure cfg env n out a s)))"
    by (simp add: handle_joined_def Let_def a_def ok_def s1_def cong: if_cong)
  show ?thesis
  proof (cases ok)
    case True
    then obtain ff s2 where r: "record_successful_dispatch cfg env n out a s1 = Some (ff, s2)"
      and s': "s' = abort_if ff ?x s2"
      using assms(1) unfolding main by auto
    from success_settled[OF r] obtain l where st: "settled cfg n a l s1 s'" "rs_attempts s2 = rs_attempts s1"
      unfolding s' by blast
    have "rs_attempts s' = rs_attempts t" using st(2) s1 s' by simp
    moreover obtain es r where "rs_log s' = rs_log s1 @ es" "quiet es"
      "rs_results s' = (rs_results s1)(?x \<mapsto> r)" "result_for n l a r"
      using st(1) unfolding settled_def by blast
    ultimately have "life_step cfg t s'"
      using st(1) s1 True assms(3,4) a
      by (intro life_step.Settle[where i = i and n = n and a = a and l = l and ok = ok and r = r and es = es])
        (simp_all add: settled_def log_grows_def)
    moreover have "joined_shape i n t s'"
      using st(1) s1 \<open>rs_attempts s' = rs_attempts t\<close> by (simp add: settled_def joined_shape_def)
    ultimately show ?thesis by simp
  next
    case False
    then obtain b s2 where r: "retry_failed_node_if_allowed cfg env n out a s1 = Some (Inr b, s2)"
      and k: "(if b then Some (Inr (), s2)
           else map_option (\<lambda>(ff, s). (Inr (), abort_if ff ?x s)) (record_final_failure cfg env n out a s2))
         = Some (Inr () :: string + unit, s')"
      using assms(1) False unfolding main by (simp add: bind_run_Inr) (elim exE conjE, rule that)
    note re = retry_effect[OF r]
    show ?thesis
    proof (cases b)
      case b: True
      then have s': "s' = s2" using k by simp
      from re b obtain es where "quiet es"
        "rs_log s' = rs_log s1 @ es @ [EvRunning ?x (unwrap_or (rs_attempts s1 ?x) 0 + 1)]"
        unfolding s' by auto
      with re b False s1 assms(3,4) a s' have "life_step cfg t s'"
        by (intro life_step.Retry[where i = i and n = n and a = a and es = es
              and b = "unwrap_or (rs_attempts t ?x) 0 + 1"]) (simp_all add: log_grows_def)
      moreover have "joined_shape i n t s'"
        using re b s1 s' a by (simp add: joined_shape_def)
      ultimately show ?thesis by simp
    next
      case nb: False
      then obtain ff s3 where f: "record_final_failure cfg env n out a s2 = Some (ff, s3)"
        and s': "s' = abort_if ff ?x s3"
        using k by auto
      have st: "settled cfg n a LFailed s2 s'" "rs_attempts s3 = rs_attempts s2"
        using failure_settled[OF f] s' by auto
      have c: "rs_life s2 = rs_life s1" "rs_js s2 = rs_js s1" "rs_taint s2 = rs_taint s1"
        "rs_results s2 = rs_results s1" "rs_abort s2 = rs_abort s1"
        "\<exists>es. rs_log s2 = rs_log s1 @ es \<and> quiet es"
        "rs_attempts s2 = rs_attempts s1 \<or> a < effective_max_attempts n \<and>
           rs_attempts s2 = (rs_attempts s1)(?x \<mapsto> unwrap_or (rs_attempts s1 ?x) 0 + 1)"
        using re nb by (auto simp: same_core_def)
      obtain es r where lg: "rs_log s' = rs_log s2 @ es" "quiet es"
        "rs_results s' = (rs_results s2)(?x \<mapsto> r)" "result_for n LFailed a r"
        using st(1) unfolding settled_def by blast
      obtain e2 where e2: "rs_log s2 = rs_log s1 @ e2" "quiet e2" using c(6) by blast
      have att: "rs_attempts s' = rs_attempts s2" using st(2) s' by simp
      have "life_step cfg t s'"
        using st(1) s1 False assms(3,4) a c(1-5,7) lg e2 att
        by (intro life_step.Settle[where i = i and n = n and a = a and l = LFailed and ok = ok and r = r
              and es = "e2 @ es"]) (simp_all add: settled_def log_grows_def)
      moreover have "joined_shape i n t s'"
        using st(1) s1 c(2,7) att by (auto simp: settled_def joined_shape_def)
      ultimately show ?thesis by simp
    qed
  qed
qed


lemma bump_run_fields:
  assumes "bump_attempt x s = (a, s1)" "acquire_plan_dag_work_leases cfg env n a s1 = Some (r, s2)"
  shows "a = unwrap_or (rs_attempts s x) 0 + 1" "rs_life s2 = rs_life s" "rs_taint s2 = rs_taint s"
    "rs_results s2 = rs_results s" "rs_js s2 = rs_js s" "rs_abort s2 = rs_abort s"
    "rs_attempts s2 = (rs_attempts s)(x \<mapsto> a)" "\<exists>es. rs_log s2 = rs_log s @ es \<and> quiet es"
  using bump_fields[OF assms(1)] acquire_same_core[OF assms(2)] by (auto simp: same_core_def)

lemma conflict_result:
  "\<exists>r. rs_results (record_strict_claim_conflict cfg n a c s) = (rs_results s)(node_id n \<mapsto> r) \<and>
     result_for n LFailed a r"
  by (auto simp: record_strict_claim_conflict_def result_for_def emit_emits)

lemma skipped_state [simp]: "nr_state (skipped_result x t st d) = st" "nr_id (skipped_result x t st d) = x"
  by (simp_all add: skipped_result_def)

theorem run_refines_life:
  assumes "run_step cfg env s s'"
  shows "life_step cfg s s'"
  using assms
proof (cases rule: run_step.cases)
  case (Skip_Tainted n d)
  then show ?thesis
    by (intro life_step.Skip[where n = n and es = "[EvSkipped (node_id n) ''upstream_failed'']"
        and r = "skipped_result (node_id n) (target n) (SkippedUpstreamFailed d) (strategy_of n)"])
      (simp_all add: log_grows_def)
next
  case (Skip_Abort n a)
  then show ?thesis
    by (intro life_step.Skip[where n = n and es = "[EvSkipped (node_id n) ''fail_fast_aborted'']"
        and r = "skipped_result (node_id n) (target n) (SkippedFailFastAbort a) (strategy_of n)"])
      (simp_all add: log_grows_def)
next
  case (Gate_Condition n)
  then show ?thesis
    by (intro life_step.Skip[where n = n and es = "[EvSkipped (node_id n) ''condition_gated'']"
        and r = "skipped_result (node_id n) (target n) (SkippedCondition) (strategy_of n)"])
      (simp_all add: log_grows_def condition_skip_def ready_node_def)
next
  case (Gate_Review n)
  obtain q w where "rs_results (pause_node env n s) =
     (rs_results s)(node_id n \<mapsto> skipped_result (node_id n) (target n) (Paused q w) (strategy_of n))"
    using pause_node_fields(10) by blast
  with Gate_Review show ?thesis
    by (intro life_step.Gate[where n = n and es = "[EvPausedGate (node_id n)]"
        and r = "skipped_result (node_id n) (target n) (Paused q w) (strategy_of n)"])
      (simp_all add: log_grows_def)
next
  case (Dispatch_Node n a s1 c s2)
  note f = bump_run_fields[OF Dispatch_Node(5,6)]
  obtain es where "rs_log s2 = rs_log s @ es" "quiet es" using f(8) by blast
  with Dispatch_Node f show ?thesis
    by (intro life_step.Start[where n = n and a = a and es = "es @ [EvClaimed (node_id n) a]"])
      (simp_all add: log_grows_def)
next
  case (Claim_Refused n a s1 c s2)
  note f = bump_run_fields[OF Claim_Refused(4,5)]
  obtain es where "rs_log s2 = rs_log s @ es" "quiet es" using f(8) by blast
  moreover obtain r where "rs_results (record_strict_claim_conflict cfg n a c s2) = (rs_results s2)(node_id n \<mapsto> r)"
    "result_for n LFailed a r"
    using conflict_result by blast
  ultimately show ?thesis using Claim_Refused f
    by (intro life_step.Refuse[where n = n and a = a and r = r and es = "es @ [EvClaimConflict (node_id n) a]"])
      (simp_all add: log_grows_def)
next
  case (Task_Joined i n t out)
  show ?thesis using handle_joined_effect[OF Task_Joined(4) refl Task_Joined(1,2)] by blast
qed


subsection \<open>The invariant\<close>

definition inv_life :: "dag_cfg \<Rightarrow> run_st \<Rightarrow> bool" where
  "inv_life cfg s \<longleftrightarrow> dom (rs_life s) = set (ids_of (cf_nodes cfg))"

definition inv_tasks :: "dag_cfg \<Rightarrow> run_st \<Rightarrow> bool" where
  "inv_tasks cfg s \<longleftrightarrow>
     distinct (map node_id (rs_js s)) \<and> set (rs_js s) \<subseteq> set (cf_nodes cfg) \<and>
     (\<forall>x. rs_life s x = Some LRunning \<longleftrightarrow> x \<in> node_id ` set (rs_js s)) \<and>
     length (rs_js s) \<le> max (cf_max_parallel cfg) 1"

definition inv_deps :: "dag_cfg \<Rightarrow> run_st \<Rightarrow> bool" where
  "inv_deps cfg s \<longleftrightarrow>
     (\<forall>n \<in> set (cf_nodes cfg). rs_life s (node_id n) \<notin> {Some LPending, Some LSkipped} \<longrightarrow> deps_done (rs_life s) n)"

fun recorded :: "string \<Rightarrow> node_lifecycle \<Rightarrow> node_result option \<Rightarrow> bool" where
  "recorded x LPending r \<longleftrightarrow> r = None"
| "recorded x LRunning r \<longleftrightarrow> r = None"
| "recorded x LReady r \<longleftrightarrow> False"
| "recorded x LClaimed r \<longleftrightarrow> False"
| "recorded x LSkipped r \<longleftrightarrow> (\<exists>q. r = Some q \<and> nr_id q = x \<and> is_skipped (nr_state q))"
| "recorded x LPaused r \<longleftrightarrow> (\<exists>q. r = Some q \<and> nr_id q = x \<and> is_paused (nr_state q))"
| "recorded x LSucceeded r \<longleftrightarrow> (\<exists>q. r = Some q \<and> nr_id q = x \<and> nr_state q = Succeeded)"
| "recorded x LFailed r \<longleftrightarrow> (\<exists>q. r = Some q \<and> nr_id q = x \<and> is_failed (nr_state q))"

definition inv_results :: "dag_cfg \<Rightarrow> run_st \<Rightarrow> bool" where
  "inv_results cfg s \<longleftrightarrow>
     (\<forall>x l. rs_life s x = Some l \<longrightarrow> recorded x l (rs_results s x)) \<and>
     dom (rs_results s) \<subseteq> set (ids_of (cf_nodes cfg))"

definition inv_attempts :: "dag_cfg \<Rightarrow> run_st \<Rightarrow> bool" where
  "inv_attempts cfg s \<longleftrightarrow> (\<forall>n \<in> set (cf_nodes cfg).
     (rs_life s (node_id n) = Some LPending \<longrightarrow> rs_attempts s (node_id n) = None) \<and>
     (rs_life s (node_id n) = Some LRunning \<longrightarrow> rs_attempts s (node_id n) \<noteq> None) \<and>
     (\<forall>a. rs_attempts s (node_id n) = Some a \<longrightarrow> 1 \<le> a \<and> a \<le> effective_max_attempts n))"

definition inv_taint :: "dag_cfg \<Rightarrow> run_st \<Rightarrow> bool" where
  "inv_taint cfg s \<longleftrightarrow> taint_closed (cf_nodes cfg) (rs_taint s) \<and>
     (\<forall>x r. rs_taint s x = Some r \<longrightarrow> x \<in> descendants (cf_nodes cfg) r \<and>
        (\<exists>d. (d, x) \<in> child_rel (cf_nodes cfg) \<and> (d = r \<or> d \<in> dom (rs_taint s))) \<and>
        rs_life s x \<in> {Some LPending, Some LSkipped} \<and> rs_life s r \<in> {Some LFailed, Some LSkipped}) \<and>
     (\<forall>x. rs_life s x = Some LFailed \<or> rs_life s x = Some LSkipped \<and> \<not> rs_abort s \<longrightarrow>
        descendants (cf_nodes cfg) x \<subseteq> dom (rs_taint s))"

definition inv_log :: "dag_cfg \<Rightarrow> run_st \<Rightarrow> bool" where
  "inv_log cfg s \<longleftrightarrow>
     (\<forall>x. rs_life s x = Some LSucceeded \<longrightarrow> (\<exists>a. EvFinished x a True \<in> set (rs_log s))) \<and>
     (\<forall>x. rs_life s x \<in> {Some LRunning, Some LSucceeded} \<longrightarrow> (\<exists>a. EvRunning x a \<in> set (rs_log s))) \<and>
     (\<forall>us x a vs. rs_log s = us @ EvRunning x a # vs \<longrightarrow>
        (\<forall>n \<in> set (cf_nodes cfg). node_id n = x \<longrightarrow>
          (\<forall>d \<in> set (depends_on n). \<exists>b. EvFinished d b True \<in> set us)))"

definition inv_abort :: "dag_cfg \<Rightarrow> run_st \<Rightarrow> bool" where
  "inv_abort cfg s \<longleftrightarrow> (rs_abort s \<longleftrightarrow>
     (\<exists>n \<in> set (cf_nodes cfg). is_fail_fast n \<and> rs_life s (node_id n) = Some LFailed))"

lemmas inv_defs = inv_life_def inv_tasks_def inv_deps_def inv_results_def inv_attempts_def inv_taint_def
  inv_log_def inv_abort_def

definition dag_inv :: "dag_cfg \<Rightarrow> run_st \<Rightarrow> bool" where
  "dag_inv cfg s \<longleftrightarrow> inv_life cfg s \<and> inv_tasks cfg s \<and> inv_deps cfg s \<and> inv_results cfg s \<and>
     inv_attempts cfg s \<and> inv_taint cfg s \<and> inv_log cfg s \<and> inv_abort cfg s"

lemma dag_invD:
  assumes "dag_inv cfg s"
  shows "inv_life cfg s" "inv_tasks cfg s" "inv_deps cfg s" "inv_results cfg s" "inv_attempts cfg s"
    "inv_taint cfg s" "inv_log cfg s" "inv_abort cfg s"
  using assms by (auto simp: dag_inv_def)

subsection \<open>Preservation\<close>

lemma map_drop_task: "map f (drop_task i xs) = drop_task i (map f xs)"
  by (induction i xs rule: drop_task.induct) auto

lemma length_drop_task: "i < length xs \<Longrightarrow> Suc (length (drop_task i xs)) = length xs"
proof (induction i xs rule: drop_task.induct)
  case (2 i x xs)
  then show ?case by (cases i; cases xs) auto
qed auto

lemma set_drop_task_subset: "set (drop_task i xs) \<subseteq> set xs"
  by (induction i xs rule: drop_task.induct) (auto split: if_splits)

lemma drop_task_distinct:
  "distinct xs \<Longrightarrow> i < length xs \<Longrightarrow> distinct (drop_task i xs) \<and> set (drop_task i xs) = set xs - {xs ! i}"
proof (induction i xs rule: drop_task.induct)
  case (2 i x xs)
  then show ?case using set_drop_task_subset[of "i - 1" xs] by (cases i) (auto dest: nth_mem)
qed auto

text \<open>What all moves have in common: one node changes its lifecycle; it was pending or running, and
  unless it is skipped, its dependencies have succeeded.\<close>

definition moves :: "dag_cfg \<Rightarrow> run_st \<Rightarrow> run_st \<Rightarrow> dag_node \<Rightarrow> node_lifecycle \<Rightarrow> bool" where
  "moves cfg s s' n l \<longleftrightarrow>
     n \<in> set (cf_nodes cfg) \<and> rs_life s' = (rs_life s)(node_id n \<mapsto> l) \<and>
     rs_life s (node_id n) \<in> {Some LPending, Some LRunning} \<and> l \<noteq> LPending \<and> l \<noteq> LClaimed \<and>
     (l = LSkipped \<or> deps_done (rs_life s) n) \<and>
     (rs_taint s' = rs_taint s \<and> (l \<in> {LFailed, LSkipped} \<longrightarrow>
        l = LSkipped \<and> (rs_abort s \<or> rs_taint s (node_id n) \<noteq> None)) \<or>
      rs_taint s' = propagate_taint (cf_nodes cfg) (node_id n) (rs_taint s) \<and> l \<in> {LFailed, LSkipped}) \<and>
     (rs_abort s' \<longleftrightarrow> rs_abort s \<or> l = LFailed \<and> is_fail_fast n)"

lemma life_step_target:
  assumes "life_step cfg s s'" "inv_tasks cfg s" "inv_deps cfg s"
  shows "\<exists>n l. moves cfg s s' n l"
  using assms(1)
proof (cases rule: life_step.cases)
  case (Settle i n a l ok r es)
  then have n: "n \<in> set (rs_js s)" using nth_mem by blast
  then have "n \<in> set (cf_nodes cfg)" "rs_life s (node_id n) = Some LRunning"
    using assms(2) by (auto simp: inv_tasks_def)
  with Settle assms(3) have "moves cfg s s' n l" by (auto simp: inv_deps_def moves_def)
  then show ?thesis by blast
next
  case (Retry i n a b es)
  then have n: "n \<in> set (rs_js s)" using nth_mem by blast
  then have "n \<in> set (cf_nodes cfg)" "rs_life s (node_id n) = Some LRunning"
    using assms(2) by (auto simp: inv_tasks_def)
  with Retry assms(3) have "moves cfg s s' n LRunning" by (auto simp: inv_deps_def moves_def)
  then show ?thesis by blast
next
  case (Skip n r es)
  then have "moves cfg s s' n LSkipped" by (auto simp: moves_def)
  then show ?thesis by blast
next
  case (Gate n r es)
  then have "moves cfg s s' n LPaused" by (simp add: moves_def ready_node_def)
  then show ?thesis by blast
next
  case (Start n a es)
  then have "moves cfg s s' n LRunning" by (simp add: moves_def ready_node_def)
  then show ?thesis by blast
next
  case (Refuse n a r es)
  then have "moves cfg s s' n LFailed" by (simp add: moves_def ready_node_def)
  then show ?thesis by blast
qed

lemma same_node:
  "cfg_ok cfg \<Longrightarrow> m \<in> set (cf_nodes cfg) \<Longrightarrow> n \<in> set (cf_nodes cfg) \<Longrightarrow> node_id m = node_id n \<Longrightarrow> m = n"
  by (metis by_id_cfg option.inject)

lemma keep_life:
  assumes "life_step cfg s s'" "dag_inv cfg s"
  shows "inv_life cfg s'"
proof -
  note inv = dag_invD[OF assms(2)]
  obtain n l where "moves cfg s s' n l" using life_step_target[OF assms(1) inv(2,3)] by (elim exE)
  then show ?thesis using inv(1) by (auto simp: inv_life_def ids_of_def moves_def)
qed

lemma deps_done_mono:
  "deps_done life n \<Longrightarrow> life x \<noteq> Some LSucceeded \<Longrightarrow> deps_done (life(x \<mapsto> l)) n"
  by (auto simp: deps_done_def list_all_iff)

lemma keep_deps:
  assumes "cfg_ok cfg" "life_step cfg s s'" "dag_inv cfg s"
  shows "inv_deps cfg s'"
proof -
  note inv = dag_invD[OF assms(3)]
  obtain n l where mv: "moves cfg s s' n l" using life_step_target[OF assms(2) inv(2,3)] by (elim exE)
  then have l: "rs_life s' = (rs_life s)(node_id n \<mapsto> l)" "rs_life s (node_id n) \<noteq> Some LSucceeded"
    and n: "n \<in> set (cf_nodes cfg)" "l = LSkipped \<or> deps_done (rs_life s) n"
    by (auto simp: moves_def)
  show ?thesis
    unfolding inv_deps_def
  proof (intro ballI impI)
    fix m assume m: "m \<in> set (cf_nodes cfg)" "rs_life s' (node_id m) \<notin> {Some LPending, Some LSkipped}"
    have "deps_done (rs_life s) m"
    proof (cases "node_id m = node_id n")
      case True
      then have "m = n" using same_node[OF assms(1) m(1) n(1)] by simp
      with m l n show ?thesis by auto
    next
      case False
      with m l inv(3) show ?thesis by (simp add: inv_deps_def)
    qed
    then show "deps_done (rs_life s') m" unfolding l(1) using l(2) by (rule deps_done_mono)
  qed
qed


lemma task_removed:
  assumes "inv_tasks cfg s" "i < length (rs_js s)" "rs_js s ! i = n"
  shows "n \<in> set (cf_nodes cfg)" "rs_life s (node_id n) = Some LRunning"
    "distinct (map node_id (drop_task i (rs_js s)))"
    "node_id ` set (drop_task i (rs_js s)) = node_id ` set (rs_js s) - {node_id n}"
    "set (drop_task i (rs_js s)) \<subseteq> set (rs_js s)"
    "Suc (length (drop_task i (rs_js s))) = length (rs_js s)"
proof -
  have "n \<in> set (rs_js s)" using assms nth_mem by blast
  then show "n \<in> set (cf_nodes cfg)" "rs_life s (node_id n) = Some LRunning"
    using assms(1) by (auto simp: inv_tasks_def)
  have d: "distinct (map node_id (rs_js s))" using assms(1) by (simp add: inv_tasks_def)
  have r: "distinct (drop_task i (map node_id (rs_js s)))"
    "set (drop_task i (map node_id (rs_js s))) = set (map node_id (rs_js s)) - {map node_id (rs_js s) ! i}"
    using drop_task_distinct[OF d, of i] assms(2) by simp_all
  then show "distinct (map node_id (drop_task i (rs_js s)))"
    "node_id ` set (drop_task i (rs_js s)) = node_id ` set (rs_js s) - {node_id n}"
    using assms(2,3) by (simp_all add: map_drop_task[symmetric])
  show "set (drop_task i (rs_js s)) \<subseteq> set (rs_js s)" by (rule set_drop_task_subset)
  show "Suc (length (drop_task i (rs_js s))) = length (rs_js s)" by (rule length_drop_task[OF assms(2)])
qed

lemma keep_tasks:
  assumes "life_step cfg s s'" "dag_inv cfg s"
  shows "inv_tasks cfg s'"
proof -
  have t: "inv_tasks cfg s" by (rule dag_invD(2)[OF assms(2)])
  note tu = t[unfolded inv_tasks_def]
  have pn: "x \<notin> node_id ` set (rs_js s)" if "rs_life s x = Some LPending" for x
  proof
    assume "x \<in> node_id ` set (rs_js s)"
    then have "rs_life s x = Some LRunning" using tu by blast
    with that show False by simp
  qed
  have idle: ?thesis if "rs_life s' = (rs_life s)(x \<mapsto> l)" "rs_life s x = Some LPending" "l \<noteq> LRunning"
      "rs_js s' = rs_js s" for x l
    using tu that pn[OF that(2)] by (simp add: inv_tasks_def)
  show ?thesis
    using assms(1)
  proof (cases rule: life_step.cases)
    case (Settle i n a l ok r es)
    note tr = task_removed[OF t Settle(1,2)]
    show ?thesis
      unfolding inv_tasks_def Settle(10) Settle(6) using tr tu Settle(4) by auto
  next
    case (Retry i n a b es)
    note tr = task_removed[OF t Retry(1,2)]
    show ?thesis
      unfolding inv_tasks_def Retry(10) Retry(7) using tr tu by auto
  next
    case (Skip n r es)
    show ?thesis by (rule idle[OF Skip(3,2)]) (use Skip in simp_all)
  next
    case (Gate n r es)
    show ?thesis by (rule idle[OF Gate(2)]) (use Gate in \<open>simp_all add: ready_node_def\<close>)
  next
    case (Start n a es)
    then have "rs_life s (node_id n) = Some LPending" by (simp add: ready_node_def)
    from pn[OF this] show ?thesis unfolding inv_tasks_def using tu Start by (auto simp: ready_node_def)
  next
    case (Refuse n a r es)
    show ?thesis by (rule idle[OF Refuse(4)]) (use Refuse in \<open>simp_all add: ready_node_def\<close>)
  qed
qed

lemma keep_results:
  assumes "life_step cfg s s'" "dag_inv cfg s"
  shows "inv_results cfg s'"
proof -
  have t: "inv_tasks cfg s" by (rule dag_invD(2)[OF assms(2)])
  note ru = dag_invD(4)[OF assms(2), unfolded inv_results_def]
  have step: ?thesis
    if "n \<in> set (cf_nodes cfg)" "rs_life s' = (rs_life s)(node_id n \<mapsto> l)"
      "rs_results s' = (rs_results s)(node_id n \<mapsto> r)" "recorded (node_id n) l (Some r)" for n l r
    using that ru by (auto simp: inv_results_def ids_of_def)
  have keep: ?thesis
    if "n \<in> set (cf_nodes cfg)" "rs_life s (node_id n) \<in> {Some LPending, Some LRunning}"
      "rs_life s' = (rs_life s)(node_id n \<mapsto> LRunning)" "rs_results s' = rs_results s" for n
  proof -
    have "recorded (node_id n) LRunning (rs_results s (node_id n))"
      using ru that(2) by (metis (no_types, lifting) insert_iff recorded.simps(1,2) singletonD)
    then show ?thesis using that(3,4) ru by (simp add: inv_results_def)
  qed
  show ?thesis
    using assms(1)
  proof (cases rule: life_step.cases)
    case (Settle i n a l ok r es)
    show ?thesis
      by (rule step[OF task_removed(1)[OF t Settle(1,2)] Settle(6,7)])
        (use Settle(4,8) in \<open>auto simp: result_for_def\<close>)
  next
    case (Retry i n a b es)
    note tr = task_removed[OF t Retry(1,2)]
    show ?thesis by (rule keep[OF tr(1)]) (use tr Retry in simp_all)
  next
    case (Skip n r es)
    show ?thesis by (rule step[OF Skip(1,3,4)]) (use Skip in simp)
  next
    case (Gate n r es)
    show ?thesis by (rule step[of n LPaused r]) (use Gate in \<open>simp_all add: ready_node_def\<close>)
  next
    case (Start n a es)
    show ?thesis by (rule keep[of n]) (use Start in \<open>simp_all add: ready_node_def\<close>)
  next
    case (Refuse n a r es)
    show ?thesis by (rule step[of n LFailed r]) (use Refuse in \<open>simp_all add: ready_node_def result_for_def\<close>)
  qed
qed

lemma attempts_word: "(a::u32) < m \<Longrightarrow> m \<le> n \<Longrightarrow> 1 \<le> a + 1 \<and> a + 1 \<le> n"
  by unat_arith

lemma max_attempts_pos: "1 \<le> effective_max_attempts n"
  by (auto simp: effective_max_attempts_def)

lemma keep_attempts:
  assumes "cfg_ok cfg" "life_step cfg s s'" "dag_inv cfg s"
  shows "inv_attempts cfg s'"
proof -
  have t: "inv_tasks cfg s" by (rule dag_invD(2)[OF assms(3)])
  have au: "inv_attempts cfg s" by (rule dag_invD(5)[OF assms(3)])
  have step: ?thesis
    if "n \<in> set (cf_nodes cfg)" "rs_life s' = (rs_life s)(node_id n \<mapsto> l)" "l \<noteq> LPending"
      "rs_attempts s' (node_id n) = None \<Longrightarrow> l \<noteq> LRunning"
      "\<And>a. rs_attempts s' (node_id n) = Some a \<Longrightarrow> 1 \<le> a \<and> a \<le> effective_max_attempts n"
      "\<And>x. x \<noteq> node_id n \<Longrightarrow> rs_attempts s' x = rs_attempts s x" for n l
    unfolding inv_attempts_def
  proof (rule ballI)
    fix m assume m: "m \<in> set (cf_nodes cfg)"
    show "(rs_life s' (node_id m) = Some LPending \<longrightarrow> rs_attempts s' (node_id m) = None) \<and>
      (rs_life s' (node_id m) = Some LRunning \<longrightarrow> rs_attempts s' (node_id m) \<noteq> None) \<and>
      (\<forall>a. rs_attempts s' (node_id m) = Some a \<longrightarrow> 1 \<le> a \<and> a \<le> effective_max_attempts m)"
    proof (cases "node_id m = node_id n")
      case True
      then have "m = n" using same_node[OF assms(1) m that(1)] by simp
      then show ?thesis using that(2-5) by auto
    next
      case False
      then show ?thesis using au m that(2,6) by (simp add: inv_attempts_def)
    qed
  qed
  have pend: "rs_attempts s (node_id n) = None" if "n \<in> set (cf_nodes cfg)" "rs_life s (node_id n) = Some LPending" for n
    using au that by (simp add: inv_attempts_def)
  have run: "\<exists>a. rs_attempts s (node_id n) = Some a \<and> 1 \<le> a \<and> a \<le> effective_max_attempts n"
    if "n \<in> set (cf_nodes cfg)" "rs_life s (node_id n) = Some LRunning" for n
    using au that by (auto simp: inv_attempts_def)
  show ?thesis
    using assms(2)
  proof (cases rule: life_step.cases)
    case (Settle i n a l ok r es)
    note tr = task_removed[OF t Settle(1,2)]
    obtain b where b: "rs_attempts s (node_id n) = Some b" "1 \<le> b" "b \<le> effective_max_attempts n"
      using run[OF tr(1,2)] by blast
    show ?thesis
      by (rule step[OF tr(1) Settle(6)])
        (use Settle(3,4,11) b attempts_word[of a "effective_max_attempts n" "effective_max_attempts n"] in auto)
  next
    case (Retry i n a b es)
    note tr = task_removed[OF t Retry(1,2)]
    obtain c where b: "rs_attempts s (node_id n) = Some c" "1 \<le> c" "c \<le> effective_max_attempts n"
      using run[OF tr(1,2)] by blast
    show ?thesis
      by (rule step[OF tr(1) Retry(7)])
        (use Retry b attempts_word[of a "effective_max_attempts n" "effective_max_attempts n"] in auto)
  next
    case (Skip n r es)
    show ?thesis by (rule step[OF Skip(1,3)]) (use Skip pend[of n] in simp_all)
  next
    case (Gate n r es)
    show ?thesis by (rule step[of n LPaused]) (use Gate pend[of n] in \<open>simp_all add: ready_node_def\<close>)
  next
    case (Start n a es)
    show ?thesis by (rule step[of n LRunning])
       (use Start pend[of n] max_attempts_pos[of n] in \<open>simp_all add: ready_node_def\<close>)
  next
    case (Refuse n a r es)
    show ?thesis by (rule step[of n LFailed])
       (use Refuse pend[of n] max_attempts_pos[of n] in \<open>simp_all add: ready_node_def\<close>)
  qed
qed


text \<open>A dependency that did not succeed keeps its dependants waiting.\<close>

lemma blocked_child:
  assumes "inv_deps cfg s" "(d, x) \<in> child_rel (cf_nodes cfg)" "rs_life s d \<noteq> Some LSucceeded"
  shows "rs_life s x \<in> {Some LPending, Some LSkipped}"
proof -
  obtain m where m: "m \<in> set (cf_nodes cfg)" "node_id m = x" "d \<in> set (depends_on m)"
    using assms(2) unfolding child_rel_def by blast
  then have "\<not> deps_done (rs_life s) m" using assms(3) unfolding deps_done_def list_all_iff by blast
  then show ?thesis using assms(1) m unfolding inv_deps_def by blast
qed

lemma blocked_descendants:
  assumes "inv_deps cfg s" "rs_life s r \<noteq> Some LSucceeded" "x \<in> descendants (cf_nodes cfg) r"
  shows "rs_life s x \<in> {Some LPending, Some LSkipped} \<and>
    (\<exists>d. (d, x) \<in> child_rel (cf_nodes cfg) \<and> (d = r \<or> d \<in> descendants (cf_nodes cfg) r))"
proof -
  have "(r, x) \<in> (child_rel (cf_nodes cfg))\<^sup>+" using assms(3) by (simp add: descendants_def)
  then show ?thesis
  proof (induction rule: trancl_induct)
    case (base y)
    then show ?case using blocked_child[OF assms(1) base assms(2)] by blast
  next
    case (step y z)
    then have "rs_life s y \<noteq> Some LSucceeded" by auto
    with blocked_child[OF assms(1) step(2)] step show ?case by (auto simp: descendants_def)
  qed
qed

lemma tainted_descendants:
  assumes "taint_closed ns t" "x \<in> dom t"
  shows "descendants ns x \<subseteq> dom t"
proof
  fix y assume "y \<in> descendants ns x"
  then have "(x, y) \<in> (child_rel ns)\<^sup>+" by (simp add: descendants_def)
  then show "y \<in> dom t" by (induction rule: trancl_induct) (use assms in \<open>auto simp: taint_closed_def\<close>)
qed

lemma keep_taint:
  assumes "cfg_ok cfg" "life_step cfg s s'" "dag_inv cfg s"
  shows "inv_taint cfg s'"
proof -
  let ?ns = "cf_nodes cfg"
  note inv = dag_invD[OF assms(3)]
  note tu = inv(6)[unfolded inv_taint_def]
  have closed: "taint_closed ?ns (rs_taint s)" using tu by blast
  have d': "inv_deps cfg s'" by (rule keep_deps[OF assms])
  obtain n l where "moves cfg s s' n l" using life_step_target[OF assms(2) inv(2,3)] by (elim exE)
  then have l: "rs_life s' = (rs_life s)(node_id n \<mapsto> l)" "rs_life s (node_id n) \<in> {Some LPending, Some LRunning}"
    and n: "n \<in> set ?ns" "l = LSkipped \<or> deps_done (rs_life s) n"
    and abort: "rs_abort s' \<longleftrightarrow> rs_abort s \<or> l = LFailed \<and> is_fail_fast n"
    and cases: "rs_taint s' = rs_taint s \<and> (l \<in> {LFailed, LSkipped} \<longrightarrow>
        l = LSkipped \<and> (rs_abort s \<or> rs_taint s (node_id n) \<noteq> None)) \<or>
      rs_taint s' = propagate_taint ?ns (node_id n) (rs_taint s) \<and> l \<in> {LFailed, LSkipped}"
    by (auto simp: moves_def)
  have old: "rs_life s' x \<in> {Some LPending, Some LSkipped} \<and> rs_life s' r \<in> {Some LFailed, Some LSkipped}"
    if t: "rs_taint s x = Some r" for x r
  proof
    from tu t obtain d where d: "(d, x) \<in> child_rel ?ns" "d = r \<or> d \<in> dom (rs_taint s)"
      and r: "rs_life s x \<in> {Some LPending, Some LSkipped}" "rs_life s r \<in> {Some LFailed, Some LSkipped}"
      by blast
    have "rs_life s d \<in> {Some LFailed, Some LSkipped, Some LPending}" using d(2) r(2) tu by fastforce
    then have dn: "rs_life s d \<noteq> Some LSucceeded" by auto
    show "rs_life s' r \<in> {Some LFailed, Some LSkipped}" using r(2) l by auto
    show "rs_life s' x \<in> {Some LPending, Some LSkipped}"
    proof (cases "x = node_id n")
      case True
      have "\<not> deps_done (rs_life s) n"
      proof -
        obtain m where m: "m \<in> set ?ns" "node_id m = x" "d \<in> set (depends_on m)"
          using d(1) unfolding child_rel_def by blast
        then have "m = n" using same_node[OF assms(1) m(1) n(1)] True by simp
        with m dn show ?thesis unfolding deps_done_def list_all_iff by blast
      qed
      with n(2) l True show ?thesis by simp
    next
      case False
      with l r show ?thesis by simp
    qed
  qed
  show ?thesis
    using cases
  proof (elim disjE conjE)
    assume t: "rs_taint s' = rs_taint s"
      and sk: "l \<in> {LFailed, LSkipped} \<longrightarrow> l = LSkipped \<and> (rs_abort s \<or> rs_taint s (node_id n) \<noteq> None)"
    have desc: "descendants ?ns x \<subseteq> dom (rs_taint s)"
      if "rs_life s' x = Some LFailed \<or> rs_life s' x = Some LSkipped \<and> \<not> rs_abort s'" for x
    proof (cases "x = node_id n")
      case True
      then have "x \<in> dom (rs_taint s)" using that sk l(1) abort by auto
      then show ?thesis using tainted_descendants[OF closed] by blast
    next
      case False
      then show ?thesis using that l(1) abort tu by auto
    qed
    show ?thesis
      unfolding inv_taint_def t using tu old desc by blast
  next
    assume t: "rs_taint s' = propagate_taint ?ns (node_id n) (rs_taint s)" and f: "l \<in> {LFailed, LSkipped}"
    note ps = propagate_taint_spec[OF closed, of "node_id n", folded t]
    have lf: "rs_life s' (node_id n) \<in> {Some LFailed, Some LSkipped}" using l f by auto
    then have nf: "rs_life s' (node_id n) \<noteq> Some LSucceeded" by auto
    show ?thesis
      unfolding inv_taint_def
    proof (intro conjI allI impI)
      show "taint_closed ?ns (rs_taint s')" by (rule ps(3))
    next
      fix x r assume x: "rs_taint s' x = Some r"
      have "(rs_taint s x = Some r) \<or> (x \<in> descendants ?ns (node_id n) \<and> r = node_id n)"
        using x ps(2)[of x] by (auto split: if_splits)
      then show "x \<in> descendants ?ns r"
        "\<exists>d. (d, x) \<in> child_rel ?ns \<and> (d = r \<or> d \<in> dom (rs_taint s'))"
        "rs_life s' x \<in> {Some LPending, Some LSkipped}" "rs_life s' r \<in> {Some LFailed, Some LSkipped}"
        using tu old blocked_descendants[OF d' nf] lf unfolding ps(1) by blast+
    next
      fix x assume "rs_life s' x = Some LFailed \<or> rs_life s' x = Some LSkipped \<and> \<not> rs_abort s'"
      then show "descendants ?ns x \<subseteq> dom (rs_taint s')"
        using tu l(1) abort unfolding ps(1) by (cases "x = node_id n") auto
    qed
  qed
qed

lemma keep_abort:
  assumes "cfg_ok cfg" "life_step cfg s s'" "dag_inv cfg s"
  shows "inv_abort cfg s'"
proof -
  note inv = dag_invD[OF assms(3)]
  obtain n l where "moves cfg s s' n l" using life_step_target[OF assms(2) inv(2,3)] by (elim exE)
  then have l: "rs_life s' = (rs_life s)(node_id n \<mapsto> l)" "rs_life s (node_id n) \<noteq> Some LFailed"
    and n: "n \<in> set (cf_nodes cfg)" "rs_abort s' \<longleftrightarrow> rs_abort s \<or> l = LFailed \<and> is_fail_fast n"
    by (auto simp: moves_def)
  show ?thesis
    using inv(8) l n same_node[OF assms(1) _ n(1)] unfolding inv_abort_def by fastforce
qed

lemma split_append:
  "xs @ ys = us @ e # vs \<longleftrightarrow>
     (\<exists>vs'. xs = us @ e # vs' \<and> vs = vs' @ ys) \<or> (\<exists>us'. us = xs @ us' \<and> ys = us' @ e # vs)"
  by (auto simp: append_eq_append_conv2 append_eq_Cons_conv Cons_eq_append_conv)

definition starts_after :: "dag_cfg \<Rightarrow> dag_event list \<Rightarrow> bool" where
  "starts_after cfg log \<longleftrightarrow> (\<forall>us x a vs. log = us @ EvRunning x a # vs \<longrightarrow>
     (\<forall>n \<in> set (cf_nodes cfg). node_id n = x \<longrightarrow>
       (\<forall>d \<in> set (depends_on n). \<exists>b. EvFinished d b True \<in> set us)))"

lemma starts_after_append:
  assumes "starts_after cfg log"
    and "\<And>x a n d. EvRunning x a \<in> set es \<Longrightarrow> n \<in> set (cf_nodes cfg) \<Longrightarrow> node_id n = x \<Longrightarrow>
       d \<in> set (depends_on n) \<Longrightarrow> \<exists>b. EvFinished d b True \<in> set log"
  shows "starts_after cfg (log @ es)"
  unfolding starts_after_def
proof (intro allI impI ballI)
  fix us x a vs n d
  assume h: "log @ es = us @ EvRunning x a # vs" "n \<in> set (cf_nodes cfg)" "node_id n = x" "d \<in> set (depends_on n)"
  from h(1) consider vs' where "log = us @ EvRunning x a # vs'" | us' where "us = log @ us'" "es = us' @ EvRunning x a # vs"
    unfolding split_append by blast
  then show "\<exists>b. EvFinished d b True \<in> set us"
  proof cases
    case 1
    with assms(1) h show ?thesis unfolding starts_after_def by blast
  next
    case 2
    then have "EvRunning x a \<in> set es" by simp
    from assms(2)[OF this h(2-4)] 2 show ?thesis by auto
  qed
qed

lemma inv_log_iff:
  "inv_log cfg s \<longleftrightarrow>
     (\<forall>x. rs_life s x = Some LSucceeded \<longrightarrow> (\<exists>a. EvFinished x a True \<in> set (rs_log s))) \<and>
     (\<forall>x. rs_life s x \<in> {Some LRunning, Some LSucceeded} \<longrightarrow> (\<exists>a. EvRunning x a \<in> set (rs_log s))) \<and>
     starts_after cfg (rs_log s)"
  by (simp add: inv_log_def starts_after_def)

lemma quiet_no_start: "quiet es \<Longrightarrow> EvRunning x a \<notin> set es"
  by (auto simp: quiet_def)

lemma keep_log:
  assumes "cfg_ok cfg" "life_step cfg s s'" "dag_inv cfg s"
  shows "inv_log cfg s'"
proof -
  note inv = dag_invD[OF assms(3)]
  have fin: "\<exists>a. EvFinished x a True \<in> set (rs_log s)" if "rs_life s x = Some LSucceeded" for x
    using inv(7) that by (auto simp: inv_log_iff)
  have run: "\<exists>a. EvRunning x a \<in> set (rs_log s)" if "rs_life s x \<in> {Some LRunning, Some LSucceeded}" for x
    using inv(7) that unfolding inv_log_iff by blast
  have ord: "starts_after cfg (rs_log s)" using inv(7) by (simp add: inv_log_iff)
  have still: ?thesis
    if "rs_log s' = rs_log s @ es" "\<And>x a. EvRunning x a \<notin> set es" "rs_life s' = (rs_life s)(y \<mapsto> l)"
      "l = LSucceeded \<Longrightarrow> (\<exists>a. EvFinished y a True \<in> set es) \<and> rs_life s y = Some LRunning" "l \<noteq> LRunning" for es y l
    unfolding inv_log_iff that(1)
  proof (intro conjI)
    show "starts_after cfg (rs_log s @ es)" by (rule starts_after_append[OF ord]) (use that(2) in blast)
    show "\<forall>x. rs_life s' x \<in> {Some LRunning, Some LSucceeded} \<longrightarrow> (\<exists>a. EvRunning x a \<in> set (rs_log s @ es))"
    proof (intro allI impI)
      fix x assume "rs_life s' x \<in> {Some LRunning, Some LSucceeded}"
      then have "rs_life s x \<in> {Some LRunning, Some LSucceeded}"
        using that(3-5) by (cases "x = y") auto
      from run[OF this] show "\<exists>a. EvRunning x a \<in> set (rs_log s @ es)" by auto
    qed
    show "\<forall>x. rs_life s' x = Some LSucceeded \<longrightarrow> (\<exists>a. EvFinished x a True \<in> set (rs_log s @ es))"
    proof (intro allI impI)
      fix x assume "rs_life s' x = Some LSucceeded"
      then show "\<exists>a. EvFinished x a True \<in> set (rs_log s @ es)"
        using that(3,4) fin[of x] by (cases "x = y") auto
    qed
  qed
  have start: ?thesis
    if "rs_log s' = rs_log s @ es @ [EvRunning (node_id n) a]" "\<And>x a. EvRunning x a \<notin> set es"
      "rs_life s' = (rs_life s)(node_id n \<mapsto> LRunning)" "n \<in> set (cf_nodes cfg)" "deps_done (rs_life s) n" for es n a
  proof -
    have dd: "\<exists>b. EvFinished d b True \<in> set (rs_log s)"
      if "m \<in> set (cf_nodes cfg)" "node_id m = node_id n" "d \<in> set (depends_on m)" for m d
    proof -
      have "m = n" by (rule same_node[OF assms(1) that(1) \<open>n \<in> _\<close> that(2)])
      then show ?thesis using fin that(3) \<open>deps_done _ n\<close> by (auto simp: deps_done_def list_all_iff)
    qed
    have "starts_after cfg (rs_log s @ es @ [EvRunning (node_id n) a])"
      by (rule starts_after_append[OF ord]) (use that(2) dd in auto)
    moreover have "\<forall>x. rs_life s' x = Some LSucceeded \<longrightarrow> (\<exists>a. EvFinished x a True \<in> set (rs_log s'))"
      using that(3) fin unfolding that(1) by (auto split: if_splits)
    moreover have "\<forall>x. rs_life s' x \<in> {Some LRunning, Some LSucceeded} \<longrightarrow> (\<exists>a. EvRunning x a \<in> set (rs_log s'))"
    proof (intro allI impI)
      fix x assume x: "rs_life s' x \<in> {Some LRunning, Some LSucceeded}"
      show "\<exists>a. EvRunning x a \<in> set (rs_log s')"
      proof (cases "x = node_id n")
        case True
        then show ?thesis unfolding that(1) by auto
      next
        case False
        then have "rs_life s x \<in> {Some LRunning, Some LSucceeded}" using x that(3) by simp
        from run[OF this] show ?thesis unfolding that(1) by auto
      qed
    qed
    ultimately show ?thesis unfolding inv_log_iff that(1) by simp
  qed
  show ?thesis
    using assms(2)
  proof (cases rule: life_step.cases)
    case (Settle i n a l ok r es)
    show ?thesis
      by (rule still[OF Settle(14)[unfolded log_grows_def] _ Settle(6)])
        (use Settle quiet_no_start task_removed(2)[OF inv(2) Settle(1,2)] in auto)
  next
    case (Retry i n a b es)
    note tr = task_removed[OF inv(2) Retry(1,2)]
    have "deps_done (rs_life s) n" using inv(3) tr(1,2) by (simp add: inv_deps_def)
    then show ?thesis
      by (intro start[of "EvFinished (node_id n) a False # es" n b])
        (use Retry tr quiet_no_start in \<open>auto simp: log_grows_def\<close>)
  next
    case (Skip n r es)
    show ?thesis
      by (rule still[OF Skip(12)[unfolded log_grows_def] _ Skip(3)]) (use Skip quiet_no_start in auto)
  next
    case (Gate n r es)
    show ?thesis
      by (rule still[OF Gate(11)[unfolded log_grows_def] _ Gate(2)]) (use Gate quiet_no_start in auto)
  next
    case (Start n a es)
    show ?thesis
      by (rule start[of es n a]) (use Start quiet_no_start in \<open>auto simp: ready_node_def log_grows_def\<close>)
  next
    case (Refuse n a r es)
    show ?thesis
      by (rule still[OF Refuse(12)[unfolded log_grows_def] _ Refuse(4)]) (use Refuse quiet_no_start in auto)
  qed
qed

subsection \<open>Reachable states\<close>

lemma dag_inv_step:
  assumes "cfg_ok cfg" "life_step cfg s s'" "dag_inv cfg s"
  shows "dag_inv cfg s'"
  unfolding dag_inv_def
  using keep_life[OF assms(2,3)] keep_tasks[OF assms(2,3)] keep_deps[OF assms] keep_results[OF assms(2,3)]
    keep_attempts[OF assms] keep_taint[OF assms] keep_log[OF assms] keep_abort[OF assms]
  by blast

lemma dag_inv_steps:
  assumes "run_steps cfg env s s'" "cfg_ok cfg" "dag_inv cfg s"
  shows "dag_inv cfg s'"
  using assms(1,3)
  by (induction rule: rtranclp_induct) (auto intro: dag_inv_step[OF assms(2)] run_refines_life)

lemma init_lifecycle: "initialize_lifecycle ns x = (if x \<in> set (ids_of ns) then Some LPending else None)"
  by (induction ns) (auto simp: initialize_lifecycle_def ids_of_def)

lemma dag_inv_init: "dag_inv cfg (init_run cfg)"
  by (auto simp: dag_inv_def inv_defs init_run_def init_lifecycle taint_closed_def deps_done_def
      split: if_splits)

end
