(* ===== verification/Dag_Validation.thy ===== *)
theory Dag_Validation
  imports Topo_Sort
begin

text \<open>
  \<open>validate_parsed_dag\<close> of \<open>parser/validation.rs\<close>: the checks a plan passes before it is
  scheduled, in the order of the code, with the error each one raises. The check sequence is
  proved to accept exactly the well-formed plans, and the order it returns is the one of
  \<open>Topo_Sort\<close>.
\<close>

subsection \<open>Transitive ancestors\<close>

text \<open>The work list of \<open>compute_transitive_ancestors\<close>. The Rust \<open>Vec\<close> is popped at its end; here
  the top of the stack is the head of the list.\<close>

definition mentioned :: "dag_node list \<Rightarrow> string set" where
  "mentioned ns = (\<Union>n \<in> set ns. set (depends_on n))"

lemma finite_mentioned [simp]: "finite (mentioned ns)"
  by (simp add: mentioned_def)

lemma deps_of_mentioned: "set (deps_of ns x) \<subseteq> mentioned ns"
  by (cases "by_id_map ns x") (auto simp: deps_of_def mentioned_def dest: by_id_map_Some)

lemma case_by_id:
  "(case by_id_map ns x of None \<Rightarrow> [] | Some p \<Rightarrow> rev (filter P (depends_on p))) = rev (filter P (deps_of ns x))"
  by (cases "by_id_map ns x") (simp_all add: deps_of_def)

function anc_loop :: "dag_node list \<Rightarrow> string set \<Rightarrow> string list \<Rightarrow> string set" where
  "anc_loop ns acc [] = acc"
| "anc_loop ns acc (x # stack) =
     (if x \<in> acc then anc_loop ns acc stack
      else anc_loop ns (insert x acc)
        ((case by_id_map ns x of
            None \<Rightarrow> []
          | Some parent \<Rightarrow> rev (filter (\<lambda>p. p \<notin> insert x acc) (depends_on parent))) @ stack))"
  by pat_completeness auto

termination
proof (relation "inv_image (less_than <*lex*> less_than)
    (\<lambda>(ns, acc, stack). (card ((set stack \<union> mentioned ns) - acc), length stack))", goal_cases)
  case 1
  show ?case by (intro wf_inv_image wf_lex_prod wf_less_than)
next
  case (2 ns acc x stack)
  have "card ((set stack \<union> mentioned ns) - acc) \<le> card ((set (x # stack) \<union> mentioned ns) - acc)"
    by (rule card_mono) auto
  then show ?case by auto
next
  case (3 ns acc x stack)
  let ?new = "rev (filter (\<lambda>p. p \<notin> insert x acc) (deps_of ns x)) @ stack"
  have "(set ?new \<union> mentioned ns) - insert x acc \<subset> (set (x # stack) \<union> mentioned ns) - acc"
    using 3 deps_of_mentioned[of ns x] by auto
  then have "card ((set ?new \<union> mentioned ns) - insert x acc) < card ((set (x # stack) \<union> mentioned ns) - acc)"
    by (intro psubset_card_mono) auto
  then show ?case unfolding case_by_id by simp
qed

definition compute_transitive_ancestors :: "dag_node list \<Rightarrow> string \<rightharpoonup> string set" where
  "compute_transitive_ancestors ns =
     foldl (\<lambda>out n. out(node_id n \<mapsto> anc_loop ns {} (rev (depends_on n)))) Map.empty ns"

text \<open>The dependency relation of a plan and what the loop computes.\<close>

definition dep_rel :: "dag_node list \<Rightarrow> (string \<times> string) set" where
  "dep_rel ns = {(x, d). d \<in> set (deps_of ns x)}"

definition reach_from :: "dag_node list \<Rightarrow> string set \<Rightarrow> string set" where
  "reach_from ns S = {y. \<exists>s \<in> S. (s, y) \<in> (dep_rel ns)\<^sup>*}"

lemma anc_loop_extends: "acc \<union> set stack \<subseteq> anc_loop ns acc stack"
  by (induction ns acc stack rule: anc_loop.induct) (auto simp: case_by_id)

lemma anc_loop_bounded: "anc_loop ns acc stack \<subseteq> acc \<union> reach_from ns (set stack)"
proof (induction ns acc stack rule: anc_loop.induct)
  case (1 ns acc)
  then show ?case by simp
next
  case (2 ns acc x stack)
  have x: "x \<in> reach_from ns (set (x # stack))" by (auto simp: reach_from_def)
  have st: "reach_from ns (set stack) \<subseteq> reach_from ns (set (x # stack))"
    by (auto simp: reach_from_def)
  have dep: "reach_from ns (set (deps_of ns x)) \<subseteq> reach_from ns (set (x # stack))"
    by (auto simp: reach_from_def dep_rel_def intro: converse_rtrancl_into_rtrancl)
  show ?case
  proof (cases "x \<in> acc")
    case True
    then show ?thesis using "2.IH"(1) st by auto
  next
    case False
    let ?new = "rev (filter (\<lambda>p. p \<notin> insert x acc) (deps_of ns x)) @ stack"
    have "reach_from ns (set ?new) \<subseteq> reach_from ns (set (deps_of ns x)) \<union> reach_from ns (set stack)"
      by (auto simp: reach_from_def)
    then show ?thesis
      using "2.IH"(2)[OF False] False x st dep unfolding case_by_id
      by (simp add: case_by_id) blast
  qed
qed

lemma anc_loop_closed:
  "(\<And>x. x \<in> acc \<Longrightarrow> set (deps_of ns x) \<subseteq> acc \<union> set stack) \<Longrightarrow> x \<in> anc_loop ns acc stack \<Longrightarrow>
     set (deps_of ns x) \<subseteq> anc_loop ns acc stack"
proof (induction ns acc stack rule: anc_loop.induct)
  case (1 ns acc)
  then show ?case by auto
next
  case (2 ns acc y stack)
  show ?case
  proof (cases "y \<in> acc")
    case True
    have "set (deps_of ns z) \<subseteq> acc \<union> set stack" if "z \<in> acc" for z
      using "2.prems"(1)[OF that] True by auto
    with "2.IH"(1)[OF True] "2.prems"(2) True show ?thesis by simp
  next
    case False
    let ?new = "rev (filter (\<lambda>p. p \<notin> insert y acc) (deps_of ns y)) @ stack"
    have "set (deps_of ns z) \<subseteq> insert y acc \<union> set ?new" if "z \<in> insert y acc" for z
      using "2.prems"(1)[of z] that by auto
    with "2.IH"(2)[OF False] "2.prems"(2) False show ?thesis by (simp add: case_by_id)
  qed
qed

lemma anc_loop_reach: "anc_loop ns {} stack = reach_from ns (set stack)"
proof
  show "anc_loop ns {} stack \<subseteq> reach_from ns (set stack)" using anc_loop_bounded[of ns "{}" stack] by simp
  show "reach_from ns (set stack) \<subseteq> anc_loop ns {} stack"
  proof
    fix y assume "y \<in> reach_from ns (set stack)"
    then obtain s where s: "s \<in> set stack" "(s, y) \<in> (dep_rel ns)\<^sup>*" by (auto simp: reach_from_def)
    from s(2) show "y \<in> anc_loop ns {} stack"
    proof (induction rule: rtrancl_induct)
      case base
      then show ?case using s(1) anc_loop_extends[of "{}" stack ns] by auto
    next
      case (step y z)
      then show ?case using anc_loop_closed[of "{}" ns stack y] by (auto simp: dep_rel_def)
    qed
  qed
qed

lemma reach_from_deps: "reach_from ns (set (deps_of ns x)) = {y. (x, y) \<in> (dep_rel ns)\<^sup>+}"
  by (auto simp: reach_from_def dep_rel_def intro: rtrancl_into_trancl2 dest: tranclD)

lemma ancestors_val:
  assumes u: "unique_ids ns" and n: "n \<in> set ns"
  shows "compute_transitive_ancestors ns (node_id n) = Some {y. (node_id n, y) \<in> (dep_rel ns)\<^sup>+}"
proof -
  let ?A = "\<lambda>n. anc_loop ns {} (rev (depends_on n))"
  have "foldl (\<lambda>out n. out(node_id n \<mapsto> ?A n)) m ms (node_id n) = Some (?A n)"
    if "distinct (map node_id ms)" "n \<in> set ms" for m ms
    using that
  proof (induction ms arbitrary: m)
    case Nil
    then show ?case by simp
  next
    case (Cons a ms)
    have keep: "foldl (\<lambda>out n. out(node_id n \<mapsto> ?A n)) m' ms' x = m' x"
      if "x \<notin> node_id ` set ms'" for m' ms' x
      using that by (induction ms' arbitrary: m') auto
    show ?case
    proof (cases "n \<in> set ms")
      case True
      with Cons show ?thesis by simp
    next
      case False
      with Cons.prems have "n = a" "node_id n \<notin> node_id ` set ms" by auto
      with keep[of "node_id n" ms "m(node_id a \<mapsto> ?A a)"] show ?thesis
        by (simp del: fun_upd_apply) simp
    qed
  qed
  then have "compute_transitive_ancestors ns (node_id n) = Some (?A n)"
    using u n by (simp add: compute_transitive_ancestors_def unique_ids_def ids_of_def)
  then show ?thesis
    using anc_loop_reach[of ns "rev (depends_on n)"] reach_from_deps[of ns "node_id n"] deps_of_node[OF u n]
    by simp
qed


subsection \<open>The checks, in the order of the code\<close>

fun check_unique_ids :: "string set \<Rightarrow> dag_node list \<Rightarrow> dag_build_error + unit" where
  "check_unique_ids seen [] = Inr ()"
| "check_unique_ids seen (n # ns) =
     (if node_id n \<in> seen then Inl (DuplicateId (node_id n))
      else check_unique_ids (insert (node_id n) seen) ns)"

definition check_retry_hint :: "dag_node \<Rightarrow> dag_build_error + unit" where
  "check_retry_hint n =
     (case retry_parse_error n of
        None \<Rightarrow> Inr ()
      | Some (key, raw, detail) \<Rightarrow> Inl (InvalidRetryHint (node_id n) key raw detail))"

definition check_dep :: "string set \<Rightarrow> dag_node \<Rightarrow> string \<Rightarrow> dag_build_error + unit" where
  "check_dep id_set n dep =
     bind_res (fail_if (dep = node_id n) (SelfDependency (node_id n))) (\<lambda>_.
       fail_if (dep \<notin> id_set) (DependencyMissing (node_id n) dep))"

definition check_target_deps :: "string set \<Rightarrow> dag_node \<Rightarrow> dag_build_error + unit" where
  "check_target_deps id_set n =
     bind_res (fail_if (target n \<notin> set VALID_TARGETS) (InvalidTarget (node_id n) (target n))) (\<lambda>_.
       each_res (check_dep id_set n) (depends_on n))"

definition fan_in_undeclared :: "dag_node \<Rightarrow> bool" where
  "fan_in_undeclared n \<longleftrightarrow>
     acceptance_depends_on n = [] \<and> blank (acceptance_requires_raw n)
     \<and> blank (acceptance_source_node n)"

definition check_fan_in_requires :: "dag_node \<Rightarrow> dag_build_error + unit" where
  "check_fan_in_requires n =
     (if acceptance_depends_on n \<noteq> [] then
        fail_if (acceptance_requires_kind n = None)
          (AcceptanceFanInRequiresMissing (node_id n) (acceptance_requires_raw n))
      else
        fail_if (acceptance_source_node n \<noteq> None \<or> \<not> blank (acceptance_requires_raw n))
          (AcceptanceFanInRequiresMissing (node_id n)
             (Some ''fan-in declared without :acceptance-depends-on'')))"

definition check_fan_in_source :: "string set \<Rightarrow> dag_node \<Rightarrow> dag_build_error + unit" where
  "check_fan_in_source id_set n =
     bind_res
       (case acceptance_source_node n of
          None \<Rightarrow> Inr ()
        | Some src_raw \<Rightarrow>
            (let src = trim src_raw
             in bind_res (fail_if (src = [])
                    (AcceptanceSourceNodeInvalid (node_id n) ''value is empty'')) (\<lambda>_.
                  bind_res (fail_if (src \<notin> id_set)
                    (AcceptanceSourceNodeInvalid (node_id n)
                       (''`'' @ src @ ''` is not declared in this plan''))) (\<lambda>_.
                  fail_if (src \<notin> set (acceptance_depends_on n))
                    (AcceptanceSourceNodeInvalid (node_id n)
                       (''`'' @ src @ ''` must also appear in this node's `:acceptance-depends-on`'')))))) (\<lambda>_.
       fail_if (acceptance_requires_kind n = Some RequiresEvidenceKeys \<and> acceptance_source_node n = None)
         (AcceptanceSourceNodeInvalid (node_id n)
            '':acceptance-requires \"evidence_keys\" requires `:acceptance-source-node`''))"

definition check_fan_in_ancestors ::
  "(string \<rightharpoonup> string set) \<Rightarrow> dag_node \<Rightarrow> dag_build_error + unit" where
  "check_fan_in_ancestors ancestors n =
     (case ancestors (node_id n) of
        None \<Rightarrow> Inr ()
      | Some anc \<Rightarrow>
          each_res (\<lambda>dep. fail_if (dep \<notin> anc) (AcceptanceFanInDepNotAncestor (node_id n) dep))
            (acceptance_depends_on n))"

definition check_fan_in ::
  "string set \<Rightarrow> (string \<rightharpoonup> string set) \<Rightarrow> dag_node \<Rightarrow> dag_build_error + unit" where
  "check_fan_in id_set ancestors n =
     (if fan_in_undeclared n then Inr ()
      else bind_res
        (each_res (\<lambda>dep. fail_if (dep \<notin> id_set) (AcceptanceDependencyMissing (node_id n) dep))
           (acceptance_depends_on n)) (\<lambda>_.
        bind_res (check_fan_in_requires n) (\<lambda>_.
        bind_res (check_fan_in_source id_set n) (\<lambda>_.
        check_fan_in_ancestors ancestors n))))"

definition check_compensate :: "(string \<rightharpoonup> dag_node) \<Rightarrow> dag_node \<Rightarrow> dag_build_error + unit" where
  "check_compensate by_id n =
     (case compensate_node n of
        None \<Rightarrow> Inr ()
      | Some raw \<Rightarrow>
          (let trimmed = trim raw
           in if trimmed = [] then
                Inl (CompensateNodeInvalid (node_id n) ''compensate-node'' raw ''value is empty'')
              else if trimmed = node_id n then
                Inl (CompensateNodeInvalid (node_id n) ''compensate-node'' raw
                  (''names the failing node itself (`'' @ node_id n
                     @ ''`); a node cannot be its own compensation''))
              else
                (case by_id trimmed of
                   None \<Rightarrow>
                     Inl (CompensateNodeInvalid (node_id n) ''compensate-node'' raw
                       (''`'' @ trimmed @ ''` is not declared in this plan''))
                 | Some cnode \<Rightarrow>
                     (case compensates cnode of
                        None \<Rightarrow> Inr ()
                      | Some reverse_raw \<Rightarrow>
                          (let reverse = trim reverse_raw
                           in fail_if (reverse \<noteq> [] \<and> to_lower reverse \<noteq> to_lower (node_id n))
                                (CompensateDirectionMismatch (node_id n) (node_id cnode) reverse))))))"

definition check_plan_basic :: "dag_node list \<Rightarrow> dag_build_error + unit" where
  "check_plan_basic ns =
     bind_res (fail_if (ns = []) NoNodes) (\<lambda>_.
     bind_res (check_unique_ids {} ns) (\<lambda>_.
     bind_res (each_res check_retry_hint ns) (\<lambda>_.
     each_res (check_target_deps (set (ids_of ns))) ns)))"

definition check_plan_hints :: "dag_node list \<Rightarrow> dag_build_error + unit" where
  "check_plan_hints ns =
     bind_res (each_res (check_fan_in (set (ids_of ns)) (compute_transitive_ancestors ns)) ns) (\<lambda>_.
     each_res (check_compensate (by_id_map ns)) ns)"

definition validate_parsed_dag ::
  "parsed_dag \<Rightarrow> (dag_build_error + parsed_dag \<times> string list) option" where
  "validate_parsed_dag parsed =
     (case check_plan_basic (nodes parsed) of
        Inl e \<Rightarrow> Some (Inl e)
      | Inr _ \<Rightarrow>
          (case kahn_topo_sort (nodes parsed) of
             None \<Rightarrow> None
           | Some (Inl e) \<Rightarrow> Some (Inl e)
           | Some (Inr order) \<Rightarrow>
               Some (bind_res (check_plan_hints (nodes parsed)) (\<lambda>_. Inr (parsed, order)))))"

subsection \<open>What acceptance means\<close>

definition fan_in_ok :: "dag_node list \<Rightarrow> dag_node \<Rightarrow> bool" where
  "fan_in_ok ns n \<longleftrightarrow> fan_in_undeclared n \<or>
     (acceptance_depends_on n \<noteq> [] \<and> acceptance_requires_kind n \<noteq> None
      \<and> (\<forall>d \<in> set (acceptance_depends_on n). (node_id n, d) \<in> (dep_rel ns)\<^sup>+)
      \<and> (case acceptance_source_node n of
           None \<Rightarrow> acceptance_requires_kind n \<noteq> Some RequiresEvidenceKeys
         | Some src \<Rightarrow> trim src \<noteq> [] \<and> trim src \<in> set (acceptance_depends_on n)))"

definition compensate_ok :: "dag_node list \<Rightarrow> dag_node \<Rightarrow> bool" where
  "compensate_ok ns n \<longleftrightarrow>
     (case compensate_node n of
        None \<Rightarrow> True
      | Some raw \<Rightarrow>
          trim raw \<noteq> [] \<and> trim raw \<noteq> node_id n \<and>
          (\<exists>cnode. by_id_map ns (trim raw) = Some cnode \<and>
             (\<forall>back. compensates cnode = Some back \<longrightarrow>
                trim back = [] \<or> to_lower (trim back) = to_lower (node_id n))))"

definition well_formed_plan :: "dag_node list \<Rightarrow> bool" where
  "well_formed_plan ns \<longleftrightarrow>
     ns \<noteq> [] \<and> unique_ids ns \<and> (\<forall>n \<in> set ns. retry_parse_error n = None) \<and>
     (\<forall>n \<in> set ns. target n \<in> set VALID_TARGETS) \<and>
     (\<forall>n \<in> set ns. \<forall>d \<in> set (depends_on n). d \<noteq> node_id n \<and> d \<in> set (ids_of ns)) \<and>
     (\<exists>w. topo_order ns w) \<and>
     (\<forall>n \<in> set ns. fan_in_ok ns n) \<and> (\<forall>n \<in> set ns. compensate_ok ns n)"

lemma check_unique_ids_Inr:
  "check_unique_ids seen ns = Inr u \<longleftrightarrow> unique_ids ns \<and> set (ids_of ns) \<inter> seen = {}"
  by (induction seen ns rule: check_unique_ids.induct) (auto simp: unique_ids_def ids_of_def)

lemma check_retry_hint_Inr: "check_retry_hint n = Inr u \<longleftrightarrow> retry_parse_error n = None"
  by (auto simp: check_retry_hint_def split: option.splits)

lemma check_target_deps_Inr:
  "check_target_deps ids n = Inr u \<longleftrightarrow>
     target n \<in> set VALID_TARGETS \<and> (\<forall>d \<in> set (depends_on n). d \<noteq> node_id n \<and> d \<in> ids)"
  by (auto simp: check_target_deps_def check_dep_def rust_simps)

lemma check_compensate_Inr:
  "check_compensate (by_id_map ns) n = Inr u \<longleftrightarrow> compensate_ok ns n"
  by (auto simp: check_compensate_def compensate_ok_def Let_def rust_simps split: option.splits)

lemma dep_rel_ids:
  assumes "\<forall>n \<in> set ns. \<forall>d \<in> set (depends_on n). d \<in> set (ids_of ns)"
    and "(x, y) \<in> (dep_rel ns)\<^sup>+"
  shows "y \<in> set (ids_of ns)"
  using assms(2)
proof (induction rule: trancl_induct)
  case (base y)
  then show ?case using assms(1) deps_of_mentioned[of ns x] by (auto simp: dep_rel_def mentioned_def)
next
  case (step y z)
  then show ?case using assms(1) deps_of_mentioned[of ns y] by (auto simp: dep_rel_def mentioned_def)
qed

lemma check_fan_in_Inr:
  assumes u: "unique_ids ns" and n: "n \<in> set ns"
    and closed: "\<forall>n \<in> set ns. \<forall>d \<in> set (depends_on n). d \<in> set (ids_of ns)"
  shows "check_fan_in (set (ids_of ns)) (compute_transitive_ancestors ns) n = Inr () \<longleftrightarrow> fan_in_ok ns n"
proof -
  let ?D = "acceptance_depends_on n"
  have anc: "check_fan_in_ancestors (compute_transitive_ancestors ns) n = Inr () \<longleftrightarrow>
      (\<forall>d \<in> set ?D. (node_id n, d) \<in> (dep_rel ns)\<^sup>+)"
    by (simp add: check_fan_in_ancestors_def ancestors_val[OF u n] rust_simps)
  have mem: "(\<forall>d \<in> set ?D. (node_id n, d) \<in> (dep_rel ns)\<^sup>+) \<Longrightarrow> set ?D \<subseteq> set (ids_of ns)"
    using dep_rel_ids[OF closed] by blast
  have src: "check_fan_in_source (set (ids_of ns)) n = Inr () \<longleftrightarrow>
      (case acceptance_source_node n of
         None \<Rightarrow> acceptance_requires_kind n \<noteq> Some RequiresEvidenceKeys
       | Some s \<Rightarrow> trim s \<noteq> [] \<and> trim s \<in> set (ids_of ns) \<and> trim s \<in> set ?D)"
    by (auto simp: check_fan_in_source_def Let_def rust_simps split: option.splits)
  have req: "check_fan_in_requires n = Inr () \<longleftrightarrow>
      (if ?D \<noteq> [] then acceptance_requires_kind n \<noteq> None
       else acceptance_source_node n = None \<and> blank (acceptance_requires_raw n))"
    by (simp add: check_fan_in_requires_def rust_simps)
  show ?thesis
  proof (cases "fan_in_undeclared n")
    case True
    then show ?thesis by (simp add: check_fan_in_def fan_in_ok_def)
  next
    case False
    have chk: "check_fan_in (set (ids_of ns)) (compute_transitive_ancestors ns) n = Inr () \<longleftrightarrow>
        set ?D \<subseteq> set (ids_of ns) \<and> check_fan_in_requires n = Inr ()
        \<and> check_fan_in_source (set (ids_of ns)) n = Inr ()
        \<and> check_fan_in_ancestors (compute_transitive_ancestors ns) n = Inr ()"
      using False by (auto simp: check_fan_in_def rust_simps simp del: set_ids_of)
    show ?thesis
    proof (cases "?D = []")
      case True
      then have "blank (acceptance_requires_raw n) \<Longrightarrow> acceptance_source_node n \<noteq> None"
        using False by (cases "acceptance_source_node n") (auto simp: fan_in_undeclared_def blank_def)
      then show ?thesis using True False by (auto simp: chk req fan_in_ok_def simp del: set_ids_of)
    next
      case ne: False
      then show ?thesis
        using False mem by (auto simp: chk req src anc fan_in_ok_def simp del: set_ids_of split: option.splits)
    qed
  qed
qed

definition plan_basic_ok :: "dag_node list \<Rightarrow> bool" where
  "plan_basic_ok ns \<longleftrightarrow> ns \<noteq> [] \<and> unique_ids ns \<and> (\<forall>n \<in> set ns. retry_parse_error n = None) \<and>
     (\<forall>n \<in> set ns. target n \<in> set VALID_TARGETS) \<and>
     (\<forall>n \<in> set ns. \<forall>d \<in> set (depends_on n). d \<noteq> node_id n \<and> d \<in> set (ids_of ns))"

lemma check_plan_basic_Inr: "check_plan_basic ns = Inr u \<longleftrightarrow> plan_basic_ok ns"
  by (auto simp: check_plan_basic_def plan_basic_ok_def rust_simps check_unique_ids_Inr
      check_retry_hint_Inr check_target_deps_Inr simp del: set_ids_of)

lemma check_plan_hints_Inr:
  assumes "plan_basic_ok ns"
  shows "check_plan_hints ns = Inr u \<longleftrightarrow>
     (\<forall>n \<in> set ns. fan_in_ok ns n) \<and> (\<forall>n \<in> set ns. compensate_ok ns n)"
proof -
  have u: "unique_ids ns" and closed: "\<forall>n \<in> set ns. \<forall>d \<in> set (depends_on n). d \<in> set (ids_of ns)"
    using assms by (auto simp: plan_basic_ok_def)
  show ?thesis
    using check_fan_in_Inr[OF u _ closed]
    by (auto simp: check_plan_hints_def rust_simps check_compensate_Inr simp del: set_ids_of)
qed

lemma well_formed_plan_split:
  "well_formed_plan ns \<longleftrightarrow> plan_basic_ok ns \<and> (\<exists>w. topo_order ns w) \<and>
     (\<forall>n \<in> set ns. fan_in_ok ns n) \<and> (\<forall>n \<in> set ns. compensate_ok ns n)"
  by (auto simp: well_formed_plan_def plan_basic_ok_def)

lemma validate_accepts_iff:
  "validate_parsed_dag p = Some (Inr (q, order)) \<longleftrightarrow>
     q = p \<and> well_formed_plan (nodes p) \<and> kahn_topo_sort (nodes p) = Some (Inr order)"
proof (cases "check_plan_basic (nodes p)")
  case (Inl e)
  then have "\<not> plan_basic_ok (nodes p)" using check_plan_basic_Inr[of "nodes p" "()"] by auto
  with Inl show ?thesis by (simp add: validate_parsed_dag_def well_formed_plan_split)
next
  case (Inr u)
  then have b: "plan_basic_ok (nodes p)" by (simp add: check_plan_basic_Inr)
  then have u: "unique_ids (nodes p)" by (simp add: plan_basic_ok_def)
  show ?thesis
  proof (cases rule: kahn_cases[OF u])
    case (1 w)
    then show ?thesis
      using Inr b check_plan_hints_Inr[OF b]
      by (cases "check_plan_hints (nodes p)") (auto simp: validate_parsed_dag_def well_formed_plan_split)
  next
    case (2 ok left)
    then show ?thesis using Inr by (simp add: validate_parsed_dag_def)
  qed
qed

lemma validate_total: "validate_parsed_dag p \<noteq> None"
proof (cases "check_plan_basic (nodes p)")
  case (Inl e)
  then show ?thesis by (simp add: validate_parsed_dag_def)
next
  case (Inr u)
  then have "unique_ids (nodes p)" by (simp add: check_plan_basic_Inr plan_basic_ok_def)
  from kahn_no_panic[OF this] Inr show ?thesis
    by (auto simp: validate_parsed_dag_def split: sum.splits)
qed

end
