(* ===== verification/Dag_Contract.thy ===== *)
theory Dag_Contract
  imports Dag_Validation Lisp_List
begin

text \<open>
  \<open>build_validated_dag_from_contract_json\<close>: reading the nodes of a compiled plan contract
  (\<open>missiond.plan-contract.v2\<close>) out of JSON, the production entry of the DAG parser
  (\<open>parser/validation.rs\<close>). Every accessor reports a field of the wrong type as
  \<open>InvalidContract\<close> with the message of the code. \<open>render\<close> is \<open>serde_json\<close>'s text of an object,
  which one fallback of \<open>unsupported_fields\<close> prints.
\<close>

definition field_msg :: "nat \<Rightarrow> string \<Rightarrow> string \<Rightarrow> dag_build_error" where
  "field_msg idx key what =
     InvalidContract (''payload.nodes['' @ show_nat idx @ ''].'' @ key @ '' '' @ what)"

definition non_empty :: "string \<Rightarrow> string option" where
  "non_empty v = (let t = trim v in if t = [] then None else Some t)"

definition optional_string :: "json \<Rightarrow> string \<Rightarrow> nat \<Rightarrow> dag_build_error + string option" where
  "optional_string node key idx =
     (case j_get node key of
        None \<Rightarrow> Inr None
      | Some JNull \<Rightarrow> Inr None
      | Some (JString raw) \<Rightarrow> Inr (non_empty raw)
      | Some (JBool b) \<Rightarrow> Inr (Some (show_bool b))
      | Some (JInt i) \<Rightarrow> Inr (Some (show_int i))
      | Some (JFloat t) \<Rightarrow> Inr (Some t)
      | Some _ \<Rightarrow> Inl (field_msg idx key ''must be a scalar or null''))"

definition required_string :: "json \<Rightarrow> string \<Rightarrow> nat \<Rightarrow> dag_build_error + string" where
  "required_string node key idx =
     bind_res (optional_string node key idx) (\<lambda>v.
       case Option.bind v non_empty of
         None \<Rightarrow> Inl (field_msg idx key ''must be a non-empty string'')
       | Some s \<Rightarrow> Inr s)"

definition scalar_text :: "string \<Rightarrow> nat \<Rightarrow> json \<Rightarrow> dag_build_error + string" where
  "scalar_text key idx v =
     (case v of
        JString raw \<Rightarrow> Inr (trim raw)
      | JBool b \<Rightarrow> Inr (show_bool b)
      | JInt i \<Rightarrow> Inr (show_int i)
      | JFloat t \<Rightarrow> Inr t
      | _ \<Rightarrow> Inl (field_msg idx key ''must be an array of scalars''))"

text \<open>The \<open>filter_map\<close> that drops empty strings runs before \<open>collect\<close> stops at the first error.\<close>

fun collect_texts :: "(json \<Rightarrow> dag_build_error + string) \<Rightarrow> json list \<Rightarrow> dag_build_error + string list" where
  "collect_texts f [] = Inr []"
| "collect_texts f (v # vs) =
     bind_res (f v) (\<lambda>s. bind_res (collect_texts f vs) (\<lambda>ss.
       Inr (if s = [] then ss else s # ss)))"

definition string_vec :: "json \<Rightarrow> string \<Rightarrow> nat \<Rightarrow> dag_build_error + string list" where
  "string_vec node key idx =
     (case j_get node key of
        None \<Rightarrow> Inr []
      | Some JNull \<Rightarrow> Inr []
      | Some (JArray vs) \<Rightarrow> collect_texts (scalar_text key idx) vs
      | Some _ \<Rightarrow> Inl (field_msg idx key ''must be an array''))"

definition raw_string_list :: "json \<Rightarrow> string \<Rightarrow> nat \<Rightarrow> dag_build_error + string option" where
  "raw_string_list node key idx =
     bind_res (string_vec node key idx) (\<lambda>vs.
       Inr (if vs = [] then None else Some (lisp_string_list vs)))"

definition optional_i64 :: "json \<Rightarrow> string \<Rightarrow> nat \<Rightarrow> dag_build_error + int option" where
  "optional_i64 node key idx =
     (case j_get node key of
        None \<Rightarrow> Inr None
      | Some JNull \<Rightarrow> Inr None
      | Some (JInt i) \<Rightarrow>
          (case as_i64 (JInt i) of
             None \<Rightarrow> Inl (field_msg idx key ''must be an integer'')
           | Some n \<Rightarrow> Inr (Some n))
      | Some (JFloat _) \<Rightarrow> Inl (field_msg idx key ''must be an integer'')
      | Some (JString raw) \<Rightarrow>
          (if trim raw = [] then Inr None
           else (case parse_i64 (trim raw) of
                   Inl e \<Rightarrow> Inl (field_msg idx key (''must be an integer: '' @ int_error_text e))
                 | Inr n \<Rightarrow> Inr (Some n)))
      | Some _ \<Rightarrow> Inl (field_msg idx key ''must be an integer or null''))"

definition optional_u32 :: "json \<Rightarrow> string \<Rightarrow> nat \<Rightarrow> dag_build_error + u32 option" where
  "optional_u32 node key idx =
     bind_res (optional_i64 node key idx) (\<lambda>v.
       case v of
         None \<Rightarrow> Inr None
       | Some n \<Rightarrow>
           if 0 \<le> n then Inr (Some (word_of_int (min n 4294967295)))
           else Inl (field_msg idx key ''must be non-negative''))"

definition optional_u64 :: "json \<Rightarrow> string \<Rightarrow> nat \<Rightarrow> dag_build_error + u64 option" where
  "optional_u64 node key idx =
     bind_res (optional_i64 node key idx) (\<lambda>v.
       case v of
         None \<Rightarrow> Inr None
       | Some n \<Rightarrow>
           if 0 \<le> n then Inr (Some (word_of_int n))
           else Inl (field_msg idx key ''must be non-negative''))"

definition retry_parse_error_from_contract ::
  "json \<Rightarrow> nat \<Rightarrow> dag_build_error + (string \<times> string \<times> string) option" where
  "retry_parse_error_from_contract node idx =
     (case j_get node ''retry_parse_error'' of
        None \<Rightarrow> Inr None
      | Some v \<Rightarrow>
          if is_null v then Inr None
          else (case as_object v of
                  None \<Rightarrow> Inl (field_msg idx ''retry_parse_error'' ''must be an object or null'')
                | Some fs \<Rightarrow>
                    Inr (Some
                      (unwrap_or (opt_bind_str (map_of fs ''key'')) ''retry-count'',
                       unwrap_or (opt_bind_str (map_of fs ''raw'')) '''',
                       unwrap_or (opt_bind_str (map_of fs ''detail'')) ''invalid retry hint''))))"

fun contract_value_to_string :: "(json \<Rightarrow> string) \<Rightarrow> json \<Rightarrow> string" where
  "contract_value_to_string render JNull = []"
| "contract_value_to_string render (JString raw) = raw"
| "contract_value_to_string render (JBool b) = show_bool b"
| "contract_value_to_string render (JInt i) = show_int i"
| "contract_value_to_string render (JFloat t) = t"
| "contract_value_to_string render (JArray vs) =
     lisp_string_list (map (contract_value_to_string render) vs)"
| "contract_value_to_string render (JObject fs) = render (JObject fs)"

definition unsupported_field ::
  "(json \<Rightarrow> string) \<Rightarrow> nat \<Rightarrow> nat \<times> json \<Rightarrow> dag_build_error + string \<times> string" where
  "unsupported_field render idx iv =
     (case iv of (field_idx, value) \<Rightarrow>
        let at = ''unsupported_fields['' @ show_nat field_idx @ '']'' in
        case as_object value of
          None \<Rightarrow> Inl (field_msg idx at ''must be an object'')
        | Some fs \<Rightarrow>
            (case opt_bind_str (map_of fs ''key'') of
               None \<Rightarrow> Inl (field_msg idx (at @ ''.key'') ''must be a string'')
             | Some k \<Rightarrow>
                 Inr (dropWhile (\<lambda>c. c = CHR '':'') (trim k),
                      (case map_of fs ''value'' of
                         None \<Rightarrow> []
                       | Some v \<Rightarrow> contract_value_to_string render v))))"

definition unsupported_fields_from_contract ::
  "(json \<Rightarrow> string) \<Rightarrow> json \<Rightarrow> nat \<Rightarrow> dag_build_error + (string \<times> string) list" where
  "unsupported_fields_from_contract render node idx =
     (case j_get node ''unsupported_fields'' of
        None \<Rightarrow> Inr []
      | Some v \<Rightarrow>
          if is_null v then Inr []
          else (case as_array v of
                  None \<Rightarrow> Inl (field_msg idx ''unsupported_fields'' ''must be an array'')
                | Some vs \<Rightarrow> collect_res (unsupported_field render idx) (enumerate 0 vs)))"

definition scalar_to_string :: "json \<Rightarrow> string option" where
  "scalar_to_string v =
     (case v of
        JString raw \<Rightarrow> Some raw
      | JBool b \<Rightarrow> Some (show_bool b)
      | JInt i \<Rightarrow> Some (show_int i)
      | JFloat t \<Rightarrow> Some t
      | _ \<Rightarrow> None)"

definition add_unknown_enum ::
  "json \<Rightarrow> string \<Rightarrow> (string \<Rightarrow> bool) \<Rightarrow> (string \<times> string) list \<Rightarrow> (string \<times> string) list" where
  "add_unknown_enum node key valid ufs =
     (case Option.bind (j_get node key) scalar_to_string of
        None \<Rightarrow> ufs
      | Some raw \<Rightarrow>
          if trim raw = [] \<or> valid (trim raw) then ufs
          else if (key, trim raw) \<in> set ufs then ufs
          else ufs @ [(key, trim raw)])"

definition known_review_gate :: "string \<Rightarrow> bool" where
  "known_review_gate raw \<longleftrightarrow>
     to_lower (trim raw) \<in> {[], ''none'', ''question-event'', ''question_event''}"

definition known_execution_order :: "string \<Rightarrow> bool" where
  "known_execution_order raw \<longleftrightarrow>
     to_lower (trim raw) \<in> {[], ''serial'', ''parallel'', ''serial-after-dependencies'',
       ''serial_after_dependencies''}"

definition flag_unknown_enums :: "json \<Rightarrow> (string \<times> string) list \<Rightarrow> (string \<times> string) list" where
  "flag_unknown_enums node ufs =
     (let ufs = add_unknown_enum node ''acceptance_mode'' (\<lambda>r. parse_acceptance_mode r \<noteq> None) ufs;
          ufs = add_unknown_enum node ''acceptance_requires'' (\<lambda>r. parse_acceptance_requires r \<noteq> None) ufs;
          ufs = add_unknown_enum node ''review_gate'' known_review_gate ufs;
          ufs = add_unknown_enum node ''execution_order'' known_execution_order ufs;
          ufs = add_unknown_enum node ''rollback_policy'' (\<lambda>r. parse_rollback_policy r \<noteq> None) ufs
      in add_unknown_enum node ''rollback_cascade'' (\<lambda>r. parse_rollback_cascade r \<noteq> None) ufs)"

text \<open>An unknown failure policy is recorded and replaced by \<open>fail-fast\<close>.\<close>

definition resolve_failure_policy ::
  "string option \<Rightarrow> (string \<times> string) list \<Rightarrow> string \<times> (string \<times> string) list" where
  "resolve_failure_policy raw ufs =
     (let fp = unwrap_or raw FAILURE_POLICY_FAIL_FAST
      in if fp = FAILURE_POLICY_FAIL_FAST \<or> fp = FAILURE_POLICY_CONTINUE then (fp, ufs)
         else (FAILURE_POLICY_FAIL_FAST, ufs @ [(''failure_policy'', fp)]))"

definition contract_node :: "(json \<Rightarrow> string) \<Rightarrow> nat \<times> json \<Rightarrow> dag_build_error + dag_node" where
  "contract_node render iv = (case iv of (idx, node) \<Rightarrow>
     let str = (\<lambda>key. optional_string node key idx);
         vec = (\<lambda>key. string_vec node key idx);
         raw = (\<lambda>key. raw_string_list node key idx)
     in
     case as_object node of
       None \<Rightarrow> Inl (InvalidContract (''payload.nodes['' @ show_nat idx @ ''] must be an object''))
     | Some object \<Rightarrow>
     bind_res (required_string node ''id'' idx) (\<lambda>x_id.
     bind_res (required_string node ''target'' idx) (\<lambda>x_target.
     bind_res (unsupported_fields_from_contract render node idx) (\<lambda>ufs.
     let ufs = flag_unknown_enums node ufs in
     bind_res (str ''failure_policy'') (\<lambda>fp.
     let fpr = resolve_failure_policy fp ufs in
     bind_res (optional_u32 node ''retry_count'' idx) (\<lambda>x_retry_count.
     bind_res (optional_u64 node ''retry_delay_ms'' idx) (\<lambda>x_retry_delay.
     bind_res (retry_parse_error_from_contract node idx) (\<lambda>x_retry_err.
     bind_res (str ''objective'') (\<lambda>x_objective.
     bind_res (vec ''depends_on'') (\<lambda>x_depends_on.
     bind_res (str ''condition'') (\<lambda>x_condition.
     bind_res (optional_i64 node ''timeout_ms'' idx) (\<lambda>x_timeout.
     bind_res (str ''dispatch_strategy'') (\<lambda>x_strategy.
     bind_res (str ''target_project'') (\<lambda>x_project.
     bind_res (str ''requested_cwd'') (\<lambda>x_cwd.
     bind_res (str ''flow_id'') (\<lambda>x_flow.
     bind_res (str ''scope'') (\<lambda>x_scope.
     bind_res (str ''commit_policy'') (\<lambda>x_commit.
     bind_res (raw ''owned_files'') (\<lambda>x_owned.
     bind_res (raw ''forbidden_files'') (\<lambda>x_forbidden.
     bind_res (raw ''acceptance_commands'') (\<lambda>x_acc_cmds.
     bind_res (str ''execution_order'') (\<lambda>x_order.
     bind_res (str ''parallel_group'') (\<lambda>x_group.
     bind_res (optional_u32 node ''atom_level'' idx) (\<lambda>x_level.
     bind_res (str ''atom_task_id'') (\<lambda>x_task.
     bind_res (raw ''predicted_tool_sequence'') (\<lambda>x_tools.
     bind_res (raw ''context_sources'') (\<lambda>x_sources.
     bind_res (str ''acceptance_mode'') (\<lambda>x_acc_mode.
     bind_res (raw ''acceptance_evidence_keys'') (\<lambda>x_acc_keys.
     bind_res (vec ''acceptance_depends_on'') (\<lambda>x_acc_deps.
     bind_res (str ''acceptance_requires'') (\<lambda>x_acc_req.
     bind_res (str ''acceptance_source_node'') (\<lambda>x_acc_src.
     bind_res (str ''workstation_dispatch'') (\<lambda>x_ws.
     bind_res (str ''review_gate'') (\<lambda>x_gate.
     bind_res (str ''review_action'') (\<lambda>x_action.
     bind_res (str ''review_text'') (\<lambda>x_text.
     bind_res (str ''rollback_policy'') (\<lambda>x_rb.
     bind_res (str ''rollback_objective'') (\<lambda>x_rb_obj.
     bind_res (raw ''rollback_owned_files'') (\<lambda>x_rb_owned.
     bind_res (raw ''rollback_acceptance_commands'') (\<lambda>x_rb_cmds.
     bind_res (str ''compensates'') (\<lambda>x_compensates.
     bind_res (str ''compensate_node'') (\<lambda>x_comp_node.
     bind_res (str ''rollback_cascade'') (\<lambda>x_cascade.
     bind_res (vec ''rollback_after'') (\<lambda>x_rb_after.
     if object = [] then
       Inl (InvalidContract (''payload.nodes['' @ show_nat idx @ ''] must not be empty''))
     else Inr
       \<lparr> node_id = x_id, target = x_target, objective = x_objective, depends_on = x_depends_on,
         condition = x_condition, failure_policy = fst fpr, timeout_ms = x_timeout,
         dispatch_strategy = x_strategy, target_project = x_project, requested_cwd = x_cwd,
         flow_id = x_flow, scope = x_scope, commit_policy = x_commit, owned_files_raw = x_owned,
         forbidden_files_raw = x_forbidden, acceptance_commands_raw = x_acc_cmds,
         execution_order = x_order, parallel_group = x_group, atom_level = x_level,
         atom_task_id = x_task, predicted_tool_sequence_raw = x_tools,
         context_sources_raw = x_sources, acceptance_mode_raw = x_acc_mode,
         acceptance_evidence_keys_raw = x_acc_keys, acceptance_depends_on = x_acc_deps,
         acceptance_requires_raw = x_acc_req, acceptance_source_node = x_acc_src,
         workstation_dispatch_flag = x_ws, review_gate = x_gate, review_action = x_action,
         review_text = x_text, retry_count = x_retry_count, retry_delay_ms = x_retry_delay,
         retry_parse_error = x_retry_err, rollback_policy = x_rb, rollback_objective = x_rb_obj,
         rollback_owned_files_raw = x_rb_owned, rollback_acceptance_commands_raw = x_rb_cmds,
         compensates = x_compensates, compensate_node = x_comp_node, rollback_cascade = x_cascade,
         rollback_after = x_rb_after, unsupported_fields = snd fpr \<rparr>
     ))))))))))))))))))))))))))))))))))))))))))))"

definition parsed_dag_from_contract_json ::
  "(json \<Rightarrow> string) \<Rightarrow> json \<Rightarrow> dag_build_error + parsed_dag" where
  "parsed_dag_from_contract_json render contract =
     (let schema_version = unwrap_or (opt_bind_str (j_get contract ''schema_version'')) [] in
      if schema_version \<noteq> ''missiond.plan-contract.v2'' then
        Inl (InvalidContract (''expected schema_version=missiond.plan-contract.v2, got `'' @
          (if schema_version = [] then ''<missing>'' else schema_version) @ ''`''))
      else case j_get contract ''payload'' of
        None \<Rightarrow> Inl (InvalidContract ''missing payload object'')
      | Some payload \<Rightarrow>
          (case Option.bind (j_get payload ''nodes'') as_array of
             None \<Rightarrow> Inl (InvalidContract ''payload.nodes must be an array'')
           | Some vs \<Rightarrow>
               bind_res (collect_res (contract_node render) (enumerate 0 vs)) (\<lambda>ns.
                 Inr \<lparr> nodes = ns, unsupported_top_forms = [] \<rparr>)))"

definition build_validated_dag_from_contract_json ::
  "(json \<Rightarrow> string) \<Rightarrow> json \<Rightarrow> (dag_build_error + parsed_dag \<times> string list) option" where
  "build_validated_dag_from_contract_json render contract =
     (case parsed_dag_from_contract_json render contract of
        Inl e \<Rightarrow> Some (Inl e)
      | Inr p \<Rightarrow> validate_parsed_dag p)"

subsection \<open>What a contract node satisfies\<close>

text \<open>A list hint as the contract reader leaves it: absent, or the printed form of a list.\<close>

definition printed_list :: "string option \<Rightarrow> bool" where
  "printed_list r \<longleftrightarrow> r = None \<or> (\<exists>vs. vs \<noteq> [] \<and> r = Some (lisp_string_list vs))"

definition contract_node_ok :: "dag_node \<Rightarrow> bool" where
  "contract_node_ok n \<longleftrightarrow>
     node_id n \<noteq> [] \<and> trim (node_id n) = node_id n \<and>
     target n \<noteq> [] \<and> trim (target n) = target n \<and>
     failure_policy n \<in> {FAILURE_POLICY_FAIL_FAST, FAILURE_POLICY_CONTINUE} \<and>
     (\<forall>t. timeout_ms n = Some t \<longrightarrow> i64_min \<le> t \<and> t \<le> i64_max) \<and>
     (\<forall>d \<in> set (depends_on n) \<union> set (acceptance_depends_on n) \<union> set (rollback_after n). d \<noteq> []) \<and>
     printed_list (owned_files_raw n) \<and> printed_list (forbidden_files_raw n) \<and>
     printed_list (acceptance_commands_raw n) \<and> printed_list (acceptance_evidence_keys_raw n) \<and>
     printed_list (rollback_owned_files_raw n) \<and> printed_list (rollback_acceptance_commands_raw n)"

lemma required_string_ok: "required_string v k i = Inr s \<Longrightarrow> s \<noteq> [] \<and> trim s = s"
  by (auto simp: required_string_def rust_simps non_empty_def Let_def bind_eq_Some_conv
      split: option.splits if_splits)

lemma collect_texts_nonempty: "collect_texts f vs = Inr ss \<Longrightarrow> s \<in> set ss \<Longrightarrow> s \<noteq> []"
  by (induction vs arbitrary: ss) (auto simp: rust_simps split: if_splits)

lemma string_vec_nonempty: "string_vec v k i = Inr ss \<Longrightarrow> s \<in> set ss \<Longrightarrow> s \<noteq> []"
  by (auto simp: string_vec_def collect_texts_nonempty split: option.splits json.splits)

lemma raw_string_list_printed: "raw_string_list v k i = Inr r \<Longrightarrow> printed_list r"
  by (auto simp: raw_string_list_def rust_simps printed_list_def split: if_splits)

lemma printed_list_returns: "printed_list r \<Longrightarrow> \<exists>ys. split_lisp_string_list r = Some ys"
  by (auto simp: printed_list_def split_printed) (simp add: split_lisp_string_list_def)

lemma optional_i64_range: "optional_i64 v k i = Inr (Some t) \<Longrightarrow> i64_min \<le> t \<and> t \<le> i64_max"
  by (auto simp: optional_i64_def parse_i64_range split: option.splits json.splits if_splits sum.splits)

lemma resolve_failure_policy_ok:
  "fst (resolve_failure_policy fp ufs) \<in> {FAILURE_POLICY_FAIL_FAST, FAILURE_POLICY_CONTINUE}"
  by (auto simp: resolve_failure_policy_def Let_def split: if_splits)

lemma contract_node_Inr:
  assumes "contract_node render (i, v) = Inr n"
  shows "contract_node_ok n \<and> optional_string v ''rollback_policy'' i = Inr (rollback_policy n)"
proof -
  obtain ufs fp where
    n: "required_string v ''id'' i = Inr (node_id n)" "required_string v ''target'' i = Inr (target n)"
      "failure_policy n = fst (resolve_failure_policy fp ufs)"
      "string_vec v ''depends_on'' i = Inr (depends_on n)"
      "string_vec v ''acceptance_depends_on'' i = Inr (acceptance_depends_on n)"
      "string_vec v ''rollback_after'' i = Inr (rollback_after n)"
      "optional_i64 v ''timeout_ms'' i = Inr (timeout_ms n)"
      "raw_string_list v ''owned_files'' i = Inr (owned_files_raw n)"
      "raw_string_list v ''forbidden_files'' i = Inr (forbidden_files_raw n)"
      "raw_string_list v ''acceptance_commands'' i = Inr (acceptance_commands_raw n)"
      "raw_string_list v ''acceptance_evidence_keys'' i = Inr (acceptance_evidence_keys_raw n)"
      "raw_string_list v ''rollback_owned_files'' i = Inr (rollback_owned_files_raw n)"
      "raw_string_list v ''rollback_acceptance_commands'' i = Inr (rollback_acceptance_commands_raw n)"
      "optional_string v ''rollback_policy'' i = Inr (rollback_policy n)"
    using assms
    by (clarsimp simp: contract_node_def Let_def rust_simps split: option.splits if_splits)
  show ?thesis
    unfolding contract_node_ok_def
    using n resolve_failure_policy_ok[of fp ufs] string_vec_nonempty[OF n(4)]
      string_vec_nonempty[OF n(5)] string_vec_nonempty[OF n(6)]
    by (auto simp: required_string_ok raw_string_list_printed optional_i64_range)
qed

text \<open>An enum value the reader does not know is never dropped in silence.\<close>

definition enum_hints :: "(string \<times> (string \<Rightarrow> bool)) list" where
  "enum_hints =
     [(''acceptance_mode'', \<lambda>r. parse_acceptance_mode r \<noteq> None),
      (''acceptance_requires'', \<lambda>r. parse_acceptance_requires r \<noteq> None),
      (''review_gate'', known_review_gate), (''execution_order'', known_execution_order),
      (''rollback_policy'', \<lambda>r. parse_rollback_policy r \<noteq> None),
      (''rollback_cascade'', \<lambda>r. parse_rollback_cascade r \<noteq> None)]"

lemma flag_unknown_enums_fold:
  "flag_unknown_enums v ufs = foldl (\<lambda>ufs (k, valid). add_unknown_enum v k valid ufs) ufs enum_hints"
  by (simp add: flag_unknown_enums_def enum_hints_def)

lemma add_unknown_enum_mono: "set ufs \<subseteq> set (add_unknown_enum v k valid ufs)"
  by (auto simp: add_unknown_enum_def split: option.splits)

lemma foldl_enum_mono: "set ufs \<subseteq> set (foldl (\<lambda>ufs (k, valid). add_unknown_enum v k valid ufs) ufs hs)"
proof (induction hs arbitrary: ufs)
  case Nil
  then show ?case by simp
next
  case (Cons h hs)
  then show ?case using add_unknown_enum_mono[of ufs v "fst h" "snd h"] by (fastforce simp: case_prod_beta)
qed

lemma foldl_enum_adds:
  assumes "(k, valid) \<in> set hs" "j_get v k = Some (JString raw)" "trim raw \<noteq> []" "\<not> valid (trim raw)"
  shows "(k, trim raw) \<in> set (foldl (\<lambda>ufs (k, valid). add_unknown_enum v k valid ufs) ufs hs)"
  using assms(1)
proof (induction hs arbitrary: ufs)
  case Nil
  then show ?case by simp
next
  case (Cons h hs)
  show ?case
  proof (cases "h = (k, valid)")
    case True
    have "(k, trim raw) \<in> set (add_unknown_enum v k valid ufs)"
      using assms by (auto simp: add_unknown_enum_def scalar_to_string_def)
    with True foldl_enum_mono show ?thesis by fastforce
  next
    case False
    with Cons show ?thesis by simp
  qed
qed

lemma contract_node_flags:
  assumes "contract_node render (i, v) = Inr n"
    and "(k, valid) \<in> set enum_hints" "j_get v k = Some (JString raw)" "trim raw \<noteq> []" "\<not> valid (trim raw)"
  shows "(k, trim raw) \<in> set (unsupported_fields n)"
proof -
  obtain ufs fp where u: "unsupported_fields n = snd (resolve_failure_policy fp (flag_unknown_enums v ufs))"
    using assms(1) by (clarsimp simp: contract_node_def Let_def rust_simps split: option.splits if_splits)
  have "(k, trim raw) \<in> set (flag_unknown_enums v ufs)"
    unfolding flag_unknown_enums_fold by (rule foldl_enum_adds[where valid = valid]) (use assms in auto)
  then show ?thesis unfolding u by (auto simp: resolve_failure_policy_def Let_def)
qed

text \<open>The plan read from a contract: node \<open>i\<close> is read from entry \<open>i\<close> of \<open>payload.nodes\<close>.\<close>

lemma contract_plan_nodes:
  assumes "parsed_dag_from_contract_json render c = Inr p"
  obtains payload vs where "j_get c ''payload'' = Some payload"
    "Option.bind (j_get payload ''nodes'') as_array = Some vs" "length vs = length (nodes p)"
    "\<forall>i < length vs. contract_node render (i, vs ! i) = Inr (nodes p ! i)"
proof -
  obtain payload vs where pv: "j_get c ''payload'' = Some payload"
    "Option.bind (j_get payload ''nodes'') as_array = Some vs"
    "collect_res (contract_node render) (enumerate 0 vs) = Inr (nodes p)"
    using assms
    by (auto simp: parsed_dag_from_contract_json_def Let_def rust_simps split: if_splits option.splits)
  then have "list_all2 (\<lambda>x y. contract_node render x = Inr y) (enumerate 0 vs) (nodes p)"
    by (simp add: collect_res_Inr)
  then have "length vs = length (nodes p)"
    "\<forall>i < length vs. contract_node render (i, vs ! i) = Inr (nodes p ! i)"
    by (auto simp: list_all2_conv_all_nth nth_enumerate_eq)
  with pv that show ?thesis by blast
qed

lemma contract_plan_ok:
  assumes "parsed_dag_from_contract_json render c = Inr p" "n \<in> set (nodes p)"
  shows "contract_node_ok n"
proof -
  obtain vs where "length vs = length (nodes p)"
    "\<forall>i < length vs. contract_node render (i, vs ! i) = Inr (nodes p ! i)"
    using contract_plan_nodes[OF assms(1)] by metis
  with assms(2) show ?thesis using contract_node_Inr by (metis in_set_conv_nth)
qed

end
