(* ===== verification/Dag_Execution.thy ===== *)
theory Dag_Execution
  imports Dag_Invariant Dag_Contract
begin

text \<open>
  Every phase of the wave loop is a sequence of moves; the loop ends within its fuel, and what it
  leaves behind when it ends.
\<close>

subsection \<open>Skips\<close>

definition tainted_pending :: "run_st \<Rightarrow> string \<Rightarrow> bool" where
  "tainted_pending s x \<longleftrightarrow> rs_life s x = Some LPending \<and> rs_taint s x \<noteq> None"

lemma collect_tainted:
  "set (collect_tainted_pending order life t) =
     {(x, d). x \<in> set order \<and> life x = Some LPending \<and> t x = Some d}"
  by (auto simp: collect_tainted_pending_def split: option.splits if_splits)

lemma collect_tainted_distinct:
  assumes "distinct order" shows "distinct (map fst (collect_tainted_pending order life t))"
  using assms
proof (induction order)
  case (Cons x xs)
  have "x \<notin> fst ` set (collect_tainted_pending xs life t)"
    using Cons.prems by (auto simp: collect_tainted)
  with Cons show ?case
    by (cases "life x = Some LPending"; cases "t x") (simp_all add: collect_tainted_pending_def)
qed (simp add: collect_tainted_pending_def)

definition skip_frame :: "run_st \<Rightarrow> run_st \<Rightarrow> string set \<Rightarrow> bool" where
  "skip_frame s s' X \<longleftrightarrow>
     rs_life s' = (\<lambda>x. if x \<in> X then Some LSkipped else rs_life s x) \<and> rs_js s' = rs_js s \<and>
     rs_abort s' = rs_abort s \<and> rs_taint s' = rs_taint s \<and> rs_active s' = rs_active s \<and>
     rs_registry s' = rs_registry s \<and> rs_attempts s' = rs_attempts s"

lemma fold_skips:
  assumes "cfg_ok cfg" "distinct (map f ps)" "\<forall>p \<in> set ps. f p \<in> set (ids_of (cf_nodes cfg))"
    and "\<forall>p \<in> set ps. rs_life s (f p) = Some LPending"
    and step: "\<And>p n s. p \<in> set ps \<Longrightarrow> n \<in> set (cf_nodes cfg) \<Longrightarrow> node_id n = f p \<Longrightarrow>
        rs_life s (f p) = Some LPending \<Longrightarrow> P s \<Longrightarrow> run_step cfg env s (skip_node n (st p) r s)"
    and keep: "\<And>n st s. P s \<Longrightarrow> P (skip_node n st r s)" and "P s"
    and g: "\<And>s p. g s p = (case by_id_map (cf_nodes cfg) (f p) of None \<Rightarrow> s | Some n \<Rightarrow> skip_node n (st p) r s)"
  shows "run_steps cfg env s (foldl g s ps) \<and> skip_frame s (foldl g s ps) (f ` set ps)"
  using assms(2-5,7)
proof (induction ps arbitrary: s)
  case Nil
  then show ?case by (simp add: skip_frame_def)
next
  case (Cons p ps)
  obtain n where n: "n \<in> set (cf_nodes cfg)" "node_id n = f p"
    using Cons.prems(2) by (auto simp: ids_of_def)
  then have e: "g s p = skip_node n (st p) r s" using by_id_cfg[OF assms(1) n(1)] by (simp add: g)
  have st1: "run_step cfg env s (g s p)"
    unfolding e by (rule Cons.prems(4)) (use Cons.prems n in auto)
  have pend: "\<forall>q \<in> set ps. rs_life (g s p) (f q) = Some LPending"
  proof
    fix q assume q: "q \<in> set ps"
    then have "f q \<noteq> f p" using Cons.prems(1) by (metis distinct.simps(2) image_eqI list.set_map list.simps(9))
    then show "rs_life (g s p) (f q) = Some LPending" using Cons.prems(3) n q by (simp add: e)
  qed
  have "run_steps cfg env (g s p) (foldl g (g s p) ps) \<and> skip_frame (g s p) (foldl g (g s p) ps) (f ` set ps)"
    by (rule Cons.IH) (use Cons.prems pend keep e in auto)
  then show ?case
    using converse_rtranclp_into_rtranclp[of "run_step cfg env", OF st1]
    by (auto simp: skip_frame_def e n fun_eq_iff)
qed

lemma skips_steps:
  fixes s :: run_st
  assumes "cfg_ok cfg"
  defines "s' \<equiv> materialize_tainted_pending_skips cfg s"
  shows "run_steps cfg env s s'"
    and "skip_frame s s' {x \<in> set (cf_order cfg). tainted_pending s x}"
proof -
  let ?ps = "collect_tainted_pending (cf_order cfg) (rs_life s) (rs_taint s)"
  let ?g = "\<lambda>s p. case by_id_map (cf_nodes cfg) (fst p) of None \<Rightarrow> s
         | Some n \<Rightarrow> skip_node n (SkippedUpstreamFailed (snd p)) ''upstream_failed'' s"
  have s': "s' = foldl ?g s ?ps"
    by (simp add: s'_def materialize_tainted_pending_skips_def case_prod_beta')
  have "run_steps cfg env s (foldl ?g s ?ps) \<and> skip_frame s (foldl ?g s ?ps) (fst ` set ?ps)"
  proof (rule fold_skips[where P = "\<lambda>t :: run_st. rs_taint t = rs_taint s", OF assms(1)])
    show "distinct (map fst ?ps)" by (rule collect_tainted_distinct[OF cfg_okD(2)[OF assms(1)]])
    show "\<forall>p \<in> set ?ps. fst p \<in> set (ids_of (cf_nodes cfg))" "\<forall>p \<in> set ?ps. rs_life s (fst p) = Some LPending"
      using cfg_okD(3)[OF assms(1)] by (auto simp: collect_tainted simp del: set_ids_of)
  next
    fix p n and t :: run_st assume "p \<in> set ?ps" "n \<in> set (cf_nodes cfg)" "node_id n = fst p"
      "rs_life t (fst p) = Some LPending" "rs_taint t = rs_taint s"
    then show "run_step cfg env t (skip_node n (SkippedUpstreamFailed (snd p)) ''upstream_failed'' t)"
      by (intro run_step.Skip_Tainted) (auto simp: collect_tainted)
  qed simp_all
  moreover have "fst ` set ?ps = {x \<in> set (cf_order cfg). tainted_pending s x}"
    by (force simp: collect_tainted tainted_pending_def)
  ultimately show "run_steps cfg env s s'" "skip_frame s s' {x \<in> set (cf_order cfg). tainted_pending s x}"
    by (simp_all add: s')
qed

lemma force_skip_steps:
  fixes s :: run_st and a :: string
  assumes "cfg_ok cfg" "rs_abort s" "rs_js s = []"
  defines "s' \<equiv> force_skip_fail_fast_pending cfg a s"
  shows "run_steps cfg env s s'"
    and "skip_frame s s' {x \<in> set (cf_order cfg). rs_life s x = Some LPending}"
proof -
  let ?ps = "pending_ids (cf_order cfg) (rs_life s)"
  let ?g = "\<lambda>s x. case by_id_map (cf_nodes cfg) x of None \<Rightarrow> s
         | Some n \<Rightarrow> skip_node n (SkippedFailFastAbort a) ''fail_fast_aborted'' s"
  have s': "s' = foldl ?g s ?ps" by (simp add: s'_def force_skip_fail_fast_pending_def)
  have "run_steps cfg env s (foldl ?g s ?ps) \<and> skip_frame s (foldl ?g s ?ps) ((\<lambda>x. x) ` set ?ps)"
  proof (rule fold_skips[where P = "\<lambda>t :: run_st. rs_abort t \<and> rs_js t = []" and f = "\<lambda>x. x", OF assms(1)])
    show "distinct (map (\<lambda>x. x) ?ps)" using cfg_okD(2)[OF assms(1)] by (simp add: pending_ids_def)
    show "\<forall>p \<in> set ?ps. p \<in> set (ids_of (cf_nodes cfg))" "\<forall>p \<in> set ?ps. rs_life s p = Some LPending"
      using cfg_okD(3)[OF assms(1)] by (auto simp: pending_ids_def simp del: set_ids_of)
  next
    fix p n and t :: run_st assume "n \<in> set (cf_nodes cfg)" "node_id n = p" "rs_life t p = Some LPending"
      "rs_abort t \<and> rs_js t = []"
    then show "run_step cfg env t (skip_node n (SkippedFailFastAbort a) ''fail_fast_aborted'' t)"
      by (intro run_step.Skip_Abort) auto
  qed (use assms(2,3) in simp_all)
  then show "run_steps cfg env s s'" "skip_frame s s' {x \<in> set (cf_order cfg). rs_life s x = Some LPending}"
    by (simp_all add: s' pending_ids_def)
qed


subsection \<open>Gates\<close>

lemma ready_other:
  "ready_node cfg s m \<Longrightarrow> rs_life s' = (rs_life s)(x \<mapsto> l) \<Longrightarrow> rs_life s x = Some LPending \<Longrightarrow> node_id m \<noteq> x \<Longrightarrow>
     ready_node cfg s' m"
  by (auto simp: ready_node_def intro: deps_done_mono)

definition gate_pre :: "dag_cfg \<Rightarrow> run_st \<Rightarrow> nat \<Rightarrow> string list \<Rightarrow> dag_node list \<Rightarrow> bool" where
  "gate_pre cfg s k xs acc \<longleftrightarrow>
     \<not> rs_abort s \<and> rs_js s = [] \<and> distinct (map node_id acc @ xs) \<and> length acc < k \<and>
     (\<forall>x \<in> set xs. \<exists>n. node_id n = x \<and> ready_node cfg s n) \<and>
     (\<forall>n \<in> set acc. ready_node cfg s n \<and> dispatchable n)"

definition gate_post :: "dag_cfg \<Rightarrow> run_st \<Rightarrow> nat \<Rightarrow> string list \<Rightarrow> dag_node list \<Rightarrow> run_st \<Rightarrow> bool" where
  "gate_post cfg s k xs out s' \<longleftrightarrow>
     \<not> rs_abort s' \<and> rs_js s' = [] \<and> rs_active s' = rs_active s \<and> rs_registry s' = rs_registry s \<and>
     distinct (map node_id out) \<and> length out \<le> k \<and>
     (\<forall>n \<in> set out. ready_node cfg s' n \<and> dispatchable n) \<and>
     (out = [] \<longrightarrow> (\<forall>x \<in> set xs. rs_life s' x \<noteq> Some LPending)) \<and>
     (\<forall>x. rs_life s x \<noteq> Some LPending \<longrightarrow> rs_life s' x = rs_life s x)"

lemma gated_step:
  assumes "gate_pre cfg s k (x # xs) acc" "node_id n = x" "ready_node cfg s n"
    and e: "rs_life s1 = (rs_life s)(x \<mapsto> l)" "rs_js s1 = rs_js s" "rs_abort s1 = rs_abort s"
  shows "gate_pre cfg s1 k xs acc"
proof -
  have p: "rs_life s x = Some LPending" using assms(2,3) by (auto simp: ready_node_def)
  have "ready_node cfg s1 m" if "ready_node cfg s m" "node_id m \<noteq> x" for m
    by (rule ready_other[OF that(1) e(1) p that(2)])
  note keep = this
  note u = assms(1)[unfolded gate_pre_def]
  show ?thesis
    unfolding gate_pre_def
  proof (intro conjI ballI)
    show "\<not> rs_abort s1" "rs_js s1 = []" "distinct (map node_id acc @ xs)" "length acc < k" using u e(2,3) by auto
  next
    fix y assume y: "y \<in> set xs"
    then obtain m where m: "node_id m = y" "ready_node cfg s m" using u by (meson list.set_intros(2))
    have "y \<noteq> x" using u y by auto
    with m show "\<exists>m. node_id m = y \<and> ready_node cfg s1 m" using keep by blast
  next
    fix m assume m: "m \<in> set acc"
    then have "node_id m \<in> node_id ` set acc" by (rule imageI)
    moreover have "x \<notin> node_id ` set acc" using u by simp
    ultimately have "node_id m \<noteq> x" by metis
    then show "ready_node cfg s1 m" "dispatchable m" using u m keep by blast+
  qed
qed

lemma gates_steps:
  assumes "cfg_ok cfg" "gate_pre cfg s k xs acc" "filter_ready_nodes_for_gates cfg env k xs acc s = (out, s')"
  shows "run_steps cfg env s s' \<and> gate_post cfg s k xs out s' \<and> (acc \<noteq> [] \<longrightarrow> out \<noteq> [])"
  using assms(2,3)
proof (induction xs arbitrary: acc s)
  case Nil
  then show ?case by (auto simp: gate_pre_def gate_post_def)
next
  case (Cons x xs)
  obtain n where n: "node_id n = x" "ready_node cfg s n" using Cons.prems(1) by (auto simp: gate_pre_def)
  have b: "by_id_map (cf_nodes cfg) x = Some n"
    using by_id_cfg[OF assms(1)] n by (auto simp: ready_node_def)
  have p: "rs_life s x = Some LPending" using n by (auto simp: ready_node_def)
  have env0: "\<not> rs_abort s" "rs_js s = []" "length acc < k" using Cons.prems(1) by (auto simp: gate_pre_def)
  have gated: ?case
    if st: "run_step cfg env s s1" and e: "rs_life s1 = (rs_life s)(x \<mapsto> l)" "l \<noteq> LPending" "rs_js s1 = rs_js s"
      "rs_abort s1 = rs_abort s" "rs_active s1 = rs_active s" "rs_registry s1 = rs_registry s"
      and f: "filter_ready_nodes_for_gates cfg env k xs acc s1 = (out, s')" for s1 l
  proof -
    have "gate_pre cfg s1 k xs acc" by (rule gated_step[OF Cons.prems(1) n e(1,3,4)])
    from Cons.IH[OF this f] have ih: "run_steps cfg env s1 s'" "gate_post cfg s1 k xs out s'"
      "acc \<noteq> [] \<longrightarrow> out \<noteq> []" by blast+
    have "rs_life s' x = rs_life s1 x" using ih(2) e(1,2) by (simp add: gate_post_def)
    then have "gate_post cfg s k (x # xs) out s'"
      using ih(2) e p unfolding gate_post_def by auto
    then show ?thesis using st ih(1,3) by (meson converse_rtranclp_into_rtranclp)
  qed
  show ?case
  proof (cases "blank (condition n)")
    case False
    then show ?thesis
      using Cons.prems(2) b n env0
      by (intro gated[where l = LSkipped, OF run_step.Gate_Condition[OF n(2)]]) (simp_all add: condition_skip_def)
  next
    case blank: True
    show ?thesis
    proof (cases "review_gate_kind n = GateQuestionEvent")
      case True
      then show ?thesis
        using Cons.prems(2) b n env0 blank
        by (intro gated[where l = LPaused, OF run_step.Gate_Review[OF n(2)]]) simp_all
    next
      case False
      then have d: "dispatchable n" using blank by (simp add: dispatchable_def)
      show ?thesis
      proof (cases "length (acc @ [n]) \<ge> k")
        case True
        then have "out = acc @ [n]" "s' = s" using Cons.prems(2) b blank False by auto
        then show ?thesis using Cons.prems(1) n d env0 by (auto simp: gate_pre_def gate_post_def)
      next
        case more: False
        then have f: "filter_ready_nodes_for_gates cfg env k xs (acc @ [n]) s = (out, s')"
          using Cons.prems(2) b blank False by auto
        have "gate_pre cfg s k xs (acc @ [n])"
          using Cons.prems(1) n d more by (auto simp: gate_pre_def)
        from Cons.IH[OF this f] show ?thesis by (auto simp: gate_post_def)
      qed
    qed
  qed
qed

subsection \<open>Spawning a wave\<close>

text \<open>The claims of a run are its bookkeeping of leases; \<open>spawn_wave\<close> leaves the nodes that were not
  part of the wave as they were.\<close>

lemma spawn_steps:
  assumes "cfg_ok cfg" "spawn_wave cfg env ns s = Some (Inr u, s')"
    and "\<forall>n \<in> set ns. ready_node cfg s n \<and> dispatchable n" "distinct (map node_id ns)"
    and "length (rs_js s) + length ns \<le> max (cf_max_parallel cfg) 1"
  shows "run_steps cfg env s s' \<and> (\<forall>n \<in> set ns. rs_life s' (node_id n) \<noteq> Some LPending) \<and>
    (\<forall>x. rs_life s x \<noteq> Some LPending \<longrightarrow> rs_life s' x \<noteq> Some LPending)"
  using assms(2-5)
proof (induction ns arbitrary: s)
  case Nil
  then show ?case by simp
next
  case (Cons n ns)
  obtain a s1 where b: "bump_attempt (node_id n) s = (a, s1)" by fastforce
  have rd: "ready_node cfg s n" "dispatchable n" using Cons.prems(2) by auto
  have p: "rs_life s (node_id n) = Some LPending" using rd by (simp add: ready_node_def)
  obtain r s2 where q: "acquire_plan_dag_work_leases cfg env n a s1 = Some (Inr r, s2)"
    using Cons.prems(1) by (auto simp: b prepare_dispatch_claim_def bind_run_Inr)
  define s3 where "s3 = (case r of Inr c \<Rightarrow> spawn_dispatch_attempt n a (record_acquired_claim n a c s2)
      | Inl c \<Rightarrow> abort_if (is_fail_fast n) (node_id n) (record_strict_claim_conflict cfg n a c s2))"
  have rest: "spawn_wave cfg env ns s3 = Some (Inr u, s')"
    using Cons.prems(1) q
    by (cases r) (auto simp: b prepare_dispatch_claim_def bind_run_def s3_def abort_if_def split: if_splits)
  have st: "run_step cfg env s s3"
    using run_step.Dispatch_Node[OF rd _ b, of env] run_step.Claim_Refused[OF rd b, of env] q Cons.prems(4)
    by (cases r) (auto simp: s3_def)
  note f = bump_run_fields[OF b q]
  obtain l where l: "rs_life s3 = (rs_life s)(node_id n \<mapsto> l)" "l \<noteq> LPending" "length (rs_js s3) \<le> Suc (length (rs_js s))"
    using f by (cases r) (auto simp: s3_def)
  have rd3: "\<forall>m \<in> set ns. ready_node cfg s3 m \<and> dispatchable m"
  proof
    fix m assume m: "m \<in> set ns"
    then have "node_id m \<noteq> node_id n" using Cons.prems(3) by (metis distinct.simps(2) image_eqI list.set_map list.simps(9))
    then show "ready_node cfg s3 m \<and> dispatchable m"
      using ready_other[OF _ l(1) p] Cons.prems(2) m by auto
  qed
  have "run_steps cfg env s3 s' \<and> (\<forall>n \<in> set ns. rs_life s' (node_id n) \<noteq> Some LPending) \<and>
    (\<forall>x. rs_life s3 x \<noteq> Some LPending \<longrightarrow> rs_life s' x \<noteq> Some LPending)"
    by (rule Cons.IH[OF rest rd3]) (use Cons.prems(3,4) l(3) in auto)
  then show ?case
    using st l(1,2) by (auto intro: converse_rtranclp_into_rtranclp)
qed


subsection \<open>Draining a wave\<close>

lemma never_pending_again:
  assumes "run_steps cfg env s s'" "cfg_ok cfg" "dag_inv cfg s" "rs_life s x \<noteq> Some LPending"
  shows "rs_life s' x \<noteq> Some LPending"
  using assms(1)
proof (induction rule: rtranclp_induct)
  case base
  show ?case by (rule assms(4))
next
  case (step t u)
  have inv: "dag_inv cfg t" by (rule dag_inv_steps[OF step(1) assms(2,3)])
  obtain n l where "moves cfg t u n l"
    using life_step_target[OF run_refines_life[OF step(2)] dag_invD(2,3)[OF inv]] by (elim exE)
  then show ?case using step(3) by (auto simp: moves_def)
qed

lemma joined_step:
  assumes "cfg_ok cfg" "inv_tasks cfg s" "rs_js s \<noteq> []"
    and "env_dispatch env (rs_tick s) (rs_js s ! (k mod length (rs_js s))) = Inr out"
    and "handle_joined cfg env (rs_js s ! (k mod length (rs_js s))) out
           (ticks 1 (s\<lparr> rs_js := drop_task (k mod length (rs_js s)) (rs_js s) \<rparr>)) = Some (Inr (), s')"
  shows "run_step cfg env s s'"
  by (rule run_step.Task_Joined[OF _ refl assms(4,5)]) (use assms(3) in simp)

lemma joined_node:
  assumes "cfg_ok cfg" "inv_tasks cfg s" "rs_js s \<noteq> []"
  shows "by_id_map (cf_nodes cfg) (node_id (rs_js s ! (k mod length (rs_js s)))) = Some (rs_js s ! (k mod length (rs_js s)))"
proof (rule by_id_cfg[OF assms(1)])
  have "rs_js s ! (k mod length (rs_js s)) \<in> set (rs_js s)" using assms(3) by simp
  then show "rs_js s ! (k mod length (rs_js s)) \<in> set (cf_nodes cfg)" using assms(2) unfolding inv_tasks_def by blast
qed

lemma drain_unfold:
  fixes env :: dag_env
  assumes "cfg_ok cfg" "inv_tasks cfg s" "rs_js s \<noteq> []"
  defines "i \<equiv> env_join env (rs_tick s) mod length (rs_js s)"
  shows "drain_dispatch_wave (Suc fuel) cfg env s =
     (case env_dispatch env (rs_tick s) (rs_js s ! i) of
        Inl e \<Rightarrow> Some (Inl e, ticks 1 (s\<lparr> rs_js := drop_task i (rs_js s) \<rparr>))
      | Inr out \<Rightarrow> bind_run (handle_joined cfg env (rs_js s ! i) out (ticks 1 (s\<lparr> rs_js := drop_task i (rs_js s) \<rparr>)))
          (\<lambda>_ s. drain_dispatch_wave fuel cfg env s))"
  using assms(3) joined_node[OF assms(1-3), of "env_join env (rs_tick s)"]
  by (simp add: i_def Let_def split: sum.splits)

lemma drain_steps:
  assumes "cfg_ok cfg" "dag_inv cfg s" "drain_dispatch_wave fuel cfg env s = Some (Inr u, s')"
  shows "run_steps cfg env s s' \<and> rs_js s' = []"
  using assms(2,3)
proof (induction fuel arbitrary: s)
  case 0
  then show ?case by simp
next
  case (Suc fuel)
  note t = dag_invD(2)[OF Suc.prems(1)]
  show ?case
  proof (cases "rs_js s = []")
    case True
    then show ?thesis using Suc.prems by simp
  next
    case False
    note du = drain_unfold[OF assms(1) t False, of fuel env]
    obtain out s1 where o: "env_dispatch env (rs_tick s) (rs_js s ! (env_join env (rs_tick s) mod length (rs_js s))) = Inr out"
      and h: "handle_joined cfg env (rs_js s ! (env_join env (rs_tick s) mod length (rs_js s))) out
        (ticks 1 (s\<lparr> rs_js := drop_task (env_join env (rs_tick s) mod length (rs_js s)) (rs_js s) \<rparr>)) = Some (Inr (), s1)"
      and r: "drain_dispatch_wave fuel cfg env s1 = Some (Inr u, s')"
      using Suc.prems(2) unfolding du by (auto simp: bind_run_Inr split: sum.splits)
    have st: "run_step cfg env s s1" by (rule joined_step[OF assms(1) t False o h])
    have "dag_inv cfg s1" by (rule dag_inv_step[OF assms(1) run_refines_life[OF st] Suc.prems(1)])
    from Suc.IH[OF this r] st show ?thesis by (auto intro: converse_rtranclp_into_rtranclp)
  qed
qed

subsection \<open>List hints that can be read\<close>

definition lists_end :: "dag_node \<Rightarrow> bool" where
  "lists_end n \<longleftrightarrow> (\<forall>r \<in> {owned_files_raw n, forbidden_files_raw n, acceptance_commands_raw n,
     acceptance_evidence_keys_raw n, rollback_owned_files_raw n, rollback_acceptance_commands_raw n}.
     split_lisp_string_list r \<noteq> None)"

lemma contract_lists_end: "contract_node_ok n \<Longrightarrow> lists_end n"
  using printed_list_returns by (fastforce simp: lists_end_def contract_node_ok_def)

lemma lists_endD:
  assumes "lists_end n"
  obtains a b c d e f where "split_lisp_string_list (owned_files_raw n) = Some a"
    "split_lisp_string_list (forbidden_files_raw n) = Some b"
    "split_lisp_string_list (acceptance_commands_raw n) = Some c"
    "split_lisp_string_list (acceptance_evidence_keys_raw n) = Some d"
    "split_lisp_string_list (rollback_owned_files_raw n) = Some e"
    "split_lisp_string_list (rollback_acceptance_commands_raw n) = Some f"
  using assms by (auto simp: lists_end_def)

lemma scopes_end: "lists_end n \<Longrightarrow> derive_node_claim_scopes n p \<noteq> None"
  by (erule lists_endD) (simp add: derive_node_claim_scopes_def Let_def)

lemma acceptance_ends:
  assumes "lists_end n" shows "evaluate_success_acceptance p v n pl results \<noteq> None"
proof -
  from assms obtain c d where l: "split_lisp_string_list (acceptance_commands_raw n) = Some c"
    "split_lisp_string_list (acceptance_evidence_keys_raw n) = Some d" by (rule lists_endD)
  obtain base where b: "evaluate_node_acceptance n pl True = Some base"
    using l by (simp add: evaluate_node_acceptance_def)
  obtain fo where "fan_in_result n (the (acceptance_requires_kind n)) results = Some fo"
    using l(2) by (cases "the (acceptance_requires_kind n)") (simp_all add: fan_in_result_def Let_def)
  then obtain e where "apply_acceptance_fan_in base n results = Some e"
    by (cases "has_acceptance_fan_in n") (simp_all add: apply_acceptance_fan_in_def Let_def)
  with b show ?thesis by (simp add: evaluate_success_acceptance_def)
qed

lemma descriptor_ends:
  assumes "lists_end n"
  shows "\<exists>d h. build_rollback_descriptor n = Some d \<and> to_workstation_hints d n = Some h"
  using assms by (elim lists_endD) (simp add: build_rollback_descriptor_def to_workstation_hints_def)

lemma run_rollback_ends: "lists_end n \<Longrightarrow> run_rollback ws b t n \<noteq> None"
  using descriptor_ends[of n]
  by (auto simp: run_rollback_def split: rollback_policy.splits sum.splits)

lemma cascade_entry_ends: "lists_end n \<Longrightarrow> cascade_entry ws b m t n \<noteq> None"
  using descriptor_ends[of n]
  by (auto simp: cascade_entry_def build_compensation_plan_entry_def split: sum.splits)

lemma cascade_entries_end: "\<forall>n \<in> set ns. lists_end n \<Longrightarrow> cascade_entries ws b m t ns \<noteq> None"
proof (induction ns arbitrary: t)
  case (Cons n ns)
  obtain c calls where "cascade_entry ws b m t n = Some (c, calls)"
    using cascade_entry_ends[of n ws b m t] Cons.prems by auto
  moreover obtain cs calls' where "cascade_entries ws b m (t + length calls) ns = Some (cs, calls')"
    using Cons.IH[of "t + length calls"] Cons.prems by auto
  ultimately show ?case by simp
qed simp

lemma compensation_order_subset:
  assumes "unique_ids ns" shows "set (compute_compensation_order x ns order) \<subseteq> set ns"
proof -
  obtain ordered where "mset (compute_compensation_order x ns order) = mset (compensation_candidates x ns)"
    using compensation_order_spec[OF assms] by blast
  then have "set (compute_compensation_order x ns order) = set (compensation_candidates x ns)"
    by (rule mset_eq_setD)
  then show ?thesis by (auto simp: compensation_candidates_def Let_def)
qed

lemma evaluate_rollback_ends:
  assumes "unique_ids ns" "\<forall>m \<in> set ns. lists_end m" "lists_end n"
  shows "evaluate_rollback ws b t n ns order \<noteq> None"
proof -
  obtain e calls where r: "run_rollback ws b t n = Some (e, calls)"
    using run_rollback_ends[OF assms(3), of ws b t] by auto
  have "\<forall>m \<in> set (compute_compensation_order (node_id n) ns order). lists_end m"
    using compensation_order_subset[OF assms(1)] assms(2) by blast
  then have c: "cascade_entries ws b m k (compute_compensation_order (node_id n) ns order) \<noteq> None" for m k
    by (rule cascade_entries_end)
  have "run_cascade_rollback ws b k n ns order \<noteq> None" for k
    using c[of "unwrap_or (rollback_cascade_kind n) CascadeNone" k]
    by (cases "cascade_entries ws b (unwrap_or (rollback_cascade_kind n) CascadeNone) k
          (compute_compensation_order (node_id n) ns order)")
      (auto simp: run_cascade_rollback_def Let_def split: prod.splits)
  then obtain c calls' where "run_cascade_rollback ws b (t + length calls) n ns order = Some (c, calls')"
    by (metis option.exhaust surj_pair)
  then show ?thesis using r by (simp add: evaluate_rollback_def Let_def)
qed


subsection \<open>The drain ends\<close>

lemma bind_pair_ends: "m \<noteq> None \<Longrightarrow> (\<And>a b. f (a, b) \<noteq> None) \<Longrightarrow> Option.bind m f \<noteq> None"
  by (cases m) auto

lemma bind_run_ends: "m \<noteq> None \<Longrightarrow> (\<And>x s. m = Some (Inr x, s) \<Longrightarrow> f x s \<noteq> None) \<Longrightarrow> bind_run m f \<noteq> None"
  by (auto simp: bind_run_def split: option.splits sum.splits)

lemma if_ends: "x \<noteq> None \<Longrightarrow> y \<noteq> None \<Longrightarrow> (if b then x else y) \<noteq> None"
  by simp

lemma acquire_ends:
  assumes "lists_end n" shows "acquire_plan_dag_work_leases cfg env n a s \<noteq> None"
proof -
  obtain ss src where d: "derive_node_claim_scopes n (cf_plan_id cfg) = Some (ss, src)"
    using scopes_end[OF assms, of "cf_plan_id cfg"] by auto
  show ?thesis
    unfolding acquire_plan_dag_work_leases_def d option.case prod.case Let_def
    by (rule bind_run_ends[OF acquire_leases_returns]) (simp split: sum.split)
qed

lemma rollback_pass_ends:
  assumes "cfg_ok cfg" "\<forall>m \<in> set (cf_nodes cfg). lists_end m" "n \<in> set (cf_nodes cfg)"
  shows "rollback_pass cfg env n a s \<noteq> None"
  using evaluate_rollback_ends[OF cfg_okD(1)[OF assms(1)] assms(2)] assms(2,3)
  by (simp add: rollback_pass_def)

lemma record_success_ends:
  assumes "cfg_ok cfg" "\<forall>m \<in> set (cf_nodes cfg). lists_end m" "n \<in> set (cf_nodes cfg)"
  shows "record_successful_dispatch cfg env n out a s \<noteq> None"
proof -
  obtain acc where e: "evaluate_success_acceptance (cf_plan_id cfg) (cf_version cfg) n (do_payload out) (rs_results s) = Some acc"
    using acceptance_ends assms(2,3) by blast
  show ?thesis
    unfolding record_successful_dispatch_def e Let_def Option.bind.simps
    by (rule bind_pair_ends) (use rollback_pass_ends[OF assms] in \<open>simp_all\<close>)
qed

lemma record_failure_ends:
  assumes "cfg_ok cfg" "\<forall>m \<in> set (cf_nodes cfg). lists_end m" "n \<in> set (cf_nodes cfg)"
  shows "record_final_failure cfg env n out a s \<noteq> None"
  unfolding record_final_failure_def Let_def
  by (rule bind_pair_ends[OF rollback_pass_ends[OF assms]]) simp

lemma retry_ends:
  assumes "lists_end n" shows "retry_failed_node_if_allowed cfg env n out a s \<noteq> None"
proof -
  obtain b s1 where b: "bump_attempt (node_id n) (release_claim_if_recorded env n a ''failed_will_retry'' s) = (b, s1)"
    by fastforce
  show ?thesis
    unfolding retry_failed_node_if_allowed_def Let_def b prod.case
    using bind_run_ends[OF acquire_ends[OF assms, of cfg env b s1]]
    by (metis (no_types, lifting) option.distinct(1) sum.case_eq_if)
qed

lemma handle_joined_ends:
  assumes "cfg_ok cfg" "\<forall>m \<in> set (cf_nodes cfg). lists_end m" "n \<in> set (cf_nodes cfg)"
  shows "handle_joined cfg env n out s \<noteq> None"
proof -
  have l: "lists_end n" using assms(2,3) by blast
  have f: "map_option f (record_final_failure cfg env n out a t) \<noteq> None" for f a t
    using record_failure_ends[OF assms] by simp
  have g: "map_option f (record_successful_dispatch cfg env n out a t) \<noteq> None" for f a t
    using record_success_ends[OF assms] by simp
  show ?thesis
    unfolding handle_joined_def Let_def
    by (rule if_ends[OF g], rule bind_run_ends[OF retry_ends[OF l]], rule if_ends[OF _ f]) simp
qed

definition weight :: "run_st \<Rightarrow> nat" where
  "weight s = sum_list (map (\<lambda>n. 4 - unat (unwrap_or (rs_attempts s (node_id n)) 0)) (rs_js s))"

lemma max_attempts_3: "unat (effective_max_attempts n) \<le> 3"
proof -
  have "effective_max_attempts n \<le> 3"
    by (simp add: effective_max_attempts_def Let_def MAX_NODE_ATTEMPTS_CAP_def max_def)
  then show ?thesis by (simp add: word_le_nat_alt)
qed

lemma sum_drop_task:
  "i < length xs \<Longrightarrow> sum_list (map f (drop_task i xs)) + f (xs ! i) = (sum_list (map f xs) :: nat)"
proof (induction i xs rule: drop_task.induct)
  case (2 i x xs)
  then show ?case by (cases i) (simp_all add: add.assoc)
qed auto

lemma weight_decreases:
  assumes "dag_inv cfg t" "i < length (rs_js t)" "rs_js t ! i = n" "joined_shape i n t s'"
  shows "weight s' < weight t"
proof -
  note tk = dag_invD(2)[OF assms(1)]
  note tr = task_removed[OF tk assms(2,3)]
  obtain a where a: "rs_attempts t (node_id n) = Some a" "1 \<le> a" "a \<le> effective_max_attempts n"
    using dag_invD(5)[OF assms(1)] tr(1,2) unfolding inv_attempts_def by blast
  have a3: "unat a \<le> 3" using a(3) max_attempts_3[of n] by (simp add: word_le_nat_alt)
  let ?w = "\<lambda>s n. 4 - unat (unwrap_or (rs_attempts s (node_id n)) 0)"
  have wt: "sum_list (map (?w t) (drop_task i (rs_js t))) + ?w t n = weight t"
    using sum_drop_task[OF assms(2), of "?w t"] assms(3) by (simp add: weight_def)
  have others: "sum_list (map (?w s') (drop_task i (rs_js t))) = sum_list (map (?w t) (drop_task i (rs_js t)))"
    if "\<forall>x. x \<noteq> node_id n \<longrightarrow> rs_attempts s' x = rs_attempts t x"
  proof -
    have "node_id m \<noteq> node_id n" if "m \<in> set (drop_task i (rs_js t))" for m
      using tr(4) that by (metis Diff_iff image_eqI singletonI)
    then show ?thesis using that by (intro arg_cong[where f = sum_list] map_cong) auto
  qed
  show ?thesis
    using assms(4) unfolding joined_shape_def
  proof (elim disjE conjE)
    assume "rs_js s' = drop_task i (rs_js t)" "\<forall>x. x \<noteq> node_id n \<longrightarrow> rs_attempts s' x = rs_attempts t x"
    then show ?thesis using wt others a a3 by (simp add: weight_def)
  next
    assume j: "rs_js s' = drop_task i (rs_js t) @ [n]"
      and lt: "unwrap_or (rs_attempts t (node_id n)) 1 < effective_max_attempts n"
      and at: "rs_attempts s' = (rs_attempts t)(node_id n \<mapsto> unwrap_or (rs_attempts t (node_id n)) 0 + 1)"
    have "unat a < 3" using lt a(1) max_attempts_3[of n] by (simp add: word_less_nat_alt)
    moreover from this have "unat (a + 1) = unat a + 1" by (simp add: unat_word_ariths)
    ultimately show ?thesis using wt others j at a by (simp add: weight_def)
  qed
qed

lemma weight_bound:
  assumes "dag_inv cfg s" "cfg_ok cfg"
  shows "weight s \<le> 4 * length (cf_nodes cfg)"
proof -
  have t: "distinct (map node_id (rs_js s))" "set (rs_js s) \<subseteq> set (cf_nodes cfg)"
    using dag_invD(2)[OF assms(1)] by (auto simp: inv_tasks_def)
  have "length (rs_js s) = card (set (rs_js s))" using t(1) by (simp add: distinct_card distinct_map)
  also have "\<dots> \<le> card (set (cf_nodes cfg))" by (rule card_mono[OF _ t(2)]) simp
  also have "\<dots> \<le> length (cf_nodes cfg)" by (rule card_length)
  finally have l: "length (rs_js s) \<le> length (cf_nodes cfg)" .
  have "sum_list (map (\<lambda>n. 4 - unat (unwrap_or (rs_attempts s (node_id n)) 0)) ns) \<le> 4 * length ns" for ns
    by (induction ns) auto
  from this[of "rs_js s"] l show ?thesis by (simp add: weight_def)
qed

lemma drain_ends:
  assumes "cfg_ok cfg" "\<forall>m \<in> set (cf_nodes cfg). lists_end m" "dag_inv cfg s" "weight s < fuel"
  shows "drain_dispatch_wave fuel cfg env s \<noteq> None"
  using assms(3,4)
proof (induction fuel arbitrary: s)
  case 0
  then show ?case by simp
next
  case (Suc fuel)
  note t = dag_invD(2)[OF Suc.prems(1)]
  show ?case
  proof (cases "rs_js s = []")
    case False
    let ?i = "env_join env (rs_tick s) mod length (rs_js s)"
    have i: "?i < length (rs_js s)" using False by simp
    have n: "rs_js s ! ?i \<in> set (cf_nodes cfg)" by (rule task_removed(1)[OF t i refl])
    note du = drain_unfold[OF assms(1) t False, of fuel env]
    show ?thesis
    proof (cases "env_dispatch env (rs_tick s) (rs_js s ! ?i)")
      case (Inl e)
      then show ?thesis unfolding du by simp
    next
      case (Inr out)
      obtain r s1 where h: "handle_joined cfg env (rs_js s ! ?i) out
          (ticks 1 (s\<lparr> rs_js := drop_task ?i (rs_js s) \<rparr>)) = Some (r, s1)"
        using handle_joined_ends[OF assms(1,2) n] by fastforce
      show ?thesis
      proof (cases r)
        case (Inl e)
        then show ?thesis unfolding du using Inr h by (simp add: bind_run_def)
      next
        case (Inr u)
        then have h': "handle_joined cfg env (rs_js s ! ?i) out
          (ticks 1 (s\<lparr> rs_js := drop_task ?i (rs_js s) \<rparr>)) = Some (Inr (), s1)" using h by simp
        note je = handle_joined_effect[OF h' refl i refl]
        have "dag_inv cfg s1" using dag_inv_step[OF assms(1) _ Suc.prems(1)] je by blast
        moreover have "weight s1 < fuel"
          using weight_decreases[OF Suc.prems(1) i refl] je Suc.prems(2) by fastforce
        ultimately have "drain_dispatch_wave fuel cfg env s1 \<noteq> None" by (rule Suc.IH)
        then show ?thesis unfolding du using \<open>env_dispatch _ _ _ = Inr out\<close> h' by (simp add: bind_run_def)
      qed
    qed
  qed simp
qed


subsection \<open>The loop\<close>

definition pend :: "dag_cfg \<Rightarrow> run_st \<Rightarrow> string set" where
  "pend cfg s = {x \<in> set (cf_order cfg). rs_life s x = Some LPending}"

lemma finite_pend [simp]: "finite (pend cfg s)"
  by (simp add: pend_def)

lemma pend_mono:
  assumes "run_steps cfg env s s'" "cfg_ok cfg" "dag_inv cfg s"
  shows "pend cfg s' \<subseteq> pend cfg s"
  using never_pending_again[OF assms] by (auto simp: pend_def)

lemma pend_less:
  assumes "run_steps cfg env s s'" "cfg_ok cfg" "dag_inv cfg s" "x \<in> pend cfg s" "rs_life s' x \<noteq> Some LPending"
  shows "card (pend cfg s') < card (pend cfg s)"
proof (rule psubset_card_mono[OF finite_pend])
  have "x \<notin> pend cfg s'" using assms(5) by (simp add: pend_def)
  with pend_mono[OF assms(1-3)] assms(4) show "pend cfg s' \<subset> pend cfg s" by blast
qed

lemma ready_ids_spec:
  assumes "cfg_ok cfg"
  shows "set (compute_ready_ids cfg (rs_life s)) = {x. \<exists>n. node_id n = x \<and> ready_node cfg s n}"
    and "distinct (compute_ready_ids cfg (rs_life s))"
proof -
  have by_id: "(case by_id_map (cf_nodes cfg) x of None \<Rightarrow> False | Some n \<Rightarrow> deps_done (rs_life s) n)
      \<longleftrightarrow> (\<exists>n \<in> set (cf_nodes cfg). node_id n = x \<and> deps_done (rs_life s) n)" if xm: "x \<in> set (ids_of (cf_nodes cfg))" for x
  proof -
    obtain n where n: "n \<in> set (cf_nodes cfg)" "node_id n = x" using xm by (auto simp: ids_of_def)
    then have "by_id_map (cf_nodes cfg) x = Some n" using by_id_cfg[OF assms] by blast
    then show ?thesis using n same_node[OF assms] by (metis option.simps(5))
  qed
  show "set (compute_ready_ids cfg (rs_life s)) = {x. \<exists>n. node_id n = x \<and> ready_node cfg s n}" (is "?L = ?R")
  proof (rule set_eqI)
    fix x
    show "x \<in> ?L \<longleftrightarrow> x \<in> ?R"
    proof (cases "x \<in> set (ids_of (cf_nodes cfg))")
      case True
      then show ?thesis using by_id[OF True] cfg_okD(3)[OF assms]
        by (auto simp: compute_ready_ids_def ready_node_def simp del: set_ids_of)
    next
      case False
      then have "x \<notin> ?R" by (auto simp: ready_node_def ids_of_def)
      with False show ?thesis using cfg_okD(3)[OF assms] by (simp add: compute_ready_ids_def del: set_ids_of)
    qed
  qed
  show "distinct (compute_ready_ids cfg (rs_life s))"
    using cfg_okD(2)[OF assms] by (simp add: compute_ready_ids_def)
qed

definition loop_exit :: "dag_cfg \<Rightarrow> run_st \<Rightarrow> bool" where
  "loop_exit cfg s \<longleftrightarrow> rs_js s = [] \<and>
     (if rs_abort s then pend cfg s = {}
      else \<forall>x \<in> pend cfg s. rs_taint s x = None \<and> (\<forall>n. node_id n = x \<longrightarrow> \<not> ready_node cfg s n))"

text \<open>The state after the skips of an iteration.\<close>

lemma after_skips:
  assumes "cfg_ok cfg" "dag_inv cfg s" "rs_js s = []"
  defines "s1 \<equiv> materialize_tainted_pending_skips cfg s"
  shows "run_steps cfg env s s1" "dag_inv cfg s1" "rs_js s1 = []" "\<forall>x \<in> pend cfg s1. rs_taint s1 x = None"
    "\<not> has_running_nodes cfg (rs_life s1)"
proof -
  have f: "run_steps cfg env s s1" "skip_frame s s1 {x \<in> set (cf_order cfg). tainted_pending s x}"
    unfolding s1_def by (rule skips_steps[OF assms(1)])+
  show st: "run_steps cfg env s s1" by (rule f(1))
  show inv: "dag_inv cfg s1" by (rule dag_inv_steps[OF st assms(1,2)])
  show js: "rs_js s1 = []" using f(2) assms(3) by (simp add: skip_frame_def)
  show "\<forall>x \<in> pend cfg s1. rs_taint s1 x = None"
    using f(2) by (auto simp: skip_frame_def pend_def tainted_pending_def split: if_splits)
  have "rs_life s1 x \<noteq> Some LRunning" for x using dag_invD(2)[OF inv] js by (simp add: inv_tasks_def)
  then show "\<not> has_running_nodes cfg (rs_life s1)" by (auto simp: has_running_nodes_def list_ex_iff)
qed

text \<open>One iteration, with the branch that needs no running task.\<close>

lemma wave_loop_unfold:
  assumes "cfg_ok cfg" "dag_inv cfg s" "rs_js s = []"
  defines "s1 \<equiv> materialize_tainted_pending_skips cfg s"
  shows "wave_loop (Suc fuel) cfg env s =
    (if rs_abort s1 then Some (Inr (), force_skip_fail_fast_pending cfg (unwrap_or (rs_aborter s1) []) s1)
     else if compute_ready_ids cfg (rs_life s1) = [] then Some (Inr (), s1)
     else case filter_ready_nodes_for_gates cfg env (max (cf_max_parallel cfg) 1) (compute_ready_ids cfg (rs_life s1)) [] s1 of
       (out, s2) \<Rightarrow>
         if out = [] then wave_loop fuel cfg env s2
         else bind_run (spawn_wave cfg env out (s2\<lparr> rs_js := [] \<rparr>)) (\<lambda>_ s.
              bind_run (drain_dispatch_wave (4 * length (cf_nodes cfg) + 1) cfg env s) (\<lambda>_ s.
              wave_loop fuel cfg env s)))"
  using after_skips(5)[OF assms(1-3)] by (simp add: Let_def s1_def)

lemma gate_phase:
  assumes "cfg_ok cfg" "\<not> rs_abort s1" "rs_js s1 = []"
    and "filter_ready_nodes_for_gates cfg env (max (cf_max_parallel cfg) 1) (compute_ready_ids cfg (rs_life s1)) [] s1 = (out, s2)"
  shows "run_steps cfg env s1 s2" "gate_post cfg s1 (max (cf_max_parallel cfg) 1) (compute_ready_ids cfg (rs_life s1)) out s2"
    "s2\<lparr> rs_js := [] \<rparr> = s2"
proof -
  have "gate_pre cfg s1 (max (cf_max_parallel cfg) 1) (compute_ready_ids cfg (rs_life s1)) []"
    using assms(2,3) ready_ids_spec[OF assms(1), of s1] by (auto simp: gate_pre_def)
  from gates_steps[OF assms(1) this assms(4)]
  show st: "run_steps cfg env s1 s2" "gate_post cfg s1 (max (cf_max_parallel cfg) 1) (compute_ready_ids cfg (rs_life s1)) out s2"
    by blast+
  then have "rs_js s2 = []" by (simp add: gate_post_def)
  then show "s2\<lparr> rs_js := [] \<rparr> = s2" by simp
qed

lemma wave_phase:
  assumes "cfg_ok cfg" "dag_inv cfg s2" "gate_post cfg s1 (max (cf_max_parallel cfg) 1) xs out s2"
    and "spawn_wave cfg env out s2 = Some (Inr u, s3)"
  shows "run_steps cfg env s2 s3" "dag_inv cfg s3" "\<forall>n \<in> set out. rs_life s3 (node_id n) \<noteq> Some LPending"
proof -
  have g: "\<forall>n \<in> set out. ready_node cfg s2 n \<and> dispatchable n" "distinct (map node_id out)"
    "length (rs_js s2) + length out \<le> max (cf_max_parallel cfg) 1"
    using assms(3) by (auto simp: gate_post_def)
  show "run_steps cfg env s2 s3" "\<forall>n \<in> set out. rs_life s3 (node_id n) \<noteq> Some LPending"
    using spawn_steps[OF assms(1,4) g] by blast+
  then show "dag_inv cfg s3" using dag_inv_steps[OF _ assms(1,2)] by blast
qed

theorem wave_loop_steps:
  assumes "cfg_ok cfg" "dag_inv cfg s" "rs_js s = []" "wave_loop fuel cfg env s = Some (Inr u, s')"
  shows "run_steps cfg env s s' \<and> loop_exit cfg s'"
  using assms(2-4)
proof (induction fuel arbitrary: s)
  case 0
  then show ?case by simp
next
  case (Suc fuel)
  define s1 where "s1 = materialize_tainted_pending_skips cfg s"
  note a = after_skips[OF assms(1) Suc.prems(1,2), folded s1_def]
  note un = Suc.prems(3)[unfolded wave_loop_unfold[OF assms(1) Suc.prems(1,2)], folded s1_def]
  show ?case
  proof (cases "rs_abort s1")
    case True
    define s2 where "s2 = force_skip_fail_fast_pending cfg (unwrap_or (rs_aborter s1) []) s1"
    have f: "run_steps cfg env s1 s2" "skip_frame s1 s2 {x \<in> set (cf_order cfg). rs_life s1 x = Some LPending}"
      unfolding s2_def by (rule force_skip_steps[OF assms(1) True a(3)])+
    have "s' = s2" using un True by (simp add: s2_def)
    moreover have "loop_exit cfg s2"
      using f(2) a(3) True by (auto simp: loop_exit_def skip_frame_def pend_def split: if_splits)
    ultimately show ?thesis using a(1) f(1) by (meson rtranclp_trans)
  next
    case na: False
    show ?thesis
    proof (cases "compute_ready_ids cfg (rs_life s1) = []")
      case True
      then have "s' = s1" using un na by simp
      moreover have "\<not> ready_node cfg s1 n" for n
        using ready_ids_spec(1)[OF assms(1), of s1] True by auto
      ultimately show ?thesis using a na by (simp add: loop_exit_def)
    next
      case False
      obtain out s2 where g: "filter_ready_nodes_for_gates cfg env (max (cf_max_parallel cfg) 1)
          (compute_ready_ids cfg (rs_life s1)) [] s1 = (out, s2)" by fastforce
      note gp = gate_phase[OF assms(1) na a(3) g]
      have i2: "dag_inv cfg s2" by (rule dag_inv_steps[OF gp(1) assms(1) a(2)])
      have to2: "run_steps cfg env s s2" using a(1) gp(1) by (meson rtranclp_trans)
      show ?thesis
      proof (cases "out = []")
        case True
        then have "wave_loop fuel cfg env s2 = Some (Inr u, s')" using un na False g by simp
        then show ?thesis using Suc.IH[OF i2] gp(2) to2 by (auto simp: gate_post_def intro: rtranclp_trans)
      next
        case no: False
        obtain s3 s4 where w: "spawn_wave cfg env out s2 = Some (Inr (), s3)"
          and d: "drain_dispatch_wave (4 * length (cf_nodes cfg) + 1) cfg env s3 = Some (Inr (), s4)"
          and l: "wave_loop fuel cfg env s4 = Some (Inr u, s')"
          using un na False g no by (auto simp: bind_run_Inr gp(3) simp del: drain_dispatch_wave.simps)
        note wp = wave_phase[OF assms(1) i2 gp(2) w]
        note dp = drain_steps[OF assms(1) wp(2) d]
        have i4: "dag_inv cfg s4" using dag_inv_steps[OF _ assms(1) wp(2)] dp by blast
        from Suc.IH[OF i4 _ l] dp to2 wp(1) show ?thesis by (meson rtranclp_trans)
      qed
    qed
  qed
qed


subsection \<open>Termination\<close>

lemma spawn_ends: "\<forall>n \<in> set ns. lists_end n \<Longrightarrow> spawn_wave cfg env ns s \<noteq> None"
proof (induction ns arbitrary: s)
  case (Cons n ns)
  have l: "lists_end n" and ih: "\<And>s. spawn_wave cfg env ns s \<noteq> None" using Cons by auto
  obtain a s1 where b: "bump_attempt (node_id n) s = (a, s1)" by fastforce
  have "prepare_dispatch_claim cfg env n a s1 \<noteq> None"
    unfolding prepare_dispatch_claim_def
    by (rule bind_run_ends[OF acquire_ends[OF l]]) (simp split: sum.split)
  then show ?case
    unfolding spawn_wave.simps b prod.case
    by (rule bind_run_ends) (use ih in \<open>auto split: claim_decision.split\<close>)
qed simp

theorem wave_loop_ends:
  assumes "cfg_ok cfg" "\<forall>m \<in> set (cf_nodes cfg). lists_end m"
    and "dag_inv cfg s" "rs_js s = []" "card (pend cfg s) < fuel"
  shows "wave_loop fuel cfg env s \<noteq> None"
  using assms(3-5)
proof (induction fuel arbitrary: s)
  case 0
  then show ?case by simp
next
  case (Suc fuel)
  define s1 where "s1 = materialize_tainted_pending_skips cfg s"
  note a = after_skips[OF assms(1) Suc.prems(1,2), folded s1_def]
  note un = wave_loop_unfold[OF assms(1) Suc.prems(1,2), of fuel env, folded s1_def]
  show ?case
  proof (cases "rs_abort s1 \<or> compute_ready_ids cfg (rs_life s1) = []")
    case True
    then show ?thesis unfolding un by (elim disjE) simp_all
  next
    case False
    then have na: "\<not> rs_abort s1" and ne: "compute_ready_ids cfg (rs_life s1) \<noteq> []" by auto
    obtain out s2 where g: "filter_ready_nodes_for_gates cfg env (max (cf_max_parallel cfg) 1)
        (compute_ready_ids cfg (rs_life s1)) [] s1 = (out, s2)" by fastforce
    note gp = gate_phase[OF assms(1) na a(3) g]
    have i2: "dag_inv cfg s2" by (rule dag_inv_steps[OF gp(1) assms(1) a(2)])
    have to2: "run_steps cfg env s s2" using a(1) gp(1) by (meson rtranclp_trans)
    have p1: "pend cfg s1 \<subseteq> pend cfg s" by (rule pend_mono[OF a(1) assms(1) Suc.prems(1)])
    have fewer: "card (pend cfg t) < fuel"
      if "run_steps cfg env s1 t" "x \<in> pend cfg s1" "rs_life t x \<noteq> Some LPending" for t x
      using pend_less[OF that(1) assms(1) a(2) that(2,3)] card_mono[OF finite_pend p1] Suc.prems(3) by linarith
    have pending: "node_id n \<in> pend cfg s1" if "ready_node cfg s1 n" for n
      using that cfg_okD(3)[OF assms(1)] by (auto simp: pend_def ready_node_def)
    show ?thesis
    proof (cases "out = []")
      case True
      obtain x where x: "x \<in> set (compute_ready_ids cfg (rs_life s1))" using ne by (cases "compute_ready_ids cfg (rs_life s1)") auto
      then have "x \<in> pend cfg s1" using ready_ids_spec(1)[OF assms(1), of s1] pending by auto
      moreover have "rs_life s2 x \<noteq> Some LPending" using gp(2) True x by (simp add: gate_post_def)
      ultimately have "card (pend cfg s2) < fuel" by (rule fewer[OF gp(1)])
      then have "wave_loop fuel cfg env s2 \<noteq> None" using Suc.IH[OF i2] gp(2) by (simp add: gate_post_def)
      then show ?thesis unfolding un using na ne g True by simp
    next
      case no: False
      obtain n where n: "n \<in> set out" using no by (cases out) auto
      have rd: "ready_node cfg s2 n" using gp(2) n by (simp add: gate_post_def)
      have l: "\<forall>n \<in> set out. lists_end n" using gp(2) assms(2) by (auto simp: gate_post_def ready_node_def)
      have "x \<in> pend cfg s1" if "x = node_id n" for x
        using rd that pend_mono[OF gp(1) assms(1) a(2)] cfg_okD(3)[OF assms(1)]
        by (auto simp: ready_node_def pend_def)
      then have np: "node_id n \<in> pend cfg s1" by blast
      have rest: "bind_run (drain_dispatch_wave (4 * length (cf_nodes cfg) + 1) cfg env s3)
          (\<lambda>_ s. wave_loop fuel cfg env s) \<noteq> None" if w: "spawn_wave cfg env out s2 = Some (Inr u, s3)" for u s3
      proof (rule bind_run_ends)
        note wp = wave_phase[OF assms(1) i2 gp(2) w]
        show "drain_dispatch_wave (4 * length (cf_nodes cfg) + 1) cfg env s3 \<noteq> None"
          by (rule drain_ends[OF assms(1,2) wp(2)]) (use weight_bound[OF wp(2) assms(1)] in simp)
        fix u s4 assume d: "drain_dispatch_wave (4 * length (cf_nodes cfg) + 1) cfg env s3 = Some (Inr u, s4)"
        note dp = drain_steps[OF assms(1) wp(2) d]
        have i4: "dag_inv cfg s4" using dag_inv_steps[OF _ assms(1) wp(2)] dp by blast
        have "rs_life s4 (node_id n) \<noteq> Some LPending"
          using never_pending_again[OF _ assms(1) wp(2)] dp wp(3) n by blast
        moreover have "run_steps cfg env s1 s4" using gp(1) wp(1) dp by (meson rtranclp_trans)
        ultimately have "card (pend cfg s4) < fuel" using fewer[OF _ np] by blast
        then show "wave_loop fuel cfg env s4 \<noteq> None" using Suc.IH[OF i4] dp by blast
      qed
      have "bind_run (spawn_wave cfg env out s2) (\<lambda>_ s.
            bind_run (drain_dispatch_wave (4 * length (cf_nodes cfg) + 1) cfg env s) (\<lambda>_ s.
              wave_loop fuel cfg env s)) \<noteq> None"
        by (rule bind_run_ends[OF spawn_ends[OF l]]) (rule rest)
      then show ?thesis unfolding un using na ne g no by (simp add: gp(3) del: drain_dispatch_wave.simps)
    qed
  qed
qed

subsection \<open>The outcome\<close>

definition below_pause :: "dag_cfg \<Rightarrow> run_st \<Rightarrow> string \<Rightarrow> bool" where
  "below_pause cfg s x \<longleftrightarrow> (\<exists>p. rs_life s p = Some LPaused \<and> x \<in> descendants (cf_nodes cfg) p)"

lemma waiting_below_pause:
  assumes "cfg_ok cfg" "dag_inv cfg s" "loop_exit cfg s"
  shows "x \<in> pend cfg s \<Longrightarrow> below_pause cfg s x"
proof (induction x rule: measure_induct_rule[where f = "\<lambda>x. LEAST i. i < length (cf_order cfg) \<and> cf_order cfg ! i = x"])
  case (less x)
  let ?ix = "\<lambda>x. LEAST i. i < length (cf_order cfg) \<and> cf_order cfg ! i = x"
  note inv = dag_invD[OF assms(2)]
  have na: "\<not> rs_abort s" and js: "rs_js s = []" and ex: "rs_taint s x = None" "\<And>n. node_id n = x \<Longrightarrow> \<not> ready_node cfg s n"
    using assms(3) less.prems by (auto simp: loop_exit_def split: if_splits)
  have x: "x \<in> set (cf_order cfg)" "rs_life s x = Some LPending" using less.prems by (auto simp: pend_def)
  then obtain n where n: "n \<in> set (cf_nodes cfg)" "node_id n = x" using cfg_okD(3)[OF assms(1)] by auto
  then have "\<not> deps_done (rs_life s) n" using ex(2)[OF n(2)] x(2) by (simp add: ready_node_def)
  then obtain d where d: "d \<in> set (depends_on n)" "rs_life s d \<noteq> Some LSucceeded"
    by (auto simp: deps_done_def list_all_iff)
  have ch: "(d, x) \<in> child_rel (cf_nodes cfg)" using d(1) n by (auto simp: child_rel_def)
  then have desc: "x \<in> descendants (cf_nodes cfg) d" by (auto simp: descendants_def)
  have din: "d \<in> set (ids_of (cf_nodes cfg))" using assms(1) n d(1) unfolding cfg_ok_def by blast
  then obtain l where l: "rs_life s d = Some l" using inv(1) unfolding inv_life_def by blast
  have nt: "l \<noteq> LFailed \<and> l \<noteq> LSkipped"
  proof (rule ccontr)
    assume "\<not> (l \<noteq> LFailed \<and> l \<noteq> LSkipped)"
    then have "descendants (cf_nodes cfg) d \<subseteq> dom (rs_taint s)" using inv(6) l na unfolding inv_taint_def by blast
    with desc ex(1) show False by blast
  qed
  have nr: "l \<noteq> LRunning" using inv(2) js l by (auto simp: inv_tasks_def)
  have "recorded d l (rs_results s d)" using inv(4) l unfolding inv_results_def by blast
  then have nc: "l \<noteq> LClaimed" "l \<noteq> LReady" by auto
  show ?case
  proof (cases "l = LPaused")
    case True
    then show ?thesis using l desc by (auto simp: below_pause_def)
  next
    case False
    then have lp: "l = LPending" using nt nr nc d(2) l by (cases l) auto
    have dp: "d \<in> pend cfg s" using din l lp cfg_okD(3)[OF assms(1)] by (auto simp: pend_def)
    obtain i where i: "i < length (cf_order cfg)" "cf_order cfg ! i = x" using x(1) by (auto simp: in_set_conv_nth)
    have "d \<in> set (take i (cf_order cfg))"
    proof -
      have "set (deps_of (cf_nodes cfg) (cf_order cfg ! i)) \<subseteq> set (take i (cf_order cfg))"
        using assms(1) i(1) by (simp add: cfg_ok_def topo_order_def topo_prefix_def)
      then show ?thesis using deps_of_node[OF cfg_okD(1)[OF assms(1)] n(1)] n(2) i(2) d(1) by auto
    qed
    then obtain j where j: "j < i" "cf_order cfg ! j = d" by (auto simp: in_set_conv_nth)
    have "?ix d \<le> j" by (rule Least_le) (use j i in auto)
    moreover have "?ix x = i"
      by (rule Least_equality) (use i cfg_okD(2)[OF assms(1)] in \<open>auto simp: nth_eq_iff_index_eq\<close>)
    ultimately have "?ix d < ?ix x" using j(1) by simp
    from less.IH[OF this dp] obtain p where p: "rs_life s p = Some LPaused" "d \<in> descendants (cf_nodes cfg) p"
      by (auto simp: below_pause_def)
    then show ?thesis using ch by (auto simp: below_pause_def descendants_def intro: trancl_into_trancl)
  qed
qed

end
