(* ===== verification/Lease_Balance.thy ===== *)
theory Lease_Balance
  imports Dag_Execution
begin

text \<open>
  The leases of a run. Every lease a run acquired is given back exactly once, or belongs to the claim of
  a running task; of those given back, the kernel released some and failed the release of others
  (\<open>lost\<close>: they stay until they expire). So a run that returns an outcome has tried to give back
  every lease, and when no release fails it holds none. A run that ends because the lease kernel fails
  has not.
\<close>

subsection \<open>Claim ids tell nodes apart\<close>

lemma last_colon:
  assumes "x @ CHR '':'' # s = y @ CHR '':'' # t" "CHR '':'' \<notin> set s" "CHR '':'' \<notin> set t"
  shows "x = y"
proof -
  have "length s = length t"
  proof -
    have r: "rev s @ CHR '':'' # rev x = rev t @ CHR '':'' # rev y" using arg_cong[OF assms(1), of rev] by simp
    have tk: "takeWhile (\<lambda>c. c \<noteq> CHR '':'') (u @ CHR '':'' # v) = u" if "CHR '':'' \<notin> set u" for u v
      using that by (induction u) auto
    have "rev s = rev t"
      using tk[of "rev s" "rev x"] tk[of "rev t" "rev y"] assms(2,3) unfolding r by simp
    then show ?thesis by simp
  qed
  with assms(1) show ?thesis by (simp add: append_eq_append_conv)
qed

lemma no_colon_digits: "CHR '':'' \<notin> set (show_nat n)"
proof
  assume "CHR '':'' \<in> set (show_nat n)"
  then obtain d where "d < 10" "CHR '':'' = digit_char d" using show_nat_digits by blast
  then have "of_char (CHR '':'') = (of_char (digit_char d) :: nat)" by simp
  with \<open>d < 10\<close> show False by (simp add: digit_char_def)
qed

lemma claim_id_node:
  assumes "derive_plan_dag_claim_id p x a = derive_plan_dag_claim_id p y b" shows "x = y"
proof -
  have "(''plan-dag:'' @ p @ '':'' @ x) @ CHR '':'' # show_nat (unat a) = (''plan-dag:'' @ p @ '':'' @ y) @ CHR '':'' # show_nat (unat b)"
    using assms by (simp add: derive_plan_dag_claim_id_def)
  from last_colon[OF this no_colon_digits no_colon_digits] show ?thesis by simp
qed

subsection \<open>The balance\<close>

fun acquired_of :: "dag_event \<Rightarrow> string multiset" where
  "acquired_of (EvLeaseAcquired l) = {#l#}" | "acquired_of _ = {#}"

fun released_of :: "dag_event \<Rightarrow> string multiset" where
  "released_of (EvLeaseReleased l) = {#l#}" | "released_of _ = {#}"

fun lost_of :: "dag_event \<Rightarrow> string multiset" where
  "lost_of (EvReleaseFailed l) = {#l#}" | "lost_of _ = {#}"

definition acquired :: "dag_event list \<Rightarrow> string multiset" where
  "acquired es = sum_list (map acquired_of es)"

definition released :: "dag_event list \<Rightarrow> string multiset" where
  "released es = sum_list (map released_of es)"

definition lost :: "dag_event list \<Rightarrow> string multiset" where
  "lost es = sum_list (map lost_of es)"

lemma acquired_simps [simp]:
  "acquired [] = {#}" "acquired (e # es) = acquired_of e + acquired es" "acquired (es @ fs) = acquired es + acquired fs"
  "acquired (map EvLeaseAcquired ls) = mset ls" "acquired (map EvLeaseReleased ls) = {#}"
  "acquired (map EvWorkstation cs) = {#}"
proof -
  show "acquired (map EvLeaseAcquired ls) = mset ls" by (induction ls) (auto simp: acquired_def)
  show "acquired (map EvLeaseReleased ls) = {#}" by (induction ls) (auto simp: acquired_def)
  show "acquired (map EvWorkstation cs) = {#}" by (induction cs) (auto simp: acquired_def)
qed (auto simp: acquired_def)

lemma released_simps [simp]:
  "released [] = {#}" "released (e # es) = released_of e + released es" "released (es @ fs) = released es + released fs"
  "released (map EvLeaseReleased ls) = mset ls" "released (map EvLeaseAcquired ls) = {#}"
  "released (map EvWorkstation cs) = {#}"
proof -
  show "released (map EvLeaseReleased ls) = mset ls" by (induction ls) (auto simp: released_def)
  show "released (map EvLeaseAcquired ls) = {#}" by (induction ls) (auto simp: released_def)
  show "released (map EvWorkstation cs) = {#}" by (induction cs) (auto simp: released_def)
qed (auto simp: released_def)

lemma lost_simps [simp]:
  "lost [] = {#}" "lost (e # es) = lost_of e + lost es" "lost (es @ fs) = lost es + lost fs"
  "lost (map EvLeaseReleased ls) = {#}" "lost (map EvLeaseAcquired ls) = {#}"
proof -
  show "lost (map EvLeaseReleased ls) = {#}" by (induction ls) (auto simp: lost_def)
  show "lost (map EvLeaseAcquired ls) = {#}" by (induction ls) (auto simp: lost_def)
qed (auto simp: lost_def)

lemma release_attempts_account:
  "release_attempts es ls \<Longrightarrow> acquired es = {#} \<and> released es + lost es = mset ls"
  unfolding release_attempts_def
  by (induction rule: list_all2_induct) (auto simp: release_event_def)

lemma gave_back_account:
  assumes "gave_back env ls es"
  shows "acquired es = {#}" "released es + lost es = mset ls" "releases_work env \<Longrightarrow> lost es = {#}"
  using release_attempts_account assms by (auto simp: gave_back_def)

definition holding :: "run_st \<Rightarrow> string \<Rightarrow> string list" where
  "holding s x = (case rs_active s x of None \<Rightarrow> [] | Some cid \<Rightarrow>
     (case registry_get (rs_registry s) cid of None \<Rightarrow> [] | Some c \<Rightarrow> work_lease_ids c))"

definition balanced :: "dag_env \<Rightarrow> dag_cfg \<Rightarrow> run_st \<Rightarrow> bool" where
  "balanced env cfg s \<longleftrightarrow> finite (dom (rs_active s)) \<and>
     (\<forall>x cid. rs_active s x = Some cid \<longrightarrow>
        (\<exists>a. cid = derive_plan_dag_claim_id (cf_plan_id cfg) x a) \<and> reg.held (rs_registry s) cid) \<and>
     acquired (rs_log s) = released (rs_log s) + lost (rs_log s) + (\<Sum>x \<in> dom (rs_active s). mset (holding s x)) \<and>
     (releases_work env \<longrightarrow> lost (rs_log s) = {#})"

lemma balanced_active_inj:
  "balanced env cfg s \<Longrightarrow> rs_active s x = Some cid \<Longrightarrow> rs_active s y = Some cid \<Longrightarrow> x = y"
  unfolding balanced_def using claim_id_node by metis

text \<open>Operations that touch no claim.\<close>

lemma holding_frame:
  "rs_active s' = rs_active s \<Longrightarrow> rs_registry s' = rs_registry s \<Longrightarrow> holding s' = holding s"
  by (rule ext) (simp add: holding_def split: option.split)

lemma holding_simps [simp]:
  "holding (set_life x l s) = holding s" "holding (ticks k s) = holding s"
  "holding (put_result x r s) = holding s" "holding (taint_from cfg n s) = holding s"
  "holding (abort_if b x s) = holding s" "holding (emits es s) = holding s"
  by (rule holding_frame; simp)+

lemma balanced_frame:
  assumes "balanced env cfg s" "rs_active s' = rs_active s" "rs_registry s' = rs_registry s"
    and "rs_log s' = rs_log s @ es" "acquired es = released es + lost es" "releases_work env \<Longrightarrow> lost es = {#}"
  shows "balanced env cfg s'"
  using assms holding_frame[OF assms(2,3)] by (simp add: balanced_def ac_simps)

lemma balanced_quiet [simp]:
  "balanced env cfg (set_life x l s) \<longleftrightarrow> balanced env cfg s" "balanced env cfg (ticks k s) \<longleftrightarrow> balanced env cfg s"
  "balanced env cfg (put_result x r s) \<longleftrightarrow> balanced env cfg s" "balanced env cfg (taint_from cfg n s) \<longleftrightarrow> balanced env cfg s"
  "balanced env cfg (abort_if b x s) \<longleftrightarrow> balanced env cfg s"
  by (simp_all add: balanced_def)

lemma balanced_emit:
  "acquired_of e = {#} \<Longrightarrow> released_of e = {#} \<Longrightarrow> lost_of e = {#} \<Longrightarrow> balanced env cfg (emit e s) \<longleftrightarrow> balanced env cfg s"
  by (simp add: balanced_def emit_emits)

lemma balanced_release:
  assumes "balanced env cfg s"
  shows "balanced env cfg (release_claim_if_recorded env n a lbl s)"
    and "dom (rs_active (release_claim_if_recorded env n a lbl s)) = dom (rs_active s) - {node_id n}"
proof -
  let ?x = "node_id n" and ?s' = "release_claim_if_recorded env n a lbl s"
  have b: "finite (dom (rs_active s))"
    "acquired (rs_log s) = released (rs_log s) + lost (rs_log s) + (\<Sum>x \<in> dom (rs_active s). mset (holding s x))"
    using assms by (auto simp: balanced_def)
  have both: "balanced env cfg ?s' \<and> dom (rs_active ?s') = dom (rs_active s) - {?x}"
  proof (cases "rs_active s ?x")
    case None
    then have "?s' = s" by (simp add: release_claim_if_recorded_def)
    with assms None show ?thesis by auto
  next
    case (Some cid)
    then obtain c where c: "registry_get (rs_registry s) cid = Some c" "released_at c = None"
      using assms by (auto simp: balanced_def reg.held_def)
    let ?now = "env_now env (rs_tick s)"
    let ?r = "release cid ?now (rs_registry s)"
    have f: "fst ?r = Some (c\<lparr> released_at := Some ?now \<rparr>)" by (rule reg.release_once(1)[OF c])
    have "?r = (Some (c\<lparr> released_at := Some ?now \<rparr>), snd ?r)" using f by (metis prod.collapse)
    from release_effect[OF Some this, of a lbl] obtain es where
      e: "?s' = emits (es @ [EvReleased ?x a lbl]) (ticks (length (work_lease_ids c))
         (s\<lparr> rs_active := (rs_active s)(?x := None), rs_registry := snd ?r \<rparr>))"
      "gave_back env (work_lease_ids c) es"
      by auto
    have s': "rs_active ?s' = (rs_active s)(?x := None)" "rs_registry ?s' = snd ?r"
      "rs_log ?s' = rs_log s @ es @ [EvReleased ?x a lbl]"
      by (simp_all add: e(1))
    have other: "rs_active s y = Some d \<Longrightarrow> y \<noteq> ?x \<Longrightarrow> d \<noteq> cid" for y d
      using balanced_active_inj[OF assms Some] by blast
    have hold: "holding ?s' y = holding s y" if "y \<noteq> ?x" for y
      using that other[of y] by (auto simp: holding_def s' reg.rel_get split: option.splits)
    have hx: "holding s ?x = work_lease_ids c" using Some c by (simp add: holding_def)
    have d: "dom (rs_active ?s') = dom (rs_active s) - {?x}" by (auto simp: s')
    have "(\<Sum>x \<in> dom (rs_active s). mset (holding s x)) =
        mset (work_lease_ids c) + (\<Sum>x \<in> dom (rs_active ?s'). mset (holding ?s' x))"
      using sum.remove[OF b(1), of ?x "\<lambda>x. mset (holding s x)"] Some hold hx by (simp add: d domI)
    then have "acquired (rs_log ?s') = released (rs_log ?s') + lost (rs_log ?s') +
        (\<Sum>x \<in> dom (rs_active ?s'). mset (holding ?s' x))"
      using b(2) gave_back_account(1,2)[OF e(2)] by (simp add: s'(3) ac_simps)
    moreover have "releases_work env \<longrightarrow> lost (rs_log ?s') = {#}"
      using assms gave_back_account(3)[OF e(2)] by (simp add: s'(3) balanced_def)
    moreover have "(\<exists>a. e = derive_plan_dag_claim_id (cf_plan_id cfg) y a) \<and> reg.held (rs_registry ?s') e"
      if "rs_active ?s' y = Some e" for y e
      using that assms other[of y e] by (auto simp: balanced_def s' reg.held_rel split: if_splits)
    ultimately show ?thesis using b(1) d unfolding balanced_def by simp
  qed
  then show "balanced env cfg ?s'" "dom (rs_active ?s') = dom (rs_active s) - {?x}" by blast+
qed

lemma balanced_acquire:
  assumes "balanced env cfg s" "rs_active s (node_id n) = None"
    and "acquire_plan_dag_work_leases cfg env n a s = Some (Inr (Inr c), s')"
  shows "balanced env cfg (record_acquired_claim n a c s')"
proof -
  let ?x = "node_id n" and ?t = "record_acquired_claim n a c s'"
  from acquire_work_frame[OF assms(3)] obtain k got where
    s': "s' = emits (map EvLeaseAcquired got) (ticks k s)" and
    c: "work_lease_ids c = got" "released_at c = None" "claim_id c = derive_plan_dag_claim_id (cf_plan_id cfg) ?x a"
    by auto
  have b: "finite (dom (rs_active s))"
    "acquired (rs_log s) = released (rs_log s) + lost (rs_log s) + (\<Sum>x \<in> dom (rs_active s). mset (holding s x))"
    "\<And>x d. rs_active s x = Some d \<Longrightarrow> (\<exists>a. d = derive_plan_dag_claim_id (cf_plan_id cfg) x a) \<and> reg.held (rs_registry s) d"
    using assms(1) by (auto simp: balanced_def)
  have t: "rs_active ?t = (rs_active s)(?x \<mapsto> claim_id c)" "rs_registry ?t = record_acquired c (rs_registry s)"
    "rs_log ?t = rs_log s @ map EvLeaseAcquired got @ [EvClaimed ?x a]"
    by (simp_all add: s')
  have fresh: "rs_active s y = Some d \<Longrightarrow> d \<noteq> claim_id c" for y d
    using b(3)[of y d] c(3) claim_id_node assms(2) by fastforce
  have hold: "holding ?t y = holding s y" if "y \<noteq> ?x" for y
    using that fresh[of y] by (auto simp: holding_def s' reg.get_rec split: option.splits)
  have hx: "holding ?t ?x = got" using c by (simp add: holding_def t reg.get_rec)
  have notin: "?x \<notin> dom (rs_active s)" using assms(2) by blast
  have d: "dom (rs_active ?t) = insert ?x (dom (rs_active s))" by (simp add: s')
  have "(\<Sum>x \<in> dom (rs_active ?t). mset (holding ?t x)) = mset got + (\<Sum>x \<in> dom (rs_active s). mset (holding ?t x))"
    unfolding d by (subst sum.insert[OF b(1) notin]) (simp only: hx)
  also have "(\<Sum>x \<in> dom (rs_active s). mset (holding ?t x)) = (\<Sum>x \<in> dom (rs_active s). mset (holding s x))"
    by (rule sum.cong[OF refl]) (use hold notin in metis)
  finally have "acquired (rs_log ?t) = released (rs_log ?t) + lost (rs_log ?t) + (\<Sum>x \<in> dom (rs_active ?t). mset (holding ?t x))"
    using b(2) by (simp add: t(3) ac_simps del: record_acquired_fields)
  moreover have "(\<exists>a. e = derive_plan_dag_claim_id (cf_plan_id cfg) y a) \<and> reg.held (rs_registry ?t) e"
    if ye: "rs_active ?t y = Some e" for y e
  proof (cases "y = ?x")
    case True
    then have "e = claim_id c" using ye by simp
    then show ?thesis using True c by (auto simp: reg.held_rec)
  next
    case False
    then show ?thesis using ye b(3)[of y e] c by (auto simp: s' reg.held_rec)
  qed
  moreover have "releases_work env \<longrightarrow> lost (rs_log ?t) = {#}"
    using assms(1) by (simp add: t(3) balanced_def del: record_acquired_fields)
  ultimately show ?thesis using b(1) d unfolding balanced_def by simp
qed

lemma balanced_refused:
  assumes "balanced env cfg s" "acquire_plan_dag_work_leases cfg env n a s = Some (Inr (Inl c), s')"
  shows "balanced env cfg s'"
proof -
  from acquire_work_frame[OF assms(2)] obtain k got fs where
    s': "s' = emits (map EvLeaseAcquired got @ fs) (ticks k s)" "gave_back env got fs" by auto
  show ?thesis
    by (rule balanced_frame[OF assms(1), of _ "map EvLeaseAcquired got @ fs"])
      (use gave_back_account[OF s'(2)] in \<open>simp_all add: s'(1)\<close>)
qed


subsection \<open>Steps keep the balance\<close>

lemma no_lease_events:
  assumes "\<forall>l. EvLeaseAcquired l \<notin> set es \<and> \<not> (\<exists>e \<in> set es. release_event e l)"
  shows "acquired es = {#}" "released es = {#}" "lost es = {#}"
proof -
  have "acquired_of e = {#} \<and> released_of e = {#} \<and> lost_of e = {#}" if "e \<in> set es" for e
    using assms that by (cases e) (auto simp: release_event_def)
  then show "acquired es = {#}" "released es = {#}" "lost es = {#}"
    by (induction es) (auto simp: acquired_def released_def lost_def)
qed

lemma balanced_rollback:
  assumes "rollback_pass cfg env n a s = Some (rb, s')" "balanced env cfg s"
  shows "balanced env cfg s' \<and> rs_active s' = rs_active s \<and> rs_js s' = rs_js s"
proof -
  from rollback_pass_frame[OF assms(1)] obtain es where
    f: "same_core s s'" "rs_registry s' = rs_registry s" "rs_active s' = rs_active s" "rs_log s' = rs_log s @ es"
    and e: "\<forall>l. EvLeaseAcquired l \<notin> set es \<and> \<not> (\<exists>e \<in> set es. release_event e l)" by blast
  have "balanced env cfg s'"
    by (rule balanced_frame[OF assms(2) f(3,2,4)]) (simp_all add: no_lease_events[OF e])
  with f show ?thesis by (simp add: same_core_def)
qed

lemma release_js: "rs_js (release_claim_if_recorded env n a lbl s) = rs_js s"
  using release_frame[of s env n a lbl] by (simp add: same_core_def)

lemma balanced_success:
  assumes "record_successful_dispatch cfg env n out a s = Some (ff, s')" "balanced env cfg s"
  shows "balanced env cfg s' \<and> dom (rs_active s') = dom (rs_active s) - {node_id n} \<and> rs_js s' = rs_js s"
proof -
  obtain acc where e: "evaluate_success_acceptance (cf_plan_id cfg) (cf_version cfg) n (do_payload out) (rs_results s) = Some acc"
    using assms(1) by (auto simp: record_successful_dispatch_def bind_eq_Some_conv)
  define s1 where "s1 = (if sa_active acc then emit (EvAcceptance (node_id n) a (acc_status (sa_acceptance acc))) s else s)"
  define s2 where "s2 = release_claim_if_recorded env n a (sa_label acc) (set_life (node_id n) (sa_lifecycle acc) s1)"
  define res where "res = (\<lambda>rb. \<lparr> nr_id = node_id n, nr_target = do_target out, nr_state = sa_state acc,
                nr_dispatch_strategy = do_strategy out, nr_inner_payload = do_payload out,
                nr_attempts_made = a, nr_max_attempts = effective_max_attempts n,
                nr_retry_skipped_non_retryable = False, nr_rollback = rb,
                nr_acceptance = (if sa_active acc then Some (sa_acceptance acc) else None) \<rparr>)"
  have b0: "balanced env cfg s1" "rs_active s1 = rs_active s" "rs_js s1 = rs_js s"
    using assms(2) by (simp_all add: s1_def balanced_emit) (simp_all add: emit_emits)
  then have b1: "balanced env cfg (set_life (node_id n) (sa_lifecycle acc) s1)" by simp
  have b2: "balanced env cfg s2" "dom (rs_active s2) = dom (rs_active s) - {node_id n}" "rs_js s2 = rs_js s"
    using balanced_release[OF b1, of n a "sa_label acc"] b0 by (simp_all add: s2_def release_js)
  let ?p = "if sa_rejected acc then rollback_pass cfg env n a s2 else Some (None, s2)"
  have main: "record_successful_dispatch cfg env n out a s = Option.bind ?p (\<lambda>(rb, s3).
      Some (sa_rejected acc \<and> is_fail_fast n,
        put_result (node_id n) (res rb) (if sa_rejected acc then taint_from cfg n s3 else s3)))"
    by (simp add: record_successful_dispatch_def e Let_def s1_def s2_def res_def)
  obtain rb s3 where p: "?p = Some (rb, s3)"
    and s': "s' = put_result (node_id n) (res rb) (if sa_rejected acc then taint_from cfg n s3 else s3)"
    using assms(1) unfolding main by (cases ?p) auto
  have "balanced env cfg s3 \<and> rs_active s3 = rs_active s2 \<and> rs_js s3 = rs_js s2"
    using p balanced_rollback[of cfg env n a s2 rb s3] b2(1) by (auto split: if_splits)
  with b2 show ?thesis by (simp add: s')
qed

lemma balanced_failure:
  assumes "record_final_failure cfg env n out a s = Some (ff, s')" "balanced env cfg s"
  shows "balanced env cfg s' \<and> dom (rs_active s') = dom (rs_active s) - {node_id n} \<and> rs_js s' = rs_js s"
proof -
  define s2 where "s2 = release_claim_if_recorded env n a ''failed'' (set_life (node_id n) LFailed s)"
  have b1: "balanced env cfg (set_life (node_id n) LFailed s)" using assms(2) by simp
  have b2: "balanced env cfg s2" "dom (rs_active s2) = dom (rs_active s) - {node_id n}" "rs_js s2 = rs_js s"
    using balanced_release[OF b1, of n a "''failed''"] by (simp_all add: s2_def release_js)
  obtain rb s3 r where p: "rollback_pass cfg env n a s2 = Some (rb, s3)"
    and s': "s' = taint_from cfg n (put_result (node_id n) r s3)"
    using assms(1) by (cases "rollback_pass cfg env n a s2")
      (auto simp: record_final_failure_def Let_def s2_def[symmetric])
  from balanced_rollback[OF p b2(1)] b2 show ?thesis by (simp add: s')
qed

lemma balanced_retry:
  assumes "retry_failed_node_if_allowed cfg env n out a s = Some (Inr b, s')" "balanced env cfg s"
  shows "balanced env cfg s' \<and>
    (if b then dom (rs_active s') = insert (node_id n) (dom (rs_active s)) \<and> rs_js s' = rs_js s @ [n]
     else dom (rs_active s') - {node_id n} = dom (rs_active s) - {node_id n} \<and> rs_js s' = rs_js s)"
proof (cases "plan_node_should_retry a (effective_max_attempts n) (do_non_retryable out) (rs_abort s)")
  case False
  with assms show ?thesis by (auto simp: retry_failed_node_if_allowed_def)
next
  case True
  define s1 where "s1 = release_claim_if_recorded env n a ''failed_will_retry'' s"
  have b1: "balanced env cfg s1" "dom (rs_active s1) = dom (rs_active s) - {node_id n}" "rs_js s1 = rs_js s"
    using balanced_release[OF assms(2), of n a "''failed_will_retry''"] by (simp_all add: s1_def release_js)
  obtain c s2 where b: "bump_attempt (node_id n) s1 = (c, s2)" by fastforce
  note bf = bump_fields[OF b]
  have b2: "balanced env cfg s2" "rs_active s2 = rs_active s1" "rs_js s2 = rs_js s1"
    using b1(1) bf(2) by (auto intro!: balanced_frame[of env cfg s1 _ "[]"])
  have main: "retry_failed_node_if_allowed cfg env n out a s =
     bind_run (acquire_plan_dag_work_leases cfg env n c s2) (\<lambda>r s.
          case r of Inl _ \<Rightarrow> Some (Inr False, s)
          | Inr cl \<Rightarrow> Some (Inr True, spawn_dispatch_attempt n c (record_acquired_claim n c cl s)))"
    using True b by (simp add: retry_failed_node_if_allowed_def s1_def)
  obtain r s3 where q: "acquire_plan_dag_work_leases cfg env n c s2 = Some (Inr r, s3)"
    and k: "(case r of Inl _ \<Rightarrow> Some (Inr False, s3)
          | Inr cl \<Rightarrow> Some (Inr True, spawn_dispatch_attempt n c (record_acquired_claim n c cl s3))) = Some (Inr b :: string + bool, s')"
    using assms(1) unfolding main bind_run_Inr by (elim exE conjE) (rule that)
  have f3: "rs_active s3 = rs_active s2" "rs_js s3 = rs_js s2"
    using acquire_same_core[OF q] by (auto simp: same_core_def)
  show ?thesis
  proof (cases r)
    case (Inl x)
    have b3: "balanced env cfg s3" by (rule balanced_refused[OF b2(1) q[unfolded Inl]])
    have s': "s' = s3" "b = False" using k Inl by simp_all
    have "rs_active s3 = rs_active s1" using f3(1) b2(2) by (rule trans)
    then have "dom (rs_active s3) - {node_id n} = dom (rs_active s) - {node_id n}" unfolding b1(2)[symmetric]
      using b1(2) by auto
    moreover have "rs_js s3 = rs_js s" unfolding f3(2) b2(3) b1(3) by (rule refl)
    ultimately show ?thesis unfolding s' using b3 by simp
  next
    case (Inr cl)
    have "node_id n \<notin> dom (rs_active s1)" unfolding b1(2) by simp
    then have "rs_active s2 (node_id n) = None" unfolding b2(2) by (simp add: domIff)
    from balanced_acquire[OF b2(1) this q[unfolded Inr]]
    have "balanced env cfg (spawn_dispatch_attempt n c (record_acquired_claim n c cl s3))"
      by (rule balanced_frame[of _ _ _ _ "[EvRunning (node_id n) c]"]) simp_all
    moreover have "s' = spawn_dispatch_attempt n c (record_acquired_claim n c cl s3)" "b" using k Inr by simp_all
    moreover have "dom (rs_active (spawn_dispatch_attempt n c (record_acquired_claim n c cl s3))) =
        insert (node_id n) (dom (rs_active s))"
    proof -
      have "dom (rs_active s3) = dom (rs_active s) - {node_id n}" unfolding f3(1) b2(2) by (rule b1(2))
      then show ?thesis by simp
    qed
    moreover have "rs_js s3 = rs_js s" unfolding f3(2) b2(3) b1(3) by (rule refl)
    ultimately show ?thesis by simp
  qed
qed

lemma balanced_joined:
  assumes "handle_joined cfg env n out s = Some (Inr (), s')" "balanced env cfg s"
  shows "balanced env cfg s' \<and>
    (dom (rs_active s') = dom (rs_active s) - {node_id n} \<and> rs_js s' = rs_js s \<or>
     dom (rs_active s') = insert (node_id n) (dom (rs_active s)) \<and> rs_js s' = rs_js s @ [n])"
proof -
  define a where "a = unwrap_or (rs_attempts s (node_id n)) 1"
  define ok where "ok = (case do_class out of Inl _ \<Rightarrow> False | Inr _ \<Rightarrow> True)"
  define s1 where "s1 = emit (EvFinished (node_id n) a ok) s"
  have b1: "balanced env cfg s1" "rs_active s1 = rs_active s" "rs_js s1 = rs_js s"
    using assms(2) by (simp_all add: s1_def balanced_emit) (simp_all add: emit_emits)
  have main: "handle_joined cfg env n out s =
     (if ok then map_option (\<lambda>(ff, s). (Inr (), abort_if ff (node_id n) s)) (record_successful_dispatch cfg env n out a s1)
      else bind_run (retry_failed_node_if_allowed cfg env n out a s1) (\<lambda>retried s.
           if retried then Some (Inr (), s)
           else map_option (\<lambda>(ff, s). (Inr (), abort_if ff (node_id n) s)) (record_final_failure cfg env n out a s)))"
    by (simp add: handle_joined_def Let_def a_def ok_def s1_def cong: if_cong)
  show ?thesis
  proof (cases ok)
    case True
    then obtain ff s2 where r: "record_successful_dispatch cfg env n out a s1 = Some (ff, s2)"
      and s': "s' = abort_if ff (node_id n) s2"
      using assms(1) unfolding main by auto
    from balanced_success[OF r b1(1)] b1 show ?thesis by (simp add: s')
  next
    case False
    then obtain b s2 where r: "retry_failed_node_if_allowed cfg env n out a s1 = Some (Inr b, s2)"
      and k: "(if b then Some (Inr (), s2)
           else map_option (\<lambda>(ff, s). (Inr (), abort_if ff (node_id n) s)) (record_final_failure cfg env n out a s2))
         = Some (Inr () :: string + unit, s')"
      using assms(1) unfolding main by (simp add: bind_run_Inr) (elim exE conjE, rule that)
    note br = balanced_retry[OF r b1(1)]
    show ?thesis
    proof (cases b)
      case True
      then show ?thesis using br k b1 by simp
    next
      case nb: False
      then obtain ff s3 where f: "record_final_failure cfg env n out a s2 = Some (ff, s3)"
        and s': "s' = abort_if ff (node_id n) s3"
        using k by auto
      have "balanced env cfg s2" using br by blast
      from balanced_failure[OF f this] br nb b1 show ?thesis by (simp add: s')
    qed
  qed
qed

definition lease_ok :: "dag_env \<Rightarrow> dag_cfg \<Rightarrow> run_st \<Rightarrow> bool" where
  "lease_ok env cfg s \<longleftrightarrow> balanced env cfg s \<and> dom (rs_active s) = node_id ` set (rs_js s)"

lemma balanced_skip [simp]: "balanced env cfg (skip_node n st r s) \<longleftrightarrow> balanced env cfg s"
  by (simp add: skip_node_def balanced_emit)

lemma balanced_pause [simp]: "balanced env cfg (pause_node env n s) \<longleftrightarrow> balanced env cfg s"
  by (simp add: pause_node_def balanced_emit split: prod.split)

lemma lease_ok_step:
  assumes "run_step cfg env s s'" "dag_inv cfg s" "lease_ok env cfg s"
  shows "lease_ok env cfg s'"
proof -
  have b: "balanced env cfg s" and d: "dom (rs_active s) = node_id ` set (rs_js s)"
    using assms(3) by (auto simp: lease_ok_def)
  note tk = dag_invD(2)[OF assms(2)]
  have free: "rs_active s (node_id n) = None" if "ready_node cfg s n" for n
  proof -
    have "\<not> rs_life s (node_id n) = Some LRunning" using that by (simp add: ready_node_def)
    then have "node_id n \<notin> dom (rs_active s)" using tk unfolding inv_tasks_def d by blast
    then show ?thesis by blast
  qed
  show ?thesis
    using assms(1)
  proof (cases rule: run_step.cases)
    case (Dispatch_Node n a s1 c s2)
    have b1: "balanced env cfg s1" "rs_active s1 = rs_active s" "rs_js s1 = rs_js s"
      using b bump_fields(2)[OF Dispatch_Node(5)] by (auto intro!: balanced_frame[of env cfg s _ "[]"])
    have "balanced env cfg (record_acquired_claim n a c s2)"
      by (rule balanced_acquire[OF b1(1) _ Dispatch_Node(6)]) (simp add: b1 free[OF Dispatch_Node(2)])
    then have "balanced env cfg s'"
      unfolding Dispatch_Node(1) by (rule balanced_frame[of _ _ _ _ "[EvRunning (node_id n) a]"]) simp_all
    moreover have "rs_active s2 = rs_active s" "rs_js s2 = rs_js s"
      using acquire_same_core[OF Dispatch_Node(6)] b1 by (auto simp: same_core_def)
    ultimately show ?thesis using d by (simp add: lease_ok_def Dispatch_Node(1))
  next
    case (Claim_Refused n a s1 c s2)
    have b1: "balanced env cfg s1" "rs_active s1 = rs_active s" "rs_js s1 = rs_js s"
      using b bump_fields(2)[OF Claim_Refused(4)] by (auto intro!: balanced_frame[of env cfg s _ "[]"])
    have "balanced env cfg s2" by (rule balanced_refused[OF b1(1) Claim_Refused(5)])
    then have "balanced env cfg s'"
      by (simp add: Claim_Refused(1) record_strict_claim_conflict_def balanced_emit)
    moreover have "rs_active s2 = rs_active s" "rs_js s2 = rs_js s"
      using acquire_same_core[OF Claim_Refused(5)] b1 by (auto simp: same_core_def)
    ultimately show ?thesis using d by (simp add: lease_ok_def Claim_Refused(1))
  next
    case (Task_Joined i n t out)
    let ?t = "ticks 1 (s\<lparr> rs_js := drop_task i (rs_js s) \<rparr>)"
    have bt: "balanced env cfg ?t" using b by (auto intro!: balanced_frame[of env cfg s _ "[]"])
    note tr = task_removed[OF tk Task_Joined(1,2)]
    have d0: "dom (rs_active ?t) = node_id ` set (rs_js s)" using d by simp
    from balanced_joined[OF Task_Joined(4) bt, unfolded d0]
    have "balanced env cfg s'" "dom (rs_active s') = node_id ` set (rs_js s) - {node_id n} \<and> rs_js s' = drop_task i (rs_js s)
        \<or> dom (rs_active s') = insert (node_id n) (node_id ` set (rs_js s)) \<and> rs_js s' = drop_task i (rs_js s) @ [n]"
      by simp_all
    then show ?thesis using tr(4) unfolding lease_ok_def by (elim disjE) simp_all
  qed (use b d in \<open>auto simp: lease_ok_def condition_skip_def\<close>)
qed

end
