(* ===== verification/Run_Results.thy ===== *)
theory Run_Results
  imports Lease_Balance
begin

text \<open>
  How a run ends: an error only comes from the lease kernel or from a task that was lost; otherwise the
  run returns an outcome whose rows are the results of the final state, in topological order.
\<close>

subsection \<open>Where errors come from\<close>

definition env_error :: "dag_env \<Rightarrow> string \<Rightarrow> bool" where
  "env_error env e \<longleftrightarrow> (\<exists>t x a sc. env_lease env t x a sc = Inl e) \<or> (\<exists>t n. env_dispatch env t n = Inl e)"

lemma bind_run_InlE:
  assumes "bind_run m f = Some (Inl e, s')"
  obtains "m = Some (Inl e, s')" | x s where "m = Some (Inr x, s)" "f x s = Some (Inl e, s')"
  using assms by (auto simp: bind_run_Some)

lemma acquire_leases_error: "acquire_leases env x a scs held s = Some (Inl e, s') \<Longrightarrow> env_error env e"
proof (induction env x a scs held s rule: acquire_leases.induct)
  case (2 env x a sc scs held s)
  show ?case
  proof (cases "env_lease env (rs_tick s) x a sc")
    case (Inl d)
    then show ?thesis using "2.prems" unfolding env_error_def by auto
  next
    case (Inr resp)
    show ?thesis
    proof (cases "unwrap_or (opt_bool resp ''ok'') False")
      case ok: True
      show ?thesis
        by (cases "Option.bind (j_get resp ''claim'') (\<lambda>c. opt_str c ''id'')")
          (use "2.prems" "2.IH"(1)[OF Inr ok] "2.IH"(2)[OF Inr ok] Inr ok in auto)
    next
      case False
      then show ?thesis using "2.prems" Inr by (simp add: Let_def)
    qed
  qed
qed simp

lemma acquire_work_error:
  assumes "acquire_plan_dag_work_leases cfg env n a s = Some (Inl e, s')" shows "env_error env e"
proof -
  obtain ss src where d: "derive_node_claim_scopes n (cf_plan_id cfg) = Some (ss, src)"
    using assms by (cases "derive_node_claim_scopes n (cf_plan_id cfg)")
      (auto simp: acquire_plan_dag_work_leases_def)
  have "acquire_leases env (node_id n) a ss [] s = Some (Inl e, s')"
    using assms unfolding acquire_plan_dag_work_leases_def d option.case prod.case Let_def
    by (rule bind_run_InlE) (auto split: sum.splits)
  then show ?thesis by (rule acquire_leases_error)
qed

lemma spawn_error: "spawn_wave cfg env ns s = Some (Inl e, s') \<Longrightarrow> env_error env e"
proof (induction ns arbitrary: s)
  case (Cons n ns)
  obtain a s1 where b: "bump_attempt (node_id n) s = (a, s1)" by fastforce
  from Cons.prems have "bind_run (prepare_dispatch_claim cfg env n a s1) (\<lambda>decision s.
      case decision of Dispatch \<Rightarrow> spawn_wave cfg env ns (spawn_dispatch_attempt n a s)
      | ConflictFailed ff \<Rightarrow> spawn_wave cfg env ns (if ff then set_abort (node_id n) s else s)) = Some (Inl e, s')"
    by (simp add: b)
  then show ?case
  proof (rule bind_run_InlE)
    assume "prepare_dispatch_claim cfg env n a s1 = Some (Inl e, s')"
    then have "bind_run (acquire_plan_dag_work_leases cfg env n a s1) (\<lambda>r s.
       case r of Inr c \<Rightarrow> Some (Inr Dispatch, record_acquired_claim n a c s)
       | Inl c \<Rightarrow> Some (Inr (ConflictFailed (is_fail_fast n)), record_strict_claim_conflict cfg n a c s)) = Some (Inl e, s')"
      by (simp add: prepare_dispatch_claim_def)
    then show ?thesis by (rule bind_run_InlE) (auto dest: acquire_work_error split: sum.splits)
  next
    fix x t assume "(case x of Dispatch \<Rightarrow> spawn_wave cfg env ns (spawn_dispatch_attempt n a t)
      | ConflictFailed ff \<Rightarrow> spawn_wave cfg env ns (if ff then set_abort (node_id n) t else t)) = Some (Inl e, s')"
    then show ?thesis by (cases x) (auto dest: Cons.IH)
  qed
qed simp

lemma retry_error:
  assumes "retry_failed_node_if_allowed cfg env n out a s = Some (Inl e, s')" shows "env_error env e"
proof -
  obtain b s1 where b: "bump_attempt (node_id n) (release_claim_if_recorded env n a ''failed_will_retry'' s) = (b, s1)"
    by fastforce
  from assms have "bind_run (acquire_plan_dag_work_leases cfg env n b s1) (\<lambda>r s.
          case r of Inl _ \<Rightarrow> Some (Inr False, s)
          | Inr c \<Rightarrow> Some (Inr True, spawn_dispatch_attempt n b (record_acquired_claim n b c s))) = Some (Inl e, s')"
    by (simp add: retry_failed_node_if_allowed_def b split: if_splits)
  then show ?thesis by (rule bind_run_InlE) (auto dest: acquire_work_error split: sum.splits)
qed

lemma handle_joined_error:
  assumes "handle_joined cfg env n out s = Some (Inl e, s')" shows "env_error env e"
  using assms
  by (auto simp: handle_joined_def Let_def bind_run_Some dest: retry_error split: if_splits)

lemma drain_error: "drain_dispatch_wave fuel cfg env s = Some (Inl e, s') \<Longrightarrow> env_error env e"
proof (induction fuel arbitrary: s)
  case (Suc fuel)
  define i where "i = env_join env (rs_tick s) mod length (rs_js s)"
  define t where "t = ticks 1 (s\<lparr> rs_js := drop_task i (rs_js s) \<rparr>)"
  have un: "drain_dispatch_wave (Suc fuel) cfg env s =
      (if rs_js s = [] then Some (Inr (), s)
       else case env_dispatch env (rs_tick s) (rs_js s ! i) of
         Inl e \<Rightarrow> Some (Inl e, t)
       | Inr out \<Rightarrow> (case by_id_map (cf_nodes cfg) (node_id (rs_js s ! i)) of
            None \<Rightarrow> drain_dispatch_wave fuel cfg env t
          | Some m \<Rightarrow> bind_run (handle_joined cfg env m out t) (\<lambda>_ s. drain_dispatch_wave fuel cfg env s)))"
    unfolding i_def t_def by (simp only: drain_dispatch_wave.simps Let_def)
  show ?case
  proof (cases "env_dispatch env (rs_tick s) (rs_js s ! i)")
    case (Inl d)
    then have "d = e" using Suc.prems unfolding un by (simp split: if_splits)
    with Inl show ?thesis unfolding env_error_def by blast
  next
    case (Inr out)
    show ?thesis
    proof (cases "by_id_map (cf_nodes cfg) (node_id (rs_js s ! i))")
      case None
      then show ?thesis using Suc Inr unfolding un by (simp split: if_splits)
    next
      case (Some m)
      then show ?thesis using Suc Inr unfolding un
        by (auto simp: bind_run_Some dest: handle_joined_error split: if_splits)
    qed
  qed
qed simp

lemma wave_loop_error: "wave_loop fuel cfg env s = Some (Inl e, s') \<Longrightarrow> env_error env e"
proof (induction fuel arbitrary: s)
  case (Suc fuel)
  define s1 where "s1 = materialize_tainted_pending_skips cfg s"
  define ready where "ready = compute_ready_ids cfg (rs_life s1)"
  obtain out s2 where g: "filter_ready_nodes_for_gates cfg env (max (cf_max_parallel cfg) 1) ready [] s1 = (out, s2)"
    by fastforce
  have "(\<exists>t. wave_loop fuel cfg env t = Some (Inl e, s')) \<or>
      (\<exists>t. spawn_wave cfg env out t = Some (Inl e, s')) \<or>
      (\<exists>f t. drain_dispatch_wave f cfg env t = Some (Inl e, s'))"
    using Suc.prems g
    by (simp add: Let_def s1_def[symmetric] ready_def[symmetric] bind_run_Some
        del: drain_dispatch_wave.simps split: if_splits) blast+
  then show ?case using Suc.IH spawn_error drain_error by blast
qed simp

subsection \<open>The outcome of a run\<close>

definition run_ends_in :: "dag_env \<Rightarrow> dag_cfg \<Rightarrow> run_st \<Rightarrow> bool" where
  "run_ends_in env cfg s \<longleftrightarrow> dag_inv cfg s \<and> lease_ok env cfg s \<and> loop_exit cfg s"

lemma lease_ok_steps:
  assumes "run_steps cfg env s s'" "cfg_ok cfg" "dag_inv cfg s" "lease_ok env cfg s"
  shows "lease_ok env cfg s'"
  using assms(1)
proof (induction rule: rtranclp_induct)
  case base
  show ?case by (rule assms(4))
next
  case (step t u)
  show ?case by (rule lease_ok_step[OF step(2) dag_inv_steps[OF step(1) assms(2,3)] step(3)])
qed

lemma lease_ok_init: "lease_ok env cfg (init_run cfg)"
  by (simp add: lease_ok_def balanced_def init_run_def)

lemma execute_ends_in:
  assumes "cfg_ok cfg" "execute_with_concurrency cfg env = Some (Inr out, s)"
  shows "run_steps cfg env (init_run cfg) s" "run_ends_in env cfg s"
    "eo_results out = stitch_results_topologically (rs_results s) (cf_order cfg)"
    "eo_aborted_fail_fast out \<longleftrightarrow> rs_abort s"
proof -
  from assms(2) have w: "wave_loop (length (cf_nodes cfg) + 1) cfg env (init_run cfg) = Some (Inr (), s)"
    and out: "out = \<lparr> eo_results = stitch_results_topologically (rs_results s) (cf_order cfg),
       eo_aborted_fail_fast = rs_abort s \<rparr>"
    by (auto simp: execute_with_concurrency_def bind_run_Inr simp del: wave_loop.simps)
  from wave_loop_steps[OF assms(1) dag_inv_init _ w]
  have st: "run_steps cfg env (init_run cfg) s" "loop_exit cfg s" by (auto simp: init_run_def)
  show "run_steps cfg env (init_run cfg) s" by (rule st(1))
  show "run_ends_in env cfg s"
    using dag_inv_steps[OF st(1) assms(1) dag_inv_init] st(2)
      lease_ok_steps[OF st(1) assms(1) dag_inv_init lease_ok_init]
    by (simp add: run_ends_in_def)
  show "eo_results out = stitch_results_topologically (rs_results s) (cf_order cfg)"
    "eo_aborted_fail_fast out \<longleftrightarrow> rs_abort s"
    by (simp_all add: out)
qed

lemma execute_returns:
  assumes "cfg_ok cfg" "\<forall>n \<in> set (cf_nodes cfg). lists_end n"
  shows "\<exists>r s. execute_with_concurrency cfg env = Some (r, s) \<and> (\<forall>e. r = Inl e \<longrightarrow> env_error env e)"
proof -
  have c: "card (pend cfg (init_run cfg)) < length (cf_nodes cfg) + 1"
  proof -
    have "card (pend cfg (init_run cfg)) \<le> card (set (cf_order cfg))"
      by (rule card_mono) (auto simp: pend_def)
    also have "\<dots> = card (node_id ` set (cf_nodes cfg))" using cfg_okD(3)[OF assms(1)] by simp
    also have "\<dots> \<le> length (cf_nodes cfg)" by (meson card_image_le card_length finite_set le_trans)
    finally show ?thesis by simp
  qed
  have "rs_js (init_run cfg) = []" by (simp add: init_run_def)
  from wave_loop_ends[OF assms dag_inv_init this c] obtain r s where
    w: "wave_loop (length (cf_nodes cfg) + 1) cfg env (init_run cfg) = Some (r, s)" by fastforce
  show ?thesis
  proof (cases r)
    case (Inl e)
    then have "env_error env e" using wave_loop_error w by blast
    moreover have "execute_with_concurrency cfg env = Some (Inl e, s)"
      using w Inl by (simp add: execute_with_concurrency_def bind_run_def del: wave_loop.simps)
    ultimately show ?thesis by blast
  next
    case (Inr u)
    then show ?thesis using w by (simp add: execute_with_concurrency_def bind_run_def del: wave_loop.simps)
  qed
qed

text \<open>The rows of the outcome.\<close>

lemma map_filter_ids:
  assumes "\<And>x q. results x = Some q \<Longrightarrow> nr_id q = x"
  shows "map nr_id (List.map_filter results order) = filter (\<lambda>x. results x \<noteq> None) order"
  using assms by (induction order) (auto simp: List.map_filter_def)

lemma result_row:
  assumes "dag_inv cfg s" "rs_results s x = Some q"
  shows "nr_id q = x" "x \<in> set (ids_of (cf_nodes cfg))"
    "rs_life s x = Some LSucceeded \<longleftrightarrow> nr_state q = Succeeded"
    "rs_life s x = Some LFailed \<longleftrightarrow> is_failed (nr_state q)"
    "rs_life s x = Some LPaused \<longleftrightarrow> is_paused (nr_state q)"
    "rs_life s x = Some LSkipped \<longleftrightarrow> is_skipped (nr_state q)"
proof -
  note inv = dag_invD(1,4)[OF assms(1)]
  show x: "x \<in> set (ids_of (cf_nodes cfg))" using inv(2) assms(2) unfolding inv_results_def by blast
  then obtain l where l: "rs_life s x = Some l" using inv(1) unfolding inv_life_def by blast
  then have r: "recorded x l (Some q)" using inv(2) assms(2) unfolding inv_results_def by metis
  show "nr_id q = x" using r by (cases l) auto
  show "rs_life s x = Some LSucceeded \<longleftrightarrow> nr_state q = Succeeded" "rs_life s x = Some LFailed \<longleftrightarrow> is_failed (nr_state q)"
    "rs_life s x = Some LPaused \<longleftrightarrow> is_paused (nr_state q)" "rs_life s x = Some LSkipped \<longleftrightarrow> is_skipped (nr_state q)"
    using r l by (cases l; cases "nr_state q"; simp)+
qed

lemma stitched_ids:
  assumes "dag_inv cfg s"
  shows "map nr_id (stitch_results_topologically (rs_results s) (cf_order cfg)) =
     filter (\<lambda>x. rs_results s x \<noteq> None) (cf_order cfg)"
  unfolding stitch_results_topologically_def
  by (rule map_filter_ids) (rule result_row(1)[OF assms])

lemma set_stitched:
  "set (stitch_results_topologically res order) = {q. \<exists>x \<in> set order. res x = Some q}"
  by (force simp: stitch_results_topologically_def List.map_filter_def)

text \<open>At the end of a run a node without a result waits for a paused node.\<close>

lemma no_result_waits:
  assumes "cfg_ok cfg" "run_ends_in env cfg s" "x \<in> set (cf_order cfg)"
  shows "rs_results s x = None \<longleftrightarrow> rs_life s x = Some LPending"
    and "rs_results s x = None \<Longrightarrow> below_pause cfg s x \<and> \<not> rs_abort s"
proof -
  have inv: "dag_inv cfg s" and ex: "loop_exit cfg s" using assms(2) by (auto simp: run_ends_in_def)
  have "x \<in> dom (rs_life s)" using dag_invD(1)[OF inv] assms(3) cfg_okD(3)[OF assms(1)] unfolding inv_life_def by metis
  then obtain l where l: "rs_life s x = Some l" by blast
  have r: "recorded x l (rs_results s x)" using dag_invD(4)[OF inv] l unfolding inv_results_def by blast
  have nr: "l \<noteq> LRunning" using dag_invD(2)[OF inv] ex l unfolding inv_tasks_def loop_exit_def by auto
  show iff: "rs_results s x = None \<longleftrightarrow> rs_life s x = Some LPending"
    using r l nr by (cases l) auto
  assume "rs_results s x = None"
  then have p: "x \<in> pend cfg s" using iff assms(3) by (simp add: pend_def)
  then have "\<not> rs_abort s" using ex by (auto simp: loop_exit_def split: if_splits)
  with waiting_below_pause[OF assms(1) inv ex p] show "below_pause cfg s x \<and> \<not> rs_abort s" by blast
qed


subsection \<open>A world without failures\<close>

definition plain_node :: "dag_node \<Rightarrow> bool" where
  "plain_node n \<longleftrightarrow> dispatchable n \<and> acceptance_mode_kind n = None \<and> \<not> has_acceptance_fan_in n \<and>
     split_lisp_string_list (acceptance_commands_raw n) = Some [] \<and>
     split_lisp_string_list (acceptance_evidence_keys_raw n) = Some []"

definition kind_world :: "dag_env \<Rightarrow> bool" where
  "kind_world env \<longleftrightarrow>
     (\<forall>t x a sc. \<exists>r. env_lease env t x a sc = Inr r \<and> opt_bool r ''ok'' = Some True) \<and>
     (\<forall>t n. \<exists>out. env_dispatch env t n = Inr out \<and> do_class out = Inr ())"

lemma kind_world_no_error: "kind_world env \<Longrightarrow> \<not> env_error env e"
  unfolding kind_world_def env_error_def by (metis sum.distinct(1))

lemma acquire_leases_granted:
  "kind_world env \<Longrightarrow> acquire_leases env x a scs held s = Some (r, s') \<Longrightarrow> \<exists>h. r = Inr (Inr h)"
proof (induction env x a scs held s rule: acquire_leases.induct)
  case (2 env x a sc scs held s)
  obtain resp where resp: "env_lease env (rs_tick s) x a sc = Inr resp" "opt_bool resp ''ok'' = Some True"
    using "2.prems"(1) unfolding kind_world_def by blast
  then have ok: "unwrap_or (opt_bool resp ''ok'') False" by simp
  show ?case
    by (cases "Option.bind (j_get resp ''claim'') (\<lambda>c. opt_str c ''id'')")
      (use "2.prems" "2.IH"(1)[OF resp(1) ok] "2.IH"(2)[OF resp(1) ok] resp in auto)
qed auto

lemma acquire_work_granted:
  assumes "kind_world env" "acquire_plan_dag_work_leases cfg env n a s = Some (r, s')"
  shows "\<exists>c. r = Inr (Inr c)"
proof -
  obtain ss src where d: "derive_node_claim_scopes n (cf_plan_id cfg) = Some (ss, src)"
    using assms(2) by (cases "derive_node_claim_scopes n (cf_plan_id cfg)")
      (auto simp: acquire_plan_dag_work_leases_def)
  obtain r0 s0 where l: "acquire_leases env (node_id n) a ss [] s = Some (r0, s0)"
    using acquire_leases_returns[of env "node_id n" a ss "[]" s] by auto
  obtain h where "r0 = Inr (Inr h)" using acquire_leases_granted[OF assms(1) l] by blast
  then show ?thesis using assms(2) d l
    by (auto simp: acquire_plan_dag_work_leases_def bind_run_def Let_def)
qed

definition happy :: "run_st \<Rightarrow> bool" where
  "happy s \<longleftrightarrow> (\<forall>x. rs_life s x \<in> {None, Some LPending, Some LRunning, Some LSucceeded}) \<and>
     rs_taint s = Map.empty \<and> \<not> rs_abort s"

lemma plain_success:
  assumes "plain_node n" "record_successful_dispatch cfg env n out a s = Some (ff, s')" "happy s"
  shows "happy (abort_if ff x s')"
proof -
  obtain acc where e: "evaluate_success_acceptance (cf_plan_id cfg) (cf_version cfg) n (do_payload out) (rs_results s) = Some acc"
    "sa_lifecycle acc = LSucceeded" "\<not> sa_rejected acc"
    using success_acceptance_iff[of n "[]" "[]"] assms(1)
    by (fastforce simp: plain_node_def node_gate_def fan_in_gate_def)
  define s1 where "s1 = (if sa_active acc then emit (EvAcceptance (node_id n) a (acc_status (sa_acceptance acc))) s else s)"
  define s2 where "s2 = release_claim_if_recorded env n a (sa_label acc) (set_life (node_id n) LSucceeded s1)"
  have s1: "rs_life s1 = rs_life s" "rs_taint s1 = rs_taint s" "rs_abort s1 = rs_abort s"
    by (simp_all add: s1_def emit_emits)
  have c: "same_core (set_life (node_id n) LSucceeded s1) s2"
    using release_frame[of "set_life (node_id n) LSucceeded s1"] by (simp add: s2_def)
  define res where "res = \<lparr> nr_id = node_id n, nr_target = do_target out, nr_state = sa_state acc,
      nr_dispatch_strategy = do_strategy out, nr_inner_payload = do_payload out, nr_attempts_made = a,
      nr_max_attempts = effective_max_attempts n, nr_retry_skipped_non_retryable = False, nr_rollback = None,
      nr_acceptance = (if sa_active acc then Some (sa_acceptance acc) else None) \<rparr>"
  have "record_successful_dispatch cfg env n out a s = Some (False, put_result (node_id n) res s2)"
    using e by (simp add: record_successful_dispatch_def Let_def s1_def s2_def res_def)
  then have "s' = put_result (node_id n) res s2" "ff = False" using assms(2) by simp_all
  then show ?thesis using c s1 assms(3) by (auto simp: happy_def same_core_def)
qed

lemma happy_step:
  assumes "run_step cfg env s s'" "kind_world env" "\<forall>n \<in> set (cf_nodes cfg). plain_node n"
    and "dag_inv cfg s" "happy s"
  shows "happy s'"
  using assms(1)
proof (cases rule: run_step.cases)
  case (Skip_Tainted n d)
  with assms(5) show ?thesis by (simp add: happy_def)
next
  case (Skip_Abort n a)
  with assms(5) show ?thesis by (simp add: happy_def)
next
  case (Gate_Condition n)
  with assms(3) show ?thesis by (auto simp: ready_node_def plain_node_def dispatchable_def)
next
  case (Gate_Review n)
  with assms(3) show ?thesis by (auto simp: ready_node_def plain_node_def dispatchable_def)
next
  case (Dispatch_Node n a s1 c s2)
  note f = bump_run_fields[OF Dispatch_Node(5,6)]
  show ?thesis unfolding Dispatch_Node(1) using assms(5) f by (simp add: happy_def)
next
  case (Claim_Refused n a s1 c s2)
  then show ?thesis using acquire_work_granted[OF assms(2)] by fastforce
next
  case (Task_Joined i n t out)
  let ?t = "ticks 1 (s\<lparr> rs_js := drop_task i (rs_js s) \<rparr>)"
  have "n \<in> set (cf_nodes cfg)" by (rule task_removed(1)[OF dag_invD(2)[OF assms(4)] Task_Joined(1,2)])
  then have p: "plain_node n" using assms(3) by blast
  have ok: "do_class out = Inr ()"
    using assms(2) Task_Joined(3) unfolding kind_world_def by (metis sum.inject(2))
  obtain ff s2 where r: "record_successful_dispatch cfg env n out (unwrap_or (rs_attempts ?t (node_id n)) 1)
        (emit (EvFinished (node_id n) (unwrap_or (rs_attempts ?t (node_id n)) 1) True) ?t) = Some (ff, s2)"
    and s': "s' = abort_if ff (node_id n) s2"
    using Task_Joined(4) ok by (auto simp: handle_joined_def Let_def)
  have "happy (emit (EvFinished (node_id n) (unwrap_or (rs_attempts ?t (node_id n)) 1) True) ?t)"
    using assms(5) by (simp add: happy_def emit_emits)
  from plain_success[OF p r this] show ?thesis unfolding s' .
qed

lemma happy_steps:
  assumes "run_steps cfg env s s'" "cfg_ok cfg" "dag_inv cfg s" "happy s" "kind_world env"
    and "\<forall>n \<in> set (cf_nodes cfg). plain_node n"
  shows "happy s'"
  using assms(1)
proof (induction rule: rtranclp_induct)
  case base
  show ?case by (rule assms(4))
next
  case (step t u)
  show ?case by (rule happy_step[OF step(2) assms(5,6) dag_inv_steps[OF step(1) assms(2,3)] step(3)])
qed

lemma happy_run:
  assumes "cfg_ok cfg" "kind_world env" "\<forall>n \<in> set (cf_nodes cfg). plain_node n \<and> lists_end n"
  shows "\<exists>out s. execute_with_concurrency cfg env = Some (Inr out, s) \<and> run_steps cfg env (init_run cfg) s \<and>
    run_ends_in env cfg s \<and> \<not> eo_aborted_fail_fast out \<and> map nr_id (eo_results out) = cf_order cfg \<and>
    (\<forall>x \<in> set (cf_order cfg). rs_life s x = Some LSucceeded) \<and> (\<forall>r \<in> set (eo_results out). nr_state r = Succeeded)"
proof -
  obtain r s where r: "execute_with_concurrency cfg env = Some (r, s)" "\<forall>e. r = Inl e \<longrightarrow> env_error env e"
    using execute_returns[OF assms(1)] assms(3) by blast
  then obtain out where x: "execute_with_concurrency cfg env = Some (Inr out, s)"
    using kind_world_no_error[OF assms(2)] by (cases r) auto
  note e = execute_ends_in[OF assms(1) x]
  have inv: "dag_inv cfg s" using e(2) by (simp add: run_ends_in_def)
  have h: "happy s"
    by (rule happy_steps[OF e(1) assms(1) dag_inv_init _ assms(2)])
      (use assms(3) in \<open>auto simp: happy_def init_run_def init_lifecycle\<close>)
  have res: "rs_results s y \<noteq> None" if "y \<in> set (cf_order cfg)" for y
  proof
    assume "rs_results s y = None"
    from no_result_waits(2)[OF assms(1) e(2) that this] obtain p where "rs_life s p = Some LPaused"
      unfolding below_pause_def by blast
    moreover have "rs_life s p \<in> {None, Some LPending, Some LRunning, Some LSucceeded}"
      using h unfolding happy_def by blast
    ultimately show False by simp
  qed
  have life: "rs_life s y = Some LSucceeded" if y: "y \<in> set (cf_order cfg)" for y
  proof -
    have "y \<in> dom (rs_life s)" using dag_invD(1)[OF inv] y cfg_okD(3)[OF assms(1)] unfolding inv_life_def by metis
    moreover have "rs_life s y \<noteq> Some LPending" using no_result_waits(1)[OF assms(1) e(2) y] res[OF y] by blast
    moreover have "rs_life s y \<noteq> Some LRunning"
    proof -
      have "rs_js s = []" using e(2) by (simp add: run_ends_in_def loop_exit_def)
      then show ?thesis using dag_invD(2)[OF inv] unfolding inv_tasks_def by simp
    qed
    moreover have "rs_life s y \<in> {None, Some LPending, Some LRunning, Some LSucceeded}"
      using h unfolding happy_def by blast
    ultimately show ?thesis by auto
  qed
  have ids: "map nr_id (eo_results out) = cf_order cfg"
    unfolding e(3) stitched_ids[OF inv] by (rule filter_True) (use res in blast)
  have "nr_state q = Succeeded" if "q \<in> set (eo_results out)" for q
    using that life result_row(3)[OF inv] unfolding e(3) set_stitched by blast
  then show ?thesis using x e(1,2,4) h ids life by (auto simp: happy_def)
qed

end
