(* ===== verification/Run_Log.thy ===== *)
theory Run_Log
  imports Run_Results
begin

text \<open>
  The log of a run as an observer reads it. \<open>running\<close> replays the starts and finishes of a log;
  \<open>start_attempts\<close> lists the attempt numbers with which a node was started. Every step of the lifecycle
  machine keeps the replay within the width of a wave at every prefix of the log, starts a node with
  growing attempt numbers, and never starts a node it later leaves pending or skips.
\<close>

subsection \<open>Replaying a log\<close>

fun track :: "string multiset \<Rightarrow> dag_event \<Rightarrow> string multiset" where
  "track R (EvRunning x a) = add_mset x R"
| "track R (EvFinished x a b) = R - {#x#}"
| "track R _ = R"

definition running :: "dag_event list \<Rightarrow> string multiset" where
  "running es = foldl track {#} es"

fun start_of :: "string \<Rightarrow> dag_event \<Rightarrow> u32 list" where
  "start_of x (EvRunning y a) = (if y = x then [a] else [])"
| "start_of x _ = []"

definition start_attempts :: "string \<Rightarrow> dag_event list \<Rightarrow> u32 list" where
  "start_attempts x es = concat (map (start_of x) es)"

lemma running_simps [simp]: "running [] = {#}" "running (es @ [e]) = track (running es) e"
  by (simp_all add: running_def)

lemma start_attempts_simps [simp]:
  "start_attempts x [] = []" "start_attempts x (e # es) = start_of x e @ start_attempts x es"
  "start_attempts x (es @ fs) = start_attempts x es @ start_attempts x fs"
  by (simp_all add: start_attempts_def)

lemma start_attempts_iff: "a \<in> set (start_attempts x es) \<longleftrightarrow> EvRunning x a \<in> set es"
proof (induction es)
  case (Cons e es)
  then show ?case by (cases e) auto
qed simp

lemma quiet_snoc: "\<not> task_event e \<Longrightarrow> track R e = R \<and> start_of x e = []"
  by (cases e) auto

lemma quiet_replay [simp]:
  assumes "quiet es"
  shows "running (log @ es) = running log" "start_attempts x es = []"
proof -
  show "running (log @ es) = running log"
    using assms
  proof (induction es rule: rev_induct)
    case (snoc e es)
    then show ?case using quiet_snoc[of e] by (simp flip: append_assoc)
  qed simp
  show "start_attempts x es = []"
    using assms by (induction es) (auto simp: quiet_snoc)
qed

text \<open>At every prefix at most \<open>k\<close> tasks run, and no node runs twice.\<close>

definition fits :: "nat \<Rightarrow> string multiset \<Rightarrow> bool" where
  "fits k R \<longleftrightarrow> size R \<le> k \<and> (\<forall>x. count R x \<le> 1)"

definition always_fits :: "nat \<Rightarrow> dag_event list \<Rightarrow> bool" where
  "always_fits k log \<longleftrightarrow> (\<forall>us vs. log = us @ vs \<longrightarrow> fits k (running us))"

lemma always_fits_snoc:
  "always_fits k (log @ [e]) \<longleftrightarrow> always_fits k log \<and> fits k (running (log @ [e]))"
proof -
  have "(log @ [e] = us @ vs) = (vs = [] \<and> us = log @ [e] \<or> (\<exists>ws. vs = ws @ [e] \<and> log = us @ ws))" for us vs
    by (cases vs rule: rev_cases) auto
  then show ?thesis unfolding always_fits_def by auto
qed

lemma always_fits_quiet: "quiet es \<Longrightarrow> always_fits k log \<Longrightarrow> always_fits k (log @ es)"
proof (induction es rule: rev_induct)
  case (snoc e es)
  then have "always_fits k (log @ es)" by simp
  moreover from this have "fits k (running (log @ es))" unfolding always_fits_def by blast
  ultimately show ?case
    using snoc.prems quiet_snoc[of e] always_fits_snoc[of k "log @ es" e] by simp
qed simp

lemma fits_subset: "fits k R \<Longrightarrow> R' \<subseteq># R \<Longrightarrow> fits k R'"
  unfolding fits_def using size_mset_mono mset_subset_eq_count order_trans by metis

lemma fits_tasks: "inv_tasks cfg s \<Longrightarrow> fits (max (cf_max_parallel cfg) 1) (mset (map node_id (rs_js s)))"
  by (auto simp: inv_tasks_def fits_def distinct_count_atmost_1 simp flip: mset_map)

lemma mset_drop_task:
  "i < length xs \<Longrightarrow> mset (map f (drop_task i xs)) = mset (map f xs) - {# f (xs ! i) #}"
proof (induction xs arbitrary: i)
  case (Cons x xs)
  show ?case
  proof (cases i)
    case (Suc j)
    then have "f (xs ! j) \<in># mset (map f xs)" using Cons.prems by simp
    then show ?thesis using Suc Cons.IH[of j] Cons.prems by (simp add: add_mset_remove_trivial_If)
  qed simp
qed simp

subsection \<open>The log invariant\<close>

definition attempts_grow :: "run_st \<Rightarrow> dag_node \<Rightarrow> bool" where
  "attempts_grow s n \<longleftrightarrow>
     sorted_wrt (<) (start_attempts (node_id n) (rs_log s)) \<and>
     (\<forall>a \<in> set (start_attempts (node_id n) (rs_log s)).
        1 \<le> a \<and> (\<exists>b. rs_attempts s (node_id n) = Some b \<and> a \<le> b))"

definition log_inv :: "dag_cfg \<Rightarrow> run_st \<Rightarrow> bool" where
  "log_inv cfg s \<longleftrightarrow>
     running (rs_log s) = mset (map node_id (rs_js s)) \<and>
     always_fits (max (cf_max_parallel cfg) 1) (rs_log s) \<and>
     (\<forall>n \<in> set (cf_nodes cfg). attempts_grow s n) \<and>
     (\<forall>x. rs_life s x \<in> {None, Some LPending, Some LSkipped} \<longrightarrow> start_attempts x (rs_log s) = [])"

lemma log_invD:
  assumes "log_inv cfg s"
  shows "running (rs_log s) = mset (map node_id (rs_js s))" "always_fits (max (cf_max_parallel cfg) 1) (rs_log s)"
    "n \<in> set (cf_nodes cfg) \<Longrightarrow> attempts_grow s n"
    "rs_life s x \<in> {None, Some LPending, Some LSkipped} \<Longrightarrow> start_attempts x (rs_log s) = []"
  using assms by (auto simp: log_inv_def)

lemma next_attempt: "(a::u32) < m \<Longrightarrow> a < a + 1"
  by unat_arith

lemma keep_running:
  assumes "life_step cfg s s'" "dag_inv cfg s" "dag_inv cfg s'" "log_inv cfg s"
  shows "running (rs_log s') = mset (map node_id (rs_js s')) \<and> always_fits (max (cf_max_parallel cfg) 1) (rs_log s')"
proof -
  let ?k = "max (cf_max_parallel cfg) 1"
  note li = log_invD(1,2)[OF assms(4)]
  note now = fits_tasks[OF dag_invD(2)[OF assms(2)]] and post = fits_tasks[OF dag_invD(2)[OF assms(3)]]
  have still: ?thesis if "rs_log s' = rs_log s @ es" "quiet es" "rs_js s' = rs_js s" for es
    using that li always_fits_quiet by simp
  have fin: "running (rs_log s @ EvFinished (node_id n) a ok # es) = mset (map node_id (drop_task i (rs_js s))) \<and>
      always_fits ?k (rs_log s @ EvFinished (node_id n) a ok # es)"
    if "i < length (rs_js s)" "rs_js s ! i = n" "quiet es" for i n a ok es
  proof -
    let ?log = "rs_log s @ [EvFinished (node_id n) a ok]"
    have r: "running ?log = mset (map node_id (drop_task i (rs_js s)))"
      using li(1) mset_drop_task[OF that(1), of node_id] that(2) by simp
    have "fits ?k (running ?log)" by (rule fits_subset[OF now]) (simp add: li(1))
    then have "always_fits ?k ?log" using li(2) always_fits_snoc by blast
    from always_fits_quiet[OF that(3) this] quiet_replay(1)[OF that(3), of ?log] r show ?thesis by simp
  qed
  have start: ?thesis
    if "rs_log s' = log @ [EvRunning x a]" "rs_js s' = js @ [n]" "node_id n = x"
      "running log = mset (map node_id js)" "always_fits ?k log" for log x a js n
  proof -
    have r: "running (rs_log s') = mset (map node_id (rs_js s'))" using that by simp
    then show ?thesis using post that(5) always_fits_snoc[of ?k log] by (simp add: that(1))
  qed
  show ?thesis
    using assms(1)
  proof (cases rule: life_step.cases)
    case (Settle i n a l ok r es)
    then show ?thesis using fin[OF Settle(1,2,13), of a ok] by (simp add: log_grows_def)
  next
    case (Retry i n a b es)
    show ?thesis
      by (rule start[where log = "rs_log s @ EvFinished (node_id n) a False # es"])
        (use Retry fin[OF Retry(1,2,13), of a False] in \<open>auto simp: log_grows_def\<close>)
  next
    case (Start n a es)
    show ?thesis
      by (rule start[where log = "rs_log s @ es"])
        (use Start li always_fits_quiet in \<open>auto simp: log_grows_def\<close>)
  next
    case (Skip n r es)
    show ?thesis by (rule still[OF Skip(12)[unfolded log_grows_def] Skip(11,8)])
  next
    case (Gate n r es)
    show ?thesis by (rule still[OF Gate(11)[unfolded log_grows_def] Gate(10,7)])
  next
    case (Refuse n a r es)
    show ?thesis by (rule still[OF Refuse(12)[unfolded log_grows_def] Refuse(11,8)])
  qed
qed

lemma attempts_still:
  assumes "attempts_grow s m" "rs_log s' = rs_log s @ es" "start_attempts (node_id m) es = []"
    and "\<And>b. rs_attempts s (node_id m) = Some b \<Longrightarrow> \<exists>c. rs_attempts s' (node_id m) = Some c \<and> b \<le> c"
  shows "attempts_grow s' m"
  using assms unfolding attempts_grow_def by (simp add: assms(2)) (meson order_trans)

lemma attempts_start:
  assumes "attempts_grow s n" "rs_log s' = rs_log s @ es @ [EvRunning (node_id n) a]"
    and "start_attempts (node_id n) es = []" "rs_attempts s' (node_id n) = Some a" "1 \<le> a"
    and "\<And>b. rs_attempts s (node_id n) = Some b \<Longrightarrow> b < a"
  shows "attempts_grow s' n"
proof -
  have "b < a" if "b \<in> set (start_attempts (node_id n) (rs_log s))" for b
    using assms(1,6) that unfolding attempts_grow_def by (meson order_le_less_trans)
  then show ?thesis
    using assms(1,3-5) unfolding attempts_grow_def
    by (auto simp: assms(2) sorted_wrt_append dest: less_imp_le)
qed

lemma finish_silent: "quiet es \<Longrightarrow> start_attempts x (EvFinished y a ok # es) = []"
  by (simp add: quiet_replay(2))

lemma keep_attempts_grow:
  assumes "cfg_ok cfg" "life_step cfg s s'" "dag_inv cfg s" "log_inv cfg s" "m \<in> set (cf_nodes cfg)"
  shows "attempts_grow s' m"
proof -
  note inv = dag_invD[OF assms(3)]
  have g: "attempts_grow s m" by (rule log_invD(3)[OF assms(4,5)])
  have fresh: "rs_attempts s (node_id n) = None" if "ready_node cfg s n" for n
    using inv(5) that by (auto simp: inv_attempts_def ready_node_def)
  have start: ?thesis
    if "rs_log s' = rs_log s @ es @ [EvRunning (node_id n) a]" "\<And>x. start_attempts x es = []"
      "n \<in> set (cf_nodes cfg)" "rs_attempts s' = (rs_attempts s)(node_id n \<mapsto> a)" "1 \<le> a"
      "\<And>b. rs_attempts s (node_id n) = Some b \<Longrightarrow> b < a" for es n a
  proof (cases "m = n")
    case True
    show ?thesis by (rule attempts_start[OF g]) (use that True in auto)
  next
    case False
    then have "node_id m \<noteq> node_id n" using same_node[OF assms(1,5) that(3)] by blast
    then show ?thesis by (intro attempts_still[OF g that(1)]) (use that(2,4) in auto)
  qed
  show ?thesis
    using assms(2)
  proof (cases rule: life_step.cases)
    case (Settle i n a l ok r es)
    have "\<exists>c. rs_attempts s' (node_id m) = Some c \<and> b \<le> c" if "rs_attempts s (node_id m) = Some b" for b
    proof (cases "rs_attempts s' = rs_attempts s \<or> node_id m \<noteq> node_id n")
      case False
      then have "a = b" "a < effective_max_attempts n" "rs_attempts s' (node_id m) = Some (b + 1)"
        using Settle(3,11) that by auto
      then show ?thesis using next_attempt[of b] by (auto intro: less_imp_le)
    qed (use Settle(11) that in auto)
    then show ?thesis by (rule attempts_still[OF g Settle(14)[unfolded log_grows_def] finish_silent[OF Settle(13)]])
  next
    case (Retry i n a b es)
    note tr = task_removed[OF inv(2) Retry(1,2)]
    obtain c where c: "rs_attempts s (node_id n) = Some c" "1 \<le> c"
      using inv(5) tr(1,2) by (auto simp: inv_attempts_def)
    show ?thesis
      by (rule start[of "EvFinished (node_id n) a False # es" n b])
        (use Retry tr(1) c next_attempt[of c "effective_max_attempts n"]
           attempts_word[of c "effective_max_attempts n" "effective_max_attempts n"] finish_silent[OF Retry(13)]
         in \<open>auto simp: log_grows_def\<close>)
  next
    case (Start n a es)
    show ?thesis
      by (rule start[of es n a])
        (use Start fresh[of n] in \<open>auto simp: log_grows_def ready_node_def\<close>)
  next
    case (Skip n r es)
    show ?thesis by (rule attempts_still[OF g Skip(12)[unfolded log_grows_def]]) (use Skip in auto)
  next
    case (Gate n r es)
    show ?thesis by (rule attempts_still[OF g Gate(11)[unfolded log_grows_def]]) (use Gate in auto)
  next
    case (Refuse n a r es)
    show ?thesis
      by (rule attempts_still[OF g Refuse(12)[unfolded log_grows_def]]) (use Refuse fresh[of n] in auto)
  qed
qed

lemma keep_unstarted:
  assumes "life_step cfg s s'" "dag_inv cfg s" "log_inv cfg s" "rs_life s' x \<in> {None, Some LPending, Some LSkipped}"
  shows "start_attempts x (rs_log s') = []"
proof -
  note inv = dag_invD[OF assms(2)]
  have old: "start_attempts x (rs_log s) = []" if "rs_life s x \<in> {None, Some LPending, Some LSkipped}"
    by (rule log_invD(4)[OF assms(3) that])
  have other: ?thesis
    if "rs_log s' = rs_log s @ es" "rs_life s' = (rs_life s)(y \<mapsto> l)" "y \<noteq> x \<Longrightarrow> start_attempts x es = []"
      "l \<notin> {LPending, LSkipped}" for es y l
  proof -
    have "y \<noteq> x" using that(2,4) assms(4) by auto
    then show ?thesis using that old assms(4) by simp
  qed
  show ?thesis
    using assms(1)
  proof (cases rule: life_step.cases)
    case (Skip n r es)
    then have "rs_life s x \<in> {None, Some LPending, Some LSkipped}" using assms(4) by (cases "x = node_id n") auto
    then show ?thesis using old Skip by (simp add: log_grows_def)
  next
    case (Gate n r es)
    show ?thesis by (rule other[OF Gate(11)[unfolded log_grows_def] Gate(2)]) (use Gate in auto)
  next
    case (Start n a es)
    show ?thesis by (rule other[OF Start(12)[unfolded log_grows_def] Start(5)]) (use Start in auto)
  next
    case (Refuse n a r es)
    show ?thesis by (rule other[OF Refuse(12)[unfolded log_grows_def] Refuse(4)]) (use Refuse in auto)
  next
    case (Settle i n a l ok r es)
    show ?thesis by (rule other[OF Settle(14)[unfolded log_grows_def] Settle(6)]) (use Settle in auto)
  next
    case (Retry i n a b es)
    show ?thesis by (rule other[OF Retry(14)[unfolded log_grows_def] Retry(7)]) (use Retry in auto)
  qed
qed

lemma log_inv_step:
  assumes "cfg_ok cfg" "life_step cfg s s'" "dag_inv cfg s" "log_inv cfg s"
  shows "log_inv cfg s'"
  using keep_running[OF assms(2,3) dag_inv_step[OF assms(1-3)] assms(4)] keep_attempts_grow[OF assms]
    keep_unstarted[OF assms(2-4)]
  unfolding log_inv_def by blast

lemma log_inv_init: "log_inv cfg (init_run cfg)"
  by (auto simp: log_inv_def init_run_def attempts_grow_def always_fits_def fits_def)

lemma log_inv_steps:
  assumes "run_steps cfg env (init_run cfg) s" "cfg_ok cfg"
  shows "log_inv cfg s"
  using assms(1)
proof (induction rule: rtranclp_induct)
  case base
  show ?case by (rule log_inv_init)
next
  case (step t u)
  have "dag_inv cfg t" by (rule dag_inv_steps[OF step(1) assms(2) dag_inv_init])
  then show ?case by (rule log_inv_step[OF assms(2) run_refines_life[OF step(2)] _ step(3)])
qed

subsection \<open>The log of a finished run\<close>

lemma execute_log:
  assumes "cfg_ok cfg" "execute_with_concurrency cfg env = Some (Inr out, s)"
  shows "dag_inv cfg s" "log_inv cfg s" "lease_ok env cfg s" "rs_js s = []"
  using execute_ends_in(2)[OF assms] log_inv_steps[OF execute_ends_in(1)[OF assms] assms(1)]
  by (simp_all add: run_ends_in_def loop_exit_def)

text \<open>A node is started at most as often as its budget allows.\<close>

lemma starts_within_budget:
  assumes "attempts_grow s n" "inv_attempts cfg s" "n \<in> set (cf_nodes cfg)"
  shows "\<forall>a \<in> set (start_attempts (node_id n) (rs_log s)). 1 \<le> a \<and> a \<le> effective_max_attempts n"
    and "length (start_attempts (node_id n) (rs_log s)) \<le> unat (effective_max_attempts n)"
proof -
  let ?as = "start_attempts (node_id n) (rs_log s)"
  show b: "\<forall>a \<in> set ?as. 1 \<le> a \<and> a \<le> effective_max_attempts n"
    using assms unfolding attempts_grow_def inv_attempts_def by (meson order_trans)
  have "distinct ?as"
    using assms(1) unfolding attempts_grow_def by (meson strict_sorted_iff)
  then have "length ?as = card (set ?as)" by (simp add: distinct_card)
  also have "\<dots> = card (unat ` set ?as)"
    by (rule card_image[symmetric]) (auto intro: inj_onI simp: word_unat_eq_iff)
  also have "\<dots> \<le> card {1..unat (effective_max_attempts n)}"
    by (rule card_mono) (use b in \<open>auto simp: word_le_nat_alt\<close>)
  finally show "length ?as \<le> unat (effective_max_attempts n)" by simp
qed

end
