(* ===== verification/Plan_Claims.thy ===== *)
theory Plan_Claims
  imports Dag_Contract Dag_Scheduler
begin

text \<open>
  The properties of the plan parser, validator and scheduler projections, each with the lemma
  of its component behind it, and the concrete plans that witness them.
\<close>

subsection \<open>Concrete plans\<close>

definition sample_node :: "string \<Rightarrow> string list \<Rightarrow> dag_node" where
  "sample_node x deps = empty_node
     \<lparr> node_id := x, target := ''mission_execution'', depends_on := deps,
       failure_policy := FAILURE_POLICY_FAIL_FAST \<rparr>"

definition sample_plan :: "dag_node list" where
  "sample_plan = [sample_node ''c'' [''a'', ''b''], sample_node ''a'' [], sample_node ''b'' [''a'']]"

lemma sample_unique: "unique_ids sample_plan"
  by (simp add: unique_ids_def ids_of_def sample_plan_def sample_node_def)

lemma sample_kahn: "kahn_topo_sort sample_plan = Some (Inr [''a'', ''b'', ''c''])"
  by code_simp

subsection \<open>Validation\<close>

text \<open>C29: the validator accepts a plan exactly when the plan is well formed, hands it back
  unchanged with the order of the topological sort, and never panics.\<close>

theorem validate_exact:
  "(validate_parsed_dag p = Some (Inr (q, order)) \<longleftrightarrow>
     q = p \<and> well_formed_plan (nodes p) \<and> kahn_topo_sort (nodes p) = Some (Inr order))
   \<and> validate_parsed_dag p \<noteq> None"
  by (simp add: validate_accepts_iff validate_total)

text \<open>C33: on a plan with unique ids the sort never panics; it returns an order that lists every
  node once and after its dependencies whenever such an order exists, and reports a cycle
  exactly when there is none. The reported nodes are sorted and each of them waits for another
  node outside the part that could be ordered.\<close>

theorem kahn_returns_order:
  assumes "unique_ids ns"
  shows "\<exists>r. kahn_topo_sort ns = Some r \<and>
    (case r of
       Inr order \<Rightarrow> topo_order ns order
     | Inl e \<Rightarrow> \<not> (\<exists>w. topo_order ns w) \<and>
         (\<exists>ok left. e = Cycle left \<and> left \<noteq> [] \<and> sorted left \<and>
            set left = set (ids_of ns) - set ok \<and> topo_prefix ns ok \<and>
            (\<forall>x \<in> set left. \<exists>d \<in> set (deps_of ns x). d \<notin> set ok)))"
  using assms
proof (cases rule: kahn_cases)
  case (Order order)
  then show ?thesis by simp
next
  case (Loop ok left)
  then have "\<not> (\<exists>w. topo_order ns w)" using kahn_complete[OF assms] by fastforce
  with Loop show ?thesis by (auto simp del: set_ids_of)
qed

lemma kahn_returns_order_witness: "\<exists>r. kahn_topo_sort sample_plan = Some r"
  using kahn_returns_order[OF sample_unique] by blast

text \<open>the ancestor set of a node is the set of ids reachable from it by dependencies.\<close>

theorem ancestors_exact:
  assumes "unique_ids ns" "n \<in> set ns"
  shows "compute_transitive_ancestors ns (node_id n) = Some {y. (node_id n, y) \<in> (dep_rel ns)\<^sup>+}"
  by (rule ancestors_val[OF assms])

lemma ancestors_exact_witness:
  "compute_transitive_ancestors sample_plan ''b'' = Some {y. (''b'', y) \<in> (dep_rel sample_plan)\<^sup>+}"
  using ancestors_exact[OF sample_unique, of "sample_node ''b'' [''a'']"]
  by (simp add: sample_plan_def sample_node_def)

subsection \<open>The contract reader\<close>

definition sample_entry :: json where
  "sample_entry = JObject
     [(''id'', JString ''a''), (''target'', JString ''mission_flow_run''),
      (''rollback_policy'', JString ''later'')]"

definition sample_contract :: json where
  "sample_contract = JObject
     [(''schema_version'', JString ''missiond.plan-contract.v2''),
      (''payload'', JObject [(''nodes'', JArray [sample_entry])])]"

lemma sample_texts:
  "trim ''later'' = ''later''" "trim ''a'' = ''a''" "trim ''mission_flow_run'' = ''mission_flow_run''"
  "parse_rollback_policy ''later'' = None"
  by code_simp+

lemma sample_flags: "flag_unknown_enums sample_entry [] = [(''rollback_policy'', ''later'')]"
  by code_simp

lemma sample_entry_read: "\<exists>n. contract_node render (0, sample_entry) = Inr n"
  by (simp add: contract_node_def sample_flags Let_def)
    (simp add: sample_entry_def required_string_def unsupported_fields_from_contract_def
      optional_string_def non_empty_def sample_texts Let_def optional_u32_def optional_u64_def
      optional_i64_def retry_parse_error_from_contract_def string_vec_def raw_string_list_def
      resolve_failure_policy_def)

lemma sample_contract_read:
  "\<exists>p. parsed_dag_from_contract_json render sample_contract = Inr p \<and> length (nodes p) = 1"
proof -
  obtain n where n: "contract_node render (0, sample_entry) = Inr n" using sample_entry_read by blast
  show ?thesis
    by (simp add: parsed_dag_from_contract_json_def sample_contract_def opt_bind_str_def n)
qed

text \<open>C37: every node of a plan read from a contract has a trimmed, non-empty id and target, one
  of the two failure policies, a timeout in the range of \<open>i64\<close>, no empty dependency and list
  hints in printed form, so that reading any of them back returns.\<close>

theorem contract_nodes_typed:
  assumes "parsed_dag_from_contract_json render c = Inr p" "n \<in> set (nodes p)"
  shows "contract_node_ok n \<and> (\<exists>ys. split_lisp_string_list (owned_files_raw n) = Some ys)
    \<and> (\<exists>ys. split_lisp_string_list (acceptance_commands_raw n) = Some ys)"
  using contract_plan_ok[OF assms] by (simp add: contract_node_ok_def printed_list_returns)

lemma contract_nodes_typed_witness:
  "\<exists>p. parsed_dag_from_contract_json (\<lambda>_. []) sample_contract = Inr p \<and> contract_node_ok (nodes p ! 0)"
proof -
  obtain p where p: "parsed_dag_from_contract_json (\<lambda>_. []) sample_contract = Inr p"
    and "length (nodes p) = 1" using sample_contract_read by blast
  then have "nodes p ! 0 \<in> set (nodes p)" by simp
  from contract_nodes_typed[OF p this] p show ?thesis by blast
qed

text \<open>an enum hint whose value the reader does not know is recorded in the
  \<open>unsupported_fields\<close> of the node that carries it.\<close>

theorem contract_flags_unknown_enums:
  assumes "parsed_dag_from_contract_json render c = Inr p"
    and "j_get c ''payload'' = Some payload" "j_get payload ''nodes'' = Some (JArray vs)"
    and "i < length vs" "(k, valid) \<in> set enum_hints"
    and "j_get (vs ! i) k = Some (JString raw)" "trim raw \<noteq> []" "\<not> valid (trim raw)"
  shows "(k, trim raw) \<in> set (unsupported_fields (nodes p ! i))"
proof -
  obtain payload' vs' where v: "j_get c ''payload'' = Some payload'"
    "Option.bind (j_get payload' ''nodes'') as_array = Some vs'" "length vs' = length (nodes p)"
    "\<forall>i < length vs'. contract_node render (i, vs' ! i) = Inr (nodes p ! i)"
    by (rule contract_plan_nodes[OF assms(1)])
  have "payload' = payload" using v(1) assms(2) by simp
  then have "vs' = vs" using v(2) assms(3) by simp
  then have "contract_node render (i, vs ! i) = Inr (nodes p ! i)" using v(4) assms(4) by blast
  from contract_node_flags[OF this assms(5-8)] show ?thesis .
qed

lemma contract_flags_unknown_enums_witness:
  "\<exists>p. parsed_dag_from_contract_json (\<lambda>_. []) sample_contract = Inr p
     \<and> (''rollback_policy'', ''later'') \<in> set (unsupported_fields (nodes p ! 0))"
proof -
  obtain p where p: "parsed_dag_from_contract_json (\<lambda>_. []) sample_contract = Inr p"
    using sample_contract_read by blast
  from contract_flags_unknown_enums[OF p, of "JObject [(''nodes'', JArray [sample_entry])]" "[sample_entry]" 0
      "''rollback_policy''" "\<lambda>r. parse_rollback_policy r \<noteq> None" "''later''"] p
  show ?thesis
    by (simp add: sample_contract_def sample_entry_def enum_hints_def sample_texts)
qed

subsection \<open>List hints\<close>

text \<open>C38: reading a printed list gives its items that are not blank once escaped, each in escaped
  form. So it gives back the list itself when no item is blank or holds a quote or a backslash,
  and only then: an item with a quote or a backslash keeps the escape characters.\<close>

theorem list_hint_roundtrip:
  "split_lisp_string_list (Some (lisp_string_list vs)) =
     Some (filter (\<lambda>s. trim s \<noteq> []) (map escape_text vs))
   \<and> (split_lisp_string_list (Some (lisp_string_list vs)) = Some vs \<longleftrightarrow>
        (\<forall>v \<in> set vs. trim v \<noteq> [] \<and> bslash \<notin> set v \<and> dquote \<notin> set v))"
  by (simp add: split_printed escaped_list_same)

lemma list_hint_roundtrip_witness:
  "split_lisp_string_list (Some (lisp_string_list [''a b'', ''c''])) = Some [''a b'', ''c'']"
proof -
  have "trim ''a b'' = ''a b''" "trim ''c'' = ''c''" by code_simp+
  then show ?thesis using conjunct2[OF list_hint_roundtrip[of "[''a b'', ''c'']"]] by simp
qed

text \<open>C39: the reader's loop returns on text that has no bracket, and does not return on text whose
  next item would start with one.\<close>

theorem list_reader_termination:
  assumes "\<forall>c \<in> set cs. \<not> is_bracket c" "\<forall>x \<in> set pre. is_sep x" "is_bracket b"
  shows "(\<exists>ys. split_loop cs out = Some ys) \<and> split_loop (pre @ b # rest) out = None"
  using assms split_loop_returns split_loop_stuck by blast

lemma list_reader_termination_witness:
  "(\<exists>ys. split_loop ''a, b'' [] = Some ys) \<and> split_loop '' )x'' [] = None"
  using list_reader_termination[of "''a, b''" "'' ''" "CHR '')''" "[]" "''x''"]
  by (simp add: is_bracket_def is_sep_def is_ws_def)

subsection \<open>Waves and taint\<close>

text \<open>C35: on a plan with unique ids and a topological order, the projected waves hold every node
  once; each wave is sorted, not empty and at most \<open>max_parallel\<close> wide, and the dependencies of
  its nodes lie in earlier waves.\<close>

theorem waves_cover_plan:
  assumes "unique_ids ns" "topo_order ns order"
  shows "mset (concat (compute_concurrency_plan ns order k)) = mset order \<and>
    waves_ok ns (max k 1) {} (compute_concurrency_plan ns order k)"
proof -
  have "order = filter (\<lambda>x. x \<notin> {}) order" by simp
  from plan_waves_covers[OF assms(2,1) this] plan_waves_ok[of ns "max k 1" "{}" order]
  show ?thesis by (simp add: compute_concurrency_plan_def)
qed

lemma waves_cover_plan_witness:
  "compute_concurrency_plan sample_plan [''a'', ''b'', ''c''] 2 = [[''a''], [''b''], [''c'']] \<and>
   mset (concat (compute_concurrency_plan sample_plan [''a'', ''b'', ''c''] 2)) = mset [''a'', ''b'', ''c'']"
  using waves_cover_plan[OF sample_unique kahn_sound[OF sample_unique sample_kahn], of 2]
  by (simp, code_simp)

text \<open>C36: with marks closed under successors, \<open>propagate_taint\<close> adds exactly the descendants of
  the failed node, marks them with its id, changes no earlier mark and leaves the marks closed.\<close>

theorem taint_reaches_descendants:
  assumes "taint_closed ns t"
  shows "propagate_taint ns r t x =
      (if t x \<noteq> None then t x else if (r, x) \<in> (child_rel ns)\<^sup>+ then Some r else None)
    \<and> taint_closed ns (propagate_taint ns r t)"
  using propagate_taint_spec(2,3)[OF assms] by (simp add: descendants_def)

lemma taint_reaches_descendants_witness:
  "propagate_taint sample_plan ''b'' Map.empty ''a'' = None \<or> (''b'', ''a'') \<in> (child_rel sample_plan)\<^sup>+"
  using taint_reaches_descendants[of sample_plan Map.empty "''b''" "''a''"]
  by (simp add: taint_closed_def)

end
