(* ===== verification/Engine_Claims.thy ===== *)
theory Engine_Claims
  imports Run_Log Plan_Claims
begin

text \<open>
  The properties of the plan executor: what a run does with the nodes of a plan, in which order, and how
  it ends, with a small plan and a world in which they are seen to apply.
\<close>

subsection \<open>A plan and a world\<close>

definition sample_env :: dag_env where
  "sample_env =
     \<lparr> env_lease = \<lambda>t x a sc. Inr (JObject
         [(''ok'', JBool True), (''claim'', JObject [(''id'', JString (''lease-'' @ x))])]),
       env_release = \<lambda>t l. Inr (JObject [(''ok'', JBool True)]),
       env_dispatch = \<lambda>t n. Inr \<lparr> do_target = target n, do_strategy = ''direct'', do_payload = JObject [],
         do_class = Inr (), do_non_retryable = False \<rparr>,
       env_join = \<lambda>t. t, env_ws = \<lambda>t h st. WsDryRun [], env_brief = \<lambda>h st. [],
       env_review = \<lambda>t n. (''q'', None), env_now = \<lambda>t. int t \<rparr>"

definition sample_cfg :: dag_cfg where
  "sample_cfg = \<lparr> cf_nodes = sample_plan, cf_order = [''a'', ''b'', ''c''], cf_plan_id = ''p1'', cf_version = 1,
     cf_max_parallel = 2, cf_lease_secs = 1800, cf_claimer = DEFAULT_CLAIMER_NAME \<rparr>"

lemma validated_cfg_ok:
  assumes "validate_parsed_dag p = Some (Inr (q, cf_order cfg))" "cf_nodes cfg = nodes q"
  shows "cfg_ok cfg"
proof -
  have v: "q = p" "well_formed_plan (nodes p)" "kahn_topo_sort (nodes p) = Some (Inr (cf_order cfg))"
    using assms(1) validate_accepts_iff by blast+
  then have u: "unique_ids (nodes p)" "\<forall>n \<in> set (nodes p). set (depends_on n) \<subseteq> set (ids_of (nodes p))"
    by (auto simp: well_formed_plan_def simp del: set_ids_of)
  show ?thesis
    using kahn_sound[OF u(1) v(3)] u v(1) assms(2) by (simp add: cfg_ok_def del: set_ids_of)
qed

lemma sample_cfg_ok: "cfg_ok sample_cfg"
proof -
  have "topo_order sample_plan [''a'', ''b'', ''c'']"
    by (rule kahn_sound[OF sample_unique sample_kahn])
  then show ?thesis
    using sample_unique by (auto simp: cfg_ok_def sample_cfg_def sample_plan_def sample_node_def ids_of_def)
qed

lemma sample_lists_end: "\<forall>n \<in> set (cf_nodes sample_cfg). lists_end n"
  by (auto simp: sample_cfg_def sample_plan_def sample_node_def empty_node_def lists_end_def split_lisp_string_list_def)

lemma sample_plain: "\<forall>n \<in> set (cf_nodes sample_cfg). plain_node n"
proof -
  have "plain_node (sample_node x ds)" for x ds
    by (simp add: plain_node_def dispatchable_def sample_node_def empty_node_def split_lisp_string_list_def
        review_gate_kind_def acceptance_mode_kind_def has_acceptance_fan_in_def acceptance_requires_kind_def blank_def)
  then show ?thesis by (simp add: sample_cfg_def sample_plan_def)
qed

lemma sample_world: "kind_world sample_env"
  by (simp add: kind_world_def sample_env_def opt_bool_def)

lemma sample_run: "\<exists>out s. execute_with_concurrency sample_cfg sample_env = Some (Inr out, s)"
  using happy_run[OF sample_cfg_ok sample_world] sample_plain sample_lists_end by blast

text \<open>A plan of two nodes whose first node fails for good, and the state after its only wave.\<close>

definition fail_env :: dag_env where
  "fail_env = sample_env\<lparr> env_dispatch := \<lambda>t n. Inr \<lparr> do_target = target n, do_strategy = ''direct'',
     do_payload = JObject [], do_class = Inl ''boom'', do_non_retryable = True \<rparr> \<rparr>"

definition fail_cfg :: dag_cfg where
  "fail_cfg = sample_cfg\<lparr> cf_nodes := [sample_node ''b'' [''a''], sample_node ''a'' []], cf_order := [''a'', ''b''] \<rparr>"

lemma fail_cfg_ok: "cfg_ok fail_cfg"
proof -
  have k: "kahn_topo_sort [sample_node ''b'' [''a''], sample_node ''a'' []] = Some (Inr [''a'', ''b''])" by code_simp
  have u: "unique_ids [sample_node ''b'' [''a''], sample_node ''a'' []]"
    by (simp add: unique_ids_def ids_of_def sample_node_def)
  from kahn_sound[OF u k] u show ?thesis
    by (auto simp: cfg_ok_def fail_cfg_def sample_cfg_def sample_node_def ids_of_def)
qed

lemma fail_lists_end: "\<forall>n \<in> set (cf_nodes fail_cfg). lists_end n"
  by (auto simp: fail_cfg_def sample_cfg_def sample_node_def empty_node_def lists_end_def split_lisp_string_list_def)

lemma fail_first_ready:
  "filter_ready_nodes_for_gates fail_cfg fail_env 2 (compute_ready_ids fail_cfg (rs_life (init_run fail_cfg))) []
     (init_run fail_cfg) = ([sample_node ''a'' []], init_run fail_cfg)"
proof -
  have r: "compute_ready_ids fail_cfg (rs_life (init_run fail_cfg)) = [''a'']" by code_simp
  have b: "by_id_map (cf_nodes fail_cfg) ''a'' = Some (sample_node ''a'' [])"
    using by_id_cfg[OF fail_cfg_ok, of "sample_node ''a'' []"] by (simp add: fail_cfg_def sample_node_def)
  have "blank (condition (sample_node ''a'' []))" "review_gate_kind (sample_node ''a'' []) \<noteq> GateQuestionEvent"
    by (simp_all add: sample_node_def empty_node_def blank_def review_gate_kind_def)
  then show ?thesis by (simp add: r b)
qed

lemma run_checked:
  fixes m :: "unit run"
  shows "(case m of Some (Inr u, s) \<Rightarrow> P s | _ \<Rightarrow> False) \<Longrightarrow> \<exists>s. m = Some (Inr (), s) \<and> P s"
  by (cases m; cases "fst (the m)") auto

lemma fail_first_wave:
  "\<exists>s2 s3. spawn_wave fail_cfg fail_env [sample_node ''a'' []] (init_run fail_cfg) = Some (Inr (), s2) \<and>
     drain_dispatch_wave 9 fail_cfg fail_env s2 = Some (Inr (), s3) \<and> rs_life s3 ''a'' = Some LFailed"
proof -
  have "case bind_run (spawn_wave fail_cfg fail_env [sample_node ''a'' []] (init_run fail_cfg))
      (\<lambda>_ s. drain_dispatch_wave 9 fail_cfg fail_env s) of
      Some (Inr _, s) \<Rightarrow> rs_life s ''a'' = Some LFailed | _ \<Rightarrow> False"
    by code_simp
  from run_checked[OF this] show ?thesis unfolding bind_run_Inr by auto
qed

text \<open>A node that was decided on stays as it is.\<close>

lemma decided_stays:
  assumes "run_steps cfg env s s'" "cfg_ok cfg" "dag_inv cfg s" "rs_life s x = Some l" "l \<notin> {LPending, LRunning}"
  shows "rs_life s' x = Some l"
  using assms(1)
proof (induction rule: rtranclp_induct)
  case base
  show ?case by (rule assms(4))
next
  case (step t u)
  have inv: "dag_inv cfg t" by (rule dag_inv_steps[OF step(1) assms(2,3)])
  obtain n k where "moves cfg t u n k"
    using life_step_target[OF run_refines_life[OF step(2)] dag_invD(2,3)[OF inv]] by (elim exE)
  then show ?case using step(3) assms(5) by (auto simp: moves_def)
qed

text \<open>The first wave of a run: nothing is skipped before it, and the run goes on from its end.\<close>

lemma first_wave:
  assumes "cfg_ok cfg" "execute_with_concurrency cfg env = Some (Inr out, s)" "ns \<noteq> []"
    and "filter_ready_nodes_for_gates cfg env (max (cf_max_parallel cfg) 1)
      (compute_ready_ids cfg (rs_life (init_run cfg))) [] (init_run cfg) = (ns, init_run cfg)"
    and "spawn_wave cfg env ns (init_run cfg) = Some (Inr (), s2)"
  shows "\<exists>s3. drain_dispatch_wave (4 * length (cf_nodes cfg) + 1) cfg env s2 = Some (Inr (), s3) \<and>
    run_steps cfg env s2 s3 \<and> run_steps cfg env s3 s \<and> dag_inv cfg s3"
proof -
  let ?i = "init_run cfg" and ?k = "max (cf_max_parallel cfg) 1"
  have i0: "dag_inv cfg ?i" "rs_js ?i = []" "\<not> rs_abort ?i" "?i\<lparr> rs_js := [] \<rparr> = ?i"
    using dag_inv_init by (simp_all add: init_run_def)
  have "collect_tainted_pending (cf_order cfg) (rs_life ?i) (rs_taint ?i) = []"
    using collect_tainted[of "cf_order cfg" "rs_life ?i" "rs_taint ?i"] by (simp add: init_run_def)
  then have m: "materialize_tainted_pending_skips cfg ?i = ?i"
    by (simp add: materialize_tainted_pending_skips_def)
  have ne: "compute_ready_ids cfg (rs_life ?i) \<noteq> []" using assms(3,4) by auto
  have w: "wave_loop (Suc (length (cf_nodes cfg))) cfg env ?i = Some (Inr (), s)"
    using assms(2) by (auto simp: execute_with_concurrency_def bind_run_Inr simp del: wave_loop.simps)
  obtain s3 where d: "drain_dispatch_wave (4 * length (cf_nodes cfg) + 1) cfg env s2 = Some (Inr (), s3)"
    and l: "wave_loop (length (cf_nodes cfg)) cfg env s3 = Some (Inr (), s)"
    using w unfolding wave_loop_unfold[OF assms(1) i0(1,2)] m
    by (simp only: i0(3,4) ne assms(3-5) if_False prod.case bind_run_Inr option.inject prod.inject sum.inject)
      (metis (full_types) old.unit.exhaust)
  have gp: "gate_post cfg ?i ?k (compute_ready_ids cfg (rs_life ?i)) ns ?i"
    by (rule gate_phase(2)[OF assms(1) i0(3,2) assms(4)])
  note wp = wave_phase[OF assms(1) i0(1) gp assms(5)]
  note dp = drain_steps[OF assms(1) wp(2) d]
  have i3: "dag_inv cfg s3" using dag_inv_steps[OF _ assms(1) wp(2)] dp by blast
  have "run_steps cfg env s3 s" using wave_loop_steps[OF assms(1) i3 _ l] dp by blast
  with d dp i3 show ?thesis by blast
qed

lemma log_extends:
  assumes "run_steps cfg env s s'"
  shows "\<exists>es. rs_log s' = rs_log s @ es"
  using assms
proof (induction rule: rtranclp_induct)
  case (step t u)
  have "\<exists>es. rs_log u = rs_log t @ es"
    using run_refines_life[OF step(2)] by (cases rule: life_step.cases) (auto simp: log_grows_def)
  with step(3) show ?case by auto
qed simp

lemma fail_run:
  "\<exists>out s. execute_with_concurrency fail_cfg fail_env = Some (Inr out, s) \<and> rs_life s ''a'' = Some LFailed"
proof -
  have "\<not> env_error fail_env e" for e by (simp add: env_error_def fail_env_def sample_env_def)
  then obtain out s where x: "execute_with_concurrency fail_cfg fail_env = Some (Inr out, s)"
    using execute_returns[OF fail_cfg_ok fail_lists_end, of fail_env] by (metis sumE)
  obtain s2 s3 where w: "spawn_wave fail_cfg fail_env [sample_node ''a'' []] (init_run fail_cfg) = Some (Inr (), s2)"
    "drain_dispatch_wave 9 fail_cfg fail_env s2 = Some (Inr (), s3)" "rs_life s3 ''a'' = Some LFailed"
    using fail_first_wave by blast
  have k: "max (cf_max_parallel fail_cfg) 1 = 2" "4 * length (cf_nodes fail_cfg) + 1 = 9"
    by (simp_all add: fail_cfg_def sample_cfg_def)
  have g: "filter_ready_nodes_for_gates fail_cfg fail_env (max (cf_max_parallel fail_cfg) 1)
      (compute_ready_ids fail_cfg (rs_life (init_run fail_cfg))) [] (init_run fail_cfg) =
      ([sample_node ''a'' []], init_run fail_cfg)"
    unfolding k(1) by (rule fail_first_ready)
  from first_wave[OF fail_cfg_ok x _ g w(1), unfolded k(2) w(2)] have
    "run_steps fail_cfg fail_env s3 s" "dag_inv fail_cfg s3" by auto
  from decided_stays[OF this(1) fail_cfg_ok this(2) w(3)] x show ?thesis by auto
qed

text \<open>A plan of three independent nodes, two of which may run at once.\<close>

definition wide_cfg :: dag_cfg where
  "wide_cfg = sample_cfg\<lparr> cf_nodes := [sample_node ''c'' [], sample_node ''a'' [], sample_node ''b'' []] \<rparr>"

lemma wide_cfg_ok: "cfg_ok wide_cfg"
proof -
  let ?ns = "[sample_node ''c'' [], sample_node ''a'' [], sample_node ''b'' []]"
  have k: "kahn_topo_sort ?ns = Some (Inr [''a'', ''b'', ''c''])" by code_simp
  have u: "unique_ids ?ns" by (simp add: unique_ids_def ids_of_def sample_node_def)
  from kahn_sound[OF u k] u show ?thesis
    by (auto simp: cfg_ok_def wide_cfg_def sample_cfg_def sample_node_def ids_of_def)
qed

lemma wide_plain: "\<forall>n \<in> set (cf_nodes wide_cfg). plain_node n \<and> lists_end n"
proof -
  have "plain_node (sample_node x ds) \<and> lists_end (sample_node x ds)" for x ds
    by (simp add: plain_node_def dispatchable_def sample_node_def empty_node_def split_lisp_string_list_def
        review_gate_kind_def acceptance_mode_kind_def has_acceptance_fan_in_def acceptance_requires_kind_def
        blank_def lists_end_def)
  then show ?thesis by (simp add: wide_cfg_def)
qed

lemma wide_first_ready:
  "filter_ready_nodes_for_gates wide_cfg env 2 (compute_ready_ids wide_cfg (rs_life (init_run wide_cfg))) []
     (init_run wide_cfg) = ([sample_node ''a'' [], sample_node ''b'' []], init_run wide_cfg)"
proof -
  have r: "compute_ready_ids wide_cfg (rs_life (init_run wide_cfg)) = [''a'', ''b'', ''c'']" by code_simp
  have "by_id_map (cf_nodes wide_cfg) x = Some (sample_node x [])" if "x \<in> {''a'', ''b''}" for x
    using by_id_cfg[OF wide_cfg_ok, of "sample_node x []"] that by (auto simp: wide_cfg_def sample_node_def)
  moreover have "blank (condition (sample_node x []))" "review_gate_kind (sample_node x []) \<noteq> GateQuestionEvent" for x
    by (simp_all add: sample_node_def empty_node_def blank_def review_gate_kind_def)
  ultimately show ?thesis by (simp add: r)
qed

lemma sample_dispatched:
  assumes "bump_attempt x s = (a, s1)"
  shows "\<exists>s'. spawn_wave cfg sample_env (sample_node x ds # ns) s = spawn_wave cfg sample_env ns s' \<and>
    rs_log s' = rs_log s @ [EvLeaseAcquired (''lease-'' @ x), EvClaimed x a, EvRunning x a] \<and>
    rs_attempts s' = (rs_attempts s)(x \<mapsto> a)"
proof -
  let ?n = "sample_node x ds"
  have n: "node_id ?n = x" by (simp add: sample_node_def)
  have "derive_node_claim_scopes ?n (cf_plan_id cfg) = Some ([''plan/'' @ cf_plan_id cfg @ ''/node/'' @ x], PlanNodeFallback)"
    by (simp add: derive_node_claim_scopes_def sample_node_def empty_node_def split_lisp_string_list_def blank_def)
  then obtain c where "acquire_plan_dag_work_leases cfg sample_env ?n a s1 =
      Some (Inr (Inr c), emit (EvLeaseAcquired (''lease-'' @ x)) (ticks 1 s1))"
    by (simp add: acquire_plan_dag_work_leases_def n Let_def bind_run_def sample_env_def opt_bool_def opt_str_def)
  then show ?thesis
    using assms bump_fields(2)[OF assms]
    by (intro exI[of _ "spawn_dispatch_attempt ?n a (record_acquired_claim ?n a c
        (emit (EvLeaseAcquired (''lease-'' @ x)) (ticks 1 s1)))"])
      (simp add: n prepare_dispatch_claim_def bind_run_def emit_emits)
qed

lemma wide_run:
  "\<exists>out s vs. execute_with_concurrency wide_cfg sample_env = Some (Inr out, s) \<and>
     rs_log s = [EvLeaseAcquired ''lease-a'', EvClaimed ''a'' 1, EvRunning ''a'' 1,
       EvLeaseAcquired ''lease-b'', EvClaimed ''b'' 1, EvRunning ''b'' 1] @ vs"
proof -
  let ?ns = "[sample_node ''a'' [], sample_node ''b'' []]" and ?i = "init_run wide_cfg"
  obtain out s where x: "execute_with_concurrency wide_cfg sample_env = Some (Inr out, s)"
    using happy_run[OF wide_cfg_ok sample_world wide_plain] by blast
  have k: "max (cf_max_parallel wide_cfg) 1 = 2" by (simp add: wide_cfg_def sample_cfg_def)
  have i: "rs_log ?i = []" "rs_attempts ?i = Map.empty" by (simp_all add: init_run_def)
  have b1: "bump_attempt ''a'' ?i = (1, ?i\<lparr> rs_attempts := (rs_attempts ?i)(''a'' \<mapsto> 1) \<rparr>)"
    by (simp add: bump_attempt_def init_run_def)
  from sample_dispatched[OF b1, of wide_cfg "[]" "[sample_node ''b'' []]"] obtain s1 where
    s1: "spawn_wave wide_cfg sample_env ?ns ?i = spawn_wave wide_cfg sample_env [sample_node ''b'' []] s1"
    "rs_log s1 = [EvLeaseAcquired ''lease-a'', EvClaimed ''a'' 1, EvRunning ''a'' 1]" "rs_attempts s1 = [''a'' \<mapsto> 1]"
    by (auto simp: i simp del: spawn_wave.simps)
  have b2: "bump_attempt ''b'' s1 = (1, s1\<lparr> rs_attempts := (rs_attempts s1)(''b'' \<mapsto> 1) \<rparr>)"
    by (simp add: bump_attempt_def s1(3))
  from sample_dispatched[OF b2, of wide_cfg "[]" "[]"] obtain s2 where
    "spawn_wave wide_cfg sample_env [sample_node ''b'' []] s1 = spawn_wave wide_cfg sample_env [] s2"
    and l2: "rs_log s2 = rs_log s1 @ [EvLeaseAcquired ''lease-b'', EvClaimed ''b'' 1, EvRunning ''b'' 1]"
    by (auto simp del: spawn_wave.simps)
  then have w: "spawn_wave wide_cfg sample_env ?ns ?i = Some (Inr (), s2)" using s1(1) by simp
  have g: "filter_ready_nodes_for_gates wide_cfg sample_env (max (cf_max_parallel wide_cfg) 1)
      (compute_ready_ids wide_cfg (rs_life ?i)) [] ?i = (?ns, ?i)"
    unfolding k by (rule wide_first_ready)
  from first_wave[OF wide_cfg_ok x _ g w] have "run_steps wide_cfg sample_env s2 s" by (auto intro: rtranclp_trans)
  from log_extends[OF this] x s1(2) l2 show ?thesis by auto
qed

text \<open>A plan whose first node waits for a review.\<close>

definition pause_cfg :: dag_cfg where
  "pause_cfg = fail_cfg\<lparr> cf_nodes := [sample_node ''b'' [''a''],
     (sample_node ''a'' [])\<lparr> review_gate := Some ''question_event'' \<rparr>] \<rparr>"

lemma pause_run:
  "case execute_with_concurrency pause_cfg sample_env of
     Some (Inr out, s) \<Rightarrow> map nr_id (eo_results out) = [''a''] \<and> rs_life s ''b'' = Some LPending | _ \<Rightarrow> False"
  by code_simp


subsection \<open>A run of the plan\<close>

text \<open>C1: the executor refines the lifecycle machine: a run that returns an outcome is a sequence of
  lifecycle steps from the initial state, and it stops only when no task is running and nothing can
  be started.\<close>

theorem executor_refines_lifecycle:
  assumes "cfg_ok cfg" "execute_with_concurrency cfg env = Some (Inr out, s)"
  shows "(life_step cfg)\<^sup>*\<^sup>* (init_run cfg) s \<and> loop_exit cfg s"
proof -
  have "run_steps cfg env (init_run cfg) s" by (rule execute_ends_in(1)[OF assms])
  then have "(life_step cfg)\<^sup>*\<^sup>* (init_run cfg) s"
    by (induction rule: rtranclp_induct) (auto intro: run_refines_life rtranclp.rtrancl_into_rtrancl)
  then show ?thesis using execute_ends_in(2)[OF assms] by (simp add: run_ends_in_def)
qed

lemma executor_refines_lifecycle_witness:
  "\<exists>s. (life_step fail_cfg)\<^sup>*\<^sup>* (init_run fail_cfg) s \<and> loop_exit fail_cfg s \<and> rs_life s ''a'' = Some LFailed"
  using fail_run executor_refines_lifecycle[OF fail_cfg_ok] by blast

text \<open>C11: a run on a validated plan whose list hints can be read always ends, within the fuel of the
  loops, and it ends with an error only if the lease kernel failed or a dispatched task was lost.\<close>

theorem executor_terminates:
  assumes "cfg_ok cfg" "\<forall>n \<in> set (cf_nodes cfg). lists_end n"
  shows "\<exists>r s. execute_with_concurrency cfg env = Some (r, s) \<and> (\<forall>e. r = Inl e \<longrightarrow> env_error env e)"
  by (rule execute_returns[OF assms])

lemma executor_terminates_witness:
  "\<exists>out s. execute_with_concurrency sample_cfg sample_env = Some (Inr out, s)"
proof -
  obtain r s where r: "execute_with_concurrency sample_cfg sample_env = Some (r, s)"
    "\<forall>e. r = Inl e \<longrightarrow> env_error sample_env e"
    using executor_terminates[OF sample_cfg_ok sample_lists_end] by blast
  have "\<not> env_error sample_env e" for e by (simp add: env_error_def sample_env_def)
  then show ?thesis using r by (cases r) auto
qed

text \<open>C30: in a world where the kernel grants every lease and every dispatched task succeeds, a plan
  without gates and acceptance hints succeeds as a whole: one succeeded row per node, in
  topological order, and the aggregate \<open>dag_succeeded\<close>.\<close>

theorem plain_plan_succeeds:
  assumes "cfg_ok cfg" "kind_world env" "\<forall>n \<in> set (cf_nodes cfg). plain_node n \<and> lists_end n" "cf_nodes cfg \<noteq> []"
  shows "\<exists>out s. execute_with_concurrency cfg env = Some (Inr out, s) \<and> map nr_id (eo_results out) = cf_order cfg \<and>
    aggregate_status out = ''dag_succeeded'' \<and> target_plan_status out = Some PlanSucceeded"
proof -
  from happy_run[OF assms(1-3)] obtain out s where
    x: "execute_with_concurrency cfg env = Some (Inr out, s)" "map nr_id (eo_results out) = cf_order cfg" and
    r: "\<not> eo_aborted_fail_fast out" "\<forall>r \<in> set (eo_results out). nr_state r = Succeeded" by blast
  have "set (cf_order cfg) \<noteq> {}" using cfg_okD(3)[OF assms(1)] assms(4) by simp
  then have "eo_results out \<noteq> []" using x(2) by auto
  then have "all_succeeded out" using r(2) by (simp add: all_succeeded_def list_all_iff)
  with x r show ?thesis by (auto simp: aggregate_succeeded target_plan_status_def)
qed

lemma plain_plan_succeeds_witness:
  "\<exists>out s. execute_with_concurrency sample_cfg sample_env = Some (Inr out, s) \<and>
     map nr_id (eo_results out) = [''a'', ''b'', ''c''] \<and> aggregate_status out = ''dag_succeeded''"
proof -
  have ne: "cf_nodes sample_cfg \<noteq> []" "cf_order sample_cfg = [''a'', ''b'', ''c'']"
    by (simp_all add: sample_cfg_def sample_plan_def)
  have b: "\<forall>n \<in> set (cf_nodes sample_cfg). plain_node n \<and> lists_end n" using sample_plain sample_lists_end by blast
  show ?thesis using plain_plan_succeeds[OF sample_cfg_ok sample_world b ne(1)] ne(2) by auto
qed

text \<open>C7: whenever a run of the executor starts a task of a node, every dependency of the node has
  finished successfully before, as the log of the run shows.\<close>

theorem dispatch_after_dependencies:
  assumes "cfg_ok cfg" "execute_with_concurrency cfg env = Some (Inr out, s)"
    and "rs_log s = us @ EvRunning (node_id n) a # vs" "n \<in> set (cf_nodes cfg)" "d \<in> set (depends_on n)"
  shows "\<exists>b. EvFinished d b True \<in> set us"
  using dag_invD(7)[OF execute_log(1)[OF assms(1,2)]] assms(3-5)
  unfolding inv_log_def by blast

lemma dispatch_after_dependencies_witness:
  "\<exists>out s us a vs b. execute_with_concurrency sample_cfg sample_env = Some (Inr out, s) \<and>
     rs_log s = us @ EvRunning ''b'' a # vs \<and> EvFinished ''a'' b True \<in> set us"
proof -
  obtain out s where s: "execute_with_concurrency sample_cfg sample_env = Some (Inr out, s)" "run_ends_in sample_env sample_cfg s"
    "\<forall>x \<in> set (cf_order sample_cfg). rs_life s x = Some LSucceeded"
    using happy_run[OF sample_cfg_ok sample_world] sample_plain sample_lists_end by blast
  have "rs_life s ''b'' = Some LSucceeded" using s(3) by (simp add: sample_cfg_def)
  then obtain a where "EvRunning ''b'' a \<in> set (rs_log s)"
    using dag_invD(7)[of sample_cfg s] s(2) unfolding inv_log_def run_ends_in_def by blast
  then obtain us vs where l: "rs_log s = us @ EvRunning ''b'' a # vs" by (meson split_list)
  have n: "sample_node ''b'' [''a''] \<in> set (cf_nodes sample_cfg)" "node_id (sample_node ''b'' [''a'']) = ''b''"
    "''a'' \<in> set (depends_on (sample_node ''b'' [''a'']))"
    by (simp_all add: sample_cfg_def sample_plan_def sample_node_def)
  from dispatch_after_dependencies[OF sample_cfg_ok s(1) _ n(1,3), of us a vs] l n(2) s(1) show ?thesis by auto
qed

text \<open>C18: at every moment of a run, that is after every prefix of its log, at most the configured
  number of tasks run (at least one is allowed) and no node runs twice; the attempt numbers with
  which a node is started grow and stay within its budget, so it is started at most as often as the
  budget, which is at most three.\<close>

theorem parallelism_and_attempts_bounded:
  assumes "cfg_ok cfg" "execute_with_concurrency cfg env = Some (Inr out, s)"
  shows "(\<forall>us vs. rs_log s = us @ vs \<longrightarrow>
      size (running us) \<le> max (cf_max_parallel cfg) 1 \<and> (\<forall>x. count (running us) x \<le> 1)) \<and>
    (\<forall>n \<in> set (cf_nodes cfg).
      sorted_wrt (<) (start_attempts (node_id n) (rs_log s)) \<and>
      (\<forall>a \<in> set (start_attempts (node_id n) (rs_log s)). 1 \<le> a \<and> a \<le> effective_max_attempts n) \<and>
      length (start_attempts (node_id n) (rs_log s)) \<le> unat (effective_max_attempts n) \<and>
      unat (effective_max_attempts n) \<le> 3)"
proof -
  note e = execute_log[OF assms]
  have "sorted_wrt (<) (start_attempts (node_id n) (rs_log s)) \<and>
      (\<forall>a \<in> set (start_attempts (node_id n) (rs_log s)). 1 \<le> a \<and> a \<le> effective_max_attempts n) \<and>
      length (start_attempts (node_id n) (rs_log s)) \<le> unat (effective_max_attempts n)"
    if "n \<in> set (cf_nodes cfg)" for n
    using starts_within_budget[OF log_invD(3)[OF e(2) that] dag_invD(5)[OF e(1)] that] log_invD(3)[OF e(2) that]
    by (simp add: attempts_grow_def)
  then show ?thesis
    using log_invD(2)[OF e(2)] max_attempts_3 unfolding always_fits_def fits_def by blast
qed

lemma parallelism_and_attempts_bounded_witness:
  "\<exists>out s us vs. execute_with_concurrency wide_cfg sample_env = Some (Inr out, s) \<and>
     max (cf_max_parallel wide_cfg) 1 = 2 \<and> length (cf_nodes wide_cfg) = 3 \<and>
     rs_log s = us @ vs \<and> running us = {# ''a'', ''b'' #} \<and> size (running us) \<le> 2 \<and>
     start_attempts ''a'' (rs_log s) = [1]"
proof -
  let ?us = "[EvLeaseAcquired ''lease-a'', EvClaimed ''a'' 1, EvRunning ''a'' 1,
       EvLeaseAcquired ''lease-b'', EvClaimed ''b'' 1, EvRunning ''b'' 1]"
  obtain out s vs where x: "execute_with_concurrency wide_cfg sample_env = Some (Inr out, s)"
    and l: "rs_log s = ?us @ vs" using wide_run by blast
  have k: "max (cf_max_parallel wide_cfg) 1 = 2" "length (cf_nodes wide_cfg) = 3"
    by (simp_all add: wide_cfg_def sample_cfg_def)
  note b = parallelism_and_attempts_bounded[OF wide_cfg_ok x]
  have r: "running ?us = {# ''a'', ''b'' #}" by (simp add: running_def)
  have "size (running ?us) \<le> 2" using b[THEN conjunct1] l unfolding k by blast
  moreover have "start_attempts ''a'' (rs_log s) = [1]"
  proof -
    have n: "sample_node ''a'' [] \<in> set (cf_nodes wide_cfg)" "node_id (sample_node ''a'' []) = ''a''"
      "unat (effective_max_attempts (sample_node ''a'' [])) = 1"
      by (simp_all add: wide_cfg_def sample_node_def empty_node_def effective_max_attempts_def sat_add_u32_def
          MAX_NODE_ATTEMPTS_CAP_def)
    have "length (start_attempts ''a'' (rs_log s)) \<le> 1" using b[THEN conjunct2] n by fastforce
    moreover have "start_attempts ''a'' (rs_log s) = 1 # start_attempts ''a'' vs" by (simp add: l)
    ultimately show ?thesis by simp
  qed
  ultimately show ?thesis using x l k r by blast
qed

lemma outcome_no_row:
  assumes "cfg_ok cfg" "dag_inv cfg s" "run_ends_in env cfg s" "x \<in> set (cf_order cfg)" "rs_results s x = None"
  shows "\<exists>p \<in> set (cf_order cfg). \<exists>q. rs_results s p = Some q \<and> nr_id q = p \<and> is_paused (nr_state q) \<and>
    x \<in> descendants (cf_nodes cfg) p"
proof -
  from no_result_waits(2)[OF assms(1,3,4,5)] obtain p where
    p: "rs_life s p = Some LPaused" "x \<in> descendants (cf_nodes cfg) p"
    by (auto simp: below_pause_def)
  have "recorded p LPaused (rs_results s p)" using dag_invD(4)[OF assms(2)] p(1) unfolding inv_results_def by blast
  then obtain q where q: "rs_results s p = Some q" "nr_id q = p" "is_paused (nr_state q)" by auto
  have "p \<in> set (cf_order cfg)"
    using result_row(2)[OF assms(2) q(1)] cfg_okD(3)[OF assms(1)] by metis
  with p q show ?thesis by blast
qed

text \<open>the outcome lists its rows in topological order, one per node that got a result; a node
  without a row waits for a paused node it depends on, directly or not, and that only happens when
  the run was not aborted.\<close>

theorem outcome_rows:
  assumes "cfg_ok cfg" "execute_with_concurrency cfg env = Some (Inr out, s)"
  shows "map nr_id (eo_results out) = filter (\<lambda>x. x \<in> set (map nr_id (eo_results out))) (cf_order cfg) \<and>
    (\<forall>x \<in> set (cf_order cfg) - set (map nr_id (eo_results out)).
      \<not> eo_aborted_fail_fast out \<and> (\<exists>p \<in> set (paused_node_ids out). x \<in> descendants (cf_nodes cfg) p))"
proof (intro conjI ballI)
  note e = execute_ends_in[OF assms]
  have inv: "dag_inv cfg s" using e(2) by (simp add: run_ends_in_def)
  have rows: "map nr_id (eo_results out) = filter (\<lambda>x. rs_results s x \<noteq> None) (cf_order cfg)"
    unfolding e(3) by (rule stitched_ids[OF inv])
  then have mem: "y \<in> set (map nr_id (eo_results out)) \<longleftrightarrow> y \<in> set (cf_order cfg) \<and> rs_results s y \<noteq> None" for y
    by simp
  show "map nr_id (eo_results out) = filter (\<lambda>x. x \<in> set (map nr_id (eo_results out))) (cf_order cfg)"
    unfolding mem unfolding rows by (rule filter_cong) auto
  fix x assume x: "x \<in> set (cf_order cfg) - set (map nr_id (eo_results out))"
  then have xo: "x \<in> set (cf_order cfg)" "rs_results s x = None" using mem by blast+
  show "\<not> eo_aborted_fail_fast out" using no_result_waits(2)[OF assms(1) e(2) xo] e(4) by blast
  obtain p q where p: "p \<in> set (cf_order cfg)" "rs_results s p = Some q" "nr_id q = p" "is_paused (nr_state q)"
    "x \<in> descendants (cf_nodes cfg) p"
    using outcome_no_row[OF assms(1) inv e(2) xo] by blast
  then have "q \<in> set (eo_results out)" unfolding e(3) set_stitched by blast
  then have "p \<in> set (paused_node_ids out)" using p(3,4) by (force simp: paused_node_ids_def)
  then show "\<exists>p \<in> set (paused_node_ids out). x \<in> descendants (cf_nodes cfg) p" using p(5) by blast
qed

lemma pause_cfg_ok: "cfg_ok pause_cfg"
proof -
  let ?ns = "[sample_node ''b'' [''a''], (sample_node ''a'' [])\<lparr> review_gate := Some ''question_event'' \<rparr>]"
  have k: "kahn_topo_sort ?ns = Some (Inr [''a'', ''b''])" by code_simp
  have u: "unique_ids ?ns" by (simp add: unique_ids_def ids_of_def sample_node_def)
  from kahn_sound[OF u k] u show ?thesis
    by (auto simp: cfg_ok_def pause_cfg_def fail_cfg_def sample_cfg_def sample_node_def ids_of_def)
qed

lemma outcome_rows_witness:
  "\<exists>out s. execute_with_concurrency pause_cfg sample_env = Some (Inr out, s) \<and>
     map nr_id (eo_results out) = [''a''] \<and> (\<exists>p \<in> set (paused_node_ids out). ''b'' \<in> descendants (cf_nodes pause_cfg) p)"
proof -
  obtain out s where x: "execute_with_concurrency pause_cfg sample_env = Some (Inr out, s)"
    "map nr_id (eo_results out) = [''a'']"
    using pause_run by (cases "execute_with_concurrency pause_cfg sample_env";
      cases "fst (the (execute_with_concurrency pause_cfg sample_env))") auto
  have "''b'' \<in> set (cf_order pause_cfg) - set (map nr_id (eo_results out))"
    unfolding x(2) by (simp add: pause_cfg_def fail_cfg_def)
  then have "\<exists>p \<in> set (paused_node_ids out). ''b'' \<in> descendants (cf_nodes pause_cfg) p"
    using outcome_rows[OF pause_cfg_ok x(1)] by (elim conjE) (drule (1) bspec, elim conjE)
  with x show ?thesis by (intro exI conjI)
qed

text \<open>C24: the aggregate \<open>dag_succeeded\<close> is reported exactly when every node of the (non-empty) plan
  succeeded, although rows of waiting nodes are left out of the outcome.\<close>

theorem succeeded_means_all_nodes:
  assumes "cfg_ok cfg" "execute_with_concurrency cfg env = Some (Inr out, s)"
  shows "aggregate_status out = ''dag_succeeded'' \<longleftrightarrow>
    cf_nodes cfg \<noteq> [] \<and> (\<forall>n \<in> set (cf_nodes cfg). rs_life s (node_id n) = Some LSucceeded)"
proof -
  note e = execute_ends_in[OF assms]
  have inv: "dag_inv cfg s" using e(2) by (simp add: run_ends_in_def)
  have order: "set (cf_order cfg) = node_id ` set (cf_nodes cfg)" using cfg_okD(3)[OF assms(1)] by simp
  have rows: "q \<in> set (eo_results out) \<longleftrightarrow> (\<exists>x \<in> set (cf_order cfg). rs_results s x = Some q)" for q
    unfolding e(3) set_stitched by blast
  show ?thesis
  proof
    assume a: "aggregate_status out = ''dag_succeeded''"
    then have all: "eo_results out \<noteq> []" "\<And>q. q \<in> set (eo_results out) \<Longrightarrow> nr_state q = Succeeded"
      by (auto simp: aggregate_succeeded all_succeeded_def list_all_iff)
    have "rs_life s x = Some LSucceeded" if x: "x \<in> set (cf_order cfg)" for x
    proof (cases "rs_results s x")
      case None
      from outcome_no_row[OF assms(1) inv e(2) x None] obtain p q where
        "p \<in> set (cf_order cfg)" "rs_results s p = Some q" "is_paused (nr_state q)" by blast
      then have "nr_state q = Succeeded" "is_paused (nr_state q)" using all(2) rows by blast+
      then show ?thesis by simp
    next
      case (Some q)
      then have "nr_state q = Succeeded" using all(2) rows x by blast
      then show ?thesis using result_row(3)[OF inv Some] by blast
    qed
    moreover have "cf_nodes cfg \<noteq> []" using all(1) rows order by (cases "eo_results out") fastforce+
    ultimately show "cf_nodes cfg \<noteq> [] \<and> (\<forall>n \<in> set (cf_nodes cfg). rs_life s (node_id n) = Some LSucceeded)"
      using order by blast
  next
    assume a: "cf_nodes cfg \<noteq> [] \<and> (\<forall>n \<in> set (cf_nodes cfg). rs_life s (node_id n) = Some LSucceeded)"
    have "\<not> rs_abort s"
    proof
      assume "rs_abort s"
      then obtain n where "n \<in> set (cf_nodes cfg)" "rs_life s (node_id n) = Some LFailed"
        using dag_invD(8)[OF inv] unfolding inv_abort_def by blast
      moreover from this(1) have "rs_life s (node_id n) = Some LSucceeded" using a by blast
      ultimately show False by simp
    qed
    moreover have "nr_state q = Succeeded" if q: "q \<in> set (eo_results out)" for q
    proof -
      obtain x where x: "x \<in> set (cf_order cfg)" "rs_results s x = Some q" using q rows by blast
      then have "rs_life s x = Some LSucceeded" using a unfolding order by blast
      then show ?thesis using result_row(3)[OF inv x(2)] by blast
    qed
    moreover have "eo_results out \<noteq> []"
    proof -
      obtain n where n: "n \<in> set (cf_nodes cfg)" using a by (cases "cf_nodes cfg") auto
      have x: "node_id n \<in> set (cf_order cfg)" using n order by blast
      have "rs_results s (node_id n) \<noteq> None"
      proof
        assume "rs_results s (node_id n) = None"
        then have "rs_life s (node_id n) = Some LPending" using no_result_waits(1)[OF assms(1) e(2) x] by blast
        moreover have "rs_life s (node_id n) = Some LSucceeded" using a n by blast
        ultimately show False by simp
      qed
      then obtain q where "rs_results s (node_id n) = Some q" by blast
      then have "q \<in> set (eo_results out)" using rows x by blast
      then show ?thesis by auto
    qed
    ultimately show "aggregate_status out = ''dag_succeeded''"
      using e(4) by (simp add: aggregate_succeeded all_succeeded_def list_all_iff)
  qed
qed


lemma succeeded_means_all_nodes_witness:
  "\<exists>out s. execute_with_concurrency fail_cfg fail_env = Some (Inr out, s) \<and> aggregate_status out \<noteq> ''dag_succeeded''"
proof -
  obtain out s where x: "execute_with_concurrency fail_cfg fail_env = Some (Inr out, s)" "rs_life s ''a'' = Some LFailed"
    using fail_run by blast
  have n: "sample_node ''a'' [] \<in> set (cf_nodes fail_cfg)" "node_id (sample_node ''a'' []) = ''a''"
    by (simp_all add: fail_cfg_def sample_node_def)
  have "rs_life s (node_id (sample_node ''a'' [])) \<noteq> Some LSucceeded" unfolding n(2) x(2) by simp
  then have "aggregate_status out \<noteq> ''dag_succeeded''"
    using succeeded_means_all_nodes[OF fail_cfg_ok x(1)] n(1) by blast
  with x(1) show ?thesis by blast
qed

text \<open>C20: a node that failed takes every node that depends on it, directly or not, out of the run: when
  the run returns, each of those was never started, is skipped, and has a skipped row in the
  outcome.\<close>

theorem failure_skips_descendants:
  assumes "cfg_ok cfg" "execute_with_concurrency cfg env = Some (Inr out, s)"
    and "rs_life s x = Some LFailed" "y \<in> descendants (cf_nodes cfg) x"
  shows "rs_life s y = Some LSkipped \<and> (\<exists>q \<in> set (eo_results out). nr_id q = y \<and> is_skipped (nr_state q)) \<and>
    (\<forall>a. EvRunning y a \<notin> set (rs_log s))"
proof -
  note e = execute_ends_in[OF assms(1,2)] and inv = execute_log(1,2)[OF assms(1,2)]
  have ex: "loop_exit cfg s" using e(2) by (simp add: run_ends_in_def)
  note t = dag_invD(6)[OF inv(1), unfolded inv_taint_def]
  obtain r where r: "rs_taint s y = Some r" using t assms(3,4) by blast
  then have l: "rs_life s y \<in> {Some LPending, Some LSkipped}" using t by blast
  have y: "y \<in> set (cf_order cfg)"
    using l dag_invD(1)[OF inv(1)] cfg_okD(3)[OF assms(1)] unfolding inv_life_def by blast
  have sk: "rs_life s y = Some LSkipped"
  proof (rule ccontr)
    assume "rs_life s y \<noteq> Some LSkipped"
    then have "y \<in> pend cfg s" using l y by (simp add: pend_def)
    with ex have "rs_taint s y = None" by (auto simp: loop_exit_def split: if_splits)
    with r show False by simp
  qed
  then have "recorded y LSkipped (rs_results s y)" using dag_invD(4)[OF inv(1)] unfolding inv_results_def by blast
  then obtain q where q: "rs_results s y = Some q" "nr_id q = y" "is_skipped (nr_state q)" by auto
  then have "q \<in> set (eo_results out)" unfolding e(3) set_stitched using y by blast
  moreover have "start_attempts y (rs_log s) = []" by (rule log_invD(4)[OF inv(2)]) (simp add: sk)
  ultimately show ?thesis using sk q start_attempts_iff[of _ y "rs_log s"] by auto
qed

lemma failure_skips_descendants_witness:
  "\<exists>out s q. execute_with_concurrency fail_cfg fail_env = Some (Inr out, s) \<and> rs_life s ''a'' = Some LFailed \<and>
     q \<in> set (eo_results out) \<and> nr_id q = ''b'' \<and> is_skipped (nr_state q) \<and> EvRunning ''b'' 1 \<notin> set (rs_log s)"
proof -
  obtain out s where x: "execute_with_concurrency fail_cfg fail_env = Some (Inr out, s)" "rs_life s ''a'' = Some LFailed"
    using fail_run by blast
  have "(''a'', ''b'') \<in> child_rel (cf_nodes fail_cfg)"
    unfolding child_rel_def
    by (rule CollectI, intro exI[of _ "''a''"] exI[of _ "sample_node ''b'' [''a'']"]) (simp add: fail_cfg_def sample_node_def)
  then have "''b'' \<in> descendants (cf_nodes fail_cfg) ''a''" by (auto simp: descendants_def)
  from failure_skips_descendants[OF fail_cfg_ok x this] x show ?thesis by blast
qed

text \<open>C22: a run is aborted exactly when a node with the fail-fast policy failed, and an aborted run
  leaves no node undecided: the outcome has one row per node.\<close>

theorem fail_fast_aborts:
  assumes "cfg_ok cfg" "execute_with_concurrency cfg env = Some (Inr out, s)"
  shows "(eo_aborted_fail_fast out \<longleftrightarrow>
      (\<exists>n \<in> set (cf_nodes cfg). is_fail_fast n \<and> rs_life s (node_id n) = Some LFailed)) \<and>
    (eo_aborted_fail_fast out \<longrightarrow>
      map nr_id (eo_results out) = cf_order cfg \<and> aggregate_status out = ''dag_failed'' \<and>
      target_plan_status out = Some PlanFailed)"
proof -
  note e = execute_ends_in[OF assms]
  have inv: "dag_inv cfg s" using e(2) by (simp add: run_ends_in_def)
  have ab: "eo_aborted_fail_fast out \<longleftrightarrow>
      (\<exists>n \<in> set (cf_nodes cfg). is_fail_fast n \<and> rs_life s (node_id n) = Some LFailed)"
    using dag_invD(8)[OF inv] e(4) unfolding inv_abort_def by blast
  have rows: "map nr_id (eo_results out) = cf_order cfg" if "eo_aborted_fail_fast out"
    unfolding e(3) stitched_ids[OF inv]
    by (rule filter_True) (use no_result_waits(2)[OF assms(1) e(2)] that e(4) in blast)
  have "\<not> all_succeeded out" if a: "eo_aborted_fail_fast out"
  proof
    assume s: "all_succeeded out"
    obtain n where n: "n \<in> set (cf_nodes cfg)" "rs_life s (node_id n) = Some LFailed" using ab a by blast
    have "recorded (node_id n) LFailed (rs_results s (node_id n))"
      using dag_invD(4)[OF inv] n(2) unfolding inv_results_def by blast
    then obtain q where q: "rs_results s (node_id n) = Some q" "is_failed (nr_state q)" by auto
    have "node_id n \<in> set (cf_order cfg)" using n(1) cfg_okD(3)[OF assms(1)] by simp
    then have "q \<in> set (eo_results out)" unfolding e(3) set_stitched using q(1) by blast
    then have "nr_state q = Succeeded" using s by (simp add: all_succeeded_def list_all_iff)
    with q(2) show False by simp
  qed
  then have "aggregate_status out = ''dag_failed'' \<and> target_plan_status out = Some PlanFailed"
    if "eo_aborted_fail_fast out" using that by (simp add: aggregate_status_def target_plan_status_def)
  with ab rows show ?thesis by blast
qed

lemma fail_fast_aborts_witness:
  "\<exists>out s. execute_with_concurrency fail_cfg fail_env = Some (Inr out, s) \<and>
     aggregate_status out = ''dag_failed'' \<and> map nr_id (eo_results out) = [''a'', ''b'']"
proof -
  obtain out s where x: "execute_with_concurrency fail_cfg fail_env = Some (Inr out, s)" "rs_life s ''a'' = Some LFailed"
    using fail_run by blast
  have n: "sample_node ''a'' [] \<in> set (cf_nodes fail_cfg)" "node_id (sample_node ''a'' []) = ''a''"
    "is_fail_fast (sample_node ''a'' [])" "cf_order fail_cfg = [''a'', ''b'']"
    by (simp_all add: fail_cfg_def sample_node_def is_fail_fast_def)
  have "rs_life s (node_id (sample_node ''a'' [])) = Some LFailed" unfolding n(2) by (rule x(2))
  with fail_fast_aborts[OF fail_cfg_ok x(1)] n(1,3) have
    "map nr_id (eo_results out) = cf_order fail_cfg" "aggregate_status out = ''dag_failed''" by blast+
  with x(1) n(4) show ?thesis by auto
qed


subsection \<open>Leases\<close>

text \<open>C16: the lease account of a run: when the executor returns an outcome, every lease it acquired has
  been given back exactly once, released by the kernel or left behind by a release the kernel failed
  (the code drops that error); in a world where releases do not fail no lease is left.\<close>

theorem leases_accounted:
  assumes "cfg_ok cfg" "execute_with_concurrency cfg env = Some (Inr out, s)"
  shows "acquired (rs_log s) = released (rs_log s) + lost (rs_log s) \<and>
    (releases_work env \<longrightarrow> acquired (rs_log s) = released (rs_log s))"
proof -
  have "balanced env cfg s" "dom (rs_active s) = {}"
    using execute_log(3,4)[OF assms] by (simp_all add: lease_ok_def)
  then show ?thesis by (auto simp: balanced_def)
qed

lemma leases_accounted_witness:
  "\<exists>out s. execute_with_concurrency wide_cfg sample_env = Some (Inr out, s) \<and>
     ''lease-a'' \<in># acquired (rs_log s) \<and> ''lease-a'' \<in># released (rs_log s)"
proof -
  obtain out s vs where x: "execute_with_concurrency wide_cfg sample_env = Some (Inr out, s)"
    and l: "rs_log s = [EvLeaseAcquired ''lease-a'', EvClaimed ''a'' 1, EvRunning ''a'' 1,
       EvLeaseAcquired ''lease-b'', EvClaimed ''b'' 1, EvRunning ''b'' 1] @ vs" using wide_run by blast
  have a: "''lease-a'' \<in># acquired (rs_log s)" by (simp add: l)
  have "releases_work sample_env" by (simp add: releases_work_def sample_env_def)
  then have "acquired (rs_log s) = released (rs_log s)" using leases_accounted[OF wide_cfg_ok x] by blast
  with a x show ?thesis by auto
qed

text \<open>C31: an error of the lease kernel ends the acquisition of a claim at once, and for the leases it
  already holds no release is attempted; a refusal tries to give each of them back, once and in order,
  and gives all of them back when no release fails.\<close>

theorem kernel_error_keeps_leases:
  assumes "acquire_leases env x a scs held s = Some (r, s')"
  shows "\<exists>got es. rs_log s' = rs_log s @ map EvLeaseAcquired got @ es \<and> (case r of
      Inl e \<Rightarrow> es = []
    | Inr (Inl c) \<Rightarrow> list_all2 release_event es (held @ got) \<and>
        (releases_work env \<longrightarrow> es = map EvLeaseReleased (held @ got))
    | Inr (Inr h) \<Rightarrow> es = [] \<and> h = held @ got)"
proof -
  from acquire_leases_frame[OF assms] obtain k got fs where
    f: "s' = emits fs (ticks k s)" "acquire_log env r held got fs" "\<forall>h. r = Inr (Inr h) \<longrightarrow> h = held @ got" by blast
  from f(2) obtain es where
    "fs = map EvLeaseAcquired got @ es" "case r of Inr (Inl _) \<Rightarrow> gave_back env (held @ got) es | _ \<Rightarrow> es = []"
    unfolding acquire_log_def by blast
  with f(1,3) show ?thesis
    by (intro exI[of _ got] exI[of _ es])
      (simp add: gave_back_def release_attempts_def split: sum.splits)
qed

text \<open>A kernel that answers the scope \<open>f2\<close> with an error, and one that refuses it and then fails to
  release.\<close>

definition leak_env :: dag_env where
  "leak_env = sample_env\<lparr> env_lease := \<lambda>t x a sc. if sc = ''f2'' then Inl ''kernel down'' else Inr (JObject
     [(''ok'', JBool True), (''claim'', JObject [(''id'', JString ''l1'')])]) \<rparr>"

definition stuck_env :: dag_env where
  "stuck_env = sample_env\<lparr> env_lease := \<lambda>t x a sc. if sc = ''f2'' then Inr (JObject [(''ok'', JBool False)]) else Inr (JObject
     [(''ok'', JBool True), (''claim'', JObject [(''id'', JString ''l1'')])]),
     env_release := \<lambda>t l. Inl ''kernel down'' \<rparr>"

lemma leak_acquire:
  "acquire_leases leak_env ''a'' 1 [''f1'', ''f2''] [] (init_run sample_cfg) =
     Some (Inl ''kernel down'', ticks 1 (emit (EvLeaseAcquired ''l1'') (ticks 1 (init_run sample_cfg))))"
  by (simp add: leak_env_def opt_bool_def opt_str_def)

lemma stuck_acquire:
  "\<exists>c s'. acquire_leases stuck_env ''a'' 1 [''f1'', ''f2''] [] (init_run sample_cfg) = Some (Inr (Inl c), s') \<and>
     rs_log s' = [EvLeaseAcquired ''l1'', EvReleaseFailed ''l1'']"
  by (simp add: stuck_env_def opt_bool_def opt_str_def sample_env_def Let_def emit_def ticks_def init_run_def)

lemma kernel_error_keeps_leases_witness:
  "(\<exists>s' got. acquire_leases leak_env ''a'' 1 [''f1'', ''f2''] [] (init_run sample_cfg) = Some (Inl ''kernel down'', s') \<and>
     rs_log s' = map EvLeaseAcquired got \<and> got = [''l1'']) \<and>
   (\<exists>c s' got es. acquire_leases stuck_env ''a'' 1 [''f1'', ''f2''] [] (init_run sample_cfg) = Some (Inr (Inl c), s') \<and>
     rs_log s' = map EvLeaseAcquired got @ es \<and> list_all2 release_event es got \<and> EvReleaseFailed ''l1'' \<in> set es)"
proof -
  have i: "rs_log (init_run sample_cfg) = []" by (simp add: init_run_def)
  let ?s = "ticks 1 (emit (EvLeaseAcquired ''l1'') (ticks 1 (init_run sample_cfg)))"
  have ls: "rs_log ?s = [EvLeaseAcquired ''l1'']" by (simp add: emit_emits i)
  obtain got where "rs_log ?s = map EvLeaseAcquired got" using kernel_error_keeps_leases[OF leak_acquire] i by auto
  moreover from this have "got = [''l1'']" using ls by auto
  ultimately have "\<exists>s' got. acquire_leases leak_env ''a'' 1 [''f1'', ''f2''] [] (init_run sample_cfg) = Some (Inl ''kernel down'', s') \<and>
     rs_log s' = map EvLeaseAcquired got \<and> got = [''l1'']"
    using leak_acquire by blast
  moreover obtain c s' where k: "acquire_leases stuck_env ''a'' 1 [''f1'', ''f2''] [] (init_run sample_cfg) = Some (Inr (Inl c), s')"
    "rs_log s' = [EvLeaseAcquired ''l1'', EvReleaseFailed ''l1'']"
    using stuck_acquire by blast
  moreover obtain got es where
    g: "rs_log s' = map EvLeaseAcquired got @ es" "list_all2 release_event es got"
    using kernel_error_keeps_leases[OF k(1)] i by auto
  moreover have "EvReleaseFailed ''l1'' \<in> set es"
  proof -
    have "EvReleaseFailed ''l1'' \<in> set (map EvLeaseAcquired got @ es)" unfolding g(1)[symmetric] k(2) by simp
    then show ?thesis by auto
  qed
  ultimately show ?thesis by blast
qed

end
