(* ===== verification/Policy_Claims.thy ===== *)
theory Policy_Claims
  imports Engine_Claims
begin

text \<open>
  The properties of the policies around a dispatch: acceptance of a successful node, compensation and
  rollback after a failure, the claims on work scopes and the decision to use a workstation.
\<close>

subsection \<open>Acceptance\<close>

text \<open>a dispatched node counts as succeeded exactly when its own acceptance mode lets the payload
  pass and, if it declares a fan-in, its source nodes do; it is failed exactly when it is rejected,
  and paused exactly when a human has to decide. Lifecycle, recorded state and verdict agree.\<close>

theorem acceptance_decides_state:
  assumes "split_lisp_string_list (acceptance_commands_raw n) = Some commands"
    and "split_lisp_string_list (acceptance_evidence_keys_raw n) = Some keys"
  shows "\<exists>s. evaluate_success_acceptance pid ver n pl prior = Some s \<and>
    (sa_lifecycle s = LSucceeded \<longleftrightarrow> node_gate n pl commands keys \<and> fan_in_gate n prior keys) \<and>
    (sa_state s = Succeeded \<longleftrightarrow> sa_lifecycle s = LSucceeded) \<and>
    (sa_lifecycle s = LFailed \<longleftrightarrow> sa_rejected s) \<and> (is_failed (sa_state s) \<longleftrightarrow> sa_rejected s) \<and>
    (sa_lifecycle s = LPaused \<longleftrightarrow> is_paused (sa_state s))"
  by (rule success_acceptance_iff[OF assms])

definition evidence_node :: dag_node where
  "evidence_node = (sample_node ''a'' [])\<lparr> acceptance_mode_raw := Some ''evidence_keys'',
     acceptance_evidence_keys_raw := Some (lisp_string_list [''tests'']) \<rparr>"

lemma acceptance_decides_state_witness:
  "\<exists>s. evaluate_success_acceptance ''p'' 1 evidence_node (JObject [(''tests'', JBool True)]) Map.empty = Some s \<and>
     sa_state s = Succeeded"
proof -
  have l: "split_lisp_string_list (acceptance_commands_raw evidence_node) = Some []"
    "split_lisp_string_list (acceptance_evidence_keys_raw evidence_node) = Some [''tests'']"
    by code_simp+
  have g: "node_gate evidence_node (JObject [(''tests'', JBool True)]) [] [''tests'']"
    "fan_in_gate evidence_node Map.empty [''tests'']"
    by code_simp+
  show ?thesis using acceptance_decides_state[OF l, of "''p''" 1 "JObject [(''tests'', JBool True)]" Map.empty] g by blast
qed

subsection \<open>Compensation and rollback\<close>

text \<open>C34: the compensation order is a permutation of the compensation candidates; its first part lists
  every node after the candidates named in its \<open>rollback-after\<close>, and what comes after that part
  are the candidates that wait for each other.\<close>

theorem compensation_order_respects_after:
  assumes "unique_ids ns"
  shows "\<exists>ordered. mset (compute_compensation_order failed ns order) = mset (compensation_candidates failed ns) \<and>
    compute_compensation_order failed ns order =
      ordered @ filter (\<lambda>n. node_id n \<notin> set (ids_of ordered)) (compensation_candidates failed ns) \<and>
    after_prefix (compensation_candidates failed ns) ordered \<and>
    (\<forall>n \<in> set (compensation_candidates failed ns). n \<notin> set ordered \<longrightarrow>
       (\<exists>a \<in> set (after_deps (compensation_candidates failed ns) n). a \<notin> set (ids_of ordered)))"
  using compensation_order_spec[OF assms, of failed order] by metis

definition undo_node :: "string \<Rightarrow> string list \<Rightarrow> dag_node" where
  "undo_node x after = (sample_node x [])\<lparr> compensates := Some ''A'', rollback_after := after \<rparr>"

lemma compensation_order_respects_after_witness:
  "set (compute_compensation_order ''a'' [undo_node ''u1'' [''u2''], undo_node ''u2'' [], sample_node ''a'' []] []) =
     {undo_node ''u1'' [''u2''], undo_node ''u2'' []}"
proof -
  let ?ns = "[undo_node ''u1'' [''u2''], undo_node ''u2'' [], sample_node ''a'' []]"
  have u: "unique_ids ?ns" by (simp add: unique_ids_def ids_of_def undo_node_def sample_node_def)
  have c: "compensation_candidates ''a'' ?ns = [undo_node ''u1'' [''u2''], undo_node ''u2'' []]" by code_simp
  obtain w where "mset (compute_compensation_order ''a'' ?ns []) = mset (compensation_candidates ''a'' ?ns)"
    using compensation_order_respects_after[OF u] by blast
  then show ?thesis unfolding c by (metis list.set(1) list.simps(15) set_mset_mset)
qed

text \<open>after a failure, every workstation call of the rollback passes the safety rules (policy
  workstation, an objective, owned files, a project to work in, a known strategy); it is made for
  the failed node itself or, in the dispatch-safe cascade only, for one of its compensation
  candidates.\<close>

theorem rollback_calls_are_safe:
  assumes "unique_ids ns" "evaluate_rollback ws brief_of t n ns order = Some (e, calls)"
  shows "\<forall>k \<in> set calls. safe_call k \<and>
    (fst k = n \<or> rollback_cascade_kind n = Some CascadeDispatchSafe
        \<and> fst k \<in> set (compensation_candidates (node_id n) ns))"
  by (rule evaluate_rollback_calls[OF assms])

definition undoable_node :: dag_node where
  "undoable_node = (sample_node ''a'' [])\<lparr> rollback_policy := Some ''workstation'', rollback_objective := Some ''undo'',
     rollback_owned_files_raw := Some (lisp_string_list [''f'']), target_project := Some ''p'',
     dispatch_strategy := Some ''mixed'' \<rparr>"

lemma rollback_calls_are_safe_witness:
  "\<exists>e h. evaluate_rollback (\<lambda>t h st. WsDryRun []) (\<lambda>h st. []) 0 undoable_node [undoable_node] [''a''] = Some (e, [(undoable_node, h)]) \<and>
     safe_call (undoable_node, h)"
proof -
  have "case evaluate_rollback (\<lambda>t h st. WsDryRun []) (\<lambda>h st. []) 0 undoable_node [undoable_node] [''a''] of
     None \<Rightarrow> False | Some (e, calls) \<Rightarrow> length calls = 1"
    by code_simp
  then obtain e k where r: "evaluate_rollback (\<lambda>t h st. WsDryRun []) (\<lambda>h st. []) 0 undoable_node [undoable_node] [''a''] = Some (e, [k])"
    by (auto simp: length_Suc_conv split: option.splits)
  have u: "unique_ids [undoable_node]" by (simp add: unique_ids_def ids_of_def)
  have "rollback_cascade_kind undoable_node = None" by code_simp
  with rollback_calls_are_safe[OF u r] have "safe_call k" "fst k = undoable_node" by auto
  with r show ?thesis by (cases k) auto
qed

text \<open>the preview of a task brief kept in a rollback record is never longer than 803 bytes.\<close>

theorem rollback_preview_bounded: "byte_len (truncate_rollback_brief_preview b) \<le> 803"
  by (rule preview_bound)

subsection \<open>Claims\<close>

text \<open>claim ids name the node and the attempt: two claims of a plan have the same id exactly when
  they are for the same node and the same attempt, also when node ids contain colons.\<close>

theorem claim_ids_tell_attempts_apart:
  "derive_plan_dag_claim_id p x a = derive_plan_dag_claim_id p y b \<longleftrightarrow> x = y \<and> a = b"
proof
  assume e: "derive_plan_dag_claim_id p x a = derive_plan_dag_claim_id p y b"
  then have "x = y" by (rule claim_id_node)
  with e show "x = y \<and> a = b" by (simp add: claim_id_attempt_inj)
qed simp

text \<open>the lease time of a claim is always between one minute and four hours, and the scopes a node
  claims are never empty.\<close>

theorem claim_knobs_bounded:
  "60 \<le> parse_claim_lease_secs args \<and> parse_claim_lease_secs args \<le> 14400 \<and> parse_claimer_name args \<noteq> [] \<and>
   (case derive_node_claim_scopes n p of None \<Rightarrow> \<not> lists_end n
    | Some (ss, src) \<Rightarrow> ss \<noteq> [] \<and> [] \<notin> set ss)"
  using claim_secs_bounds[of args] claimer_nonempty[of args] scopes_end[of n p] scopes_nonempty[of n p]
  by (auto split: option.splits)

text \<open>a claim is stamped by its first release only: a second release returns the same claim and
  changes nothing.\<close>

theorem claim_released_once:
  assumes "registry_get r x = Some c" "released_at c = None"
  shows "fst (release x t r) = Some (c\<lparr> released_at := Some t \<rparr>) \<and>
    fst (release x u (snd (release x t r))) = Some (c\<lparr> released_at := Some t \<rparr>) \<and>
    snd (release x u (snd (release x t r))) = snd (release x t r)"
proof -
  have "snd (release x u (snd (release x t r))) y = snd (release x t r) y" for y
    using reg.release_once(3)[OF assms, of u t y] by (simp add: registry_get_def)
  then show ?thesis using reg.release_once(1,2)[OF assms] by (simp add: fun_eq_iff)
qed

definition sample_claim :: plan_dag_claim where
  "sample_claim = \<lparr> claim_id = ''k'', work_lease_ids = [''l1''], claimer = ''me'', scopes = [''src''],
     claim_source = NodeScope, acquired_at = 1, lease_expires_at = 1801, released_at = None \<rparr>"

lemma claim_released_once_witness:
  "fst (release ''k'' 9 (snd (release ''k'' 5 (record_acquired sample_claim registry_new)))) =
     Some (sample_claim\<lparr> released_at := Some 5 \<rparr>)"
proof -
  have h: "registry_get (record_acquired sample_claim registry_new) ''k'' = Some sample_claim" "released_at sample_claim = None"
    by (simp_all add: registry_get_def record_acquired_def sample_claim_def)
  show ?thesis using claim_released_once[OF h] by blast
qed

subsection \<open>The workstation decision\<close>

text \<open>workstation dispatch is enabled exactly when the caller asks for it, or does not speak and the
  plan asks for it or the node is a delegated task with a known strategy, an objective and at least
  one scoping signal.\<close>

theorem workstation_decision:
  "decision_enabled (evaluate_dispatch_decision args plan_hint ctx) \<longleftrightarrow>
     (case explicit_workstation_dispatch_flag args of
        Some b \<Rightarrow> b
      | None \<Rightarrow> plan_hint \<or>
          (ic_target ctx = ''mission_task_delegate'' \<and>
           ic_dispatch_strategy ctx \<in> set INFERABLE_DISPATCH_STRATEGIES \<and>
           \<not> blank (ic_objective ctx) \<and>
           (ic_owned_files_present ctx \<or> ic_scope_present ctx
            \<or> ic_target_project_present ctx \<or> ic_requested_cwd_present ctx)))"
  by (rule decision_enabled_iff)

end
