(* ===== verification/Dag_Report.thy ===== *)
theory Dag_Report
  imports Dag_Runtime Dag_Contract
begin

text \<open>
  What a plan run reports: the JSON blocks of a node's acceptance and rollback, the result rows
  (\<open>plan_dag/outcome/execution.rs\<close>), the previews of a plan (\<open>plan_dag/projection.rs\<close>) and the
  tool errors of the plan builder (\<open>plan_dag/parser/types/errors.rs\<close>). Keys of an object stand in
  the order in which the code sets them; no key is set twice.
\<close>

subsection \<open>Fields\<close>

definition fld :: "string \<Rightarrow> string option \<Rightarrow> (string \<times> json) list" where
  "fld k v = (case v of None \<Rightarrow> [] | Some s \<Rightarrow> [(k, JString s)])"

definition fld_json :: "string \<Rightarrow> json option \<Rightarrow> (string \<times> json) list" where
  "fld_json k v = (case v of None \<Rightarrow> [] | Some j \<Rightarrow> [(k, j)])"

definition strs :: "string list \<Rightarrow> json" where
  "strs xs = JArray (map JString xs)"

definition fld_strs :: "string \<Rightarrow> string list \<Rightarrow> (string \<times> json) list" where
  "fld_strs k xs = (if xs = [] then [] else [(k, strs xs)])"

definition str_or_null :: "string option \<Rightarrow> json" where
  "str_or_null v = (case v of None \<Rightarrow> JNull | Some s \<Rightarrow> JString s)"

definition num :: "'w::len word \<Rightarrow> json" where
  "num w = JInt (uint w)"

definition fld_num :: "string \<Rightarrow> 'w::len word option \<Rightarrow> (string \<times> json) list" where
  "fld_num k v = (case v of None \<Rightarrow> [] | Some w \<Rightarrow> [(k, num w)])"

lemma keys_fld [simp]:
  "fst ` set (fld k v) = (if v = None then {} else {k})"
  "fst ` set (fld_json k w) = (if w = None then {} else {k})"
  "fst ` set (fld_strs k xs) = (if xs = [] then {} else {k})"
  "fst ` set (fld_num k n) = (if n = None then {} else {k})"
  by (auto simp: fld_def fld_json_def fld_strs_def fld_num_def split: option.splits)

subsection \<open>Blocks of a node result\<close>

definition fan_in_json :: "fan_in_outcome \<Rightarrow> json" where
  "fan_in_json f = JObject
     [(''mode'', JString (acceptance_requires_wire (fi_mode f))), (''source_nodes'', strs (fi_source_nodes f)),
      (''passed'', JBool (fi_passed f)), (''reason'', JString (fi_reason f))]"

definition acceptance_json :: "acceptance_evaluation \<Rightarrow> json" where
  "acceptance_json e = JObject
     ([(''status'', JString (acceptance_status_wire (acc_status e))),
       (''mode'', str_or_null (map_option acceptance_mode_wire (acc_mode e))),
       (''commands'', strs (acc_commands e)), (''evidence_keys'', strs (acc_evidence_keys e)),
       (''reason'', JString (acc_reason e))]
      @ fld_json ''fan_in'' (map_option fan_in_json (acc_fan_in e)))"

definition compensation_json :: "compensation_outcome \<Rightarrow> json" where
  "compensation_json c = JObject
     ([(''node_id'', JString (co_node_id c)), (''policy'', JString (rollback_policy_wire (co_policy c))),
       (''status'', JString (rollback_status_wire (co_status c))), (''reason'', JString (co_reason c)),
       (''objective'', str_or_null (co_objective c)), (''owned_files'', strs (co_owned_files c)),
       (''acceptance_commands'', strs (co_acceptance_commands c)),
       (''acceptance_commands_executed'', JBool False)]
      @ fld ''task_brief_preview'' (co_task_brief_preview c) @ fld ''task_brief_path'' (co_task_brief_path c)
      @ fld_json ''inner_result'' (co_inner_payload c))"

definition cascade_json :: "cascade_outcome \<Rightarrow> json" where
  "cascade_json c = JObject
     [(''mode'', JString (rollback_cascade_wire (ca_mode c))), (''cascade_root'', JString (ca_cascade_root c)),
      (''reason'', JString (ca_reason c)), (''compensations'', JArray (map compensation_json (ca_compensations c)))]"

definition rollback_json :: "rollback_evaluation \<Rightarrow> json" where
  "rollback_json e = JObject
     ([(''policy'', JString (rollback_policy_wire (rb_policy e))),
       (''status'', JString (rollback_status_wire (rb_status e))), (''reason'', JString (rb_reason e)),
       (''objective'', str_or_null (rb_objective e)), (''owned_files'', strs (rb_owned_files e)),
       (''acceptance_commands'', strs (rb_acceptance_commands e)),
       (''acceptance_commands_executed'', JBool False)]
      @ fld ''task_brief_preview'' (rb_task_brief_preview e) @ fld ''task_brief_path'' (rb_task_brief_path e)
      @ fld_json ''inner_result'' (rb_inner_payload e)
      @ fld_json ''cascade'' (Option.bind (rb_cascade e)
          (\<lambda>c. if cascade_is_inactive c then None else Some (cascade_json c))))"

definition retry_block :: "node_result \<Rightarrow> json option" where
  "retry_block r =
     (if nr_max_attempts r > 1 \<or> nr_attempts_made r > 1 \<or> nr_retry_skipped_non_retryable r then
        Some (JObject ([(''attempts'', num (nr_attempts_made r)), (''max_attempts'', num (nr_max_attempts r))]
          @ (if nr_retry_skipped_non_retryable r then [(''non_retryable'', JBool True)] else [])))
      else None)"

definition review_warning :: "node_state \<Rightarrow> string option" where
  "review_warning st = (case st of Paused _ w \<Rightarrow> w | _ \<Rightarrow> None)"

definition node_result_json :: "node_result \<Rightarrow> json" where
  "node_result_json r = JObject
     ([(''id'', JString (nr_id r)), (''target'', JString (nr_target r)),
       (''state'', JString (fst (state_row (nr_state r)))),
       (''dispatch_strategy'', JString (nr_dispatch_strategy r)), (''inner_result'', nr_inner_payload r)]
      @ map (\<lambda>kv. (fst kv, JString (snd kv))) (snd (state_row (nr_state r)))
      @ fld ''review_question_warning'' (review_warning (nr_state r))
      @ fld_json ''retry'' (retry_block r)
      @ fld_json ''acceptance'' (Option.bind (nr_acceptance r)
          (\<lambda>a. if acceptance_is_inactive a then None else Some (acceptance_json a)))
      @ fld_json ''rollback'' (Option.bind (nr_rollback r)
          (\<lambda>b. if rollback_is_inactive b then None else Some (rollback_json b))))"

definition node_results_json :: "execution_outcome \<Rightarrow> json" where
  "node_results_json o' = JArray (map node_result_json (eo_results o'))"

subsection \<open>Previews of a plan (\<open>projection.rs\<close>)\<close>

definition rollback_summary :: "dag_node \<Rightarrow> json" where
  "rollback_summary n = JObject
     ([(''policy'', JString (rollback_policy_wire (unwrap_or (rollback_policy_kind n) RbNone)))]
      @ fld ''objective'' (rollback_objective n) @ fld ''owned_files_raw'' (rollback_owned_files_raw n)
      @ fld ''acceptance_commands_raw'' (rollback_acceptance_commands_raw n)
      @ fld ''compensates'' (compensates n) @ fld ''compensate_node'' (compensate_node n)
      @ fld ''cascade_mode'' (rollback_cascade n) @ fld_strs ''rollback_after'' (rollback_after n))"

definition retry_summary :: "dag_node \<Rightarrow> (string \<times> json) list" where
  "retry_summary n =
     (''max_attempts'', num (effective_max_attempts n)) # fld_num ''retry_count_raw'' (retry_count n)
     @ fld_num ''retry_delay_ms'' (effective_retry_delay_ms n)"

definition node_summary :: "dag_node \<Rightarrow> json" where
  "node_summary n = JObject
     ([(''id'', JString (node_id n)), (''target'', JString (target n)), (''depends_on'', strs (depends_on n)),
       (''failure_policy'', JString (failure_policy n))]
      @ fld ''objective'' (objective n) @ fld ''condition'' (condition n)
      @ fld_json ''timeout_ms'' (map_option JInt (timeout_ms n))
      @ fld ''dispatch_strategy'' (dispatch_strategy n) @ fld ''target_project'' (target_project n)
      @ fld ''requested_cwd'' (requested_cwd n) @ fld ''flow_id'' (flow_id n) @ fld ''scope'' (scope n)
      @ fld ''commit_policy'' (commit_policy n) @ fld ''owned_files_raw'' (owned_files_raw n)
      @ fld ''forbidden_files_raw'' (forbidden_files_raw n)
      @ fld ''acceptance_commands_raw'' (acceptance_commands_raw n)
      @ fld ''acceptance_mode'' (acceptance_mode_raw n)
      @ fld ''acceptance_evidence_keys_raw'' (acceptance_evidence_keys_raw n)
      @ fld_strs ''acceptance_depends_on'' (acceptance_depends_on n)
      @ fld ''acceptance_requires'' (acceptance_requires_raw n)
      @ fld ''acceptance_source_node'' (acceptance_source_node n)
      @ (if workstation_dispatch_opt_in n then [(''workstation_dispatch'', JBool True)] else [])
      @ fld ''review_gate'' (review_gate n) @ fld ''review_action'' (review_action n)
      @ fld ''review_text'' (review_text n)
      @ (if has_rollback_hints n then [(''rollback'', rollback_summary n)] else [])
      @ (if retry_enabled n then [(''retry'', JObject (retry_summary n))] else []))"

text \<open>\<open>by_id.remove(id)\<close>: a second occurrence of an id in the order is passed over.\<close>

fun take_nodes :: "(string \<rightharpoonup> dag_node) \<Rightarrow> string list \<Rightarrow> dag_node list" where
  "take_nodes m [] = []"
| "take_nodes m (x # xs) =
     (case m x of None \<Rightarrow> take_nodes m xs | Some n \<Rightarrow> n # take_nodes (m(x := None)) xs)"

definition build_nodes_summary :: "dag_node list \<Rightarrow> string list \<Rightarrow> json" where
  "build_nodes_summary ns order = JArray (map node_summary (take_nodes (by_id_map ns) order))"

definition build_retry_plan :: "dag_node list \<Rightarrow> string list \<Rightarrow> json" where
  "build_retry_plan ns order =
     JArray (map (\<lambda>n. JObject ((''id'', JString (node_id n)) # retry_summary n))
       (filter retry_enabled (List.map_filter (by_id_map ns) order)))"

text \<open>\<open>unsupported_fields.insert(n.id, ..)\<close>: one entry per node, the last one of an id wins.\<close>

definition unsupported_rows :: "dag_node \<Rightarrow> json" where
  "unsupported_rows n =
     JArray (map (\<lambda>(k, v). JObject [(''key'', JString k), (''value'', JString v)]) (unsupported_fields n))"

definition build_node_hint_summary :: "parsed_dag \<Rightarrow> json" where
  "build_node_hint_summary p = JObject
     [(''unsupported_top_forms'', strs (unsupported_top_forms p)),
      (''unsupported_fields'', JObject (foldl (\<lambda>al n.
          if unsupported_fields n = [] then al else AList.update (node_id n) (unsupported_rows n) al) [] (nodes p)))]"

subsection \<open>Tool results\<close>

text \<open>A tool result is an error with its message and suggestion (every error here has the code
  \<open>INVALID_PARAM\<close>) or a JSON payload.\<close>

datatype tool_result =
    StructuredError string "string option"
  | JsonPretty json

definition invalid_param :: "string \<Rightarrow> tool_result" where
  "invalid_param m = StructuredError m None"

definition with_suggestion :: "string \<Rightarrow> string \<Rightarrow> tool_result" where
  "with_suggestion m s = StructuredError m (Some s)"

end
