(* ===== verification/Dag_Finalize.thy ===== *)
theory Dag_Finalize
  imports Dag_Report
begin

text \<open>
  What stands around a plan run: the tool error of a rejected plan
  (\<open>DagBuildError::into_tool_result\<close>), the mode switches of a call (\<open>plan_dag/mode.rs\<close>,
  \<open>plan/field_inference/mode.rs\<close>, \<open>plan/task_contract.rs\<close>) and the finalization of a run with its
  optional distill call (\<open>plan_dag/finalization.rs\<close>).
\<close>

subsection \<open>Rejected plans\<close>

definition tick :: "string \<Rightarrow> string" where
  "tick s = ''`'' @ s @ ''`''"

fun join :: "string \<Rightarrow> string list \<Rightarrow> string" where
  "join sep' [] = []"
| "join sep' [x] = x"
| "join sep' (x # y # ys) = x @ sep' @ join sep' (y # ys)"

definition build_error_message :: "dag_build_error \<Rightarrow> string" where
  "build_error_message err =
     (case err of
        InvalidContract detail \<Rightarrow> ''DAG plan contract is invalid: '' @ detail
      | NoNodes \<Rightarrow> ''scheduler_mode=dag_v1 found no `(node :id ... :target ...)` forms in plan.sexp_text''
      | DuplicateId x \<Rightarrow> ''DAG node id '' @ tick x @ '' is duplicated; node ids must be unique''
      | InvalidTarget x t \<Rightarrow> ''DAG node '' @ tick x @ '' has unsupported :target '' @ tick t @ ''; valid: '' @ show_debug_list VALID_TARGETS
      | DependencyMissing x m \<Rightarrow> ''DAG node '' @ tick x @ '' depends on '' @ tick m @ '' which is not declared in this plan''
      | SelfDependency x \<Rightarrow> ''DAG node '' @ tick x @ '' declares itself in :depends-on''
      | InvalidRetryHint x key raw detail \<Rightarrow> ''DAG node '' @ tick x @ '' has invalid `:'' @ key @ ''` value '' @ tick raw @ '': '' @ detail
      | Cycle xs \<Rightarrow> ''DAG contains a cycle involving nodes: '' @ join '' -> '' xs
      | AcceptanceDependencyMissing x m \<Rightarrow> ''DAG node '' @ tick x @ '' declares `:acceptance-depends-on` referencing '' @ tick m
     @ '' which is not declared in this plan''
      | AcceptanceSourceNodeInvalid x detail \<Rightarrow> ''DAG node '' @ tick x @ '' has invalid `:acceptance-source-node`: '' @ detail
      | AcceptanceFanInRequiresMissing x raw \<Rightarrow> ''DAG node '' @ tick x @ '' declares `:acceptance-depends-on` but `:acceptance-requires` ''
     @ (if blank raw then ''field is missing''
        else ''got '' @ tick (the raw) @ ''; expected one of: all_succeeded | any_succeeded | evidence_keys'')
      | AcceptanceFanInDepNotAncestor x a \<Rightarrow> ''DAG node '' @ tick x @ '' declares `:acceptance-depends-on` referencing '' @ tick a
     @ '' which is not a (transitive) `:depends-on` ancestor of '' @ tick x
      | CompensateNodeInvalid x key raw detail \<Rightarrow> ''DAG node '' @ tick x @ '' has invalid `:'' @ key @ ''` value '' @ tick raw @ '': '' @ detail
      | CompensateDirectionMismatch f c r \<Rightarrow> ''DAG node '' @ tick f @ '' declares `:compensate-node '' @ [dquote] @ c @ [dquote] @ ''` but '' @ tick c
     @ '' declares `:compensates '' @ [dquote] @ r @ [dquote]
     @ ''` -- forward and reverse compensate directions disagree; the scheduler refuses to silently pick one'')"

definition build_error_suggestion :: "dag_build_error \<Rightarrow> string option" where
  "build_error_suggestion err =
     (case err of
        InvalidContract _ \<Rightarrow> Some
     ''recompile the plan contract with `missiond-lispc emit-plan-contract`; production DAG execution only accepts missiond.plan-contract.v2 with typed nodes''
      | NoNodes \<Rightarrow> Some
     ''DAG v1 only parses explicit (node ...) forms; rewrite the plan to use them or fall back to the default (single-node) scheduler mode''
      | InvalidRetryHint _ _ _ _ \<Rightarrow> Some
     ''supply a non-negative integer <= 3 for `:retry-count` / `:max-attempts` (the cap), or remove the hint to keep the default single-attempt contract''
      | AcceptanceDependencyMissing _ _ \<Rightarrow> Some
     ''every entry in `:acceptance-depends-on` MUST be a node id declared elsewhere in this plan and MUST also be a (transitive) `:depends-on` ancestor of the current node''
      | AcceptanceSourceNodeInvalid _ _ \<Rightarrow> Some
     (''set `:acceptance-source-node` to a node id that also appears in this node's `:acceptance-depends-on` list (only used under `:acceptance-requires ''
      @ [dquote] @ ''evidence_keys'' @ [dquote] @ ''`)'')
      | AcceptanceFanInRequiresMissing _ _ \<Rightarrow> Some
     (''add `:acceptance-requires '' @ [dquote] @ ''all_succeeded'' @ [dquote]
      @ ''` (or `any_succeeded` / `evidence_keys`) to specify how the fan-in gate decides; remove `:acceptance-depends-on` if no fan-in is intended'')
      | AcceptanceFanInDepNotAncestor _ _ \<Rightarrow> Some
     ''the source node's evidence must already exist when this node's acceptance phase runs -- add the source to this node's `:depends-on` (directly or via an existing chain) so the scheduler dispatches them in the correct order''
      | CompensateNodeInvalid _ _ _ _ \<Rightarrow> Some
     ''set `:compensate-node` (or `:compensate-ref`) to the id of a compensation node declared elsewhere in this plan; the value MUST NOT name the failing node itself, and the named compensation node's own `:compensates` (when present) MUST point back at the failing node''
      | CompensateDirectionMismatch _ _ _ \<Rightarrow> Some
     ''make the two directions agree: either change `:compensate-node` on the failing node, or change `:compensates` on the compensation node so they name each other (forward + reverse must be symmetric)''
      | _ \<Rightarrow> None)"

definition into_tool_result :: "dag_build_error \<Rightarrow> tool_result" where
  "into_tool_result e = StructuredError (build_error_message e) (build_error_suggestion e)"

subsection \<open>Mode switches\<close>

definition detect_scheduler_mode :: "json \<Rightarrow> tool_result + bool" where
  "detect_scheduler_mode args =
     (let m = trim (unwrap_or (opt_str args ''scheduler_mode'') []) in
      if m \<in> {'''', ''v0'', ''default'', ''current'', ''single_node'', ''single-node''} then Inr False
      else if m \<in> {''dag_v1'', ''dag-v1''} then Inr True
      else Inl (with_suggestion (''unknown scheduler_mode '' @ tick m)
        ''scheduler_mode is one of {default, dag_v1}''))"

datatype infer_mode = InferOff | InferPreview | InferApplySafe | InferSonnetSuggest

fun infer_mode_wire :: "infer_mode \<Rightarrow> string" where
  "infer_mode_wire InferOff = ''off''"
| "infer_mode_wire InferPreview = ''preview''"
| "infer_mode_wire InferApplySafe = ''apply_safe''"
| "infer_mode_wire InferSonnetSuggest = ''sonnet_suggest''"

definition parse_infer_plan_fields_mode :: "json \<Rightarrow> string + infer_mode" where
  "parse_infer_plan_fields_mode args =
     (case opt_str args ''infer_plan_fields'' of
        None \<Rightarrow> Inr InferOff
      | Some s \<Rightarrow>
          if s = '''' \<or> s = ''off'' then Inr InferOff
          else if s = ''preview'' then Inr InferPreview
          else if s = ''apply_safe'' then Inr InferApplySafe
          else if s = ''sonnet_suggest'' then Inr InferSonnetSuggest
          else Inl (''infer_plan_fields must be one of ''
            @ show_debug_list [''off'', ''preview'', ''apply_safe'', ''sonnet_suggest''] @ ''; got '' @ tick s))"

definition refuse_llm_inference_in_dag_mode :: "json \<Rightarrow> tool_result option" where
  "refuse_llm_inference_in_dag_mode args =
     (case parse_infer_plan_fields_mode args of
        Inl msg \<Rightarrow> Some (invalid_param msg)
      | Inr m \<Rightarrow>
          if m \<noteq> InferSonnetSuggest then None
          else Some (with_suggestion
            (''infer_plan_fields='' @ tick (infer_mode_wire m)
             @ '' is single-node-execute-only in v0; it is not supported with scheduler_mode=dag_v1'')
            ''drop scheduler_mode=dag_v1 to use the single-node execute path with sonnet_suggest, or rerun the DAG with infer_plan_fields one of {off, preview, apply_safe}''))"

datatype emit_mode = EmitOff | Emit | EmitDryRun

fun emit_mode_str :: "emit_mode \<Rightarrow> string" where
  "emit_mode_str EmitOff = ''off''"
| "emit_mode_str Emit = ''emit''"
| "emit_mode_str EmitDryRun = ''emit_dry_run''"

definition parse_task_contract_emit_mode :: "json \<Rightarrow> tool_result + emit_mode" where
  "parse_task_contract_emit_mode args =
     (let hint = ''expected one of: '' @ show_debug ''off'' @ '', '' @ show_debug ''emit'' @ '', '' @ show_debug ''emit_dry_run''
      in case j_get args ''task_contract_mode'' of
        Some raw \<Rightarrow>
          (case as_str raw of
             None \<Rightarrow> Inl (with_suggestion ''task_contract_mode must be a string'' hint)
           | Some s0 \<Rightarrow>
               let s = trim s0 in
               if s = ''off'' then Inr EmitOff else if s = ''emit'' then Inr Emit
               else if s = ''emit_dry_run'' then Inr EmitDryRun
               else Inl (with_suggestion (''task_contract_mode '' @ tick s @ '' is not supported'') hint))
      | None \<Rightarrow> Inr (if opt_bool args ''emit_task_contract'' = Some True then Emit else EmitOff))"

datatype contract_mode = Rendered | Machine

fun contract_mode_str :: "contract_mode \<Rightarrow> string" where
  "contract_mode_str Rendered = ''rendered''"
| "contract_mode_str Machine = ''machine''"

definition parse_dispatch_contract_mode :: "json \<Rightarrow> tool_result + contract_mode" where
  "parse_dispatch_contract_mode args =
     (let hint = ''expected one of: '' @ show_debug ''rendered'' @ '', '' @ show_debug ''machine''
      in case j_get args ''dispatch_contract_mode'' of
        Some raw \<Rightarrow>
          (case as_str raw of
             None \<Rightarrow> Inl (with_suggestion ''dispatch_contract_mode must be a string'' hint)
           | Some s0 \<Rightarrow>
               let s = trim s0 in
               if s = ''rendered'' then Inr Rendered else if s = ''machine'' then Inr Machine
               else Inl (with_suggestion (''dispatch_contract_mode '' @ tick s @ '' is not supported'') hint))
      | None \<Rightarrow> Inr (if opt_bool args ''render_markdown'' = Some False then Machine else Rendered))"

record contract_ctx =
  tc_mode :: emit_mode
  tc_dispatch_contract_mode :: contract_mode
  tc_project_arg :: "string option"
  tc_cwd_arg :: "string option"
  tc_target_project_arg :: "string option"

definition task_contract_ctx_from_args :: "json \<Rightarrow> tool_result + contract_ctx" where
  "task_contract_ctx_from_args args =
     bind_res (parse_task_contract_emit_mode args) (\<lambda>m.
     bind_res (parse_dispatch_contract_mode args) (\<lambda>d.
       Inr \<lparr> tc_mode = m, tc_dispatch_contract_mode = d, tc_project_arg = opt_str args ''project'',
             tc_cwd_arg = opt_str args ''cwd'', tc_target_project_arg = opt_str args ''target_project'' \<rparr>))"

subsection \<open>Finalization\<close>

definition parse_finalize_plan :: "json \<Rightarrow> bool" where
  "parse_finalize_plan args = unwrap_or (opt_bool args ''finalize_plan'') False"

definition parse_distill_on_success :: "json \<Rightarrow> bool" where
  "parse_distill_on_success args = unwrap_or (opt_bool args ''distill_on_success'') False"

definition parse_distill_mode_arg :: "json \<Rightarrow> string + string" where
  "parse_distill_mode_arg args =
     (case opt_str args ''distill_mode'' of
        None \<Rightarrow> Inr ''dry_run''
      | Some s \<Rightarrow>
          if s = '''' \<or> s = ''dry_run'' then Inr ''dry_run''
          else if s = ''sonnet'' then Inr ''sonnet''
          else Inl (''distill_mode must be one of '' @ show_debug_list [''dry_run'', ''sonnet''] @ ''; got '' @ tick s))"

definition validate_finalize_args :: "json \<Rightarrow> tool_result option" where
  "validate_finalize_args args =
     (case parse_distill_mode_arg args of
        Inl msg \<Rightarrow> Some (invalid_param msg)
      | Inr _ \<Rightarrow>
          if parse_distill_on_success args \<and> \<not> parse_finalize_plan args then
            Some (with_suggestion ''distill_on_success=true requires finalize_plan=true''
              ''the distill trigger fires only AFTER a successful finalization; set finalize_plan=true or drop distill_on_success'')
          else None)"

definition unchanged_status_label :: "string \<Rightarrow> string" where
  "unchanged_status_label current =
     (if current = ''executing'' then ''executing''
      else if current = ''awaiting_review'' then ''awaiting_review'' else ''unchanged'')"

definition finalize_plan_status_label :: "string \<Rightarrow> string \<Rightarrow> string" where
  "finalize_plan_status_label aggregate current =
     (if aggregate = ''dag_succeeded'' then ''succeeded''
      else if aggregate = ''dag_failed'' then ''failed''
      else if aggregate = ''dag_partial'' then ''failed''
      else unchanged_status_label current)"

definition finalization_rule :: "string \<Rightarrow> string" where
  "finalization_rule aggregate =
     (if aggregate = ''dag_succeeded'' then ''all_terminal_no_failed_no_paused''
      else if aggregate = ''dag_failed'' then ''fail_fast_or_failure_dominates''
      else if aggregate = ''dag_partial'' then ''failed_node_or_skipped_without_paused''
      else if aggregate = ''dag_paused'' then ''paused_node_present_no_finalization''
      else ''unrecognised_aggregate_no_finalization'')"

definition build_finalization_block ::
  "string \<Rightarrow> string option \<Rightarrow> string option \<Rightarrow> json option \<Rightarrow> json" where
  "build_finalization_block aggregate after err distill = JObject
     ([(''finalize_plan'', JBool True), (''aggregate_status'', JString aggregate),
       (''final_plan_status'', JString (unwrap_or after ''unchanged'')),
       (''rule'', JString (finalization_rule aggregate))]
      @ fld ''plan_status_update_error'' err @ fld_json ''distill'' distill)"

definition build_distill_block :: "bool \<Rightarrow> string \<Rightarrow> string \<Rightarrow> json option \<Rightarrow> bool \<Rightarrow> json" where
  "build_distill_block triggered reason mode inner inner_is_error = JObject
     ([(''triggered'', JBool triggered), (''reason'', JString reason), (''distill_mode'', JString mode)]
      @ fld_json ''result'' inner
      @ (if triggered \<and> inner_is_error
         then [(''warning'', JString ''distill trigger returned an error; plan final state preserved'')] else []))"

text \<open>The distill handler of the workflow tool is an argument: it answers a call with an error of
  its own (\<open>Err\<close>), or a payload and whether that payload is an error. The second component of
  the result is the call, if one was made.\<close>

definition distill_args :: "string \<Rightarrow> json \<Rightarrow> string \<Rightarrow> json" where
  "distill_args plan_id args mode = JObject
     ([(''action'', JString ''distill''), (''plan_id'', JString plan_id), (''distill_mode'', JString mode)]
      @ fld ''project'' (opt_str args ''project'') @ fld ''cwd'' (opt_str args ''cwd'')
      @ fld ''target_project'' (opt_str args ''target_project''))"

definition maybe_run_distill_trigger ::
  "(json \<Rightarrow> string + json \<times> bool) \<Rightarrow> string \<Rightarrow> json \<Rightarrow> string \<Rightarrow> string option \<Rightarrow> json option \<times> json list" where
  "maybe_run_distill_trigger workflow plan_id args aggregate after =
     (if \<not> parse_distill_on_success args then (None, [])
      else case parse_distill_mode_arg args of
        Inl _ \<Rightarrow> (Some (build_distill_block False ''distill_mode_invalid_unreachable'' ''dry_run'' None False), [])
      | Inr mode \<Rightarrow>
          if aggregate \<noteq> ''dag_succeeded'' then
            (Some (build_distill_block False ''aggregate_not_succeeded'' mode None False), [])
          else if after \<noteq> Some ''succeeded'' then
            (Some (build_distill_block False ''plan_status_not_succeeded_after_finalize'' mode None False), [])
          else let call = distill_args plan_id args mode in
            (Some (case workflow call of
                Inr (pl, is_error) \<Rightarrow>
                  build_distill_block True
                    (if is_error then ''distill_invoked_returned_error'' else ''distill_invoked_ok'')
                    mode (Some pl) is_error
              | Inl e \<Rightarrow>
                  build_distill_block True ''distill_invoked_handler_error'' mode
                    (Some (JObject [(''error'', JString e)])) True), [call]))"

lemma distill_called:
  "snd (maybe_run_distill_trigger w p args aggregate after) \<noteq> [] \<longleftrightarrow>
     parse_distill_on_success args \<and> (\<exists>m. parse_distill_mode_arg args = Inr m) \<and>
     aggregate = ''dag_succeeded'' \<and> after = Some ''succeeded''"
  by (auto simp: maybe_run_distill_trigger_def Let_def split: sum.splits)

lemma validated_distill:
  assumes "validate_finalize_args args = None"
  shows "\<exists>m. parse_distill_mode_arg args = Inr m" "parse_distill_on_success args \<Longrightarrow> parse_finalize_plan args"
  using assms by (auto simp: validate_finalize_args_def split: sum.splits if_splits)

end
