(* ===== verification/Dag_Action.thy ===== *)
theory Dag_Action
  imports Dag_Finalize
begin

text \<open>
  The action \<open>mission_plan(execute, scheduler_mode=dag_v1)\<close> (\<open>plan_dag.rs\<close>): it checks the call,
  builds the plan, answers a dry run, or starts the workflow record, runs the plan, writes the
  checkpoint and the plan status and finalizes. The stores and the workflow tool are the record
  \<open>action_env\<close>; the second component of the result lists the calls made on them, in order. \<open>None\<close>
  is a call that does not return.
\<close>

subsection \<open>Plans and the world\<close>

record dag_plan =
  pl_id :: string
  pl_version :: int
  pl_board_task_id :: string
  pl_status :: plan_status
  pl_contract :: json

record action_env =
  ax_run :: dag_env
  ax_start :: "json \<Rightarrow> string + json"
  ax_checkpoint :: "json \<Rightarrow> string + json"
  ax_update :: "string \<Rightarrow> plan_status \<Rightarrow> string + unit"
  ax_workflow :: "json \<Rightarrow> string + json \<times> bool"
  ax_evidence_path :: "string option"
  ax_evidence_error :: "string option"
  ax_bus_warnings :: "string list"
  ax_final_evidence :: "string option \<times> string option"
  ax_render :: "json \<Rightarrow> string"

datatype action_effect =
    FxWorkflowStart json
  | FxRun
  | FxCheckpoint json
  | FxPlanStatus string plan_status
  | FxDistill json
  | FxFinalEvidence

subsection \<open>The pieces of a call\<close>

definition plan_contract_json_requires_projection :: "json \<Rightarrow> bool" where
  "plan_contract_json_requires_projection c =
     (case as_object c of
        None \<Rightarrow> True
      | Some fs \<Rightarrow>
          fs = [] \<or> opt_str c ''schema_version'' \<noteq> Some ''missiond.plan-contract.v2''
          \<or> opt_str c ''projection_engine'' = Some ''rust-compat''
          \<or> (case j_get c ''payload'' of
               None \<Rightarrow> True
             | Some p \<Rightarrow> Option.bind (j_get p ''nodes'') as_array = None))"

definition arg_or :: "json \<Rightarrow> string \<Rightarrow> string \<Rightarrow> string option" where
  "arg_or args k k' = opt_bind_str (case j_get args k of None \<Rightarrow> j_get args k' | Some v \<Rightarrow> Some v)"

definition workflow_run_id :: "json \<Rightarrow> string \<Rightarrow> string" where
  "workflow_run_id args plan_id =
     (case arg_or args ''workflow_run_id'' ''workflowRunId'' of
        None \<Rightarrow> ''plan-dag:'' @ plan_id
      | Some s \<Rightarrow> if trim s = [] then ''plan-dag:'' @ plan_id else s)"

definition workflow_start_args :: "json \<Rightarrow> dag_plan \<Rightarrow> string list \<Rightarrow> nat \<Rightarrow> json" where
  "workflow_start_args args pl order k = JObject
     [(''workflow_run_id'', JString (workflow_run_id args (pl_id pl))),
      (''workflow_id'', JString ''mission_plan_execute''),
      (''workflow_path'', JString ''.missiond/workflows/plan-dag-runtime.lisp''),
      (''project_id'', str_or_null (arg_or args ''project_id'' ''projectId'')),
      (''parent_task_id'', JString (pl_board_task_id pl)), (''max_inflight'', JInt (int k)),
      (''cursor'', JObject [(''topological_order'', strs order)]),
      (''checkpoint'', JObject [(''plan_id'', JString (pl_id pl)), (''stage'', JString ''starting''),
                             (''scheduler_mode'', JString ''dag_v1'')]),
      (''active_task_ids'', strs order)]"

definition workflow_final_status :: "string \<Rightarrow> string" where
  "workflow_final_status aggregate =
     (if aggregate \<in> {''succeeded'', ''success''} then ''done''
      else if aggregate \<in> {''failed'', ''failure''} then ''failed''
      else if aggregate \<in> {''paused'', ''blocked''} then ''blocked''
      else ''running'')"

definition workflow_checkpoint_args ::
  "json \<Rightarrow> dag_plan \<Rightarrow> string list \<Rightarrow> string \<Rightarrow> string option \<Rightarrow> json" where
  "workflow_checkpoint_args args pl order aggregate evidence_path = JObject
     [(''workflow_run_id'', JString (workflow_run_id args (pl_id pl))),
      (''status'', JString (workflow_final_status aggregate)),
      (''cursor'', JObject [(''topological_order'', strs order)]),
      (''checkpoint'', JObject [(''plan_id'', JString (pl_id pl)), (''aggregate_status'', JString aggregate),
         (''evidence_path'', str_or_null evidence_path), (''scheduler_mode'', JString ''dag_v1'')]),
      (''active_task_ids'', JArray []), (''artifact_hashes'', JArray [])]"

definition action_cfg :: "json \<Rightarrow> dag_plan \<Rightarrow> parsed_dag \<Rightarrow> string list \<Rightarrow> dag_cfg" where
  "action_cfg args pl p order =
     \<lparr> cf_nodes = nodes p, cf_order = order, cf_plan_id = pl_id pl, cf_version = pl_version pl,
       cf_max_parallel = parse_max_parallel_nodes args, cf_lease_secs = parse_claim_lease_secs args,
       cf_claimer = parse_claimer_name args \<rparr>"

text \<open>What a response says of the plan, in a dry run and in a live run.\<close>

definition preview_fields :: "json \<Rightarrow> parsed_dag \<Rightarrow> string list \<Rightarrow> json \<Rightarrow> (string \<times> json) list" where
  "preview_fields args p order planned =
     [(''topological_order'', strs order),
      (''concurrency_plan'', JArray (map strs
         (compute_concurrency_plan (nodes p) order (parse_max_parallel_nodes args)))),
      (''node_hint_summary'', build_node_hint_summary p), (''retry_plan'', build_retry_plan (nodes p) order),
      (''planned_claims'', planned), (''claim_lease_secs'', JInt (parse_claim_lease_secs args)),
      (''claimer_name'', JString (parse_claimer_name args)), (''enforce_claims'', JBool (parse_enforce_claims args))]"

definition head_fields :: "dag_plan \<Rightarrow> parsed_dag \<Rightarrow> json \<Rightarrow> (string \<times> json) list" where
  "head_fields pl p args =
     [(''execute_mode'', JString ''internal''), (''scheduler_mode'', JString ''dag_v1''),
      (''plan_id'', JString (pl_id pl)), (''board_task_id'', JString (pl_board_task_id pl)),
      (''node_count'', JInt (int (length (nodes p)))),
      (''max_parallel_nodes'', JInt (int (parse_max_parallel_nodes args)))]"

definition dry_run_payload ::
  "json \<Rightarrow> dag_plan \<Rightarrow> parsed_dag \<Rightarrow> string list \<Rightarrow> json \<Rightarrow> contract_ctx \<Rightarrow> json" where
  "dry_run_payload args pl p order planned tc = JObject
     ([(''status'', JString ''dry_run''), (''runner_status'', JString ''dry_run_no_dispatch'')]
      @ head_fields pl p args @ [(''nodes'', build_nodes_summary (nodes p) order)]
      @ preview_fields args p order planned
      @ (if tc_mode tc = EmitOff then [] else [(''task_contract_mode'', JString (emit_mode_str (tc_mode tc)))])
      @ (if tc_dispatch_contract_mode tc = Machine
         then [(''dispatch_contract_mode'', JString (contract_mode_str Machine))] else []))"

definition j_set :: "string \<Rightarrow> json \<Rightarrow> (string \<times> json) list \<Rightarrow> (string \<times> json) list" where
  "j_set k v fs = AList.update k v fs"

definition j_set_opt :: "string \<Rightarrow> string option \<Rightarrow> (string \<times> json) list \<Rightarrow> (string \<times> json) list" where
  "j_set_opt k v fs = (case v of None \<Rightarrow> fs | Some s \<Rightarrow> j_set k (JString s) fs)"

definition result_field :: "string \<Rightarrow> string \<Rightarrow> string + json \<Rightarrow> (string \<times> json) list" where
  "result_field ok err r = (case r of Inr v \<Rightarrow> [(ok, v)] | Inl e \<Rightarrow> [(err, JString e)])"

definition live_payload ::
  "action_env \<Rightarrow> json \<Rightarrow> dag_plan \<Rightarrow> parsed_dag \<Rightarrow> string list \<Rightarrow> json \<Rightarrow> execution_outcome
     \<Rightarrow> string + json \<Rightarrow> string + json \<Rightarrow> string + string \<Rightarrow> (string \<times> json) list" where
  "live_payload ax args pl p order planned out started checkpointed status =
     [(''status'', JString (aggregate_status out)), (''aggregate_status'', JString (aggregate_status out)),
      (''runner_status'', JString (runner_status out))]
     @ head_fields pl p args
     @ [(''node_results'', node_results_json out), (''nodes'', node_results_json out),
        (''skipped_nodes'', skipped_nodes_json out), (''paused_nodes'', paused_nodes_json out),
        (''paused_node_ids'', strs (paused_node_ids out)),
        (''review_question_ids'', strs (review_question_ids out))]
     @ preview_fields args p order planned
     @ [(''evidence_path'', str_or_null (ax_evidence_path ax)),
        (''workflow_run_id'', JString (workflow_run_id args (pl_id pl)))]
     @ result_field ''workflow_start'' ''workflow_start_error'' started
     @ result_field ''workflow_checkpoint'' ''workflow_checkpoint_error'' checkpointed
     @ (case status of Inr s \<Rightarrow> [(''plan_status'', JString s)] | Inl e \<Rightarrow> [(''status_update_error'', JString e)])
     @ fld ''evidence_error'' (ax_evidence_error ax) @ fld_strs ''bus_publish_warnings'' (ax_bus_warnings ax)"

text \<open>\<open>plan_status_update\<close>: the status the plan has afterwards, or why it could not be stored.\<close>

definition update_plan_status ::
  "action_env \<Rightarrow> dag_plan \<Rightarrow> execution_outcome \<Rightarrow> (string + string) \<times> action_effect list" where
  "update_plan_status ax pl out =
     (case target_plan_status out of
        None \<Rightarrow> (Inr (plan_status_str (pl_status pl)), [])
      | Some st \<Rightarrow>
          (case ax_update ax (pl_id pl) st of
             Inr _ \<Rightarrow> Inr (plan_status_str st)
           | Inl e \<Rightarrow> Inl e, [FxPlanStatus (pl_id pl) st]))"

definition finalize ::
  "action_env \<Rightarrow> json \<Rightarrow> dag_plan \<Rightarrow> execution_outcome \<Rightarrow> string + string \<Rightarrow> (string \<times> json) list
     \<Rightarrow> (string \<times> json) list \<times> action_effect list" where
  "finalize ax args pl out status body =
     (let after = (case status of Inr s \<Rightarrow> Some s | Inl _ \<Rightarrow> None);
          err = (case status of Inr _ \<Rightarrow> None | Inl e \<Rightarrow> Some e) in
      case maybe_run_distill_trigger (ax_workflow ax) (pl_id pl) args (aggregate_status out) after of
        (distill, calls) \<Rightarrow>
          let block = build_finalization_block (aggregate_status out) after err distill;
              body = j_set ''finalization'' block body;
              body = j_set_opt ''evidence_path'' (fst (ax_final_evidence ax)) body;
              body = j_set_opt ''evidence_error'' (snd (ax_final_evidence ax)) body
          in (body, map FxDistill calls @ [FxFinalEvidence]))"

subsection \<open>The action\<close>

definition live_run ::
  "action_env \<Rightarrow> json \<Rightarrow> dag_plan \<Rightarrow> parsed_dag \<Rightarrow> string list \<Rightarrow> json
     \<Rightarrow> ((string + tool_result) \<times> action_effect list) option" where
  "live_run ax args pl p order planned =
     (let start = workflow_start_args args pl order (parse_max_parallel_nodes args);
          started = ax_start ax start
      in case execute_with_concurrency (action_cfg args pl p order) (ax_run ax) of
        None \<Rightarrow> None
      | Some (Inl e, _) \<Rightarrow> Some (Inl e, [FxWorkflowStart start, FxRun])
      | Some (Inr out, _) \<Rightarrow>
          let cp = workflow_checkpoint_args args pl order (aggregate_status out) (ax_evidence_path ax);
              checkpointed = ax_checkpoint ax cp
          in case update_plan_status ax pl out of
            (status, fx) \<Rightarrow>
              let body = live_payload ax args pl p order planned out started checkpointed status;
                  fx' = [FxWorkflowStart start, FxRun, FxCheckpoint cp] @ fx
              in if parse_finalize_plan args then
                   (case finalize ax args pl out status body of
                      (body, fx'') \<Rightarrow> Some (Inr (JsonPretty (JObject body)), fx' @ fx''))
                 else Some (Inr (JsonPretty (JObject body)), fx'))"

definition action_execute_dag_v1 ::
  "action_env \<Rightarrow> json \<Rightarrow> dag_plan \<Rightarrow> ((string + tool_result) \<times> action_effect list) option" where
  "action_execute_dag_v1 ax args pl =
     (if plan_contract_json_requires_projection (pl_contract pl) then
        Some (Inr (with_suggestion
          (''PLAN_CONTRACT_REQUIRED: plan '' @ tick (pl_id pl) @ '' requires persisted missiond.plan-contract.v2 contract_json before production DAG execution'')
          (''run missiond-lispc emit-plan-contract or mission_plan(action='' @ show_debug ''backfill_contracts''
           @ '', apply=true); production execute path does not build a DAG from sexp_text'')), [])
      else case validate_finalize_args args of
        Some err \<Rightarrow> Some (Inr err, [])
      | None \<Rightarrow>
      (case task_contract_ctx_from_args args of
        Inl err \<Rightarrow> Some (Inr err, [])
      | Inr tc \<Rightarrow>
      (case build_validated_dag_from_contract_json (ax_render ax) (pl_contract pl) of
        None \<Rightarrow> None
      | Some (Inl e) \<Rightarrow> Some (Inr (into_tool_result e), [])
      | Some (Inr (p, order)) \<Rightarrow>
          Option.bind (build_planned_claims (nodes p) order (pl_id pl) (parse_claimer_name args)
              (parse_claim_lease_secs args) (parse_enforce_claims args)) (\<lambda>planned.
          if unwrap_or (opt_bool args ''dry_run'') False then
            Some (Inr (JsonPretty (dry_run_payload args pl p order planned tc)), [])
          else live_run ax args pl p order planned))))"

end
