(* ===== verification/Action_Claims.thy ===== *)
theory Action_Claims
  imports Engine_Claims Dag_Action
begin

text \<open>
  The properties of the action as a whole: it always returns, a dry run touches nothing, the distill
  call follows a stored success, and what the workflow record is told.
\<close>

subsection \<open>A plan that was built can be run\<close>

lemma built_plan:
  assumes "build_validated_dag_from_contract_json render c = Some (Inr (p, order))"
  shows "cfg_ok (action_cfg args pl p order)" "\<forall>n \<in> set (nodes p). lists_end n"
proof -
  obtain p0 where r: "parsed_dag_from_contract_json render c = Inr p0"
      "validate_parsed_dag p0 = Some (Inr (p, order))"
    using assms by (auto simp: build_validated_dag_from_contract_json_def split: sum.splits)
  then have "p = p0" using validate_accepts_iff by blast
  with r show "\<forall>n \<in> set (nodes p). lists_end n" using contract_plan_ok contract_lists_end by blast
  show "cfg_ok (action_cfg args pl p order)"
    by (rule validated_cfg_ok[of p0 p]) (simp_all add: r(2) action_cfg_def)
qed

lemma build_returns: "build_validated_dag_from_contract_json render c \<noteq> None"
  by (auto simp: build_validated_dag_from_contract_json_def validate_total split: sum.splits simp del: not_None_eq)

lemma those_total: "\<forall>x \<in> set xs. f x \<noteq> None \<Longrightarrow> those (map f xs) \<noteq> None"
  by (induction xs) auto

lemma planned_claims_total:
  assumes "\<forall>n \<in> set ns. lists_end n"
  shows "build_planned_claims ns order pid who secs enforce \<noteq> None"
proof -
  have "planned_claim pid who secs enforce n \<noteq> None" if "n \<in> set (List.map_filter (by_id_map ns) order)" for n
  proof -
    have "n \<in> set ns" using that using by_id_map_Some by (auto simp: map_filter_def)
    then have "derive_node_claim_scopes n pid \<noteq> None" using assms scopes_end by blast
    then show ?thesis unfolding planned_claim_def by (simp only: option.map_disc_iff not_False_eq_True)
  qed
  then show ?thesis
    unfolding build_planned_claims_def option.map_disc_iff by (intro those_total) blast
qed

lemma live_run_returns:
  assumes "build_validated_dag_from_contract_json render c = Some (Inr (p, order))"
  shows "\<exists>r fx. live_run ax args pl p order planned = Some (r, fx) \<and> (\<forall>e. r = Inl e \<longrightarrow> env_error (ax_run ax) e)"
proof -
  obtain r s where run: "execute_with_concurrency (action_cfg args pl p order) (ax_run ax) = Some (r, s)"
      "\<forall>e. r = Inl e \<longrightarrow> env_error (ax_run ax) e"
    using execute_returns[OF built_plan(1)[OF assms], of args pl "ax_run ax"] built_plan(2)[OF assms]
    by (auto simp: action_cfg_def)
  then show ?thesis
    by (cases r) (auto simp: live_run_def Let_def split: prod.splits)
qed

lemma action_cases:
  assumes "action_execute_dag_v1 ax args pl = Some (r, fx)"
  obtains (Answered) t where "r = Inr t" "fx = []"
  | (Ran) p order planned where
      "build_validated_dag_from_contract_json (ax_render ax) (pl_contract pl) = Some (Inr (p, order))"
      "validate_finalize_args args = None" "\<not> unwrap_or (opt_bool args ''dry_run'') False"
      "live_run ax args pl p order planned = Some (r, fx)"
  using assms unfolding action_execute_dag_v1_def
  by (auto simp: Option.bind_eq_Some_conv split: if_splits option.splits sum.splits prod.splits)

lemma live_run_cases:
  assumes "live_run ax args pl p order planned = Some (r, fx)"
  obtains (Err) e s where "execute_with_concurrency (action_cfg args pl p order) (ax_run ax) = Some (Inl e, s)"
      "r = Inl e" "fx = [FxWorkflowStart (workflow_start_args args pl order (parse_max_parallel_nodes args)), FxRun]"
  | (Ok) out s body fx' where
      "execute_with_concurrency (action_cfg args pl p order) (ax_run ax) = Some (Inr out, s)"
      "r = Inr (JsonPretty (JObject body))"
      "fx = [FxWorkflowStart (workflow_start_args args pl order (parse_max_parallel_nodes args)), FxRun,
         FxCheckpoint (workflow_checkpoint_args args pl order (aggregate_status out) (ax_evidence_path ax))]
         @ snd (update_plan_status ax pl out) @ fx'"
      "fx' = (if parse_finalize_plan args
              then map FxDistill (snd (maybe_run_distill_trigger (ax_workflow ax) (pl_id pl) args (aggregate_status out)
                (case fst (update_plan_status ax pl out) of Inr s \<Rightarrow> Some s | Inl _ \<Rightarrow> None))) @ [FxFinalEvidence]
              else [])"
proof -
  obtain res s where run: "execute_with_concurrency (action_cfg args pl p order) (ax_run ax) = Some (res, s)"
    using assms by (auto simp: live_run_def Let_def split: option.splits)
  show ?thesis
  proof (cases res)
    case (Inl e)
    with assms run show ?thesis by (intro Err) (auto simp: live_run_def Let_def)
  next
    case (Inr out)
    obtain status sfx where u: "update_plan_status ax pl out = (status, sfx)" by force
    obtain distill calls where d: "maybe_run_distill_trigger (ax_workflow ax) (pl_id pl) args (aggregate_status out)
        (case status of Inr s \<Rightarrow> Some s | Inl _ \<Rightarrow> None) = (distill, calls)" by force
    show ?thesis
    proof (cases "parse_finalize_plan args")
      case True
      show ?thesis
        by (rule Ok[OF run[unfolded Inr], of _ "map FxDistill calls @ [FxFinalEvidence]"])
          (use assms run Inr u d True in \<open>auto simp: live_run_def Let_def finalize_def\<close>)
    next
      case False
      show ?thesis
        by (rule Ok[OF run[unfolded Inr], of _ "[]"]) (use assms run Inr u False in \<open>auto simp: live_run_def Let_def\<close>)
    qed
  qed
qed


lemma action_total: "\<exists>r fx. action_execute_dag_v1 ax args pl = Some (r, fx)"
proof -
  obtain b where b: "build_validated_dag_from_contract_json (ax_render ax) (pl_contract pl) = Some b"
    using build_returns by blast
  show ?thesis
  proof (cases b)
    case (Inl e)
    with b show ?thesis by (simp add: action_execute_dag_v1_def split: option.split sum.split)
  next
    case (Inr po)
    obtain p order where po: "po = (p, order)" by force
    note built = b[unfolded Inr po]
    obtain planned where pc: "build_planned_claims (nodes p) order (pl_id pl) (parse_claimer_name args)
        (parse_claim_lease_secs args) (parse_enforce_claims args) = Some planned"
      using planned_claims_total[OF built_plan(2)[OF built]] by blast
    show ?thesis
      using live_run_returns[OF built, of ax args pl planned]
      by (auto simp add: action_execute_dag_v1_def built pc split: option.split sum.split)
  qed
qed

subsection \<open>The properties\<close>

text \<open>C15: the action always returns, whatever the call, the plan and the world; it ends with an error
  only if the lease kernel failed or a dispatched task was lost.\<close>

theorem action_returns:
  "\<exists>r fx. action_execute_dag_v1 ax args pl = Some (r, fx) \<and> (\<forall>e. r = Inl e \<longrightarrow> env_error (ax_run ax) e)"
proof -
  obtain r fx where a: "action_execute_dag_v1 ax args pl = Some (r, fx)" using action_total by blast
  then have "\<forall>e. r = Inl e \<longrightarrow> env_error (ax_run ax) e"
  proof (cases rule: action_cases)
    case (Ran p order planned)
    then show ?thesis using live_run_returns[OF Ran(1), of ax args pl planned] by simp
  qed simp
  with a show ?thesis by blast
qed

text \<open>a dry run, like every rejected call, calls no store, starts no task and has no effect at
  all.\<close>

theorem dry_run_has_no_effects:
  assumes "action_execute_dag_v1 ax args pl = Some (r, fx)" "opt_bool args ''dry_run'' = Some True"
  shows "fx = [] \<and> (\<exists>t. r = Inr t)"
  using assms by (cases rule: action_cases) auto

definition demo_contract :: json where
  "demo_contract = JObject
     [(''schema_version'', JString ''missiond.plan-contract.v2''),
      (''payload'', JObject [(''nodes'', JArray [JObject
         [(''id'', JString ''a''), (''target'', JString ''mission_flow_run'')]])])]"

definition demo_plan :: dag_plan where
  "demo_plan = \<lparr> pl_id = ''p1'', pl_version = 1, pl_board_task_id = ''t'', pl_status = PlanApproved,
     pl_contract = demo_contract \<rparr>"

definition demo_world :: action_env where
  "demo_world = \<lparr> ax_run = sample_env, ax_start = Inr, ax_checkpoint = Inr, ax_update = \<lambda>_ _. Inr (),
     ax_workflow = \<lambda>j. Inr (j, False), ax_evidence_path = None, ax_evidence_error = None,
     ax_bus_warnings = [], ax_final_evidence = (None, None), ax_render = \<lambda>_. [] \<rparr>"

lemma demo_built:
  "case build_validated_dag_from_contract_json (\<lambda>_. []) demo_contract of
     Some (Inr (p, order)) \<Rightarrow> nodes p \<noteq> [] \<and> list_all plain_node (nodes p) | _ \<Rightarrow> False"
  by code_simp

lemma demo_run:
  obtains p order out s where
    "build_validated_dag_from_contract_json (ax_render demo_world) (pl_contract demo_plan) = Some (Inr (p, order))"
    "execute_with_concurrency (action_cfg args demo_plan p order) (ax_run demo_world) = Some (Inr out, s)"
    "all_succeeded out" "\<not> eo_aborted_fail_fast out"
proof -
  obtain p order where b: "build_validated_dag_from_contract_json (\<lambda>_. []) demo_contract = Some (Inr (p, order))"
    and n: "nodes p \<noteq> []" "\<forall>n \<in> set (nodes p). plain_node n"
    using demo_built by (auto simp: list_all_iff split: option.splits sum.splits)
  let ?cfg = "action_cfg args demo_plan p order"
  have c: "cfg_ok ?cfg" "\<forall>n \<in> set (cf_nodes ?cfg). plain_node n \<and> lists_end n"
    using built_plan[OF b] n(2) by (simp_all add: action_cfg_def)
  obtain out s where run: "execute_with_concurrency ?cfg sample_env = Some (Inr out, s)"
      "\<not> eo_aborted_fail_fast out" "map nr_id (eo_results out) = cf_order ?cfg"
      "\<forall>r \<in> set (eo_results out). nr_state r = Succeeded"
    using happy_run[OF c(1) sample_world c(2)] by blast
  have "cf_order ?cfg \<noteq> []" using cfg_okD(3)[OF c(1)] n(1) by (auto simp: action_cfg_def ids_of_def)
  then have "all_succeeded out" using run(3,4) by (auto simp: all_succeeded_def list_all_iff)
  with b run show ?thesis by (intro that[of p order out s]) (simp_all add: demo_world_def demo_plan_def)
qed

lemma demo_action:
  assumes "opt_bool args ''dry_run'' = None" "validate_finalize_args args = None"
    "task_contract_ctx_from_args args = Inr tc"
  obtains r fx p order out s planned where "action_execute_dag_v1 demo_world args demo_plan = Some (r, fx)"
    "live_run demo_world args demo_plan p order planned = Some (r, fx)"
    "execute_with_concurrency (action_cfg args demo_plan p order) (ax_run demo_world) = Some (Inr out, s)"
    "all_succeeded out" "\<not> eo_aborted_fail_fast out"
proof -
  obtain p order out s where d:
    "build_validated_dag_from_contract_json (ax_render demo_world) (pl_contract demo_plan) = Some (Inr (p, order))"
    "execute_with_concurrency (action_cfg args demo_plan p order) (ax_run demo_world) = Some (Inr out, s)"
    "all_succeeded out" "\<not> eo_aborted_fail_fast out" by (rule demo_run)
  obtain planned where pc: "build_planned_claims (nodes p) order (pl_id demo_plan) (parse_claimer_name args)
      (parse_claim_lease_secs args) (parse_enforce_claims args) = Some planned"
    using planned_claims_total[OF built_plan(2)[OF d(1)]] by blast
  obtain r fx where l: "live_run demo_world args demo_plan p order planned = Some (r, fx)"
    using live_run_returns[OF d(1)] by blast
  have np: "\<not> plan_contract_json_requires_projection (pl_contract demo_plan)"
    by (simp add: demo_plan_def demo_contract_def plan_contract_json_requires_projection_def opt_str_def)
  have "action_execute_dag_v1 demo_world args demo_plan = Some (r, fx)"
    by (simp add: action_execute_dag_v1_def np assms d(1) pc l)
  with l d show ?thesis using that by blast
qed

lemma action_returns_witness:
  "\<exists>t fx. action_execute_dag_v1 demo_world (JObject []) demo_plan = Some (Inr t, fx)"
proof -
  have "\<not> env_error (ax_run demo_world) e" for e by (simp add: env_error_def demo_world_def sample_env_def)
  then show ?thesis using action_returns[of demo_world "JObject []" demo_plan] by (metis sum.exhaust)
qed

lemma dry_run_has_no_effects_witness:
  "\<exists>t. action_execute_dag_v1 demo_world (JObject [(''dry_run'', JBool True)]) demo_plan = Some (Inr t, [])"
proof -
  obtain r fx where a: "action_execute_dag_v1 demo_world (JObject [(''dry_run'', JBool True)]) demo_plan = Some (r, fx)"
    using action_total by blast
  have "opt_bool (JObject [(''dry_run'', JBool True)]) ''dry_run'' = Some True" by (simp add: opt_bool_def)
  from dry_run_has_no_effects[OF a this] a show ?thesis by blast
qed

lemma distill_args_parsed:
  fixes args :: json
  assumes "args = JObject [(''finalize_plan'', JBool True), (''distill_on_success'', JBool True)]"
  shows "opt_bool args ''dry_run'' = None" "validate_finalize_args args = None"
    "case task_contract_ctx_from_args args of Inr _ \<Rightarrow> True | Inl _ \<Rightarrow> False" "parse_finalize_plan args"
    "parse_distill_on_success args"
  unfolding assms by code_simp+

definition demo_distill :: json where
  "demo_distill = JObject [(''finalize_plan'', JBool True), (''distill_on_success'', JBool True)]"

lemma demo_distilled:
  obtains r us call vs where "action_execute_dag_v1 demo_world demo_distill demo_plan = Some (r, us @ FxDistill call # vs)"
    "\<exists>cp. FxCheckpoint cp \<in> set us"
proof -
  note d = distill_args_parsed[OF demo_distill_def]
  obtain tc where "task_contract_ctx_from_args demo_distill = Inr tc" using d(3) by (auto split: sum.splits)
  with d(1,2) obtain r fx p order out s planned where
    a: "action_execute_dag_v1 demo_world demo_distill demo_plan = Some (r, fx)"
    and l: "live_run demo_world demo_distill demo_plan p order planned = Some (r, fx)"
    and run: "execute_with_concurrency (action_cfg demo_distill demo_plan p order) (ax_run demo_world) = Some (Inr out, s)"
    and ok: "all_succeeded out" "\<not> eo_aborted_fail_fast out" by (rule demo_action)
  have agg: "aggregate_status out = ''dag_succeeded''" using ok by (simp add: aggregate_status_def)
  have u: "update_plan_status demo_world demo_plan out = (Inr ''succeeded'', [FxPlanStatus ''p1'' PlanSucceeded])"
    using ok by (simp add: update_plan_status_def target_plan_status_def demo_world_def demo_plan_def)
  from l show ?thesis
  proof (cases rule: live_run_cases)
    case (Err e s) then show ?thesis using run by simp
  next
    case (Ok out' s' body fx')
    have [simp]: "out' = out" using run Ok(1) by simp
    have "snd (maybe_run_distill_trigger (ax_workflow demo_world) (pl_id demo_plan) demo_distill
        (aggregate_status out) (Some ''succeeded'')) \<noteq> []"
      unfolding distill_called using d(5) validated_distill(1)[OF d(2)] agg by simp
    then obtain call calls where "fx' = FxDistill call # map FxDistill calls @ [FxFinalEvidence]"
      using Ok(4) d(4) u by (auto simp: neq_Nil_conv)
    with Ok(3) u a that[of r _ call "map FxDistill calls @ [FxFinalEvidence]"] show ?thesis
      by (auto simp: append_eq_Cons_conv)
  qed
qed

text \<open>C32: the distill tool is called only if the caller asked for it and for the finalization, every
  node of the run succeeded, and the status \<open>succeeded\<close> of the plan was stored before the call.\<close>

theorem distill_only_after_success:
  assumes "action_execute_dag_v1 ax args pl = Some (r, fx)" "fx = us @ FxDistill call # vs"
  shows "parse_finalize_plan args \<and> parse_distill_on_success args \<and>
    FxPlanStatus (pl_id pl) PlanSucceeded \<in> set us \<and> ax_update ax (pl_id pl) PlanSucceeded = Inr () \<and>
    (\<exists>p order out s. build_validated_dag_from_contract_json (ax_render ax) (pl_contract pl) = Some (Inr (p, order)) \<and>
      execute_with_concurrency (action_cfg args pl p order) (ax_run ax) = Some (Inr out, s) \<and> all_succeeded out)"
  using assms(1)
proof (cases rule: action_cases)
  case (Ran p order planned)
  from Ran(4) show ?thesis
  proof (cases rule: live_run_cases)
    case (Err e s)
    then show ?thesis using assms(2) by (auto simp: append_eq_Cons_conv)
  next
    case (Ok out s body fx')
    let ?after = "case fst (update_plan_status ax pl out) of Inr s \<Rightarrow> Some s | Inl _ \<Rightarrow> None"
    have nd: "FxDistill call \<notin> set (snd (update_plan_status ax pl out))"
      by (simp add: update_plan_status_def split: option.split)
    have "FxDistill call \<in> set fx" using assms(2) by simp
    then have "FxDistill call \<in> set fx'" using nd unfolding Ok(3) by simp
    then have f: "parse_finalize_plan args" and
      c: "snd (maybe_run_distill_trigger (ax_workflow ax) (pl_id pl) args (aggregate_status out) ?after) \<noteq> []"
      using Ok(4) by (auto split: if_splits)
    from c[unfolded distill_called] have d: "parse_distill_on_success args" "aggregate_status out = ''dag_succeeded''"
      "?after = Some ''succeeded''" by auto
    then have all: "all_succeeded out" by (simp add: aggregate_succeeded)
    then have tgt: "target_plan_status out = Some PlanSucceeded" by (simp add: target_plan_status_def)
    then have u: "update_plan_status ax pl out = (Inr ''succeeded'', [FxPlanStatus (pl_id pl) PlanSucceeded])"
      "ax_update ax (pl_id pl) PlanSucceeded = Inr ()"
      using d(3) by (auto simp: update_plan_status_def split: sum.splits)
    have "FxPlanStatus (pl_id pl) PlanSucceeded \<in> set us"
      using Ok(3) assms(2) u(1) by (auto simp: append_eq_Cons_conv Cons_eq_append_conv)
    then show ?thesis using f d(1) u(2) Ran(1) Ok(1) all by blast
  qed
qed (use assms(2) in simp)

lemma distill_only_after_success_witness:
  "\<exists>r us call vs. action_execute_dag_v1 demo_world demo_distill demo_plan = Some (r, us @ FxDistill call # vs) \<and>
     FxPlanStatus (pl_id demo_plan) PlanSucceeded \<in> set us"
proof -
  obtain r us call vs where a: "action_execute_dag_v1 demo_world demo_distill demo_plan = Some (r, us @ FxDistill call # vs)"
    by (rule demo_distilled)
  show ?thesis using a distill_only_after_success[OF a refl] by blast
qed

text \<open>the checkpoint of the workflow record never leaves \<open>running\<close>: the action translates the bare
  words \<open>succeeded\<close>, \<open>failed\<close> and \<open>paused\<close>, but the aggregate status of a run is one of the
  \<open>dag_\<close> words, whatever happened to the nodes.\<close>

theorem workflow_checkpoint_never_final:
  assumes "action_execute_dag_v1 ax args pl = Some (r, fx)" "FxCheckpoint cp \<in> set fx"
  shows "j_get cp ''status'' = Some (JString ''running'')"
  using assms(1)
proof (cases rule: action_cases)
  case (Ran p order planned)
  from Ran(4) show ?thesis
  proof (cases rule: live_run_cases)
    case (Err e s)
    then show ?thesis using assms(2) by simp
  next
    case (Ok out s body fx')
    have "FxCheckpoint cp \<notin> set (snd (update_plan_status ax pl out))" "FxCheckpoint cp \<notin> set fx'"
      unfolding Ok(4) by (auto simp: update_plan_status_def split: option.split)
    then have cp: "cp = workflow_checkpoint_args args pl order (aggregate_status out) (ax_evidence_path ax)"
      using assms(2) unfolding Ok(3) by auto
    have "workflow_final_status (aggregate_status out) = ''running''"
      by (simp add: aggregate_status_def workflow_final_status_def)
    with cp show ?thesis by (simp add: workflow_checkpoint_args_def)
  qed
qed (use assms(2) in simp)

lemma workflow_checkpoint_never_final_witness:
  "\<exists>r fx cp. action_execute_dag_v1 demo_world demo_distill demo_plan = Some (r, fx) \<and>
     FxCheckpoint cp \<in> set fx \<and> j_get cp ''status'' = Some (JString ''running'')"
proof -
  obtain r us call vs cp where a: "action_execute_dag_v1 demo_world demo_distill demo_plan = Some (r, us @ FxDistill call # vs)"
    and c: "FxCheckpoint cp \<in> set us"
    by (rule demo_distilled) blast
  from c have m: "FxCheckpoint cp \<in> set (us @ FxDistill call # vs)" by simp
  show ?thesis by (intro exI conjI) (rule a, rule m, rule workflow_checkpoint_never_final[OF a m])
qed

end
