(* ===== verification/Event_Types.thy ===== *)
theory Event_Types
  imports Json
begin

text \<open>
  The vocabulary of the event bus (\<open>crates/missiond-core/src/event\<close>): domains and their pause
  buckets, append options, acknowledgements and errors, the causation guard, the hex form of a
  checksum, the handle of a stored payload, logged rows and the bounded query over them, and the
  backoff schedules. A sequence number is an \<open>i64\<close>: an \<open>int\<close> whose additions wrap.
\<close>

type_synonym byte = "8 word"
type_synonym uuid = "128 word"
type_synonym seq = int

definition wrap_i64 :: "int \<Rightarrow> int" where
  "wrap_i64 x = (x + 9223372036854775808) mod 18446744073709551616 - 9223372036854775808"

lemma wrap_i64_id: "i64_min \<le> x \<Longrightarrow> x \<le> i64_max \<Longrightarrow> wrap_i64 x = x"
  by (simp add: wrap_i64_def i64_min_def i64_max_def)

subsection \<open>Domains (\<open>domain.rs\<close>, \<open>step6_gate/mod.rs\<close>)\<close>

datatype domain =
    Slot | Board | Task | Question | Llm | Worker | Memory | Message | Session | System
  | Observability | Incident | Execution

fun domain_str :: "domain \<Rightarrow> string" where
  "domain_str Slot = ''slot''"
| "domain_str Board = ''board''"
| "domain_str Task = ''task''"
| "domain_str Question = ''question''"
| "domain_str Llm = ''llm''"
| "domain_str Worker = ''worker''"
| "domain_str Memory = ''memory''"
| "domain_str Message = ''message''"
| "domain_str Session = ''session''"
| "domain_str System = ''system''"
| "domain_str Observability = ''observability''"
| "domain_str Incident = ''incident''"
| "domain_str Execution = ''execution''"

definition all_domains :: "domain list" where
  "all_domains = [Slot, Board, Task, Question, Llm, Worker, Memory, Message, Session, System,
     Observability, Incident, Execution]"

definition domain_from_str :: "string \<Rightarrow> domain option" where
  "domain_from_str s =
     (if s = ''slot'' then Some Slot
      else if s = ''board'' then Some Board
      else if s = ''task'' then Some Task
      else if s = ''question'' then Some Question
      else if s = ''llm'' then Some Llm
      else if s = ''worker'' then Some Worker
      else if s = ''memory'' then Some Memory
      else if s = ''message'' then Some Message
      else if s = ''session'' then Some Session
      else if s = ''system'' then Some System
      else if s = ''observability'' then Some Observability
      else if s = ''incident'' then Some Incident
      else if s = ''execution'' then Some Execution
      else None)"

lemma domain_from_str_str [simp]: "domain_from_str (domain_str d) = Some d"
  by (cases d) (simp_all add: domain_from_str_def)

lemma if_Some: "(if b then Some x else r) = Some y \<longleftrightarrow> (b \<and> x = y) \<or> (\<not> b \<and> r = Some y)"
  by simp

lemma domain_from_str_Some: "domain_from_str s = Some d \<Longrightarrow> s = domain_str d"
  unfolding domain_from_str_def if_Some by (elim disjE conjE) simp_all

lemma set_all_domains [simp]: "set all_domains = UNIV" "distinct all_domains"
proof -
  have "d \<in> set all_domains" for d by (cases d) (simp_all add: all_domains_def)
  then show "set all_domains = UNIV" by auto
  show "distinct all_domains" by (simp add: all_domains_def)
qed

datatype ctl_domain = CtlMemory | CtlFlow | CtlBoard | CtlStrategy

fun domain_to_ctl_domain :: "domain \<Rightarrow> ctl_domain option" where
  "domain_to_ctl_domain Memory = Some CtlMemory"
| "domain_to_ctl_domain Board = Some CtlBoard"
| "domain_to_ctl_domain _ = None"

definition is_domain_paused :: "(ctl_domain \<Rightarrow> bool) \<Rightarrow> domain \<Rightarrow> bool" where
  "is_domain_paused gate d = (case domain_to_ctl_domain d of Some c \<Rightarrow> gate c | None \<Rightarrow> False)"

definition never_paused :: "ctl_domain \<Rightarrow> bool" where
  "never_paused c = False"

lemma never_paused_domain [simp]: "\<not> is_domain_paused never_paused d"
  by (simp add: is_domain_paused_def never_paused_def split: option.split)

subsection \<open>Appending (\<open>log/mod.rs\<close>, \<open>step1_guard/causation.rs\<close>, \<open>persistence_policy.rs\<close>)\<close>

record span_context =
  sp_trace :: "uuid option"
  sp_span :: "uuid option"
  sp_parent :: "uuid option"

record append_opts =
  ao_ephemeral :: bool
  ao_dedupe :: "uuid option"
  ao_producer :: string
  ao_depth :: byte
  ao_span :: "span_context option"

definition span_or_default :: "span_context option \<Rightarrow> span_context" where
  "span_or_default s = (case s of Some c \<Rightarrow> c | None \<Rightarrow> \<lparr> sp_trace = None, sp_span = None, sp_parent = None \<rparr>)"

datatype append_ack =
    Committed seq bool
  | Volatile seq
  | AlreadyExists seq

fun ack_seq :: "append_ack \<Rightarrow> seq" where
  "ack_seq (Committed s _) = s"
| "ack_seq (Volatile s) = s"
| "ack_seq (AlreadyExists s) = s"

datatype append_error =
    Backpressure
  | CausalLoop byte
  | LogUnavailable string
  | SerializeError string
  | AppendOther string

definition MAX_CAUSATION_DEPTH :: byte where
  "MAX_CAUSATION_DEPTH = 10"

definition check_causation :: "append_opts \<Rightarrow> append_error + unit" where
  "check_causation opts = fail_if (MAX_CAUSATION_DEPTH < ao_depth opts) (CausalLoop (ao_depth opts))"

datatype persistence_policy = Ephemeral | Durable

definition policy_from_opts :: "append_opts \<Rightarrow> persistence_policy" where
  "policy_from_opts opts = (if ao_ephemeral opts then Ephemeral else Durable)"

fun policy_is_ephemeral :: "persistence_policy \<Rightarrow> bool" where
  "policy_is_ephemeral Ephemeral = True"
| "policy_is_ephemeral Durable = False"

subsection \<open>Checksums in hex (\<open>step2_decide/claim_check.rs\<close>)\<close>

definition CLAIM_CHECK_THRESHOLD :: nat where
  "CLAIM_CHECK_THRESHOLD = 8192"

definition nibble_char :: "nat \<Rightarrow> char" where
  "nibble_char n = (if n < 10 then char_of (48 + n) else char_of (87 + n))"

definition hex_byte :: "byte \<Rightarrow> string" where
  "hex_byte b = [nibble_char (unat b div 16), nibble_char (unat b mod 16)]"

definition hex_encode_checksum :: "byte list \<Rightarrow> string" where
  "hex_encode_checksum bs = concat (map hex_byte bs)"

definition char_to_nibble :: "char \<Rightarrow> byte option" where
  "char_to_nibble c =
     (let n = of_char c :: nat in
      if 48 \<le> n \<and> n \<le> 57 then Some (of_nat (n - 48))
      else if 97 \<le> n \<and> n \<le> 102 then Some (of_nat (n - 97 + 10))
      else if 65 \<le> n \<and> n \<le> 70 then Some (of_nat (n - 65 + 10))
      else None)"

fun hex_pairs :: "string \<Rightarrow> byte list option" where
  "hex_pairs (a # b # s) =
     (case char_to_nibble a of None \<Rightarrow> None
      | Some hi \<Rightarrow>
     (case char_to_nibble b of None \<Rightarrow> None
      | Some lo \<Rightarrow>
     (case hex_pairs s of None \<Rightarrow> None
      | Some bs \<Rightarrow> Some (or (push_bit 4 hi) lo # bs))))"
| "hex_pairs [] = Some []"
| "hex_pairs [_] = None"

definition hex_decode_checksum :: "string \<Rightarrow> byte list option" where
  "hex_decode_checksum s = (if length s \<noteq> 64 then None else hex_pairs s)"

lemma nibble_char_code: "n < 16 \<Longrightarrow> (of_char (nibble_char n) :: nat) = (if n < 10 then 48 + n else 87 + n)"
  by (simp add: nibble_char_def)

lemma char_to_nibble_char: "n < 16 \<Longrightarrow> char_to_nibble (nibble_char n) = Some (of_nat n)"
  by (auto simp: char_to_nibble_def nibble_char_code Let_def)

lemma nibbles_byte: "or (push_bit 4 (of_nat (unat b div 16))) (of_nat (unat b mod 16)) = (b :: byte)"
proof -
  have "of_nat (unat b div 16) = drop_bit 4 b" "of_nat (unat b mod 16) = take_bit 4 b"
    by (simp_all add: drop_bit_eq_div take_bit_eq_mod word_arith_nat_div word_arith_nat_mod)
  moreover have "or (push_bit 4 (drop_bit 4 b)) (take_bit 4 b) = b"
    by (rule bit_word_eqI) (auto simp: bit_simps)
  ultimately show ?thesis by simp
qed

lemma length_hex: "length (hex_encode_checksum bs) = 2 * length bs"
  by (induction bs) (auto simp: hex_encode_checksum_def hex_byte_def)

lemma hex_pairs_encode: "hex_pairs (hex_encode_checksum bs) = Some bs"
proof (induction bs)
  case Nil show ?case by (simp add: hex_encode_checksum_def)
next
  case (Cons b bs)
  have "unat b div 16 < 16" using unsigned_less[of b, where ?'a = nat] by simp
  with Cons show ?case
    by (simp add: hex_encode_checksum_def hex_byte_def char_to_nibble_char nibbles_byte)
qed

end
