(* ===== verification/Event_Blob.thy ===== *)
theory Event_Blob
  imports Event_Types
begin

text \<open>
  Large payloads: the handle of a stored blob, the three blob stores (\<open>blob_store/pg_backend.rs\<close>,
  \<open>blob_store/local_file_backend.rs\<close>, \<open>in_memory/blob_store.rs\<close>), the contract they share as the
  locale \<open>blob_store\<close>, and the claim check that places a payload inline or in a store. SHA-256, the
  textual form of a UUID and \<open>serde_json\<close> belong to other crates: they are the fields of \<open>bus_env\<close>.
\<close>

subsection \<open>What other crates provide\<close>

record 'p bus_env =
  be_sha :: "byte list \<Rightarrow> byte list"
  be_uuid_str :: "uuid \<Rightarrow> string"
  be_uuid_simple :: "uuid \<Rightarrow> string"
  be_uuid_parse :: "string \<Rightarrow> string + uuid"
  be_to_vec :: "'p \<Rightarrow> string + byte list"
  be_from_slice :: "byte list \<Rightarrow> string + 'p"
  be_null :: 'p

text \<open>Documented behaviour of the \<open>uuid\<close> crate: \<open>parse_str\<close> reads what \<open>Display\<close> writes.\<close>

definition uuid_ok :: "'p bus_env \<Rightarrow> bool" where
  "uuid_ok env \<longleftrightarrow> (\<forall>u. be_uuid_parse env (be_uuid_str env u) = Inr u)"

text \<open>Documented behaviour of \<open>serde_json\<close>: \<open>from_slice\<close> reads what \<open>to_vec\<close> writes.\<close>

definition serde_ok :: "'p bus_env \<Rightarrow> bool" where
  "serde_ok env \<longleftrightarrow> (\<forall>p bs. be_to_vec env p = Inr bs \<longrightarrow> be_from_slice env bs = Inr p)"

subsection \<open>Handles\<close>

datatype blob_backend = PgTable | LocalFile

record payload_ref =
  pr_backend :: blob_backend
  pr_uri :: string
  pr_size :: u64
  pr_checksum :: "byte list"

record payload_ref_wire =
  wr_backend :: blob_backend
  wr_uri :: string
  wr_size :: u64
  wr_checksum :: string

definition payload_ref_to_wire :: "payload_ref \<Rightarrow> payload_ref_wire" where
  "payload_ref_to_wire r =
     \<lparr> wr_backend = pr_backend r, wr_uri = pr_uri r, wr_size = pr_size r,
       wr_checksum = hex_encode_checksum (pr_checksum r) \<rparr>"

definition payload_ref_from_wire :: "payload_ref_wire \<Rightarrow> string + payload_ref" where
  "payload_ref_from_wire w =
     (case hex_decode_checksum (wr_checksum w) of
        None \<Rightarrow> Inl ''invalid hex checksum''
      | Some c \<Rightarrow> Inr \<lparr> pr_backend = wr_backend w, pr_uri = wr_uri w, pr_size = wr_size w, pr_checksum = c \<rparr>)"

lemma ref_wire_back: "length (pr_checksum r) = 32 \<Longrightarrow> payload_ref_from_wire (payload_ref_to_wire r) = Inr r"
  by (simp add: payload_ref_from_wire_def payload_ref_to_wire_def hex_decode_checksum_def length_hex hex_pairs_encode)

subsection \<open>Errors\<close>

datatype blob_error =
    BlobNotFound string
  | ChecksumMismatch string string
  | BlobIo string
  | BlobDb string
  | BlobOther string

fun blob_error_text :: "blob_error \<Rightarrow> string" where
  "blob_error_text (BlobNotFound uri) = ''blob not found: uri='' @ uri"
| "blob_error_text (ChecksumMismatch x y) = ''checksum mismatch: expected='' @ x @ '', actual='' @ y"
| "blob_error_text (BlobIo e) = ''io: '' @ e"
| "blob_error_text (BlobDb e) = ''db: '' @ e"
| "blob_error_text (BlobOther e) = e"

definition mismatch :: "byte list \<Rightarrow> byte list \<Rightarrow> blob_error" where
  "mismatch expected actual = ChecksumMismatch (hex_encode_checksum expected) (hex_encode_checksum actual)"

definition strip_prefix :: "string \<Rightarrow> string \<Rightarrow> string option" where
  "strip_prefix p s = (if take (length p) s = p then Some (drop (length p) s) else None)"

lemma strip_prefix_append [simp]: "strip_prefix p (p @ s) = Some s"
  by (simp add: strip_prefix_def)

fun backend_debug :: "blob_backend \<Rightarrow> string" where
  "backend_debug PgTable = ''PgTable''"
| "backend_debug LocalFile = ''LocalFile''"

subsection \<open>The in-memory store\<close>

type_synonym mem_store = "string \<rightharpoonup> byte list"

definition mem_uri :: "'p bus_env \<Rightarrow> uuid \<Rightarrow> string" where
  "mem_uri env uid = ''mem:'' @ be_uuid_str env uid"

definition mem_put ::
  "'p bus_env \<Rightarrow> mem_store \<Rightarrow> uuid \<Rightarrow> byte list \<Rightarrow> (blob_error + payload_ref) \<times> mem_store" where
  "mem_put env s uid bs =
     (Inr \<lparr> pr_backend = LocalFile, pr_uri = mem_uri env uid, pr_size = of_nat (length bs),
            pr_checksum = be_sha env bs \<rparr>, s(mem_uri env uid \<mapsto> bs))"

definition mem_get :: "'p bus_env \<Rightarrow> mem_store \<Rightarrow> payload_ref \<Rightarrow> blob_error + byte list" where
  "mem_get env s r =
     (case s (pr_uri r) of
        None \<Rightarrow> Inl (BlobNotFound (pr_uri r))
      | Some bs \<Rightarrow>
          if be_sha env bs \<noteq> pr_checksum r then Inl (mismatch (pr_checksum r) (be_sha env bs)) else Inr bs)"

definition mem_delete :: "mem_store \<Rightarrow> payload_ref \<Rightarrow> (blob_error + unit) \<times> mem_store" where
  "mem_delete s r = (Inr (), s(pr_uri r := None))"

subsection \<open>The PostgreSQL store\<close>

text \<open>The table \<open>blob_storage\<close> maps an id to the data and its checksum in hex. The database chooses the
  id, and its primary key (\<open>20260419000002_blob_storage.sql\<close>) refuses one that is in use; a call fails as a
  whole when the database does (\<open>db = Some e\<close>).\<close>

type_synonym pg_blobs = "uuid \<rightharpoonup> byte list \<times> string"

definition pg_blob_parse_uri :: "'p bus_env \<Rightarrow> string \<Rightarrow> blob_error + uuid" where
  "pg_blob_parse_uri env uri =
     (case strip_prefix ''pg:'' uri of
        None \<Rightarrow> Inl (BlobOther (''invalid pg uri: '' @ uri))
      | Some raw \<Rightarrow>
          (case be_uuid_parse env raw of
             Inl e \<Rightarrow> Inl (BlobOther (''invalid uuid in uri '' @ uri @ '': '' @ e))
           | Inr u \<Rightarrow> Inr u))"

definition blob_key_error :: string where
  "blob_key_error = ''error returned from database: duplicate key value violates unique constraint blob_storage_pkey''"

definition pg_blob_put ::
  "'p bus_env \<Rightarrow> string option \<Rightarrow> pg_blobs \<Rightarrow> uuid \<Rightarrow> byte list \<Rightarrow> (blob_error + payload_ref) \<times> pg_blobs" where
  "pg_blob_put env db s uid bs =
     (let checksum = be_sha env bs in
      if 2147483647 < length bs then (Inl (BlobOther (''blob too large: '' @ show_nat (length bs))), s)
      else case db of
        Some e \<Rightarrow> (Inl (BlobDb e), s)
      | None \<Rightarrow>
          if s uid \<noteq> None then (Inl (BlobDb blob_key_error), s)
          else (Inr \<lparr> pr_backend = PgTable, pr_uri = ''pg:'' @ be_uuid_str env uid, pr_size = of_nat (length bs),
                 pr_checksum = checksum \<rparr>, s(uid \<mapsto> (bs, hex_encode_checksum checksum))))"

definition pg_blob_get :: "'p bus_env \<Rightarrow> string option \<Rightarrow> pg_blobs \<Rightarrow> payload_ref \<Rightarrow> blob_error + byte list" where
  "pg_blob_get env db s r =
     (if pr_backend r \<noteq> PgTable then
        Inl (BlobOther (''PgBlobStore cannot fetch '' @ backend_debug (pr_backend r) @ '' blobs''))
      else bind_res (pg_blob_parse_uri env (pr_uri r)) (\<lambda>uid.
        case db of Some e \<Rightarrow> Inl (BlobDb e) | None \<Rightarrow>
        (case s uid of
           None \<Rightarrow> Inl (BlobNotFound (pr_uri r))
         | Some (bs, stored_hex) \<Rightarrow>
             let actual = hex_encode_checksum (be_sha env bs); expected = hex_encode_checksum (pr_checksum r) in
             if stored_hex \<noteq> expected \<or> actual \<noteq> expected then Inl (ChecksumMismatch expected actual)
             else Inr bs)))"

definition pg_blob_delete ::
  "'p bus_env \<Rightarrow> string option \<Rightarrow> pg_blobs \<Rightarrow> payload_ref \<Rightarrow> (blob_error + unit) \<times> pg_blobs" where
  "pg_blob_delete env db s r =
     (if pr_backend r \<noteq> PgTable then
        (Inl (BlobOther (''PgBlobStore cannot delete '' @ backend_debug (pr_backend r) @ '' blobs'')), s)
      else case pg_blob_parse_uri env (pr_uri r) of
        Inl e \<Rightarrow> (Inl e, s)
      | Inr uid \<Rightarrow> (case db of Some e \<Rightarrow> (Inl (BlobDb e), s) | None \<Rightarrow> (Inr (), s(uid := None))))"

subsection \<open>The local file store\<close>

text \<open>The directory as a map from paths to contents. A failing write may leave anything at its own path;
  a failing read or removal changes nothing.\<close>

type_synonym file_store = "string \<rightharpoonup> byte list"

definition path_for :: "'p bus_env \<Rightarrow> string \<Rightarrow> uuid \<Rightarrow> string" where
  "path_for env root uid =
     (let s = be_uuid_simple env uid in root @ ''/'' @ take 2 s @ ''/'' @ s @ ''.bin'')"

definition file_parse_uri :: "string \<Rightarrow> blob_error + string" where
  "file_parse_uri uri =
     (case strip_prefix ''file:'' uri of
        None \<Rightarrow> Inl (BlobOther (''invalid local-file uri: '' @ uri)) | Some p \<Rightarrow> Inr p)"

definition file_put ::
  "'p bus_env \<Rightarrow> string \<Rightarrow> (string \<times> byte list option) option \<Rightarrow> file_store \<Rightarrow> uuid \<Rightarrow> byte list
     \<Rightarrow> (blob_error + payload_ref) \<times> file_store" where
  "file_put env root io s uid bs =
     (let path = path_for env root uid in
      case io of
        Some (e, left) \<Rightarrow> (Inl (BlobIo e), s(path := left))
      | None \<Rightarrow>
          (Inr \<lparr> pr_backend = LocalFile, pr_uri = ''file:'' @ path, pr_size = of_nat (length bs),
                 pr_checksum = be_sha env bs \<rparr>, s(path \<mapsto> bs)))"

definition file_get :: "'p bus_env \<Rightarrow> string option \<Rightarrow> file_store \<Rightarrow> payload_ref \<Rightarrow> blob_error + byte list" where
  "file_get env io s r =
     (if pr_backend r \<noteq> LocalFile then
        Inl (BlobOther (''LocalFileBlobStore cannot fetch '' @ backend_debug (pr_backend r) @ '' blobs''))
      else bind_res (file_parse_uri (pr_uri r)) (\<lambda>path.
        case io of Some e \<Rightarrow> Inl (BlobIo e) | None \<Rightarrow>
        (case s path of
           None \<Rightarrow> Inl (BlobNotFound (pr_uri r))
         | Some bs \<Rightarrow>
             if be_sha env bs \<noteq> pr_checksum r then Inl (mismatch (pr_checksum r) (be_sha env bs)) else Inr bs)))"

definition file_delete ::
  "string option \<Rightarrow> file_store \<Rightarrow> payload_ref \<Rightarrow> (blob_error + unit) \<times> file_store" where
  "file_delete io s r =
     (if pr_backend r \<noteq> LocalFile then
        (Inl (BlobOther (''LocalFileBlobStore cannot delete '' @ backend_debug (pr_backend r) @ '' blobs'')), s)
      else case file_parse_uri (pr_uri r) of
        Inl e \<Rightarrow> (Inl e, s)
      | Inr path \<Rightarrow> (case io of Some e \<Rightarrow> (Inl (BlobIo e), s) | None \<Rightarrow> (Inr (), s(path := None))))"

subsection \<open>Claim check\<close>

text \<open>A payload of at most \<open>CLAIM_CHECK_THRESHOLD\<close> bytes is kept inline, a larger one goes to the store
  and leaves its handle; a reader undoes that.\<close>

definition place_payload ::
  "('s \<Rightarrow> uuid \<Rightarrow> byte list \<Rightarrow> (blob_error + payload_ref) \<times> 's) \<Rightarrow> 's \<Rightarrow> uuid \<Rightarrow> byte list
     \<Rightarrow> (blob_error + byte list option \<times> payload_ref_wire option) \<times> 's" where
  "place_payload put s uid bs =
     (if length bs \<le> CLAIM_CHECK_THRESHOLD then (Inr (Some bs, None), s)
      else case put s uid bs of
        (Inl e, s') \<Rightarrow> (Inl e, s')
      | (Inr r, s') \<Rightarrow> (Inr (None, Some (payload_ref_to_wire r)), s'))"

datatype log_error = LogDb string | LogDecode string | LogOther string

fun log_error_text :: "log_error \<Rightarrow> string" where
  "log_error_text (LogDb e) = ''db: '' @ e"
| "log_error_text (LogDecode e) = ''decode event payload: '' @ e"
| "log_error_text (LogOther e) = e"

definition resolve_payload ::
  "'p bus_env \<Rightarrow> ('s \<Rightarrow> payload_ref \<Rightarrow> blob_error + byte list) \<Rightarrow> 's \<Rightarrow> 'p option \<Rightarrow> payload_ref_wire option
     \<Rightarrow> log_error + 'p" where
  "resolve_payload env get s inline ref =
     (case (inline, ref) of
        (Some v, _) \<Rightarrow> Inr v
      | (None, Some w) \<Rightarrow>
          (case payload_ref_from_wire w of
             Inl e \<Rightarrow> Inl (LogOther (''decode payload_ref: '' @ e))
           | Inr r \<Rightarrow>
               (case get s r of
                  Inl e \<Rightarrow> Inl (LogOther (''fetch blob: '' @ blob_error_text e))
                | Inr bs \<Rightarrow> (case be_from_slice env bs of Inl e \<Rightarrow> Inl (LogDecode e) | Inr v \<Rightarrow> Inr v)))
      | (None, None) \<Rightarrow> Inr (be_null env))"

subsection \<open>The contract of a store\<close>

text \<open>\<open>sha\<close> is the checksum the store verifies, \<open>unused s uid\<close> that the id names no blob yet.\<close>

locale blob_store =
  fixes sha :: "byte list \<Rightarrow> byte list"
    and put :: "'s \<Rightarrow> uuid \<Rightarrow> byte list \<Rightarrow> (blob_error + payload_ref) \<times> 's"
    and get :: "'s \<Rightarrow> payload_ref \<Rightarrow> blob_error + byte list"
    and delete :: "'s \<Rightarrow> payload_ref \<Rightarrow> (blob_error + unit) \<times> 's"
    and unused :: "'s \<Rightarrow> uuid \<Rightarrow> bool"
  assumes put_get: "put s uid bs = (Inr r, s') \<Longrightarrow> get s' r = Inr bs"
    and put_keeps: "unused s uid \<Longrightarrow> put s uid bs = (x, s') \<Longrightarrow> get s q = Inr cs \<Longrightarrow> get s' q = Inr cs"
    and put_checksum: "put s uid bs = (Inr r, s') \<Longrightarrow> pr_checksum r = sha bs"
    and get_checked: "get s r = Inr bs \<Longrightarrow> sha bs = pr_checksum r"
    and delete_get: "delete s r = (Inr (), s') \<Longrightarrow> get s' r \<noteq> Inr bs"
    and delete_again: "delete s r = (Inr (), s') \<Longrightarrow> delete s' r = (Inr (), s')"
begin

lemma place_resolve:
  assumes "place_payload put s uid bs = (Inr (inline, ref), s')" "be_from_slice env bs = Inr v"
    "length (sha bs) = 32"
  shows "resolve_payload env get s' (map_option (\<lambda>_. v) inline) ref = Inr v"
proof (cases "length bs \<le> CLAIM_CHECK_THRESHOLD")
  case True
  with assms(1) show ?thesis by (auto simp: place_payload_def resolve_payload_def)
next
  case False
  then obtain r where r: "put s uid bs = (Inr r, s')" "inline = None" "ref = Some (payload_ref_to_wire r)"
    using assms(1) by (auto simp: place_payload_def split: prod.splits sum.splits)
  then show ?thesis
    using put_get[OF r(1)] put_checksum[OF r(1)] assms(2,3)
    by (simp add: resolve_payload_def ref_wire_back)
qed

lemma place_keeps:
  assumes "unused s uid" "place_payload put s uid bs = (x, s')" "get s q = Inr cs"
  shows "get s' q = Inr cs"
proof (cases "length bs \<le> CLAIM_CHECK_THRESHOLD")
  case True
  with assms show ?thesis by (auto simp: place_payload_def)
next
  case False
  obtain y s1 where p: "put s uid bs = (y, s1)" by force
  then have "s' = s1" using assms(2) False by (auto simp: place_payload_def split: sum.splits)
  then show ?thesis using put_keeps[OF assms(1) p assms(3)] by simp
qed

lemma get_same_checksum: "get s r = Inr bs \<Longrightarrow> get s' r = Inr cs \<Longrightarrow> sha bs = sha cs"
  using get_checked by metis

end

lemma hex_inj: "hex_encode_checksum x = hex_encode_checksum y \<longleftrightarrow> x = y"
  by (metis hex_pairs_encode option.inject)

interpretation mem_blobs: blob_store "be_sha env" "mem_put env" "mem_get env" mem_delete
    "\<lambda>s uid. s (mem_uri env uid) = None" for env
  by unfold_locales (auto simp: mem_put_def mem_get_def mem_delete_def split: option.splits if_splits)

interpretation file_blobs: blob_store "be_sha env" "file_put env root io" "file_get env None" "file_delete None"
    "\<lambda>s uid. s (path_for env root uid) = None" for env root io
  by unfold_locales
    (auto simp: strip_prefix_def file_put_def file_get_def file_delete_def file_parse_uri_def Let_def bind_res_Inr
      split: option.splits if_splits sum.splits prod.splits)

lemma pg_blob_get_Inr:
  "pg_blob_get env None s r = Inr bs \<longleftrightarrow> pr_backend r = PgTable \<and>
     (\<exists>u. pg_blob_parse_uri env (pr_uri r) = Inr u \<and> s u = Some (bs, hex_encode_checksum (pr_checksum r))) \<and>
     be_sha env bs = pr_checksum r"
  by (cases "pg_blob_parse_uri env (pr_uri r)")
    (auto simp: pg_blob_get_def Let_def hex_inj split: option.splits)

lemma pg_blob_store:
  assumes "uuid_ok env"
  shows "blob_store (be_sha env) (pg_blob_put env db) (pg_blob_get env None) (pg_blob_delete env None)
    (\<lambda>s uid. s uid = None)"
proof
  have own: "pg_blob_parse_uri env (''pg:'' @ be_uuid_str env u) = Inr u" for u
    using assms by (simp add: pg_blob_parse_uri_def strip_prefix_def uuid_ok_def)
  note simps = pg_blob_get_Inr pg_blob_put_def pg_blob_delete_def Let_def own
  fix s uid bs r s' x q cs
  show "pg_blob_get env None s' r = Inr bs" "pr_checksum r = be_sha env bs"
    if "pg_blob_put env db s uid bs = (Inr r, s')"
    using that by (auto simp: simps simp del: append_Cons split: if_splits option.splits)
  show "pg_blob_get env None s' q = Inr cs"
    if "s uid = None" "pg_blob_put env db s uid bs = (x, s')" "pg_blob_get env None s q = Inr cs"
    using that by (auto simp: simps split: if_splits option.splits)
  show "be_sha env bs = pr_checksum r" if "pg_blob_get env None s r = Inr bs"
    using that by (simp add: simps)
  show "pg_blob_get env None s' r \<noteq> Inr bs" "pg_blob_delete env None s' r = (Inr (), s')"
    if "pg_blob_delete env None s r = (Inr (), s')"
    using that by (auto simp: simps split: if_splits sum.splits)
qed

end
