(* ===== verification/Event_Log.thy ===== *)
theory Event_Log
  imports Event_Blob
begin

text \<open>
  The reading side of the log: a logged row (\<open>log/reader.rs\<close>), the bounded query over a log
  (\<open>log/query.rs\<close>), and the contract of a readable log as the locale \<open>readable_log\<close>: what
  \<open>Log::read_from\<close> and \<open>Log::head_seq\<close> promise. Both logs of the program provide it
  (\<open>Memory_Log\<close>, \<open>Log_Writer\<close>), the subscription relies on it.
\<close>

subsection \<open>Rows\<close>

record 'p logged_event =
  le_seq :: seq
  le_domain :: domain
  le_kind :: string
  le_payload :: 'p
  le_producer :: string
  le_dedupe :: "uuid option"
  le_depth :: int
  le_trace :: "uuid option"
  le_span :: "uuid option"
  le_parent :: "uuid option"
  le_ts :: int
  le_ephemeral :: bool

text \<open>The rows of a domain behind a cursor.\<close>

definition behind :: "domain \<Rightarrow> seq \<Rightarrow> 'p logged_event list \<Rightarrow> 'p logged_event list" where
  "behind d a es = filter (\<lambda>e. le_domain e = d \<and> a < le_seq e) es"

definition ascending :: "'p logged_event list \<Rightarrow> bool" where
  "ascending es \<longleftrightarrow> sorted_wrt (<) (map le_seq es)"

lemma ascending_filter [inv_intros]: "ascending es \<Longrightarrow> ascending (filter P es)"
  by (simp add: ascending_def sorted_wrt_map sorted_wrt_filter)

lemma ascending_take [inv_intros]: "ascending es \<Longrightarrow> ascending (take n es)"
  by (simp add: ascending_def sorted_wrt_map sorted_wrt_take)

lemma ascending_Cons: "ascending (e # es) \<longleftrightarrow> (\<forall>x \<in> set es. le_seq e < le_seq x) \<and> ascending es"
  by (auto simp: ascending_def)

lemma ascending_append:
  "ascending (es @ fs) \<longleftrightarrow> ascending es \<and> ascending fs \<and> (\<forall>x \<in> set es. \<forall>y \<in> set fs. le_seq x < le_seq y)"
  by (auto simp: ascending_def sorted_wrt_append)

lemma behind_Cons:
  "behind d a (e # es) = (if le_domain e = d \<and> a < le_seq e then e # behind d a es else behind d a es)"
  by (simp add: behind_def)

lemma last_max: "ascending es \<Longrightarrow> e \<in> set es \<Longrightarrow> le_seq e \<le> le_seq (last es)"
proof (induction es rule: rev_induct)
  case (snoc x es)
  then show ?case unfolding ascending_append by fastforce
qed simp

text \<open>Of an ascending list, what lies behind the last of the first \<open>n\<close> rows is the rest.\<close>

lemma filter_after_take:
  assumes "ascending es" "take n es \<noteq> []"
  shows "filter (\<lambda>e. le_seq (last (take n es)) < le_seq e) es = drop n es"
proof -
  let ?t = "take n es"
  have asc: "ascending (?t @ drop n es)" using assms(1) by simp
  have "\<forall>x \<in> set ?t. le_seq x \<le> le_seq (last ?t)"
    using last_max[OF ascending_take[OF assms(1)]] by blast
  then have "filter (\<lambda>e. le_seq (last ?t) < le_seq e) ?t = []" by (auto simp: filter_empty_conv)
  moreover have "filter (\<lambda>e. le_seq (last ?t) < le_seq e) (drop n es) = drop n es"
    using asc assms(2) unfolding ascending_append by (simp add: filter_id_conv)
  ultimately show ?thesis by (metis append_Nil append_take_drop_id filter_append)
qed

lemma behind_after_take:
  assumes "ascending es" "take n (behind d a es) \<noteq> []"
  shows "behind d (le_seq (last (take n (behind d a es)))) es = drop n (behind d a es)"
proof -
  let ?b = "behind d a es"
  have "last (take n ?b) \<in> set ?b" using assms(2) by (meson in_set_takeD last_in_set)
  then have "a < le_seq (last (take n ?b))" by (simp add: behind_def)
  then have "behind d (le_seq (last (take n ?b))) es = filter (\<lambda>e. le_seq (last (take n ?b)) < le_seq e) ?b"
    unfolding behind_def filter_filter by (intro filter_cong) auto
  also have "\<dots> = drop n ?b"
    using filter_after_take[of ?b n] assms by (simp add: behind_def ascending_filter)
  finally show ?thesis .
qed

subsection \<open>Queries\<close>

text \<open>Equality of two JSON values: objects compare as maps.\<close>

function json_eq :: "json \<Rightarrow> json \<Rightarrow> bool" where
  "json_eq a b =
     (case a of
        JArray xs \<Rightarrow> (case b of JArray ys \<Rightarrow> list_all2 json_eq xs ys | _ \<Rightarrow> False)
      | JObject fs \<Rightarrow>
          (case b of
             JObject gs \<Rightarrow> length fs = length gs \<and>
               (\<forall>f \<in> set fs. case map_of gs (fst f) of None \<Rightarrow> False | Some w \<Rightarrow> json_eq (snd f) w)
           | _ \<Rightarrow> False)
      | _ \<Rightarrow> a = b)"
  by pat_completeness auto
termination
proof (relation "measure (\<lambda>(a, _). size a)")
  show "wf (measure (\<lambda>(a :: json, _ :: json). size a))" by simp
qed (auto simp: size_list_estimation' less_Suc_eq_le elim!: in_set_conv_decomp[THEN iffD1, elim_format])

declare json_eq.simps [simp del]

record log_query =
  q_domain :: domain
  q_kind :: "string option"
  q_correlation :: "(string \<times> json) list"
  q_since :: "int option"
  q_until :: "int option"
  q_after :: "seq option"
  q_limit :: "nat option"

definition QUERY_LIMIT_CAP :: nat where
  "QUERY_LIMIT_CAP = 512"

definition new_query :: "domain \<Rightarrow> log_query" where
  "new_query d = \<lparr> q_domain = d, q_kind = None, q_correlation = [], q_since = None, q_until = None,
     q_after = None, q_limit = None \<rparr>"

definition add_correlation :: "string \<Rightarrow> json \<Rightarrow> log_query \<Rightarrow> log_query" where
  "add_correlation k v q = q\<lparr> q_correlation := q_correlation q @ [(k, v)] \<rparr>"

definition effective_limit :: "log_query \<Rightarrow> nat" where
  "effective_limit q = min (unwrap_or (q_limit q) QUERY_LIMIT_CAP) QUERY_LIMIT_CAP"

definition effective_after_seq :: "log_query \<Rightarrow> seq" where
  "effective_after_seq q = unwrap_or (q_after q) 0"

definition query_matches :: "log_query \<Rightarrow> json logged_event \<Rightarrow> bool" where
  "query_matches q e =
     ((case q_kind q of Some k \<Rightarrow> le_kind e = k | None \<Rightarrow> True) \<and>
      (case q_since q of Some t \<Rightarrow> t \<le> le_ts e | None \<Rightarrow> True) \<and>
      (case q_until q of Some t \<Rightarrow> le_ts e < t | None \<Rightarrow> True) \<and>
      list_all (\<lambda>(k, v). case j_get (le_payload e) k of Some w \<Rightarrow> json_eq w v | None \<Rightarrow> False) (q_correlation q))"

definition run_query ::
  "(domain \<Rightarrow> seq \<Rightarrow> nat \<Rightarrow> log_error + json logged_event list) \<Rightarrow> log_query
     \<Rightarrow> log_error + json logged_event list" where
  "run_query read q =
     bind_res (read (q_domain q) (effective_after_seq q) (effective_limit q))
       (\<lambda>rows. Inr (filter (query_matches q) rows))"

subsection \<open>The contract of a readable log\<close>

text \<open>\<open>events s\<close> are the committed rows of a log in a state \<open>s\<close> that satisfies its invariant \<open>ok\<close>.\<close>

locale readable_log =
  fixes ok :: "'s \<Rightarrow> bool"
    and events :: "'s \<Rightarrow> 'p logged_event list"
    and read_from :: "'s \<Rightarrow> domain \<Rightarrow> seq \<Rightarrow> nat \<Rightarrow> log_error + 'p logged_event list"
    and head_seq :: "'s \<Rightarrow> log_error + seq"
  assumes events_ascending: "ok s \<Longrightarrow> ascending (events s)"
    and events_positive: "ok s \<Longrightarrow> e \<in> set (events s) \<Longrightarrow> 0 < le_seq e"
    and read_sound: "ok s \<Longrightarrow> read_from s d a n = Inr es \<Longrightarrow> es = take n (behind d a (events s))"
    and head_sound: "ok s \<Longrightarrow> head_seq s = Inr h \<Longrightarrow>
      (events s = [] \<and> h = 0) \<or> (events s \<noteq> [] \<and> h = le_seq (last (events s)))"
begin

lemma read_ascending:
  assumes "ok s" "read_from s d a n = Inr es" shows "ascending es"
  unfolding read_sound[OF assms] behind_def by (intro inv_intros events_ascending assms(1))

lemma read_empty: "ok s \<Longrightarrow> read_from s d a n = Inr [] \<Longrightarrow> 0 < n \<Longrightarrow> behind d a (events s) = []"
  using read_sound[of s d a n "[]"] by simp

lemma read_rest:
  assumes "ok s" "read_from s d a n = Inr es" "es \<noteq> []"
  shows "behind d a (events s) = es @ behind d (le_seq (last es)) (events s)"
  using assms read_sound[OF assms(1,2)] behind_after_take[OF events_ascending[OF assms(1)], of n d a]
  by (metis append_take_drop_id)

lemma head_bound:
  assumes "ok s" "head_seq s = Inr h" "e \<in> set (events s)"
  shows "le_seq e \<le> h"
proof -
  have "events s \<noteq> []" "h = le_seq (last (events s))" using head_sound[OF assms(1,2)] assms(3) by auto
  then show ?thesis using last_max[OF events_ascending[OF assms(1)] assms(3)] by simp
qed

lemma behind_head: "ok s \<Longrightarrow> head_seq s = Inr h \<Longrightarrow> behind d h (events s) = []"
  using head_bound by (fastforce simp: behind_def filter_empty_conv)

end

text \<open>A query is answered from a prefix of the rows of its domain.\<close>

locale queryable_log = readable_log ok events read_from head_seq
  for ok :: "'s \<Rightarrow> bool" and events :: "'s \<Rightarrow> json logged_event list" and read_from head_seq
begin

lemma query_result:
  assumes "ok s" "run_query (read_from s) q = Inr es"
  shows "es = filter (query_matches q) (take (effective_limit q) (behind (q_domain q) (effective_after_seq q) (events s)))"
proof -
  obtain rows where r: "read_from s (q_domain q) (effective_after_seq q) (effective_limit q) = Inr rows"
    "es = filter (query_matches q) rows"
    using assms(2) by (auto simp: run_query_def bind_res_Inr)
  show ?thesis unfolding r(2) read_sound[OF assms(1) r(1)] ..
qed

lemma query_sound:
  assumes "ok s" "run_query (read_from s) q = Inr es"
  shows "length es \<le> 512 \<and> ascending es \<and>
    (\<forall>e \<in> set es. e \<in> set (events s) \<and> le_domain e = q_domain q \<and> query_matches q e)"
proof -
  note r = query_result[OF assms]
  have "length es \<le> effective_limit q" unfolding r by (rule order.trans[OF length_filter_le]) simp
  moreover have "effective_limit q \<le> 512" by (simp add: effective_limit_def QUERY_LIMIT_CAP_def)
  moreover have "ascending es"
    unfolding r behind_def using events_ascending[OF assms(1)] by (intro inv_intros)
  moreover have "e \<in> set (events s) \<and> le_domain e = q_domain q \<and> query_matches q e" if "e \<in> set es" for e
    using that unfolding r behind_def by (auto dest: in_set_takeD)
  ultimately show ?thesis by auto
qed

end

end
