(* ===== verification/Event_Memory.thy ===== *)
theory Event_Memory
  imports Event_Log
begin

text \<open>
  The in-memory log (\<open>in_memory/log.rs\<close>, \<open>writer_task.rs\<close>, \<open>storage.rs\<close>, the tail source of
  \<open>in_memory/mod.rs\<close>): producers check and enqueue, one writer task takes entries off the bounded
  channel, assigns sequence numbers and answers. The answers given so far are kept with the number of
  their request; \<open>answer\<close> is \<open>None\<close> for the row of a request refused before the channel.
\<close>

subsection \<open>State\<close>

record 'p event =
  ev_domain :: domain
  ev_kind :: string
  ev_payload :: 'p

record 'p stored_row =
  sr_seq :: seq
  sr_domain :: domain
  sr_kind :: string
  sr_inline :: "'p option"
  sr_ref :: "payload_ref_wire option"
  sr_producer :: string
  sr_dedupe :: "uuid option"
  sr_depth :: int
  sr_trace :: "uuid option"
  sr_span :: "uuid option"
  sr_parent :: "uuid option"
  sr_ts :: int
  sr_ephemeral :: bool

record 'p answer =
  an_ticket :: nat
  an_row :: "'p stored_row option"
  an_reply :: "append_error + append_ack"

record ('p, 's) mem_log =
  ml_rows :: "'p stored_row list"
  ml_next :: seq
  ml_dedupe :: "string \<times> uuid \<rightharpoonup> seq"
  ml_failed :: bool
  ml_blobs :: 's
  ml_queue :: "(nat \<times> 'p stored_row) list"
  ml_tickets :: nat
  ml_answers :: "'p answer list"

definition IN_MEMORY_APPEND_CAPACITY :: nat where
  "IN_MEMORY_APPEND_CAPACITY = 4096"

definition mem_spawn :: "'s \<Rightarrow> ('p, 's) mem_log" where
  "mem_spawn blobs = \<lparr> ml_rows = [], ml_next = 1, ml_dedupe = Map.empty, ml_failed = False, ml_blobs = blobs,
     ml_queue = [], ml_tickets = 0, ml_answers = [] \<rparr>"

subsection \<open>The producer\<close>

type_synonym 's blob_put = "'s \<Rightarrow> uuid \<Rightarrow> byte list \<Rightarrow> (blob_error + payload_ref) \<times> 's"

definition make_row ::
  "int \<Rightarrow> 'p event \<Rightarrow> append_opts \<Rightarrow> 'p option \<Rightarrow> payload_ref_wire option \<Rightarrow> 'p stored_row" where
  "make_row now ev opts inline ref =
     (let span = span_or_default (ao_span opts) in
      \<lparr> sr_seq = 0, sr_domain = ev_domain ev, sr_kind = ev_kind ev, sr_inline = inline, sr_ref = ref,
        sr_producer = ao_producer opts, sr_dedupe = ao_dedupe opts, sr_depth = uint (ao_depth opts),
        sr_trace = sp_trace span, sr_span = sp_span span, sr_parent = sp_parent span, sr_ts = now,
        sr_ephemeral = ao_ephemeral opts \<rparr>)"

definition prepare_row ::
  "'p bus_env \<Rightarrow> 's blob_put \<Rightarrow> 's \<Rightarrow> uuid \<Rightarrow> int \<Rightarrow> 'p event \<Rightarrow> append_opts
     \<Rightarrow> (append_error + 'p stored_row) \<times> 's" where
  "prepare_row env put blobs uid now ev opts =
     (case check_causation opts of
        Inl e \<Rightarrow> (Inl e, blobs)
      | Inr _ \<Rightarrow>
     if ao_producer opts = [] \<and> \<not> ao_ephemeral opts then
       (Inl (AppendOther ''producer_id must not be empty''), blobs)
     else case be_to_vec env (ev_payload ev) of
        Inl e \<Rightarrow> (Inl (SerializeError e), blobs)
      | Inr bs \<Rightarrow>
     (case place_payload put blobs uid bs of
        (Inl e, blobs') \<Rightarrow> (Inl (AppendOther (''blob put: '' @ blob_error_text e)), blobs')
      | (Inr (None, ref), blobs') \<Rightarrow> (Inr (make_row now ev opts None ref), blobs')
      | (Inr (Some b, ref), blobs') \<Rightarrow>
          (case be_from_slice env b of
             Inl e \<Rightarrow> (Inl (SerializeError e), blobs')
           | Inr v \<Rightarrow> (Inr (make_row now ev opts (Some v) ref), blobs'))))"

definition answer_now ::
  "'p stored_row option \<Rightarrow> append_error + append_ack \<Rightarrow> ('p, 's) mem_log \<Rightarrow> ('p, 's) mem_log" where
  "answer_now row reply st =
     st\<lparr> ml_tickets := Suc (ml_tickets st),
        ml_answers := \<lparr> an_ticket = ml_tickets st, an_row = row, an_reply = reply \<rparr> # ml_answers st \<rparr>"

text \<open>\<open>append\<close> up to the channel: a full channel refuses at once.\<close>

definition mem_append ::
  "'p bus_env \<Rightarrow> 's blob_put \<Rightarrow> uuid \<Rightarrow> int \<Rightarrow> 'p event \<Rightarrow> append_opts \<Rightarrow> ('p, 's) mem_log \<Rightarrow> ('p, 's) mem_log" where
  "mem_append env put uid now ev opts st =
     (case prepare_row env put (ml_blobs st) uid now ev opts of
        (Inl e, blobs) \<Rightarrow> answer_now None (Inl e) (st\<lparr> ml_blobs := blobs \<rparr>)
      | (Inr row, blobs) \<Rightarrow>
          if length (ml_queue st) \<ge> IN_MEMORY_APPEND_CAPACITY then
            answer_now (Some row) (Inl Backpressure) (st\<lparr> ml_blobs := blobs \<rparr>)
          else st\<lparr> ml_blobs := blobs, ml_queue := ml_queue st @ [(ml_tickets st, row)],
                  ml_tickets := Suc (ml_tickets st) \<rparr>)"

subsection \<open>The writer task\<close>

definition answer_row ::
  "nat \<Rightarrow> 'p stored_row \<Rightarrow> append_error + append_ack \<Rightarrow> ('p, 's) mem_log \<Rightarrow> ('p, 's) mem_log" where
  "answer_row t row reply st =
     st\<lparr> ml_answers := \<lparr> an_ticket = t, an_row = Some row, an_reply = reply \<rparr> # ml_answers st \<rparr>"

definition known_seq :: "('p, 's) mem_log \<Rightarrow> 'p stored_row \<Rightarrow> seq option" where
  "known_seq st row = Option.bind (sr_dedupe row) (\<lambda>k. ml_dedupe st (sr_producer row, k))"

definition remember_key :: "'p stored_row \<Rightarrow> seq \<Rightarrow> (string \<times> uuid \<rightharpoonup> seq) \<Rightarrow> (string \<times> uuid \<rightharpoonup> seq)" where
  "remember_key row q m = (case sr_dedupe row of None \<Rightarrow> m | Some k \<Rightarrow> m((sr_producer row, k) \<mapsto> q))"

definition handle_one :: "nat \<Rightarrow> 'p stored_row \<Rightarrow> ('p, 's) mem_log \<Rightarrow> ('p, 's) mem_log" where
  "handle_one t row st =
     (if ml_failed st then answer_row t row (Inl (LogUnavailable ''in-memory log failed'')) st
      else case known_seq st row of
        Some q \<Rightarrow> answer_row t row (Inr (AlreadyExists q)) st
      | None \<Rightarrow>
          let q = ml_next st; st = st\<lparr> ml_next := wrap_i64 (q + 1) \<rparr>; row = row\<lparr> sr_seq := q \<rparr> in
          if sr_ephemeral row then answer_row t row (Inr (Volatile q)) st
          else answer_row t row (Inr (Committed q True))
            (st\<lparr> ml_rows := ml_rows st @ [row], ml_dedupe := remember_key row q (ml_dedupe st) \<rparr>))"

definition writer_step :: "('p, 's) mem_log \<Rightarrow> ('p, 's) mem_log" where
  "writer_step st =
     (case ml_queue st of [] \<Rightarrow> st | (t, row) # rest \<Rightarrow> handle_one t row (st\<lparr> ml_queue := rest \<rparr>))"

definition set_failed :: "bool \<Rightarrow> ('p, 's) mem_log \<Rightarrow> ('p, 's) mem_log" where
  "set_failed b st = st\<lparr> ml_failed := b \<rparr>"

subsection \<open>Reading\<close>

definition stored_to_logged :: "'p bus_env \<Rightarrow> 'p stored_row \<Rightarrow> 'p logged_event" where
  "stored_to_logged env r =
     \<lparr> le_seq = sr_seq r, le_domain = sr_domain r, le_kind = sr_kind r,
       le_payload = (case sr_inline r of Some v \<Rightarrow> v | None \<Rightarrow> be_null env),
       le_producer = sr_producer r, le_dedupe = sr_dedupe r, le_depth = sr_depth r, le_trace = sr_trace r,
       le_span = sr_span r, le_parent = sr_parent r, le_ts = sr_ts r, le_ephemeral = sr_ephemeral r \<rparr>"

definition mem_read_from ::
  "'p bus_env \<Rightarrow> ('p, 's) mem_log \<Rightarrow> domain \<Rightarrow> seq \<Rightarrow> nat \<Rightarrow> log_error + 'p logged_event list" where
  "mem_read_from env st d a n =
     Inr (map (stored_to_logged env) (take n (filter (\<lambda>r. sr_domain r = d \<and> a < sr_seq r) (ml_rows st))))"

definition head_seq_sync :: "('p, 's) mem_log \<Rightarrow> seq" where
  "head_seq_sync st = (case map sr_seq (ml_rows st) of [] \<Rightarrow> 0 | q # qs \<Rightarrow> fold max qs q)"

definition mem_head_seq :: "('p, 's) mem_log \<Rightarrow> log_error + seq" where
  "mem_head_seq st = Inr (head_seq_sync st)"

definition row_count :: "('p, 's) mem_log \<Rightarrow> nat" where
  "row_count st = length (ml_rows st)"

fun since :: "'p bus_env \<Rightarrow> seq \<Rightarrow> nat \<Rightarrow> 'p stored_row list \<Rightarrow> 'p logged_event list \<Rightarrow> 'p logged_event list" where
  "since env a n [] out = out"
| "since env a n (r # rs) out =
     (if a < sr_seq r then
        (let out = out @ [stored_to_logged env r] in if n \<le> length out then out else since env a n rs out)
      else since env a n rs out)"

definition read_all_since :: "'p bus_env \<Rightarrow> ('p, 's) mem_log \<Rightarrow> seq \<Rightarrow> nat \<Rightarrow> 'p logged_event list" where
  "read_all_since env st a n = since env a n (ml_rows st) []"

definition mem_events :: "'p bus_env \<Rightarrow> ('p, 's) mem_log \<Rightarrow> 'p logged_event list" where
  "mem_events env st = map (stored_to_logged env) (ml_rows st)"

subsection \<open>Reachable states\<close>

text \<open>Producers, the writer and the test switch interleave freely.\<close>

inductive mem_reach :: "'p bus_env \<Rightarrow> 's blob_put \<Rightarrow> 's \<Rightarrow> ('p, 's) mem_log \<Rightarrow> bool"
  for env :: "'p bus_env" and put :: "'s blob_put" and blobs :: 's where
  MemStart: "mem_reach env put blobs (mem_spawn blobs)"
| MemAppend: "mem_reach env put blobs st \<Longrightarrow> mem_reach env put blobs (mem_append env put uid now ev opts st)"
| MemWrite: "mem_reach env put blobs st \<Longrightarrow> mem_reach env put blobs (writer_step st)"
| MemSwitch: "mem_reach env put blobs st \<Longrightarrow> mem_reach env put blobs (set_failed b st)"

subsection \<open>The invariant\<close>

definition row_key :: "'p stored_row \<Rightarrow> (string \<times> uuid) option" where
  "row_key r = map_option (Pair (sr_producer r)) (sr_dedupe r)"

text \<open>Rows are numbered upwards below the counter; the dedupe map is the index of the rows by key; no row is
  ephemeral; every row satisfies the guards of \<open>append\<close>.\<close>

definition rows_ok :: "('p, 's) mem_log \<Rightarrow> bool" where
  "rows_ok st \<longleftrightarrow> sorted_wrt (<) (map sr_seq (ml_rows st)) \<and>
     (\<forall>r \<in> set (ml_rows st). 0 < sr_seq r \<and> sr_seq r < ml_next st \<and> \<not> sr_ephemeral r) \<and> 0 < ml_next st"

definition index_ok :: "('p, 's) mem_log \<Rightarrow> bool" where
  "index_ok st \<longleftrightarrow>
     (\<forall>k q. ml_dedupe st k = Some q \<longleftrightarrow> (\<exists>r \<in> set (ml_rows st). row_key r = Some k \<and> sr_seq r = q))"

definition guarded_row :: "'p stored_row \<Rightarrow> bool" where
  "guarded_row r \<longleftrightarrow> sr_depth r \<le> 10 \<and> (sr_producer r \<noteq> [] \<or> sr_ephemeral r)"

definition guards_ok :: "('p, 's) mem_log \<Rightarrow> bool" where
  "guards_ok st \<longleftrightarrow> (\<forall>r \<in> set (ml_rows st). guarded_row r) \<and> (\<forall>(_, r) \<in> set (ml_queue st). guarded_row r)"

text \<open>Every request is waiting in the channel or answered, and only once.\<close>

definition tickets_ok :: "('p, 's) mem_log \<Rightarrow> bool" where
  "tickets_ok st \<longleftrightarrow> length (ml_queue st) \<le> IN_MEMORY_APPEND_CAPACITY \<and>
     distinct (map an_ticket (ml_answers st) @ map fst (ml_queue st)) \<and>
     set (map an_ticket (ml_answers st) @ map fst (ml_queue st)) = {..<ml_tickets st} \<and>
     ml_next st + int (length (ml_queue st)) \<le> int (ml_tickets st) + 1"

text \<open>What an answer says is true of the log.\<close>

definition answer_ok :: "('p, 's) mem_log \<Rightarrow> 'p answer \<Rightarrow> bool" where
  "answer_ok st a \<longleftrightarrow>
     (case an_reply a of
        Inl _ \<Rightarrow> True
      | Inr (Volatile q) \<Rightarrow> (\<exists>row. an_row a = Some row \<and> sr_ephemeral row) \<and> q \<notin> sr_seq ` set (ml_rows st) \<and> q < ml_next st
      | Inr (Committed q durable) \<Rightarrow> durable \<and> (\<exists>row. an_row a = Some row \<and> row \<in> set (ml_rows st) \<and> sr_seq row = q)
      | Inr (AlreadyExists q) \<Rightarrow>
          (\<exists>row r. an_row a = Some row \<and> r \<in> set (ml_rows st) \<and> sr_seq r = q \<and>
             row_key row \<noteq> None \<and> row_key r = row_key row))"

definition mem_ok :: "('p, 's) mem_log \<Rightarrow> bool" where
  "mem_ok st \<longleftrightarrow> rows_ok st \<and> index_ok st \<and> guards_ok st \<and> tickets_ok st \<and> (\<forall>a \<in> set (ml_answers st). answer_ok st a)"

end
