(* ===== verification/Event_Memory_Inv.thy ===== *)
theory Event_Memory_Inv
  imports Event_Memory
begin

text \<open>The invariant of the in-memory log, and that log as a \<open>readable_log\<close>.\<close>

lemmas mem_simps = answer_now_def answer_row_def set_failed_def

subsection \<open>Every operation preserves the invariant\<close>

lemma prepare_row_guarded:
  "prepare_row env put blobs uid now ev opts = (Inr row, blobs') \<Longrightarrow>
     guarded_row row \<and> sr_producer row = ao_producer opts \<and> sr_dedupe row = ao_dedupe opts \<and>
     sr_ephemeral row = ao_ephemeral opts \<and> sr_domain row = ev_domain ev \<and> sr_kind row = ev_kind ev"
  by (auto simp: prepare_row_def check_causation_def fail_if_def guarded_row_def make_row_def Let_def
      MAX_CAUSATION_DEPTH_def word_less_def not_less split: if_splits sum.splits prod.splits option.splits)

lemma spawn_ok: "mem_ok (mem_spawn blobs)"
  by (simp add: mem_ok_def rows_ok_def index_ok_def guards_ok_def tickets_ok_def mem_spawn_def)

lemma answer_grow:
  assumes "answer_ok st a" "ml_rows st' = ml_rows st @ rs" "ml_next st \<le> ml_next st'"
    "\<forall>r \<in> set rs. ml_next st \<le> sr_seq r"
  shows "answer_ok st' a"
  using assms by (fastforce simp: answer_ok_def split: sum.splits append_ack.splits)

lemma answer_same: "answer_ok st a \<Longrightarrow> ml_rows st' = ml_rows st \<Longrightarrow> ml_next st' = ml_next st \<Longrightarrow> answer_ok st' a"
  by (rule answer_grow[of st _ _ "[]"]) simp_all

lemma answer_error [simp]: "answer_ok st \<lparr> an_ticket = t, an_row = r, an_reply = Inl e \<rparr>"
  by (simp add: answer_ok_def)

lemma set_failed_ok: "mem_ok st \<Longrightarrow> mem_ok (set_failed b st)"
  by (auto simp: mem_ok_def rows_ok_def index_ok_def guards_ok_def tickets_ok_def set_failed_def intro: answer_same)

lemma fresh_ticket:
  assumes "tickets_ok st"
  shows "ml_tickets st \<notin> set (map an_ticket (ml_answers st) @ map fst (ml_queue st))"
  using assms by (simp add: tickets_ok_def del: map_append set_append set_map)

lemma append_ok:
  assumes "mem_ok st" shows "mem_ok (mem_append env put uid now ev opts st)"
proof -
  note ok = assms[unfolded mem_ok_def]
  have t: "tickets_ok st" and f: "ml_tickets st \<notin> an_ticket ` set (ml_answers st)"
    "ml_tickets st \<notin> fst ` set (ml_queue st)"
    using ok fresh_ticket[of st] by auto
  have refuse: "mem_ok (answer_now r (Inl e) (st\<lparr> ml_blobs := b \<rparr>))" for r e b
    using ok t f unfolding mem_ok_def
    by (auto simp: rows_ok_def index_ok_def guards_ok_def tickets_ok_def answer_now_def lessThan_Suc intro: answer_same)
  have enqueue: "mem_ok (st\<lparr> ml_blobs := b, ml_queue := ml_queue st @ [(ml_tickets st, row)],
      ml_tickets := Suc (ml_tickets st) \<rparr>)"
    if "guarded_row row" "length (ml_queue st) < IN_MEMORY_APPEND_CAPACITY" for row b
    using ok t f that unfolding mem_ok_def
    by (auto simp: rows_ok_def index_ok_def guards_ok_def tickets_ok_def lessThan_Suc intro: answer_same)
  show ?thesis
  proof (cases "prepare_row env put (ml_blobs st) uid now ev opts")
    case (Pair r b)
    then show ?thesis
      using refuse enqueue prepare_row_guarded[of env put "ml_blobs st" uid now ev opts]
      by (cases r) (auto simp: mem_append_def not_le)
  qed
qed

text \<open>The writer: taking the entry off the channel and answering it.\<close>

lemma tickets_answered:
  assumes "tickets_ok st" "ml_queue st = (t, row) # rest"
    "ml_queue st' = rest" "ml_answers st' = a # ml_answers st" "an_ticket a = t"
    "ml_tickets st' = ml_tickets st" "ml_next st' \<le> ml_next st + 1"
  shows "tickets_ok st'"
  using assms by (auto simp: tickets_ok_def)

lemma known_row:
  assumes "index_ok st" "known_seq st row = Some q"
  shows "row_key row \<noteq> None \<and> (\<exists>r \<in> set (ml_rows st). row_key r = row_key row \<and> sr_seq r = q)"
proof -
  obtain k where k: "sr_dedupe row = Some k" "ml_dedupe st (sr_producer row, k) = Some q"
    using assms(2) by (auto simp: known_seq_def Option.bind_eq_Some_conv)
  then have "row_key row = Some (sr_producer row, k)" by (simp add: row_key_def)
  with k(2) assms(1) show ?thesis unfolding index_ok_def by auto
qed

lemma unknown_row:
  assumes "index_ok st" "known_seq st row = None" "r \<in> set (ml_rows st)" "row_key r = row_key row"
  shows "row_key row = None"
proof (rule ccontr)
  assume "row_key row \<noteq> None"
  then obtain k where k: "sr_dedupe row = Some k" "row_key row = Some (sr_producer row, k)"
    by (auto simp: row_key_def)
  then have "ml_dedupe st (sr_producer row, k) = Some (sr_seq r)"
    using assms(1,3,4) unfolding index_ok_def by auto
  with k(1) assms(2) show False by (simp add: known_seq_def)
qed

lemma index_commit:
  assumes "index_ok st" "known_seq st row = None"
    "ml_rows st' = ml_rows st @ [row\<lparr> sr_seq := q \<rparr>]" "ml_dedupe st' = remember_key (row\<lparr> sr_seq := q \<rparr>) q (ml_dedupe st)"
  shows "index_ok st'"
proof (unfold index_ok_def, intro allI)
  fix k q'
  have key: "row_key (row\<lparr> sr_seq := q \<rparr>) = row_key row" by (simp add: row_key_def)
  show "ml_dedupe st' k = Some q' \<longleftrightarrow> (\<exists>r \<in> set (ml_rows st'). row_key r = Some k \<and> sr_seq r = q')"
  proof (cases "row_key row = Some k")
    case True
    then have "ml_dedupe st' k = Some q"
      unfolding assms(4) by (auto simp: remember_key_def row_key_def split: option.splits)
    moreover have "\<forall>r \<in> set (ml_rows st). row_key r \<noteq> Some k"
      using unknown_row[OF assms(1,2)] True by force
    ultimately show ?thesis using True key unfolding assms(3) by auto
  next
    case False
    then have "ml_dedupe st' k = ml_dedupe st k"
      unfolding assms(4) by (auto simp: remember_key_def row_key_def split: option.splits)
    then show ?thesis using assms(1)[unfolded index_ok_def, rule_format, of k q'] False key
      unfolding assms(3) by auto
  qed
qed

lemma write_ok:
  assumes "mem_ok st" "int (ml_tickets st) < i64_max"
  shows "mem_ok (writer_step st)"
proof (cases "ml_queue st")
  case Nil
  with assms(1) show ?thesis by (simp add: writer_step_def)
next
  case (Cons e rest)
  obtain t row where e: "e = (t, row)" by force
  note q = Cons[unfolded e]
  let ?st = "st\<lparr> ml_queue := rest \<rparr>"
  have step: "writer_step st = handle_one t row ?st" using q by (simp add: writer_step_def)
  note ok = assms(1)[unfolded mem_ok_def]
  have g: "guarded_row row" "guards_ok ?st" using ok q by (auto simp: guards_ok_def)
  have same: "known_seq ?st row = known_seq st row" by (simp add: known_seq_def)
  have pos: "0 < ml_next st" and small: "ml_next st \<le> int (ml_tickets st)"
    using ok q by (auto simp: rows_ok_def tickets_ok_def)
  then have w: "wrap_i64 (ml_next st + 1) = ml_next st + 1"
    using assms(2) by (intro wrap_i64_id) (auto simp: i64_min_def i64_max_def)
  show ?thesis
  proof (cases "ml_failed st \<or> known_seq st row \<noteq> None")
    case True
    obtain reply where h: "handle_one t row ?st = answer_row t row reply ?st"
      and r: "answer_ok st \<lparr> an_ticket = t, an_row = Some row, an_reply = reply \<rparr>"
    proof (cases "ml_failed st")
      case True
      then show ?thesis
        by (intro that[of "Inl (LogUnavailable ''in-memory log failed'')"]) (simp_all add: handle_one_def answer_ok_def)
    next
      case False
      with \<open>ml_failed st \<or> known_seq st row \<noteq> None\<close> obtain n where n: "known_seq st row = Some n" by blast
      then show ?thesis using known_row[of st row n] ok False same
        by (intro that[of "Inr (AlreadyExists n)"]) (auto simp: handle_one_def answer_ok_def)
    qed
    have "tickets_ok (answer_row t row reply ?st)"
      by (rule tickets_answered[OF _ q]) (use ok in \<open>auto simp: answer_row_def\<close>)
    moreover have "answer_ok (answer_row t row reply ?st) a" if "answer_ok st a" for a
      by (rule answer_grow[of st _ _ "[]"]) (use ok that in \<open>auto simp: answer_row_def\<close>)
    ultimately show ?thesis unfolding step h
      using ok g r by (auto simp: mem_ok_def rows_ok_def index_ok_def guards_ok_def answer_row_def)
  next
    case False
    let ?q = "ml_next st" and ?row = "row\<lparr> sr_seq := ml_next st \<rparr>"
    show ?thesis
    proof (cases "sr_ephemeral row")
      case True
      let ?st' = "answer_row t ?row (Inr (Volatile ?q)) (?st\<lparr> ml_next := ?q + 1 \<rparr>)"
      have h: "writer_step st = ?st'" using False True same w by (simp add: step handle_one_def Let_def)
      have "tickets_ok ?st'" by (rule tickets_answered[OF _ q]) (use ok in \<open>auto simp: answer_row_def\<close>)
      moreover have "rows_ok ?st'" "index_ok ?st'" "guards_ok ?st'"
        using ok g by (auto simp: rows_ok_def index_ok_def guards_ok_def answer_row_def)
      moreover have "answer_ok ?st' a" if "a \<in> set (ml_answers st)" for a
        by (rule answer_grow[of st _ _ "[]"]) (use ok that in \<open>auto simp: answer_row_def\<close>)
      moreover have "answer_ok ?st' \<lparr> an_ticket = t, an_row = Some ?row, an_reply = Inr (Volatile ?q) \<rparr>"
        using ok True by (auto simp: answer_ok_def answer_row_def rows_ok_def)
      ultimately show ?thesis unfolding h mem_ok_def by (auto simp: answer_row_def)
    next
      case dur: False
      let ?st' = "answer_row t ?row (Inr (Committed ?q True)) (?st\<lparr> ml_next := ?q + 1,
          ml_rows := ml_rows st @ [?row], ml_dedupe := remember_key ?row ?q (ml_dedupe st) \<rparr>)"
      have h: "writer_step st = ?st'" using False dur same w by (simp add: step handle_one_def Let_def)
      have "tickets_ok ?st'" by (rule tickets_answered[OF _ q]) (use ok in \<open>auto simp: answer_row_def\<close>)
      moreover have "rows_ok ?st'"
        using ok pos dur by (auto simp: rows_ok_def answer_row_def sorted_wrt_append)
      moreover have "guards_ok ?st'" using g by (auto simp: guards_ok_def guarded_row_def answer_row_def)
      moreover have "index_ok ?st'"
        by (rule index_commit[of st row _ ?q]) (use ok False in \<open>auto simp: answer_row_def\<close>)
      moreover have "answer_ok ?st' a" if "a \<in> set (ml_answers st)" for a
        by (rule answer_grow[of st _ _ "[?row]"]) (use ok that in \<open>auto simp: answer_row_def\<close>)
      moreover have "answer_ok ?st' \<lparr> an_ticket = t, an_row = Some ?row, an_reply = Inr (Committed ?q True) \<rparr>"
        by (auto simp: answer_ok_def answer_row_def)
      ultimately show ?thesis unfolding h mem_ok_def by (auto simp: answer_row_def)
    qed
  qed
qed

lemma tickets_grow [simp]:
  "ml_tickets (writer_step st) = ml_tickets st" "ml_tickets (set_failed b st) = ml_tickets st"
  "ml_tickets (mem_append env put uid now ev opts st) = Suc (ml_tickets st)"
  by (auto simp: writer_step_def handle_one_def answer_row_def set_failed_def mem_append_def answer_now_def Let_def
      split: list.split prod.split option.split sum.split)

lemma reach_ok:
  assumes "mem_reach env put blobs st" "int (ml_tickets st) < i64_max"
  shows "mem_ok st"
  using assms by induction (auto intro: spawn_ok append_ok write_ok set_failed_ok)

subsection \<open>Reading the log\<close>

lemma le_stored [simp]:
  "le_seq (stored_to_logged env r) = sr_seq r" "le_domain (stored_to_logged env r) = sr_domain r"
  by (simp_all add: stored_to_logged_def)

lemma mem_read_behind: "mem_read_from env st d a n = Inr (take n (behind d a (mem_events env st)))"
  by (simp add: mem_read_from_def behind_def mem_events_def filter_map o_def take_map)

lemma ascending_events: "rows_ok st \<Longrightarrow> ascending (mem_events env st)"
  by (simp add: rows_ok_def ascending_def mem_events_def o_def)

lemma fold_max_sorted: "sorted_wrt (<) (q # qs) \<Longrightarrow> fold max qs q = last (q # qs)" for q :: seq
  by (induction qs arbitrary: q) (auto simp: max_def)

lemma head_last: "rows_ok st \<Longrightarrow> ml_rows st \<noteq> [] \<Longrightarrow> head_seq_sync st = sr_seq (last (ml_rows st))"
proof -
  assume ok: "rows_ok st" "ml_rows st \<noteq> []"
  then obtain q qs where q: "map sr_seq (ml_rows st) = q # qs" by (cases "ml_rows st") auto
  moreover have "last (q # qs) = sr_seq (last (ml_rows st))" using ok(2) q[symmetric] by (simp add: last_map del: list.map)
  ultimately show ?thesis
    using ok(1) fold_max_sorted[of q qs] by (simp add: head_seq_sync_def rows_ok_def del: last.simps)
qed

interpretation memory: readable_log "mem_ok :: ('p, 's) mem_log \<Rightarrow> bool" "mem_events env" "mem_read_from env" mem_head_seq
  for env :: "'p bus_env"
proof
  fix st :: "('p, 's) mem_log" and e d a n es h
  assume ok: "mem_ok st"
  then have r: "rows_ok st" by (simp add: mem_ok_def)
  show "ascending (mem_events env st)" using r by (rule ascending_events)
  show "0 < le_seq e" if "e \<in> set (mem_events env st)"
    using that r by (auto simp: mem_events_def rows_ok_def)
  show "es = take n (behind d a (mem_events env st))" if "mem_read_from env st d a n = Inr es"
    using that by (simp add: mem_read_behind)
  show "(mem_events env st = [] \<and> h = 0) \<or>
      (mem_events env st \<noteq> [] \<and> h = le_seq (last (mem_events env st)))" if "mem_head_seq st = Inr h"
    using that head_last[OF r] by (cases "ml_rows st = []") (auto simp: mem_head_seq_def mem_events_def last_map head_seq_sync_def)
qed

interpretation memory_query: queryable_log mem_ok "mem_events env" "mem_read_from env" mem_head_seq for env
  by unfold_locales

text \<open>The tail source reads over all domains.\<close>

lemma since_take:
  "n \<noteq> 0 \<Longrightarrow> length out < n \<Longrightarrow>
     since env a n rs out = out @ take (n - length out) (filter (\<lambda>e. a < le_seq e) (map (stored_to_logged env) rs))"
proof (induction rs arbitrary: out)
  case (Cons r rs)
  show ?case
  proof (cases "a < sr_seq r \<and> Suc (length out) < n")
    case True
    then show ?thesis using Cons.IH[of "out @ [stored_to_logged env r]"] Cons.prems
      by (simp add: Let_def Suc_diff_Suc[symmetric])
  next
    case False
    then show ?thesis using Cons.IH[of out] Cons.prems by (auto simp: Let_def Suc_diff_le le_Suc_eq not_less)
  qed
qed simp

lemma read_all_since_take:
  "n \<noteq> 0 \<Longrightarrow> read_all_since env st a n = take n (filter (\<lambda>e. a < le_seq e) (mem_events env st))"
  by (simp add: read_all_since_def since_take mem_events_def)

end
