(* ===== verification/Event_Writer.thy ===== *)
theory Event_Writer
  imports Event_Memory_Inv
begin

text \<open>
  The durable log (\<open>pipeline/step3_commit\<close>): the producer's handle, the single writer that batches
  inserts, and the PostgreSQL backend. The table \<open>event_log\<close> is the list of its committed rows in the
  order of \<open>seq\<close>; the sequence behind \<open>seq\<close> is not rolled back with a transaction. What the database
  does wrong is an argument of a call (\<open>db_fault\<close>); a commit whose answer is lost may have taken effect.
\<close>

subsection \<open>Entries and rows\<close>

record pending_append =
  pa_ticket :: nat
  pa_domain :: domain
  pa_kind :: string
  pa_bytes :: "byte list"
  pa_inline :: bool
  pa_ephemeral :: bool
  pa_producer :: string
  pa_dedupe :: "uuid option"
  pa_depth :: int
  pa_trace :: "uuid option"
  pa_span :: "uuid option"
  pa_parent :: "uuid option"

record insert_row =
  ir_domain :: domain
  ir_kind :: string
  ir_inline :: "byte list option"
  ir_ref :: "payload_ref_wire option"
  ir_producer :: string
  ir_dedupe :: "uuid option"
  ir_depth :: int
  ir_trace :: "uuid option"
  ir_span :: "uuid option"
  ir_parent :: "uuid option"
  ir_ephemeral :: bool

datatype backend_error = DedupeCollision | Transient string | Fatal string

subsection \<open>The PostgreSQL backend (\<open>pg_backend.rs\<close>, \<open>dedup.rs\<close>)\<close>

datatype sqlx_error =
    SqlIo string | SqlPoolClosed string | SqlPoolTimedOut string | SqlTls string
  | SqlDatabase string string | SqlOther string

fun sqlx_text :: "sqlx_error \<Rightarrow> string" where
  "sqlx_text (SqlIo m) = m"
| "sqlx_text (SqlPoolClosed m) = m"
| "sqlx_text (SqlPoolTimedOut m) = m"
| "sqlx_text (SqlTls m) = m"
| "sqlx_text (SqlDatabase c m) = m"
| "sqlx_text (SqlOther m) = m"

fun sqlx_is_transient :: "sqlx_error \<Rightarrow> bool" where
  "sqlx_is_transient (SqlIo _) = True"
| "sqlx_is_transient (SqlPoolClosed _) = True"
| "sqlx_is_transient (SqlPoolTimedOut _) = True"
| "sqlx_is_transient (SqlTls _) = True"
| "sqlx_is_transient _ = False"

definition map_sqlx :: "sqlx_error \<Rightarrow> backend_error" where
  "map_sqlx e = (if sqlx_is_transient e then Transient (sqlx_text e) else Fatal (sqlx_text e))"

fun is_unique_violation :: "sqlx_error \<Rightarrow> bool" where
  "is_unique_violation (SqlDatabase code _) = (code = ''23505'')"
| "is_unique_violation _ = False"

definition map_insert_error :: "sqlx_error \<Rightarrow> backend_error" where
  "map_insert_error e = (if is_unique_violation e then DedupeCollision else map_sqlx e)"

datatype db_fault =
    NoFault
  | FaultBegin sqlx_error
  | FaultRow nat sqlx_error
  | FaultCommit sqlx_error bool

record 'p pg_table =
  pt_rows :: "'p stored_row list"
  pt_next :: seq

definition key_taken :: "'p stored_row list \<Rightarrow> insert_row \<Rightarrow> bool" where
  "key_taken rows r = (case ir_dedupe r of None \<Rightarrow> False
     | Some k \<Rightarrow> list_ex (\<lambda>x. sr_producer x = ir_producer r \<and> sr_dedupe x = Some k) rows)"

definition table_row :: "int \<Rightarrow> seq \<Rightarrow> 'p option \<Rightarrow> insert_row \<Rightarrow> 'p stored_row" where
  "table_row now q inline r =
     \<lparr> sr_seq = q, sr_domain = ir_domain r, sr_kind = ir_kind r, sr_inline = inline, sr_ref = ir_ref r,
       sr_producer = ir_producer r, sr_dedupe = ir_dedupe r, sr_depth = ir_depth r, sr_trace = ir_trace r,
       sr_span = ir_span r, sr_parent = ir_parent r, sr_ts = now, sr_ephemeral = ir_ephemeral r \<rparr>"

definition parse_inline :: "'p bus_env \<Rightarrow> insert_row \<Rightarrow> backend_error + 'p option" where
  "parse_inline env r =
     (case ir_inline r of
        None \<Rightarrow> Inr None
      | Some bs \<Rightarrow>
          (case be_from_slice env bs of
             Inl e \<Rightarrow> Inl (Fatal (''payload_inline not JSON: '' @ e)) | Inr v \<Rightarrow> Inr (Some v)))"

text \<open>One \<open>INSERT\<close> per row inside the transaction: \<open>staged\<close> are the rows inserted so far. The unique index
  compares with the committed rows and with those.\<close>

fun insert_rows ::
  "'p bus_env \<Rightarrow> int \<Rightarrow> (nat \<times> sqlx_error) option \<Rightarrow> nat \<Rightarrow> 'p stored_row list \<Rightarrow> seq \<Rightarrow> 'p stored_row list
     \<Rightarrow> insert_row list \<Rightarrow> (backend_error + 'p stored_row list) \<times> seq" where
  "insert_rows env now fault i committed q staged [] = (Inr staged, q)"
| "insert_rows env now fault i committed q staged (r # rs) =
     (case parse_inline env r of
        Inl e \<Rightarrow> (Inl e, q)
      | Inr inline \<Rightarrow>
          (case fault of
             Some (j, e) \<Rightarrow>
               if i = j then (Inl (map_insert_error e), q)
               else if key_taken (committed @ staged) r then (Inl DedupeCollision, q + 1)
               else insert_rows env now fault (Suc i) committed (q + 1) (staged @ [table_row now q inline r]) rs
           | None \<Rightarrow>
               if key_taken (committed @ staged) r then (Inl DedupeCollision, q + 1)
               else insert_rows env now fault (Suc i) committed (q + 1) (staged @ [table_row now q inline r]) rs))"

definition pg_insert_batch ::
  "'p bus_env \<Rightarrow> int \<Rightarrow> db_fault \<Rightarrow> insert_row list \<Rightarrow> 'p pg_table \<Rightarrow> (backend_error + seq list) \<times> 'p pg_table" where
  "pg_insert_batch env now fault rows t =
     (case fault of
        FaultBegin e \<Rightarrow> (Inl (map_sqlx e), t)
      | _ \<Rightarrow>
          (case insert_rows env now (case fault of FaultRow i e \<Rightarrow> Some (i, e) | _ \<Rightarrow> None) 0 (pt_rows t) (pt_next t) [] rows of
             (Inl e, q) \<Rightarrow> (Inl e, t\<lparr> pt_next := q \<rparr>)
           | (Inr staged, q) \<Rightarrow>
               (case fault of
                  FaultCommit e True \<Rightarrow> (Inl (map_sqlx e), t\<lparr> pt_rows := pt_rows t @ staged, pt_next := q \<rparr>)
                | FaultCommit e False \<Rightarrow> (Inl (map_sqlx e), t\<lparr> pt_next := q \<rparr>)
                | _ \<Rightarrow> (Inr (map sr_seq staged), t\<lparr> pt_rows := pt_rows t @ staged, pt_next := q \<rparr>))))"

definition pg_find_existing_seq ::
  "sqlx_error option \<Rightarrow> string \<Rightarrow> uuid \<Rightarrow> 'p pg_table \<Rightarrow> backend_error + seq option" where
  "pg_find_existing_seq fault producer k t =
     (case fault of
        Some e \<Rightarrow> Inl (map_sqlx e)
      | None \<Rightarrow> Inr (map_option sr_seq (find (\<lambda>x. sr_producer x = producer \<and> sr_dedupe x = Some k) (pt_rows t))))"

subsection \<open>Retrying (\<open>failure_mode.rs\<close>)\<close>

definition RETRY_BASE_DELAY :: nat where "RETRY_BASE_DELAY = 50"
definition RETRY_MAX_DELAY :: nat where "RETRY_MAX_DELAY = 2000"
definition FAILED_STATE_RETRY_CAP :: nat where "FAILED_STATE_RETRY_CAP = 6"

text \<open>In milliseconds; the multiplication stays far below the range of a duration.\<close>

definition exp_backoff :: "nat \<Rightarrow> nat" where
  "exp_backoff attempt = min (RETRY_BASE_DELAY * 2 ^ min (attempt - 1) 10) RETRY_MAX_DELAY"

text \<open>The retry loop of \<open>flush\<close>: \<open>faults\<close> says what the database does at each attempt; the result also tells
  whether the writer is failed and the delays slept.\<close>

function insert_with_retry ::
  "('f \<Rightarrow> insert_row list \<Rightarrow> 's \<Rightarrow> (backend_error + seq list) \<times> 's) \<Rightarrow> (nat \<Rightarrow> 'f) \<Rightarrow> insert_row list \<Rightarrow> nat \<Rightarrow> 's
     \<Rightarrow> (backend_error + seq list) \<times> bool \<times> 's" where
  "insert_with_retry ins faults rows attempt s =
     (if rows = [] then (Inr [], False, s)
      else case ins (faults attempt) rows s of
        (Inr seqs, s') \<Rightarrow> (Inr seqs, False, s')
      | (Inl DedupeCollision, s') \<Rightarrow> (Inl DedupeCollision, False, s')
      | (Inl (Fatal m), s') \<Rightarrow> (Inl (Fatal m), False, s')
      | (Inl (Transient m), s') \<Rightarrow>
          if Suc attempt \<ge> FAILED_STATE_RETRY_CAP then
            (Inl (Fatal (''retry cap exceeded ('' @ show_nat (Suc attempt) @ ''): '' @ m)), True, s')
          else insert_with_retry ins faults rows (Suc attempt) s')"
  by pat_completeness auto
termination
  by (relation "measure (\<lambda>(ins, faults, rows, attempt, s). FAILED_STATE_RETRY_CAP - attempt)")
    (auto simp: FAILED_STATE_RETRY_CAP_def)

declare insert_with_retry.simps [simp del]

subsection \<open>Flushing a batch (\<open>log_writer.rs\<close>)\<close>

text \<open>The claim check of the batch: entry by entry, \<open>uids\<close> supplies the ids of new blobs. \<open>None\<close> is an inline
  payload, \<open>Some (Inl e)\<close> a failed upload (the source marks it by a prefix no handle can have).\<close>

fun claim_payloads ::
  "'b blob_put \<Rightarrow> (nat \<Rightarrow> uuid) \<Rightarrow> nat \<Rightarrow> 'b \<Rightarrow> pending_append list
     \<Rightarrow> (blob_error + payload_ref_wire) option list \<times> 'b" where
  "claim_payloads put uids i b [] = ([], b)"
| "claim_payloads put uids i b (p # ps) =
     (if pa_inline p then
        (case claim_payloads put uids (Suc i) b ps of (rs, b') \<Rightarrow> (None # rs, b'))
      else case put b (uids i) (pa_bytes p) of
        (Inl e, b1) \<Rightarrow> (case claim_payloads put uids (Suc i) b1 ps of (rs, b') \<Rightarrow> (Some (Inl e) # rs, b'))
      | (Inr r, b1) \<Rightarrow>
          (case claim_payloads put uids (Suc i) b1 ps of (rs, b') \<Rightarrow> (Some (Inr (payload_ref_to_wire r)) # rs, b')))"

definition blob_failed :: "(blob_error + payload_ref_wire) option \<Rightarrow> bool" where
  "blob_failed r = (case r of Some (Inl _) \<Rightarrow> True | _ \<Rightarrow> False)"

definition to_insert_row :: "pending_append \<Rightarrow> byte list option \<Rightarrow> payload_ref_wire option \<Rightarrow> insert_row" where
  "to_insert_row p inline ref =
     \<lparr> ir_domain = pa_domain p, ir_kind = pa_kind p, ir_inline = inline, ir_ref = ref, ir_producer = pa_producer p,
       ir_dedupe = pa_dedupe p, ir_depth = pa_depth p, ir_trace = pa_trace p, ir_span = pa_span p,
       ir_parent = pa_parent p, ir_ephemeral = pa_ephemeral p \<rparr>"

fun build_rows :: "(pending_append \<times> (blob_error + payload_ref_wire) option) list \<Rightarrow> insert_row list" where
  "build_rows [] = []"
| "build_rows ((p, r) # xs) =
     (if blob_failed r then build_rows xs
      else if pa_inline p then to_insert_row p (Some (pa_bytes p)) None # build_rows xs
      else case r of
        Some (Inr w) \<Rightarrow> to_insert_row p None (Some w) # build_rows xs
      | _ \<Rightarrow> build_rows xs)"

type_synonym reply = "append_error + append_ack"

text \<open>The seqs go to the entries whose row was inserted.\<close>

fun hand_out :: "(pending_append \<times> (blob_error + payload_ref_wire) option) list \<Rightarrow> seq list \<Rightarrow> reply list" where
  "hand_out [] seqs = []"
| "hand_out ((p, r) # xs) seqs =
     (if blob_failed r then Inl (AppendOther ''blob upload failed; row not inserted'') # hand_out xs seqs
      else case seqs of
        q # qs \<Rightarrow> Inr (Committed q True) # hand_out xs qs
      | [] \<Rightarrow> Inl (AppendOther ''seq vector shorter than row set'') # hand_out xs [])"

fun backend_error_text :: "backend_error \<Rightarrow> string" where
  "backend_error_text DedupeCollision = ''dedupe collision (producer_id + key already exists)''"
| "backend_error_text (Transient m) = ''transient: '' @ m"
| "backend_error_text (Fatal m) = ''fatal: '' @ m"

definition resolve_collision ::
  "(string \<Rightarrow> uuid \<Rightarrow> backend_error + seq option) \<Rightarrow> pending_append \<Rightarrow> reply" where
  "resolve_collision lookup p =
     (case pa_dedupe p of
        None \<Rightarrow> Inl (AppendOther ''dedup collision reported but row has no key'')
      | Some k \<Rightarrow>
          (case lookup (pa_producer p) k of
             Inr (Some q) \<Rightarrow> Inr (AlreadyExists q)
           | Inr None \<Rightarrow> Inl (AppendOther ''dedup collision but no existing seq found'')
           | Inl e \<Rightarrow> Inl (AppendOther (''dedup lookup failed: '' @ backend_error_text e))))"

text \<open>The happy path zips the entries with the seqs: an entry left over gets no reply, which its producer
  sees as a dropped channel.\<close>

definition dropped :: reply where
  "dropped = Inl (LogUnavailable ''writer ack channel dropped'')"

definition zip_seqs :: "pending_append list \<Rightarrow> seq list \<Rightarrow> reply list" where
  "zip_seqs batch seqs =
     map (\<lambda>q. Inr (Committed q True)) (take (length batch) seqs) @ replicate (length batch - length seqs) dropped"

record ('s, 'b) log_writer =
  lw_backend :: 's
  lw_blobs :: 'b
  lw_failed :: bool

definition flush ::
  "('f \<Rightarrow> insert_row list \<Rightarrow> 's \<Rightarrow> (backend_error + seq list) \<times> 's)
     \<Rightarrow> (nat \<Rightarrow> string \<Rightarrow> uuid \<Rightarrow> 's \<Rightarrow> backend_error + seq option) \<Rightarrow> 'b blob_put \<Rightarrow> (nat \<Rightarrow> uuid) \<Rightarrow> (nat \<Rightarrow> 'f)
     \<Rightarrow> pending_append list \<Rightarrow> ('s, 'b) log_writer \<Rightarrow> reply list \<times> ('s, 'b) log_writer" where
  "flush ins lookup put uids faults batch w =
     (if lw_failed w then (map (\<lambda>_. Inl (LogUnavailable ''log writer in failed state'')) batch, w)
      else case claim_payloads put uids 0 (lw_blobs w) batch of
        (refs, blobs) \<Rightarrow>
      (case insert_with_retry ins faults (build_rows (zip batch refs)) 0 (lw_backend w) of
        (result, failed, s) \<Rightarrow>
          let w' = \<lparr> lw_backend = s, lw_blobs = blobs, lw_failed = failed \<rparr> in
          (case result of
             Inr seqs \<Rightarrow>
               if list_ex blob_failed refs then (hand_out (zip batch refs) seqs, w') else (zip_seqs batch seqs, w')
           | Inl DedupeCollision \<Rightarrow>
               (map (\<lambda>(i, p). resolve_collision (\<lambda>pr k. lookup i pr k s) p) (enumerate 0 batch), w')
           | Inl (Transient m) \<Rightarrow> (map (\<lambda>_. Inl (LogUnavailable m)) batch, w')
           | Inl (Fatal m) \<Rightarrow> (map (\<lambda>_. Inl (LogUnavailable m)) batch, w'))))"

end
