(* ===== verification/Event_Writer_Inv.thy ===== *)
theory Event_Writer_Inv
  imports Event_Writer
begin

text \<open>
  The contract of a writer backend as the locale \<open>writer_backend\<close>, what a flush does over any backend
  that keeps it, and its interpretation on the PostgreSQL backend.
\<close>

subsection \<open>The durable log as a whole\<close>

text \<open>The handle in front of the writer: \<open>append\<close> refuses, answers an ephemeral event from its own counter,
  or enqueues; the writer takes batches of at most \<open>BATCH_MAX\<close> entries, as many as its deadline allows.\<close>

definition APPEND_CHANNEL_CAPACITY :: nat where "APPEND_CHANNEL_CAPACITY = 4096"
definition BATCH_MAX :: nat where "BATCH_MAX = 100"

record ('s, 'b) durable_log =
  dl_writer :: "('s, 'b) log_writer"
  dl_queue :: "pending_append list"
  dl_volatile :: seq
  dl_tickets :: nat
  dl_answers :: "(nat \<times> pending_append option \<times> reply) list"

definition new_durable_log :: "'s \<Rightarrow> 'b \<Rightarrow> ('s, 'b) durable_log" where
  "new_durable_log s b =
     \<lparr> dl_writer = \<lparr> lw_backend = s, lw_blobs = b, lw_failed = False \<rparr>, dl_queue = [], dl_volatile = -1,
       dl_tickets = 0, dl_answers = [] \<rparr>"

definition dl_answer :: "pending_append option \<Rightarrow> reply \<Rightarrow> ('s, 'b) durable_log \<Rightarrow> ('s, 'b) durable_log" where
  "dl_answer p r d = d\<lparr> dl_tickets := Suc (dl_tickets d), dl_answers := (dl_tickets d, p, r) # dl_answers d \<rparr>"

definition make_pending :: "nat \<Rightarrow> 'p event \<Rightarrow> byte list \<Rightarrow> append_opts \<Rightarrow> pending_append" where
  "make_pending t ev bs opts =
     (let span = span_or_default (ao_span opts) in
      \<lparr> pa_ticket = t, pa_domain = ev_domain ev, pa_kind = ev_kind ev, pa_bytes = bs,
        pa_inline = (length bs \<le> CLAIM_CHECK_THRESHOLD), pa_ephemeral = False, pa_producer = ao_producer opts,
        pa_dedupe = ao_dedupe opts, pa_depth = uint (ao_depth opts), pa_trace = sp_trace span,
        pa_span = sp_span span, pa_parent = sp_parent span \<rparr>)"

definition handle_append :: "'p bus_env \<Rightarrow> 'p event \<Rightarrow> append_opts \<Rightarrow> ('s, 'b) durable_log \<Rightarrow> ('s, 'b) durable_log" where
  "handle_append env ev opts d =
     (case check_causation opts of
        Inl e \<Rightarrow> dl_answer None (Inl e) d
      | Inr _ \<Rightarrow>
     (case be_to_vec env (ev_payload ev) of
        Inl e \<Rightarrow> dl_answer None (Inl (SerializeError e)) d
      | Inr bs \<Rightarrow>
          if ao_ephemeral opts then
            dl_answer None (Inr (Volatile (dl_volatile d))) (d\<lparr> dl_volatile := wrap_i64 (dl_volatile d - 1) \<rparr>)
          else if ao_producer opts = [] then
            dl_answer None (Inl (AppendOther ''producer_id must not be empty'')) d
          else let p = make_pending (dl_tickets d) ev bs opts in
            if length (dl_queue d) \<ge> APPEND_CHANNEL_CAPACITY then dl_answer (Some p) (Inl Backpressure) d
            else d\<lparr> dl_queue := dl_queue d @ [p], dl_tickets := Suc (dl_tickets d) \<rparr>))"

definition writer_round ::
  "('f \<Rightarrow> insert_row list \<Rightarrow> 's \<Rightarrow> (backend_error + seq list) \<times> 's)
     \<Rightarrow> (nat \<Rightarrow> string \<Rightarrow> uuid \<Rightarrow> 's \<Rightarrow> backend_error + seq option) \<Rightarrow> 'b blob_put \<Rightarrow> (nat \<Rightarrow> uuid) \<Rightarrow> (nat \<Rightarrow> 'f)
     \<Rightarrow> nat \<Rightarrow> ('s, 'b) durable_log \<Rightarrow> ('s, 'b) durable_log" where
  "writer_round ins lookup put uids faults n d =
     (let batch = take n (dl_queue d) in
      case flush ins lookup put uids faults batch (dl_writer d) of
        (replies, w) \<Rightarrow>
          d\<lparr> dl_writer := w, dl_queue := drop n (dl_queue d),
             dl_answers := map (\<lambda>(p, r). (pa_ticket p, Some p, r)) (zip batch replies) @ dl_answers d \<rparr>)"

inductive durable_reach ::
  "'p bus_env \<Rightarrow> ('f \<Rightarrow> insert_row list \<Rightarrow> 's \<Rightarrow> (backend_error + seq list) \<times> 's)
     \<Rightarrow> ('g \<Rightarrow> string \<Rightarrow> uuid \<Rightarrow> 's \<Rightarrow> backend_error + seq option) \<Rightarrow> 'b blob_put \<Rightarrow> 's \<Rightarrow> 'b
     \<Rightarrow> ('s, 'b) durable_log \<Rightarrow> bool"
  for env :: "'p bus_env" and ins :: "'f \<Rightarrow> insert_row list \<Rightarrow> 's \<Rightarrow> (backend_error + seq list) \<times> 's"
    and lookup :: "'g \<Rightarrow> string \<Rightarrow> uuid \<Rightarrow> 's \<Rightarrow> backend_error + seq option" and put :: "'b blob_put" and s0 :: 's
    and b0 :: 'b where
  DurStart: "durable_reach env ins lookup put s0 b0 (new_durable_log s0 b0)"
| DurAppend: "durable_reach env ins lookup put s0 b0 d \<Longrightarrow> durable_reach env ins lookup put s0 b0 (handle_append env ev opts d)"
| DurFlush: "durable_reach env ins lookup put s0 b0 d \<Longrightarrow> 0 < n \<Longrightarrow> n \<le> BATCH_MAX \<Longrightarrow> n \<le> length (dl_queue d) \<Longrightarrow>
    durable_reach env ins lookup put s0 b0 (writer_round ins (\<lambda>i. lookup (lfaults i)) put uids faults n d)"

subsection \<open>What a reply says\<close>

definition entry_row :: "pending_append \<Rightarrow> insert_row \<Rightarrow> bool" where
  "entry_row p r \<longleftrightarrow> (\<exists>w. r = to_insert_row p (if pa_inline p then Some (pa_bytes p) else None) w) \<and>
     (pa_inline p \<longrightarrow> ir_ref r = None)"

definition same_key :: "pending_append \<Rightarrow> insert_row \<Rightarrow> bool" where
  "same_key p r \<longleftrightarrow> pa_dedupe p \<noteq> None \<and> ir_dedupe r = pa_dedupe p \<and> ir_producer r = pa_producer p"

fun reply_ok :: "(seq \<Rightarrow> insert_row \<Rightarrow> bool) \<Rightarrow> pending_append \<Rightarrow> reply \<Rightarrow> bool" where
  "reply_ok holds p (Inr (Committed q durable)) = (durable \<and> (\<exists>r. holds q r \<and> entry_row p r))"
| "reply_ok holds p (Inr (AlreadyExists q)) = (\<exists>r. holds q r \<and> same_key p r)"
| "reply_ok holds p (Inr (Volatile q)) = False"
| "reply_ok holds p (Inl e) = True"

lemma reply_ok_mono: "reply_ok h p r \<Longrightarrow> (\<And>q x. h q x \<Longrightarrow> h' q x) \<Longrightarrow> reply_ok h' p r"
  by (cases "(h, p, r)" rule: reply_ok.cases) auto

lemma entry_row_key: "entry_row p r \<Longrightarrow> ir_dedupe r = pa_dedupe p \<and> ir_producer r = pa_producer p"
  by (auto simp: entry_row_def to_insert_row_def)

subsection \<open>Claim check and fan-out\<close>

lemma claim_length: "claim_payloads put uids i b ps = (rs, b') \<Longrightarrow> length rs = length ps"
  by (induction ps arbitrary: i b rs b') (auto split: if_splits prod.splits sum.splits)

lemma claim_shape:
  "claim_payloads put uids i b ps = (rs, b') \<Longrightarrow> list_all2 (\<lambda>p r. (r = None) = pa_inline p) ps rs"
  by (induction ps arbitrary: i b rs b') (auto split: if_splits prod.splits sum.splits)

lemma hand_out_length [simp]: "length (hand_out xs qs) = length xs"
  by (induction xs qs rule: hand_out.induct) (auto split: list.split)

lemma zip_seqs_length [simp]: "length (zip_seqs batch qs) = length batch"
  by (simp add: zip_seqs_def)

lemma build_rows_entry:
  "list_all2 (\<lambda>p r. (r = None) = pa_inline p) ps rs \<Longrightarrow> \<not> list_ex blob_failed rs \<Longrightarrow>
     list_all2 entry_row ps (build_rows (zip ps rs))"
  by (induction ps rs rule: list_all2_induct)
    (auto simp: entry_row_def to_insert_row_def blob_failed_def split: option.splits sum.splits)

lemma hand_out_ok:
  assumes "list_all2 (\<lambda>p r. (r = None) = pa_inline p) ps rs" "list_all2 h qs (build_rows (zip ps rs))"
  shows "list_all2 (reply_ok h) ps (hand_out (zip ps rs) qs)"
  using assms
proof (induction ps rs arbitrary: qs rule: list_all2_induct)
  case (Cons p ps r rs)
  show ?case
  proof (cases "blob_failed r")
    case True
    with Cons show ?thesis by simp
  next
    case False
    then obtain x where x: "build_rows (zip (p # ps) (r # rs)) = x # build_rows (zip ps rs)" "entry_row p x"
      using Cons(1) by (auto simp: blob_failed_def entry_row_def to_insert_row_def split: option.splits sum.splits)
    then obtain q qs' where "qs = q # qs'" "h q x" "list_all2 h qs' (build_rows (zip ps rs))"
      using Cons(4) by (auto simp: list_all2_Cons2)
    with False x(2) Cons(3) show ?thesis by auto
  qed
qed simp

lemma zip_seqs_ok:
  assumes "list_all2 h qs rows" "list_all2 entry_row ps rows"
  shows "list_all2 (reply_ok h) ps (zip_seqs ps qs)"
proof -
  have len: "length qs = length ps" using assms by (simp add: list_all2_lengthD)
  then have z: "zip_seqs ps qs = map (\<lambda>q. Inr (Committed q True)) qs" by (simp add: zip_seqs_def)
  have "reply_ok h (ps ! i) (Inr (Committed (qs ! i) True))" if "i < length ps" for i
  proof -
    have "h (qs ! i) (rows ! i)" "entry_row (ps ! i) (rows ! i)"
      using assms that len by (simp_all add: list_all2_conv_all_nth)
    then show ?thesis by auto
  qed
  then show ?thesis unfolding z using len by (simp add: list_all2_conv_all_nth)
qed

lemma flush_length:
  assumes "flush ins lookup put uids faults batch w = (rs, w')"
  shows "length rs = length batch"
proof -
  obtain refs blobs where c: "claim_payloads put uids 0 (lw_blobs w) batch = (refs, blobs)" by fastforce
  obtain x failed s where i: "insert_with_retry ins faults (build_rows (zip batch refs)) 0 (lw_backend w) = (x, failed, s)"
    by (metis prod_cases3)
  show ?thesis using assms c i claim_length[OF c]
    by (cases "lw_failed w"; cases x) (auto simp: flush_def Let_def split: if_splits backend_error.splits)
qed

lemma flush_failed: "lw_failed w \<Longrightarrow>
    flush ins lookup put uids faults batch w = (map (\<lambda>_. Inl (LogUnavailable ''log writer in failed state'')) batch, w)"
  by (simp add: flush_def)

text \<open>Every request is waiting in the queue or answered, and only once.\<close>

definition tickets_once :: "('s, 'b) durable_log \<Rightarrow> bool" where
  "tickets_once d \<longleftrightarrow> distinct (map fst (dl_answers d) @ map pa_ticket (dl_queue d)) \<and>
     set (map fst (dl_answers d) @ map pa_ticket (dl_queue d)) = {..<dl_tickets d}"

definition answers_true :: "(seq \<Rightarrow> insert_row \<Rightarrow> bool) \<Rightarrow> ('s, 'b) durable_log \<Rightarrow> bool" where
  "answers_true h d \<longleftrightarrow> (\<forall>t p r. (t, p, r) \<in> set (dl_answers d) \<longrightarrow>
     (case p of Some e \<Rightarrow> pa_ticket e = t \<and> reply_ok h e r | None \<Rightarrow> \<forall>q. r \<noteq> Inr (Committed q True) \<and> r \<noteq> Inr (AlreadyExists q)))"

lemma dl_answer_sel [simp]:
  "dl_writer (dl_answer p r d) = dl_writer d" "dl_queue (dl_answer p r d) = dl_queue d"
  "dl_tickets (dl_answer p r d) = Suc (dl_tickets d)" "dl_answers (dl_answer p r d) = (dl_tickets d, p, r) # dl_answers d"
  by (simp_all add: dl_answer_def)

lemma answer_once: "tickets_once d \<Longrightarrow> tickets_once (dl_answer p r d)"
  by (auto simp: tickets_once_def lessThan_Suc)

lemma answer_true:
  "answers_true h d \<Longrightarrow> (case p of Some e \<Rightarrow> pa_ticket e = dl_tickets d \<and> reply_ok h e r
     | None \<Rightarrow> \<forall>q. r \<noteq> Inr (Committed q True) \<and> r \<noteq> Inr (AlreadyExists q)) \<Longrightarrow> answers_true h (dl_answer p r d)"
  by (auto simp: answers_true_def split: option.splits)

lemma volatile_same:
  "tickets_once (d\<lparr> dl_volatile := v \<rparr>) = tickets_once d" "answers_true h (d\<lparr> dl_volatile := v \<rparr>) = answers_true h d"
  by (simp_all add: tickets_once_def answers_true_def)

lemma make_pending_ticket [simp]: "pa_ticket (make_pending t ev bs opts) = t"
  by (simp add: make_pending_def Let_def)

text \<open>What \<open>append\<close> does is one of three things.\<close>

lemma handle_append_cases:
  obtains r where "handle_append env ev opts d = dl_answer None (Inl r) d"
  | "handle_append env ev opts d = dl_answer None (Inr (Volatile (dl_volatile d))) (d\<lparr> dl_volatile := wrap_i64 (dl_volatile d - 1) \<rparr>)"
  | p where "pa_ticket p = dl_tickets d" "length (dl_queue d) \<ge> APPEND_CHANNEL_CAPACITY"
      "handle_append env ev opts d = dl_answer (Some p) (Inl Backpressure) d"
  | p where "pa_ticket p = dl_tickets d" "length (dl_queue d) < APPEND_CHANNEL_CAPACITY"
      "handle_append env ev opts d = d\<lparr> dl_queue := dl_queue d @ [p], dl_tickets := Suc (dl_tickets d) \<rparr>"
proof (cases "check_causation opts")
  case (Inl e)
  then show ?thesis by (intro that(1)) (simp add: handle_append_def)
next
  case c: (Inr u)
  show ?thesis
  proof (cases "be_to_vec env (ev_payload ev)")
    case (Inl e)
    then show ?thesis by (intro that(1)) (simp add: handle_append_def c)
  next
    case (Inr bs)
    consider "ao_ephemeral opts" | "\<not> ao_ephemeral opts" "ao_producer opts = []"
      | "\<not> ao_ephemeral opts" "ao_producer opts \<noteq> []" "length (dl_queue d) \<ge> APPEND_CHANNEL_CAPACITY"
      | "\<not> ao_ephemeral opts" "ao_producer opts \<noteq> []" "length (dl_queue d) < APPEND_CHANNEL_CAPACITY"
      using linorder_not_le by blast
    then show ?thesis
    proof cases
      case 1 then show ?thesis by (intro that(2)) (simp add: handle_append_def c Inr)
    next
      case 2 then show ?thesis by (intro that(1)) (simp add: handle_append_def c Inr)
    next
      case 3 then show ?thesis
        by (intro that(3)[of "make_pending (dl_tickets d) ev bs opts"]) (simp_all add: handle_append_def c Inr Let_def)
    next
      case 4 then show ?thesis
        by (intro that(4)[of "make_pending (dl_tickets d) ev bs opts"]) (simp_all add: handle_append_def c Inr Let_def)
    qed
  qed
qed

lemma enqueue_same:
  "pa_ticket p = dl_tickets d \<Longrightarrow> tickets_once d \<Longrightarrow>
     tickets_once (d\<lparr> dl_queue := dl_queue d @ [p], dl_tickets := Suc (dl_tickets d) \<rparr>)"
  "answers_true h (d\<lparr> dl_queue := dl_queue d @ [p], dl_tickets := Suc (dl_tickets d) \<rparr>) = answers_true h d"
  by (auto simp: tickets_once_def answers_true_def lessThan_Suc)

lemma answers_true_mono:
  assumes a: "answers_true h d" and m: "\<And>q r. h q r \<Longrightarrow> h' q r" shows "answers_true h' d"
  unfolding answers_true_def
proof (intro allI impI)
  fix t p r assume "(t, p, r) \<in> set (dl_answers d)"
  then have "case p of Some e \<Rightarrow> pa_ticket e = t \<and> reply_ok h e r
      | None \<Rightarrow> \<forall>q. r \<noteq> Inr (Committed q True) \<and> r \<noteq> Inr (AlreadyExists q)"
    using a[unfolded answers_true_def] by blast
  then show "case p of Some e \<Rightarrow> pa_ticket e = t \<and> reply_ok h' e r
      | None \<Rightarrow> \<forall>q. r \<noteq> Inr (Committed q True) \<and> r \<noteq> Inr (AlreadyExists q)"
    using reply_ok_mono[of h _ r h', OF _ m] by (cases p) auto
qed

subsection \<open>The contract of a backend\<close>

text \<open>\<open>holds s q r\<close>: the log in state \<open>s\<close> has a row with the number \<open>q\<close> that was inserted as \<open>r\<close>.\<close>

locale writer_backend =
  fixes ok :: "'s \<Rightarrow> bool"
    and holds :: "'s \<Rightarrow> seq \<Rightarrow> insert_row \<Rightarrow> bool"
    and ins :: "'f \<Rightarrow> insert_row list \<Rightarrow> 's \<Rightarrow> (backend_error + seq list) \<times> 's"
    and lookup :: "'g \<Rightarrow> string \<Rightarrow> uuid \<Rightarrow> 's \<Rightarrow> backend_error + seq option"
  assumes insert_ok: "ok s \<Longrightarrow> ins f rows s = (x, s') \<Longrightarrow> ok s'"
    and insert_keeps: "ok s \<Longrightarrow> ins f rows s = (x, s') \<Longrightarrow> holds s q r \<Longrightarrow> holds s' q r"
    and insert_holds: "ok s \<Longrightarrow> ins f rows s = (Inr qs, s') \<Longrightarrow> list_all2 (holds s') qs rows"
    and insert_ascending: "ok s \<Longrightarrow> ins f rows s = (Inr qs, s') \<Longrightarrow> sorted_wrt (<) qs"
    and insert_above: "ok s \<Longrightarrow> ins f rows s = (Inr qs, s') \<Longrightarrow> q \<in> set qs \<Longrightarrow> holds s q' r \<Longrightarrow> q' < q"
    and collision_unchanged: "ok s \<Longrightarrow> ins f rows s = (Inl DedupeCollision, s') \<Longrightarrow> holds s' q r \<longleftrightarrow> holds s q r"
    and lookup_Some: "ok s \<Longrightarrow> lookup g p k s = Inr (Some q) \<Longrightarrow>
      \<exists>r. holds s q r \<and> ir_producer r = p \<and> ir_dedupe r = Some k"
    and key_unique: "ok s \<Longrightarrow> holds s q r \<Longrightarrow> holds s q' r' \<Longrightarrow> ir_dedupe r = Some k \<Longrightarrow> ir_dedupe r' = Some k \<Longrightarrow>
      ir_producer r = ir_producer r' \<Longrightarrow> q = q'"
begin

lemma retry_step:
  assumes "ok s" "insert_with_retry ins faults rows a s = (x, failed, s')"
  shows "ok s' \<and> (\<forall>q r. holds s q r \<longrightarrow> holds s' q r) \<and>
    (\<forall>qs. x = Inr qs \<longrightarrow> list_all2 (holds s') qs rows \<and> sorted_wrt (<) qs)"
  using assms
proof (induction "FAILED_STATE_RETRY_CAP - a" arbitrary: a s rule: less_induct)
  case less
  show ?case
  proof (cases "rows = []")
    case True
    with less.prems show ?thesis by (auto simp: insert_with_retry.simps)
  next
    case ne: False
    obtain y s1 where i: "ins (faults a) rows s = (y, s1)" by fastforce
    have k: "ok s1" "\<And>q r. holds s q r \<Longrightarrow> holds s1 q r"
      using insert_ok[OF less.prems(1) i] insert_keeps[OF less.prems(1) i] by auto
    show ?thesis
    proof (cases "\<exists>m. y = Inl (Transient m) \<and> Suc a < FAILED_STATE_RETRY_CAP")
      case True
      then obtain m where y: "y = Inl (Transient m)" and a: "Suc a < FAILED_STATE_RETRY_CAP" by auto
      have "insert_with_retry ins faults rows (Suc a) s1 = (x, failed, s')"
        using less.prems(2) ne i y a by (subst (asm) insert_with_retry.simps) simp
      moreover have "FAILED_STATE_RETRY_CAP - Suc a < FAILED_STATE_RETRY_CAP - a" using a by simp
      ultimately show ?thesis using less.hyps[of "Suc a" s1] k by blast
    next
      case False
      then have r: "s' = s1 \<and> (\<forall>qs. x = Inr qs \<longrightarrow> y = Inr qs)"
        using less.prems(2) ne i
        by (subst (asm) insert_with_retry.simps) (auto split: sum.splits backend_error.splits if_splits)
      have "list_all2 (holds s') qs rows \<and> sorted_wrt (<) qs" if "x = Inr qs" for qs
      proof -
        have "y = Inr qs" "s' = s1" using r that by auto
        then show ?thesis using insert_holds[OF less.prems(1)] insert_ascending[OF less.prems(1)] i by auto
      qed
      with r k show ?thesis by auto
    qed
  qed
qed

lemma collision_reply:
  assumes "ok s"
  shows "list_all2 (reply_ok (holds s)) batch
    (map (\<lambda>(i, p). resolve_collision (\<lambda>pr k. lookup (lf i) pr k s) p) (enumerate n batch))"
proof -
  have "reply_ok (holds s) p (resolve_collision (\<lambda>pr k. lookup (lf i) pr k s) p)" for i p
  proof (cases "pa_dedupe p")
    case None
    then show ?thesis by (simp add: resolve_collision_def)
  next
    case (Some k)
    show ?thesis
    proof (cases "lookup (lf i) (pa_producer p) k s")
      case (Inr x)
      with lookup_Some[OF assms, of "lf i" "pa_producer p" k] Some show ?thesis
        by (cases x) (auto simp: resolve_collision_def same_key_def)
    qed (use Some in \<open>simp add: resolve_collision_def\<close>)
  qed
  then show ?thesis by (simp add: list_all2_conv_all_nth nth_enumerate_eq)
qed

lemma flush_ok:
  assumes o: "ok (lw_backend w)" and f: "flush ins (\<lambda>i. lookup (lf i)) put uids faults batch w = (rs, w')"
  shows "ok (lw_backend w')" "holds (lw_backend w) q r \<Longrightarrow> holds (lw_backend w') q r"
    "list_all2 (reply_ok (holds (lw_backend w'))) batch rs"
proof -
  obtain refs blobs where c: "claim_payloads put uids 0 (lw_blobs w) batch = (refs, blobs)" by fastforce
  obtain x failed s where i: "insert_with_retry ins faults (build_rows (zip batch refs)) 0 (lw_backend w) = (x, failed, s)"
    by (metis prod_cases3)
  note st = retry_step[OF o i]
  have sh: "list_all2 (\<lambda>p r. (r = None) = pa_inline p) batch refs" by (rule claim_shape[OF c])
  have all: "list_all2 (reply_ok h) batch (map (\<lambda>_. Inl e) batch)" for h e
    by (simp add: list_all2_conv_all_nth)
  have "ok (lw_backend w') \<and> (\<forall>q r. holds (lw_backend w) q r \<longrightarrow> holds (lw_backend w') q r) \<and>
    list_all2 (reply_ok (holds (lw_backend w'))) batch rs"
  proof (cases "lw_failed w")
    case True
    with f o all show ?thesis by (auto simp: flush_def)
  next
    case nf: False
    show ?thesis
    proof (cases x)
      case (Inr qs)
      have rows: "list_all2 (holds s) qs (build_rows (zip batch refs))" using st Inr by blast
      have "rs = (if list_ex blob_failed refs then hand_out (zip batch refs) qs else zip_seqs batch qs) \<and> lw_backend w' = s"
        using f nf c i Inr by (auto simp: flush_def)
      with st hand_out_ok[OF sh rows] zip_seqs_ok[OF rows build_rows_entry[OF sh]] show ?thesis by auto
    next
      case (Inl e)
      have "(rs = map (\<lambda>(i, p). resolve_collision (\<lambda>pr k. lookup (lf i) pr k s) p) (enumerate 0 batch) \<or>
        (\<exists>m. rs = map (\<lambda>_. Inl (LogUnavailable m)) batch)) \<and> lw_backend w' = s"
        using f nf c i Inl by (cases e) (auto simp: flush_def)
      with st collision_reply[of s batch lf 0] all show ?thesis by auto
    qed
  qed
  then show "ok (lw_backend w')" "holds (lw_backend w) q r \<Longrightarrow> holds (lw_backend w') q r"
    "list_all2 (reply_ok (holds (lw_backend w'))) batch rs" by auto
qed

definition dur_ok :: "('s, 'b) durable_log \<Rightarrow> bool" where
  "dur_ok d \<longleftrightarrow> ok (lw_backend (dl_writer d)) \<and> answers_true (holds (lw_backend (dl_writer d))) d \<and>
     tickets_once d \<and> length (dl_queue d) \<le> APPEND_CHANNEL_CAPACITY"

lemma append_dur_ok: "dur_ok d \<Longrightarrow> dur_ok (handle_append env ev opts d)"
  by (cases rule: handle_append_cases[of env ev opts d])
    (auto simp: dur_ok_def volatile_same enqueue_same intro!: answer_once answer_true)

lemma round_dur_ok:
  assumes d: "dur_ok d"
  shows "dur_ok (writer_round ins (\<lambda>i. lookup (lf i)) put uids faults n d)"
proof -
  define batch where "batch = take n (dl_queue d)"
  obtain rs w where f: "flush ins (\<lambda>i. lookup (lf i)) put uids faults batch (dl_writer d) = (rs, w)" by fastforce
  have len: "length rs = length batch" by (rule flush_length[OF f])
  have o: "ok (lw_backend (dl_writer d))" using d by (simp add: dur_ok_def)
  note fl = flush_ok[OF o f]
  let ?new = "map (\<lambda>(p, r). (pa_ticket p, Some p, r)) (zip batch rs)"
  let ?d = "d\<lparr> dl_writer := w, dl_queue := drop n (dl_queue d), dl_answers := ?new @ dl_answers d \<rparr>"
  have eq: "writer_round ins (\<lambda>i. lookup (lf i)) put uids faults n d = ?d"
    using f by (simp add: writer_round_def batch_def Let_def)
  have fst_new: "map fst ?new = map pa_ticket batch" using len
    by (simp add: list_eq_iff_nth_eq)
  have q: "dl_queue d = batch @ drop n (dl_queue d)" by (simp add: batch_def)
  have t: "tickets_once ?d"
  proof -
    have m: "map pa_ticket (dl_queue d) = map pa_ticket batch @ map pa_ticket (drop n (dl_queue d))"
      using q by (metis map_append)
    have td: "tickets_once d" using d by (simp add: dur_ok_def)
    have f1: "map fst (dl_answers ?d) = map pa_ticket batch @ map fst (dl_answers d)"
      using fst_new by (simp del: map_map)
    have f2: "map pa_ticket (dl_queue ?d) = map pa_ticket (drop n (dl_queue d))" "dl_tickets ?d = dl_tickets d" by simp_all
    show ?thesis using td unfolding tickets_once_def m f1 f2 distinct_append set_append by blast
  qed
  have old: "answers_true (holds (lw_backend w)) d"
    by (rule answers_true_mono[of "holds (lw_backend (dl_writer d))"]) (use d fl(2) in \<open>auto simp: dur_ok_def\<close>)
  have new: "case p of Some e \<Rightarrow> pa_ticket e = t \<and> reply_ok (holds (lw_backend w)) e r
      | None \<Rightarrow> \<forall>q. r \<noteq> Inr (Committed q True) \<and> r \<noteq> Inr (AlreadyExists q)" if "(t, p, r) \<in> set ?new" for t p r
  proof -
    from that obtain e where e: "(e, r) \<in> set (zip batch rs)" "t = pa_ticket e" "p = Some e" by auto
    moreover have "reply_ok (holds (lw_backend w)) e r"
      using fl(3) e(1) unfolding list_all2_iff by blast
    ultimately show ?thesis by simp
  qed
  have "set (dl_answers ?d) = set ?new \<union> set (dl_answers d)" by simp
  then have "answers_true (holds (lw_backend w)) ?d"
    using new old[unfolded answers_true_def] unfolding answers_true_def by blast
  with t fl(1) d show ?thesis unfolding eq dur_ok_def by auto
qed

lemma reach_dur_ok:
  assumes "durable_reach env ins lookup put s0 b0 d" "ok s0"
  shows "dur_ok d"
  using assms
proof (induction rule: durable_reach.induct)
  case DurStart
  then show ?case
    by (simp add: dur_ok_def new_durable_log_def answers_true_def tickets_once_def)
next
  case (DurAppend d ev opts)
  then show ?case using append_dur_ok by blast
next
  case (DurFlush d n lfaults uids faults)
  then show ?case using round_dur_ok by blast
qed

text \<open>A key stands for one row, so all the answers about it name the same number.\<close>

lemma reach_one_seq:
  assumes r: "durable_reach env ins lookup put s0 b0 d" "ok s0"
    and 1: "(t, Some p, Inr a) \<in> set (dl_answers d)" and 2: "(t', Some p', Inr a') \<in> set (dl_answers d)"
    and k: "pa_dedupe p = Some k" "pa_dedupe p' = Some k" "pa_producer p = pa_producer p'"
  shows "ack_seq a = ack_seq a'"
proof -
  let ?h = "holds (lw_backend (dl_writer d))"
  have inv: "ok (lw_backend (dl_writer d))" "answers_true ?h d" using reach_dur_ok[OF r] by (auto simp: dur_ok_def)
  have keyed: "\<exists>x. ?h (ack_seq b) x \<and> ir_dedupe x = Some k \<and> ir_producer x = pa_producer e"
    if "(u, Some e, Inr b) \<in> set (dl_answers d)" "pa_dedupe e = Some k" for u e b
  proof -
    have "reply_ok ?h e (Inr b)" using inv(2) that(1) by (force simp: answers_true_def)
    then obtain x where "?h (ack_seq b) x" "entry_row e x \<or> same_key e x" by (cases b) auto
    with that(2) entry_row_key[of e x] show ?thesis by (auto simp: same_key_def)
  qed
  from keyed[OF 1 k(1)] keyed[OF 2 k(2)] key_unique[OF inv(1)] k(3) show ?thesis by metis
qed

end

end
