(* ===== verification/Event_Pg.thy ===== *)
theory Event_Pg
  imports Event_Writer_Inv
begin

text \<open>
  The table \<open>event_log\<close> under the writer: its invariant, the PostgreSQL backend as a \<open>writer_backend\<close>,
  and the reader (\<open>log/reader.rs\<close>) as a \<open>readable_log\<close>.
\<close>

subsection \<open>The table\<close>

definition inserted :: "'p bus_env \<Rightarrow> insert_row \<Rightarrow> 'p stored_row \<Rightarrow> bool" where
  "inserted env r x \<longleftrightarrow> (\<exists>inline. parse_inline env r = Inr inline \<and> x = table_row (sr_ts x) (sr_seq x) inline r)"

definition pg_holds :: "'p bus_env \<Rightarrow> 'p pg_table \<Rightarrow> seq \<Rightarrow> insert_row \<Rightarrow> bool" where
  "pg_holds env t q r \<longleftrightarrow> (\<exists>x \<in> set (pt_rows t). sr_seq x = q \<and> inserted env r x)"

definition keys_once :: "'p stored_row list \<Rightarrow> bool" where
  "keys_once rows \<longleftrightarrow> (\<forall>x \<in> set rows. \<forall>y \<in> set rows. row_key x \<noteq> None \<longrightarrow> row_key x = row_key y \<longrightarrow> x = y)"

definition table_ok :: "'p bus_env \<Rightarrow> 'p stored_row list \<Rightarrow> seq \<Rightarrow> bool" where
  "table_ok env rows q \<longleftrightarrow> 0 < q \<and> sorted_wrt (<) (map sr_seq rows) \<and> keys_once rows \<and>
     (\<forall>x \<in> set rows. 0 < sr_seq x \<and> sr_seq x < q \<and> (\<exists>r. inserted env r x))"

definition pg_ok :: "'p bus_env \<Rightarrow> 'p pg_table \<Rightarrow> bool" where
  "pg_ok env t \<longleftrightarrow> table_ok env (pt_rows t) (pt_next t)"

definition empty_table :: "'p pg_table" where
  "empty_table = \<lparr> pt_rows = [], pt_next = 1 \<rparr>"

lemma empty_ok: "pg_ok env empty_table"
  by (simp add: pg_ok_def table_ok_def empty_table_def keys_once_def)

lemma table_ok_next: "table_ok env rows q \<Longrightarrow> q \<le> q' \<Longrightarrow> table_ok env rows q'"
  by (fastforce simp: table_ok_def)

lemma inserted_row: "parse_inline env r = Inr inline \<Longrightarrow> inserted env r (table_row now q inline r)"
  by (simp add: inserted_def table_row_def)

lemma inserted_key: "inserted env r x \<Longrightarrow> sr_producer x = ir_producer r \<and> sr_dedupe x = ir_dedupe r"
proof -
  assume "inserted env r x"
  then obtain inline where x: "x = table_row (sr_ts x) (sr_seq x) inline r" by (auto simp: inserted_def)
  have "sr_producer (table_row a b inline r) = ir_producer r \<and> sr_dedupe (table_row a b inline r) = ir_dedupe r" for a b
    by (simp add: table_row_def)
  with x show ?thesis by metis
qed

lemma key_not_taken: "\<not> key_taken rows r \<Longrightarrow> x \<in> set rows \<Longrightarrow> ir_dedupe r = Some k \<Longrightarrow>
    row_key x \<noteq> Some (ir_producer r, k)"
  by (auto simp: key_taken_def list_ex_iff row_key_def)

lemma table_ok_snoc:
  assumes "table_ok env rows q" "\<not> key_taken rows r" "parse_inline env r = Inr inline"
  shows "table_ok env (rows @ [table_row now q inline r]) (q + 1)"
proof -
  let ?x = "table_row now q inline r"
  have k: "row_key ?x = map_option (Pair (ir_producer r)) (ir_dedupe r)" "sr_seq ?x = q"
    by (simp_all add: table_row_def row_key_def)
  have "row_key y \<noteq> row_key ?x" if "y \<in> set rows" "row_key ?x \<noteq> None" for y
    using key_not_taken[OF assms(2) that(1)] that(2) by (cases "ir_dedupe r") (auto simp: k)
  then have "keys_once (rows @ [?x])" using assms(1) unfolding table_ok_def keys_once_def
    by auto
  with assms(1) inserted_row[OF assms(3)] show ?thesis
    by (fastforce simp: table_ok_def sorted_wrt_append k(2))
qed

lemma insert_rows_ok:
  assumes "insert_rows env now fault i committed q staged rs = (x, q')" "table_ok env (committed @ staged) q"
  shows "q \<le> q'" "x = Inr out \<Longrightarrow> \<exists>new. out = staged @ new \<and> table_ok env (committed @ out) q' \<and>
    list_all2 (\<lambda>y r. inserted env r y \<and> q \<le> sr_seq y) new rs"
proof -
  have "q \<le> q' \<and> (\<forall>out. x = Inr out \<longrightarrow> (\<exists>new. out = staged @ new \<and> table_ok env (committed @ out) q' \<and>
    list_all2 (\<lambda>y r. inserted env r y \<and> q \<le> sr_seq y) new rs))"
    using assms
  proof (induction rs arbitrary: i q staged)
    case Nil
    then show ?case by auto
  next
    case (Cons r rs)
    show ?case
    proof (cases "(\<exists>inline. parse_inline env r = Inr inline) \<and> (\<forall>e. fault \<noteq> Some (i, e)) \<and> \<not> key_taken (committed @ staged) r")
      case True
      then obtain inline where p: "parse_inline env r = Inr inline" by auto
      let ?x = "table_row now q inline r"
      have step: "insert_rows env now fault (Suc i) committed (q + 1) (staged @ [?x]) rs = (x, q')"
        using Cons.prems(1) p True by (auto split: option.splits prod.splits if_splits)
      have "table_ok env (committed @ staged @ [?x]) (q + 1)"
        using table_ok_snoc[OF Cons.prems(2) _ p] True by simp
      from Cons.IH[OF step] this have ih: "q + 1 \<le> q'"
        "\<And>out. x = Inr out \<Longrightarrow> \<exists>new. out = (staged @ [?x]) @ new \<and> table_ok env (committed @ out) q' \<and>
          list_all2 (\<lambda>y r. inserted env r y \<and> q + 1 \<le> sr_seq y) new rs" by auto
      have "\<exists>new. out = staged @ new \<and> table_ok env (committed @ out) q' \<and>
          list_all2 (\<lambda>y r. inserted env r y \<and> q \<le> sr_seq y) new (r # rs)" if out: "x = Inr out" for out
      proof -
        obtain new where n: "out = (staged @ [?x]) @ new" "table_ok env (committed @ out) q'"
          "list_all2 (\<lambda>y r. inserted env r y \<and> q + 1 \<le> sr_seq y) new rs" using ih(2)[OF out] by blast
        have "list_all2 (\<lambda>y r. inserted env r y \<and> q \<le> sr_seq y) new rs"
          using n(3) by (rule list_all2_mono) auto
        moreover have "inserted env r ?x \<and> q \<le> sr_seq ?x" using inserted_row[OF p] by (simp add: table_row_def)
        ultimately show ?thesis using n(1,2) by (intro exI[of _ "?x # new"]) simp
      qed
      with ih(1) show ?thesis by auto
    next
      case False
      then have "(\<exists>e. x = Inl e) \<and> q \<le> q'"
        using Cons.prems(1) by (auto split: sum.splits option.splits prod.splits if_splits)
      then show ?thesis by auto
    qed
  qed
  then show "q \<le> q'" "x = Inr out \<Longrightarrow> \<exists>new. out = staged @ new \<and> table_ok env (committed @ out) q' \<and>
    list_all2 (\<lambda>y r. inserted env r y \<and> q \<le> sr_seq y) new rs" by auto
qed

subsection \<open>The backend keeps the writer's contract\<close>

lemma pg_insert_shape:
  assumes t: "pg_ok env t" and i: "pg_insert_batch env now f rows t = (x, t')"
  obtains "pt_rows t' = pt_rows t" "pt_next t \<le> pt_next t'" "\<And>qs. x \<noteq> Inr qs"
  | new where "pt_rows t' = pt_rows t @ new" "table_ok env (pt_rows t @ new) (pt_next t')"
      "list_all2 (\<lambda>y r. inserted env r y \<and> pt_next t \<le> sr_seq y) new rows"
      "x = Inr (map sr_seq new) \<or> (\<exists>e. x = Inl (map_sqlx e))"
proof (cases "\<exists>e. f = FaultBegin e")
  case True
  then show ?thesis using i by (intro that(1)) (auto simp: pg_insert_batch_def)
next
  case nb: False
  obtain y q where y: "insert_rows env now (case f of FaultRow i e \<Rightarrow> Some (i, e) | _ \<Rightarrow> None) 0 (pt_rows t) (pt_next t) [] rows = (y, q)"
    by fastforce
  note ir = insert_rows_ok[OF y] t[unfolded pg_ok_def]
  show ?thesis
  proof (cases "(\<exists>e. y = Inl e) \<or> (\<exists>e. f = FaultCommit e False)")
    case True
    then have "pt_rows t' = pt_rows t \<and> pt_next t' = q \<and> (\<exists>e. x = Inl e)"
      using i y nb by (auto simp: pg_insert_batch_def split: db_fault.splits sum.splits bool.splits)
    then show ?thesis using ir by (intro that(1)) auto
  next
    case False
    then obtain staged where st: "y = Inr staged" by (cases y) auto
    have "pt_rows t' = pt_rows t @ staged \<and> pt_next t' = q \<and> (x = Inr (map sr_seq staged) \<or> (\<exists>e. x = Inl (map_sqlx e)))"
      using i y nb False st by (auto simp: pg_insert_batch_def split: db_fault.splits bool.splits)
    moreover obtain new where "staged = new" "table_ok env (pt_rows t @ staged) q"
      "list_all2 (\<lambda>y r. inserted env r y \<and> pt_next t \<le> sr_seq y) new rows"
      using ir(2)[OF _ st] ir(3) by auto
    ultimately show ?thesis by (intro that(2)[of staged]) auto
  qed
qed

lemma map_sqlx_no_collision [simp]: "map_sqlx e \<noteq> DedupeCollision"
  by (simp add: map_sqlx_def)

lemma pg_insert_ok:
  assumes t: "pg_ok env t" and i: "pg_insert_batch env now f rows t = (x, t')"
  shows "pg_ok env t'" "set (pt_rows t) \<subseteq> set (pt_rows t')"
    "x = Inr qs \<Longrightarrow> list_all2 (pg_holds env t') qs rows \<and> sorted_wrt (<) qs \<and> (\<forall>q \<in> set qs. pt_next t \<le> q)"
    "x = Inl DedupeCollision \<Longrightarrow> pt_rows t' = pt_rows t"
proof -
  have "pg_ok env t' \<and> set (pt_rows t) \<subseteq> set (pt_rows t') \<and>
    (\<forall>qs. x = Inr qs \<longrightarrow> list_all2 (pg_holds env t') qs rows \<and> sorted_wrt (<) qs \<and> (\<forall>q \<in> set qs. pt_next t \<le> q)) \<and>
    (x = Inl DedupeCollision \<longrightarrow> pt_rows t' = pt_rows t)"
    using t i
  proof (cases rule: pg_insert_shape)
    case 1
    then show ?thesis using t table_ok_next[of env "pt_rows t" "pt_next t" "pt_next t'"] by (auto simp: pg_ok_def)
  next
    case (2 new)
    have "list_all2 (pg_holds env t') (map sr_seq new) rows"
    proof (rule list_all2_all_nthI)
      show "length (map sr_seq new) = length rows" using 2(3) by (simp add: list_all2_lengthD)
      fix n assume "n < length (map sr_seq new)"
      then have "new ! n \<in> set (pt_rows t')" "inserted env (rows ! n) (new ! n)" "map sr_seq new ! n = sr_seq (new ! n)"
        using 2(1) list_all2_nthD[OF 2(3), of n] by auto
      then show "pg_holds env t' (map sr_seq new ! n) (rows ! n)" by (auto simp: pg_holds_def)
    qed
    moreover have "sorted_wrt (<) (map sr_seq new)" using 2(2) by (simp add: table_ok_def sorted_wrt_append)
    moreover have "\<forall>q \<in> set (map sr_seq new). pt_next t \<le> q"
      using 2(3) by (auto simp: list_all2_conv_all_nth in_set_conv_nth)
    ultimately show ?thesis using 2 map_sqlx_no_collision by (auto simp: pg_ok_def)
  qed
  then show "pg_ok env t'" "set (pt_rows t) \<subseteq> set (pt_rows t')"
    "x = Inr qs \<Longrightarrow> list_all2 (pg_holds env t') qs rows \<and> sorted_wrt (<) qs \<and> (\<forall>q \<in> set qs. pt_next t \<le> q)"
    "x = Inl DedupeCollision \<Longrightarrow> pt_rows t' = pt_rows t" by auto
qed

definition pg_ins ::
  "'p bus_env \<Rightarrow> int \<times> db_fault \<Rightarrow> insert_row list \<Rightarrow> 'p pg_table \<Rightarrow> (backend_error + seq list) \<times> 'p pg_table" where
  "pg_ins env f = pg_insert_batch env (fst f) (snd f)"

lemma pg_key:
  assumes "pg_ok env t" "pg_holds env t q r" "pg_holds env t q' r'" "ir_dedupe r = Some k" "ir_dedupe r' = Some k"
    "ir_producer r = ir_producer r'"
  shows "q = q'"
proof -
  obtain x y where x: "x \<in> set (pt_rows t)" "sr_seq x = q" "inserted env r x"
    and y: "y \<in> set (pt_rows t)" "sr_seq y = q'" "inserted env r' y"
    using assms(2,3) by (auto simp: pg_holds_def)
  have "row_key x = Some (ir_producer r, k)" "row_key y = Some (ir_producer r, k)"
    using inserted_key[OF x(3)] inserted_key[OF y(3)] assms(4-6) by (auto simp: row_key_def)
  then have "x = y" using assms(1) x(1) y(1) by (auto simp: pg_ok_def table_ok_def keys_once_def)
  with x y show ?thesis by simp
qed

interpretation pg: writer_backend "pg_ok env" "pg_holds env" "pg_ins env" pg_find_existing_seq
  for env :: "'p bus_env"
proof
  fix t t' :: "'p pg_table" and f rows x q r qs q' g p k r'
  assume t: "pg_ok env t"
  show "pg_ok env t'" if "pg_ins env f rows t = (x, t')"
    using pg_insert_ok(1)[OF t] that by (simp add: pg_ins_def)
  show "pg_holds env t' q r" if "pg_ins env f rows t = (x, t')" "pg_holds env t q r"
    using pg_insert_ok(2)[OF t] that by (force simp: pg_ins_def pg_holds_def)
  show "list_all2 (pg_holds env t') qs rows" "sorted_wrt (<) qs" if "pg_ins env f rows t = (Inr qs, t')"
    using pg_insert_ok(3)[OF t] that by (auto simp: pg_ins_def)
  show "q' < q" if "pg_ins env f rows t = (Inr qs, t')" "q \<in> set qs" "pg_holds env t q' r"
  proof -
    have "pt_next t \<le> q" using pg_insert_ok(3)[OF t that(1)[unfolded pg_ins_def] refl] that(2) by auto
    moreover have "q' < pt_next t" using t that(3) by (auto simp: pg_ok_def table_ok_def pg_holds_def)
    ultimately show ?thesis by simp
  qed
  show "pg_holds env t' q r = pg_holds env t q r" if "pg_ins env f rows t = (Inl DedupeCollision, t')"
    using pg_insert_ok(4)[OF t that[unfolded pg_ins_def] refl] by (simp add: pg_holds_def)
  show "\<exists>r. pg_holds env t q r \<and> ir_producer r = p \<and> ir_dedupe r = Some k"
    if found: "pg_find_existing_seq g p k t = Inr (Some q)"
  proof -
    obtain x where x: "find (\<lambda>x. sr_producer x = p \<and> sr_dedupe x = Some k) (pt_rows t) = Some x" "sr_seq x = q"
      using found by (auto simp: pg_find_existing_seq_def split: option.splits)
    then have "x \<in> set (pt_rows t)" "sr_producer x = p" "sr_dedupe x = Some k" by (auto simp: find_Some_iff)
    moreover from this obtain r where "inserted env r x" using t by (auto simp: pg_ok_def table_ok_def)
    ultimately show ?thesis using inserted_key[of env r x] x(2) by (auto simp: pg_holds_def)
  qed
  show "q = q'" if "pg_holds env t q r" "pg_holds env t q' r'" "ir_dedupe r = Some k" "ir_dedupe r' = Some k"
    "ir_producer r = ir_producer r'"
    using pg_key[OF t that] .
qed

subsection \<open>Reading (\<open>log/reader.rs\<close>)\<close>

text \<open>A state of the log is the table with the blobs; a database fault makes a read fail as a whole.\<close>

definition logged_row :: "domain \<Rightarrow> 'p \<Rightarrow> 'p stored_row \<Rightarrow> 'p logged_event" where
  "logged_row d v r =
     \<lparr> le_seq = sr_seq r, le_domain = d, le_kind = sr_kind r, le_payload = v, le_producer = sr_producer r,
       le_dedupe = sr_dedupe r, le_depth = sr_depth r, le_trace = sr_trace r, le_span = sr_span r,
       le_parent = sr_parent r, le_ts = sr_ts r, le_ephemeral = sr_ephemeral r \<rparr>"

definition resolve_row ::
  "'p bus_env \<Rightarrow> ('b \<Rightarrow> payload_ref \<Rightarrow> blob_error + byte list) \<Rightarrow> 'b \<Rightarrow> 'p stored_row \<Rightarrow> log_error + 'p logged_event" where
  "resolve_row env get b r =
     (let label = domain_str (sr_domain r) in
      case domain_from_str label of
        None \<Rightarrow> Inl (LogOther (''unknown domain label '' @ label))
      | Some d \<Rightarrow> bind_res (resolve_payload env get b (sr_inline r) (sr_ref r)) (\<lambda>v. Inr (logged_row d v r)))"

definition pg_read_from ::
  "'p bus_env \<Rightarrow> ('b \<Rightarrow> payload_ref \<Rightarrow> blob_error + byte list) \<Rightarrow> sqlx_error option \<Rightarrow> 'p pg_table \<times> 'b
     \<Rightarrow> domain \<Rightarrow> seq \<Rightarrow> nat \<Rightarrow> log_error + 'p logged_event list" where
  "pg_read_from env get fault s d a n =
     (case fault of
        Some e \<Rightarrow> Inl (LogDb (sqlx_text e))
      | None \<Rightarrow> collect_res (resolve_row env get (snd s))
          (take n (filter (\<lambda>r. domain_str (sr_domain r) = domain_str d \<and> a < sr_seq r) (pt_rows (fst s)))))"

definition pg_head_seq :: "sqlx_error option \<Rightarrow> 'p pg_table \<times> 'b \<Rightarrow> log_error + seq" where
  "pg_head_seq fault s =
     (case fault of
        Some e \<Rightarrow> Inl (LogDb (sqlx_text e))
      | None \<Rightarrow> Inr (case map sr_seq (pt_rows (fst s)) of [] \<Rightarrow> 0 | q # qs \<Rightarrow> fold max qs q))"

text \<open>The events of the table; a row whose payload cannot be fetched stands with a null payload, and every
  read that meets it fails.\<close>

definition pg_events ::
  "'p bus_env \<Rightarrow> ('b \<Rightarrow> payload_ref \<Rightarrow> blob_error + byte list) \<Rightarrow> 'p pg_table \<times> 'b \<Rightarrow> 'p logged_event list" where
  "pg_events env get s =
     map (\<lambda>r. case resolve_row env get (snd s) r of Inr e \<Rightarrow> e | Inl _ \<Rightarrow> logged_row (sr_domain r) (be_null env) r)
       (pt_rows (fst s))"

lemma resolve_row_Inr:
  "resolve_row env get b r = Inr e \<longleftrightarrow>
     (\<exists>v. resolve_payload env get b (sr_inline r) (sr_ref r) = Inr v \<and> e = logged_row (sr_domain r) v r)"
  by (auto simp: resolve_row_def Let_def bind_res_Inr)

lemma domain_str_inj [simp]: "domain_str a = domain_str b \<longleftrightarrow> a = b"
  by (metis domain_from_str_str option.inject)

lemma pg_event_keys:
  "le_seq (case resolve_row env get b r of Inr e \<Rightarrow> e | Inl _ \<Rightarrow> logged_row (sr_domain r) v r) = sr_seq r"
  "le_domain (case resolve_row env get b r of Inr e \<Rightarrow> e | Inl _ \<Rightarrow> logged_row (sr_domain r) v r) = sr_domain r"
  by (auto simp: resolve_row_Inr logged_row_def split: sum.split)

lemma collect_case:
  "collect_res f xs = Inr ys \<Longrightarrow> ys = map (\<lambda>x. case f x of Inr y \<Rightarrow> y | Inl _ \<Rightarrow> g x) xs"
proof -
  assume "collect_res f xs = Inr ys"
  then have "list_all2 (\<lambda>x y. f x = Inr y) xs ys" by (simp add: collect_res_Inr)
  then show ?thesis by (induction rule: list_all2_induct) auto
qed

lemma pg_read_behind:
  assumes "pg_read_from env get fault s d a n = Inr es"
  shows "es = take n (behind d a (pg_events env get s))"
proof -
  let ?g = "\<lambda>r. case resolve_row env get (snd s) r of Inr e \<Rightarrow> e | Inl _ \<Rightarrow> logged_row (sr_domain r) (be_null env) r"
  have "collect_res (resolve_row env get (snd s))
      (take n (filter (\<lambda>r. sr_domain r = d \<and> a < sr_seq r) (pt_rows (fst s)))) = Inr es"
    using assms by (auto simp: pg_read_from_def split: option.splits)
  from collect_case[OF this, of "\<lambda>r. logged_row (sr_domain r) (be_null env) r"]
  show ?thesis by (simp add: behind_def pg_events_def filter_map o_def take_map pg_event_keys)
qed

interpretation pg_log: readable_log "\<lambda>s. pg_ok env (fst s)" "pg_events env get" "pg_read_from env get fault"
    "pg_head_seq fault" for env :: "'p bus_env" and get :: "'b \<Rightarrow> payload_ref \<Rightarrow> blob_error + byte list" and fault
proof
  fix s :: "'p pg_table \<times> 'b" and e d a n es h
  assume "pg_ok env (fst s)"
  then have t: "table_ok env (pt_rows (fst s)) (pt_next (fst s))" by (simp add: pg_ok_def)
  have seqs: "map le_seq (pg_events env get s) = map sr_seq (pt_rows (fst s))"
    by (simp add: pg_events_def pg_event_keys)
  show "ascending (pg_events env get s)" using t unfolding ascending_def seqs by (simp add: table_ok_def)
  show "0 < le_seq e" if "e \<in> set (pg_events env get s)"
    using that t by (auto simp: pg_events_def pg_event_keys table_ok_def)
  show "es = take n (behind d a (pg_events env get s))" if "pg_read_from env get fault s d a n = Inr es"
    using pg_read_behind[OF that] .
  show "(pg_events env get s = [] \<and> h = 0) \<or> (pg_events env get s \<noteq> [] \<and> h = le_seq (last (pg_events env get s)))"
    if h: "pg_head_seq fault s = Inr h"
  proof (cases "map sr_seq (pt_rows (fst s))")
    case Nil
    then show ?thesis using h by (auto simp: pg_head_seq_def pg_events_def split: option.splits)
  next
    case (Cons q qs)
    then have "sorted_wrt (<) (q # qs)" using t by (metis table_ok_def)
    moreover have "h = fold max qs q" using h Cons by (simp add: pg_head_seq_def split: option.splits)
    ultimately have "h = last (q # qs)" using fold_max_sorted by metis
    moreover have "pg_events env get s \<noteq> []" using Cons by (auto simp: pg_events_def)
    ultimately show ?thesis using seqs Cons by (metis last_map)
  qed
qed

interpretation pg_query: queryable_log "\<lambda>s. pg_ok env (fst s)" "pg_events env get" "pg_read_from env get fault"
    "pg_head_seq fault" for env :: "json bus_env" and get :: "'b \<Rightarrow> payload_ref \<Rightarrow> blob_error + byte list" and fault
  by unfold_locales

end
