(* ===== verification/Event_Tail.thy ===== *)
theory Event_Tail
  imports Event_Pg
begin

text \<open>
  Live fan-out (\<open>pipeline/step5_tail\<close>, \<open>step6_gate\<close>, \<open>step7_fanout\<close>, \<open>dispatcher/mod.rs\<close>): the topic
  registry, the tail source over all domains, the routing of one row and a round of the tail loop.
  The broadcast channel of a topic is \<open>tokio\<close>'s: what is published on it is recorded in order.
\<close>

subsection \<open>The registry of topics\<close>

datatype event_type =
    SlotEvent | BoardEvent | TaskEvent | QuestionEvent | LlmEvent | WorkerEvent | MemoryEvent | MessageEvent
  | SessionEvent | SystemEvent | ObservabilityEvent | IncidentEvent | ExecutionEvent

fun event_domain :: "event_type \<Rightarrow> domain" where
  "event_domain SlotEvent = Slot"
| "event_domain BoardEvent = Board"
| "event_domain TaskEvent = Task"
| "event_domain QuestionEvent = Question"
| "event_domain LlmEvent = Llm"
| "event_domain WorkerEvent = Worker"
| "event_domain MemoryEvent = Memory"
| "event_domain MessageEvent = Message"
| "event_domain SessionEvent = Session"
| "event_domain SystemEvent = System"
| "event_domain ObservabilityEvent = Observability"
| "event_domain IncidentEvent = Incident"
| "event_domain ExecutionEvent = Execution"

text \<open>The two indices of the registry; a topic is named by its event type.\<close>

record topic_registry =
  tr_by_domain :: "domain \<rightharpoonup> event_type"
  tr_by_type :: "event_type \<rightharpoonup> event_type"

definition registry_new :: topic_registry where
  "registry_new = \<lparr> tr_by_domain = Map.empty, tr_by_type = Map.empty \<rparr>"

text \<open>A second registration panics.\<close>

definition register :: "event_type \<Rightarrow> topic_registry \<Rightarrow> topic_registry option" where
  "register ty r =
     (if tr_by_domain r (event_domain ty) \<noteq> None then None
      else if tr_by_type r ty \<noteq> None then None
      else Some (r\<lparr> tr_by_domain := (tr_by_domain r)(event_domain ty \<mapsto> ty), tr_by_type := (tr_by_type r)(ty \<mapsto> ty) \<rparr>))"

fun register_each :: "event_type list \<Rightarrow> topic_registry \<Rightarrow> topic_registry option" where
  "register_each [] r = Some r"
| "register_each (ty # tys) r = Option.bind (register ty r) (register_each tys)"

definition built_in_events :: "event_type list" where
  "built_in_events =
     [SlotEvent, BoardEvent, TaskEvent, QuestionEvent, LlmEvent, WorkerEvent, MemoryEvent, MessageEvent,
      SessionEvent, SystemEvent, ObservabilityEvent, IncidentEvent, ExecutionEvent]"

definition register_all_domains :: "topic_registry \<Rightarrow> topic_registry option" where
  "register_all_domains r = register_each built_in_events r"

definition any_topic :: "topic_registry \<Rightarrow> domain \<Rightarrow> event_type option" where
  "any_topic r d = tr_by_domain r d"

definition topic_of :: "topic_registry \<Rightarrow> event_type \<Rightarrow> event_type option" where
  "topic_of r ty = tr_by_type r ty"

definition registry_len :: "topic_registry \<Rightarrow> nat" where
  "registry_len r = card (dom (tr_by_domain r))"

lemma event_domain_inj: "event_domain a = event_domain b \<Longrightarrow> a = b"
  by (cases a; cases b) simp_all

lemma register_each_fresh:
  "distinct tys \<Longrightarrow> \<forall>ty \<in> set tys. tr_by_domain r (event_domain ty) = None \<and> tr_by_type r ty = None \<Longrightarrow>
     \<exists>r'. register_each tys r = Some r' \<and> (\<forall>ty \<in> set tys. tr_by_domain r' (event_domain ty) = Some ty \<and> tr_by_type r' ty = Some ty)
       \<and> (\<forall>ty. ty \<notin> set tys \<longrightarrow> tr_by_domain r' (event_domain ty) = tr_by_domain r (event_domain ty) \<and> tr_by_type r' ty = tr_by_type r ty)"
proof (induction tys arbitrary: r)
  case (Cons ty tys)
  let ?r = "r\<lparr> tr_by_domain := (tr_by_domain r)(event_domain ty \<mapsto> ty), tr_by_type := (tr_by_type r)(ty \<mapsto> ty) \<rparr>"
  have r: "register ty r = Some ?r" using Cons.prems(2) by (simp add: register_def)
  have "\<forall>x \<in> set tys. tr_by_domain ?r (event_domain x) = None \<and> tr_by_type ?r x = None"
    using Cons.prems event_domain_inj[of _ ty] by auto
  from Cons.IH[OF _ this] Cons.prems(1) obtain r' where r': "register_each tys ?r = Some r'"
    "\<forall>x \<in> set tys. tr_by_domain r' (event_domain x) = Some x \<and> tr_by_type r' x = Some x"
    "\<forall>x. x \<notin> set tys \<longrightarrow> tr_by_domain r' (event_domain x) = tr_by_domain ?r (event_domain x) \<and> tr_by_type r' x = tr_by_type ?r x"
    by auto
  have "tr_by_domain r' (event_domain ty) = Some ty \<and> tr_by_type r' ty = Some ty"
    using r'(3) Cons.prems(1) by simp
  with r r' show ?case using event_domain_inj[of _ ty] by (intro exI[of _ r']) auto
qed simp

lemma register_all_ok:
  obtains r where "register_all_domains registry_new = Some r" "\<And>ty. any_topic r (event_domain ty) = Some ty"
    "\<And>ty. topic_of r ty = Some ty"
proof -
  have all: "ty \<in> set built_in_events" for ty by (cases ty) (simp_all add: built_in_events_def)
  have "distinct built_in_events" by (simp add: built_in_events_def)
  from register_each_fresh[OF this, of registry_new] obtain r where
    "register_each built_in_events registry_new = Some r"
    "\<forall>ty \<in> set built_in_events. tr_by_domain r (event_domain ty) = Some ty \<and> tr_by_type r ty = Some ty"
    by (auto simp: registry_new_def)
  with that[of r] all show ?thesis by (simp add: register_all_domains_def any_topic_def topic_of_def)
qed

text \<open>The one type of each domain.\<close>

lemma event_domain_surj: "\<exists>ty. event_domain ty = d"
  using event_domain.simps by (cases d) metis+

subsection \<open>The tail source\<close>

definition TAIL_BATCH_LIMIT :: nat where "TAIL_BATCH_LIMIT = 256"

datatype tail_error = LogRead string

fun tail_error_of :: "log_error \<Rightarrow> tail_error" where
  "tail_error_of (LogDb m) = LogRead m"
| "tail_error_of (LogDecode m) = LogRead (''decode blob payload: '' @ m)"
| "tail_error_of (LogOther m) = LogRead m"

text \<open>The rows behind the cursor over all domains; a row whose label is no domain is skipped, a payload
  that cannot be fetched fails the read.\<close>

fun tail_rows ::
  "'p bus_env \<Rightarrow> ('b \<Rightarrow> payload_ref \<Rightarrow> blob_error + byte list) \<Rightarrow> 'b \<Rightarrow> 'p stored_row list
     \<Rightarrow> tail_error + 'p logged_event list" where
  "tail_rows env get b [] = Inr []"
| "tail_rows env get b (r # rs) =
     (case domain_from_str (domain_str (sr_domain r)) of
        None \<Rightarrow> tail_rows env get b rs
      | Some d \<Rightarrow>
          bind_res (map_sum tail_error_of id (resolve_payload env get b (sr_inline r) (sr_ref r))) (\<lambda>v.
          bind_res (tail_rows env get b rs) (\<lambda>es. Inr (logged_row d v r # es))))"

definition pg_tail_read ::
  "'p bus_env \<Rightarrow> ('b \<Rightarrow> payload_ref \<Rightarrow> blob_error + byte list) \<Rightarrow> sqlx_error option \<Rightarrow> 'p pg_table \<times> 'b
     \<Rightarrow> seq \<Rightarrow> nat \<Rightarrow> tail_error + 'p logged_event list" where
  "pg_tail_read env get fault s a n =
     (case fault of
        Some e \<Rightarrow> Inl (LogRead (sqlx_text e))
      | None \<Rightarrow> tail_rows env get (snd s) (take n (filter (\<lambda>r. a < sr_seq r) (pt_rows (fst s)))))"

definition mem_tail_read :: "'p bus_env \<Rightarrow> ('p, 's) mem_log \<Rightarrow> seq \<Rightarrow> nat \<Rightarrow> tail_error + 'p logged_event list" where
  "mem_tail_read env st a n = Inr (read_all_since env st a n)"

lemma tail_rows_Inr:
  "tail_rows env get b rs = Inr es \<longleftrightarrow> collect_res (resolve_row env get b) rs = Inr es"
proof -
  have m: "map_sum tail_error_of id x = Inr v \<longleftrightarrow> x = Inr v" for x :: "log_error + 'a" and v
    by (cases x) auto
  show ?thesis
    by (induction rs arbitrary: es) (auto simp: bind_res_Inr resolve_row_def Let_def m)
qed

lemma pg_tail_sound:
  assumes "pg_tail_read env get fault s a n = Inr es"
  shows "es = take n (filter (\<lambda>e. a < le_seq e) (pg_events env get s))"
proof -
  have "collect_res (resolve_row env get (snd s)) (take n (filter (\<lambda>r. a < sr_seq r) (pt_rows (fst s)))) = Inr es"
    using assms by (auto simp: pg_tail_read_def tail_rows_Inr split: option.splits)
  from collect_case[OF this, of "\<lambda>r. logged_row (sr_domain r) (be_null env) r"]
  show ?thesis by (simp add: pg_events_def filter_map o_def take_map pg_event_keys)
qed

subsection \<open>The programmable gate (\<open>in_memory/control_gate.rs\<close>)\<close>

type_synonym control_gate = "ctl_domain set"

definition gate_new :: control_gate where "gate_new = {}"

definition gate_pause :: "ctl_domain \<Rightarrow> control_gate \<Rightarrow> control_gate" where "gate_pause c g = insert c g"

definition gate_resume :: "ctl_domain \<Rightarrow> control_gate \<Rightarrow> control_gate" where "gate_resume c g = g - {c}"

definition gate_resume_all :: "control_gate \<Rightarrow> control_gate" where "gate_resume_all g = {}"

definition gate_paused :: "control_gate \<Rightarrow> ctl_domain \<Rightarrow> bool" where "gate_paused g c \<longleftrightarrow> c \<in> g"

lemma gate_laws:
  "\<not> is_domain_paused (gate_paused gate_new) d" "\<not> is_domain_paused (gate_paused (gate_resume_all g)) d"
  "gate_paused (gate_pause c g) c' \<longleftrightarrow> c' = c \<or> gate_paused g c'"
  "gate_paused (gate_resume c g) c' \<longleftrightarrow> c' \<noteq> c \<and> gate_paused g c'"
  by (auto simp: is_domain_paused_def gate_paused_def gate_new_def gate_resume_all_def gate_pause_def gate_resume_def
      split: option.split)

subsection \<open>Routing one row\<close>

record dispatch_metrics =
  dm_read :: u64
  dm_fanned_out :: u64
  dm_paused :: u64
  dm_unknown :: u64
  dm_deserialize :: u64
  dm_last :: seq

definition metrics_zero :: dispatch_metrics where
  "metrics_zero = \<lparr> dm_read = 0, dm_fanned_out = 0, dm_paused = 0, dm_unknown = 0, dm_deserialize = 0, dm_last = 0 \<rparr>"

text \<open>\<open>decode\<close> reads a payload as the event type of its domain (\<open>serde_json::from_value\<close>). The result says what
  was published, with the number of its row.\<close>

definition dispatch_one ::
  "topic_registry \<Rightarrow> (event_type \<Rightarrow> 'p \<Rightarrow> string + 'e) \<Rightarrow> (ctl_domain \<Rightarrow> bool) \<Rightarrow> 'p logged_event \<Rightarrow> dispatch_metrics
     \<Rightarrow> (event_type \<times> 'e) option \<times> dispatch_metrics" where
  "dispatch_one reg decode gate e m =
     (if is_domain_paused gate (le_domain e) then (None, m\<lparr> dm_paused := dm_paused m + 1 \<rparr>)
      else case any_topic reg (le_domain e) of
        None \<Rightarrow> (None, m\<lparr> dm_unknown := dm_unknown m + 1 \<rparr>)
      | Some ty \<Rightarrow>
          (case decode ty (le_payload e) of
             Inr x \<Rightarrow> (Some (ty, x), m\<lparr> dm_fanned_out := dm_fanned_out m + 1 \<rparr>)
           | Inl _ \<Rightarrow> (None, m\<lparr> dm_deserialize := dm_deserialize m + 1 \<rparr>)))"

record 'e dispatcher =
  dp_last :: seq
  dp_metrics :: dispatch_metrics
  dp_published :: "(seq \<times> event_type \<times> 'e) list"

definition dispatcher_new :: "'e dispatcher" where
  "dispatcher_new = \<lparr> dp_last = 0, dp_metrics = metrics_zero, dp_published = [] \<rparr>"

definition tail_one ::
  "topic_registry \<Rightarrow> (event_type \<Rightarrow> 'p \<Rightarrow> string + 'e) \<Rightarrow> (ctl_domain \<Rightarrow> bool) \<Rightarrow> 'p logged_event
     \<Rightarrow> 'e dispatcher \<Rightarrow> 'e dispatcher" where
  "tail_one reg decode gate e dp =
     (case dispatch_one reg decode gate e (dp_metrics dp) of
        (out, m) \<Rightarrow> dp\<lparr> dp_last := le_seq e, dp_metrics := m\<lparr> dm_last := le_seq e \<rparr>,
          dp_published := dp_published dp @ (case out of None \<Rightarrow> [] | Some (ty, x) \<Rightarrow> [(le_seq e, ty, x)]) \<rparr>)"

text \<open>One round of \<open>run_tail\<close>; \<open>True\<close> with it when the loop reads again at once.\<close>

definition tail_round ::
  "topic_registry \<Rightarrow> (event_type \<Rightarrow> 'p \<Rightarrow> string + 'e) \<Rightarrow> (ctl_domain \<Rightarrow> bool)
     \<Rightarrow> (seq \<Rightarrow> nat \<Rightarrow> tail_error + 'p logged_event list) \<Rightarrow> 'e dispatcher
     \<Rightarrow> tail_error + 'e dispatcher \<times> bool" where
  "tail_round reg decode gate read dp =
     (case read (dp_last dp) TAIL_BATCH_LIMIT of
        Inl e \<Rightarrow> Inl e
      | Inr batch \<Rightarrow>
          let dp = dp\<lparr> dp_metrics := (dp_metrics dp)\<lparr> dm_read := dm_read (dp_metrics dp) + of_nat (length batch) \<rparr> \<rparr> in
          Inr (fold (tail_one reg decode gate) batch dp, length batch = TAIL_BATCH_LIMIT))"

text \<open>The loop over an unchanging log; \<open>fuel\<close> bounds the rounds. It stops at the first round that was not full.\<close>

fun drain_tail ::
  "topic_registry \<Rightarrow> (event_type \<Rightarrow> 'p \<Rightarrow> string + 'e) \<Rightarrow> (ctl_domain \<Rightarrow> bool)
     \<Rightarrow> (seq \<Rightarrow> nat \<Rightarrow> tail_error + 'p logged_event list) \<Rightarrow> nat \<Rightarrow> 'e dispatcher
     \<Rightarrow> tail_error + 'e dispatcher option" where
  "drain_tail reg decode gate read 0 dp = Inr None"
| "drain_tail reg decode gate read (Suc fuel) dp =
     (case tail_round reg decode gate read dp of
        Inl e \<Rightarrow> Inl e
      | Inr (dp', again) \<Rightarrow> if again then drain_tail reg decode gate read fuel dp' else Inr (Some dp'))"

subsection \<open>What a round publishes\<close>

definition sent ::
  "topic_registry \<Rightarrow> (event_type \<Rightarrow> 'p \<Rightarrow> string + 'e) \<Rightarrow> (ctl_domain \<Rightarrow> bool) \<Rightarrow> 'p logged_event
     \<Rightarrow> (seq \<times> event_type \<times> 'e) list" where
  "sent reg decode gate e =
     (case fst (dispatch_one reg decode gate e metrics_zero) of None \<Rightarrow> [] | Some (ty, x) \<Rightarrow> [(le_seq e, ty, x)])"

text \<open>Every row read is counted once.\<close>

definition counted :: "dispatch_metrics \<Rightarrow> u64" where
  "counted m = dm_fanned_out m + dm_paused m + dm_unknown m + dm_deserialize m"

lemma dispatch_one_metrics:
  "fst (dispatch_one reg decode gate e m) = fst (dispatch_one reg decode gate e m')"
  "counted (snd (dispatch_one reg decode gate e m)) = counted m + 1"
  "dm_read (snd (dispatch_one reg decode gate e m)) = dm_read m"
  by (auto simp: dispatch_one_def counted_def split: option.splits sum.splits)

lemma tail_one_sel:
  "dp_last (tail_one reg decode gate e dp) = le_seq e"
  "dp_published (tail_one reg decode gate e dp) = dp_published dp @ sent reg decode gate e"
  "counted (dp_metrics (tail_one reg decode gate e dp)) = counted (dp_metrics dp) + 1"
  "dm_read (dp_metrics (tail_one reg decode gate e dp)) = dm_read (dp_metrics dp)"
proof -
  obtain out m where o: "dispatch_one reg decode gate e (dp_metrics dp) = (out, m)" by fastforce
  have "fst (dispatch_one reg decode gate e metrics_zero) = out"
    using dispatch_one_metrics(1)[of reg decode gate e metrics_zero "dp_metrics dp"] o by simp
  moreover have "counted (m\<lparr> dm_last := q \<rparr>) = counted m" for q by (simp add: counted_def)
  ultimately show
    "dp_last (tail_one reg decode gate e dp) = le_seq e"
    "dp_published (tail_one reg decode gate e dp) = dp_published dp @ sent reg decode gate e"
    "counted (dp_metrics (tail_one reg decode gate e dp)) = counted (dp_metrics dp) + 1"
    "dm_read (dp_metrics (tail_one reg decode gate e dp)) = dm_read (dp_metrics dp)"
    using dispatch_one_metrics(2,3)[of reg decode gate e "dp_metrics dp"] o
    by (simp_all add: tail_one_def sent_def)
qed

lemma fold_tail_one:
  "dp_last (fold (tail_one reg decode gate) es dp) = (if es = [] then dp_last dp else le_seq (last es))"
  "dp_published (fold (tail_one reg decode gate) es dp) = dp_published dp @ concat (map (sent reg decode gate) es)"
  "counted (dp_metrics (fold (tail_one reg decode gate) es dp)) = counted (dp_metrics dp) + of_nat (length es)"
  "dm_read (dp_metrics (fold (tail_one reg decode gate) es dp)) = dm_read (dp_metrics dp)"
  by (induction es arbitrary: dp) (simp_all add: tail_one_sel)

lemma tail_round_sel:
  assumes "tail_round reg decode gate read dp = Inr (dp', again)" "read (dp_last dp) TAIL_BATCH_LIMIT = Inr es"
  shows "dp_last dp' = (if es = [] then dp_last dp else le_seq (last es))"
    "dp_published dp' = dp_published dp @ concat (map (sent reg decode gate) es)"
    "counted (dp_metrics dp') - dm_read (dp_metrics dp') = counted (dp_metrics dp) - dm_read (dp_metrics dp)"
    "again = (length es = TAIL_BATCH_LIMIT)"
proof -
  have c: "counted (m\<lparr> dm_read := r \<rparr>) = counted m" for m r by (simp add: counted_def)
  show "dp_last dp' = (if es = [] then dp_last dp else le_seq (last es))"
    "dp_published dp' = dp_published dp @ concat (map (sent reg decode gate) es)"
    "counted (dp_metrics dp') - dm_read (dp_metrics dp') = counted (dp_metrics dp) - dm_read (dp_metrics dp)"
    "again = (length es = TAIL_BATCH_LIMIT)"
    using assms by (auto simp: tail_round_def Let_def fold_tail_one c)
qed

text \<open>The rows behind a cursor, over all domains.\<close>

definition after :: "seq \<Rightarrow> 'p logged_event list \<Rightarrow> 'p logged_event list" where
  "after a es = filter (\<lambda>e. a < le_seq e) es"

lemma after_take:
  assumes "ascending es" "take n (after a es) \<noteq> []"
  shows "after (le_seq (last (take n (after a es)))) es = drop n (after a es)"
proof -
  let ?b = "after a es"
  have "last (take n ?b) \<in> set ?b" using assms(2) by (meson in_set_takeD last_in_set)
  then have "a < le_seq (last (take n ?b))" by (simp add: after_def)
  then have "after (le_seq (last (take n ?b))) es = filter (\<lambda>e. le_seq (last (take n ?b)) < le_seq e) ?b"
    unfolding after_def filter_filter by (intro filter_cong) auto
  also have "\<dots> = drop n ?b"
    using filter_after_take[of ?b n] assms by (simp add: after_def ascending_filter)
  finally show ?thesis .
qed

text \<open>Over an unchanging log the loop comes to the end of it, publishing every row behind the cursor in order.\<close>

lemma drain_tail_all:
  assumes a: "ascending es" and read: "\<And>c n. read c n = Inr (take n (after c es))"
    and fuel: "length (after (dp_last dp) es) < 256 * fuel"
  shows "\<exists>dp'. drain_tail reg decode gate read fuel dp = Inr (Some dp') \<and>
    dp_published dp' = dp_published dp @ concat (map (sent reg decode gate) (after (dp_last dp) es)) \<and>
    after (dp_last dp') es = [] \<and>
    counted (dp_metrics dp') - dm_read (dp_metrics dp') = counted (dp_metrics dp) - dm_read (dp_metrics dp)"
  using fuel
proof (induction fuel arbitrary: dp)
  case (Suc fuel)
  let ?b = "after (dp_last dp) es"
  let ?t = "take 256 ?b"
  have rd: "read (dp_last dp) TAIL_BATCH_LIMIT = Inr ?t" by (simp add: read TAIL_BATCH_LIMIT_def)
  obtain dp1 again where r: "tail_round reg decode gate read dp = Inr (dp1, again)"
    using rd by (simp add: tail_round_def Let_def)
  note sel = tail_round_sel[OF r rd]
  have rest: "after (dp_last dp1) es = drop 256 ?b"
  proof (cases "?t = []")
    case False
    with after_take[OF a False] sel(1) show ?thesis by simp
  qed (use sel(1) in auto)
  show ?case
  proof (cases again)
    case False
    then have "length ?b < 256" using sel(4) by (simp add: TAIL_BATCH_LIMIT_def)
    then have "?t = ?b" "drop 256 ?b = []" by simp_all
    with r False sel(2,3) rest show ?thesis by simp
  next
    case True
    have "256 \<le> length ?b" using True sel(4) by (simp add: TAIL_BATCH_LIMIT_def)
    then have "length (after (dp_last dp1) es) < 256 * fuel" using Suc.prems rest by simp
    from Suc.IH[OF this] obtain dp' where d: "drain_tail reg decode gate read fuel dp1 = Inr (Some dp')"
      "dp_published dp' = dp_published dp1 @ concat (map (sent reg decode gate) (drop 256 ?b))"
      "after (dp_last dp') es = []"
      "counted (dp_metrics dp') - dm_read (dp_metrics dp') = counted (dp_metrics dp1) - dm_read (dp_metrics dp1)"
      unfolding rest by auto
    have "concat (map (sent reg decode gate) ?b) =
        concat (map (sent reg decode gate) ?t) @ concat (map (sent reg decode gate) (drop 256 ?b))"
      by (metis append_take_drop_id concat_append map_append)
    then have p: "dp_published dp' = dp_published dp @ concat (map (sent reg decode gate) ?b)"
      using d(2) sel(2) by simp
    have c: "counted (dp_metrics dp') - dm_read (dp_metrics dp') = counted (dp_metrics dp) - dm_read (dp_metrics dp)"
      using d(4) sel(3) by (rule trans)
    have "drain_tail reg decode gate read (Suc fuel) dp = Inr (Some dp')" using r True d(1) by simp
    with p c d(3) show ?thesis by blast
  qed
qed simp

end
