(* ===== verification/Event_Subscription.thy ===== *)
theory Event_Subscription
  imports Event_Tail
begin

text \<open>
  A subscription (\<open>subscription\<close>): its options and backoff, the failure router, the cursor stores with
  their contract \<open>cursor_store\<close>, the acknowledgements and the flusher task, and the lifecycle that
  pulls history from the log and then takes live events.
\<close>

subsection \<open>Options (\<open>options.rs\<close>)\<close>

text \<open>A duration in nanoseconds; \<open>saturating_mul\<close> stops at \<open>Duration::MAX\<close>.\<close>

type_synonym duration = nat

definition DURATION_MAX :: duration where
  "DURATION_MAX = 18446744073709551615999999999"

datatype backoff_kind = BackoffFixed duration | BackoffExponential duration duration

fun backoff_delay :: "backoff_kind \<Rightarrow> byte \<Rightarrow> duration" where
  "backoff_delay (BackoffFixed d) attempt = d"
| "backoff_delay (BackoffExponential base cap) attempt =
     min (min (base * 2 ^ min (unat attempt - 1) 30) DURATION_MAX) cap"

datatype failure_policy = PolicyRetry byte backoff_kind | SkipToDLQ | PolicyHalt

definition default_policy :: failure_policy where
  "default_policy = PolicyRetry 3 (BackoffExponential 100000000 5000000000)"

datatype start_from = FromLatest | FromEarliest | FromSeq seq

definition batch_size_get :: "nat \<Rightarrow> nat" where
  "batch_size_get n = max n 1"

datatype cursor_flush = PerEvent | BatchOr1s | Periodic duration

fun time_window :: "cursor_flush \<Rightarrow> duration" where
  "time_window PerEvent = 1000000"
| "time_window BatchOr1s = 1000000000"
| "time_window (Periodic d) = d"

record subscription_opts =
  so_start :: start_from
  so_batch :: nat
  so_policy :: failure_policy
  so_flush :: cursor_flush
  so_consumer :: string

subsection \<open>Failures (\<open>failure.rs\<close>)\<close>

record 'p failure_info =
  fi_name :: string
  fi_seq :: seq
  fi_reason :: string
  fi_payload :: "'p option"
  fi_attempt :: byte

definition build_failure_info :: "string \<Rightarrow> seq \<Rightarrow> string \<Rightarrow> 'p option \<Rightarrow> byte \<Rightarrow> 'p failure_info" where
  "build_failure_info name q reason payload attempt =
     \<lparr> fi_name = name, fi_seq = q, fi_reason = reason, fi_payload = payload, fi_attempt = attempt \<rparr>"

datatype failure_outcome = OutRetry duration byte | OutDlqd | OutHalt

text \<open>The dead-letter queue of the database is its table; \<open>db\<close> is what goes wrong at the call.\<close>

definition dlq_record :: "string option \<Rightarrow> 'p failure_info list \<Rightarrow> 'p failure_info \<Rightarrow> (string + unit) \<times> 'p failure_info list" where
  "dlq_record db dlq info = (case db of Some e \<Rightarrow> (Inl e, dlq) | None \<Rightarrow> (Inr (), dlq @ [info]))"

definition route_failure ::
  "failure_policy \<Rightarrow> string option \<Rightarrow> 'p failure_info \<Rightarrow> 'p failure_info list
     \<Rightarrow> (string + failure_outcome) \<times> 'p failure_info list" where
  "route_failure policy db info dlq =
     (let recorded = (case dlq_record db dlq info of (Inl e, dlq') \<Rightarrow> (Inl e, dlq') | (Inr _, dlq') \<Rightarrow> (Inr OutDlqd, dlq')) in
      case policy of
        PolicyRetry mx backoff \<Rightarrow>
          if fi_attempt info < mx then
            (Inr (OutRetry (backoff_delay backoff (fi_attempt info + 1)) (fi_attempt info + 1)), dlq)
          else recorded
      | SkipToDLQ \<Rightarrow> recorded
      | PolicyHalt \<Rightarrow> (Inr OutHalt, snd (dlq_record db dlq info)))"

subsection \<open>Cursor stores (\<open>cursor_store.rs\<close>)\<close>

record cursor =
  cu_name :: string
  cu_consumer :: string
  cu_domain :: domain
  cu_seq :: seq
  cu_seen :: int
  cu_policy :: failure_policy

datatype cursor_error = CursorDb string | CursorEncode string | UnknownDomain string | CursorOther string

type_synonym mem_cursors = "string \<rightharpoonup> cursor"

definition mem_cursor_get :: "mem_cursors \<Rightarrow> string \<Rightarrow> cursor_error + cursor option" where
  "mem_cursor_get s name = Inr (s name)"

definition mem_cursor_upsert :: "unit \<Rightarrow> mem_cursors \<Rightarrow> cursor \<Rightarrow> (cursor_error + unit) \<times> mem_cursors" where
  "mem_cursor_upsert f s c = (Inr (), s(cu_name c \<mapsto> c))"

definition mem_cursor_delete :: "unit \<Rightarrow> mem_cursors \<Rightarrow> string \<Rightarrow> (cursor_error + unit) \<times> mem_cursors" where
  "mem_cursor_delete f s name = (Inr (), s(name := None))"

text \<open>A row of \<open>event_subscriptions\<close>: the domain is text, two columns may be \<open>NULL\<close>.\<close>

record cursor_row =
  cr_consumer :: string
  cr_domain :: string
  cr_seq :: seq
  cr_seen :: "int option"
  cr_policy :: "failure_policy option"

type_synonym pg_cursors = "string \<rightharpoonup> cursor_row"

definition pg_cursor_get :: "string option \<Rightarrow> int \<Rightarrow> pg_cursors \<Rightarrow> string \<Rightarrow> cursor_error + cursor option" where
  "pg_cursor_get db now s name =
     (case db of Some e \<Rightarrow> Inl (CursorDb e) | None \<Rightarrow>
     (case s name of None \<Rightarrow> Inr None | Some r \<Rightarrow>
     (case domain_from_str (cr_domain r) of None \<Rightarrow> Inl (UnknownDomain (cr_domain r)) | Some d \<Rightarrow>
        Inr (Some \<lparr> cu_name = name, cu_consumer = cr_consumer r, cu_domain = d, cu_seq = cr_seq r,
          cu_seen = (case cr_seen r of Some t \<Rightarrow> t | None \<Rightarrow> now),
          cu_policy = (case cr_policy r of Some p \<Rightarrow> p | None \<Rightarrow> default_policy) \<rparr>))))"

definition pg_cursor_upsert :: "string option \<Rightarrow> pg_cursors \<Rightarrow> cursor \<Rightarrow> (cursor_error + unit) \<times> pg_cursors" where
  "pg_cursor_upsert db s c =
     (case db of Some e \<Rightarrow> (Inl (CursorDb e), s) | None \<Rightarrow>
        (Inr (), s(cu_name c \<mapsto> \<lparr> cr_consumer = cu_consumer c, cr_domain = domain_str (cu_domain c), cr_seq = cu_seq c,
           cr_seen = Some (cu_seen c), cr_policy = Some (cu_policy c) \<rparr>)))"

definition pg_cursor_delete :: "string option \<Rightarrow> pg_cursors \<Rightarrow> string \<Rightarrow> (cursor_error + unit) \<times> pg_cursors" where
  "pg_cursor_delete db s name =
     (case db of Some e \<Rightarrow> (Inl (CursorDb e), s) | None \<Rightarrow> (Inr (), s(name := None)))"

text \<open>\<open>fetch\<close> is a \<open>get\<close> the database answers; \<open>'f\<close> says what goes wrong at a call.\<close>

locale cursor_store =
  fixes fetch :: "'c \<Rightarrow> string \<Rightarrow> cursor_error + cursor option"
    and upsert :: "'f \<Rightarrow> 'c \<Rightarrow> cursor \<Rightarrow> (cursor_error + unit) \<times> 'c"
    and delete :: "'f \<Rightarrow> 'c \<Rightarrow> string \<Rightarrow> (cursor_error + unit) \<times> 'c"
  assumes upsert_fetch: "upsert f s c = (Inr (), s') \<Longrightarrow> fetch s' (cu_name c) = Inr (Some c)"
    and upsert_other: "upsert f s c = (x, s') \<Longrightarrow> name \<noteq> cu_name c \<Longrightarrow> fetch s' name = fetch s name"
    and upsert_failed: "upsert f s c = (Inl e, s') \<Longrightarrow> fetch s' name = fetch s name"
    and delete_fetch: "delete f s name = (Inr (), s') \<Longrightarrow> fetch s' name = Inr None"

interpretation mem_cursors: cursor_store mem_cursor_get mem_cursor_upsert mem_cursor_delete
  by unfold_locales (auto simp: mem_cursor_get_def mem_cursor_upsert_def mem_cursor_delete_def)

interpretation pg_cursors: cursor_store "pg_cursor_get None now" pg_cursor_upsert pg_cursor_delete for now
  by unfold_locales
    (auto simp: pg_cursor_get_def pg_cursor_upsert_def pg_cursor_delete_def split: option.splits)

subsection \<open>Acknowledging (\<open>subscription/mod.rs\<close>)\<close>

definition sat_add :: "nat \<Rightarrow> nat \<Rightarrow> nat" where
  "sat_add a b = nat (min (int a + int b) 18446744073709551615)"

record sub_state =
  ss_name :: string
  ss_consumer :: string
  ss_domain :: domain
  ss_policy :: failure_policy
  ss_flush :: cursor_flush
  ss_cursor :: seq
  ss_dirty :: nat
  ss_last_flush :: int
  ss_terminated :: bool

definition sub_state_new :: "string \<Rightarrow> string \<Rightarrow> domain \<Rightarrow> failure_policy \<Rightarrow> cursor_flush \<Rightarrow> seq \<Rightarrow> int \<Rightarrow> sub_state" where
  "sub_state_new name consumer d policy fl q now =
     \<lparr> ss_name = name, ss_consumer = consumer, ss_domain = d, ss_policy = policy, ss_flush = fl, ss_cursor = q,
       ss_dirty = 0, ss_last_flush = now, ss_terminated = False \<rparr>"

definition as_cursor :: "int \<Rightarrow> sub_state \<Rightarrow> cursor" where
  "as_cursor now st = \<lparr> cu_name = ss_name st, cu_consumer = ss_consumer st, cu_domain = ss_domain st,
     cu_seq = ss_cursor st, cu_seen = now, cu_policy = ss_policy st \<rparr>"

datatype 'p flush_signal = Dirty nat | Force | Shutdown | Nack seq string "'p option" byte

definition FLUSH_CHANNEL :: nat where "FLUSH_CHANNEL = 256"

text \<open>The runtime of one subscription: the shared state, the signals whose sender still waits for room, the
  channel, and the flusher's own counter with the store and the dead-letter queue it writes to.\<close>

record ('p, 'c) sub_runtime =
  rt_state :: sub_state
  rt_unsent :: "'p flush_signal list"
  rt_signals :: "'p flush_signal list"
  rt_dirty :: nat
  rt_running :: bool
  rt_store :: 'c
  rt_dlq :: "'p failure_info list"

definition ack_event :: "seq \<Rightarrow> ('p, 'c) sub_runtime \<Rightarrow> ('p, 'c) sub_runtime" where
  "ack_event q rt =
     (let st = rt_state rt; st = (if ss_cursor st < q then st\<lparr> ss_cursor := q \<rparr> else st) in
      rt\<lparr> rt_state := st\<lparr> ss_dirty := sat_add (ss_dirty st) 1 \<rparr>, rt_unsent := rt_unsent rt @ [Dirty 1] \<rparr>)"

definition nack_event :: "seq \<Rightarrow> string \<Rightarrow> 'p option \<Rightarrow> byte \<Rightarrow> ('p, 'c) sub_runtime \<Rightarrow> ('p, 'c) sub_runtime" where
  "nack_event q reason payload attempt rt = rt\<lparr> rt_unsent := rt_unsent rt @ [Nack q reason payload attempt] \<rparr>"

definition try_send :: "'p flush_signal \<Rightarrow> ('p, 'c) sub_runtime \<Rightarrow> ('p, 'c) sub_runtime" where
  "try_send s rt =
     (if rt_running rt \<and> length (rt_signals rt) < FLUSH_CHANNEL then rt\<lparr> rt_signals := rt_signals rt @ [s] \<rparr> else rt)"

text \<open>An \<open>Ack\<close> dropped without a call sends its signal only if there is room.\<close>

definition drop_ack :: "seq \<Rightarrow> 'p option \<Rightarrow> byte \<Rightarrow> ('p, 'c) sub_runtime \<Rightarrow> ('p, 'c) sub_runtime" where
  "drop_ack q payload attempt rt = try_send (Nack q ''ack dropped'' payload attempt) rt"

text \<open>A waiting sender gets room; once the flusher is gone its signal is lost.\<close>

definition send_waiting :: "nat \<Rightarrow> ('p, 'c) sub_runtime \<Rightarrow> ('p, 'c) sub_runtime" where
  "send_waiting i rt =
     (if i < length (rt_unsent rt) then
        let s = rt_unsent rt ! i; rest = take i (rt_unsent rt) @ drop (Suc i) (rt_unsent rt) in
        if \<not> rt_running rt then rt\<lparr> rt_unsent := rest \<rparr>
        else if length (rt_signals rt) < FLUSH_CHANNEL then rt\<lparr> rt_unsent := rest, rt_signals := rt_signals rt @ [s] \<rparr>
        else rt
      else rt)"

subsection \<open>The flusher (\<open>subscription/api.rs\<close>)\<close>

definition do_flush :: "('c \<Rightarrow> cursor \<Rightarrow> (cursor_error + unit) \<times> 'c) \<Rightarrow> int \<Rightarrow> ('p, 'c) sub_runtime \<Rightarrow> ('p, 'c) sub_runtime" where
  "do_flush up now rt =
     (let st = rt_state rt; snapshot = as_cursor now st;
          rt = rt\<lparr> rt_state := st\<lparr> ss_dirty := 0, ss_last_flush := now \<rparr> \<rparr> in
      case up (rt_store rt) snapshot of
        (Inr _, s) \<Rightarrow> rt\<lparr> rt_store := s, rt_dirty := 0 \<rparr>
      | (Inl _, s) \<Rightarrow> rt\<lparr> rt_store := s, rt_dirty := sat_add (rt_dirty rt) 1 \<rparr>)"

definition handle_nack ::
  "string option \<Rightarrow> seq \<Rightarrow> string \<Rightarrow> 'p option \<Rightarrow> byte \<Rightarrow> ('p, 'c) sub_runtime \<Rightarrow> ('p, 'c) sub_runtime" where
  "handle_nack db q reason payload attempt rt =
     (let st = rt_state rt; info = build_failure_info (ss_name st) q reason payload attempt in
      case route_failure (ss_policy st) db info (rt_dlq rt) of
        (Inr (OutRetry _ _), dlq) \<Rightarrow> rt\<lparr> rt_dlq := dlq \<rparr>
      | (Inr OutDlqd, dlq) \<Rightarrow>
          if ss_cursor st < q then
            rt\<lparr> rt_dlq := dlq, rt_state := st\<lparr> ss_cursor := q, ss_dirty := sat_add (ss_dirty st) 1 \<rparr> \<rparr>
          else rt\<lparr> rt_dlq := dlq \<rparr>
      | (Inr OutHalt, dlq) \<Rightarrow> rt\<lparr> rt_dlq := dlq, rt_state := st\<lparr> ss_terminated := True \<rparr> \<rparr>
      | (Inl _, dlq) \<Rightarrow> rt\<lparr> rt_dlq := dlq, rt_state := st\<lparr> ss_terminated := True \<rparr> \<rparr>)"

definition flush_if_dirty :: "('c \<Rightarrow> cursor \<Rightarrow> (cursor_error + unit) \<times> 'c) \<Rightarrow> int \<Rightarrow> ('p, 'c) sub_runtime \<Rightarrow> ('p, 'c) sub_runtime" where
  "flush_if_dirty up now rt = (if 0 < rt_dirty rt then do_flush up now rt else rt)"

definition handle_signal ::
  "('c \<Rightarrow> cursor \<Rightarrow> (cursor_error + unit) \<times> 'c) \<Rightarrow> string option \<Rightarrow> nat \<Rightarrow> int \<Rightarrow> 'p flush_signal
     \<Rightarrow> ('p, 'c) sub_runtime \<Rightarrow> ('p, 'c) sub_runtime" where
  "handle_signal up db threshold now s rt =
     (case s of
        Dirty n \<Rightarrow>
          let rt = rt\<lparr> rt_dirty := sat_add (rt_dirty rt) n \<rparr> in
          if ss_flush (rt_state rt) = PerEvent \<or> threshold \<le> rt_dirty rt then do_flush up now rt else rt
      | Force \<Rightarrow> do_flush up now rt
      | Nack q reason payload attempt \<Rightarrow> handle_nack db q reason payload attempt rt
      | Shutdown \<Rightarrow> (flush_if_dirty up now rt)\<lparr> rt_running := False, rt_signals := [] \<rparr>)"

definition flusher_recv ::
  "('c \<Rightarrow> cursor \<Rightarrow> (cursor_error + unit) \<times> 'c) \<Rightarrow> string option \<Rightarrow> nat \<Rightarrow> int \<Rightarrow> ('p, 'c) sub_runtime \<Rightarrow> ('p, 'c) sub_runtime" where
  "flusher_recv up db threshold now rt =
     (if rt_running rt then
        case rt_signals rt of [] \<Rightarrow> rt | s # ss \<Rightarrow> handle_signal up db threshold now s (rt\<lparr> rt_signals := ss \<rparr>)
      else rt)"

definition flusher_tick :: "('c \<Rightarrow> cursor \<Rightarrow> (cursor_error + unit) \<times> 'c) \<Rightarrow> int \<Rightarrow> ('p, 'c) sub_runtime \<Rightarrow> ('p, 'c) sub_runtime" where
  "flusher_tick up now rt = (if rt_running rt then flush_if_dirty up now rt else rt)"

subsection \<open>Lifecycle (\<open>lifecycle.rs\<close>)\<close>

datatype phase = Bootstrap | Live | Terminated

datatype lifecycle_error =
    LcLogRead string
  | DeserializePayload seq string
  | LiveLagged nat seq
  | LcOther string

text \<open>The batch being drained is a vector popped at its end.\<close>

record 'e lifecycle =
  lc_phase :: phase
  lc_watermark :: seq
  lc_buffer :: "(seq \<times> 'e) list"
  lc_batch :: nat
  lc_domain :: domain
  lc_ack :: seq

definition lifecycle_new :: "seq \<Rightarrow> nat \<Rightarrow> domain \<Rightarrow> 'e lifecycle" where
  "lifecycle_new q n d =
     \<lparr> lc_phase = Bootstrap, lc_watermark = q, lc_buffer = [], lc_batch = n, lc_domain = d, lc_ack = q \<rparr>"

definition raise_watermark :: "seq \<Rightarrow> 'e lifecycle \<Rightarrow> 'e lifecycle" where
  "raise_watermark q lc = (if lc_watermark lc < q then lc\<lparr> lc_watermark := q \<rparr> else lc)"

fun decode_rows ::
  "('p \<Rightarrow> string + 'e) \<Rightarrow> seq \<Rightarrow> 'p logged_event list \<Rightarrow> lifecycle_error + (seq \<times> 'e) list" where
  "decode_rows decode w [] = Inr []"
| "decode_rows decode w (r # rs) =
     (if le_seq r \<le> w then decode_rows decode w rs
      else case decode (le_payload r) of
        Inl e \<Rightarrow> Inl (DeserializePayload (le_seq r) e)
      | Inr x \<Rightarrow> bind_res (decode_rows decode w rs) (\<lambda>xs. Inr ((le_seq r, x) # xs)))"

definition next_from_bootstrap ::
  "('p \<Rightarrow> string + 'e) \<Rightarrow> (domain \<Rightarrow> seq \<Rightarrow> nat \<Rightarrow> log_error + 'p logged_event list) \<Rightarrow> 'e lifecycle
     \<Rightarrow> (lifecycle_error + (seq \<times> 'e) option) \<times> 'e lifecycle" where
  "next_from_bootstrap decode read lc =
     (if lc_buffer lc \<noteq> [] then
        let f = last (lc_buffer lc) in
        (Inr (Some f), raise_watermark (fst f) (lc\<lparr> lc_buffer := butlast (lc_buffer lc) \<rparr>))
      else case read (lc_domain lc) (lc_watermark lc) (batch_size_get (lc_batch lc)) of
        Inl e \<Rightarrow> (Inl (LcLogRead (log_error_text e)), lc)
      | Inr batch \<Rightarrow>
          if batch = [] then (Inr None, lc)
          else case decode_rows decode (lc_watermark lc) batch of
            Inl e \<Rightarrow> (Inl e, lc)
          | Inr decoded \<Rightarrow>
              let buffer = List.rev decoded in
              if buffer = [] then (Inr None, lc\<lparr> lc_buffer := [] \<rparr>)
              else (Inr (Some (last buffer)), raise_watermark (fst (last buffer)) (lc\<lparr> lc_buffer := butlast buffer \<rparr>)))"

text \<open>What a live source may answer; \<open>next_from_live\<close> consumes answers until it has a result (\<open>None\<close>: it waits).\<close>

datatype 'e recv = RecvEvent 'e | RecvClosed | RecvLagged nat | RecvError string

fun next_from_live ::
  "('e \<Rightarrow> seq option) \<Rightarrow> 'e recv list \<Rightarrow> 'e lifecycle
     \<Rightarrow> (lifecycle_error + (seq \<times> 'e) option) option \<times> 'e recv list \<times> 'e lifecycle" where
  "next_from_live extract [] lc = (None, [], lc)"
| "next_from_live extract (RecvEvent x # os) lc =
     (let q = (case extract x of Some q \<Rightarrow> q | None \<Rightarrow> 0) in
      if q \<noteq> 0 \<and> q \<le> lc_ack lc then next_from_live extract os lc
      else (Some (Inr (Some (q, x))), os, raise_watermark q lc))"
| "next_from_live extract (RecvClosed # os) lc = (Some (Inr None), os, lc)"
| "next_from_live extract (RecvLagged n # os) lc = (Some (Inl (LiveLagged n (lc_ack lc))), os, lc)"
| "next_from_live extract (RecvError m # os) lc = (Some (Inl (LcOther m)), os, lc)"

definition record_ack :: "seq \<Rightarrow> 'e lifecycle \<Rightarrow> 'e lifecycle" where
  "record_ack q lc = (if lc_ack lc < q then lc\<lparr> lc_ack := q \<rparr> else lc)"

subsection \<open>\<open>Subscription::next\<close>\<close>

record 'e pending_retry =
  rq_event :: 'e
  rq_seq :: seq
  rq_attempt :: byte
  rq_ready :: int

record 'e subscription =
  sb_life :: "'e lifecycle"
  sb_live :: bool
  sb_retries :: "'e pending_retry list"

datatype 'e poll = Deliver seq 'e byte | Ended | Again | Waiting

fun take_first :: "('a \<Rightarrow> bool) \<Rightarrow> 'a list \<Rightarrow> ('a \<times> 'a list) option" where
  "take_first P [] = None"
| "take_first P (x # xs) =
     (if P x then Some (x, xs) else map_option (\<lambda>(y, ys). (y, x # ys)) (take_first P xs))"

text \<open>One pass through the loop. The last component says whether the source closed, which terminates the
  subscription. The extractor of sequence numbers is constantly \<open>None\<close>.\<close>

definition next_pass ::
  "('p \<Rightarrow> string + 'e) \<Rightarrow> (domain \<Rightarrow> seq \<Rightarrow> nat \<Rightarrow> log_error + 'p logged_event list) \<Rightarrow> 'e recv list \<Rightarrow> int \<Rightarrow> bool
     \<Rightarrow> 'e subscription \<Rightarrow> 'e poll \<times> 'e recv list \<times> 'e subscription \<times> bool" where
  "next_pass decode read recvs now terminated sb =
     (if terminated then (Ended, recvs, sb, True)
      else case take_first (\<lambda>r. rq_ready r \<le> now) (sb_retries sb) of
        Some (r, rest) \<Rightarrow> (Deliver (rq_seq r) (rq_event r) (rq_attempt r), recvs, sb\<lparr> sb_retries := rest \<rparr>, False)
      | None \<Rightarrow>
      if sb_retries sb \<noteq> [] then (Again, recvs, sb, False)
      else if lc_phase (sb_life sb) = Bootstrap then
        (case next_from_bootstrap decode read (sb_life sb) of
           (Inr (Some f), lc) \<Rightarrow> (Deliver (fst f) (snd f) 0, recvs, sb\<lparr> sb_life := lc \<rparr>, False)
         | (Inr None, lc) \<Rightarrow> (Again, recvs, sb\<lparr> sb_life := lc\<lparr> lc_phase := Live \<rparr> \<rparr>, False)
         | (Inl _, lc) \<Rightarrow> (Again, recvs, sb\<lparr> sb_life := lc \<rparr>, False))
      else if \<not> sb_live sb then (Again, recvs, sb, False)
      else case next_from_live (\<lambda>_. None) recvs (sb_life sb) of
        (None, os, lc) \<Rightarrow> (Waiting, os, sb\<lparr> sb_life := lc \<rparr>, False)
      | (Some (Inr (Some f)), os, lc) \<Rightarrow> (Deliver (fst f) (snd f) 0, os, sb\<lparr> sb_life := lc \<rparr>, False)
      | (Some (Inr None), os, lc) \<Rightarrow> (Ended, os, sb\<lparr> sb_life := lc \<rparr>, True)
      | (Some (Inl (LiveLagged n q)), os, lc) \<Rightarrow> (Again, os, sb\<lparr> sb_life := lc\<lparr> lc_phase := Bootstrap \<rparr> \<rparr>, False)
      | (Some (Inl _), os, lc) \<Rightarrow> (Again, os, sb\<lparr> sb_life := lc \<rparr>, False))"

definition schedule_retry :: "'e \<Rightarrow> seq \<Rightarrow> byte \<Rightarrow> int \<Rightarrow> 'e subscription \<Rightarrow> 'e subscription" where
  "schedule_retry x q attempt ready sb =
     sb\<lparr> sb_retries := sb_retries sb @ [\<lparr> rq_event = x, rq_seq = q, rq_attempt = attempt, rq_ready = ready \<rparr>] \<rparr>"

subsection \<open>Subscribing (\<open>subscription/api.rs\<close>)\<close>

datatype subscribe_error = SubCursor cursor_error | LogInit string | EmptyName

definition resolve_start_from :: "start_from \<Rightarrow> log_error + seq \<Rightarrow> subscribe_error + seq" where
  "resolve_start_from sf head =
     (case sf of
        FromLatest \<Rightarrow> (case head of Inl e \<Rightarrow> Inl (LogInit (log_error_text e)) | Inr h \<Rightarrow> Inr h)
      | FromEarliest \<Rightarrow> Inr 0
      | FromSeq q \<Rightarrow> Inr q)"

definition subscribe ::
  "('c \<Rightarrow> string \<Rightarrow> cursor_error + cursor option) \<Rightarrow> ('c \<Rightarrow> cursor \<Rightarrow> (cursor_error + unit) \<times> 'c)
     \<Rightarrow> log_error + seq \<Rightarrow> string \<Rightarrow> subscription_opts \<Rightarrow> domain \<Rightarrow> int \<Rightarrow> 'p failure_info list \<Rightarrow> 'c
     \<Rightarrow> (subscribe_error + 'e subscription \<times> ('p, 'c) sub_runtime) \<times> 'c" where
  "subscribe fetch up head name opts d now dlq store =
     (if name = [] then (Inl EmptyName, store)
      else case (case fetch store name of
                   Inl e \<Rightarrow> Inl (SubCursor e)
                 | Inr (Some row) \<Rightarrow> Inr (cu_seq row)
                 | Inr None \<Rightarrow> resolve_start_from (so_start opts) head) of
        Inl e \<Rightarrow> (Inl e, store)
      | Inr q \<Rightarrow>
          let st = sub_state_new name (so_consumer opts) d (so_policy opts) (so_flush opts) q now in
          (case up store (as_cursor now st) of
             (Inl e, store') \<Rightarrow> (Inl (SubCursor e), store')
           | (Inr _, store') \<Rightarrow>
               (Inr (\<lparr> sb_life = lifecycle_new q (so_batch opts) d, sb_live = True, sb_retries = [] \<rparr>,
                     \<lparr> rt_state = st, rt_unsent = [], rt_signals = [], rt_dirty = 0, rt_running = True,
                       rt_store = store', rt_dlq = dlq \<rparr>), store')))"

end
