(* ===== verification/Event_Cursor.thy ===== *)
theory Event_Cursor
  imports Event_Subscription
begin

text \<open>
  The runtime of a subscription as a transition system: consumers acknowledge, reject or drop events,
  signals reach the flusher in any order their senders get room, and the flusher handles signals and
  ticks. Its invariant over any cursor store: what is persisted never runs ahead of what was handled,
  and no acknowledgement is forgotten.
\<close>

inductive rt_reach ::
  "('f \<Rightarrow> 'c \<Rightarrow> cursor \<Rightarrow> (cursor_error + unit) \<times> 'c) \<Rightarrow> nat \<Rightarrow> ('p, 'c) sub_runtime \<Rightarrow> seq set \<Rightarrow> ('p, 'c) sub_runtime \<Rightarrow> bool"
  for upsert :: "'f \<Rightarrow> 'c \<Rightarrow> cursor \<Rightarrow> (cursor_error + unit) \<times> 'c" and threshold :: nat and rt0 :: "('p, 'c) sub_runtime" where
  RtStart: "rt_reach upsert threshold rt0 {} rt0"
| RtAck: "rt_reach upsert threshold rt0 A rt \<Longrightarrow> rt_reach upsert threshold rt0 (insert q A) (ack_event q rt)"
| RtNack: "rt_reach upsert threshold rt0 A rt \<Longrightarrow> rt_reach upsert threshold rt0 A (nack_event q reason payload attempt rt)"
| RtDrop: "rt_reach upsert threshold rt0 A rt \<Longrightarrow> rt_reach upsert threshold rt0 A (drop_ack q payload attempt rt)"
| RtSend: "rt_reach upsert threshold rt0 A rt \<Longrightarrow> rt_reach upsert threshold rt0 A (send_waiting i rt)"
| RtClose: "rt_reach upsert threshold rt0 A rt \<Longrightarrow> rt_reach upsert threshold rt0 A (try_send Shutdown rt)"
| RtRecv: "rt_reach upsert threshold rt0 A rt \<Longrightarrow> rt_reach upsert threshold rt0 A (flusher_recv (upsert f) db threshold now rt)"
| RtTick: "rt_reach upsert threshold rt0 A rt \<Longrightarrow> rt_reach upsert threshold rt0 A (flusher_tick (upsert f) now rt)"

subsection \<open>The invariant\<close>

fun counts_up :: "'p flush_signal \<Rightarrow> bool" where
  "counts_up (Dirty n) = (0 < n)"
| "counts_up _ = False"

definition flush_due :: "('p, 'c) sub_runtime \<Rightarrow> bool" where
  "flush_due rt \<longleftrightarrow> 0 < rt_dirty rt \<or> list_ex counts_up (rt_unsent rt) \<or> list_ex counts_up (rt_signals rt)"

definition signals_fit :: "('p, 'c) sub_runtime \<Rightarrow> bool" where
  "signals_fit rt \<longleftrightarrow> length (rt_signals rt) \<le> FLUSH_CHANNEL"

definition handled :: "seq \<Rightarrow> seq set \<Rightarrow> ('p, 'c) sub_runtime \<Rightarrow> seq set" where
  "handled q0 A rt = insert q0 (A \<union> fi_seq ` set (rt_dlq rt))"

context cursor_store
begin

definition saved :: "string \<Rightarrow> ('p, 'c) sub_runtime \<Rightarrow> seq \<Rightarrow> bool" where
  "saved name rt q \<longleftrightarrow> (\<exists>row. fetch (rt_store rt) name = Inr (Some row) \<and> cu_seq row = q)"

definition rt_ok :: "string \<Rightarrow> seq \<Rightarrow> seq set \<Rightarrow> ('p, 'c) sub_runtime \<Rightarrow> bool" where
  "rt_ok name q0 A rt \<longleftrightarrow> ss_name (rt_state rt) = name \<and> signals_fit rt \<and> ss_cursor (rt_state rt) \<in> handled q0 A rt \<and>
     (\<forall>q \<in> A. q \<le> ss_cursor (rt_state rt)) \<and>
     (\<exists>p. saved name rt p \<and> q0 \<le> p \<and> p \<le> ss_cursor (rt_state rt) \<and> p \<in> handled q0 A rt \<and>
        (rt_running rt \<and> \<not> flush_due rt \<longrightarrow> (\<forall>q \<in> A. q \<le> p)))"

lemma rt_okI:
  assumes "rt_ok name q0 A rt" "ss_name (rt_state rt') = ss_name (rt_state rt)" "signals_fit rt'"
    "ss_cursor (rt_state rt) \<le> ss_cursor (rt_state rt')" "ss_cursor (rt_state rt') \<in> handled q0 A' rt'"
    "rt_store rt' = rt_store rt" "handled q0 A rt \<subseteq> handled q0 A' rt'" "\<forall>q \<in> A'. q \<in> A \<or> q \<le> ss_cursor (rt_state rt')"
    "rt_running rt' \<Longrightarrow> \<not> flush_due rt' \<Longrightarrow> A' = A \<and> rt_running rt \<and> \<not> flush_due rt"
  shows "rt_ok name q0 A' rt'"
proof -
  obtain p where p: "saved name rt p" "q0 \<le> p" "p \<le> ss_cursor (rt_state rt)" "p \<in> handled q0 A rt"
    "rt_running rt \<and> \<not> flush_due rt \<longrightarrow> (\<forall>q \<in> A. q \<le> p)"
    using assms(1) unfolding rt_ok_def by blast
  have A: "\<forall>q \<in> A'. q \<le> ss_cursor (rt_state rt')"
    using assms(1,4,8) unfolding rt_ok_def by fastforce
  have "saved name rt' p" using p(1) assms(6) by (simp add: saved_def)
  moreover have "p \<le> ss_cursor (rt_state rt')" using p(3) assms(4) by simp
  moreover have "p \<in> handled q0 A' rt'" using p(4) assms(7) by blast
  moreover have "rt_running rt' \<and> \<not> flush_due rt' \<longrightarrow> (\<forall>q \<in> A'. q \<le> p)" using assms(9) p(5) by blast
  moreover have "ss_name (rt_state rt') = name" using assms(1,2) by (simp add: rt_ok_def)
  ultimately show ?thesis unfolding rt_ok_def using A assms(3,5) p(2) by blast
qed

lemma ack_rt_ok:
  assumes "rt_ok name q0 A rt" shows "rt_ok name q0 (insert q A) (ack_event q rt)"
proof (rule rt_okI[OF assms])
  have c: "ss_cursor (rt_state (ack_event q rt)) = max (ss_cursor (rt_state rt)) q"
    by (simp add: ack_event_def Let_def max_def)
  show "ss_cursor (rt_state (ack_event q rt)) \<in> handled q0 (insert q A) (ack_event q rt)"
    using assms unfolding c rt_ok_def by (auto simp: ack_event_def Let_def handled_def max_def)
  show "ss_cursor (rt_state rt) \<le> ss_cursor (rt_state (ack_event q rt))" unfolding c by simp
  show "\<forall>x \<in> insert q A. x \<in> A \<or> x \<le> ss_cursor (rt_state (ack_event q rt))" unfolding c by simp
  have "flush_due (ack_event q rt)" by (simp add: flush_due_def ack_event_def Let_def)
  then show "rt_running (ack_event q rt) \<Longrightarrow> \<not> flush_due (ack_event q rt) \<Longrightarrow>
      insert q A = A \<and> rt_running rt \<and> \<not> flush_due rt" by blast
qed (use assms in \<open>auto simp: ack_event_def Let_def handled_def rt_ok_def signals_fit_def\<close>)

lemma try_send_sel:
  "rt_state (try_send s rt) = rt_state rt" "rt_store (try_send s rt) = rt_store rt" "rt_dlq (try_send s rt) = rt_dlq rt"
  "rt_running (try_send s rt) = rt_running rt" "flush_due rt \<Longrightarrow> flush_due (try_send s rt)"
  "signals_fit rt \<Longrightarrow> signals_fit (try_send s rt)"
  by (auto simp: try_send_def flush_due_def signals_fit_def)

lemma try_send_rt_ok:
  assumes "rt_ok name q0 A rt" shows "rt_ok name q0 A (try_send s rt)"
  by (rule rt_okI[OF assms]) (use assms try_send_sel(5)[of rt s] in \<open>auto simp: try_send_sel handled_def rt_ok_def\<close>)

lemma nack_rt_ok:
  assumes "rt_ok name q0 A rt" shows "rt_ok name q0 A (nack_event q reason payload attempt rt)"
  by (rule rt_okI[OF assms]) (use assms in \<open>auto simp: nack_event_def handled_def rt_ok_def signals_fit_def flush_due_def\<close>)

lemma list_ex_remove:
  "i < length xs \<Longrightarrow> list_ex P xs \<longleftrightarrow> list_ex P (take i xs @ drop (Suc i) xs) \<or> P (xs ! i)"
  by (subst id_take_nth_drop[of i xs], assumption) auto

lemma send_rt_ok:
  assumes "rt_ok name q0 A rt" shows "rt_ok name q0 A (send_waiting i rt)"
proof (rule rt_okI[OF assms])
  show "rt_running (send_waiting i rt) \<Longrightarrow> \<not> flush_due (send_waiting i rt) \<Longrightarrow> A = A \<and> rt_running rt \<and> \<not> flush_due rt"
    using list_ex_remove[of i "rt_unsent rt" counts_up]
    by (auto simp: send_waiting_def Let_def flush_due_def split: if_splits)
qed (use assms in \<open>auto simp: send_waiting_def Let_def handled_def rt_ok_def signals_fit_def\<close>)

lemma rt_ok_saved:
  assumes "ss_name (rt_state rt) = name" "signals_fit rt" "ss_cursor (rt_state rt) \<in> handled q0 A rt"
    "\<forall>q \<in> A. q \<le> ss_cursor (rt_state rt)" "saved name rt p" "q0 \<le> p" "p \<le> ss_cursor (rt_state rt)"
    "p \<in> handled q0 A rt" "rt_running rt \<Longrightarrow> \<not> flush_due rt \<Longrightarrow> \<forall>q \<in> A. q \<le> p"
  shows "rt_ok name q0 A rt"
  unfolding rt_ok_def using assms by blast

lemma flush_rt_ok:
  assumes "rt_ok name q0 A rt" shows "rt_ok name q0 A (do_flush (upsert f) now rt)"
proof -
  let ?c = "as_cursor now (rt_state rt)" and ?rt = "do_flush (upsert f) now rt"
  obtain p where inv: "ss_name (rt_state rt) = name" "signals_fit rt" "ss_cursor (rt_state rt) \<in> handled q0 A rt"
    "\<forall>q \<in> A. q \<le> ss_cursor (rt_state rt)" "saved name rt p" "q0 \<le> p" "p \<le> ss_cursor (rt_state rt)" "p \<in> handled q0 A rt"
    using assms unfolding rt_ok_def by blast
  obtain x s where u: "upsert f (rt_store rt) ?c = (x, s)" by fastforce
  have nm: "cu_name ?c = name" "cu_seq ?c = ss_cursor (rt_state rt)"
    using inv(1) by (simp_all add: as_cursor_def)
  have sel: "ss_name (rt_state ?rt) = ss_name (rt_state rt)" "ss_cursor (rt_state ?rt) = ss_cursor (rt_state rt)"
    "rt_store ?rt = s" "rt_dlq ?rt = rt_dlq rt" "rt_signals ?rt = rt_signals rt"
    using u by (simp_all add: do_flush_def Let_def split: sum.split)
  have h: "handled q0 A ?rt = handled q0 A rt" "signals_fit ?rt" using inv(2) by (simp_all add: handled_def signals_fit_def sel)
  show ?thesis
  proof (cases x)
    case (Inr y)
    have "saved name ?rt (ss_cursor (rt_state rt))"
      using upsert_fetch[of f "rt_store rt" ?c s] u Inr nm by (auto simp: saved_def sel)
    then show ?thesis
      by (rule rt_ok_saved[rotated 4]) (use inv in \<open>simp_all add: sel h\<close>)
  next
    case (Inl e)
    have due: "flush_due ?rt" using u Inl by (simp add: do_flush_def Let_def flush_due_def sat_add_def)
    have "saved name ?rt p"
      using upsert_failed[of f "rt_store rt" ?c e s] u Inl inv(5) by (simp add: saved_def sel)
    then show ?thesis
      by (rule rt_ok_saved[rotated 4]) (use inv due in \<open>simp_all add: sel h\<close>)
  qed
qed

lemma flush_if_rt_ok: "rt_ok name q0 A rt \<Longrightarrow> rt_ok name q0 A (flush_if_dirty (upsert f) now rt)"
  by (simp add: flush_if_dirty_def flush_rt_ok)

lemma route_dlq: "route_failure policy db info dlq = (x, dlq') \<Longrightarrow>
    (dlq' = dlq \<and> x \<noteq> Inr OutDlqd) \<or> (dlq' = dlq @ [info])"
  by (auto simp: route_failure_def dlq_record_def Let_def split: failure_policy.splits option.splits if_splits)

lemma nack_handled_rt_ok:
  assumes "rt_ok name q0 A rt" shows "rt_ok name q0 A (handle_nack db q reason payload attempt rt)"
proof -
  let ?info = "build_failure_info (ss_name (rt_state rt)) q reason payload attempt"
  obtain x dlq where r: "route_failure (ss_policy (rt_state rt)) db ?info (rt_dlq rt) = (x, dlq)" by fastforce
  note d = route_dlq[OF r]
  have q: "fi_seq ?info = q" by (simp add: build_failure_info_def)
  have grow: "set (rt_dlq rt) \<subseteq> set dlq" using d by auto
  let ?rt = "handle_nack db q reason payload attempt rt"
  have rt: "rt_dlq ?rt = dlq \<and> ss_name (rt_state ?rt) = ss_name (rt_state rt) \<and> rt_store ?rt = rt_store rt \<and>
      rt_running ?rt = rt_running rt \<and> rt_dirty ?rt = rt_dirty rt \<and> rt_signals ?rt = rt_signals rt \<and>
      rt_unsent ?rt = rt_unsent rt \<and> (ss_cursor (rt_state ?rt) = ss_cursor (rt_state rt) \<or>
        x = Inr OutDlqd \<and> ss_cursor (rt_state rt) < q \<and> ss_cursor (rt_state ?rt) = q)"
    using r by (auto simp: handle_nack_def Let_def split: sum.splits failure_outcome.splits)
  have h: "handled q0 A rt \<subseteq> handled q0 A ?rt" using grow rt by (auto simp: handled_def)
  have cur: "ss_cursor (rt_state ?rt) \<in> handled q0 A ?rt"
  proof (cases "ss_cursor (rt_state ?rt) = ss_cursor (rt_state rt)")
    case True
    with h assms show ?thesis by (auto simp: rt_ok_def)
  next
    case False
    then have "x = Inr OutDlqd" "ss_cursor (rt_state ?rt) = q" using rt by blast+
    moreover from this d have "dlq = rt_dlq rt @ [?info]" by auto
    ultimately show ?thesis using rt q by (auto simp: handled_def)
  qed
  show ?thesis
  proof (rule rt_okI[OF assms _ _ _ cur _ h])
    show "ss_name (rt_state ?rt) = ss_name (rt_state rt)" "rt_store ?rt = rt_store rt" using rt by blast+
    show "signals_fit ?rt" using assms rt by (simp add: rt_ok_def signals_fit_def)
    show "ss_cursor (rt_state rt) \<le> ss_cursor (rt_state ?rt)" using rt by fastforce
    show "\<forall>q \<in> A. q \<in> A \<or> q \<le> ss_cursor (rt_state ?rt)" by simp
    show "rt_running ?rt \<Longrightarrow> \<not> flush_due ?rt \<Longrightarrow> A = A \<and> rt_running rt \<and> \<not> flush_due rt"
      using rt by (simp add: flush_due_def)
  qed
qed

lemma stop_rt_ok:
  assumes "rt_ok name q0 A rt" shows "rt_ok name q0 A (rt\<lparr> rt_running := False, rt_signals := [] \<rparr>)"
  by (rule rt_okI[OF assms]) (use assms in \<open>simp_all add: rt_ok_def signals_fit_def handled_def\<close>)

lemma dirty_rt_ok:
  assumes "rt_ok name q0 A (rt\<lparr> rt_signals := Dirty n # rt_signals rt \<rparr>)"
  shows "rt_ok name q0 A (rt\<lparr> rt_dirty := sat_add (rt_dirty rt) n \<rparr>)"
proof (rule rt_okI[OF assms])
  have "sat_add (rt_dirty rt) n = 0 \<longleftrightarrow> rt_dirty rt = 0 \<and> n = 0" by (auto simp: sat_add_def)
  then show "rt_running (rt\<lparr> rt_dirty := sat_add (rt_dirty rt) n \<rparr>) \<Longrightarrow> \<not> flush_due (rt\<lparr> rt_dirty := sat_add (rt_dirty rt) n \<rparr>) \<Longrightarrow>
      A = A \<and> rt_running (rt\<lparr> rt_signals := Dirty n # rt_signals rt \<rparr>) \<and> \<not> flush_due (rt\<lparr> rt_signals := Dirty n # rt_signals rt \<rparr>)"
    by (auto simp: flush_due_def)
qed (use assms in \<open>simp_all add: rt_ok_def signals_fit_def handled_def\<close>)

lemma drop_signal_rt_ok:
  assumes "rt_ok name q0 A (rt\<lparr> rt_signals := s # rt_signals rt \<rparr>)" "\<not> counts_up s"
  shows "rt_ok name q0 A rt"
  by (rule rt_okI[OF assms(1)]) (use assms in \<open>simp_all add: rt_ok_def signals_fit_def handled_def flush_due_def\<close>)

lemma signal_rt_ok:
  assumes "rt_ok name q0 A (rt\<lparr> rt_signals := s # rt_signals rt \<rparr>)"
  shows "rt_ok name q0 A (handle_signal (upsert f) db threshold now s rt)"
proof (cases s)
  case (Dirty n)
  from dirty_rt_ok[OF assms[unfolded Dirty]] have d: "rt_ok name q0 A (rt\<lparr> rt_dirty := sat_add (rt_dirty rt) n \<rparr>)" .
  show ?thesis using d flush_rt_ok[OF d] by (simp add: handle_signal_def Dirty Let_def)
next
  case Force
  then show ?thesis using flush_rt_ok[OF drop_signal_rt_ok[OF assms]] by (simp add: handle_signal_def)
next
  case Shutdown
  then show ?thesis using stop_rt_ok[OF flush_if_rt_ok[OF drop_signal_rt_ok[OF assms]]] by (simp add: handle_signal_def)
next
  case (Nack q reason payload attempt)
  then show ?thesis using nack_handled_rt_ok[OF drop_signal_rt_ok[OF assms]] by (simp add: handle_signal_def)
qed

lemma recv_rt_ok:
  assumes "rt_ok name q0 A rt" shows "rt_ok name q0 A (flusher_recv (upsert f) db threshold now rt)"
proof (cases "rt_running rt \<and> rt_signals rt \<noteq> []")
  case True
  then obtain s ss where s: "rt_signals rt = s # ss" by (cases "rt_signals rt") auto
  have "rt = (rt\<lparr> rt_signals := ss \<rparr>)\<lparr> rt_signals := s # rt_signals (rt\<lparr> rt_signals := ss \<rparr>) \<rparr>" using s by simp
  with assms have "rt_ok name q0 A ((rt\<lparr> rt_signals := ss \<rparr>)\<lparr> rt_signals := s # rt_signals (rt\<lparr> rt_signals := ss \<rparr>) \<rparr>)"
    by metis
  from signal_rt_ok[OF this] True s show ?thesis by (simp add: flusher_recv_def)
next
  case False
  with assms show ?thesis by (auto simp: flusher_recv_def split: list.split)
qed

lemma reach_rt_ok:
  assumes "rt_reach upsert threshold rt0 A rt" "rt_ok name q0 {} rt0"
  shows "rt_ok name q0 A rt"
  using assms
proof (induction rule: rt_reach.induct)
  case (RtTick A rt f now)
  then show ?case by (simp add: flusher_tick_def flush_if_rt_ok)
qed (simp_all add: ack_rt_ok nack_rt_ok drop_ack_def try_send_rt_ok send_rt_ok recv_rt_ok)

text \<open>A fresh subscription starts in the invariant, at the persisted cursor if there is one.\<close>

lemma subscribe_rt_ok:
  assumes "subscribe fetch (upsert f) head name opts d now dlq store = (Inr (sb, rt), store')"
  shows "rt_ok name (ss_cursor (rt_state rt)) {} rt"
    "fetch store name = Inr (Some row) \<Longrightarrow> ss_cursor (rt_state rt) = cu_seq row"
    "lc_watermark (sb_life sb) = ss_cursor (rt_state rt)"
proof -
  obtain q where q: "(case fetch store name of Inl e \<Rightarrow> Inl (SubCursor e) | Inr (Some row) \<Rightarrow> Inr (cu_seq row)
      | Inr None \<Rightarrow> resolve_start_from (so_start opts) head) = Inr q"
    using assms by (auto simp: subscribe_def Let_def split: if_splits sum.splits)
  let ?st = "sub_state_new name (so_consumer opts) d (so_policy opts) (so_flush opts) q now"
  obtain x s where u: "upsert f store (as_cursor now ?st) = (x, s)" by fastforce
  have s: "x = Inr ()" "rt_state rt = ?st" "rt_store rt = s" "rt_signals rt = []" "rt_unsent rt = []"
    "sb_life sb = lifecycle_new q (so_batch opts) d" "rt_dlq rt = dlq"
    using assms q u by (auto simp: subscribe_def Let_def split: if_splits sum.splits)
  have c: "ss_cursor ?st = q" "ss_name ?st = name" by (simp_all add: sub_state_new_def)
  have "saved name rt q"
    using upsert_fetch[of f store "as_cursor now ?st" s] u s(1,3) by (auto simp: saved_def as_cursor_def c)
  then show "rt_ok name (ss_cursor (rt_state rt)) {} rt"
    using s by (auto simp: rt_ok_def c signals_fit_def handled_def)
  show "fetch store name = Inr (Some row) \<Longrightarrow> ss_cursor (rt_state rt) = cu_seq row" using q s(2) c by simp
  show "lc_watermark (sb_life sb) = ss_cursor (rt_state rt)" using s c by (simp add: lifecycle_new_def)
qed

end

end
