(* ===== verification/Event_Delivery.thy ===== *)
theory Event_Delivery
  imports Event_Cursor
begin

text \<open>
  The bus end to end: a log that grows, the tail loop that publishes its rows one by one, the receiver
  of one subscription on the topic of its domain, and the subscription that first pulls history and then
  takes live events. A value waiting in the receiver carries the number of its row, which the program does
  not have; a delivery is recorded with it.
\<close>

record ('s, 'p, 'e) bus =
  bu_log :: 's
  bu_last :: seq
  bu_batch :: "'p logged_event list"
  bu_queue :: "(seq \<times> 'e) list"
  bu_lagged :: bool
  bu_sub :: "'e subscription"
  bu_ended :: bool
  bu_out :: "(seq \<times> 'e) list"

text \<open>The tail loop handles a row: what it publishes on the topic of the domain reaches the receiver.\<close>

definition to_receiver :: "domain \<Rightarrow> (seq \<times> event_type \<times> 'e) list \<Rightarrow> (seq \<times> 'e) list" where
  "to_receiver d xs = map (\<lambda>(q, ty, x). (q, x)) (filter (\<lambda>(q, ty, x). event_domain ty = d) xs)"

definition bus_dispatch ::
  "topic_registry \<Rightarrow> (event_type \<Rightarrow> 'p \<Rightarrow> string + 'e) \<Rightarrow> (ctl_domain \<Rightarrow> bool) \<Rightarrow> ('s, 'p, 'e) bus \<Rightarrow> ('s, 'p, 'e) bus" where
  "bus_dispatch reg decode gate st =
     (case bu_batch st of [] \<Rightarrow> st
      | e # es \<Rightarrow> st\<lparr> bu_batch := es, bu_last := le_seq e,
          bu_queue := bu_queue st @ to_receiver (lc_domain (sb_life (bu_sub st))) (sent reg decode gate e) \<rparr>)"

text \<open>What the receiver answers: that it lagged, or the oldest value.\<close>

definition receive :: "nat \<Rightarrow> ('s, 'p, 'e) bus \<Rightarrow> 'e recv list" where
  "receive n st = (if bu_lagged st then [RecvLagged n] else case bu_queue st of [] \<Rightarrow> [] | x # xs \<Rightarrow> [RecvEvent (snd x)])"

text \<open>One pass of \<open>next\<close>. A delivery from history has the number of its row; a live one is the oldest value
  of the receiver.\<close>

definition bus_next ::
  "('p \<Rightarrow> string + 'e) \<Rightarrow> (domain \<Rightarrow> seq \<Rightarrow> nat \<Rightarrow> log_error + 'p logged_event list) \<Rightarrow> nat \<Rightarrow> int
     \<Rightarrow> ('s, 'p, 'e) bus \<Rightarrow> ('s, 'p, 'e) bus" where
  "bus_next decode read n now st =
     (case next_pass decode read (receive n st) now (bu_ended st) (bu_sub st) of
        (p, rest, sb, ended) \<Rightarrow>
          let st = (if rest = [] \<and> receive n st \<noteq> [] then
                      (if bu_lagged st then st\<lparr> bu_lagged := False \<rparr> else st\<lparr> bu_queue := tl (bu_queue st) \<rparr>)
                    else st)\<lparr> bu_sub := sb, bu_ended := ended,
                      bu_out := bu_out st @
                        (case p of
                           Deliver q x a \<Rightarrow>
                             [(if lc_phase (sb_life (bu_sub st)) = Live then fst (hd (bu_queue st)) else q, x)]
                         | _ \<Rightarrow> []) \<rparr> in st)"

text \<open>A subscription that starts behind \<open>start\<close> while the dispatcher is at \<open>last\<close> with the rows \<open>es\<close> in hand.\<close>

definition bus_start :: "'s \<Rightarrow> seq \<Rightarrow> 'p logged_event list \<Rightarrow> event_type \<Rightarrow> seq \<Rightarrow> nat \<Rightarrow> ('s, 'p, 'e) bus" where
  "bus_start s q es ty start batch =
     \<lparr> bu_log = s, bu_last = q, bu_batch = es, bu_queue = [], bu_lagged = False,
       bu_sub = \<lparr> sb_life = lifecycle_new start batch (event_domain ty), sb_live = True, sb_retries = [] \<rparr>,
       bu_ended = False, bu_out = [] \<rparr>"

text \<open>The domain of the subscription is not paused when one of its rows is dispatched; any other may be.\<close>

inductive bus_reach ::
  "('s \<Rightarrow> 's \<Rightarrow> bool) \<Rightarrow> ('f \<Rightarrow> 's \<Rightarrow> domain \<Rightarrow> seq \<Rightarrow> nat \<Rightarrow> log_error + 'p logged_event list)
     \<Rightarrow> ('f \<Rightarrow> 's \<Rightarrow> seq \<Rightarrow> nat \<Rightarrow> tail_error + 'p logged_event list)
     \<Rightarrow> topic_registry \<Rightarrow> (event_type \<Rightarrow> 'p \<Rightarrow> string + 'e) \<Rightarrow> event_type \<Rightarrow> ('s, 'p, 'e) bus \<Rightarrow> ('s, 'p, 'e) bus \<Rightarrow> bool"
  for grow :: "'s \<Rightarrow> 's \<Rightarrow> bool" and read :: "'f \<Rightarrow> 's \<Rightarrow> domain \<Rightarrow> seq \<Rightarrow> nat \<Rightarrow> log_error + 'p logged_event list"
    and tail :: "'f \<Rightarrow> 's \<Rightarrow> seq \<Rightarrow> nat \<Rightarrow> tail_error + 'p logged_event list" and reg :: topic_registry
    and decode :: "event_type \<Rightarrow> 'p \<Rightarrow> string + 'e" and ty :: event_type and st0 :: "('s, 'p, 'e) bus" where
  BusStart: "bus_reach grow read tail reg decode ty st0 st0"
| BusGrow: "bus_reach grow read tail reg decode ty st0 st \<Longrightarrow> grow (bu_log st) s' \<Longrightarrow> bus_reach grow read tail reg decode ty st0 (st\<lparr> bu_log := s' \<rparr>)"
| BusRead: "bus_reach grow read tail reg decode ty st0 st \<Longrightarrow> bu_batch st = [] \<Longrightarrow>
    tail f (bu_log st) (bu_last st) TAIL_BATCH_LIMIT = Inr es \<Longrightarrow> bus_reach grow read tail reg decode ty st0 (st\<lparr> bu_batch := es \<rparr>)"
| BusDispatch: "bus_reach grow read tail reg decode ty st0 st \<Longrightarrow> \<not> is_domain_paused gate (event_domain ty) \<Longrightarrow>
    bus_reach grow read tail reg decode ty st0 (bus_dispatch reg decode gate st)"
| BusLag: "bus_reach grow read tail reg decode ty st0 st \<Longrightarrow> bu_queue st = x # xs \<Longrightarrow> bus_reach grow read tail reg decode ty st0 (st\<lparr> bu_queue := xs, bu_lagged := True \<rparr>)"
| BusNext: "bus_reach grow read tail reg decode ty st0 st \<Longrightarrow> bus_reach grow read tail reg decode ty st0 (bus_next (decode ty) (read f (bu_log st)) n now st)"
| BusClose: "bus_reach grow read tail reg decode ty st0 st \<Longrightarrow> bus_reach grow read tail reg decode ty st0 (st\<lparr> bu_ended := True \<rparr>)"

subsection \<open>The invariant\<close>

text \<open>The rows a subscription is owed: of its domain, behind its start, and of the shape of its event type.\<close>

definition owed :: "(event_type \<Rightarrow> 'p \<Rightarrow> string + 'e) \<Rightarrow> event_type \<Rightarrow> seq \<Rightarrow> 'p logged_event list \<Rightarrow> (seq \<times> 'e) set" where
  "owed decode ty start es =
     {(le_seq e, x) | e x. e \<in> set es \<and> le_domain e = event_domain ty \<and> start < le_seq e \<and> decode ty (le_payload e) = Inr x}"

definition buffer_is :: "(event_type \<Rightarrow> 'p \<Rightarrow> string + 'e) \<Rightarrow> event_type \<Rightarrow> seq \<Rightarrow> (seq \<times> 'e) list \<Rightarrow> 'p logged_event list \<Rightarrow> bool" where
  "buffer_is decode ty w buf es \<longleftrightarrow>
     (\<exists>rows. rows = take (length buf) (behind (event_domain ty) w es) \<and>
       list_all2 (\<lambda>e f. fst f = le_seq e \<and> decode ty (le_payload e) = Inr (snd f)) rows (List.rev buf))"

text \<open>What is still owed is behind the watermark while history is pulled; when live it is in the receiver, behind
  the dispatcher, or the receiver knows that it lagged.\<close>

definition in_hand :: "seq \<Rightarrow> 'p logged_event list \<Rightarrow> 'p logged_event list \<Rightarrow> bool" where
  "in_hand q batch es \<longleftrightarrow> batch = take (length batch) (after q es)"

definition bus_ok :: "(event_type \<Rightarrow> 'p \<Rightarrow> string + 'e) \<Rightarrow> event_type \<Rightarrow> seq \<Rightarrow> 'p logged_event list \<Rightarrow> ('s, 'p, 'e) bus \<Rightarrow> bool" where
  "bus_ok decode ty start es st \<longleftrightarrow>
     (let lc = sb_life (bu_sub st) in
      sb_live (bu_sub st) \<and> sb_retries (bu_sub st) = [] \<and> lc_domain lc = event_domain ty \<and> start \<le> lc_watermark lc \<and>
      (lc_watermark lc = start \<or> lc_watermark lc = 0 \<or> (\<exists>e \<in> set es. lc_watermark lc = le_seq e)) \<and>
      (lc_phase lc = Bootstrap \<or> lc_phase lc = Live) \<and>
      in_hand (bu_last st) (bu_batch st) es \<and>
      (bu_last st = 0 \<or> (\<exists>e \<in> set es. bu_last st = le_seq e)) \<and>
      buffer_is decode ty (lc_watermark lc) (lc_buffer lc) es \<and>
      (\<forall>f \<in> owed decode ty start es. f \<in> set (bu_out st) \<or> lc_watermark lc < fst f) \<and>
      (lc_phase lc = Live \<longrightarrow> lc_buffer lc = [] \<and> (bu_lagged st \<or>
         (\<forall>f \<in> owed decode ty start es. f \<in> set (bu_out st) \<or> f \<in> set (bu_queue st) \<or> bu_last st < fst f))))"

lemma first_behind:
  assumes "ascending es" "behind d a es = e # xs"
  shows "e \<in> set es" "le_domain e = d" "a < le_seq e" "behind d (le_seq e) es = xs"
    "y \<in> set es \<Longrightarrow> le_domain y = d \<Longrightarrow> a < le_seq y \<Longrightarrow> y = e \<or> le_seq e < le_seq y"
proof -
  have e: "e \<in> set (behind d a es)" using assms(2) by simp
  then show "e \<in> set es" "le_domain e = d" "a < le_seq e" by (auto simp: behind_def)
  show "behind d (le_seq e) es = xs"
    using behind_after_take[OF assms(1), of 1 d a] assms(2) by simp
  show "y = e \<or> le_seq e < le_seq y" if "y \<in> set es" "le_domain y = d" "a < le_seq y"
  proof -
    have "y \<in> set (e # xs)" using that assms(2)[symmetric] by (simp add: behind_def)
    moreover have "ascending (e # xs)" using ascending_filter[OF assms(1)] assms(2) by (metis behind_def)
    ultimately show ?thesis by (auto simp: ascending_Cons)
  qed
qed

lemma same_row: "ascending es \<Longrightarrow> x \<in> set es \<Longrightarrow> y \<in> set es \<Longrightarrow> le_seq x = le_seq y \<Longrightarrow> x = y"
  by (induction es) (auto simp: ascending_Cons)

lemma first_after:
  assumes "ascending es" "after a es = e # xs"
  shows "e \<in> set es" "a < le_seq e" "after (le_seq e) es = xs"
    "y \<in> set es \<Longrightarrow> a < le_seq y \<Longrightarrow> y = e \<or> le_seq e < le_seq y"
proof -
  have "e \<in> set (after a es)" using assms(2) by simp
  then show "e \<in> set es" "a < le_seq e" by (auto simp: after_def)
  show "after (le_seq e) es = xs" using after_take[OF assms(1), of 1 a] assms(2) by simp
  show "y = e \<or> le_seq e < le_seq y" if "y \<in> set es" "a < le_seq y"
  proof -
    have "y \<in> set (e # xs)" using that assms(2)[symmetric] by (simp add: after_def)
    moreover have "ascending (e # xs)" using ascending_filter[OF assms(1)] assms(2) by (metis after_def)
    ultimately show ?thesis by (auto simp: ascending_Cons)
  qed
qed

lemma decode_rows_Inr:
  "decode_rows dec w rs = Inr xs \<Longrightarrow> \<forall>r \<in> set rs. w < le_seq r \<Longrightarrow>
     list_all2 (\<lambda>e f. fst f = le_seq e \<and> dec (le_payload e) = Inr (snd f)) rs xs"
  by (induction rs arbitrary: xs) (auto simp: bind_res_Inr split: sum.splits)

lemma raise_watermark_sel [simp]:
  "lc_buffer (raise_watermark q lc) = lc_buffer lc" "lc_domain (raise_watermark q lc) = lc_domain lc"
  "lc_phase (raise_watermark q lc) = lc_phase lc" "lc_watermark (raise_watermark q lc) = max (lc_watermark lc) q"
  by (simp_all add: raise_watermark_def max_def)

text \<open>A pull from history delivers the first row behind the watermark, or finds none.\<close>

lemma bootstrap_pull:
  assumes a: "ascending es" and b: "buffer_is decode ty (lc_watermark lc) (lc_buffer lc) es"
    and d: "lc_domain lc = event_domain ty"
    and read: "\<And>c n rs. read (event_domain ty) c n = Inr rs \<Longrightarrow> rs = take n (behind (event_domain ty) c es)"
    and r: "next_from_bootstrap (decode ty) read lc = (Inr (Some f), lc')"
  obtains e where "e \<in> set es" "le_domain e = event_domain ty" "lc_watermark lc < le_seq e" "fst f = le_seq e"
    "decode ty (le_payload e) = Inr (snd f)" "lc_watermark lc' = le_seq e" "lc_phase lc' = lc_phase lc"
    "lc_domain lc' = lc_domain lc" "buffer_is decode ty (le_seq e) (lc_buffer lc') es"
    "\<And>y. y \<in> set es \<Longrightarrow> le_domain y = event_domain ty \<Longrightarrow> lc_watermark lc < le_seq y \<Longrightarrow> y = e \<or> le_seq e < le_seq y"
proof -
  let ?w = "lc_watermark lc" and ?d = "event_domain ty"
  have "\<exists>buf. buf \<noteq> [] \<and> buffer_is decode ty ?w buf es \<and> f = last buf \<and>
      lc' = raise_watermark (fst f) (lc\<lparr> lc_buffer := butlast buf \<rparr>)"
  proof (cases "lc_buffer lc = []")
    case False
    with r b show ?thesis by (auto simp: next_from_bootstrap_def Let_def)
  next
    case True
    then obtain rs xs where rs: "read ?d ?w (batch_size_get (lc_batch lc)) = Inr rs" "decode_rows (decode ty) ?w rs = Inr xs"
      and xs: "xs \<noteq> []" "f = last (List.rev xs)" "lc' = raise_watermark (fst f) (lc\<lparr> lc_buffer := butlast (List.rev xs) \<rparr>)"
      using r d by (auto simp: next_from_bootstrap_def Let_def split: sum.splits if_splits)
    note rs_eq = read[OF rs(1)]
    have "\<forall>r \<in> set rs. ?w < le_seq r" unfolding rs_eq by (auto simp: behind_def dest: in_set_takeD)
    from decode_rows_Inr[OF rs(2) this] have l: "list_all2 (\<lambda>e f. fst f = le_seq e \<and> decode ty (le_payload e) = Inr (snd f)) rs xs" .
    then have len: "length xs = length rs" by (simp add: list_all2_lengthD)
    have "rs = take (length rs) (behind ?d ?w es)" unfolding rs_eq by (simp add: min_def)
    with l len have "buffer_is decode ty ?w (List.rev xs) es" by (auto simp: buffer_is_def)
    with xs show ?thesis by (intro exI[of _ "List.rev xs"]) auto
  qed
  then obtain buf where buf: "buf \<noteq> []" "buffer_is decode ty ?w buf es" "f = last buf"
    "lc' = raise_watermark (fst f) (lc\<lparr> lc_buffer := butlast buf \<rparr>)" by blast
  then obtain b' where bb: "buf = b' @ [f]" by (metis append_butlast_last_id)
  obtain rows where rows: "rows = take (length buf) (behind ?d ?w es)"
    "list_all2 (\<lambda>e f. fst f = le_seq e \<and> decode ty (le_payload e) = Inr (snd f)) rows (f # List.rev b')"
    using buf(2) bb by (auto simp: buffer_is_def)
  then obtain e rest where e: "rows = e # rest" "fst f = le_seq e" "decode ty (le_payload e) = Inr (snd f)"
    "list_all2 (\<lambda>e f. fst f = le_seq e \<and> decode ty (le_payload e) = Inr (snd f)) rest (List.rev b')"
    by (auto simp: list_all2_Cons2)
  obtain xs where be: "behind ?d ?w es = e # xs" "rest = take (length b') xs"
    using rows(1) e(1) bb by (cases "behind ?d ?w es") auto
  note h = first_behind[OF a be(1)]
  have "buffer_is decode ty (le_seq e) b' es" using e(4) be(2) h(4) by (auto simp: buffer_is_def)
  with that[OF h(1-3) e(2,3)] h(3,5) buf(4) e(2) bb show ?thesis by auto
qed

lemma bootstrap_end:
  assumes "lc_domain lc = event_domain ty"
    and read: "\<And>c n rs. read (event_domain ty) c n = Inr rs \<Longrightarrow> rs = take n (behind (event_domain ty) c es)"
    and r: "next_from_bootstrap (decode ty) read lc = (Inr None, lc')"
  shows "behind (event_domain ty) (lc_watermark lc) es = []" "lc_buffer lc' = []" "lc_watermark lc' = lc_watermark lc"
    "lc_domain lc' = lc_domain lc"
proof -
  let ?n = "batch_size_get (lc_batch lc)"
  have n: "0 < ?n" by (simp add: batch_size_get_def)
  have b: "lc_buffer lc = []" using r by (auto simp: next_from_bootstrap_def Let_def split: if_splits)
  obtain rs where rs: "read (event_domain ty) (lc_watermark lc) ?n = Inr rs"
    using r b assms(1) by (auto simp: next_from_bootstrap_def Let_def split: sum.splits)
  note eq = read[OF rs]
  have w: "\<forall>r \<in> set rs. lc_watermark lc < le_seq r" unfolding eq by (auto simp: behind_def dest: in_set_takeD)
  have "rs = []"
  proof (rule ccontr)
    assume ne: "rs \<noteq> []"
    then obtain xs where xs: "decode_rows (decode ty) (lc_watermark lc) rs = Inr xs" "xs = []"
      using r b rs assms(1) by (auto simp: next_from_bootstrap_def Let_def split: sum.splits if_splits)
    from decode_rows_Inr[OF xs(1) w] xs(2) ne show False by simp
  qed
  then show "behind (event_domain ty) (lc_watermark lc) es = []" using eq n by (cases ?n) auto
  show "lc_buffer lc' = []" "lc_watermark lc' = lc_watermark lc" "lc_domain lc' = lc_domain lc"
    using r b rs \<open>rs = []\<close> assms(1) by (auto simp: next_from_bootstrap_def)
qed

subsection \<open>Every step keeps the invariant\<close>

lemma owedD:
  "f \<in> owed decode ty start es \<Longrightarrow> \<exists>e \<in> set es. le_domain e = event_domain ty \<and> start < le_seq e \<and>
     fst f = le_seq e \<and> decode ty (le_payload e) = Inr (snd f)"
  by (auto simp: owed_def)

lemma bus_ok_same:
  assumes "bus_ok decode ty start es st" "bu_sub st' = bu_sub st" "bu_batch st' = bu_batch st" "bu_last st' = bu_last st"
    "bu_out st' = bu_out st" "bu_queue st' = bu_queue st \<or> bu_lagged st'" "bu_lagged st \<longrightarrow> bu_lagged st'"
  shows "bus_ok decode ty start es st'"
  using assms unfolding bus_ok_def Let_def by auto

lemma dispatched_row:
  assumes "any_topic reg (event_domain ty) = Some ty" "\<not> is_domain_paused gate (event_domain ty)"
    "le_domain e = event_domain ty" "decode ty (le_payload e) = Inr x"
  shows "(le_seq e, x) \<in> set (to_receiver (event_domain ty) (sent reg decode gate e))"
  using assms by (simp add: sent_def dispatch_one_def to_receiver_def)

lemma dispatch_bus_ok:
  assumes a: "ascending es" and ok: "bus_ok decode ty start es st"
    and reg: "any_topic reg (event_domain ty) = Some ty" "\<not> is_domain_paused gate (event_domain ty)"
  shows "bus_ok decode ty start es (bus_dispatch reg decode gate st)"
proof (cases "bu_batch st")
  case Nil
  with ok show ?thesis by (simp add: bus_dispatch_def)
next
  case (Cons e rest)
  let ?lc = "sb_life (bu_sub st)" and ?st = "bus_dispatch reg decode gate st"
  let ?new = "to_receiver (event_domain ty) (sent reg decode gate e)"
  have sel: "bu_batch ?st = rest" "bu_last ?st = le_seq e" "bu_queue ?st = bu_queue st @ ?new" "bu_sub ?st = bu_sub st"
    "bu_out ?st = bu_out st" "bu_lagged ?st = bu_lagged st"
    using Cons ok by (simp_all add: bus_dispatch_def bus_ok_def Let_def)
  have "e # rest = take (Suc (length rest)) (after (bu_last st) es)"
    using ok Cons by (simp add: bus_ok_def Let_def in_hand_def)
  then obtain xs where xs: "after (bu_last st) es = e # xs" "rest = take (length rest) xs"
    by (cases "after (bu_last st) es") auto
  note h = first_after[OF a xs(1)]
  have queue: "f \<in> set (bu_queue st @ ?new) \<or> le_seq e < fst f"
    if f: "f \<in> owed decode ty start es" "bu_last st < fst f" for f
  proof -
    obtain y where y: "y \<in> set es" "le_domain y = event_domain ty" "fst f = le_seq y" "decode ty (le_payload y) = Inr (snd f)"
      using owedD[OF f(1)] by blast
    have "y = e \<or> le_seq e < le_seq y" using h(4)[OF y(1)] f(2) y(3) by simp
    then show ?thesis
    proof
      assume "y = e"
      then have "(le_seq e, snd f) \<in> set ?new" using dispatched_row[OF reg, of e decode "snd f"] y by simp
      moreover have "f = (le_seq e, snd f)" using y(3) \<open>y = e\<close> by (cases f) simp
      ultimately show ?thesis by (metis UnCI set_append)
    qed (use y(3) in simp)
  qed
  have live: "lc_phase ?lc = Live \<longrightarrow> lc_buffer ?lc = [] \<and> (bu_lagged st \<or>
      (\<forall>f \<in> owed decode ty start es. f \<in> set (bu_out st) \<or> f \<in> set (bu_queue st @ ?new) \<or> le_seq e < fst f))"
    using ok queue unfolding bus_ok_def Let_def by (metis UnCI set_append)
  show ?thesis
    unfolding bus_ok_def Let_def sel
  proof (intro conjI)
    show "in_hand (le_seq e) rest es" using xs(2) h(3) by (simp add: in_hand_def)
    show "le_seq e = 0 \<or> (\<exists>x \<in> set es. le_seq e = le_seq x)" using h(1) by blast
  qed (use ok live in \<open>auto simp: bus_ok_def Let_def\<close>)
qed

lemma next_pass_ok:
  assumes ok: "bus_ok decode ty start es st" and ne: "\<not> bu_ended st" and "lc_phase (sb_life (bu_sub st)) = Bootstrap"
  shows "next_pass dec read recvs now (bu_ended st) (bu_sub st) =
    (case next_from_bootstrap dec read (sb_life (bu_sub st)) of
       (Inr (Some f), lc) \<Rightarrow> (Deliver (fst f) (snd f) 0, recvs, (bu_sub st)\<lparr> sb_life := lc \<rparr>, False)
     | (Inr None, lc) \<Rightarrow> (Again, recvs, (bu_sub st)\<lparr> sb_life := lc\<lparr> lc_phase := Live \<rparr> \<rparr>, False)
     | (Inl _, lc) \<Rightarrow> (Again, recvs, (bu_sub st)\<lparr> sb_life := lc \<rparr>, False))"
  using assms by (simp add: next_pass_def bus_ok_def Let_def)

lemma bootstrap_error:
  "next_from_bootstrap dec read lc = (Inl e, lc') \<Longrightarrow> lc' = lc"
  by (auto simp: next_from_bootstrap_def Let_def split: if_splits sum.splits)

lemma next_bootstrap_ok:
  assumes a: "ascending es" and ok: "bus_ok decode ty start es st" and ne: "\<not> bu_ended st"
    and ph: "lc_phase (sb_life (bu_sub st)) = Bootstrap"
    and read: "\<And>c m rs. read (event_domain ty) c m = Inr rs \<Longrightarrow> rs = take m (behind (event_domain ty) c es)"
  shows "bus_ok decode ty start es (bus_next (decode ty) read n now st)"
proof -
  let ?lc = "sb_life (bu_sub st)" and ?st = "bus_next (decode ty) read n now st"
  obtain x lc where r: "next_from_bootstrap (decode ty) read ?lc = (x, lc)" by fastforce
  note np = next_pass_ok[OF ok ne ph, of "decode ty" read "receive n st" now, unfolded r]
  have inv: "lc_domain ?lc = event_domain ty" "buffer_is decode ty (lc_watermark ?lc) (lc_buffer ?lc) es"
    "start \<le> lc_watermark ?lc" "\<forall>f \<in> owed decode ty start es. f \<in> set (bu_out st) \<or> lc_watermark ?lc < fst f"
    using ok by (simp_all add: bus_ok_def Let_def)
  consider (err) e where "x = Inl e" | (fin) "x = Inr None" | (got) f where "x = Inr (Some f)"
    using sum.exhaust option.exhaust by metis
  then show ?thesis
  proof cases
    case err
    have "lc = ?lc" using bootstrap_error r unfolding err by blast
    then have "bu_sub ?st = bu_sub st" "bu_out ?st = bu_out st" "bu_batch ?st = bu_batch st" "bu_last ?st = bu_last st"
      "bu_queue ?st = bu_queue st" "bu_lagged ?st = bu_lagged st"
      using np err by (simp_all add: bus_next_def Let_def)
    then show ?thesis by (intro bus_ok_same[OF ok]) simp_all
  next
    case fin
    note e = bootstrap_end[where read = read and es = es and lc = ?lc and lc' = lc and decode = decode and ty = ty, OF inv(1) read r[unfolded fin]]
    have sel: "bu_sub ?st = (bu_sub st)\<lparr> sb_life := lc\<lparr> lc_phase := Live \<rparr> \<rparr>" "bu_out ?st = bu_out st"
      "bu_batch ?st = bu_batch st" "bu_last ?st = bu_last st"
      using np fin by (simp_all add: bus_next_def Let_def)
    have all: "f \<in> set (bu_out st)" if f: "f \<in> owed decode ty start es" for f
    proof (rule ccontr)
      assume "f \<notin> set (bu_out st)"
      then have "lc_watermark ?lc < fst f" using inv(4) f by blast
      moreover obtain y where "y \<in> set es" "le_domain y = event_domain ty" "fst f = le_seq y" using owedD[OF f] by blast
      ultimately have "y \<in> set (behind (event_domain ty) (lc_watermark ?lc) es)" by (simp add: behind_def)
      with e(1) show False by simp
    qed
    show ?thesis using ok all e unfolding bus_ok_def Let_def sel by (simp add: buffer_is_def)
  next
    case (got f)
    from bootstrap_pull[where read = read and es = es and lc = ?lc and lc' = lc and decode = decode and ty = ty, OF a inv(2,1) read r[unfolded got]] obtain e where
      e: "e \<in> set es" "le_domain e = event_domain ty" "lc_watermark ?lc < le_seq e" "fst f = le_seq e"
      "decode ty (le_payload e) = Inr (snd f)" "lc_watermark lc = le_seq e" "lc_phase lc = lc_phase ?lc"
      "lc_domain lc = lc_domain ?lc" "buffer_is decode ty (le_seq e) (lc_buffer lc) es"
      and nxt: "\<And>y. y \<in> set es \<Longrightarrow> le_domain y = event_domain ty \<Longrightarrow> lc_watermark ?lc < le_seq y \<Longrightarrow> y = e \<or> le_seq e < le_seq y"
      by blast
    have sel: "bu_sub ?st = (bu_sub st)\<lparr> sb_life := lc \<rparr>" "bu_out ?st = bu_out st @ [f]"
      "bu_batch ?st = bu_batch st" "bu_last ?st = bu_last st"
      using np got ph by (simp_all add: bus_next_def Let_def)
    have "g \<in> set (bu_out st @ [f]) \<or> le_seq e < fst g" if g: "g \<in> owed decode ty start es" for g
    proof (cases "g \<in> set (bu_out st)")
      case False
      then have w: "lc_watermark ?lc < fst g" using inv(4) g by blast
      obtain y where y: "y \<in> set es" "le_domain y = event_domain ty" "fst g = le_seq y" "decode ty (le_payload y) = Inr (snd g)"
        using owedD[OF g] by blast
      from nxt[OF y(1,2)] w y(3) have "y = e \<or> le_seq e < le_seq y" by simp
      then show ?thesis
      proof
        assume "y = e"
        then have "g = f" using y(3,4) e(4,5) by (cases g; cases f) simp
        then show ?thesis by simp
      qed (use y(3) in simp)
    qed simp
    then show ?thesis using ok e ph unfolding bus_ok_def Let_def sel by auto
  qed
qed

lemma live_recv:
  "next_from_live (\<lambda>_. None) [RecvEvent x] lc = (Some (Inr (Some (0, x))), [], raise_watermark 0 lc)"
  "next_from_live (\<lambda>_. None) [RecvLagged n] lc = (Some (Inl (LiveLagged n (lc_ack lc))), [], lc)"
  "next_from_live (\<lambda>_. None) [] lc = (None, [], lc)"
  by (simp_all add: Let_def)

lemma next_live_ok:
  assumes pos: "\<And>e. e \<in> set es \<Longrightarrow> 0 < le_seq e" and ok: "bus_ok decode ty start es st" and ne: "\<not> bu_ended st"
    and ph: "lc_phase (sb_life (bu_sub st)) = Live"
  shows "bus_ok decode ty start es (bus_next dec read n now st)"
proof -
  let ?lc = "sb_life (bu_sub st)" and ?st = "bus_next dec read n now st"
  have np: "next_pass dec read recvs now (bu_ended st) (bu_sub st) =
    (case next_from_live (\<lambda>_. None) recvs ?lc of
        (None, os, lc) \<Rightarrow> (Waiting, os, (bu_sub st)\<lparr> sb_life := lc \<rparr>, False)
      | (Some (Inr (Some f)), os, lc) \<Rightarrow> (Deliver (fst f) (snd f) 0, os, (bu_sub st)\<lparr> sb_life := lc \<rparr>, False)
      | (Some (Inr None), os, lc) \<Rightarrow> (Ended, os, (bu_sub st)\<lparr> sb_life := lc \<rparr>, True)
      | (Some (Inl (LiveLagged n q)), os, lc) \<Rightarrow> (Again, os, (bu_sub st)\<lparr> sb_life := lc\<lparr> lc_phase := Bootstrap \<rparr> \<rparr>, False)
      | (Some (Inl _), os, lc) \<Rightarrow> (Again, os, (bu_sub st)\<lparr> sb_life := lc \<rparr>, False))" for recvs
    using ok ne ph unfolding next_pass_def bus_ok_def Let_def by simp
  have owed_pos: "0 < fst f" if "f \<in> owed decode ty start es" for f
    using owedD[OF that] pos by auto
  consider (lag) "bu_lagged st" | (none) "\<not> bu_lagged st" "bu_queue st = []"
    | (got) g q where "\<not> bu_lagged st" "bu_queue st = g # q"
    by (cases "bu_queue st") auto
  then show ?thesis
  proof cases
    case lag
    then have sel: "bu_sub ?st = (bu_sub st)\<lparr> sb_life := ?lc\<lparr> lc_phase := Bootstrap \<rparr> \<rparr>" "bu_out ?st = bu_out st"
      "bu_batch ?st = bu_batch st" "bu_last ?st = bu_last st"
      by (simp_all add: bus_next_def receive_def np live_recv Let_def del: next_from_live.simps)
    show ?thesis using ok unfolding bus_ok_def Let_def sel by simp
  next
    case none
    then have "bu_sub ?st = bu_sub st" "bu_out ?st = bu_out st" "bu_batch ?st = bu_batch st" "bu_last ?st = bu_last st"
      "bu_queue ?st = bu_queue st" "bu_lagged ?st = bu_lagged st"
      by (simp_all add: bus_next_def receive_def np Let_def)
    then show ?thesis by (intro bus_ok_same[OF ok]) simp_all
  next
    case (got g q)
    then have sel: "bu_sub ?st = (bu_sub st)\<lparr> sb_life := raise_watermark 0 ?lc \<rparr>" "bu_out ?st = bu_out st @ [g]"
      "bu_batch ?st = bu_batch st" "bu_last ?st = bu_last st" "bu_queue ?st = q" "bu_lagged ?st = bu_lagged st"
      using ph by (simp_all add: bus_next_def receive_def np live_recv Let_def del: next_from_live.simps)
    have inv: "\<forall>f \<in> owed decode ty start es. f \<in> set (bu_out st) \<or> lc_watermark ?lc < fst f" "lc_buffer ?lc = []"
      "\<forall>f \<in> owed decode ty start es. f \<in> set (bu_out st) \<or> f \<in> set (bu_queue st) \<or> bu_last st < fst f"
      using ok ph got by (auto simp: bus_ok_def Let_def)
    have w: "\<forall>f \<in> owed decode ty start es. f \<in> set (bu_out st @ [g]) \<or> max (lc_watermark ?lc) 0 < fst f"
      using inv(1) owed_pos by auto
    have l: "\<forall>f \<in> owed decode ty start es. f \<in> set (bu_out st @ [g]) \<or> f \<in> set q \<or> bu_last st < fst f"
      using inv(3) got(2) by auto
    have m: "max (lc_watermark ?lc) 0 = start \<or> max (lc_watermark ?lc) 0 = 0 \<or> (\<exists>e \<in> set es. max (lc_watermark ?lc) 0 = le_seq e)"
      using ok by (auto simp: bus_ok_def Let_def max_def)
    show ?thesis using ok w l m inv(2) ph unfolding bus_ok_def Let_def sel
      by (simp add: buffer_is_def le_max_iff_disj del: set_append)
  qed
qed

lemma next_ended: "bu_ended st \<Longrightarrow> bus_ok decode ty start es st \<Longrightarrow> bus_ok decode ty start es (bus_next dec read n now st)"
  by (rule bus_ok_same[of decode ty start es st]) (simp_all add: bus_next_def next_pass_def Let_def)

lemma grow_bus_ok:
  assumes a: "ascending (es @ new)" and pos: "\<And>e. e \<in> set (es @ new) \<Longrightarrow> 0 < le_seq e" and ok: "bus_ok decode ty start es st"
  shows "bus_ok decode ty start (es @ new) (st\<lparr> bu_log := s \<rparr>)"
proof -
  let ?lc = "sb_life (bu_sub st)"
  have above: "x < le_seq e" if "e \<in> set new" "x = 0 \<or> (\<exists>y \<in> set es. x = le_seq y)" for x e
    using that pos a by (auto simp: ascending_append)
  have inv: "lc_watermark ?lc = start \<or> lc_watermark ?lc = 0 \<or> (\<exists>e \<in> set es. lc_watermark ?lc = le_seq e)"
    "bu_last st = 0 \<or> (\<exists>e \<in> set es. bu_last st = le_seq e)" "in_hand (bu_last st) (bu_batch st) es"
    "buffer_is decode ty (lc_watermark ?lc) (lc_buffer ?lc) es"
    "\<forall>f \<in> owed decode ty start es. f \<in> set (bu_out st) \<or> lc_watermark ?lc < fst f"
    using ok by (simp_all add: bus_ok_def Let_def)
  have new: "f \<in> owed decode ty start es \<or> (lc_watermark ?lc < fst f \<and> bu_last st < fst f)"
    if f: "f \<in> owed decode ty start (es @ new)" for f
  proof -
    obtain y where y: "y \<in> set (es @ new)" "le_domain y = event_domain ty" "start < le_seq y" "fst f = le_seq y"
      "decode ty (le_payload y) = Inr (snd f)"
      using owedD[OF f] by blast
    show ?thesis
    proof (cases "y \<in> set es")
      case True
      with y have "f \<in> owed decode ty start es" unfolding owed_def by (cases f) force
      then show ?thesis ..
    next
      case False
      then have n: "y \<in> set new" using y(1) by simp
      have "lc_watermark ?lc < le_seq y" using inv(1) y(3) above[OF n] by blast
      moreover have "bu_last st < le_seq y" using above[OF n inv(2)] .
      ultimately show ?thesis using y(4) by simp
    qed
  qed
  have hand: "in_hand (bu_last st) (bu_batch st) (es @ new)"
  proof -
    have "length (bu_batch st) \<le> length (after (bu_last st) es)"
      using inv(3) unfolding in_hand_def by (metis length_take min.cobounded1)
    with inv(3) show ?thesis by (simp add: in_hand_def after_def)
  qed
  have buf: "buffer_is decode ty (lc_watermark ?lc) (lc_buffer ?lc) (es @ new)"
  proof -
    let ?b = "behind (event_domain ty) (lc_watermark ?lc) es"
    have l: "list_all2 (\<lambda>e f. fst f = le_seq e \<and> decode ty (le_payload e) = Inr (snd f)) (take (length (lc_buffer ?lc)) ?b) (List.rev (lc_buffer ?lc))"
      using inv(4) by (simp add: buffer_is_def)
    then have "length (lc_buffer ?lc) \<le> length ?b" using list_all2_lengthD[OF l] by simp
    with l show ?thesis by (simp add: buffer_is_def behind_def)
  qed
  show ?thesis using ok new hand buf unfolding bus_ok_def Let_def by auto
qed

lemma start_bus_ok:
  assumes "q = 0 \<or> (\<exists>e \<in> set es. q = le_seq e)" "in_hand q batch es"
  shows "bus_ok decode ty start es (bus_start s q batch ty start n)"
  using assms by (auto simp: bus_ok_def bus_start_def lifecycle_new_def Let_def buffer_is_def owed_def)

subsection \<open>Any log that keeps its rows\<close>

locale growing_log =
  fixes ok :: "'s \<Rightarrow> bool"
    and events :: "'s \<Rightarrow> 'p logged_event list"
    and grow :: "'s \<Rightarrow> 's \<Rightarrow> bool"
    and read :: "'f \<Rightarrow> 's \<Rightarrow> domain \<Rightarrow> seq \<Rightarrow> nat \<Rightarrow> log_error + 'p logged_event list"
    and head :: "'f \<Rightarrow> 's \<Rightarrow> log_error + seq"
    and tail :: "'f \<Rightarrow> 's \<Rightarrow> seq \<Rightarrow> nat \<Rightarrow> tail_error + 'p logged_event list"
  assumes readable: "readable_log ok events (read f) (head f)"
    and tail_sound: "ok s \<Longrightarrow> 0 < n \<Longrightarrow> tail f s a n = Inr es \<Longrightarrow> es = take n (after a (events s))"
    and grow_ok: "ok s \<Longrightarrow> grow s s' \<Longrightarrow> ok s'"
    and grow_events: "ok s \<Longrightarrow> grow s s' \<Longrightarrow> \<exists>new. events s' = events s @ new"
begin

lemmas log_facts = readable_log.events_ascending[OF readable] readable_log.events_positive[OF readable]

lemma reach_bus_ok:
  assumes "bus_reach grow read tail reg decode ty st0 st"
    and "st0 = bus_start s q batch ty start n" "ok s" "q = 0 \<or> (\<exists>e \<in> set (events s). q = le_seq e)"
    "in_hand q batch (events s)" "any_topic reg (event_domain ty) = Some ty"
  shows "ok (bu_log st) \<and> bus_ok decode ty start (events (bu_log st)) st"
  using assms
proof (induction rule: bus_reach.induct)
  case BusStart
  then show ?case using start_bus_ok[of q "events s" batch decode ty start s n] by (simp add: bus_start_def)
next
  case (BusGrow st s')
  then have o: "ok (bu_log st)" "bus_ok decode ty start (events (bu_log st)) st" by blast+
  have o': "ok s'" using grow_ok[OF o(1) BusGrow.hyps(2)] .
  obtain new where new: "events s' = events (bu_log st) @ new" using grow_events[OF o(1) BusGrow.hyps(2)] by blast
  show ?case
    using grow_bus_ok[OF _ _ o(2), of new s'] log_facts[OF o'] o' by (simp add: new)
next
  case (BusRead st f es)
  then have o: "ok (bu_log st)" "bus_ok decode ty start (events (bu_log st)) st" by blast+
  have "in_hand (bu_last st) es (events (bu_log st))"
    using tail_sound[OF o(1) _ BusRead.hyps(3)] by (simp add: in_hand_def min_def TAIL_BATCH_LIMIT_def)
  with o show ?case by (simp add: bus_ok_def Let_def)
next
  case (BusDispatch st gate)
  then have o: "ok (bu_log st)" "bus_ok decode ty start (events (bu_log st)) st" by blast+
  have "bu_log (bus_dispatch reg decode gate st) = bu_log st" by (simp add: bus_dispatch_def split: list.split)
  with o dispatch_bus_ok[OF log_facts(1)[OF o(1)] o(2) BusDispatch.prems(5) BusDispatch.hyps(2)] show ?case by simp
next
  case (BusLag st x xs)
  then have o: "ok (bu_log st)" "bus_ok decode ty start (events (bu_log st)) st" by blast+
  then show ?case using bus_ok_same[OF o(2), of "st\<lparr> bu_queue := xs, bu_lagged := True \<rparr>"] by simp
next
  case (BusNext st f n' now)
  then have o: "ok (bu_log st)" "bus_ok decode ty start (events (bu_log st)) st" by blast+
  have log: "bu_log (bus_next (decode ty) (read f (bu_log st)) n' now st) = bu_log st"
    by (simp add: bus_next_def Let_def split: prod.split)
  have "bus_ok decode ty start (events (bu_log st)) (bus_next (decode ty) (read f (bu_log st)) n' now st)"
  proof (cases "bu_ended st")
    case True
    then show ?thesis using next_ended o(2) by blast
  next
    case False
    consider "lc_phase (sb_life (bu_sub st)) = Bootstrap" | "lc_phase (sb_life (bu_sub st)) = Live"
      using o(2) by (auto simp: bus_ok_def Let_def)
    then show ?thesis
    proof cases
      case 1
      show ?thesis
        by (rule next_bootstrap_ok[OF log_facts(1)[OF o(1)] o(2) False 1])
          (rule readable_log.read_sound[OF readable o(1)])
    next
      case 2
      show ?thesis by (rule next_live_ok[OF log_facts(2)[OF o(1)] o(2) False 2])
    qed
  qed
  with o log show ?case by simp
next
  case (BusClose st)
  then have o: "ok (bu_log st)" "bus_ok decode ty start (events (bu_log st)) st" by blast+
  then show ?case using bus_ok_same[OF o(2), of "st\<lparr> bu_ended := True \<rparr>"] by simp
qed

text \<open>When the receiver is drained and the dispatcher is at the end of the log, nothing is owed any more.\<close>

lemma delivered_all:
  assumes "bus_reach grow read tail reg decode ty (bus_start s q batch ty start n) st" "ok s"
    "q = 0 \<or> (\<exists>e \<in> set (events s). q = le_seq e)" "in_hand q batch (events s)" "any_topic reg (event_domain ty) = Some ty"
    "lc_phase (sb_life (bu_sub st)) = Live" "\<not> bu_lagged st" "bu_queue st = []" "after (bu_last st) (events (bu_log st)) = []"
  shows "owed decode ty start (events (bu_log st)) \<subseteq> set (bu_out st)"
proof
  fix f assume f: "f \<in> owed decode ty start (events (bu_log st))"
  have "bus_ok decode ty start (events (bu_log st)) st" using reach_bus_ok[OF assms(1) refl assms(2-5)] ..
  then have "f \<in> set (bu_out st) \<or> bu_last st < fst f" using f assms(6-8) by (auto simp: bus_ok_def Let_def)
  moreover have "\<not> bu_last st < fst f"
  proof
    assume "bu_last st < fst f"
    moreover obtain y where "y \<in> set (events (bu_log st))" "fst f = le_seq y" using owedD[OF f] by blast
    ultimately have "y \<in> set (after (bu_last st) (events (bu_log st)))" by (simp add: after_def)
    with assms(9) show False by simp
  qed
  ultimately show "f \<in> set (bu_out st)" by blast
qed

end

end
