(* ===== verification/Event_Running.thy ===== *)
theory Event_Running
  imports Event_Delivery
begin

text \<open>
  Both logs of the program as a \<open>growing_log\<close>: the in-memory log under its producers and its writer, the
  table under the batches of the writer. Delivery over either of them follows.
\<close>

definition mem_grow :: "'p bus_env \<Rightarrow> 's blob_put \<Rightarrow> ('p, 's) mem_log \<Rightarrow> ('p, 's) mem_log \<Rightarrow> bool" where
  "mem_grow env put st st' \<longleftrightarrow>
     (\<exists>uid now ev opts. st' = mem_append env put uid now ev opts st) \<or>
     (st' = writer_step st \<and> int (ml_tickets st) < i64_max) \<or> (\<exists>b. st' = set_failed b st)"

definition pg_grow ::
  "'p bus_env \<Rightarrow> ('b \<Rightarrow> payload_ref \<Rightarrow> blob_error + byte list) \<Rightarrow> 'p pg_table \<times> 'b \<Rightarrow> 'p pg_table \<times> 'b \<Rightarrow> bool" where
  "pg_grow env get s s' \<longleftrightarrow>
     (\<exists>f rows x. pg_ins env f rows (fst s) = (x, fst s')) \<and>
     (\<forall>r \<in> set (pt_rows (fst s)). resolve_row env get (snd s') r = resolve_row env get (snd s) r)"

lemma append_rows: "ml_rows (mem_append env put uid now ev opts st) = ml_rows st"
  by (simp add: mem_append_def answer_now_def split: prod.split sum.split)

lemma writer_rows: "\<exists>new. ml_rows (writer_step st) = ml_rows st @ new"
  by (auto simp: writer_step_def handle_one_def answer_row_def Let_def split: list.split prod.split option.split)

lemma mem_grow_rows: "mem_grow env put st st' \<Longrightarrow> \<exists>new. ml_rows st' = ml_rows st @ new"
  using writer_rows[of st] by (auto simp: mem_grow_def append_rows set_failed_def)

interpretation mem_bus: growing_log "mem_ok :: ('p, 's) mem_log \<Rightarrow> bool" "mem_events env" "mem_grow env put"
    "\<lambda>_ :: unit. mem_read_from env" "\<lambda>_. mem_head_seq" "\<lambda>_. mem_tail_read env"
  for env :: "'p bus_env" and put :: "'s blob_put"
proof
  fix st st' :: "('p, 's) mem_log" and f :: unit and a n es
  show "es = take n (after a (mem_events env st))" if "0 < n" "mem_tail_read env st a n = Inr es"
    using that by (simp add: mem_tail_read_def read_all_since_take after_def)
  show "mem_ok st'" if "mem_ok st" "mem_grow env put st st'"
    using that append_ok write_ok set_failed_ok by (auto simp: mem_grow_def)
  show "\<exists>new. mem_events env st' = mem_events env st @ new" if "mem_ok st" "mem_grow env put st st'"
    using mem_grow_rows[OF that(2)] by (auto simp: mem_events_def)
qed

interpretation pg_bus: growing_log "\<lambda>s. pg_ok env (fst s)" "pg_events env get" "pg_grow env get"
    "pg_read_from env get" pg_head_seq "pg_tail_read env get"
  for env :: "'p bus_env" and get :: "'b \<Rightarrow> payload_ref \<Rightarrow> blob_error + byte list"
proof
  fix s s' :: "'p pg_table \<times> 'b" and f a n es
  show "es = take n (after a (pg_events env get s))" if "pg_tail_read env get f s a n = Inr es"
    using pg_tail_sound[OF that] by (simp add: after_def)
  show "pg_ok env (fst s')" if "pg_ok env (fst s)" "pg_grow env get s s'"
    using that pg.insert_ok by (auto simp: pg_grow_def)
  show "\<exists>new. pg_events env get s' = pg_events env get s @ new" if ok: "pg_ok env (fst s)" and g: "pg_grow env get s s'"
  proof -
    obtain f' rows x where i: "pg_insert_batch env (fst f') (snd f') rows (fst s) = (x, fst s')"
      and same: "\<forall>r \<in> set (pt_rows (fst s)). resolve_row env get (snd s') r = resolve_row env get (snd s) r"
      using g by (auto simp: pg_grow_def pg_ins_def)
    have "\<exists>new. pt_rows (fst s') = pt_rows (fst s) @ new"
      using ok i by (cases rule: pg_insert_shape) auto
    with same show ?thesis by (auto simp: pg_events_def cong: map_cong)
  qed
qed

end
