(* ===== verification/Event_Stored.thy ===== *)
theory Event_Stored
  imports Event_Running
begin

text \<open>
  The durable log together with its blob store: what is committed stays readable whatever its size. The
  writer uploads a large payload before it inserts the row (\<open>pipeline/step3_commit/log_writer.rs\<close>), so a
  committed row names a blob that is there; no later upload touches it.
\<close>

text \<open>What the invariant needs of a store: a handle it returned reads back, whatever is put later.\<close>

definition keeps_blobs :: "'b blob_put \<Rightarrow> ('b \<Rightarrow> payload_ref \<Rightarrow> blob_error + byte list) \<Rightarrow> bool" where
  "keeps_blobs put get \<longleftrightarrow>
     (\<forall>b u bs h b'. put b u bs = (Inr h, b') \<longrightarrow> get b' h = Inr bs \<and> length (pr_checksum h) = 32) \<and>
     (\<forall>b u bs x b' h cs. put b u bs = (x, b') \<longrightarrow> get b h = Inr cs \<longrightarrow> get b' h = Inr cs)"

definition holds_blob :: "('b \<Rightarrow> payload_ref \<Rightarrow> blob_error + byte list) \<Rightarrow> 'b \<Rightarrow> byte list \<Rightarrow> payload_ref_wire \<Rightarrow> bool" where
  "holds_blob get b bs w \<longleftrightarrow> (\<exists>h. w = payload_ref_to_wire h \<and> length (pr_checksum h) = 32 \<and> get b h = Inr bs)"

definition kept_row :: "('b \<Rightarrow> payload_ref \<Rightarrow> blob_error + byte list) \<Rightarrow> 'b \<Rightarrow> pending_append \<Rightarrow> insert_row \<Rightarrow> bool" where
  "kept_row get b p r \<longleftrightarrow>
     r = to_insert_row p (if pa_inline p then Some (pa_bytes p) else None) (ir_ref r) \<and>
     (if pa_inline p then ir_ref r = None else \<exists>w. ir_ref r = Some w \<and> holds_blob get b (pa_bytes p) w)"

definition committed_at :: "(seq \<Rightarrow> insert_row \<Rightarrow> bool) \<Rightarrow> (insert_row \<Rightarrow> bool) \<Rightarrow> reply \<Rightarrow> bool" where
  "committed_at h good x \<longleftrightarrow> (\<forall>q. x = Inr (Committed q True) \<longrightarrow> (\<exists>r. h q r \<and> good r))"

lemma committed_at_simps [simp]:
  "committed_at h good (Inl e)" "committed_at h good (Inr (AlreadyExists q))" "committed_at h good (Inr (Volatile q))"
  "committed_at h good (Inr (Committed q True)) \<longleftrightarrow> (\<exists>r. h q r \<and> good r)"
  by (simp_all add: committed_at_def)

lemma committed_at_mono:
  "committed_at h good x \<Longrightarrow> (\<And>q r. h q r \<Longrightarrow> h' q r) \<Longrightarrow> (\<And>r. good r \<Longrightarrow> good' r) \<Longrightarrow> committed_at h' good' x"
  unfolding committed_at_def by metis

lemma kept_row_mono:
  "kept_row get b p r \<Longrightarrow> (\<And>h cs. get b h = Inr cs \<Longrightarrow> get b' h = Inr cs) \<Longrightarrow> kept_row get b' p r"
  by (auto simp: kept_row_def holds_blob_def split: if_splits)

subsection \<open>The claim check of a batch\<close>

definition claimed :: "('b \<Rightarrow> payload_ref \<Rightarrow> blob_error + byte list) \<Rightarrow> 'b \<Rightarrow> pending_append
    \<Rightarrow> (blob_error + payload_ref_wire) option \<Rightarrow> bool" where
  "claimed get b p r \<longleftrightarrow> (r = None) = pa_inline p \<and> (\<forall>w. r = Some (Inr w) \<longrightarrow> holds_blob get b (pa_bytes p) w)"

lemma claimed_mono:
  "claimed get b p r \<Longrightarrow> (\<And>h cs. get b h = Inr cs \<Longrightarrow> get b' h = Inr cs) \<Longrightarrow> claimed get b' p r"
  unfolding claimed_def holds_blob_def by metis

lemma claim_kept:
  assumes "keeps_blobs put get" "claim_payloads put uids i b ps = (rs, b')"
  shows "(\<forall>h cs. get b h = Inr cs \<longrightarrow> get b' h = Inr cs) \<and> list_all2 (claimed get b') ps rs"
  using assms(2)
proof (induction ps arbitrary: i b rs b')
  case Nil
  then show ?case by simp
next
  case (Cons p ps)
  obtain x b1 where p: "put b (uids i) (pa_bytes p) = (x, b1)" by force
  show ?case
  proof (cases "pa_inline p")
    case True
    then obtain rs1 where r: "claim_payloads put uids (Suc i) b ps = (rs1, b')" "rs = None # rs1"
      using Cons.prems by (auto split: prod.splits)
    with Cons.IH[OF r(1)] True show ?thesis by (simp add: claimed_def)
  next
    case False
    obtain rs1 b2 where r: "claim_payloads put uids (Suc i) b1 ps = (rs1, b2)" by force
    note ih = Cons.IH[OF r]
    have old: "get b h = Inr cs \<longrightarrow> get b1 h = Inr cs" for h cs using assms(1) p unfolding keeps_blobs_def by blast
    have eq: "b' = b2" "rs = map_option (map_sum id payload_ref_to_wire) (Some x) # rs1"
      using Cons.prems False p r by (auto split: sum.splits)
    have "claimed get b' p (map_option (map_sum id payload_ref_to_wire) (Some x))"
    proof (cases x)
      case (Inr h)
      then have "get b1 h = Inr (pa_bytes p)" "length (pr_checksum h) = 32"
        using assms(1) p unfolding keeps_blobs_def by blast+
      with ih eq(1) False Inr show ?thesis by (auto simp: claimed_def holds_blob_def)
    qed (use False in \<open>simp add: claimed_def\<close>)
    with ih old eq show ?thesis by auto
  qed
qed

lemma claimed_row:
  assumes "claimed get b p r" "\<not> blob_failed r"
  shows "\<exists>x. build_rows ((p, r) # xs) = x # build_rows xs \<and> kept_row get b p x"
proof (cases r)
  case None
  with assms show ?thesis by (auto simp: claimed_def blob_failed_def kept_row_def to_insert_row_def)
next
  case (Some y)
  with assms obtain w where "r = Some (Inr w)" by (cases y) (auto simp: blob_failed_def)
  with assms show ?thesis by (auto simp: claimed_def blob_failed_def kept_row_def to_insert_row_def)
qed

lemma hand_out_kept:
  assumes "list_all2 (claimed get b) ps rs" "list_all2 h qs (build_rows (zip ps rs))"
  shows "list_all2 (\<lambda>p. committed_at h (kept_row get b p)) ps (hand_out (zip ps rs) qs)"
  using assms
proof (induction ps rs arbitrary: qs rule: list_all2_induct)
  case (Cons p ps r rs)
  show ?case
  proof (cases "blob_failed r")
    case True
    with Cons show ?thesis by simp
  next
    case False
    obtain x where x: "build_rows (zip (p # ps) (r # rs)) = x # build_rows (zip ps rs)" "kept_row get b p x"
      using claimed_row[OF Cons(1) False] by fastforce
    then obtain q qs' where "qs = q # qs'" "h q x" "list_all2 h qs' (build_rows (zip ps rs))"
      using Cons(4) by (auto simp: list_all2_Cons2)
    with False x(2) Cons(3) show ?thesis by auto
  qed
qed simp

text \<open>With no failed upload both ways to answer the batch agree.\<close>

lemma hand_out_zip:
  assumes "list_all2 (claimed get b) ps rs" "\<not> list_ex blob_failed rs" "list_all2 h qs (build_rows (zip ps rs))"
  shows "hand_out (zip ps rs) qs = zip_seqs ps qs"
  using assms
proof (induction ps rs arbitrary: qs rule: list_all2_induct)
  case (Cons p ps r rs)
  then have f: "\<not> blob_failed r" by simp
  obtain x where x: "build_rows (zip (p # ps) (r # rs)) = x # build_rows (zip ps rs)"
    using claimed_row[OF Cons(1) f] by fastforce
  then obtain q qs' where "qs = q # qs'" "list_all2 h qs' (build_rows (zip ps rs))"
    using Cons.prems(2) by (auto simp: list_all2_Cons2)
  with Cons.IH Cons.prems(1) f show ?case by (simp add: zip_seqs_def)
qed (simp add: zip_seqs_def)

subsection \<open>The invariant\<close>

context writer_backend
begin

lemma flush_kept:
  assumes o: "ok (lw_backend w)" and f: "flush ins (\<lambda>i. lookup (lf i)) put uids faults batch w = (rs, w')"
    and g: "keeps_blobs put get"
  shows "get (lw_blobs w) h = Inr cs \<Longrightarrow> get (lw_blobs w') h = Inr cs"
    "list_all2 (\<lambda>p. committed_at (holds (lw_backend w')) (kept_row get (lw_blobs w') p)) batch rs"
proof -
  obtain refs blobs where c: "claim_payloads put uids 0 (lw_blobs w) batch = (refs, blobs)" by fastforce
  obtain x failed s where i: "insert_with_retry ins faults (build_rows (zip batch refs)) 0 (lw_backend w) = (x, failed, s)"
    by (metis prod_cases3)
  note k = claim_kept[OF g c]
  have all: "list_all2 (\<lambda>p. committed_at h' (good p)) batch (map (\<lambda>_. Inl e) batch)" for h' good e
    by (simp add: list_all2_conv_all_nth)
  have coll: "list_all2 (\<lambda>p. committed_at h' (good p)) batch (map (\<lambda>(i, p). resolve_collision (l i) p) (enumerate 0 batch))"
    for h' good l
    by (auto simp: list_all2_conv_all_nth nth_enumerate_eq resolve_collision_def split: option.splits sum.splits)
  have "(\<forall>h cs. get (lw_blobs w) h = Inr cs \<longrightarrow> get (lw_blobs w') h = Inr cs) \<and>
    list_all2 (\<lambda>p. committed_at (holds (lw_backend w')) (kept_row get (lw_blobs w') p)) batch rs"
  proof (cases "lw_failed w")
    case True
    with f all show ?thesis by (auto simp: flush_def)
  next
    case nf: False
    show ?thesis
    proof (cases x)
      case (Inr qs)
      have rows: "list_all2 (holds s) qs (build_rows (zip batch refs))" using retry_step[OF o i] Inr by blast
      have "rs = hand_out (zip batch refs) qs \<and> w' = \<lparr> lw_backend = s, lw_blobs = blobs, lw_failed = failed \<rparr>"
        using f nf c i Inr hand_out_zip[OF conjunct2[OF k] _ rows] by (auto simp: flush_def Let_def split: if_splits)
      with k hand_out_kept[OF conjunct2[OF k] rows] show ?thesis by auto
    next
      case (Inl e)
      have "((\<exists>l. rs = map (\<lambda>(i, p). resolve_collision (l i) p) (enumerate 0 batch)) \<or>
        (\<exists>m. rs = map (\<lambda>_. Inl (LogUnavailable m)) batch)) \<and> w' = \<lparr> lw_backend = s, lw_blobs = blobs, lw_failed = failed \<rparr>"
        using f nf c i Inl by (cases e) (auto simp: flush_def Let_def)
      with k coll all show ?thesis by auto
    qed
  qed
  then show "get (lw_blobs w) h = Inr cs \<Longrightarrow> get (lw_blobs w') h = Inr cs"
    "list_all2 (\<lambda>p. committed_at (holds (lw_backend w')) (kept_row get (lw_blobs w') p)) batch rs" by auto
qed

definition all_kept :: "('b \<Rightarrow> payload_ref \<Rightarrow> blob_error + byte list) \<Rightarrow> ('s, 'b) durable_log \<Rightarrow> bool" where
  "all_kept get d \<longleftrightarrow> (\<forall>t p x. (t, Some p, x) \<in> set (dl_answers d) \<longrightarrow>
     committed_at (holds (lw_backend (dl_writer d))) (kept_row get (lw_blobs (dl_writer d)) p) x)"

lemma append_kept: "all_kept get d \<Longrightarrow> all_kept get (handle_append env ev opts d)"
  by (cases rule: handle_append_cases[of env ev opts d]) (auto simp: all_kept_def dl_answer_def)

lemma round_kept:
  assumes d: "all_kept get d" "ok (lw_backend (dl_writer d))" and g: "keeps_blobs put get"
  shows "all_kept get (writer_round ins (\<lambda>i. lookup (lf i)) put uids faults n d)"
proof -
  obtain rs w where f: "flush ins (\<lambda>i. lookup (lf i)) put uids faults (take n (dl_queue d)) (dl_writer d) = (rs, w)" by fastforce
  note k = flush_kept[OF d(2) f g]
  have "committed_at (holds (lw_backend w)) (kept_row get (lw_blobs w) p) x" if "(t, Some p, x) \<in> set (dl_answers d)" for t p x
  proof (rule committed_at_mono)
    show "committed_at (holds (lw_backend (dl_writer d))) (kept_row get (lw_blobs (dl_writer d)) p) x"
      using d(1) that unfolding all_kept_def by blast
  qed (use flush_ok(2)[OF d(2) f] k(1) in \<open>auto elim: kept_row_mono\<close>)
  moreover have "committed_at (holds (lw_backend w)) (kept_row get (lw_blobs w) p) x"
    if "(p, x) \<in> set (zip (take n (dl_queue d)) rs)" for p x
    using k(2) that unfolding list_all2_iff by blast
  ultimately show ?thesis using f by (auto simp: all_kept_def writer_round_def Let_def)
qed

lemma reach_kept:
  assumes "durable_reach env ins lookup put s0 b0 d" "ok s0" "keeps_blobs put get"
  shows "all_kept get d"
  using assms(1)
proof (induction rule: durable_reach.induct)
  case DurStart
  then show ?case by (simp add: all_kept_def new_durable_log_def)
next
  case (DurAppend d ev opts)
  then show ?case using append_kept by blast
next
  case (DurFlush d n lfaults uids faults)
  then show ?case using round_kept assms(3) reach_dur_ok[OF DurFlush.hyps(1) assms(2)] by (auto simp: dur_ok_def)
qed

end

subsection \<open>The PostgreSQL store\<close>

text \<open>The database may fail at any upload (\<open>db uid\<close>); the primary key keeps the blobs apart.\<close>

definition pg_upload :: "'p bus_env \<Rightarrow> (uuid \<Rightarrow> string option) \<Rightarrow> pg_blobs blob_put" where
  "pg_upload env db s uid bs = pg_blob_put env (db uid) s uid bs"

lemma pg_keeps_blobs:
  assumes "uuid_ok env" "\<forall>bs. length (be_sha env bs) = 32"
  shows "keeps_blobs (pg_upload env db) (pg_blob_get env None)"
  unfolding keeps_blobs_def
proof (intro conjI allI impI)
  fix s u bs h s' x q cs
  note store = pg_blob_store[OF assms(1)]
  show "pg_blob_get env None s' h = Inr bs" "length (pr_checksum h) = 32" if "pg_upload env db s u bs = (Inr h, s')"
    using that assms(2) blob_store.put_get[OF store] blob_store.put_checksum[OF store] unfolding pg_upload_def by metis+
  show "pg_blob_get env None s' q = Inr cs" if p: "pg_upload env db s u bs = (x, s')" and g: "pg_blob_get env None s q = Inr cs"
  proof (cases "s u")
    case None
    with p g show ?thesis using blob_store.put_keeps[OF store] unfolding pg_upload_def by blast
  next
    case (Some y)
    then have "s' = s" using p by (auto simp: pg_upload_def pg_blob_put_def Let_def split: if_splits option.splits)
    with g show ?thesis by simp
  qed
qed

text \<open>What a reader makes of a committed row: a small payload is in the row; for a large one everything
  depends on the one blob the row names.\<close>

lemma kept_resolves:
  assumes i: "inserted env r x" and k: "kept_row (pg_blob_get env None) b p r"
    and v: "be_from_slice env (pa_bytes p) = Inr v"
  shows "resolve_payload env (pg_blob_get env None) b (sr_inline x) (sr_ref x) = Inr v"
    "pa_inline p \<Longrightarrow> resolve_payload env (pg_blob_get env None) b' (sr_inline x) (sr_ref x) = Inr v"
    "\<not> pa_inline p \<Longrightarrow> \<exists>uid uri. \<forall>b'.
      (b' uid = b uid \<longrightarrow> resolve_payload env (pg_blob_get env None) b' (sr_inline x) (sr_ref x) = Inr v) \<and>
      (b' uid = None \<longrightarrow>
        resolve_payload env (pg_blob_get env None) b' (sr_inline x) (sr_ref x) = Inl (LogOther (''fetch blob: blob not found: uri='' @ uri)))"
proof -
  let ?read = "\<lambda>b. resolve_payload env (pg_blob_get env None) b (sr_inline x) (sr_ref x)"
  have r: "ir_inline r = (if pa_inline p then Some (pa_bytes p) else None)"
    using k by (subst (asm) kept_row_def) (metis insert_row.select_convs(3) to_insert_row_def)
  have x: "sr_inline x = (if pa_inline p then Some v else None)" "sr_ref x = ir_ref r"
    using i v r by (auto simp: inserted_def parse_inline_def table_row_def split: if_splits)
      (metis stored_row.select_convs)+
  show inline: "?read b' = Inr v" if "pa_inline p" for b'
    using that x by (simp add: resolve_payload_def)
  have large: "\<exists>uid uri. \<forall>b'. (b' uid = b uid \<longrightarrow> ?read b' = Inr v) \<and>
      (b' uid = None \<longrightarrow> ?read b' = Inl (LogOther (''fetch blob: blob not found: uri='' @ uri)))"
    if large: "\<not> pa_inline p"
  proof -
    obtain h where h: "ir_ref r = Some (payload_ref_to_wire h)" "length (pr_checksum h) = 32" "pg_blob_get env None b h = Inr (pa_bytes p)"
      using conjunct2[OF k[unfolded kept_row_def]] large unfolding holds_blob_def by auto
    then obtain u where u: "pr_backend h = PgTable" "pg_blob_parse_uri env (pr_uri h) = Inr u"
        "b u = Some (pa_bytes p, hex_encode_checksum (pr_checksum h))" "be_sha env (pa_bytes p) = pr_checksum h"
      by (auto simp: pg_blob_get_Inr)
    have "pg_blob_get env None b' h = Inr (pa_bytes p)" if "b' u = b u" for b'
      using u that by (simp add: pg_blob_get_Inr)
    moreover have "pg_blob_get env None b' h = Inl (BlobNotFound (pr_uri h))" if "b' u = None" for b'
      using u that by (simp add: pg_blob_get_def)
    ultimately show ?thesis using h x large v
      by (intro exI[of _ u] exI[of _ "pr_uri h"]) (auto simp: resolve_payload_def ref_wire_back)
  qed
  then show "\<not> pa_inline p \<Longrightarrow> \<exists>uid uri. \<forall>b'. (b' uid = b uid \<longrightarrow> ?read b' = Inr v) \<and>
      (b' uid = None \<longrightarrow> ?read b' = Inl (LogOther (''fetch blob: blob not found: uri='' @ uri)))" .
  from inline large show "?read b = Inr v" by blast
qed

end
