(* ===== verification/Event_Rejection.thy ===== *)
theory Event_Rejection
  imports Event_Running
begin

text \<open>
  A subscription together with its consumer: calls of \<open>next\<close> over the durable log, what the consumer does with
  the events it was handed, and the runtime of \<open>Event_Cursor\<close> behind it. The theory follows what becomes of
  the events that are rejected.
\<close>

subsection \<open>A consumer at work\<close>

record ('p, 'e) consumer =
  co_sub :: "'e subscription"
  co_rt :: "('p, pg_cursors) sub_runtime"
  co_out :: "(seq \<times> 'e \<times> byte) list"

definition consumer_start :: "'e subscription \<Rightarrow> ('p, pg_cursors) sub_runtime \<Rightarrow> ('p, 'e) consumer" where
  "consumer_start sb rt = \<lparr> co_sub = sb, co_rt = rt, co_out = [] \<rparr>"

text \<open>One pass of \<open>next\<close>: the flag it looks at is the one of the shared state, and a closed source sets it.\<close>

definition consumer_next ::
  "('p \<Rightarrow> string + 'e) \<Rightarrow> (domain \<Rightarrow> seq \<Rightarrow> nat \<Rightarrow> log_error + 'p logged_event list) \<Rightarrow> 'e recv list \<Rightarrow> int
     \<Rightarrow> ('p, 'e) consumer \<Rightarrow> ('p, 'e) consumer" where
  "consumer_next decode read recvs now c =
     (let rt = co_rt c; st = rt_state rt in
      case next_pass decode read recvs now (ss_terminated st) (co_sub c) of
        (p, _, sb, ended) \<Rightarrow>
          c\<lparr> co_sub := sb,
             co_rt := (if ended then rt\<lparr> rt_state := st\<lparr> ss_terminated := True \<rparr> \<rparr> else rt),
             co_out := co_out c @ (case p of Deliver q x a \<Rightarrow> [(q, x, a)] | _ \<Rightarrow> []) \<rparr>)"

text \<open>Everything that happens in one life of a subscription, in any order. The log is any table the writer can
  leave and any blob store; acknowledged numbers are collected in \<open>A\<close>.\<close>

inductive consumer_reach ::
  "'p bus_env \<Rightarrow> ('b \<Rightarrow> payload_ref \<Rightarrow> blob_error + byte list) \<Rightarrow> ('p \<Rightarrow> string + 'e) \<Rightarrow> nat \<Rightarrow> ('p, 'e) consumer
     \<Rightarrow> seq set \<Rightarrow> ('p, 'e) consumer \<Rightarrow> bool"
  for env :: "'p bus_env" and get :: "'b \<Rightarrow> payload_ref \<Rightarrow> blob_error + byte list" and decode :: "'p \<Rightarrow> string + 'e"
    and threshold :: nat and c0 :: "('p, 'e) consumer" where
  CoStart: "consumer_reach env get decode threshold c0 {} c0"
| CoNext: "consumer_reach env get decode threshold c0 A c \<Longrightarrow> pg_ok env t \<Longrightarrow>
    consumer_reach env get decode threshold c0 A (consumer_next decode (pg_read_from env get fault (t, b)) recvs now c)"
| CoAck: "consumer_reach env get decode threshold c0 A c \<Longrightarrow> (q, x, a) \<in> set (co_out c) \<Longrightarrow>
    consumer_reach env get decode threshold c0 (insert q A) (c\<lparr> co_rt := ack_event q (co_rt c) \<rparr>)"
| CoNack: "consumer_reach env get decode threshold c0 A c \<Longrightarrow> (q, x, a) \<in> set (co_out c) \<Longrightarrow>
    consumer_reach env get decode threshold c0 A (c\<lparr> co_rt := nack_event q reason payload a (co_rt c) \<rparr>)"
| CoDrop: "consumer_reach env get decode threshold c0 A c \<Longrightarrow> (q, x, a) \<in> set (co_out c) \<Longrightarrow>
    consumer_reach env get decode threshold c0 A (c\<lparr> co_rt := drop_ack q payload a (co_rt c) \<rparr>)"
| CoSend: "consumer_reach env get decode threshold c0 A c \<Longrightarrow>
    consumer_reach env get decode threshold c0 A (c\<lparr> co_rt := send_waiting i (co_rt c) \<rparr>)"
| CoClose: "consumer_reach env get decode threshold c0 A c \<Longrightarrow>
    consumer_reach env get decode threshold c0 A (c\<lparr> co_rt := try_send Shutdown (co_rt c) \<rparr>)"
| CoRecv: "consumer_reach env get decode threshold c0 A c \<Longrightarrow>
    consumer_reach env get decode threshold c0 A (c\<lparr> co_rt := flusher_recv (pg_cursor_upsert f) db threshold now (co_rt c) \<rparr>)"
| CoTick: "consumer_reach env get decode threshold c0 A c \<Longrightarrow>
    consumer_reach env get decode threshold c0 A (c\<lparr> co_rt := flusher_tick (pg_cursor_upsert f) now (co_rt c) \<rparr>)"

subsection \<open>Deliveries\<close>

text \<open>The numbers of the log in the order of their delivery; live events carry the number 0.\<close>

definition history :: "(seq \<times> 'e \<times> byte) list \<Rightarrow> seq list" where
  "history out = filter (\<lambda>q. q \<noteq> 0) (map fst out)"

lemma history_simps [simp]: "history [] = []" "history (out @ out') = history out @ history out'"
  by (simp_all add: history_def)

definition fetch_ok :: "'e subscription \<Rightarrow> seq list \<Rightarrow> bool" where
  "fetch_ok sb qs \<longleftrightarrow> sb_retries sb = [] \<and> sorted_wrt (<) qs \<and> (\<forall>q \<in> set qs. q \<le> lc_watermark (sb_life sb)) \<and>
     sorted_wrt (\<lambda>f g. fst g < fst f) (lc_buffer (sb_life sb)) \<and>
     (\<forall>f \<in> set (lc_buffer (sb_life sb)). lc_watermark (sb_life sb) < fst f) \<and>
     (lc_phase (sb_life sb) \<noteq> Bootstrap \<longrightarrow> lc_buffer (sb_life sb) = [])"

lemma decode_rows_keys:
  "decode_rows decode w rs = Inr xs \<Longrightarrow> map fst xs = map le_seq (filter (\<lambda>r. w < le_seq r) rs)"
  by (induction decode w rs arbitrary: xs rule: decode_rows.induct)
    (auto simp: bind_res_Inr split: if_splits sum.splits)

lemma decode_rows_ascending:
  assumes "decode_rows decode w rs = Inr xs" "ascending rs"
  shows "sorted_wrt (<) (map fst xs)" "\<forall>f \<in> set xs. w < fst f"
proof -
  note k = decode_rows_keys[OF assms(1)]
  show "sorted_wrt (<) (map fst xs)" using assms(2) unfolding k by (simp add: ascending_def sorted_wrt_map sorted_wrt_filter)
  have "\<forall>q \<in> set (map fst xs). w < q" unfolding k by auto
  then show "\<forall>f \<in> set xs. w < fst f" by simp
qed

text \<open>Taking the last entry of a buffer that descends to the watermark.\<close>

lemma take_last_ok:
  assumes "buf \<noteq> []" "sorted_wrt (\<lambda>f g. fst g < fst f) buf" "\<forall>f \<in> set buf. w < fst f"
  shows "w < fst (last buf)" "sorted_wrt (\<lambda>f g. fst g < fst f) (butlast buf)"
    "\<forall>f \<in> set (butlast buf). fst (last buf) < fst f"
proof -
  obtain xs x where b: "buf = xs @ [x]" using assms(1) by (cases buf rule: rev_cases) auto
  with assms show "w < fst (last buf)" "sorted_wrt (\<lambda>f g. fst g < fst f) (butlast buf)"
    "\<forall>f \<in> set (butlast buf). fst (last buf) < fst f"
    by (auto simp: sorted_wrt_append)
qed

definition boot_ok :: "'e lifecycle \<Rightarrow> bool" where
  "boot_ok lc \<longleftrightarrow> sorted_wrt (\<lambda>f g. fst g < fst f) (lc_buffer lc) \<and> (\<forall>f \<in> set (lc_buffer lc). lc_watermark lc < fst f)"

lemma bootstrap_ok:
  assumes lc: "boot_ok lc" and read: "\<And>d w n es. read d w n = Inr es \<Longrightarrow> ascending es"
    and r: "next_from_bootstrap decode read lc = (x, lc')"
  shows "boot_ok lc' \<and> lc_phase lc' = lc_phase lc \<and> (case x of
      Inr (Some f) \<Rightarrow> lc_watermark lc < fst f \<and> lc_watermark lc' = fst f
    | Inr None \<Rightarrow> lc_watermark lc' = lc_watermark lc \<and> lc_buffer lc' = []
    | Inl e \<Rightarrow> lc' = lc)"
proof (cases "lc_buffer lc = []")
  case False
  note b = take_last_ok[OF False conjunct1[OF lc[unfolded boot_ok_def]] conjunct2[OF lc[unfolded boot_ok_def]]]
  then have "x = Inr (Some (last (lc_buffer lc)))"
    "lc' = lc\<lparr> lc_buffer := butlast (lc_buffer lc), lc_watermark := fst (last (lc_buffer lc)) \<rparr>"
    using r False by (auto simp: next_from_bootstrap_def Let_def raise_watermark_def)
  with b show ?thesis by (simp add: boot_ok_def)
next
  case e: True
  show ?thesis
  proof (cases "read (lc_domain lc) (lc_watermark lc) (batch_size_get (lc_batch lc))")
    case (Inl y)
    with r e lc show ?thesis by (auto simp: next_from_bootstrap_def)
  next
    case (Inr batch)
    show ?thesis
    proof (cases "decode_rows decode (lc_watermark lc) batch")
      case (Inl y)
      with r e lc Inr show ?thesis by (auto simp: next_from_bootstrap_def split: if_splits)
    next
      case d: (Inr xs)
      note s = decode_rows_ascending[OF d read[OF Inr]]
      have buf: "sorted_wrt (\<lambda>f g. fst g < fst f) (List.rev xs)" "\<forall>f \<in> set (List.rev xs). lc_watermark lc < fst f"
        using s by (simp_all add: sorted_wrt_rev sorted_wrt_map)
      show ?thesis
      proof (cases "batch = [] \<or> xs = []")
        case True
        with r e lc Inr d show ?thesis by (auto simp: next_from_bootstrap_def boot_ok_def Let_def split: if_splits)
      next
        case False
        then have "List.rev xs \<noteq> []" by simp
        note t = take_last_ok[OF this buf]
        moreover have "x = Inr (Some (last (List.rev xs)))"
          "lc' = lc\<lparr> lc_buffer := butlast (List.rev xs), lc_watermark := fst (last (List.rev xs)) \<rparr>"
          using t(1) r e Inr d False by (auto simp: next_from_bootstrap_def Let_def raise_watermark_def)
        ultimately show ?thesis by (simp add: boot_ok_def)
      qed
    qed
  qed
qed

lemma live_ok:
  "next_from_live (\<lambda>_. None) recvs lc = (x, os, lc') \<Longrightarrow>
     lc_phase lc' = lc_phase lc \<and> lc_buffer lc' = lc_buffer lc \<and> lc_watermark lc \<le> lc_watermark lc' \<and>
     (\<forall>f. x = Some (Inr (Some f)) \<longrightarrow> fst f = 0)"
  by (cases recvs; cases "hd recvs") (auto simp: raise_watermark_def split: if_splits)

lemma pass_ok:
  assumes f: "fetch_ok sb qs" and read: "\<And>d w n es. read d w n = Inr es \<Longrightarrow> ascending es"
    and p: "next_pass decode read recvs now stopped sb = (p, os, sb', ended)"
  shows "fetch_ok sb' (qs @ (case p of Deliver q x a \<Rightarrow> if q = 0 then [] else [q] | _ \<Rightarrow> [])) \<and>
    (\<forall>q x a. p = Deliver q x a \<longrightarrow> a = 0)"
proof -
  have b: "boot_ok (sb_life sb)" and none: "sb_retries sb = []" using f by (simp_all add: fetch_ok_def boot_ok_def)
  consider "stopped" | "\<not> stopped" "lc_phase (sb_life sb) = Bootstrap" | "\<not> stopped" "lc_phase (sb_life sb) \<noteq> Bootstrap" by blast
  then show ?thesis
  proof cases
    case 1
    with p f show ?thesis by (auto simp: next_pass_def)
  next
    case 2
    obtain x lc where r: "next_from_bootstrap decode read (sb_life sb) = (x, lc)" by fastforce
    note k = bootstrap_ok[OF b read r]
    show ?thesis
    proof (cases x)
      case (Inl e)
      with p 2 none r k f show ?thesis by (auto simp: next_pass_def)
    next
      case (Inr y)
      show ?thesis
      proof (cases y)
        case None
        with p 2 none r k f Inr show ?thesis by (auto simp: next_pass_def fetch_ok_def boot_ok_def)
      next
        case (Some g)
        then have "p = Deliver (fst g) (snd g) 0" "sb' = sb\<lparr> sb_life := lc \<rparr>"
          using p 2 none r Inr by (simp_all add: next_pass_def)
        moreover have "fetch_ok (sb\<lparr> sb_life := lc \<rparr>) (qs @ [fst g])"
          using f k 2 Inr Some unfolding fetch_ok_def boot_ok_def by (fastforce simp: sorted_wrt_append)
        moreover from this have "fetch_ok (sb\<lparr> sb_life := lc \<rparr>) qs"
          by (auto simp: fetch_ok_def sorted_wrt_append)
        ultimately show ?thesis by simp
      qed
    qed
  next
    case 3
    obtain x os' lc where r: "next_from_live (\<lambda>_. None) recvs (sb_life sb) = (x, os', lc)" by (metis prod_cases3)
    note k = live_ok[OF r]
    have lc: "fetch_ok (sb\<lparr> sb_life := lc \<rparr>) qs" "fetch_ok (sb\<lparr> sb_life := lc\<lparr> lc_phase := Bootstrap \<rparr> \<rparr>) qs"
      using f k 3 by (auto simp: fetch_ok_def)
    with p 3 none r k f show ?thesis
      by (auto simp: next_pass_def split: if_splits option.splits sum.splits lifecycle_error.splits)
  qed
qed

subsection \<open>Rejections on their way\<close>

text \<open>As long as nothing is acknowledged, the only signals are rejections of first deliveries and the shutdown.\<close>

fun first_reject :: "'p flush_signal \<Rightarrow> bool" where
  "first_reject (Nack q reason payload a) = (a = 0)"
| "first_reject Shutdown = True"
| "first_reject _ = True"

fun saves_nothing :: "'p flush_signal \<Rightarrow> bool" where
  "saves_nothing (Nack q reason payload a) = True"
| "saves_nothing Shutdown = True"
| "saves_nothing _ = False"

definition all_signals :: "('p flush_signal \<Rightarrow> bool) \<Rightarrow> ('p, 'c) sub_runtime \<Rightarrow> bool" where
  "all_signals P rt \<longleftrightarrow> (\<forall>s \<in> set (rt_unsent rt) \<union> set (rt_signals rt). P s)"

lemma all_signals_send: "all_signals P rt \<Longrightarrow> all_signals P (send_waiting i rt)"
  by (auto simp: all_signals_def send_waiting_def Let_def dest: in_set_takeD in_set_dropD)

lemma all_signals_try: "all_signals P rt \<Longrightarrow> P s \<Longrightarrow> all_signals P (try_send s rt)"
  by (auto simp: all_signals_def try_send_def)

lemma all_signals_nack: "all_signals P rt \<Longrightarrow> P (Nack q reason payload a) \<Longrightarrow> all_signals P (nack_event q reason payload a rt)"
  by (auto simp: all_signals_def nack_event_def)

lemma all_signals_ack: "all_signals P rt \<Longrightarrow> P (Dirty 1) \<Longrightarrow> all_signals P (ack_event q rt)"
  by (auto simp: all_signals_def ack_event_def Let_def)

lemma flush_queues [simp]:
  "rt_unsent (do_flush up now rt) = rt_unsent rt" "rt_signals (do_flush up now rt) = rt_signals rt"
  "rt_dlq (do_flush up now rt) = rt_dlq rt" "ss_policy (rt_state (do_flush up now rt)) = ss_policy (rt_state rt)"
  "rt_unsent (flush_if_dirty up now rt) = rt_unsent rt" "rt_signals (flush_if_dirty up now rt) = rt_signals rt"
  "rt_dlq (flush_if_dirty up now rt) = rt_dlq rt" "ss_policy (rt_state (flush_if_dirty up now rt)) = ss_policy (rt_state rt)"
  by (simp_all add: flush_if_dirty_def do_flush_def Let_def split: prod.split sum.split)

lemma nack_queues [simp]:
  "rt_unsent (handle_nack db q reason payload a rt) = rt_unsent rt"
  "rt_signals (handle_nack db q reason payload a rt) = rt_signals rt"
  "rt_dirty (handle_nack db q reason payload a rt) = rt_dirty rt"
  "rt_store (handle_nack db q reason payload a rt) = rt_store rt"
  "ss_policy (rt_state (handle_nack db q reason payload a rt)) = ss_policy (rt_state rt)"
  by (auto simp: handle_nack_def Let_def split: prod.split sum.split failure_outcome.split)

lemma signal_queues [simp]:
  "rt_unsent (handle_signal up db threshold now s rt) = rt_unsent rt"
  "set (rt_signals (handle_signal up db threshold now s rt)) \<subseteq> set (rt_signals rt)"
  "ss_policy (rt_state (handle_signal up db threshold now s rt)) = ss_policy (rt_state rt)"
  by (cases s; simp add: handle_signal_def Let_def)+

lemma all_signals_recv: "all_signals P rt \<Longrightarrow> all_signals P (flusher_recv up db threshold now rt)"
proof (cases "rt_signals rt")
  case (Cons s ss)
  assume "all_signals P rt"
  with Cons signal_queues(2)[of up db threshold now s "rt\<lparr> rt_signals := ss \<rparr>"] show ?thesis
    by (auto simp: all_signals_def flusher_recv_def)
qed (simp add: flusher_recv_def)

lemma all_signals_tick: "all_signals P rt \<Longrightarrow> all_signals P (flusher_tick up now rt)"
  by (auto simp: all_signals_def flusher_tick_def)

lemmas all_signals_intros = all_signals_send all_signals_try all_signals_nack all_signals_ack all_signals_recv all_signals_tick

text \<open>Under a policy that retries, a first rejection changes nothing at all.\<close>

lemma retry_nack:
  "ss_policy (rt_state rt) = PolicyRetry mx backoff \<Longrightarrow> 0 < mx \<Longrightarrow> handle_nack db q reason payload 0 rt = rt"
  by (simp add: handle_nack_def route_failure_def build_failure_info_def Let_def)

lemma retry_recv_dlq:
  assumes "all_signals first_reject rt" "ss_policy (rt_state rt) = PolicyRetry mx backoff" "0 < mx"
  shows "rt_dlq (flusher_recv up db threshold now rt) = rt_dlq rt"
proof (cases "rt_signals rt")
  case (Cons s ss)
  then have s: "first_reject s" using assms(1) by (simp add: all_signals_def)
  have "rt_dlq (handle_signal up db threshold now s (rt\<lparr> rt_signals := ss \<rparr>)) = rt_dlq rt"
    using s retry_nack[of "rt\<lparr> rt_signals := ss \<rparr>" mx backoff] assms(2,3) by (cases s) (auto simp: handle_signal_def Let_def)
  with Cons show ?thesis by (simp add: flusher_recv_def)
qed (simp add: flusher_recv_def)

text \<open>Without an acknowledgement the flusher has nothing to save.\<close>

definition quiet :: "('p, 'c) sub_runtime \<Rightarrow> bool" where
  "quiet rt \<longleftrightarrow> all_signals saves_nothing rt \<and> rt_dirty rt = 0"

lemma quiet_recv: "quiet rt \<Longrightarrow> quiet (flusher_recv up db threshold now rt) \<and> rt_store (flusher_recv up db threshold now rt) = rt_store rt"
proof -
  assume q: "quiet rt"
  have "rt_dirty (flusher_recv up db threshold now rt) = 0 \<and> rt_store (flusher_recv up db threshold now rt) = rt_store rt"
  proof (cases "rt_signals rt")
    case (Cons s ss)
    then have "saves_nothing s" using q by (simp add: quiet_def all_signals_def)
    with q Cons show ?thesis by (cases s) (auto simp: flusher_recv_def handle_signal_def flush_if_dirty_def quiet_def)
  qed (use q in \<open>simp add: flusher_recv_def quiet_def\<close>)
  with q all_signals_recv show ?thesis by (auto simp: quiet_def)
qed

subsection \<open>One life of a subscription\<close>

definition consumer_ok :: "failure_policy \<Rightarrow> 'p failure_info list \<Rightarrow> pg_cursors \<Rightarrow> seq set \<Rightarrow> ('p, 'e) consumer \<Rightarrow> bool" where
  "consumer_ok policy dlq store A c \<longleftrightarrow>
     fetch_ok (co_sub c) (history (co_out c)) \<and> (\<forall>(q, x, a) \<in> set (co_out c). a = 0) \<and>
     all_signals first_reject (co_rt c) \<and> ss_policy (rt_state (co_rt c)) = policy \<and>
     ((\<exists>mx backoff. policy = PolicyRetry mx backoff \<and> 0 < mx) \<longrightarrow> rt_dlq (co_rt c) = dlq) \<and>
     (A = {} \<longrightarrow> quiet (co_rt c) \<and> rt_store (co_rt c) = store)"

lemma history_deliver: "history [(q, x, a)] = (if q = 0 then [] else [q])"
  by (simp add: history_def)

lemma next_consumer_ok:
  assumes c: "consumer_ok policy dlq store A c" and read: "\<And>d w n es. read d w n = Inr es \<Longrightarrow> ascending es"
  shows "consumer_ok policy dlq store A (consumer_next decode read recvs now c)"
proof -
  let ?rt = "co_rt c"
  obtain p os sb ended where n: "next_pass decode read recvs now (ss_terminated (rt_state ?rt)) (co_sub c) = (p, os, sb, ended)"
    by (metis prod_cases4)
  have f: "fetch_ok (co_sub c) (history (co_out c))" using c by (simp add: consumer_ok_def)
  note k = pass_ok[OF f read n]
  have "consumer_next decode read recvs now c = c\<lparr> co_sub := sb,
      co_rt := (if ended then ?rt\<lparr> rt_state := (rt_state ?rt)\<lparr> ss_terminated := True \<rparr> \<rparr> else ?rt),
      co_out := co_out c @ (case p of Deliver q x a \<Rightarrow> [(q, x, a)] | _ \<Rightarrow> []) \<rparr>"
    using n by (simp add: consumer_next_def Let_def)
  with k c show ?thesis
    by (cases p) (auto simp: consumer_ok_def history_deliver all_signals_def quiet_def)
qed

lemma rt_consumer_ok:
  assumes "consumer_ok policy dlq store A c" "all_signals first_reject rt" "ss_policy (rt_state rt) = policy"
    and "(\<exists>mx backoff. policy = PolicyRetry mx backoff \<and> 0 < mx) \<Longrightarrow> rt_dlq rt = rt_dlq (co_rt c)"
    and "A' = {} \<Longrightarrow> A = {} \<Longrightarrow> quiet (co_rt c) \<Longrightarrow> quiet rt \<and> rt_store rt = rt_store (co_rt c)" "A \<subseteq> A'"
  shows "consumer_ok policy dlq store A' (c\<lparr> co_rt := rt \<rparr>)"
  using assms by (auto simp: consumer_ok_def)

lemma send_sel:
  "rt_state (send_waiting i rt) = rt_state rt" "rt_dlq (send_waiting i rt) = rt_dlq rt"
  "rt_store (send_waiting i rt) = rt_store rt" "rt_dirty (send_waiting i rt) = rt_dirty rt"
  "rt_dirty (try_send s rt) = rt_dirty rt"
  "rt_state (nack_event q reason payload a rt) = rt_state rt" "rt_dlq (nack_event q reason payload a rt) = rt_dlq rt"
  "rt_store (nack_event q reason payload a rt) = rt_store rt" "rt_dirty (nack_event q reason payload a rt) = rt_dirty rt"
  "ss_policy (rt_state (ack_event q rt)) = ss_policy (rt_state rt)" "rt_dlq (ack_event q rt) = rt_dlq rt"
  by (simp_all add: send_waiting_def Let_def try_send_def nack_event_def ack_event_def)

lemma recv_policy: "ss_policy (rt_state (flusher_recv up db threshold now rt)) = ss_policy (rt_state rt)"
  by (simp add: flusher_recv_def split: list.split)

lemma reach_consumer_ok:
  assumes "consumer_reach env get decode threshold c0 A c" "consumer_ok policy dlq store {} c0"
  shows "consumer_ok policy dlq store A c"
  using assms
proof (induction rule: consumer_reach.induct)
  case CoStart
  then show ?case .
next
  case (CoNext A c t fault b recvs now)
  have "ascending es" if "pg_read_from env get fault (t, b) d w n = Inr es" for d w n es
    by (rule pg_log.read_ascending[of env "(t, b)" get fault d w n es]) (use CoNext.hyps(2) that in simp_all)
  with CoNext.IH[OF CoNext.prems] show ?case by (rule next_consumer_ok)
next
  case (CoAck A c q x a)
  note ok = CoAck.IH[OF CoAck.prems]
  show ?case
    by (rule rt_consumer_ok[OF ok]) (use ok in \<open>auto simp: consumer_ok_def send_sel intro!: all_signals_intros\<close>)
next
  case (CoNack A c q x a reason payload)
  note ok = CoNack.IH[OF CoNack.prems]
  then have "a = 0" using CoNack.hyps(2) by (auto simp: consumer_ok_def)
  then show ?case
    by (intro rt_consumer_ok[OF ok]) (use ok in \<open>auto simp: consumer_ok_def send_sel quiet_def intro!: all_signals_intros\<close>)
next
  case (CoDrop A c q x a payload)
  note ok = CoDrop.IH[OF CoDrop.prems]
  then have "a = 0" using CoDrop.hyps(2) by (auto simp: consumer_ok_def)
  then show ?case
    by (intro rt_consumer_ok[OF ok])
      (use ok in \<open>auto simp: consumer_ok_def drop_ack_def pg_cursors.try_send_sel send_sel quiet_def intro!: all_signals_intros\<close>)
next
  case (CoSend A c i)
  note ok = CoSend.IH[OF CoSend.prems]
  show ?case
    by (rule rt_consumer_ok[OF ok]) (use ok in \<open>auto simp: consumer_ok_def send_sel quiet_def intro!: all_signals_intros\<close>)
next
  case (CoClose A c)
  note ok = CoClose.IH[OF CoClose.prems]
  show ?case
    by (rule rt_consumer_ok[OF ok])
      (use ok in \<open>auto simp: consumer_ok_def pg_cursors.try_send_sel send_sel quiet_def intro!: all_signals_intros\<close>)
next
  case (CoRecv A c f db now)
  note ok = CoRecv.IH[OF CoRecv.prems]
  then have s: "all_signals first_reject (co_rt c)" "ss_policy (rt_state (co_rt c)) = policy" by (simp_all add: consumer_ok_def)
  show ?case
    by (rule rt_consumer_ok[OF ok]) (use s quiet_recv retry_recv_dlq in \<open>blast intro: all_signals_recv | simp add: recv_policy\<close>)+
next
  case (CoTick A c f now)
  note ok = CoTick.IH[OF CoTick.prems]
  show ?case
    by (rule rt_consumer_ok[OF ok])
      (use ok in \<open>auto simp: consumer_ok_def flusher_tick_def flush_if_dirty_def quiet_def all_signals_def\<close>)
qed

subsection \<open>Subscribing again\<close>

lemma subscribe_shape:
  assumes "subscribe fetch up head name opts d now dlq store = (Inr (sb, rt), store')"
  shows "name \<noteq> []" "sb = \<lparr> sb_life = lifecycle_new (ss_cursor (rt_state rt)) (so_batch opts) d, sb_live = True, sb_retries = [] \<rparr>"
    "ss_policy (rt_state rt) = so_policy opts" "rt_unsent rt = []" "rt_signals rt = []" "rt_dirty rt = 0" "rt_dlq rt = dlq"
    "rt_store rt = store'"
  using assms by (auto simp: subscribe_def sub_state_new_def Let_def split: if_splits sum.splits option.splits prod.splits)

lemma subscribe_consumer_ok:
  assumes "subscribe (pg_cursor_get None now) (pg_cursor_upsert f) head name opts d now0 dlq store = (Inr (sb, rt), store')"
  shows "consumer_ok (so_policy opts) dlq store' {} (consumer_start sb rt)"
  using subscribe_shape[OF assms]
  by (auto simp: consumer_ok_def consumer_start_def fetch_ok_def lifecycle_new_def all_signals_def quiet_def)

lemma pg_cursor_get_now:
  "pg_cursor_get None now s name = Inr (Some row) \<Longrightarrow> \<exists>row'. pg_cursor_get None now' s name = Inr (Some row') \<and> cu_seq row' = cu_seq row"
  by (auto simp: pg_cursor_get_def split: option.splits)

lemma subscribe_again:
  assumes "subscribe (pg_cursor_get None now) (pg_cursor_upsert f) head name opts d now0 dlq store = (Inr (sb, rt), store')"
  shows "\<exists>rt' s'. subscribe (pg_cursor_get None now') (pg_cursor_upsert None) head' name opts d now1 dlq' store' = (Inr (sb, rt'), s')"
proof -
  note sh = subscribe_shape[OF assms]
  obtain row where "pg_cursor_get None now store' name = Inr (Some row)" "cu_seq row = ss_cursor (rt_state rt)"
    using pg_cursors.subscribe_rt_ok(1)[OF assms] unfolding pg_cursors.rt_ok_def pg_cursors.saved_def sh(8) by fastforce
  then obtain row' where "pg_cursor_get None now' store' name = Inr (Some row')" "cu_seq row' = ss_cursor (rt_state rt)"
    using pg_cursor_get_now by metis
  then show ?thesis by (subst sh(2)) (simp add: subscribe_def sh(1) pg_cursor_upsert_def Let_def)
qed

end
