(* ===== verification/Event_Claims.thy ===== *)
theory Event_Claims
  imports Event_Stored Event_Rejection
begin

text \<open>The properties of the event bus.\<close>

subsection \<open>Where an entry of the durable log comes from\<close>

definition from_event :: "'p bus_env \<Rightarrow> pending_append \<Rightarrow> bool" where
  "from_event env p \<longleftrightarrow> (\<exists>ev opts bs. be_to_vec env (ev_payload ev) = Inr bs \<and> p = make_pending (pa_ticket p) ev bs opts \<and>
     ao_depth opts \<le> MAX_CAUSATION_DEPTH \<and> ao_producer opts \<noteq> [])"

lemma append_from_event:
  assumes "\<forall>p \<in> set (dl_queue d). from_event env p" "\<forall>t p r. (t, Some p, r) \<in> set (dl_answers d) \<longrightarrow> from_event env p"
  shows "(\<forall>p \<in> set (dl_queue (handle_append env ev opts d)). from_event env p) \<and>
    (\<forall>t p r. (t, Some p, r) \<in> set (dl_answers (handle_append env ev opts d)) \<longrightarrow> from_event env p)"
proof (cases "check_causation opts")
  case (Inl e)
  with assms show ?thesis by (simp add: handle_append_def)
next
  case c: (Inr u)
  then have depth: "ao_depth opts \<le> MAX_CAUSATION_DEPTH"
    by (auto simp: check_causation_def fail_if_def split: if_splits)
  show ?thesis
  proof (cases "be_to_vec env (ev_payload ev)")
    case (Inl e)
    with assms c show ?thesis by (simp add: handle_append_def)
  next
    case (Inr bs)
    have "from_event env (make_pending (dl_tickets d) ev bs opts)" if "ao_producer opts \<noteq> []"
      unfolding from_event_def using Inr depth that by (intro exI[of _ ev] exI[of _ opts] exI[of _ bs]) simp
    with assms c Inr show ?thesis by (auto simp: handle_append_def Let_def)
  qed
qed

lemma round_from_event:
  assumes "\<forall>p \<in> set (dl_queue d). from_event env p" "\<forall>t p r. (t, Some p, r) \<in> set (dl_answers d) \<longrightarrow> from_event env p"
  shows "(\<forall>p \<in> set (dl_queue (writer_round ins lookup put uids faults n d)). from_event env p) \<and>
    (\<forall>t p r. (t, Some p, r) \<in> set (dl_answers (writer_round ins lookup put uids faults n d)) \<longrightarrow> from_event env p)"
proof -
  obtain rs w where f: "flush ins lookup put uids faults (take n (dl_queue d)) (dl_writer d) = (rs, w)" by fastforce
  have "p \<in> set (dl_queue d)" if "(p, r) \<in> set (zip (take n (dl_queue d)) rs)" for p r
    using that by (meson in_set_takeD set_zip_leftD)
  with assms f show ?thesis by (auto simp: writer_round_def Let_def dest: in_set_dropD)
qed

lemma reach_from_event:
  assumes "durable_reach env ins lookup put s0 b0 d"
  shows "(\<forall>p \<in> set (dl_queue d). from_event env p) \<and> (\<forall>t p r. (t, Some p, r) \<in> set (dl_answers d) \<longrightarrow> from_event env p)"
  using assms
proof (induction rule: durable_reach.induct)
  case DurStart
  then show ?case by (simp add: new_durable_log_def)
next
  case (DurAppend d ev opts)
  then show ?case using append_from_event by blast
next
  case (DurFlush d n lfaults uids faults)
  then show ?case using round_from_event by blast
qed

text \<open>A row of the table is the first behind its predecessor's number.\<close>

lemma pg_read_one:
  assumes t: "pg_ok env t" and x: "x \<in> set (pt_rows t)"
  shows "pg_read_from env get None (t, b) (sr_domain x) (sr_seq x - 1) 1 = collect_res (resolve_row env get b) [x]"
proof -
  obtain xs ys where r: "pt_rows t = xs @ x # ys" using x by (auto simp: in_set_conv_decomp)
  have "\<forall>y \<in> set xs. sr_seq y < sr_seq x" using t r by (auto simp: pg_ok_def table_ok_def sorted_wrt_append)
  then have "filter (\<lambda>r. sr_domain r = sr_domain x \<and> sr_seq x - 1 < sr_seq r) xs = []"
    by (auto simp: filter_empty_conv)
  then show ?thesis by (simp add: pg_read_from_def r)
qed

text \<open>Reading the row with a number: its domain behind the number before, one row, the database answering.\<close>

abbreviation read_at ::
  "'p bus_env \<Rightarrow> ('p pg_table, 'b) durable_log \<Rightarrow> pg_blobs \<Rightarrow> domain \<Rightarrow> seq \<Rightarrow> log_error + 'p logged_event list" where
  "read_at env d b m q \<equiv> pg_read_from env (pg_blob_get env None) None (lw_backend (dl_writer d), b) m (q - 1) 1"

lemma read_at_row:
  assumes "pg_ok env (lw_backend (dl_writer d))" "x \<in> set (pt_rows (lw_backend (dl_writer d)))"
  shows "read_at env d b (sr_domain x) (sr_seq x) = map_sum id (\<lambda>v. [logged_row (sr_domain x) v x])
    (resolve_payload env (pg_blob_get env None) b (sr_inline x) (sr_ref x))"
  unfolding pg_read_one[OF assms]
  by (cases "resolve_payload env (pg_blob_get env None) b (sr_inline x) (sr_ref x)") (simp_all add: resolve_row_def rust_simps)

lemma kept_row_fields:
  assumes "inserted env r x" "kept_row get b p r"
  shows "sr_domain x = pa_domain p" "sr_kind x = pa_kind p" "sr_producer x = pa_producer p" "sr_dedupe x = pa_dedupe p"
proof -
  have r: "r = to_insert_row p (if pa_inline p then Some (pa_bytes p) else None) (ir_ref r)"
    using assms(2) unfolding kept_row_def by blast
  have "ir_domain r = pa_domain p" "ir_kind r = pa_kind p" "ir_producer r = pa_producer p" "ir_dedupe r = pa_dedupe p"
    by (subst r, simp add: to_insert_row_def)+
  moreover obtain inline where x: "x = table_row (sr_ts x) (sr_seq x) inline r" using assms(1) by (auto simp: inserted_def)
  have "sr_domain x = ir_domain r" "sr_kind x = ir_kind r" "sr_producer x = ir_producer r" "sr_dedupe x = ir_dedupe r"
    by (subst x, simp add: table_row_def)+
  ultimately show "sr_domain x = pa_domain p" "sr_kind x = pa_kind p" "sr_producer x = pa_producer p" "sr_dedupe x = pa_dedupe p"
    by simp_all
qed

lemma kept_read:
  assumes ok: "pg_ok env (lw_backend (dl_writer d))" "x \<in> set (pt_rows (lw_backend (dl_writer d)))"
    and row: "inserted env r x" "kept_row (pg_blob_get env None) (lw_blobs (dl_writer d)) p r"
    and v: "be_from_slice env (pa_bytes p) = Inr v"
  defines "e \<equiv> logged_row (sr_domain x) v x"
  shows "read_at env d (lw_blobs (dl_writer d)) (sr_domain x) (sr_seq x) = Inr [e]"
    "if pa_inline p then \<forall>b. read_at env d b (sr_domain x) (sr_seq x) = Inr [e]
     else \<exists>uid uri. \<forall>b. (b uid = lw_blobs (dl_writer d) uid \<longrightarrow> read_at env d b (sr_domain x) (sr_seq x) = Inr [e]) \<and>
       (b uid = None \<longrightarrow> read_at env d b (sr_domain x) (sr_seq x) = Inl (LogOther (''fetch blob: blob not found: uri='' @ uri)))"
proof -
  note res = kept_resolves[OF row v] and read = read_at_row[OF ok]
  have good: "read_at env d b (sr_domain x) (sr_seq x) = Inr [e]"
    if "resolve_payload env (pg_blob_get env None) b (sr_inline x) (sr_ref x) = Inr v" for b
    unfolding read that e_def map_sum.simps by (rule refl)
  have bad: "read_at env d b (sr_domain x) (sr_seq x) = Inl m"
    if "resolve_payload env (pg_blob_get env None) b (sr_inline x) (sr_ref x) = Inl m" for b m
    unfolding read that map_sum.simps by (rule arg_cong[of _ _ Inl]) simp
  show "read_at env d (lw_blobs (dl_writer d)) (sr_domain x) (sr_seq x) = Inr [e]" by (rule good[OF res(1)])
  show "if pa_inline p then \<forall>b. read_at env d b (sr_domain x) (sr_seq x) = Inr [e]
     else \<exists>uid uri. \<forall>b. (b uid = lw_blobs (dl_writer d) uid \<longrightarrow> read_at env d b (sr_domain x) (sr_seq x) = Inr [e]) \<and>
       (b uid = None \<longrightarrow> read_at env d b (sr_domain x) (sr_seq x) = Inl (LogOther (''fetch blob: blob not found: uri='' @ uri)))"
  proof (cases "pa_inline p")
    case True
    show ?thesis unfolding if_P[OF True] by (rule allI, rule good, rule res(2)[OF True])
  next
    case False
    show ?thesis unfolding if_not_P[OF False] using res(3)[OF False] good bad by meson
  qed
qed

subsection \<open>A batch with a collision\<close>

definition collision_answer :: "'p stored_row list \<Rightarrow> pending_append \<Rightarrow> reply" where
  "collision_answer rows p =
     (case pa_dedupe p of
        None \<Rightarrow> Inl (AppendOther ''dedup collision reported but row has no key'')
      | Some k \<Rightarrow>
          (case find (\<lambda>x. sr_producer x = pa_producer p \<and> sr_dedupe x = Some k) rows of
             Some x \<Rightarrow> Inr (AlreadyExists (sr_seq x))
           | None \<Rightarrow> Inl (AppendOther ''dedup collision but no existing seq found'')))"

lemma collision_flush:
  assumes w: "\<not> lw_failed w" "pg_ok env (lw_backend w)" "claim_payloads put uids 0 (lw_blobs w) batch = (refs, blobs)"
    and c: "pg_ins env (faults 0) (build_rows (zip batch refs)) (lw_backend w) = (Inl DedupeCollision, t)"
    and f: "flush (pg_ins env) (\<lambda>i. pg_find_existing_seq None) put uids faults batch w = (rs, w')"
  shows "pt_rows (lw_backend w') = pt_rows (lw_backend w)" "rs = map (collision_answer (pt_rows (lw_backend w))) batch"
proof -
  have rows: "pt_rows t = pt_rows (lw_backend w)"
    using pg_insert_ok(4)[OF w(2) c[unfolded pg_ins_def] refl] .
  have ne: "build_rows (zip batch refs) \<noteq> []"
  proof
    assume "build_rows (zip batch refs) = []"
    with c show False by (auto simp: pg_ins_def pg_insert_batch_def split: db_fault.splits bool.splits)
  qed
  have i: "insert_with_retry (pg_ins env) faults (build_rows (zip batch refs)) 0 (lw_backend w) = (Inl DedupeCollision, False, t)"
    using ne c by (subst insert_with_retry.simps) simp
  have r: "resolve_collision (\<lambda>pr k. pg_find_existing_seq None pr k t) p = collision_answer (pt_rows (lw_backend w)) p" for p
    using rows by (auto simp: resolve_collision_def collision_answer_def pg_find_existing_seq_def split: option.splits)
  have "lw_backend w' = t" "rs = map (\<lambda>(i, p). resolve_collision (\<lambda>pr k. pg_find_existing_seq None pr k t) p) (enumerate 0 batch)"
    using f w i by (auto simp: flush_def Let_def)
  with rows r show "pt_rows (lw_backend w') = pt_rows (lw_backend w)" "rs = map (collision_answer (pt_rows (lw_backend w))) batch"
    by (auto simp: list_eq_iff_nth_eq nth_enumerate_eq)
qed

subsection \<open>Inputs of the witnesses\<close>

definition demo_env :: "byte bus_env" where
  "demo_env = \<lparr> be_sha = (\<lambda>_. replicate 32 0), be_uuid_str = (\<lambda>u. replicate (unat u) CHR ''a''),
     be_uuid_simple = (\<lambda>u. replicate (unat u) CHR ''a''), be_uuid_parse = (\<lambda>s. Inr (of_nat (length s))),
     be_to_vec = (\<lambda>b. Inr [b]), be_from_slice = (\<lambda>bs. case bs of [] \<Rightarrow> Inl ''empty'' | b # _ \<Rightarrow> Inr b), be_null = 0 \<rparr>"

definition demo_event :: "byte event" where
  "demo_event = \<lparr> ev_domain = Slot, ev_kind = ''slot.opened'', ev_payload = 5 \<rparr>"

definition demo_opts :: append_opts where
  "demo_opts = \<lparr> ao_ephemeral = False, ao_dedupe = Some 9, ao_producer = ''p'', ao_depth = 0, ao_span = None \<rparr>"

definition demo_put :: "unit \<Rightarrow> uuid \<Rightarrow> byte list \<Rightarrow> (blob_error + payload_ref) \<times> unit" where
  "demo_put b u bs = (Inl (BlobIo ''none''), b)"

text \<open>One event appended and flushed.\<close>

definition demo_durable :: "(byte pg_table, unit) durable_log" where
  "demo_durable = writer_round (pg_ins demo_env) (\<lambda>i. pg_find_existing_seq None) demo_put (\<lambda>_. 0) (\<lambda>_. (0, NoFault)) 1
     (handle_append demo_env demo_event demo_opts (new_durable_log empty_table ()))"

definition demo_entry :: pending_append where
  "demo_entry = make_pending 0 demo_event [5] demo_opts"

lemma demo_reach: "durable_reach demo_env (pg_ins demo_env) pg_find_existing_seq demo_put empty_table () demo_durable"
proof -
  have "1 \<le> length (dl_queue (handle_append demo_env demo_event demo_opts (new_durable_log empty_table ()) :: (byte pg_table, unit) durable_log))"
    by code_simp
  then show ?thesis unfolding demo_durable_def
    by (intro DurFlush[where lfaults = "\<lambda>_. None"] DurAppend DurStart) (simp_all add: BATCH_MAX_def)
qed

lemma demo_answer: "(0, Some demo_entry, Inr (Committed 1 True)) \<in> set (dl_answers demo_durable)"
  by code_simp

lemma demo_serde: "serde_ok demo_env"
  by (auto simp: serde_ok_def demo_env_def)

lemma demo_table: "pg_ok demo_env (lw_backend (dl_writer demo_durable))"
  using pg.reach_dur_ok[OF demo_reach empty_ok] by (simp add: pg.dur_ok_def)

subsection \<open>Properties\<close>

text \<open>C21: the in-memory log. However producers, the writer task and the failure switch interleave, the rows are
  numbered upwards, the dedupe map is the index of the rows by key, no ephemeral or unguarded event is stored,
  the channel stays within its capacity, each request is waiting or answered exactly once, and every answer
  says the truth about the log.\<close>

theorem memory_log_invariant:
  assumes "mem_reach env put blobs st" "int (ml_tickets st) < i64_max"
  shows "mem_ok st"
  by (rule reach_ok[OF assms])

definition demo_memory :: "(byte, mem_store) mem_log" where
  "demo_memory = writer_step (mem_append demo_env (mem_put demo_env) 7 0 demo_event demo_opts (mem_spawn Map.empty))"

theorem memory_log_invariant_witness: "mem_ok demo_memory"
proof -
  have "ml_tickets demo_memory = 1" unfolding demo_memory_def by code_simp
  then have "int (ml_tickets demo_memory) < i64_max" by (simp add: i64_max_def)
  moreover have "mem_reach demo_env (mem_put demo_env) Map.empty demo_memory"
    unfolding demo_memory_def by (intro MemWrite MemAppend MemStart)
  ultimately show ?thesis by (intro memory_log_invariant)
qed

text \<open>C10: the durable log. Whatever the database does wrong at whichever attempt, the append channel stays within
  its 4096 entries, each request is waiting or answered exactly once, a committed acknowledgement names a row of
  the table that holds that request, an "already exists" names a row with its key, and all the successful
  answers for one producer and key name the same row.\<close>

theorem durable_answers_true:
  assumes "durable_reach env (pg_ins env) pg_find_existing_seq put empty_table b0 d"
  shows "tickets_once d \<and> length (dl_queue d) \<le> 4096 \<and> answers_true (pg_holds env (lw_backend (dl_writer d))) d \<and>
    (\<forall>t p a t' p' a' k. (t, Some p, Inr a) \<in> set (dl_answers d) \<longrightarrow> (t', Some p', Inr a') \<in> set (dl_answers d) \<longrightarrow>
      pa_dedupe p = Some k \<longrightarrow> pa_dedupe p' = Some k \<longrightarrow> pa_producer p = pa_producer p' \<longrightarrow> ack_seq a = ack_seq a')"
proof -
  have "tickets_once d" "length (dl_queue d) \<le> 4096" "answers_true (pg_holds env (lw_backend (dl_writer d))) d"
    using pg.reach_dur_ok[OF assms empty_ok] by (simp_all add: pg.dur_ok_def APPEND_CHANNEL_CAPACITY_def)
  with pg.reach_one_seq[OF assms empty_ok] show ?thesis by blast
qed

theorem durable_answers_true_witness:
  "tickets_once demo_durable \<and> length (dl_queue demo_durable) \<le> 4096 \<and>
     answers_true (pg_holds demo_env (lw_backend (dl_writer demo_durable))) demo_durable"
  using durable_answers_true[OF demo_reach] by blast

text \<open>C19: an event acknowledged as committed can be read back, whatever its size and whatever went wrong at the
  uploads and inserts before: reading its domain behind the number before its own, with the blobs as the writer
  left them, gives it first, with its kind, its payload after the round trip through the wire format, its
  producer and key, and a causation depth within the guard. A payload of at most 8192 bytes needs no blob. A
  larger one stands and falls with one blob: while that blob is there the event is read back, whatever else
  changes in the store, and without it the read fails and says which blob is missing.\<close>

theorem committed_is_readable:
  assumes "durable_reach env (pg_ins env) pg_find_existing_seq (pg_upload env db) empty_table Map.empty d"
    and "serde_ok env" "uuid_ok env" "\<forall>bs. length (be_sha env bs) = 32"
    and "(t, Some p, Inr (Committed q True)) \<in> set (dl_answers d)"
  shows "\<exists>ev opts bs e. be_to_vec env (ev_payload ev) = Inr bs \<and> p = make_pending t ev bs opts \<and>
    le_seq e = q \<and> le_domain e = ev_domain ev \<and> le_kind e = ev_kind ev \<and> le_payload e = ev_payload ev \<and>
    le_producer e = ao_producer opts \<and> le_dedupe e = ao_dedupe opts \<and> ao_depth opts \<le> MAX_CAUSATION_DEPTH \<and>
    read_at env d (lw_blobs (dl_writer d)) (ev_domain ev) q = Inr [e] \<and>
    (if length bs \<le> CLAIM_CHECK_THRESHOLD then \<forall>b. read_at env d b (ev_domain ev) q = Inr [e]
     else \<exists>uid uri. \<forall>b.
       (b uid = lw_blobs (dl_writer d) uid \<longrightarrow> read_at env d b (ev_domain ev) q = Inr [e]) \<and>
       (b uid = None \<longrightarrow> read_at env d b (ev_domain ev) q = Inl (LogOther (''fetch blob: blob not found: uri='' @ uri))))"
proof -
  let ?t = "lw_backend (dl_writer d)" and ?b = "lw_blobs (dl_writer d)"
  have ok: "pg_ok env ?t" using pg.reach_dur_ok[OF assms(1) empty_ok] by (simp add: pg.dur_ok_def)
  have "answers_true (pg_holds env ?t) d" using pg.reach_dur_ok[OF assms(1) empty_ok] by (simp add: pg.dur_ok_def)
  then have ticket: "pa_ticket p = t" using assms(5) by (fastforce simp: answers_true_def)
  obtain ev opts bs where ev: "be_to_vec env (ev_payload ev) = Inr bs" "p = make_pending t ev bs opts"
    "ao_depth opts \<le> MAX_CAUSATION_DEPTH"
    using reach_from_event[OF assms(1)] assms(5) ticket unfolding from_event_def by blast
  obtain r x where x: "x \<in> set (pt_rows ?t)" "sr_seq x = q" "inserted env r x" "kept_row (pg_blob_get env None) ?b p r"
    using pg.reach_kept[OF assms(1) empty_ok pg_keeps_blobs[OF assms(3,4)]] assms(5)
    unfolding pg.all_kept_def committed_at_def pg_holds_def by blast
  have p: "pa_bytes p = bs" "pa_inline p \<longleftrightarrow> length bs \<le> CLAIM_CHECK_THRESHOLD"
    by (simp_all add: ev(2) make_pending_def Let_def)
  have v: "be_from_slice env (pa_bytes p) = Inr (ev_payload ev)" using assms(2) ev(1) p by (simp add: serde_ok_def)
  have f: "sr_domain x = ev_domain ev" "sr_kind x = ev_kind ev" "sr_producer x = ao_producer opts" "sr_dedupe x = ao_dedupe opts"
    using kept_row_fields[OF x(3,4)] by (simp_all add: ev(2) make_pending_def Let_def)
  note read = kept_read[OF ok x(1,3,4) v, unfolded f(1) x(2) p(2)]
  have "le_seq e = q \<and> le_domain e = ev_domain ev \<and> le_kind e = ev_kind ev \<and> le_payload e = ev_payload ev \<and>
    le_producer e = ao_producer opts \<and> le_dedupe e = ao_dedupe opts" if "e = logged_row (ev_domain ev) (ev_payload ev) x" for e
    by (simp add: that logged_row_def f x(2))
  with ev read show ?thesis by blast
qed

text \<open>An event of 9000 bytes, its blob in the table.\<close>

definition large_env :: "byte bus_env" where
  "large_env = demo_env\<lparr> be_to_vec := (\<lambda>b. Inr (replicate 9000 b)) \<rparr>"

definition large_durable :: "(byte pg_table, pg_blobs) durable_log" where
  "large_durable = writer_round (pg_ins large_env) (\<lambda>i. pg_find_existing_seq None) (pg_upload large_env (\<lambda>_. None)) (\<lambda>_. 3)
     (\<lambda>_. (0, NoFault)) 1 (handle_append large_env demo_event demo_opts (new_durable_log empty_table Map.empty))"

definition large_entry :: pending_append where
  "large_entry = make_pending 0 demo_event (replicate 9000 5) demo_opts"

lemma large_answer: "(0, Some large_entry, Inr (Committed 1 True)) \<in> set (dl_answers large_durable)"
proof -
  have q: "handle_append large_env demo_event demo_opts (new_durable_log empty_table Map.empty) =
     (new_durable_log (empty_table :: byte pg_table) Map.empty)\<lparr> dl_queue := [large_entry], dl_tickets := 1 \<rparr>"
    by (simp add: handle_append_def check_causation_def fail_if_def demo_opts_def large_env_def demo_event_def
      new_durable_log_def large_entry_def Let_def APPEND_CHANNEL_CAPACITY_def MAX_CAUSATION_DEPTH_def)
  have "\<not> pa_inline large_entry" by (simp add: large_entry_def make_pending_def Let_def CLAIM_CHECK_THRESHOLD_def)
  moreover have "pa_bytes large_entry = replicate 9000 5" by (simp add: large_entry_def make_pending_def Let_def)
  moreover have "ir_dedupe (to_insert_row large_entry None w) = Some 9" for w
    by (simp add: to_insert_row_def large_entry_def make_pending_def demo_opts_def Let_def)
  ultimately show ?thesis unfolding large_durable_def q
    by (simp add: writer_round_def new_durable_log_def flush_def pg_upload_def pg_blob_put_def insert_with_retry.simps
      blob_failed_def pg_ins_def pg_insert_batch_def parse_inline_def to_insert_row_def key_taken_def empty_table_def
      zip_seqs_def table_row_def Let_def)
      (simp add: large_entry_def)
qed

theorem committed_is_readable_witness:
  "\<exists>e uri. read_at large_env large_durable (lw_blobs (dl_writer large_durable)) Slot 1 = Inr [e] \<and> le_payload e = 5 \<and>
     read_at large_env large_durable Map.empty Slot 1 = Inl (LogOther (''fetch blob: blob not found: uri='' @ uri))"
proof -
  have "durable_reach large_env (pg_ins large_env) pg_find_existing_seq (pg_upload large_env (\<lambda>_. None)) empty_table Map.empty large_durable"
  proof -
    have "1 \<le> length (dl_queue (handle_append large_env demo_event demo_opts (new_durable_log empty_table Map.empty) :: (byte pg_table, pg_blobs) durable_log))"
      by (simp add: handle_append_def check_causation_def fail_if_def demo_opts_def large_env_def demo_event_def
        new_durable_log_def Let_def APPEND_CHANNEL_CAPACITY_def MAX_CAUSATION_DEPTH_def)
    then show ?thesis unfolding large_durable_def
      by (intro DurFlush[where lfaults = "\<lambda>_. None"] DurAppend DurStart) (simp_all add: BATCH_MAX_def)
  qed
  moreover have "replicate 9000 v = v # replicate 8999 v" for v :: byte using replicate_Suc[of 8999 v] by simp
  then have "serde_ok large_env" by (simp add: serde_ok_def large_env_def demo_env_def)
  moreover have "uuid_ok large_env" "\<forall>bs. length (be_sha large_env bs) = 32"
    by (simp_all add: uuid_ok_def large_env_def demo_env_def)
  ultimately obtain ev opts bs e where ev: "be_to_vec large_env (ev_payload ev) = Inr bs" "large_entry = make_pending 0 ev bs opts"
    "le_payload e = ev_payload ev" "read_at large_env large_durable (lw_blobs (dl_writer large_durable)) (ev_domain ev) 1 = Inr [e]"
    "if length bs \<le> CLAIM_CHECK_THRESHOLD then \<forall>b. read_at large_env large_durable b (ev_domain ev) 1 = Inr [e]
     else \<exists>uid uri. \<forall>b.
       (b uid = lw_blobs (dl_writer large_durable) uid \<longrightarrow> read_at large_env large_durable b (ev_domain ev) 1 = Inr [e]) \<and>
       (b uid = None \<longrightarrow> read_at large_env large_durable b (ev_domain ev) 1 = Inl (LogOther (''fetch blob: blob not found: uri='' @ uri)))"
    using committed_is_readable[OF _ _ _ _ large_answer] by blast
  from ev(1) have bs: "bs = replicate 9000 (ev_payload ev)" by (simp add: large_env_def)
  have "pa_bytes large_entry = bs" "pa_domain large_entry = ev_domain ev"
    by (subst ev(2), simp add: make_pending_def Let_def)+
  then have "replicate 9000 (5 :: byte) = replicate 9000 (ev_payload ev)" "ev_domain ev = Slot"
    unfolding bs by (simp_all add: large_entry_def make_pending_def demo_event_def Let_def)
  then have "ev_payload ev = 5" "ev_domain ev = Slot" by (simp_all add: replicate_eq_replicate)
  with ev(3-5) bs show ?thesis by (auto simp: CLAIM_CHECK_THRESHOLD_def)
qed

text \<open>C28: a batch in which one row collides with a key commits nothing at all: the table stays as it was, an entry
  whose key the table has is told the number of that row, and every other entry of the batch, with a new key or
  without one, gets an error and is not stored.\<close>

theorem collision_commits_nothing:
  assumes "\<not> lw_failed w" "pg_ok env (lw_backend w)" "claim_payloads put uids 0 (lw_blobs w) batch = (refs, blobs)"
    and "pg_ins env (faults 0) (build_rows (zip batch refs)) (lw_backend w) = (Inl DedupeCollision, t)"
    and "flush (pg_ins env) (\<lambda>i. pg_find_existing_seq None) put uids faults batch w = (rs, w')"
  shows "pt_rows (lw_backend w') = pt_rows (lw_backend w) \<and> rs = map (collision_answer (pt_rows (lw_backend w))) batch \<and>
    (\<forall>(p, r) \<in> set (zip batch rs). map_option (Pair (pa_producer p)) (pa_dedupe p) \<notin> row_key ` set (pt_rows (lw_backend w)) - {None}
       \<longrightarrow> (\<exists>e. r = Inl e))"
proof -
  let ?rows = "pt_rows (lw_backend w)"
  have rows: "pt_rows (lw_backend w') = ?rows" and rs: "rs = map (collision_answer ?rows) batch"
    using collision_flush[OF assms] by blast+
  have "\<exists>e. r = Inl e" if pr: "(p, r) \<in> set (zip batch rs)"
    and new: "map_option (Pair (pa_producer p)) (pa_dedupe p) \<notin> row_key ` set ?rows - {None}" for p r
  proof -
    have r: "r = collision_answer ?rows p" using pr unfolding rs by (auto simp: in_set_zip)
    show ?thesis
    proof (cases "pa_dedupe p")
      case None
      then show ?thesis by (simp add: r collision_answer_def)
    next
      case (Some k)
      have "\<not> (sr_producer x = pa_producer p \<and> sr_dedupe x = Some k)" if x: "x \<in> set ?rows" for x
      proof
        assume "sr_producer x = pa_producer p \<and> sr_dedupe x = Some k"
        then have "row_key x = Some (pa_producer p, k)" by (simp add: row_key_def)
        with new Some x show False by force
      qed
      then have "find (\<lambda>x. sr_producer x = pa_producer p \<and> sr_dedupe x = Some k) ?rows = None"
        by (simp add: find_None_iff)
      with Some show ?thesis by (simp add: r collision_answer_def)
    qed
  qed
  with rows rs show ?thesis by blast
qed

definition demo_batch :: "pending_append list" where
  "demo_batch = [make_pending 1 demo_event [6] (demo_opts\<lparr> ao_dedupe := None \<rparr>), make_pending 2 demo_event [7] demo_opts]"

definition demo_collision :: "reply list \<times> (byte pg_table, unit) log_writer" where
  "demo_collision = flush (pg_ins demo_env) (\<lambda>i. pg_find_existing_seq None) demo_put (\<lambda>_. 0) (\<lambda>_. (0, NoFault)) demo_batch
     (dl_writer demo_durable)"

theorem collision_commits_nothing_witness:
  "pt_rows (lw_backend (snd demo_collision)) = pt_rows (lw_backend (dl_writer demo_durable)) \<and>
     map (collision_answer (pt_rows (lw_backend (dl_writer demo_durable)))) demo_batch = fst demo_collision \<and>
     fst demo_collision =
       [Inl (AppendOther ''dedup collision reported but row has no key''), Inr (AlreadyExists 1)]"
proof -
  have f: "\<not> lw_failed (dl_writer demo_durable)" by code_simp
  have c: "claim_payloads demo_put (\<lambda>_. 0) 0 (lw_blobs (dl_writer demo_durable)) demo_batch = ([None, None], ())" by code_simp
  have "fst (pg_ins demo_env (0, NoFault) (build_rows (zip demo_batch [None, None])) (lw_backend (dl_writer demo_durable))) = Inl DedupeCollision"
    by code_simp
  then obtain t where t: "pg_ins demo_env ((\<lambda>_. (0, NoFault)) (0 :: nat)) (build_rows (zip demo_batch [None, None])) (lw_backend (dl_writer demo_durable)) =
      (Inl DedupeCollision, t)" by (metis prod.collapse)
  obtain rs w' where d: "flush (pg_ins demo_env) (\<lambda>i. pg_find_existing_seq None) demo_put (\<lambda>_. 0) (\<lambda>_. (0, NoFault)) demo_batch
      (dl_writer demo_durable) = (rs, w')" by fastforce
  have "fst demo_collision = [Inl (AppendOther ''dedup collision reported but row has no key''), Inr (AlreadyExists 1)]"
    by code_simp
  then show ?thesis using collision_commits_nothing[OF f demo_table c t d] d unfolding demo_collision_def by simp
qed

text \<open>the claim check with the PostgreSQL blob store. Whatever the size of a payload, placing it inline or in
  the store and resolving what was placed gives the payload back, and the blobs stored before under other ids
  stay what they were.\<close>

theorem claim_check_round_trip:
  assumes "uuid_ok env" "length (be_sha env bs) = 32" "be_from_slice env bs = Inr v" "s uid = None"
    and "place_payload (pg_blob_put env db) s uid bs = (Inr (inline, ref), s')"
  shows "resolve_payload env (pg_blob_get env None) s' (map_option (\<lambda>_. v) inline) ref = Inr v \<and>
    (\<forall>r cs. pg_blob_get env None s r = Inr cs \<longrightarrow> pg_blob_get env None s' r = Inr cs)"
proof -
  note store = pg_blob_store[OF assms(1), of db]
  show ?thesis
    using blob_store.place_resolve[OF store assms(5,3,2)] blob_store.place_keeps[OF store assms(4,5)] by blast
qed

theorem claim_check_round_trip_witness:
  "\<exists>s' ref. place_payload (pg_blob_put demo_env None) Map.empty 3 (replicate 9000 5) = (Inr (None, Some ref), s') \<and>
     resolve_payload demo_env (pg_blob_get demo_env None) s' None (Some ref) = Inr 5"
proof -
  let ?bs = "replicate 9000 (5 :: byte)"
  have u: "uuid_ok demo_env" by (simp add: uuid_ok_def demo_env_def)
  have n: "length (be_sha demo_env ?bs) = 32" by (simp add: demo_env_def)
  have v: "be_from_slice demo_env ?bs = Inr 5"
    using replicate_Suc[of 8999 "5 :: byte"] by (simp add: demo_env_def)
  obtain ref s' where p: "place_payload (pg_blob_put demo_env None) Map.empty 3 ?bs = (Inr (None, Some ref), s')"
    by (simp add: place_payload_def pg_blob_put_def CLAIM_CHECK_THRESHOLD_def Let_def)
  from claim_check_round_trip[OF u n v _ p] show ?thesis using p by auto
qed

text \<open>C6: delivery over the durable log, at least once. From the moment a subscription is attached, however appends,
  the tail loop (its reads and single dispatches, failed reads included), the overflow of the receiver and the
  calls of \<open>next\<close> interleave, as long as its domain is not paused: once the subscription is live, its receiver is
  drained and has not lagged and the dispatcher is at the end of the log, every row of its domain behind its
  start that its event type can decode has been delivered.\<close>

theorem nothing_owed_is_lost:
  assumes "bus_reach (pg_grow env get) (pg_read_from env get) (pg_tail_read env get) reg decode ty (bus_start s q batch ty start n) st"
    and "register_all_domains registry_new = Some reg" "pg_ok env (fst s)"
    and "q = 0 \<or> (\<exists>e \<in> set (pg_events env get s). q = le_seq e)" "in_hand q batch (pg_events env get s)"
    and "lc_phase (sb_life (bu_sub st)) = Live" "\<not> bu_lagged st" "bu_queue st = []"
    and "after (bu_last st) (pg_events env get (bu_log st)) = []"
  shows "\<forall>e \<in> set (pg_events env get (bu_log st)). le_domain e = event_domain ty \<longrightarrow> start < le_seq e \<longrightarrow>
    (\<forall>x. decode ty (le_payload e) = Inr x \<longrightarrow> (le_seq e, x) \<in> set (bu_out st))"
proof -
  have "any_topic reg (event_domain ty) = Some ty"
    by (rule register_all_ok) (use assms(2) in simp)
  from pg_bus.delivered_all[OF assms(1,3,4,5) this assms(6-9)] show ?thesis by (auto simp: owed_def)
qed

definition demo_get :: "unit \<Rightarrow> payload_ref \<Rightarrow> blob_error + byte list" where
  "demo_get b r = Inl (BlobNotFound (pr_uri r))"

definition demo_decode :: "event_type \<Rightarrow> byte \<Rightarrow> string + byte" where
  "demo_decode ty b = Inr b"

definition demo_registry :: topic_registry where
  "demo_registry = the (register_all_domains registry_new)"

definition demo_next :: "(byte pg_table \<times> unit, byte, byte) bus \<Rightarrow> (byte pg_table \<times> unit, byte, byte) bus" where
  "demo_next st = bus_next (demo_decode SlotEvent) (pg_read_from demo_env demo_get None (bu_log st)) 0 0 st"

text \<open>Caught up with an empty log, then one row is appended, read, dispatched and taken live.\<close>

definition demo_live :: "(byte pg_table \<times> unit, byte, byte) bus" where
  "demo_live = (demo_next (bus_start (empty_table, ()) 0 [] SlotEvent 0 10))\<lparr> bu_log := (lw_backend (dl_writer demo_durable), ()) \<rparr>"

definition demo_bus :: "(byte pg_table \<times> unit, byte, byte) bus" where
  "demo_bus = demo_next (bus_dispatch demo_registry demo_decode never_paused
     (demo_live\<lparr> bu_batch := pg_events demo_env demo_get (bu_log demo_live) \<rparr>))"

lemma demo_bus_reach:
  "bus_reach (pg_grow demo_env demo_get) (pg_read_from demo_env demo_get) (pg_tail_read demo_env demo_get) demo_registry demo_decode
     SlotEvent (bus_start (empty_table, ()) 0 [] SlotEvent 0 10) demo_bus"
proof -
  let ?t = "lw_backend (dl_writer demo_durable)"
  have "pg_ins demo_env (0, NoFault) [to_insert_row demo_entry (Some [5]) None] empty_table = (Inr [1], ?t)"
    by code_simp
  then have "pg_grow demo_env demo_get (empty_table, ()) (?t, ())"
    unfolding pg_grow_def by (auto simp: empty_table_def)
  moreover have "bu_log (demo_next (bus_start (empty_table, ()) 0 [] SlotEvent 0 10)) = (empty_table, ())" by code_simp
  ultimately have live: "bus_reach (pg_grow demo_env demo_get) (pg_read_from demo_env demo_get) (pg_tail_read demo_env demo_get)
      demo_registry demo_decode SlotEvent (bus_start (empty_table, ()) 0 [] SlotEvent 0 10) demo_live"
    unfolding demo_live_def demo_next_def by (intro BusGrow BusNext BusStart) simp_all
  have "bu_batch demo_live = []" by code_simp
  moreover have "pg_tail_read demo_env demo_get None (bu_log demo_live) (bu_last demo_live) TAIL_BATCH_LIMIT =
      Inr (pg_events demo_env demo_get (bu_log demo_live))" by code_simp
  ultimately show ?thesis unfolding demo_bus_def demo_next_def
    by (intro BusNext BusDispatch BusRead[OF live]) simp_all
qed

theorem nothing_owed_is_lost_witness: "(1, 5) \<in> set (bu_out demo_bus)"
proof -
  have "register_all_domains registry_new = Some demo_registry"
    by (rule register_all_ok) (simp add: demo_registry_def)
  moreover have "pg_ok demo_env (fst (empty_table, ()))" by (simp add: empty_ok)
  moreover have "lc_phase (sb_life (bu_sub demo_bus)) = Live" "\<not> bu_lagged demo_bus" "bu_queue demo_bus = []"
    "after (bu_last demo_bus) (pg_events demo_env demo_get (bu_log demo_bus)) = []" by code_simp+
  moreover have "in_hand 0 [] (pg_events demo_env demo_get (empty_table, ()))" by (simp add: in_hand_def)
  ultimately have all: "\<forall>e \<in> set (pg_events demo_env demo_get (bu_log demo_bus)). le_domain e = event_domain SlotEvent \<longrightarrow> 0 < le_seq e \<longrightarrow>
      (\<forall>x. demo_decode SlotEvent (le_payload e) = Inr x \<longrightarrow> (le_seq e, x) \<in> set (bu_out demo_bus))"
    by (intro nothing_owed_is_lost[OF demo_bus_reach]) auto
  have "list_ex (\<lambda>e. le_domain e = Slot \<and> le_seq e = 1 \<and> le_payload e = 5) (pg_events demo_env demo_get (bu_log demo_bus))"
    by code_simp
  with all show ?thesis by (fastforce simp: list_ex_iff demo_decode_def)
qed

text \<open>C17: the persisted cursor of a subscription. However acknowledgements, rejections, dropped events, the signals on
  their way to the flusher, failing writes, ticks and the shutdown interleave: the persisted cursor is at or
  after the one the subscription started from, never ahead of the one in memory, and always a number that was
  acknowledged or dead-lettered; and while the flusher runs with nothing due, every acknowledgement is covered
  by it. A subscription starts from the persisted cursor when there is one.\<close>

theorem cursor_is_kept:
  assumes "subscribe (pg_cursor_get None now) (pg_cursor_upsert f) head name opts d now0 dlq store = (Inr (sb, rt0), store')"
    and "rt_reach pg_cursor_upsert threshold rt0 A rt"
  shows "(\<exists>row. pg_cursor_get None now (rt_store rt) name = Inr (Some row) \<and>
      ss_cursor (rt_state rt0) \<le> cu_seq row \<and> cu_seq row \<le> ss_cursor (rt_state rt) \<and>
      cu_seq row \<in> handled (ss_cursor (rt_state rt0)) A rt \<and>
      (rt_running rt \<and> \<not> flush_due rt \<longrightarrow> (\<forall>q \<in> A. q \<le> cu_seq row))) \<and>
    (\<forall>row. pg_cursor_get None now store name = Inr (Some row) \<longrightarrow> ss_cursor (rt_state rt0) = cu_seq row)"
proof -
  have "pg_cursors.rt_ok now name (ss_cursor (rt_state rt0)) A rt"
    by (rule pg_cursors.reach_rt_ok[OF assms(2) pg_cursors.subscribe_rt_ok(1)[OF assms(1)]])
  then show ?thesis
    using pg_cursors.subscribe_rt_ok(2)[OF assms(1)] unfolding pg_cursors.rt_ok_def pg_cursors.saved_def by blast
qed

definition demo_sub :: "(subscribe_error + byte subscription \<times> (byte, pg_cursors) sub_runtime) \<times> pg_cursors" where
  "demo_sub = subscribe (pg_cursor_get None 0) (pg_cursor_upsert None) (Inr 0) ''s''
     \<lparr> so_start = FromEarliest, so_batch = 1, so_policy = SkipToDLQ, so_flush = PerEvent, so_consumer = ''c'' \<rparr> Slot 0 [] Map.empty"

definition demo_runtime :: "(byte, pg_cursors) sub_runtime" where
  "demo_runtime = (case fst demo_sub of Inr (_, rt) \<Rightarrow>
     flusher_recv (pg_cursor_upsert None) None 1 7 (send_waiting 0 (ack_event 5 rt)))"

theorem cursor_is_kept_witness:
  "\<exists>row. pg_cursor_get None 0 (rt_store demo_runtime) ''s'' = Inr (Some row) \<and> 5 \<le> cu_seq row"
proof -
  have "case fst demo_sub of Inr _ \<Rightarrow> True | Inl _ \<Rightarrow> False" by code_simp
  then obtain sb rt0 store' where s: "demo_sub = (Inr (sb, rt0), store')"
    by (cases "fst demo_sub") (auto, metis prod.collapse)
  have rt: "demo_runtime = flusher_recv (pg_cursor_upsert None) None 1 7 (send_waiting 0 (ack_event 5 rt0))"
    unfolding demo_runtime_def by (simp add: s)
  have "rt_reach pg_cursor_upsert 1 rt0 {5} demo_runtime"
    unfolding rt by (rule RtRecv, rule RtSend, rule RtAck, rule RtStart)
  moreover have "rt_running demo_runtime" "\<not> flush_due demo_runtime" by code_simp+
  ultimately show ?thesis using cursor_is_kept[OF s[unfolded demo_sub_def]] by blast
qed







end
