(* ===== verification/Kernel_Program.thy ===== *)
theory Kernel_Program
  imports Prelude
begin

text \<open>
  Programs over a shared database. An \<open>async\<close> handler runs statement by statement, and between two of its
  statements any other handler may run; a statement (or a transaction) is atomic. A program is therefore a
  tree: it has returned, has failed, or waits to run one atomic statement and then go on. Every statement is
  given an instant \<open>'t\<close>: the clocks, the identifier it would draw, the answer of the database.

  The rules here are rely-guarantee rules: under an invariant of the database and a relation every
  statement of every handler respects, an assertion that the relation keeps true holds when the handler
  goes on, whatever ran in between.
\<close>

datatype ('t, 's, 'e, 'a) prog =
    Ret 'a
  | Err 'e
  | Atom "'t \<Rightarrow> 's \<Rightarrow> ('t, 's, 'e, 'a) prog \<times> 's"

text \<open>The \<open>?\<close> operator: an error ends the program.\<close>

primrec bind_prog :: "('t, 's, 'e, 'a) prog \<Rightarrow> ('a \<Rightarrow> ('t, 's, 'e, 'b) prog) \<Rightarrow> ('t, 's, 'e, 'b) prog" where
  "bind_prog (Ret x) k = k x"
| "bind_prog (Err e) k = Err e"
| "bind_prog (Atom f) k = Atom (\<lambda>t s. map_prod (\<lambda>p. bind_prog p k) id (f t s))"

definition then_prog :: "('t, 's, 'e, 'a) prog \<Rightarrow> ('t, 's, 'e, 'b) prog \<Rightarrow> ('t, 's, 'e, 'b) prog" where
  "then_prog p q = bind_prog p (\<lambda>_. q)"

text \<open>A call whose \<open>Result\<close> the code looks at, or drops with \<open>let _ =\<close>.\<close>

primrec attempt :: "('t, 's, 'e, 'a) prog \<Rightarrow> ('t, 's, 'e, 'e + 'a) prog" where
  "attempt (Ret x) = Ret (Inr x)"
| "attempt (Err e) = Ret (Inl e)"
| "attempt (Atom f) = Atom (\<lambda>t s. map_prod attempt id (f t s))"

fun of_res :: "'e + 'a \<Rightarrow> ('t, 's, 'e, 'a) prog" where
  "of_res (Inl e) = Err e"
| "of_res (Inr x) = Ret x"

definition stmt :: "('t \<Rightarrow> 's \<Rightarrow> ('e + 'a) \<times> 's) \<Rightarrow> ('t, 's, 'e, 'a) prog" where
  "stmt f = Atom (\<lambda>t s. map_prod of_res id (f t s))"

definition observe :: "('t \<Rightarrow> 'a) \<Rightarrow> ('t, 's, 'e, 'a) prog" where
  "observe f = Atom (\<lambda>t s. (Ret (f t), s))"

text \<open>A \<open>for\<close> loop that pushes one result per item.\<close>

primrec for_each :: "('x \<Rightarrow> ('t, 's, 'e, 'a) prog) \<Rightarrow> 'x list \<Rightarrow> ('t, 's, 'e, 'a list) prog" where
  "for_each f [] = Ret []"
| "for_each f (x # xs) = bind_prog (f x) (\<lambda>y. bind_prog (for_each f xs) (\<lambda>ys. Ret (y # ys)))"

subsection \<open>Running a program alone\<close>

text \<open>One statement per instant; what is left of the program when the instants are used up.\<close>

fun run :: "('t, 's, 'e, 'a) prog \<Rightarrow> 't list \<Rightarrow> 's \<Rightarrow> ('t, 's, 'e, 'a) prog \<times> 's" where
  "run (Atom f) (t # ts) s = (case f t s of (p, s') \<Rightarrow> run p ts s')"
| "run p ts s = (p, s)"

fun result :: "('t, 's, 'e, 'a) prog \<Rightarrow> ('e + 'a) option" where
  "result (Ret x) = Some (Inr x)"
| "result (Err e) = Some (Inl e)"
| "result (Atom f) = None"

lemma run_Nil [simp]: "run p [] s = (p, s)"
  by (cases p) auto

lemma run_done [simp]: "run (Ret x) ts s = (Ret x, s)" "run (Err e) ts s = (Err e, s)"
  by (cases ts; simp)+

lemma run_append: "run p (ts @ us) s = (case run p ts s of (q, s') \<Rightarrow> run q us s')"
proof (induction ts arbitrary: p s)
  case (Cons t ts)
  then show ?case by (cases p) (auto split: prod.splits)
qed simp

lemma prog_induct [case_names Ret Err Atom]:
  assumes "\<And>x. P (Ret x)" "\<And>e. P (Err e)" "\<And>f. (\<And>t s. P (fst (f t s))) \<Longrightarrow> P (Atom f)"
  shows "P p"
proof (induction p)
  case (Atom f)
  have "P (fst (f t s))" for t s
    by (rule Atom[of "f t" "f t s"]) (simp_all add: fsts.simps)
  then show ?case by (rule assms(3))
qed (rule assms)+

lemma bind_Ret [simp]: "bind_prog p Ret = p"
  by (induction p rule: prog_induct) (simp_all add: map_prod_def split_beta)

lemma bind_bind: "bind_prog (bind_prog p f) g = bind_prog p (\<lambda>x. bind_prog (f x) g)"
  by (induction p rule: prog_induct) (simp_all add: map_prod_def split_beta)

subsection \<open>Rely and guarantee\<close>

definition stable :: "('s \<Rightarrow> bool) \<Rightarrow> ('s \<Rightarrow> 's \<Rightarrow> bool) \<Rightarrow> ('s \<Rightarrow> bool) \<Rightarrow> bool" where
  "stable I G P \<longleftrightarrow> (\<forall>s s'. I s \<longrightarrow> P s \<longrightarrow> I s' \<longrightarrow> G s s' \<longrightarrow> P s')"

inductive rg :: "('s \<Rightarrow> bool) \<Rightarrow> ('s \<Rightarrow> 's \<Rightarrow> bool) \<Rightarrow> ('s \<Rightarrow> bool) \<Rightarrow> ('t, 's, 'e, 'a) prog \<Rightarrow>
    ('e + 'a \<Rightarrow> 's \<Rightarrow> bool) \<Rightarrow> bool"
  for I G where
  rg_Ret: "(\<And>s. I s \<Longrightarrow> P s \<Longrightarrow> Q (Inr x) s) \<Longrightarrow> rg I G P (Ret x) Q"
| rg_Err: "(\<And>s. I s \<Longrightarrow> P s \<Longrightarrow> Q (Inl e) s) \<Longrightarrow> rg I G P (Err e) Q"
| rg_Atom: "(\<And>t s. I s \<Longrightarrow> P s \<Longrightarrow> I (snd (f t s)) \<and> G s (snd (f t s)) \<and>
      (\<exists>P'. P' (snd (f t s)) \<and> stable I G P' \<and> rg I G P' (fst (f t s)) Q)) \<Longrightarrow> rg I G P (Atom f) Q"

lemma stable_const [simp, intro]: "stable I G (\<lambda>s. b)"
  by (simp add: stable_def)

lemma stable_conj: "stable I G P \<Longrightarrow> stable I G Q \<Longrightarrow> stable I G (\<lambda>s. P s \<and> Q s)"
  unfolding stable_def by blast

lemma stable_imp: "(b \<Longrightarrow> stable I G P) \<Longrightarrow> stable I G (\<lambda>s. b \<longrightarrow> P s)"
  unfolding stable_def by blast

lemma stable_all: "(\<And>x. stable I G (P x)) \<Longrightarrow> stable I G (\<lambda>s. \<forall>x. P x s)"
  unfolding stable_def by blast

lemma stable_ex: "(\<And>x. stable I G (P x)) \<Longrightarrow> stable I G (\<lambda>s. \<exists>x. P x s)"
  unfolding stable_def by blast

lemma stable_disj: "stable I G P \<Longrightarrow> stable I G Q \<Longrightarrow> stable I G (\<lambda>s. P s \<or> Q s)"
  unfolding stable_def by blast

lemmas stable_intros = stable_const stable_conj stable_imp stable_all stable_ex stable_disj

lemma rg_pre: "rg I G P p Q \<Longrightarrow> (\<And>s. I s \<Longrightarrow> P' s \<Longrightarrow> P s) \<Longrightarrow> rg I G P' p Q"
proof (induction rule: rg.induct)
  case (rg_Atom P f Q)
  show ?case by (rule rg.rg_Atom) (use rg_Atom in blast)
qed (auto intro: rg_Ret rg_Err)

lemma rg_post: "rg I G P p Q \<Longrightarrow> (\<And>r s. I s \<Longrightarrow> Q r s \<Longrightarrow> Q' r s) \<Longrightarrow> rg I G P p Q'"
proof (induction rule: rg.induct)
  case (rg_Atom P f Q)
  show ?case by (rule rg.rg_Atom) (use rg_Atom in blast)
qed (auto intro: rg_Ret rg_Err)

lemma rg_False: "rg I G (\<lambda>s. False) p Q"
  by (cases p) (auto intro: rg.intros)

lemma rg_bind:
  assumes "rg I G P p R" "\<And>x. stable I G (R (Inr x))" "\<And>x. rg I G (R (Inr x)) (k x) Q"
    "\<And>e s. I s \<Longrightarrow> R (Inl e) s \<Longrightarrow> Q (Inl e) s"
  shows "rg I G P (bind_prog p k) Q"
  using assms
proof (induction rule: rg.induct)
  case (rg_Ret P R x)
  show ?case using rg_pre[OF rg_Ret(3)] rg_Ret(1) by simp
next
  case (rg_Err P R e)
  then show ?case by (auto intro: rg.rg_Err)
next
  case (rg_Atom P f R)
  show ?case unfolding bind_prog.simps
  proof (rule rg.rg_Atom)
    fix t s
    assume "I s" "P s"
    from rg_Atom(1)[OF this, of t] obtain P' where "I (snd (f t s))" "G s (snd (f t s))" "P' (snd (f t s))"
      "stable I G P'" "rg I G P' (bind_prog (fst (f t s)) k) Q"
      using rg_Atom by blast
    then show "I (snd (map_prod (\<lambda>p. bind_prog p k) id (f t s))) \<and> G s (snd (map_prod (\<lambda>p. bind_prog p k) id (f t s))) \<and>
      (\<exists>P'. P' (snd (map_prod (\<lambda>p. bind_prog p k) id (f t s))) \<and> stable I G P' \<and>
        rg I G P' (fst (map_prod (\<lambda>p. bind_prog p k) id (f t s))) Q)"
      by (auto simp: map_prod_def split_beta)
  qed
qed

lemma rg_then:
  assumes "rg I G P p (\<lambda>r s. case r of Inl e \<Rightarrow> Q (Inl e) s | Inr x \<Rightarrow> R s)" "stable I G R" "rg I G R q Q"
  shows "rg I G P (then_prog p q) Q"
  unfolding then_prog_def by (rule rg_bind[OF assms(1)]) (use assms(2,3) in auto)

lemma rg_attempt:
  assumes "rg I G P p (\<lambda>r. Q (Inr r))"
  shows "rg I G P (attempt p) Q"
proof -
  have "rg I G P p R \<Longrightarrow> (\<And>r s. I s \<Longrightarrow> R r s \<Longrightarrow> Q (Inr r) s) \<Longrightarrow> rg I G P (attempt p) Q" for R
  proof (induction rule: rg.induct)
    case (rg_Atom P f R)
    show ?case unfolding attempt.simps
    proof (rule rg.rg_Atom)
      fix t s
      assume "I s" "P s"
      from rg_Atom(1)[OF this, of t] obtain P' where "I (snd (f t s))" "G s (snd (f t s))" "P' (snd (f t s))"
        "stable I G P'" "rg I G P' (attempt (fst (f t s))) Q"
        using rg_Atom by blast
      then show "I (snd (map_prod attempt id (f t s))) \<and> G s (snd (map_prod attempt id (f t s))) \<and>
        (\<exists>P'. P' (snd (map_prod attempt id (f t s))) \<and> stable I G P' \<and> rg I G P' (fst (map_prod attempt id (f t s))) Q)"
        by (auto simp: map_prod_def split_beta)
    qed
  qed (auto intro: rg_Ret)
  from this[OF assms] show ?thesis by blast
qed

lemma rg_stmt:
  assumes "\<And>t s r s'. I s \<Longrightarrow> P s \<Longrightarrow> f t s = (r, s') \<Longrightarrow> I s' \<and> G s s' \<and> Q r s'"
    "\<And>r. stable I G (Q r)"
  shows "rg I G P (stmt f) Q"
  unfolding stmt_def
proof (rule rg_Atom)
  fix t s
  assume s: "I s" "P s"
  obtain r s' where f: "f t s = (r, s')" by fastforce
  have "I s' \<and> G s s' \<and> Q r s'" using assms(1)[OF s f] .
  moreover have "rg I G (Q r) (of_res r) Q" by (cases r) (auto intro: rg_Ret rg_Err)
  ultimately show "I (snd (map_prod of_res id (f t s))) \<and> G s (snd (map_prod of_res id (f t s))) \<and>
    (\<exists>P'. P' (snd (map_prod of_res id (f t s))) \<and> stable I G P' \<and> rg I G P' (fst (map_prod of_res id (f t s))) Q)"
    using assms(2) f by auto
qed

lemma rg_observe:
  assumes "\<And>s. I s \<Longrightarrow> G s s" "stable I G P" "\<And>t s. I s \<Longrightarrow> P s \<Longrightarrow> Q (Inr (f t)) s"
  shows "rg I G P (observe f) Q"
  unfolding observe_def by (rule rg_Atom) (use assms in \<open>auto intro!: exI[of _ P] rg_Ret\<close>)

lemma rg_of_res: "(\<And>s. I s \<Longrightarrow> P s \<Longrightarrow> Q r s) \<Longrightarrow> rg I G P (of_res r) Q"
  by (cases r) (auto intro: rg_Ret rg_Err)

lemma rg_for_each:
  assumes "stable I G P" "\<And>x. x \<in> set xs \<Longrightarrow> rg I G P (f x) (\<lambda>r s. P s \<and> (\<forall>y. r = Inr y \<longrightarrow> R x y))"
  shows "rg I G P (for_each f xs) (\<lambda>r s. P s \<and> (\<forall>ys. r = Inr ys \<longrightarrow> list_all2 R xs ys))"
  using assms(2)
proof (induction xs)
  case Nil
  then show ?case by (auto intro: rg_Ret)
next
  case (Cons x xs)
  have head: "rg I G P (f x) (\<lambda>r s. P s \<and> (\<forall>y. r = Inr y \<longrightarrow> R x y))" using Cons.prems by simp
  have tail: "rg I G P (for_each f xs) (\<lambda>r s. P s \<and> (\<forall>ys. r = Inr ys \<longrightarrow> list_all2 R xs ys))" using Cons by simp
  show ?case unfolding for_each.simps
  proof (rule rg_bind[OF head])
    fix y
    show "stable I G (\<lambda>s. P s \<and> (\<forall>ya. Inr y = Inr ya \<longrightarrow> R x ya))"
      by (intro stable_conj assms(1) stable_const)
    show "rg I G (\<lambda>s. P s \<and> (\<forall>ya. Inr y = Inr ya \<longrightarrow> R x ya))
       (bind_prog (for_each f xs) (\<lambda>ys. Ret (y # ys))) (\<lambda>r s. P s \<and> (\<forall>ys. r = Inr ys \<longrightarrow> list_all2 R (x # xs) ys))"
    proof (cases "R x y")
      case True
      show ?thesis
        by (rule rg_bind[OF rg_pre[OF tail]]) (use True in \<open>auto intro!: stable_conj assms(1) rg_Ret\<close>)
    next
      case False
      then show ?thesis by (intro rg_pre[OF rg_False]) auto
    qed
  qed auto
qed

text \<open>Alone is a special case of interleaved: what \<open>rg\<close> promises holds of a run.\<close>

lemma rg_run:
  assumes "rg I G P p Q" "I s" "P s"
  shows "I (snd (run p ts s)) \<and> (\<forall>r. result (fst (run p ts s)) = Some r \<longrightarrow> Q r (snd (run p ts s)))"
  using assms
proof (induction arbitrary: s ts rule: rg.induct)
  case (rg_Atom P f Q)
  show ?case
  proof (cases ts)
    case Nil
    with rg_Atom show ?thesis by simp
  next
    case (Cons t us)
    obtain p' s' where f: "f t s = (p', s')" by fastforce
    from rg_Atom(1)[OF rg_Atom.prems, of t] f Cons show ?thesis by auto
  qed
qed auto

end
