(* ===== verification/Kernel_Tables.thy ===== *)
theory Kernel_Tables
  imports Kernel_Program Json
begin

text \<open>
  The tables of the control-plane kernel (\<open>migrations/20260508000000_shared_memory.sql\<close>,
  \<open>20260509000000_execution_control_plane.sql\<close>, \<open>20260527000000_control_plane_kernel.sql\<close> and its
  follow-ups) with the columns the kernel reads or writes, their constraints, and what every statement
  keeps of them. A table is the list of its rows in order of insertion; a time is a number of
  microseconds. Columns that are only ever written (\<open>created_at\<close> of most tables, \<open>updated_at\<close>) are left
  out.
\<close>

subsection \<open>Errors, instants, environment\<close>

text \<open>\<open>Control\<close> is a \<open>StructuredControlError\<close> with code, message and details, \<open>Other\<close> any other
  \<open>anyhow\<close> error; the remaining ones are the \<open>DbError\<close>s of the board store.\<close>

datatype kerr =
    Control string string json
  | Other string
  | EvidenceRequired string
  | NotFound string string
  | ClaimConflict string string "string option" "string option"

text \<open>What a statement meets: the database answers, refuses the statement, or carries it out and loses
  the answer.\<close>

datatype answer = Served | Refused string | Lost string

record git_output =
  git_success :: bool
  git_stdout :: string
  git_stderr :: string

record instant =
  in_db_now :: int
  in_app_now :: int
  in_uuid :: string
  in_answer :: answer
  in_git :: "string \<Rightarrow> string list \<Rightarrow> string + git_output"

text \<open>Crates that are not under \<open>src\<close>: \<open>DateTime::to_rfc3339\<close>, \<open>serde_json::to_vec\<close>, \<open>Sha256\<close> in
  hexadecimal; the text PostgreSQL gives a \<open>timestamptz\<close>.\<close>

record kernel_env =
  rfc3339 :: "int \<Rightarrow> string"
  json_bytes :: "json \<Rightarrow> string"
  sha256_hex :: "string \<Rightarrow> string"
  pg_text :: "int \<Rightarrow> string"

definition j_opt :: "string option \<Rightarrow> json" where
  "j_opt v = (case v of None \<Rightarrow> JNull | Some x \<Rightarrow> JString x)"

definition is_completed_result_status :: "string \<Rightarrow> bool" where
  "is_completed_result_status st \<longleftrightarrow> to_lower st \<in> {''completed'', ''complete'', ''verified'', ''pass'', ''passed''}"

subsection \<open>Rows\<close>

datatype grant_status = GActive | GRevoked | GExpired | GConsumed

record grant_row =
  gr_id :: string
  gr_subject_kind :: string
  gr_subject_id :: string
  gr_operation :: string
  gr_scope_kind :: string
  gr_scope_key :: string
  gr_project :: "string option"
  gr_task :: "string option"
  gr_status :: grant_status
  gr_issuer :: string
  gr_evidence :: "string option"
  gr_expires :: "int option"
  gr_consumed :: "int option"
  gr_details :: json
  gr_created :: int

record audit_row =
  au_id :: string
  au_grant :: "string option"
  au_subject_kind :: "string option"
  au_subject_id :: "string option"
  au_operation :: string
  au_scope_kind :: string
  au_scope_key :: string
  au_decision :: string
  au_code :: "string option"
  au_reason :: "string option"
  au_details :: json

datatype lease_status = LActive | LReleased | LExpired

record lease_row =
  wl_id :: string
  wl_project :: "string option"
  wl_task :: "string option"
  wl_holder :: string
  wl_holder_kind :: string
  wl_scope_kind :: string
  wl_scope_key :: string
  wl_status :: lease_status
  wl_acquired :: int
  wl_expires :: int
  wl_released :: "int option"
  wl_heartbeat :: "int option"
  wl_metadata :: json

record claim_row =
  sc_id :: string
  sc_project :: "string option"
  sc_task :: "string option"
  sc_owner :: string
  sc_scope_kind :: string
  sc_scope_key :: string
  sc_status :: lease_status
  sc_expires :: int
  sc_released :: "int option"
  sc_heartbeat :: "int option"
  sc_metadata :: json

record job_row =
  jo_id :: string
  jo_project :: "string option"
  jo_task :: string
  jo_state :: string
  jo_attempt :: "string option"
  jo_artifact :: "string option"
  jo_metadata :: json

record attempt_row =
  ja_id :: string
  ja_job :: string
  ja_worker :: "string option"
  ja_conversation :: "string option"
  ja_state :: string
  ja_started :: "int option"
  ja_details :: json

record manifest_row =
  wm_id :: string
  wm_job :: "string option"
  wm_attempt :: "string option"
  wm_task :: string
  wm_project :: "string option"
  wm_root :: string
  wm_phase :: string
  wm_manifest :: json
  wm_changed :: json
  wm_created :: int

record blob_row =
  sa_hash :: string
  sa_kind :: string
  sa_project :: "string option"
  sa_task :: "string option"
  sa_media :: string
  sa_bytes :: string
  sa_size :: int
  sa_metadata :: json

record result_row =
  ra_id :: string
  ra_hash :: string
  ra_project :: "string option"
  ra_task :: string
  ra_slot :: "string option"
  ra_conversation :: "string option"
  ra_provider :: "string option"
  ra_status :: string
  ra_summary :: string
  ra_job :: "string option"
  ra_attempt :: "string option"
  ra_subject_kind :: "string option"
  ra_subject_id :: "string option"
  ra_grant :: "string option"
  ra_created :: int

record contract_row =
  tc_id :: string
  tc_task :: string
  tc_project :: "string option"
  tc_contract_id :: string
  tc_dispatch :: json
  tc_read :: json
  tc_write :: json
  tc_must_not :: json
  tc_grants :: json
  tc_sandbox :: "string option"
  tc_policy :: "string option"
  tc_grounding :: json
  tc_context :: json

record shared_event =
  se_id :: string
  se_stream :: string
  se_seq :: int
  se_project :: "string option"
  se_task :: "string option"
  se_agent :: "string option"
  se_kind :: string
  se_payload :: json
  se_key :: "string option"
  se_correlation :: "string option"
  se_parents :: json
  se_created :: int

record board_row =
  bt_id :: string
  bt_title :: string
  bt_status :: string
  bt_category :: string
  bt_project :: "string option"
  bt_executor :: "string option"
  bt_executor_kind :: "string option"
  bt_claimed :: "string option"
  bt_lease :: "string option"
  bt_updated :: string
  bt_retries :: int
  bt_assignee :: "string option"
  bt_timeout :: "int option"

record view_row =
  bv_task :: string
  bv_job :: "string option"
  bv_status :: string
  bv_artifact :: "string option"
  bv_projection :: json

record note_row =
  bn_id :: string
  bn_task :: string
  bn_content :: string
  bn_type :: string
  bn_author :: "string option"

record conv_row =
  cv_id :: string
  cv_task :: "string option"
  cv_slot :: "string option"
  cv_status :: "string option"
  cv_ended :: "string option"
  cv_type :: string

text \<open>What goes out on the event bus; its result is dropped.\<close>

datatype bus_event =
    ExternalServiceEvent string string
  | SlotBecameIdle string
  | StatusChanged string string string
  | BoardUpdated string string string
  | NoteAdded string string string
  | TaskCompleted string

record kdb =
  grants :: "grant_row list"
  audits :: "audit_row list"
  leases :: "lease_row list"
  claims :: "claim_row list"
  jobs :: "job_row list"
  attempts :: "attempt_row list"
  manifests :: "manifest_row list"
  blobs :: "blob_row list"
  results :: "result_row list"
  contracts :: "contract_row list"
  shared_events :: "shared_event list"
  next_seq :: int
  board :: "board_row list"
  views :: "view_row list"
  board_notes :: "note_row list"
  convs :: "conv_row list"
  published :: "bus_event list"

type_synonym 'a kprog = "(instant, kdb, kerr, 'a) prog"

subsection \<open>Statements\<close>

text \<open>A statement that writes; \<open>Inl\<close> is a violated constraint, and then nothing is written.\<close>

definition exec :: "(instant \<Rightarrow> kdb \<Rightarrow> (string + 'a) \<times> kdb) \<Rightarrow> 'a kprog" where
  "exec f = stmt (\<lambda>t s. case in_answer t of
      Refused m \<Rightarrow> (Inl (Other m), s)
    | Lost m \<Rightarrow> (Inl (Other m), snd (f t s))
    | Served \<Rightarrow> (case f t s of (Inl m, _) \<Rightarrow> (Inl (Other m), s) | (Inr x, s') \<Rightarrow> (Inr x, s')))"

definition query :: "(instant \<Rightarrow> kdb \<Rightarrow> 'a) \<Rightarrow> 'a kprog" where
  "query f = stmt (\<lambda>t s. (case in_answer t of Served \<Rightarrow> Inr (f t s) | Refused m \<Rightarrow> Inl (Other m) | Lost m \<Rightarrow> Inl (Other m), s))"

definition publish :: "bus_event \<Rightarrow> unit kprog" where
  "publish e = stmt (\<lambda>t s. (Inr (), s\<lparr> published := published s @ [e] \<rparr>))"

definition update_where :: "('r \<Rightarrow> bool) \<Rightarrow> ('r \<Rightarrow> 'r) \<Rightarrow> 'r list \<Rightarrow> 'r list" where
  "update_where c f rows = map (\<lambda>r. if c r then f r else r) rows"

definition rows_affected :: "('r \<Rightarrow> bool) \<Rightarrow> 'r list \<Rightarrow> nat" where
  "rows_affected c rows = length (filter c rows)"

text \<open>\<open>ORDER BY created_at DESC LIMIT 1\<close>, the later row where the times are equal.\<close>

fun newest :: "('r \<Rightarrow> int) \<Rightarrow> 'r list \<Rightarrow> 'r option" where
  "newest ts [] = None"
| "newest ts (r # rs) = (case newest ts rs of None \<Rightarrow> Some r | Some q \<Rightarrow> if ts r \<le> ts q then Some q else Some r)"

lemma newest_in: "newest ts rs = Some r \<Longrightarrow> r \<in> set rs"
  by (induction rs arbitrary: r) (auto split: option.splits if_splits)

lemma newest_None [simp]: "newest ts rs = None \<longleftrightarrow> rs = []"
  by (cases rs) (auto split: option.splits)

lemma update_where_simps [simp]:
  "update_where c f [] = []" "length (update_where c f rs) = length rs"
  "set (update_where c f rs) = (\<lambda>r. if c r then f r else r) ` set rs"
  by (simp_all add: update_where_def)

subsection \<open>Rows that stay\<close>

definition rows_kept :: "('r \<Rightarrow> 'r \<Rightarrow> bool) \<Rightarrow> 'r list \<Rightarrow> 'r list \<Rightarrow> bool" where
  "rows_kept R xs ys \<longleftrightarrow> length xs \<le> length ys \<and> list_all2 R xs (take (length xs) ys)"

lemma rows_kept_refl [simp]: "(\<And>x. R x x) \<Longrightarrow> rows_kept R xs xs"
  by (simp add: rows_kept_def list_all2_refl)

lemma rows_kept_snoc [simp]: "(\<And>x. R x x) \<Longrightarrow> rows_kept R xs (xs @ ys)"
  by (simp add: rows_kept_def list_all2_refl)

lemma rows_kept_update: "(\<And>x. R x x) \<Longrightarrow> (\<And>x. x \<in> set xs \<Longrightarrow> c x \<Longrightarrow> R x (f x)) \<Longrightarrow> rows_kept R xs (update_where c f xs)"
  by (auto simp: rows_kept_def update_where_def list_all2_conv_all_nth)

lemma rows_kept_trans:
  assumes "\<And>x y z. R x y \<Longrightarrow> R y z \<Longrightarrow> R x z" "rows_kept R xs ys" "rows_kept R ys zs"
  shows "rows_kept R xs zs"
  unfolding rows_kept_def
proof (intro conjI list_all2_all_nthI)
  show "length xs \<le> length zs" "length xs = length (take (length xs) zs)"
    using assms(2,3) by (simp_all add: rows_kept_def)
  fix i
  assume i: "i < length xs"
  with assms(2) have "R (xs ! i) (ys ! i)" "i < length ys"
    using list_all2_nthD[of R xs "take (length xs) ys" i] by (auto simp: rows_kept_def)
  moreover have "R (ys ! i) (zs ! i)"
    using assms(3) calculation(2) list_all2_nthD[of R ys "take (length ys) zs" i] by (auto simp: rows_kept_def)
  ultimately show "R (xs ! i) (take (length xs) zs ! i)" using assms(1) i by auto
qed

lemma rows_kept_in:
  assumes "rows_kept R xs ys" "x \<in> set xs" shows "\<exists>y \<in> set ys. R x y"
proof -
  obtain i where i: "i < length xs" "xs ! i = x" using assms(2) by (auto simp: in_set_conv_nth)
  then have "R x (ys ! i)" "i < length ys"
    using assms(1) list_all2_nthD[of R xs "take (length xs) ys" i] by (auto simp: rows_kept_def)
  then show ?thesis by auto
qed

subsection \<open>Keys\<close>

lemma keys_update [simp]: "(\<And>r. key (f r) = key r) \<Longrightarrow> map key (update_where c f rs) = map key rs"
  by (auto simp: update_where_def)

definition one_active :: "('r \<Rightarrow> bool) \<Rightarrow> ('r \<Rightarrow> 'k) \<Rightarrow> 'r list \<Rightarrow> bool" where
  "one_active act key rs \<longleftrightarrow> distinct (map key (filter act rs))"

lemma one_active_inj: "distinct rs \<Longrightarrow> one_active act key rs = inj_on key {r \<in> set rs. act r}"
  by (simp add: one_active_def distinct_map)

lemma one_active_snoc:
  "one_active act key rs \<Longrightarrow> \<forall>q \<in> set rs. act q \<longrightarrow> key q \<noteq> key r \<Longrightarrow> one_active act key (rs @ [r])"
  by (auto simp: one_active_def)

lemma one_active_update:
  assumes "one_active act key rs" "\<And>r. r \<in> set rs \<Longrightarrow> c r \<Longrightarrow> act (f r) \<Longrightarrow> act r \<and> key (f r) = key r"
  shows "one_active act key (update_where c f rs)"
  using assms
proof (induction rs)
  case (Cons r rs)
  have IH: "one_active act key (update_where c f rs)" using Cons by (simp add: one_active_def split: if_splits)
  have sub: "key ` {q \<in> set (update_where c f rs). act q} \<subseteq> key ` {q \<in> set rs. act q}"
    using Cons.prems(2) by (fastforce simp: image_iff)
  show ?case
  proof (cases "act (if c r then f r else r)")
    case True
    then have r: "act r" "key (if c r then f r else r) = key r" using Cons.prems(2)[of r] by (auto split: if_splits)
    then have "key r \<notin> key ` {q \<in> set rs. act q}" using Cons.prems(1) by (auto simp: one_active_def)
    then have "key r \<notin> key ` {q \<in> set (update_where c f rs). act q}" using sub by blast
    with IH True r(2) show ?thesis by (auto simp: one_active_def update_where_def image_iff)
  next
    case False
    with IH show ?thesis by (simp add: one_active_def update_where_def)
  qed
qed (simp add: one_active_def)

lemma one_activeD:
  assumes "one_active act key rs" "i < length rs" "j < length rs" "act (rs ! i)" "act (rs ! j)" "key (rs ! i) = key (rs ! j)"
  shows "i = j"
proof -
  have "\<not> (i < j \<and> j < length rs \<and> act (rs ! i) \<and> act (rs ! j) \<and> key (rs ! i) = key (rs ! j))"
    if "one_active act key rs" for i j and rs
    using that
  proof (induction rs arbitrary: i j)
    case (Cons r rs)
    show ?case
    proof (cases i)
      case 0
      have "rs ! m \<in> set rs" if "m < length rs" for m using that by simp
      with 0 show ?thesis using Cons.prems by (cases j) (fastforce simp: one_active_def image_iff)+
    next
      case (Suc k)
      have "one_active act key rs" using Cons.prems by (simp add: one_active_def split: if_splits)
      from Cons.IH[OF this, of k "j - 1"] Suc show ?thesis by (cases j) auto
    qed
  qed simp
  from this[OF assms(1)] show ?thesis using assms(2-) by (metis linorder_neqE_nat)
qed

end
