(* ===== verification/Kernel_Rules.thy ===== *)
theory Kernel_Rules
  imports Kernel_Tables
begin

text \<open>
  The invariant of the kernel's tables, what every statement of every handler keeps of the rows, and the
  rules by which a handler is shown to respect both (\<open>safe\<close>) and to end with a fact about the database
  that other handlers cannot undo (\<open>sat\<close>).
\<close>

subsection \<open>The invariant\<close>

definition subject_kinds :: "string list" where
  "subject_kinds = [''worker'', ''conversation'', ''task'', ''system'', ''operator'', ''daemon'']"

definition grant_operations :: "string list" where
  "grant_operations = [''read'', ''write'', ''claim'', ''settle'', ''delegate'', ''deploy'', ''network'', ''spawn'']"

definition grant_scopes :: "string list" where
  "grant_scopes = [''project'', ''path'', ''task'', ''shared-memory'', ''deploy-target'', ''network-target'']"

definition grant_checked :: "grant_row \<Rightarrow> bool" where
  "grant_checked g \<longleftrightarrow> gr_subject_kind g \<in> set subject_kinds \<and> gr_operation g \<in> set grant_operations \<and>
     gr_scope_kind g \<in> set grant_scopes"

definition grants_ok :: "grant_row list \<Rightarrow> bool" where
  "grants_ok gs \<longleftrightarrow> distinct (map gr_id gs) \<and>
     (\<forall>g \<in> set gs. grant_checked g \<and> (gr_status g = GConsumed \<longleftrightarrow> gr_consumed g \<noteq> None))"

definition lease_scope :: "lease_row \<Rightarrow> string \<times> string" where
  "lease_scope l = (wl_scope_kind l, wl_scope_key l)"

definition claim_scope :: "claim_row \<Rightarrow> string \<times> string" where
  "claim_scope c = (sc_scope_kind c, sc_scope_key c)"

definition lease_active :: "lease_row \<Rightarrow> bool" where
  "lease_active l \<longleftrightarrow> wl_status l = LActive"

definition claim_active :: "claim_row \<Rightarrow> bool" where
  "claim_active c \<longleftrightarrow> sc_status c = LActive"

definition leases_ok :: "lease_row list \<Rightarrow> bool" where
  "leases_ok ls \<longleftrightarrow> distinct (map wl_id ls) \<and> one_active lease_active lease_scope ls"

definition claims_ok :: "claim_row list \<Rightarrow> bool" where
  "claims_ok cs \<longleftrightarrow> distinct (map sc_id cs) \<and> one_active claim_active claim_scope cs"

definition results_ok :: "result_row list \<Rightarrow> bool" where
  "results_ok rs \<longleftrightarrow> distinct (map ra_id rs) \<and> distinct (map (\<lambda>r. (ra_task r, ra_hash r)) rs)"

definition event_key :: "shared_event \<Rightarrow> string \<times> string option" where
  "event_key e = (se_stream e, se_key e)"

definition events_ok :: "shared_event list \<Rightarrow> int \<Rightarrow> bool" where
  "events_ok es n \<longleftrightarrow> distinct (map se_id es) \<and> sorted_wrt (<) (map se_seq es) \<and> (\<forall>e \<in> set es. se_seq e < n) \<and>
     one_active (\<lambda>e. se_key e \<noteq> None) event_key es"

text \<open>A task that is done has a completed artifact.\<close>

definition evidenced :: "result_row list \<Rightarrow> string \<Rightarrow> bool" where
  "evidenced rs i \<longleftrightarrow> (\<exists>r \<in> set rs. ra_task r = i \<and> is_completed_result_status (ra_status r))"

definition board_ok :: "result_row list \<Rightarrow> board_row list \<Rightarrow> bool" where
  "board_ok rs bs \<longleftrightarrow> (\<forall>b \<in> set bs. bt_status b = ''done'' \<longrightarrow> evidenced rs (bt_id b))"

definition kdb_ok :: "kdb \<Rightarrow> bool" where
  "kdb_ok s \<longleftrightarrow> grants_ok (grants s) \<and> leases_ok (leases s) \<and> claims_ok (claims s) \<and>
     distinct (map sa_hash (blobs s)) \<and> results_ok (results s) \<and> events_ok (shared_events s) (next_seq s) \<and>
     board_ok (results s) (board s)"

subsection \<open>What stays\<close>

text \<open>A grant keeps its terms, and a grant that is no longer active never is again.\<close>

definition grant_kept :: "grant_row \<Rightarrow> grant_row \<Rightarrow> bool" where
  "grant_kept g h \<longleftrightarrow> h = g \<or> gr_status g = GActive \<and> (\<exists>st at. h = g\<lparr> gr_status := st, gr_consumed := at \<rparr>)"

definition lease_kept :: "lease_row \<Rightarrow> lease_row \<Rightarrow> bool" where
  "lease_kept l m \<longleftrightarrow> m = l \<or> wl_status l = LActive \<and>
     (\<exists>st ex re hb. m = l\<lparr> wl_status := st, wl_expires := ex, wl_released := re, wl_heartbeat := hb \<rparr>)"

definition result_kept :: "result_row \<Rightarrow> result_row \<Rightarrow> bool" where
  "result_kept r q \<longleftrightarrow> (\<exists>su jo at sk si gr. q = r\<lparr> ra_summary := su, ra_job := jo, ra_attempt := at,
     ra_subject_kind := sk, ra_subject_id := si, ra_grant := gr \<rparr>)"

definition kdb_grows :: "kdb \<Rightarrow> kdb \<Rightarrow> bool" where
  "kdb_grows s s' \<longleftrightarrow> rows_kept grant_kept (grants s) (grants s') \<and> rows_kept (=) (audits s) (audits s') \<and>
     rows_kept lease_kept (leases s) (leases s') \<and> rows_kept (=) (blobs s) (blobs s') \<and>
     rows_kept result_kept (results s) (results s') \<and> rows_kept (=) (shared_events s) (shared_events s')"

lemma kept_refl [simp]: "grant_kept g g" "lease_kept l l" "result_kept r r"
proof -
  have "r = r\<lparr> ra_summary := ra_summary r, ra_job := ra_job r, ra_attempt := ra_attempt r,
     ra_subject_kind := ra_subject_kind r, ra_subject_id := ra_subject_id r, ra_grant := ra_grant r \<rparr>" by simp
  then show "result_kept r r" unfolding result_kept_def by blast
qed (simp_all add: grant_kept_def lease_kept_def)

lemma kept_trans:
  "grant_kept g h \<Longrightarrow> grant_kept h i \<Longrightarrow> grant_kept g i"
  "lease_kept l m \<Longrightarrow> lease_kept m n \<Longrightarrow> lease_kept l n"
  "result_kept r q \<Longrightarrow> result_kept q p \<Longrightarrow> result_kept r p"
proof -
  show "grant_kept g i" if "grant_kept g h" "grant_kept h i" using that by (force simp: grant_kept_def)
  show "lease_kept l n" if "lease_kept l m" "lease_kept m n" using that by (force simp: lease_kept_def)
  show "result_kept r p" if "result_kept r q" "result_kept q p" using that by (force simp: result_kept_def)
qed

lemma kdb_grows_refl [simp]: "kdb_grows s s"
  by (simp add: kdb_grows_def)

lemma kdb_grows_trans: "kdb_grows s t \<Longrightarrow> kdb_grows t u \<Longrightarrow> kdb_grows s u"
  unfolding kdb_grows_def
  by (elim conjE, intro conjI; (rule rows_kept_trans, (erule (1) kept_trans | simp), assumption, assumption))

definition kept_ok :: "kdb \<Rightarrow> kdb \<Rightarrow> bool" where
  "kept_ok s s' \<longleftrightarrow> kdb_ok s' \<and> kdb_grows s s'"

text \<open>Statements that write to one table.\<close>

lemma kept_okI:
  assumes "kdb_ok s" "grants_ok (grants s')" "leases_ok (leases s')" "claims_ok (claims s')" "distinct (map sa_hash (blobs s'))"
    "results_ok (results s')" "events_ok (shared_events s') (next_seq s')" "board_ok (results s') (board s')" "kdb_grows s s'"
  shows "kept_ok s s'"
  using assms by (simp add: kept_ok_def kdb_ok_def)

lemma kept_ok_refl [simp]: "kdb_ok s \<Longrightarrow> kept_ok s s"
  by (simp add: kept_ok_def)

lemma kept_ok_other [simp]:
  "kept_ok s (s'\<lparr> jobs := a \<rparr>) = kept_ok s s'" "kept_ok s (s'\<lparr> attempts := b \<rparr>) = kept_ok s s'"
  "kept_ok s (s'\<lparr> manifests := c \<rparr>) = kept_ok s s'" "kept_ok s (s'\<lparr> contracts := d \<rparr>) = kept_ok s s'"
  "kept_ok s (s'\<lparr> views := f \<rparr>) = kept_ok s s'"
  "kept_ok s (s'\<lparr> board_notes := g \<rparr>) = kept_ok s s'" "kept_ok s (s'\<lparr> convs := h \<rparr>) = kept_ok s s'"
  "kept_ok s (s'\<lparr> published := i \<rparr>) = kept_ok s s'"
  by (simp_all add: kept_ok_def kdb_ok_def kdb_grows_def)

lemma kept_ok_audits [simp]: "kdb_ok s \<Longrightarrow> kept_ok s (s\<lparr> audits := audits s @ as \<rparr>)"
  by (simp add: kept_ok_def kdb_ok_def kdb_grows_def)

lemma kept_ok_grants [simp]:
  "kdb_ok s \<Longrightarrow> kept_ok s (s\<lparr> grants := gs \<rparr>) = (grants_ok gs \<and> rows_kept grant_kept (grants s) gs)"
  by (auto simp: kept_ok_def kdb_ok_def kdb_grows_def)

lemma kept_ok_leases [simp]:
  "kdb_ok s \<Longrightarrow> kept_ok s (s\<lparr> leases := ls \<rparr>) = (leases_ok ls \<and> rows_kept lease_kept (leases s) ls)"
  by (auto simp: kept_ok_def kdb_ok_def kdb_grows_def)

lemma kept_ok_claims [simp]:
  "kdb_ok s \<Longrightarrow> kept_ok s (s\<lparr> claims := cs \<rparr>) = claims_ok cs"
  by (auto simp: kept_ok_def kdb_ok_def kdb_grows_def)

lemma kept_ok_both [simp]:
  "kdb_ok s \<Longrightarrow> kept_ok s (s\<lparr> leases := ls, claims := cs \<rparr>) =
     (leases_ok ls \<and> rows_kept lease_kept (leases s) ls \<and> claims_ok cs)"
  by (auto simp: kept_ok_def kdb_ok_def kdb_grows_def)

lemma kept_ok_blobs [simp]:
  "kdb_ok s \<Longrightarrow> kept_ok s (s\<lparr> blobs := bs \<rparr>) = (distinct (map sa_hash bs) \<and> rows_kept (=) (blobs s) bs)"
  by (auto simp: kept_ok_def kdb_ok_def kdb_grows_def)

lemma evidenced_kept: "rows_kept result_kept rs qs \<Longrightarrow> evidenced rs i \<Longrightarrow> evidenced qs i"
proof -
  assume k: "rows_kept result_kept rs qs" and "evidenced rs i"
  then obtain r where r: "r \<in> set rs" "ra_task r = i" "is_completed_result_status (ra_status r)" by (auto simp: evidenced_def)
  obtain q where "q \<in> set qs" "result_kept r q" using rows_kept_in[OF k r(1)] by blast
  with r show ?thesis unfolding evidenced_def by (intro bexI[of _ q]) (auto simp: result_kept_def)
qed

lemma board_ok_kept: "rows_kept result_kept rs qs \<Longrightarrow> board_ok rs bs \<Longrightarrow> board_ok qs bs"
  using evidenced_kept unfolding board_ok_def by blast

lemma kept_ok_results [simp]:
  "kdb_ok s \<Longrightarrow> kept_ok s (s\<lparr> results := rs \<rparr>) = (results_ok rs \<and> rows_kept result_kept (results s) rs)"
  by (auto simp: kept_ok_def kdb_ok_def kdb_grows_def intro: board_ok_kept)

lemma kept_ok_board [simp]:
  "kdb_ok s \<Longrightarrow> kept_ok s (s\<lparr> board := bs \<rparr>) = board_ok (results s) bs"
  "kdb_ok s \<Longrightarrow> kept_ok s (s\<lparr> leases := ls, board := bs \<rparr>) =
     (leases_ok ls \<and> rows_kept lease_kept (leases s) ls \<and> board_ok (results s) bs)"
  by (auto simp: kept_ok_def kdb_ok_def kdb_grows_def)

lemma kdb_blobs [simp]: "kdb_ok s \<Longrightarrow> distinct (map sa_hash (blobs s))"
  by (simp add: kdb_ok_def)

lemma kept_ok_events [simp]:
  "kdb_ok s \<Longrightarrow> kept_ok s (s\<lparr> shared_events := es, next_seq := n \<rparr>) = (events_ok es n \<and> rows_kept (=) (shared_events s) es)"
  "kdb_ok s \<Longrightarrow> kept_ok s (s\<lparr> next_seq := n \<rparr>) = events_ok (shared_events s) n"
  by (auto simp: kept_ok_def kdb_ok_def kdb_grows_def)

subsection \<open>Handlers that respect the rules\<close>

definition on_ok :: "('a \<Rightarrow> 's \<Rightarrow> bool) \<Rightarrow> 'e + 'a \<Rightarrow> 's \<Rightarrow> bool" where
  "on_ok R r s \<longleftrightarrow> (\<forall>x. r = Inr x \<longrightarrow> R x s)"

definition sat :: "(kdb \<Rightarrow> bool) \<Rightarrow> 'a kprog \<Rightarrow> ('a \<Rightarrow> kdb \<Rightarrow> bool) \<Rightarrow> bool" where
  "sat P p R \<longleftrightarrow> rg kdb_ok kdb_grows P p (on_ok R)"

definition lasts :: "(kdb \<Rightarrow> bool) \<Rightarrow> bool" where
  "lasts P \<longleftrightarrow> stable kdb_ok kdb_grows P"

definition safe :: "'a kprog \<Rightarrow> bool" where
  "safe p \<longleftrightarrow> sat (\<lambda>s. True) p (\<lambda>x s. True)"

named_theorems safe_intros \<open>rules that show that a handler respects the invariant\<close>
named_theorems lasting \<open>facts about the database that last\<close>

lemma on_ok_simps [simp]: "on_ok R (Inr x) = R x" "on_ok R (Inl e) = (\<lambda>s. True)"
  by (simp_all add: on_ok_def fun_eq_iff)

lemma lasts_const [lasting]: "lasts (\<lambda>s. b)"
  unfolding lasts_def by (rule stable_const)

lemma lasts_conj [lasting]: "lasts P \<Longrightarrow> lasts Q \<Longrightarrow> lasts (\<lambda>s. P s \<and> Q s)"
  unfolding lasts_def by (rule stable_conj)

lemma lasts_imp [lasting]: "(b \<Longrightarrow> lasts P) \<Longrightarrow> lasts (\<lambda>s. b \<longrightarrow> P s)"
  unfolding lasts_def by (rule stable_imp)

lemma lasts_disj [lasting]: "lasts P \<Longrightarrow> lasts Q \<Longrightarrow> lasts (\<lambda>s. P s \<or> Q s)"
  unfolding lasts_def by (rule stable_disj)

lemma lasts_ex [lasting]: "(\<And>x. lasts (P x)) \<Longrightarrow> lasts (\<lambda>s. \<exists>x. P x s)"
  unfolding lasts_def by (rule stable_ex)

lemma lasts_all [lasting]: "(\<And>x. lasts (P x)) \<Longrightarrow> lasts (\<lambda>s. \<forall>x. P x s)"
  unfolding lasts_def by (rule stable_all)

lemma sat_Ret: "(\<And>s. kdb_ok s \<Longrightarrow> P s \<Longrightarrow> R x s) \<Longrightarrow> sat P (Ret x) R"
  unfolding sat_def by (rule rg_Ret) simp

lemma sat_Err [simp]: "sat P (Err e) R"
  unfolding sat_def by (rule rg_Err) simp

lemma sat_pre: "sat P p R \<Longrightarrow> (\<And>s. kdb_ok s \<Longrightarrow> P' s \<Longrightarrow> P s) \<Longrightarrow> sat P' p R"
  unfolding sat_def by (rule rg_pre)

lemma sat_post: "sat P p R \<Longrightarrow> (\<And>x s. kdb_ok s \<Longrightarrow> R x s \<Longrightarrow> R' x s) \<Longrightarrow> sat P p R'"
  unfolding sat_def by (erule rg_post) (auto simp: on_ok_def)

lemma sat_bind:
  assumes "sat P p R" "\<And>x. lasts (R x)" "\<And>x. sat (R x) (k x) Q"
  shows "sat P (bind_prog p k) Q"
  using assms unfolding sat_def lasts_def by (intro rg_bind[where R = "on_ok R"]) auto

lemma sat_then: "sat P p (\<lambda>_. R) \<Longrightarrow> lasts R \<Longrightarrow> sat R q Q \<Longrightarrow> sat P (then_prog p q) Q"
  unfolding then_prog_def by (rule sat_bind)

lemma rg_frame:
  assumes "rg I G P p R" "stable I G F"
  shows "rg I G (\<lambda>s. P s \<and> F s) p (\<lambda>r s. R r s \<and> F s)"
  using assms
proof (induction rule: rg.induct)
  case (rg_Atom P f R)
  show ?case
  proof (rule rg.rg_Atom)
    fix t s
    assume s: "I s" "P s \<and> F s"
    then obtain P' where P': "I (snd (f t s))" "G s (snd (f t s))" "P' (snd (f t s))" "stable I G P'"
      "rg I G (\<lambda>s. P' s \<and> F s) (fst (f t s)) (\<lambda>r s. R r s \<and> F s)"
      using rg_Atom(1)[of s t] rg_Atom(2) by blast
    moreover have "F (snd (f t s))" using s P'(1,2) rg_Atom(2) unfolding stable_def by blast
    moreover have "stable I G (\<lambda>s. P' s \<and> F s)" using P'(4) rg_Atom(2) by (rule stable_conj)
    ultimately show "I (snd (f t s)) \<and> G s (snd (f t s)) \<and>
      (\<exists>P'. P' (snd (f t s)) \<and> stable I G P' \<and> rg I G P' (fst (f t s)) (\<lambda>r s. R r s \<and> F s))"
      by (intro conjI exI[of _ "\<lambda>s. P' s \<and> F s"]) auto
  qed
qed (auto intro: rg_Ret rg_Err)

lemma sat_frame: "sat P p R \<Longrightarrow> lasts F \<Longrightarrow> sat (\<lambda>s. P s \<and> F s) p (\<lambda>x s. R x s \<and> F s)"
  unfolding sat_def lasts_def by (drule (1) rg_frame, erule rg_post) (auto simp: on_ok_def)

lemma safe_keeps: "safe p \<Longrightarrow> lasts F \<Longrightarrow> sat F p (\<lambda>x s. F s)"
  unfolding safe_def by (drule (1) sat_frame) (auto elim: sat_pre sat_post)

text \<open>A safe call in the middle of a handler: what was known before is known after.\<close>

lemma sat_safe_bind:
  assumes "safe p" "lasts P" "\<And>x. sat P (k x) Q"
  shows "sat P (bind_prog p k) Q"
  by (rule sat_bind[OF safe_keeps[OF assms(1,2)]]) (use assms in auto)

lemma sat_safe_then: "safe p \<Longrightarrow> lasts P \<Longrightarrow> sat P q Q \<Longrightarrow> sat P (then_prog p q) Q"
  unfolding then_prog_def by (rule sat_safe_bind)

lemma sat_exec:
  assumes "\<And>t s r s'. kdb_ok s \<Longrightarrow> P s \<Longrightarrow> f t s = (r, s') \<Longrightarrow> kept_ok s s' \<and> (\<forall>x. r = Inr x \<longrightarrow> R x s')"
    "\<And>x. lasts (R x)"
  shows "sat P (exec f) R"
  unfolding sat_def exec_def
proof (rule rg_stmt)
  fix t s r s'
  assume s: "kdb_ok s" "P s" "(case in_answer t of Served \<Rightarrow> (case f t s of (Inl m, _) \<Rightarrow> (Inl (Other m), s) | (Inr x, s') \<Rightarrow> (Inr x, s'))
      | Refused m \<Rightarrow> (Inl (Other m), s) | Lost m \<Rightarrow> (Inl (Other m), snd (f t s))) = (r, s')"
  obtain q u where f: "f t s = (q, u)" by fastforce
  have "kdb_ok u \<and> kdb_grows s u \<and> (\<forall>x. q = Inr x \<longrightarrow> R x u)" using assms(1)[OF s(1,2) f] by (simp add: kept_ok_def)
  then show "kdb_ok s' \<and> kdb_grows s s' \<and> on_ok R r s'"
    using s f by (auto split: answer.splits sum.splits)
next
  show "stable kdb_ok kdb_grows (on_ok R r)" for r
    using assms(2) by (cases r) (simp_all add: lasts_def)
qed

lemma sat_query:
  assumes "\<And>t s. kdb_ok s \<Longrightarrow> P s \<Longrightarrow> R (f t s) s" "\<And>x. lasts (R x)"
  shows "sat P (query f) R"
  unfolding sat_def query_def
proof (rule rg_stmt)
  fix t s r s'
  assume "kdb_ok s" "P s" "(case in_answer t of Served \<Rightarrow> Inr (f t s) | Refused m \<Rightarrow> Inl (Other m) | Lost m \<Rightarrow> Inl (Other m), s) = (r, s')"
  then show "kdb_ok s' \<and> kdb_grows s s' \<and> on_ok R r s'" using assms(1) by (auto split: answer.splits)
next
  show "stable kdb_ok kdb_grows (on_ok R r)" for r
    using assms(2) by (cases r) (simp_all add: lasts_def)
qed

lemma safe_exec [safe_intros]: "(\<And>t s. kdb_ok s \<Longrightarrow> kept_ok s (snd (f t s))) \<Longrightarrow> safe (exec f)"
  unfolding safe_def by (rule sat_exec) (auto intro: lasting, metis snd_conv)

lemma safe_query [safe_intros]: "safe (query f)"
  unfolding safe_def by (rule sat_query) (auto intro: lasting)

lemma safe_publish [safe_intros]: "safe (publish e)"
  unfolding safe_def sat_def publish_def
  by (rule rg_stmt) (auto simp: kdb_ok_def kdb_grows_def on_ok_def stable_def)

lemma safe_observe [safe_intros]: "safe (observe f)"
  unfolding safe_def sat_def by (rule rg_observe) auto

lemma safe_end [safe_intros]: "safe (Ret x)" "safe (Err e)"
  unfolding safe_def by (auto intro: sat_Ret)

lemma safe_of_res [safe_intros]: "safe (of_res r)"
  by (cases r) (auto intro: safe_intros)

lemma safe_bind [safe_intros]: "safe p \<Longrightarrow> (\<And>x. safe (k x)) \<Longrightarrow> safe (bind_prog p k)"
  unfolding safe_def by (rule sat_bind) (auto intro: lasting)

lemma safe_then [safe_intros]: "safe p \<Longrightarrow> safe q \<Longrightarrow> safe (then_prog p q)"
  unfolding then_prog_def by (rule safe_bind)

lemma safe_attempt [safe_intros]: "safe p \<Longrightarrow> safe (attempt p)"
  unfolding safe_def sat_def by (rule rg_attempt) (auto elim: rg_post)

lemma safe_for_each [safe_intros]: "(\<And>x. x \<in> set xs \<Longrightarrow> safe (f x)) \<Longrightarrow> safe (for_each f xs)"
  by (induction xs) (auto intro!: safe_intros)

lemma safe_if [safe_intros]: "(b \<Longrightarrow> safe p) \<Longrightarrow> (\<not> b \<Longrightarrow> safe q) \<Longrightarrow> safe (if b then p else q)"
  by simp

lemma safe_option [safe_intros]: "safe p \<Longrightarrow> (\<And>x. safe (q x)) \<Longrightarrow> safe (case r of None \<Rightarrow> p | Some x \<Rightarrow> q x)"
  by (cases r) auto

lemma safe_sum [safe_intros]: "(\<And>e. safe (p e)) \<Longrightarrow> (\<And>x. safe (q x)) \<Longrightarrow> safe (case r of Inl e \<Rightarrow> p e | Inr x \<Rightarrow> q x)"
  by (cases r) auto

lemma safe_prod [safe_intros]: "(\<And>a b. safe (p a b)) \<Longrightarrow> safe (case r of (a, b) \<Rightarrow> p a b)"
  by (cases r) auto

lemma sat_attempt: "sat P p R \<Longrightarrow> sat P (attempt p) (\<lambda>r s. \<forall>x. r = Inr x \<longrightarrow> R x s)"
  unfolding sat_def by (rule rg_attempt) (auto elim!: rg_post simp: on_ok_def)

subsection \<open>Facts that last\<close>

lemma lasts_rows:
  assumes "\<And>s s'. kdb_grows s s' \<Longrightarrow> rows_kept R (tab s) (tab s')" "\<And>x y. R x y \<Longrightarrow> P x \<Longrightarrow> P y"
  shows "lasts (\<lambda>s. \<exists>x \<in> set (tab s). P x)"
  unfolding lasts_def stable_def
proof (intro allI impI)
  fix s s'
  assume "\<exists>x \<in> set (tab s). P x" "kdb_grows s s'"
  then obtain x where x: "x \<in> set (tab s)" "P x" by blast
  obtain y where "y \<in> set (tab s')" "R x y"
    using rows_kept_in[OF assms(1)[OF \<open>kdb_grows s s'\<close>] x(1)] by blast
  with x(2) assms(2) show "\<exists>x \<in> set (tab s'). P x" by blast
qed

lemma lasts_grant [lasting]:
  assumes "\<And>g h. grant_kept g h \<Longrightarrow> P g \<Longrightarrow> P h"
  shows "lasts (\<lambda>s. \<exists>g \<in> set (grants s). P g)"
  by (rule lasts_rows[where R = grant_kept]) (use assms in \<open>auto simp: kdb_grows_def\<close>)

lemma lasts_audit [lasting]: "lasts (\<lambda>s. \<exists>a \<in> set (audits s). P a)"
  by (rule lasts_rows[where R = "(=)"]) (auto simp: kdb_grows_def)

lemma lasts_lease [lasting]:
  assumes "\<And>l m. lease_kept l m \<Longrightarrow> P l \<Longrightarrow> P m"
  shows "lasts (\<lambda>s. \<exists>l \<in> set (leases s). P l)"
  by (rule lasts_rows[where R = lease_kept]) (use assms in \<open>auto simp: kdb_grows_def\<close>)

lemma lasts_result [lasting]:
  assumes "\<And>r q. result_kept r q \<Longrightarrow> P r \<Longrightarrow> P q"
  shows "lasts (\<lambda>s. \<exists>r \<in> set (results s). P r)"
  by (rule lasts_rows[where R = result_kept]) (use assms in \<open>auto simp: kdb_grows_def\<close>)

lemma lasts_evidenced [lasting]: "lasts (\<lambda>s. evidenced (results s) i)"
  unfolding lasts_def stable_def kdb_grows_def using evidenced_kept by blast

lemma lasts_event [lasting]: "lasts (\<lambda>s. \<exists>e \<in> set (shared_events s). P e)"
  by (rule lasts_rows[where R = "(=)"]) (auto simp: kdb_grows_def)

end
