(* ===== verification/Kernel_Capability.thy ===== *)
theory Kernel_Capability
  imports Kernel_Rules
begin

text \<open>
  Capabilities (\<open>engine/shared_memory.rs\<close>): the check of a grant with its audit row, the one-time
  consumption of a grant, grants with the constraints of their table, and delegation
  (\<open>engine/control_plane_kernel.rs\<close>).
\<close>

subsection \<open>Requests\<close>

record capability_check =
  cc_grant :: "string option"
  cc_subject_kind :: string
  cc_subject_id :: string
  cc_operation :: string
  cc_scope_kind :: string
  cc_scope_key :: string
  cc_task :: "string option"
  cc_bypass :: bool
  cc_reason :: "string option"
  cc_details :: json

record grant_input =
  gi_subject_kind :: string
  gi_subject_id :: string
  gi_operation :: string
  gi_scope_kind :: string
  gi_scope_key :: string
  gi_project :: "string option"
  gi_task :: "string option"
  gi_issuer :: string
  gi_evidence :: "string option"
  gi_details :: json

definition CAPABILITY_DENIED :: string where
  "CAPABILITY_DENIED = ''CAPABILITY_DENIED''"

subsection \<open>The audit\<close>

definition audit_capability :: "string option \<Rightarrow> string option \<Rightarrow> string option \<Rightarrow> string \<Rightarrow> string \<Rightarrow> string \<Rightarrow>
    string \<Rightarrow> string option \<Rightarrow> json \<Rightarrow> unit kprog" where
  "audit_capability grant sk si op kind key decision code details = exec (\<lambda>t s.
     if in_uuid t \<in> au_id ` set (audits s) then (Inl ''capability_audit_events_pkey'', s)
     else (Inr (), s\<lparr> audits := audits s @ [\<lparr> au_id = in_uuid t, au_grant = grant, au_subject_kind = sk,
       au_subject_id = si, au_operation = op, au_scope_kind = kind, au_scope_key = key, au_decision = decision,
       au_code = code, au_reason = Option.bind (j_get details ''reason'') as_str, au_details = details \<rparr>] \<rparr>))"

definition audit_capability_bypass :: "string \<Rightarrow> string \<Rightarrow> string \<Rightarrow> string \<Rightarrow> string \<Rightarrow> string \<Rightarrow> json \<Rightarrow> unit kprog" where
  "audit_capability_bypass sk si op kind key reason details =
     audit_capability None (Some sk) (Some si) op kind key ''allowed'' None
       (JObject [(''reason'', JString reason), (''bypass'', JBool True), (''details'', details)])"

subsection \<open>Checking a grant\<close>

definition grant_live :: "int \<Rightarrow> grant_row \<Rightarrow> bool" where
  "grant_live now g \<longleftrightarrow> gr_status g = GActive \<and> gr_consumed g = None \<and>
     (case gr_expires g of None \<Rightarrow> True | Some x \<Rightarrow> now < x)"

definition grant_matches :: "string \<Rightarrow> capability_check \<Rightarrow> int \<Rightarrow> grant_row \<Rightarrow> bool" where
  "grant_matches gid req now g \<longleftrightarrow> gr_id g = gid \<and> gr_subject_kind g = cc_subject_kind req \<and>
     gr_subject_id g = cc_subject_id req \<and> gr_operation g = cc_operation req \<and> gr_scope_kind g = cc_scope_kind req \<and>
     gr_scope_key g = cc_scope_key req \<and> gr_task g = cc_task req \<and> grant_live now g"

definition bypass_kinds :: "string list" where
  "bypass_kinds = [''system'', ''operator'', ''daemon'']"

definition audit_of :: "capability_check \<Rightarrow> string option \<Rightarrow> string \<Rightarrow> string option \<Rightarrow> json \<Rightarrow> unit kprog" where
  "audit_of req gid = audit_capability gid (Some (cc_subject_kind req)) (Some (cc_subject_id req)) (cc_operation req)
     (cc_scope_kind req) (cc_scope_key req)"

definition deny_capability :: "capability_check \<Rightarrow> 'a kprog" where
  "deny_capability req = then_prog
     (audit_of req (cc_grant req) ''denied'' (Some CAPABILITY_DENIED) (JObject
        [(''reason'', JString ''no exact active subject-bound capability grant''), (''task_id'', j_opt (cc_task req)),
         (''grant_id'', j_opt (cc_grant req)), (''subject_kind'', JString (cc_subject_kind req)),
         (''subject_id'', JString (cc_subject_id req)), (''details'', cc_details req)]))
     (Err (Control CAPABILITY_DENIED
        (''subject '' @ cc_subject_kind req @ '':'' @ cc_subject_id req @ '' lacks exact active grant for '' @
         cc_operation req @ '' on '' @ cc_scope_kind req @ '':'' @ cc_scope_key req)
        (JObject [(''task_id'', j_opt (cc_task req)), (''grant_id'', j_opt (cc_grant req)),
         (''subject_kind'', JString (cc_subject_kind req)), (''subject_id'', JString (cc_subject_id req)),
         (''operation'', JString (cc_operation req)), (''scope_kind'', JString (cc_scope_kind req)),
         (''scope_key'', JString (cc_scope_key req)),
         (''required'', JString ''grant_id + subject_kind + subject_id + operation + scope_kind + scope_key + task_id'')])))"

definition bypass_id :: "capability_check \<Rightarrow> string" where
  "bypass_id req = ''bypass:'' @ cc_subject_kind req @ '':'' @ cc_operation req"

definition require_capability :: "capability_check \<Rightarrow> string kprog" where
  "require_capability req = (case cc_grant req of
      Some gid \<Rightarrow> bind_prog (query (\<lambda>t s. find (grant_matches gid req (in_db_now t)) (grants s))) (\<lambda>row. case row of
          Some g \<Rightarrow> then_prog
            (audit_of req (Some (gr_id g)) ''allowed'' None (JObject [(''task_id'', j_opt (cc_task req)),
               (''exact_grant'', JBool True), (''details'', cc_details req)]))
            (Ret (gr_id g))
        | None \<Rightarrow> deny_capability req)
    | None \<Rightarrow> if cc_bypass req \<and> cc_subject_kind req \<in> set bypass_kinds
        then then_prog
          (audit_of req None ''allowed'' None (JObject [(''task_id'', j_opt (cc_task req)), (''bypass'', JBool True),
             (''reason'', JString (unwrap_or (cc_reason req) ''confirmed control-plane system/operator bypass'')),
             (''details'', cc_details req)]))
          (Ret (bypass_id req))
        else deny_capability req)"

subsection \<open>Consuming a grant\<close>

definition consumable :: "string \<Rightarrow> string \<Rightarrow> string \<Rightarrow> string \<Rightarrow> string \<Rightarrow> int \<Rightarrow> grant_row \<Rightarrow> bool" where
  "consumable gid op task sk si now g \<longleftrightarrow> gr_id g = gid \<and> gr_operation g = op \<and> gr_task g = Some task \<and>
     gr_subject_kind g = sk \<and> gr_subject_id g = si \<and> grant_live now g"

definition mark_consumed :: "string \<Rightarrow> string \<Rightarrow> string \<Rightarrow> string \<Rightarrow> string \<Rightarrow> nat kprog" where
  "mark_consumed gid op task sk si = exec (\<lambda>t s. let c = consumable gid op task sk si (in_db_now t) in
     (Inr (rows_affected c (grants s)),
      s\<lparr> grants := update_where c (\<lambda>g. g\<lparr> gr_status := GConsumed, gr_consumed := Some (in_db_now t) \<rparr>) (grants s) \<rparr>))"

definition is_bypass :: "string \<Rightarrow> bool" where
  "is_bypass gid \<longleftrightarrow> take 7 gid = ''bypass:''"

definition consume_capability_grant :: "string \<Rightarrow> string \<Rightarrow> string \<Rightarrow> string \<Rightarrow> string \<Rightarrow> unit kprog" where
  "consume_capability_grant gid op task sk si = (if is_bypass gid then Ret () else
     bind_prog (mark_consumed gid op task sk si) (\<lambda>n.
       if n \<noteq> 1
       then then_prog (audit_capability (Some gid) (Some sk) (Some si) op ''task'' task ''denied'' (Some CAPABILITY_DENIED)
             (JObject [(''reason'', JString ''exact capability grant was not consumable''), (''task_id'', JString task),
               (''grant_id'', JString gid), (''subject_kind'', JString sk), (''subject_id'', JString si)]))
           (Err (Control CAPABILITY_DENIED
              (''exact '' @ op @ '' grant '' @ gid @ '' for task '' @ task @ '' was not consumable'')
              (JObject [(''task_id'', JString task), (''grant_id'', JString gid), (''subject_kind'', JString sk),
                (''subject_id'', JString si), (''required'', JString ''active exact unconsumed grant'')])))
       else audit_capability (Some gid) (Some sk) (Some si) op ''task'' task ''allowed'' None
             (JObject [(''task_id'', JString task), (''grant_id'', JString gid), (''consumed'', JBool True),
               (''exact_grant'', JBool True)])))"

definition active_capability_grant_id :: "string \<Rightarrow> string \<Rightarrow> string \<Rightarrow> string \<Rightarrow> string \<Rightarrow> string \<Rightarrow> string option kprog" where
  "active_capability_grant_id task sk si op kind key = query (\<lambda>t s. map_option gr_id (newest gr_created
     (filter (\<lambda>g. gr_task g = Some task \<and> gr_subject_kind g = sk \<and> gr_subject_id g = si \<and> gr_operation g = op \<and>
        gr_scope_kind g = kind \<and> gr_scope_key g = key \<and> grant_live (in_db_now t) g) (grants s))))"

subsection \<open>Granting\<close>

definition new_grant :: "instant \<Rightarrow> grant_input \<Rightarrow> grant_row" where
  "new_grant t i = \<lparr> gr_id = in_uuid t, gr_subject_kind = gi_subject_kind i, gr_subject_id = gi_subject_id i,
     gr_operation = gi_operation i, gr_scope_kind = gi_scope_kind i, gr_scope_key = gi_scope_key i,
     gr_project = gi_project i, gr_task = gi_task i, gr_status = GActive, gr_issuer = gi_issuer i,
     gr_evidence = gi_evidence i, gr_expires = None, gr_consumed = None, gr_details = gi_details i,
     gr_created = in_db_now t \<rparr>"

definition insert_capability_grant :: "grant_input \<Rightarrow> string kprog" where
  "insert_capability_grant i = exec (\<lambda>t s.
     if \<not> grant_checked (new_grant t i) then (Inl ''capability_grants check constraint'', s)
     else if in_uuid t \<in> gr_id ` set (grants s) then (Inl ''capability_grants_pkey'', s)
     else (Inr (in_uuid t), s\<lparr> grants := grants s @ [new_grant t i] \<rparr>))"

definition delegate_details :: json where
  "delegate_details = JObject [(''source'', JString ''mission_task_delegate'')]"

definition grant_task_capabilities :: "string option \<Rightarrow> string \<Rightarrow> string \<Rightarrow> string \<Rightarrow> string list \<Rightarrow> string list \<Rightarrow>
    string list \<Rightarrow> string \<Rightarrow> string list kprog" where
  "grant_task_capabilities project task sk si read_scope write_scope must_not issuer = (let
     input = (\<lambda>op kind key ev d. \<lparr> gi_subject_kind = sk, gi_subject_id = si, gi_operation = op, gi_scope_kind = kind,
       gi_scope_key = key, gi_project = project, gi_task = Some task, gi_issuer = issuer, gi_evidence = ev, gi_details = d \<rparr>);
     artifact = Some ''canonical_task_result_artifact''
   in bind_prog (for_each (\<lambda>p. insert_capability_grant (input ''read'' ''path'' p None delegate_details)) read_scope) (\<lambda>rs.
      bind_prog (for_each (\<lambda>p. insert_capability_grant (input ''write'' ''path'' p (Some ''verification_and_changed_paths'')
         (JObject [(''source'', JString ''mission_task_delegate''), (''must_not_touch'', JArray (map JString must_not))])))
         write_scope) (\<lambda>ws.
      bind_prog (insert_capability_grant (input ''write'' ''task'' task artifact delegate_details)) (\<lambda>w.
      bind_prog (insert_capability_grant (input ''settle'' ''task'' task artifact delegate_details)) (\<lambda>st.
      bind_prog (insert_capability_grant (input ''claim'' ''task'' task None delegate_details)) (\<lambda>c.
      bind_prog (insert_capability_grant (input ''spawn'' ''task'' task (Some ''runtime_metadata_sandbox_profile'') delegate_details)) (\<lambda>sp.
      Ret (rs @ ws @ [w, st, c, sp]))))))))"

record grant_command =
  gc_authority_grant :: "string option"
  gc_authority_kind :: string
  gc_authority_id :: string
  gc_target :: grant_input
  gc_bypass :: bool
  gc_reason :: "string option"

text \<open>\<open>Map::insert\<close>.\<close>

definition j_insert :: "string \<Rightarrow> json \<Rightarrow> (string \<times> json) list \<Rightarrow> (string \<times> json) list" where
  "j_insert = AList.update"

definition grant_provenance :: "grant_command \<Rightarrow> string \<Rightarrow> json" where
  "grant_provenance c gid = (case gi_details (gc_target c) of
      JObject fs \<Rightarrow> JObject (j_insert ''authority_subject_id'' (JString (gc_authority_id c))
        (j_insert ''authority_subject_kind'' (JString (gc_authority_kind c)) (j_insert ''authority_grant_id'' (JString gid) fs)))
    | v \<Rightarrow> JObject [(''value'', v), (''authority_grant_id'', JString gid), (''authority_subject_kind'', JString (gc_authority_kind c)),
        (''authority_subject_id'', JString (gc_authority_id c))])"

definition delegation_check :: "grant_command \<Rightarrow> capability_check" where
  "delegation_check c = (let i = gc_target c in
     \<lparr> cc_grant = gc_authority_grant c, cc_subject_kind = gc_authority_kind c, cc_subject_id = gc_authority_id c,
       cc_operation = ''delegate'', cc_scope_kind = (if gi_task i \<noteq> None then ''task'' else gi_scope_kind i),
       cc_scope_key = unwrap_or (gi_task i) (gi_scope_key i), cc_task = gi_task i, cc_bypass = gc_bypass c,
       cc_reason = Some (unwrap_or (gc_reason c) ''mission_shared_memory capability_grant system/operator authority''),
       cc_details = JObject [(''target_subject_kind'', JString (gi_subject_kind i)), (''target_subject_id'', JString (gi_subject_id i)),
         (''target_operation'', JString (gi_operation i)), (''target_scope_kind'', JString (gi_scope_kind i)),
         (''target_scope_key'', JString (gi_scope_key i))] \<rparr>)"

definition capability_grant_command :: "grant_command \<Rightarrow> json kprog" where
  "capability_grant_command c = bind_prog (require_capability (delegation_check c)) (\<lambda>gid.
     bind_prog (insert_capability_grant ((gc_target c)\<lparr> gi_details := grant_provenance c gid \<rparr>)) (\<lambda>new.
     Ret (JObject [(''schema'', JString ''missiond.capability-grant.v1''), (''ok'', JBool True), (''grant_id'', JString new)])))"

definition capability_check_command :: "capability_check \<Rightarrow> json kprog" where
  "capability_check_command req = bind_prog (require_capability req) (\<lambda>gid.
     Ret (JObject [(''schema'', JString ''missiond.capability-check.v1''), (''ok'', JBool True), (''task_id'', j_opt (cc_task req)),
       (''grant_id'', JString gid), (''operation'', JString (cc_operation req)), (''scope_kind'', JString (cc_scope_kind req)),
       (''scope_key'', JString (cc_scope_key req))]))"

subsection \<open>What the operations keep\<close>

lemma safe_audit [safe_intros]: "safe (audit_capability a b c d e f g h i)"
  unfolding audit_capability_def by (rule safe_exec) simp

lemma safe_audit_of [safe_intros]: "safe (audit_of req gid d c j)"
  unfolding audit_of_def by (rule safe_intros)

lemma safe_deny [safe_intros]: "safe (deny_capability req)"
  unfolding deny_capability_def by (intro safe_intros)

lemma safe_require [safe_intros]: "safe (require_capability req)"
  unfolding require_capability_def by (intro safe_intros)

lemma grants_ok_consume:
  assumes "grants_ok gs"
  shows "grants_ok (update_where c (\<lambda>g. g\<lparr> gr_status := GConsumed, gr_consumed := Some now \<rparr>) gs)"
  using assms by (auto simp: grants_ok_def grant_checked_def)

lemma grants_ok_snoc: "grants_ok gs \<Longrightarrow> grant_checked g \<Longrightarrow> gr_id g \<notin> gr_id ` set gs \<Longrightarrow> gr_status g = GActive \<Longrightarrow>
    gr_consumed g = None \<Longrightarrow> grants_ok (gs @ [g])"
  by (auto simp: grants_ok_def)

lemma kdb_grants: "kdb_ok s \<Longrightarrow> grants_ok (grants s)"
  by (simp add: kdb_ok_def)

lemma consumable_active: "consumable gid op task sk si now g \<Longrightarrow> gr_status g = GActive \<and> gr_id g = gid"
  by (simp add: consumable_def grant_live_def)

lemma consumed_kept: "consumable gid op task sk si now g \<Longrightarrow> grant_kept g (g\<lparr> gr_status := st, gr_consumed := at \<rparr>)"
  using consumable_active unfolding grant_kept_def by blast

lemma consume_kept:
  assumes "kdb_ok s"
  shows "kept_ok s (s\<lparr> grants := update_where (consumable gid op task sk si now)
    (\<lambda>g. g\<lparr> gr_status := GConsumed, gr_consumed := Some now \<rparr>) (grants s) \<rparr>)"
  using assms by (simp add: kdb_grants grants_ok_consume rows_kept_update consumed_kept)

lemma safe_mark_consumed [safe_intros]: "safe (mark_consumed gid op task sk si)"
  unfolding mark_consumed_def Let_def by (rule safe_exec) (simp del: kept_ok_grants add: consume_kept)

lemma safe_consume [safe_intros]: "safe (consume_capability_grant gid op task sk si)"
  unfolding consume_capability_grant_def by (intro safe_intros)

lemma insert_kept: "kdb_ok s \<Longrightarrow> grant_checked (new_grant t i) \<Longrightarrow> in_uuid t \<notin> gr_id ` set (grants s) \<Longrightarrow>
    kept_ok s (s\<lparr> grants := grants s @ [new_grant t i] \<rparr>)"
  by (auto intro!: grants_ok_snoc simp: kdb_grants new_grant_def)

lemma safe_insert_grant [safe_intros]: "safe (insert_capability_grant i)"
  unfolding insert_capability_grant_def by (rule safe_exec) (simp del: kept_ok_grants add: insert_kept)

lemma safe_grant_task [safe_intros]: "safe (grant_task_capabilities a b c d e f g h)"
  unfolding grant_task_capabilities_def Let_def by (intro safe_intros)

lemma safe_active_grant [safe_intros]: "safe (active_capability_grant_id a b c d e f)"
  unfolding active_capability_grant_id_def by (intro safe_intros)

lemma safe_grant_command [safe_intros]: "safe (capability_grant_command c)"
  unfolding capability_grant_command_def by (intro safe_intros)

lemma safe_check_command [safe_intros]: "safe (capability_check_command req)"
  unfolding capability_check_command_def by (intro safe_intros)

subsection \<open>What an answer means\<close>

text \<open>An allowed check: an audit row says so, for a grant with exactly these terms, or for a subject of the
  three trusted kinds whose caller was let past.\<close>

definition audited :: "capability_check \<Rightarrow> string option \<Rightarrow> audit_row \<Rightarrow> bool" where
  "audited req gid a \<longleftrightarrow> au_decision a = ''allowed'' \<and> au_grant a = gid \<and> au_subject_kind a = Some (cc_subject_kind req) \<and>
     au_subject_id a = Some (cc_subject_id req) \<and> au_operation a = cc_operation req \<and>
     au_scope_kind a = cc_scope_kind req \<and> au_scope_key a = cc_scope_key req"

definition grant_terms :: "capability_check \<Rightarrow> string \<Rightarrow> grant_row \<Rightarrow> bool" where
  "grant_terms req gid g \<longleftrightarrow> gr_id g = gid \<and> gr_subject_kind g = cc_subject_kind req \<and> gr_subject_id g = cc_subject_id req \<and>
     gr_operation g = cc_operation req \<and> gr_scope_kind g = cc_scope_kind req \<and> gr_scope_key g = cc_scope_key req \<and>
     gr_task g = cc_task req"

definition granted :: "capability_check \<Rightarrow> string \<Rightarrow> kdb \<Rightarrow> bool" where
  "granted req gid s \<longleftrightarrow> (\<exists>r \<in> set (grants s). grant_terms req gid r)"

definition allowed_by :: "capability_check \<Rightarrow> string \<Rightarrow> kdb \<Rightarrow> bool" where
  "allowed_by req gid s \<longleftrightarrow> (case cc_grant req of
      Some g \<Rightarrow> gid = g \<and> granted req gid s \<and> (\<exists>a \<in> set (audits s). audited req (Some gid) a)
    | None \<Rightarrow> gid = bypass_id req \<and> cc_bypass req \<and> cc_subject_kind req \<in> set bypass_kinds \<and>
        (\<exists>a \<in> set (audits s). audited req None a))"

lemma lasts_granted [lasting]: "lasts (granted req gid)"
proof -
  have "grant_kept r q \<Longrightarrow> grant_terms req gid r \<Longrightarrow> grant_terms req gid q" for r q
    by (auto simp: grant_kept_def grant_terms_def)
  then show ?thesis unfolding granted_def by (rule lasts_grant)
qed

lemma lasts_allowed [lasting]: "lasts (allowed_by req gid)"
  by (cases "cc_grant req") (auto simp: allowed_by_def[abs_def] intro!: lasting)

lemma found_granted: "find (grant_matches gid req now) (grants s) = Some r \<Longrightarrow> gr_id r = gid \<and> granted req gid s"
  by (auto simp: find_Some_iff granted_def grant_matches_def grant_terms_def intro!: bexI[of _ r] nth_mem)

lemma sat_audit:
  "lasts P \<Longrightarrow> sat P (audit_of req gid ''allowed'' None d) (\<lambda>x s. P s \<and> (\<exists>a \<in> set (audits s). audited req gid a))"
  unfolding audit_of_def audit_capability_def
proof (rule sat_exec)
  fix t s r s'
  assume P: "lasts P" "kdb_ok s" "P s"
  let ?new = "\<lparr> au_id = in_uuid t, au_grant = gid, au_subject_kind = Some (cc_subject_kind req), au_subject_id = Some (cc_subject_id req),
    au_operation = cc_operation req, au_scope_kind = cc_scope_kind req, au_scope_key = cc_scope_key req, au_decision = ''allowed'',
    au_code = None, au_reason = Option.bind (j_get d ''reason'') as_str, au_details = d \<rparr>"
  assume e: "(if in_uuid t \<in> au_id ` set (audits s) then (Inl ''capability_audit_events_pkey'', s)
    else (Inr (), s\<lparr> audits := audits s @ [?new] \<rparr>)) = (r, s')"
  have k: "kept_ok s (s\<lparr> audits := audits s @ [?new] \<rparr>)" using P(2) by simp
  then have "P (s\<lparr> audits := audits s @ [?new] \<rparr>)"
    using P unfolding lasts_def stable_def kept_ok_def by blast
  moreover have "audited req gid ?new" by (simp add: audited_def)
  ultimately show "kept_ok s s' \<and> (\<forall>x. r = Inr x \<longrightarrow> P s' \<and> (\<exists>a \<in> set (audits s'). audited req gid a))"
    using e k P(2) by (auto split: if_splits)
qed (auto intro: lasting)

lemma sat_deny: "sat P (deny_capability req) Q"
proof -
  have "sat P (deny_capability req) (\<lambda>x s. False)" for P
  proof (rule sat_pre)
    show "sat (\<lambda>s. True) (deny_capability req) (\<lambda>x s. False)"
      unfolding deny_capability_def by (rule sat_safe_then) (auto intro: safe_intros lasting)
  qed simp
  then show ?thesis by (rule sat_post) simp
qed

lemma sat_require: "sat (\<lambda>s. True) (require_capability req) (\<lambda>gid s. allowed_by req gid s)"
proof (cases "cc_grant req")
  case None
  show ?thesis
  proof (cases "cc_bypass req \<and> cc_subject_kind req \<in> set bypass_kinds")
    case True
    show ?thesis unfolding require_capability_def None option.case if_P[OF True]
      by (rule sat_then[OF sat_audit]) (use None True in \<open>auto intro!: lasting sat_Ret simp: allowed_by_def\<close>)
  next
    case False
    show ?thesis unfolding require_capability_def None option.case if_not_P[OF False] by (rule sat_deny)
  qed
next
  case (Some g)
  let ?R = "\<lambda>row s. \<forall>r. row = Some r \<longrightarrow> gr_id r = g \<and> granted req g s"
  have l: "lasts (?R row)" for row by (intro lasting)
  show ?thesis unfolding require_capability_def Some option.case
  proof (rule sat_bind[OF sat_query l])
    show "?R (find (grant_matches g req (in_db_now t)) (grants s)) s" for t s by (simp add: found_granted)
    show "lasts (?R row)" for row by (rule l)
    fix row
    show "sat (?R row) (case row of None \<Rightarrow> deny_capability req | Some r \<Rightarrow> then_prog
        (audit_of req (Some (gr_id r)) ''allowed'' None (JObject [(''task_id'', j_opt (cc_task req)), (''exact_grant'', JBool True),
           (''details'', cc_details req)])) (Ret (gr_id r))) (allowed_by req)"
    proof (cases row)
      case None
      then show ?thesis by (simp add: sat_deny)
    next
      case r: (Some r)
      show ?thesis unfolding r option.case
        by (rule sat_then[OF sat_audit[OF l[of "Some r"]]]) (auto intro!: lasting sat_Ret simp: allowed_by_def Some)
    qed
  qed
qed

end
