(* ===== verification/Kernel_Lease.thy ===== *)
theory Kernel_Lease
  imports Kernel_Capability
begin

text \<open>
  Work leases (\<open>engine/shared_memory.rs\<close>): claim, release, heartbeat, expiry, and the leases taken over a
  write scope before a worker is started. \<open>work_leases\<close> is the authority and \<open>shared_claims\<close> its mirror.
  The transaction of a claim holds an advisory lock on its scope from its first statement on, and
  PostgreSQL's \<open>now()\<close> is the start of the transaction; it is modelled as one atomic statement.
\<close>

subsection \<open>Requests and replies\<close>

record claim_request =
  cr_project :: "string option"
  cr_task :: "string option"
  cr_owner :: string
  cr_grant :: "string option"
  cr_subject_kind :: string
  cr_subject_id :: string
  cr_scope_kind :: string
  cr_scope_key :: string
  cr_lease_secs :: int
  cr_metadata :: json
  cr_bypass :: bool
  cr_reason :: "string option"

record lease_request =
  lr_claim :: string
  lr_owner :: "string option"
  lr_grant :: "string option"
  lr_subject_kind :: string
  lr_subject_id :: string
  lr_lease_secs :: int
  lr_details :: json
  lr_bypass :: bool
  lr_reason :: "string option"

definition CLAIM_CONFLICT :: string where
  "CLAIM_CONFLICT = ''CLAIM_CONFLICT''"

definition MAX_LEASE_SECS :: int where
  "MAX_LEASE_SECS = 7200"

definition DEFAULT_LEASE_SECS :: int where
  "DEFAULT_LEASE_SECS = 1800"

definition clamp_secs :: "int \<Rightarrow> int" where
  "clamp_secs n = max 30 (min n MAX_LEASE_SECS)"

definition deadline :: "int \<Rightarrow> int \<Rightarrow> int" where
  "deadline now secs = now + clamp_secs secs * 1000000"

fun status_text :: "lease_status \<Rightarrow> string" where
  "status_text LActive = ''active''"
| "status_text LReleased = ''released''"
| "status_text LExpired = ''expired''"

definition claim_row_json :: "kernel_env \<Rightarrow> lease_row \<Rightarrow> json" where
  "claim_row_json env l = (let at = (\<lambda>v. j_opt (map_option (rfc3339 env) v)) in JObject
     [(''id'', JString (wl_id l)), (''project_id'', j_opt (wl_project l)), (''task_id'', j_opt (wl_task l)),
      (''owner_id'', JString (wl_holder l)), (''scope_kind'', JString (wl_scope_kind l)),
      (''scope_key'', JString (wl_scope_key l)), (''status'', JString (status_text (wl_status l))),
      (''acquired_at'', JString (rfc3339 env (wl_acquired l))), (''lease_expires_at'', JString (rfc3339 env (wl_expires l))),
      (''released_at'', at (wl_released l)), (''heartbeat_at'', at (wl_heartbeat l)), (''metadata'', wl_metadata l)])"

subsection \<open>Claim\<close>

definition lease_at :: "string \<Rightarrow> string \<Rightarrow> lease_row \<Rightarrow> bool" where
  "lease_at kind key l \<longleftrightarrow> lease_active l \<and> lease_scope l = (kind, key)"

definition claim_at :: "string \<Rightarrow> string \<Rightarrow> claim_row \<Rightarrow> bool" where
  "claim_at kind key c \<longleftrightarrow> claim_active c \<and> claim_scope c = (kind, key)"

definition lease_expire :: "lease_row \<Rightarrow> lease_row" where
  "lease_expire l = l\<lparr> wl_status := LExpired \<rparr>"

definition claim_expire :: "claim_row \<Rightarrow> claim_row" where
  "claim_expire c = c\<lparr> sc_status := LExpired \<rparr>"

definition new_lease :: "instant \<Rightarrow> claim_request \<Rightarrow> lease_row" where
  "new_lease t req = \<lparr> wl_id = in_uuid t, wl_project = cr_project req, wl_task = cr_task req, wl_holder = cr_owner req,
     wl_holder_kind = cr_subject_kind req, wl_scope_kind = cr_scope_kind req, wl_scope_key = cr_scope_key req,
     wl_status = LActive, wl_acquired = in_db_now t, wl_expires = deadline (in_app_now t) (cr_lease_secs req),
     wl_released = None, wl_heartbeat = Some (in_db_now t), wl_metadata = cr_metadata req \<rparr>"

definition new_claim :: "instant \<Rightarrow> claim_request \<Rightarrow> claim_row" where
  "new_claim t req = \<lparr> sc_id = in_uuid t, sc_project = cr_project req, sc_task = cr_task req, sc_owner = cr_owner req,
     sc_scope_kind = cr_scope_kind req, sc_scope_key = cr_scope_key req, sc_status = LActive,
     sc_expires = deadline (in_app_now t) (cr_lease_secs req), sc_released = None, sc_heartbeat = Some (in_db_now t),
     sc_metadata = cr_metadata req \<rparr>"

text \<open>\<open>INSERT ... ON CONFLICT (id) DO UPDATE\<close> under the unique index on active scopes.\<close>

definition upsert_claim :: "claim_row \<Rightarrow> claim_row list \<Rightarrow> string + claim_row list" where
  "upsert_claim c cs = (case find (\<lambda>d. sc_id d = sc_id c) cs of
      None \<Rightarrow> if list_ex (claim_at (sc_scope_kind c) (sc_scope_key c)) cs then Inl ''uq_shared_claims_active_scope''
        else Inr (cs @ [c])
    | Some d \<Rightarrow> if list_ex (\<lambda>e. claim_at (sc_scope_kind d) (sc_scope_key d) e \<and> sc_id e \<noteq> sc_id d) cs
        then Inl ''uq_shared_claims_active_scope''
        else Inr (update_where (\<lambda>e. sc_id e = sc_id c) (\<lambda>e. e\<lparr> sc_status := sc_status c, sc_expires := sc_expires c,
          sc_heartbeat := sc_heartbeat c, sc_metadata := sc_metadata c \<rparr>) cs))"

definition claim_tx :: "claim_request \<Rightarrow> (lease_row + lease_row) kprog" where
  "claim_tx req = exec (\<lambda>t s. let now = in_db_now t; kind = cr_scope_kind req; key = cr_scope_key req;
       ls = update_where (\<lambda>l. lease_at kind key l \<and> wl_expires l < now) lease_expire (leases s);
       cs = update_where (\<lambda>c. claim_at kind key c \<and> sc_expires c < now) claim_expire (claims s)
     in case newest (\<lambda>l. - wl_acquired l) (filter (\<lambda>l. lease_at kind key l \<and> now \<le> wl_expires l) ls) of
        Some l \<Rightarrow> (Inr (Inl l), s\<lparr> leases := ls, claims := cs \<rparr>)
      | None \<Rightarrow> if in_uuid t \<in> wl_id ` set ls then (Inl ''work_leases_pkey'', s)
          else if list_ex (lease_at kind key) ls then (Inl ''uq_work_leases_active_scope'', s)
          else (case upsert_claim (new_claim t req) (update_where (claim_at kind key) claim_expire cs) of
              Inl m \<Rightarrow> (Inl m, s)
            | Inr cs' \<Rightarrow> (Inr (Inr (new_lease t req)), s\<lparr> leases := ls @ [new_lease t req], claims := cs' \<rparr>)))"

definition conflict_error :: "kernel_env \<Rightarrow> claim_request \<Rightarrow> lease_row \<Rightarrow> kerr" where
  "conflict_error env req l = Control CLAIM_CONFLICT
     (''active work lease conflict for '' @ cr_scope_kind req @ '':'' @ cr_scope_key req)
     (JObject [(''scope_kind'', JString (cr_scope_kind req)), (''scope_key'', JString (cr_scope_key req)),
       (''holder'', JString (wl_holder l)), (''lease_expires_at'', JString (rfc3339 env (wl_expires l))),
       (''authority'', JString ''work_leases''), (''conflict'', claim_row_json env l)])"

definition claim_reply :: "kernel_env \<Rightarrow> lease_row \<Rightarrow> json" where
  "claim_reply env l = JObject [(''schema'', JString ''missiond.shared-claim.v1''), (''ok'', JBool True),
     (''claim'', claim_row_json env l)]"

definition claim :: "kernel_env \<Rightarrow> claim_request \<Rightarrow> json kprog" where
  "claim env req = bind_prog (claim_tx req) (\<lambda>r. case r of
      Inl l \<Rightarrow> Err (conflict_error env req l)
    | Inr l \<Rightarrow> Ret (claim_reply env l))"

definition claim_check :: "claim_request \<Rightarrow> capability_check" where
  "claim_check req = \<lparr> cc_grant = cr_grant req, cc_subject_kind = cr_subject_kind req, cc_subject_id = cr_subject_id req,
     cc_operation = ''claim'', cc_scope_kind = cr_scope_kind req, cc_scope_key = cr_scope_key req, cc_task = cr_task req,
     cc_bypass = cr_bypass req, cc_reason = cr_reason req, cc_details = cr_metadata req \<rparr>"

definition claim_lease_typed :: "kernel_env \<Rightarrow> claim_request \<Rightarrow> json kprog" where
  "claim_lease_typed env req = then_prog (require_capability (claim_check req)) (claim env req)"

subsection \<open>Release and heartbeat\<close>

definition lease_error :: "string \<Rightarrow> string \<Rightarrow> lease_request \<Rightarrow> kerr" where
  "lease_error verb i req = Control CLAIM_CONFLICT (''work lease '' @ i @ '' does not exist; '' @ verb @ '' is fail-closed'')
     (JObject [(''claim_id'', JString i), (''owner_id'', j_opt (lr_owner req)), (''reason'', JString ''lease_not_found''),
       (''authority'', JString ''work_leases'')])"

definition lease_check :: "string \<Rightarrow> lease_request \<Rightarrow> lease_row \<Rightarrow> capability_check" where
  "lease_check verb req l = \<lparr> cc_grant = lr_grant req, cc_subject_kind = lr_subject_kind req,
     cc_subject_id = (if trim (lr_subject_id req) = [] then unwrap_or (lr_owner req) (wl_holder l) else lr_subject_id req),
     cc_operation = ''claim'', cc_scope_kind = wl_scope_kind l, cc_scope_key = wl_scope_key l, cc_task = wl_task l,
     cc_bypass = lr_bypass req,
     cc_reason = Some (unwrap_or (lr_reason req) (''mission_shared_memory '' @ verb @ '' system/operator authority'')),
     cc_details = (case as_object (lr_details req) of
         Some (f # fs) \<Rightarrow> JObject [(''lease_metadata'', wl_metadata l), (''request_details'', lr_details req)]
       | _ \<Rightarrow> wl_metadata l) \<rparr>"

definition held_by :: "string option \<Rightarrow> string \<Rightarrow> bool" where
  "held_by owner holder \<longleftrightarrow> owner = None \<or> owner = Some holder"

definition update_lease :: "string \<Rightarrow> string option \<Rightarrow> (instant \<Rightarrow> lease_row \<Rightarrow> lease_row) \<Rightarrow> lease_row option kprog" where
  "update_lease i owner f = exec (\<lambda>t s. let c = (\<lambda>l. wl_id l = i \<and> lease_active l \<and> held_by owner (wl_holder l)) in
     (Inr (map_option (f t) (find c (leases s))), s\<lparr> leases := update_where c (f t) (leases s) \<rparr>))"

definition set_released :: "instant \<Rightarrow> lease_row \<Rightarrow> lease_row" where
  "set_released t l = l\<lparr> wl_status := LReleased, wl_released := Some (in_db_now t) \<rparr>"

definition set_deadline :: "int \<Rightarrow> instant \<Rightarrow> lease_row \<Rightarrow> lease_row" where
  "set_deadline d t l = l\<lparr> wl_expires := d, wl_heartbeat := Some (in_db_now t) \<rparr>"

definition not_done_error :: "kernel_env \<Rightarrow> string \<Rightarrow> string \<Rightarrow> lease_request \<Rightarrow> lease_row \<Rightarrow> kerr" where
  "not_done_error env verb i req l = Control CLAIM_CONFLICT
     (''work lease '' @ i @ '' was not '' @ verb @ ''; holder or status does not match'')
     (JObject [(''claim_id'', JString i), (''owner_id'', j_opt (lr_owner req)), (''holder'', JString (wl_holder l)),
       (''scope_kind'', JString (wl_scope_kind l)), (''scope_key'', JString (wl_scope_key l)),
       (''lease_status'', JString (status_text (wl_status l))), (''lease_expires_at'', JString (rfc3339 env (wl_expires l))),
       (''authority'', JString ''work_leases'')])"

definition lease_by_id :: "string \<Rightarrow> lease_row option kprog" where
  "lease_by_id i = query (\<lambda>t s. find (\<lambda>l. wl_id l = i) (leases s))"

definition release_lease :: "kernel_env \<Rightarrow> lease_request \<Rightarrow> json kprog" where
  "release_lease env req = (let i = trim (lr_claim req) in if i = [] then Err (Other ''claim_id is required'')
     else bind_prog (lease_by_id i) (\<lambda>found. case found of
        None \<Rightarrow> Err (lease_error ''release'' i req)
      | Some l \<Rightarrow> then_prog (require_capability (lease_check ''release'' req l))
          (bind_prog (update_lease i (lr_owner req) set_released) (\<lambda>row. case row of
              None \<Rightarrow> Err (not_done_error env ''released'' i req l)
            | Some m \<Rightarrow> then_prog (attempt (exec (\<lambda>t s. (Inr (), s\<lparr> claims := update_where
                  (\<lambda>c. sc_id c = i \<and> held_by (lr_owner req) (sc_owner c))
                  (\<lambda>c. c\<lparr> sc_status := LReleased, sc_released := Some (in_db_now t) \<rparr>) (claims s) \<rparr>))))
                (Ret (JObject [(''schema'', JString ''missiond.shared-claim-release.v1''), (''ok'', JBool True),
                  (''claim'', claim_row_json env m)]))))))"

definition heartbeat_lease :: "kernel_env \<Rightarrow> lease_request \<Rightarrow> json kprog" where
  "heartbeat_lease env req = (let i = trim (lr_claim req) in if i = [] then Err (Other ''claim_id is required'')
     else bind_prog (observe in_app_now) (\<lambda>now. let d = deadline now (lr_lease_secs req) in
      bind_prog (lease_by_id i) (\<lambda>found. case found of
        None \<Rightarrow> Err (lease_error ''heartbeat'' i req)
      | Some l \<Rightarrow> then_prog (require_capability (lease_check ''heartbeat'' req l))
          (bind_prog (update_lease i (lr_owner req) (set_deadline d)) (\<lambda>row. case row of
              None \<Rightarrow> Err (not_done_error env ''heartbeated'' i req l)
            | Some m \<Rightarrow> then_prog (attempt (exec (\<lambda>t s. (Inr (), s\<lparr> claims := update_where
                  (\<lambda>c. sc_id c = i \<and> claim_active c \<and> held_by (lr_owner req) (sc_owner c))
                  (\<lambda>c. c\<lparr> sc_expires := d, sc_heartbeat := Some (in_db_now t) \<rparr>) (claims s) \<rparr>))))
                (Ret (JObject [(''schema'', JString ''missiond.shared-claim-heartbeat.v1''), (''ok'', JBool True),
                  (''claim'', claim_row_json env m)])))))))"

subsection \<open>Expiry, release by task, status\<close>

definition expire_stale_claims :: "nat kprog" where
  "expire_stale_claims = bind_prog
     (exec (\<lambda>t s. let c = (\<lambda>l. lease_active l \<and> wl_expires l < in_db_now t) in
        (Inr (rows_affected c (leases s)), s\<lparr> leases := update_where c lease_expire (leases s) \<rparr>)))
     (\<lambda>n. then_prog (exec (\<lambda>t s. (Inr (), s\<lparr> claims := update_where (\<lambda>c. claim_active c \<and> sc_expires c < in_db_now t)
        claim_expire (claims s) \<rparr>))) (Ret n))"

definition release_claims_for_task :: "string \<Rightarrow> string option \<Rightarrow> nat kprog" where
  "release_claims_for_task task owner = bind_prog
     (exec (\<lambda>t s. let c = (\<lambda>l. lease_active l \<and> wl_task l = Some task \<and> held_by owner (wl_holder l)) in
        (Inr (rows_affected c (leases s)), s\<lparr> leases := update_where c (set_released t) (leases s) \<rparr>)))
     (\<lambda>n. then_prog (exec (\<lambda>t s. (Inr (), s\<lparr> claims := update_where
          (\<lambda>c. claim_active c \<and> sc_task c = Some task \<and> held_by owner (sc_owner c))
          (\<lambda>c. c\<lparr> sc_status := LReleased, sc_released := Some (in_db_now t) \<rparr>) (claims s) \<rparr>))) (Ret n))"

definition opt_matches :: "string option \<Rightarrow> string option \<Rightarrow> bool" where
  "opt_matches wanted v \<longleftrightarrow> wanted = None \<or> wanted = v"

definition claim_status :: "kernel_env \<Rightarrow> string option \<Rightarrow> string option \<Rightarrow> string option \<Rightarrow> nat \<Rightarrow> json kprog" where
  "claim_status env project kind key limit = then_prog expire_stale_claims
     (bind_prog (query (\<lambda>t s. take limit (rev (sort_key wl_acquired (filter (\<lambda>l. opt_matches project (wl_project l) \<and>
        opt_matches kind (Some (wl_scope_kind l)) \<and> opt_matches key (Some (wl_scope_key l))) (leases s))))))
      (\<lambda>rows. Ret (JObject [(''schema'', JString ''missiond.shared-memory.claim-status.v1''),
        (''claims'', JArray (map (claim_row_json env) rows))])))"

subsection \<open>The leases of a write scope\<close>

definition conflict_projection :: "kerr \<Rightarrow> json option" where
  "conflict_projection e = (case e of
      Control code m details \<Rightarrow> if code \<noteq> CLAIM_CONFLICT then None else
        Some (JObject [(''schema'', JString ''missiond.shared-claim.v1''), (''ok'', JBool False), (''status'', JString ''conflict''),
          (''code'', JString CLAIM_CONFLICT), (''error_code'', JString CLAIM_CONFLICT), (''message'', JString m),
          (''details'', details), (''conflict'', unwrap_or (j_get details ''conflict'') details)])
    | _ \<Rightarrow> None)"

definition write_scope_request :: "string option \<Rightarrow> string option \<Rightarrow> string \<Rightarrow> string option \<Rightarrow> string \<Rightarrow> claim_request" where
  "write_scope_request project task owner shard scope = \<lparr> cr_project = project, cr_task = task, cr_owner = owner, cr_grant = None,
     cr_subject_kind = ''daemon'', cr_subject_id = ''mission_task_delegate'', cr_scope_kind = ''write_scope'', cr_scope_key = scope,
     cr_lease_secs = DEFAULT_LEASE_SECS,
     cr_metadata = JObject [(''accepted_shard_id'', j_opt shard), (''source'', JString ''mission_task_delegate'')],
     cr_bypass = True,
     cr_reason = Some ''mission_task_delegate pre-claims write_scope before worker subject binding'' \<rparr>"

definition claim_write_scope :: "kernel_env \<Rightarrow> string option \<Rightarrow> string option \<Rightarrow> string \<Rightarrow> string list \<Rightarrow> string option \<Rightarrow>
    json list kprog" where
  "claim_write_scope env project task owner scopes shard = for_each (\<lambda>scope.
     bind_prog (attempt (claim_lease_typed env (write_scope_request project task owner shard scope))) (\<lambda>r. case r of
         Inr v \<Rightarrow> Ret v
       | Inl e \<Rightarrow> (case conflict_projection e of Some v \<Rightarrow> Ret v | None \<Rightarrow> Err e))) scopes"

subsection \<open>What the operations keep\<close>

lemma lease_fields [simp]:
  "wl_id (lease_expire l) = wl_id l" "lease_scope (lease_expire l) = lease_scope l" "\<not> lease_active (lease_expire l)"
  "wl_id (set_released t l) = wl_id l" "lease_scope (set_released t l) = lease_scope l" "\<not> lease_active (set_released t l)"
  "wl_id (set_deadline d t l) = wl_id l" "lease_scope (set_deadline d t l) = lease_scope l"
  "lease_active (set_deadline d t l) = lease_active l"
  by (simp_all add: lease_expire_def set_released_def set_deadline_def lease_scope_def lease_active_def)

lemma claim_fields [simp]:
  "sc_id (claim_expire c) = sc_id c" "claim_scope (claim_expire c) = claim_scope c" "\<not> claim_active (claim_expire c)"
  by (simp_all add: claim_expire_def claim_scope_def claim_active_def)

lemma lease_step_kept:
  assumes "lease_active l"
  shows "lease_kept l (lease_expire l)" "lease_kept l (set_released t l)" "lease_kept l (set_deadline d t l)"
proof -
  have "lease_kept l (l\<lparr> wl_status := st, wl_expires := ex, wl_released := re, wl_heartbeat := hb \<rparr>)" for st ex re hb
    using assms by (auto simp: lease_kept_def lease_active_def)
  from this[where st = LExpired and ex = "wl_expires l" and re = "wl_released l" and hb = "wl_heartbeat l"]
    this[where st = LReleased and ex = "wl_expires l" and re = "Some (in_db_now t)" and hb = "wl_heartbeat l"]
    this[where st = "wl_status l" and ex = d and re = "wl_released l" and hb = "Some (in_db_now t)"]
  show "lease_kept l (lease_expire l)" "lease_kept l (set_released t l)" "lease_kept l (set_deadline d t l)"
    by (simp_all add: lease_expire_def set_released_def set_deadline_def)
qed

lemma leases_ok_update:
  assumes "leases_ok ls" "\<And>l. wl_id (f l) = wl_id l" "\<And>l. lease_scope (f l) = lease_scope l"
    "\<And>l. c l \<Longrightarrow> lease_active (f l) \<Longrightarrow> lease_active l"
  shows "leases_ok (update_where c f ls)"
  using assms unfolding leases_ok_def by (intro conjI) (auto intro!: one_active_update)

lemma claims_ok_update:
  assumes "claims_ok cs" "\<And>c. sc_id (f c) = sc_id c" "\<And>c. claim_scope (f c) = claim_scope c"
    "\<And>d. c d \<Longrightarrow> claim_active (f d) \<Longrightarrow> claim_active d"
  shows "claims_ok (update_where c f cs)"
  using assms unfolding claims_ok_def by (intro conjI) (auto intro!: one_active_update)

lemma leases_ok_snoc:
  "leases_ok ls \<Longrightarrow> wl_id l \<notin> wl_id ` set ls \<Longrightarrow> \<not> list_ex (lease_at (wl_scope_kind l) (wl_scope_key l)) ls \<Longrightarrow> leases_ok (ls @ [l])"
  unfolding leases_ok_def by (intro conjI one_active_snoc) (auto simp: lease_at_def list_ex_iff lease_scope_def)

lemma upsert_claim_ok:
  assumes "claims_ok cs" "upsert_claim c cs = Inr cs'" shows "claims_ok cs'"
proof (cases "find (\<lambda>d. sc_id d = sc_id c) cs")
  case None
  then have n: "sc_id c \<notin> sc_id ` set cs" by (auto simp: find_None_iff)
  from None assms(2) have "cs' = cs @ [c]" "\<not> list_ex (claim_at (sc_scope_kind c) (sc_scope_key c)) cs"
    by (auto simp: upsert_claim_def split: if_splits)
  with n assms(1) show ?thesis unfolding claims_ok_def
    by (intro conjI) (auto intro!: one_active_snoc simp: claim_at_def list_ex_iff claim_scope_def)
next
  case (Some d)
  define f where "f = (\<lambda>e :: claim_row. e\<lparr> sc_status := sc_status c, sc_expires := sc_expires c,
    sc_heartbeat := sc_heartbeat c, sc_metadata := sc_metadata c \<rparr>)"
  have d: "d \<in> set cs" "sc_id d = sc_id c" using Some by (auto simp: find_Some_iff)
  from Some assms(2) have cs': "cs' = update_where (\<lambda>e. sc_id e = sc_id c) f cs"
    and free: "\<And>e. e \<in> set cs \<Longrightarrow> claim_at (sc_scope_kind d) (sc_scope_key d) e \<Longrightarrow> sc_id e = sc_id d"
    by (auto simp: upsert_claim_def f_def list_ex_iff split: if_splits)
  have dist: "distinct (map sc_id cs)" and one: "one_active claim_active claim_scope cs" using assms(1) by (auto simp: claims_ok_def)
  have fe: "sc_id (f e) = sc_id e" "claim_scope (f e) = claim_scope e" for e by (simp_all add: f_def claim_scope_def)
  have ids: "map sc_id cs' = map sc_id cs" unfolding cs' by (rule keys_update) (simp add: fe)
  have inj: "inj_on claim_scope {x \<in> set cs. claim_active x}" using one dist one_active_inj[of cs claim_active claim_scope] by (simp add: distinct_map)
  have same: "x = d" if "x \<in> set cs" "sc_id x = sc_id c" for x
    using inj_onD[of sc_id "set cs" x d] dist d that by (simp add: distinct_map)
  have alone: "sc_id x = sc_id c" if "x \<in> set cs" "claim_active x" "claim_scope x = claim_scope d" for x
    using free[OF that(1)] that(2,3) d(2) by (simp add: claim_at_def claim_scope_def)
  have "inj_on claim_scope {x \<in> set cs'. claim_active x}"
  proof (rule inj_onI)
    fix p q
    assume pq: "p \<in> {x \<in> set cs'. claim_active x}" "q \<in> {x \<in> set cs'. claim_active x}" "claim_scope p = claim_scope q"
    obtain x where x: "x \<in> set cs" "claim_active (if sc_id x = sc_id c then f x else x)" "p = (if sc_id x = sc_id c then f x else x)"
      using pq(1) by (auto simp: cs')
    obtain y where y: "y \<in> set cs" "claim_active (if sc_id y = sc_id c then f y else y)" "q = (if sc_id y = sc_id c then f y else y)"
      using pq(2) by (auto simp: cs')
    have eq: "claim_scope (if sc_id x = sc_id c then f x else x) = claim_scope (if sc_id y = sc_id c then f y else y)"
      using pq(3) x(3) y(3) by simp
    then have sc: "claim_scope x = claim_scope y" by (simp add: fe split: if_splits)
    show "p = q"
    proof (cases "sc_id x = sc_id c \<or> sc_id y = sc_id c")
      case True
      then have "x = d \<or> y = d" using same x(1) y(1) by blast
      then have "sc_id x = sc_id c" "sc_id y = sc_id c"
        using alone[OF x(1)] alone[OF y(1)] x(2) y(2) sc d(2) by metis+
      then show ?thesis using same[OF x(1)] same[OF y(1)] x(3) y(3) by simp
    next
      case False
      then show ?thesis using inj_onD[OF inj sc] x y by simp
    qed
  qed
  moreover have "distinct cs'" using dist ids distinct_map by metis
  ultimately have "one_active claim_active claim_scope cs'" by (simp add: one_active_inj)
  then show ?thesis using dist ids unfolding claims_ok_def by simp
qed

lemma kdb_leases: "kdb_ok s \<Longrightarrow> leases_ok (leases s)"
  by (simp add: kdb_ok_def)

lemma kdb_claims: "kdb_ok s \<Longrightarrow> claims_ok (claims s)"
  by (simp add: kdb_ok_def)

lemma claim_tx_kept:
  assumes "kdb_ok s"
  shows "kept_ok s (s\<lparr> leases := update_where (\<lambda>l. lease_at kind key l \<and> c l) lease_expire (leases s),
    claims := update_where (\<lambda>c. claim_at kind key c \<and> b c) claim_expire (claims s) \<rparr>)"
  using assms by (auto simp: kdb_leases kdb_claims lease_at_def intro!: leases_ok_update claims_ok_update rows_kept_update lease_step_kept)

lemma claim_insert_kept:
  assumes "kdb_ok s" "ls = update_where (\<lambda>l. lease_at kind key l \<and> c l) lease_expire (leases s)"
    "cs = update_where (\<lambda>c. claim_at kind key c \<and> b c) claim_expire (claims s)"
    "upsert_claim (new_claim t req) (update_where (claim_at kind key) claim_expire cs) = Inr cs'"
    "in_uuid t \<notin> wl_id ` set ls" "\<not> list_ex (lease_at (cr_scope_kind req) (cr_scope_key req)) ls"
  shows "kept_ok s (s\<lparr> leases := ls @ [new_lease t req], claims := cs' \<rparr>)"
proof -
  have k: "kept_ok s (s\<lparr> leases := ls, claims := cs \<rparr>)" using claim_tx_kept[OF assms(1)] assms(2,3) by simp
  have "rows_kept lease_kept (leases s) (ls @ [new_lease t req])"
    using k assms(1) by (auto intro: rows_kept_trans kept_trans rows_kept_snoc)
  moreover have "leases_ok (ls @ [new_lease t req])"
    using k assms(1,5,6) by (auto intro!: leases_ok_snoc simp: new_lease_def)
  moreover have "claims_ok cs'"
    by (rule upsert_claim_ok[OF claims_ok_update assms(4)]) (use k assms(1) in auto)
  ultimately show ?thesis using assms(1) by simp
qed

lemma safe_claim_tx [safe_intros]: "safe (claim_tx req)"
  unfolding claim_tx_def Let_def
proof (rule safe_exec)
  fix t s
  assume s: "kdb_ok s"
  show "kept_ok s (snd (case newest (\<lambda>l. - wl_acquired l) (filter (\<lambda>l. lease_at (cr_scope_kind req) (cr_scope_key req) l \<and> in_db_now t \<le> wl_expires l)
      (update_where (\<lambda>l. lease_at (cr_scope_kind req) (cr_scope_key req) l \<and> wl_expires l < in_db_now t) lease_expire (leases s))) of
     None \<Rightarrow> if in_uuid t \<in> wl_id ` set (update_where (\<lambda>l. lease_at (cr_scope_kind req) (cr_scope_key req) l \<and> wl_expires l < in_db_now t) lease_expire (leases s))
       then (Inl ''work_leases_pkey'', s)
       else if list_ex (lease_at (cr_scope_kind req) (cr_scope_key req)) (update_where (\<lambda>l. lease_at (cr_scope_kind req) (cr_scope_key req) l \<and> wl_expires l < in_db_now t) lease_expire (leases s))
       then (Inl ''uq_work_leases_active_scope'', s)
       else case upsert_claim (new_claim t req) (update_where (claim_at (cr_scope_kind req) (cr_scope_key req)) claim_expire
           (update_where (\<lambda>c. claim_at (cr_scope_kind req) (cr_scope_key req) c \<and> sc_expires c < in_db_now t) claim_expire (claims s))) of
         Inl m \<Rightarrow> (Inl m, s)
       | Inr cs' \<Rightarrow> (Inr (Inr (new_lease t req)), s\<lparr> leases := update_where (\<lambda>l. lease_at (cr_scope_kind req) (cr_scope_key req) l \<and> wl_expires l < in_db_now t) lease_expire (leases s) @
           [new_lease t req], claims := cs' \<rparr>)
     | Some l \<Rightarrow> (Inr (Inl l), s\<lparr> leases := update_where (\<lambda>l. lease_at (cr_scope_kind req) (cr_scope_key req) l \<and> wl_expires l < in_db_now t) lease_expire (leases s),
         claims := update_where (\<lambda>c. claim_at (cr_scope_kind req) (cr_scope_key req) c \<and> sc_expires c < in_db_now t) claim_expire (claims s) \<rparr>)))"
    using s claim_tx_kept[OF s] claim_insert_kept[OF s refl refl] by (auto split: option.splits sum.splits simp del: kept_ok_both)
qed

lemma safe_claim [safe_intros]: "safe (claim env req)"
  unfolding claim_def by (intro safe_intros)

lemma safe_claim_typed [safe_intros]: "safe (claim_lease_typed env req)"
  unfolding claim_lease_typed_def by (intro safe_intros)

lemma safe_lease_update:
  assumes "\<And>t l. wl_id (f t l) = wl_id l" "\<And>t l. lease_scope (f t l) = lease_scope l"
    "\<And>t l. lease_active l \<Longrightarrow> lease_kept l (f t l)" "\<And>t s l. c t l \<Longrightarrow> lease_active l"
  shows "safe (exec (\<lambda>t s. (g t s, s\<lparr> leases := update_where (c t) (f t) (leases s) \<rparr>)))"
  using assms by (intro safe_exec) (auto simp: kdb_leases intro!: leases_ok_update rows_kept_update dest: assms(4))

lemma safe_claim_update:
  assumes "\<And>t c. sc_id (f t c) = sc_id c" "\<And>t c. claim_scope (f t c) = claim_scope c"
    "\<And>t d. c t d \<Longrightarrow> claim_active (f t d) \<Longrightarrow> claim_active d"
  shows "safe (exec (\<lambda>t s. (g t s, s\<lparr> claims := update_where (c t) (f t) (claims s) \<rparr>)))"
  using assms by (intro safe_exec) (auto simp: kdb_claims intro!: claims_ok_update)

lemma safe_update_lease [safe_intros]:
  "safe (update_lease i owner set_released)" "safe (update_lease i owner (set_deadline d))"
  unfolding update_lease_def Let_def by (rule safe_lease_update; simp add: lease_step_kept)+

lemma safe_claim_released [safe_intros]:
  "safe (exec (\<lambda>t s. (g t s, s\<lparr> claims := update_where c (\<lambda>c. c\<lparr> sc_status := LReleased, sc_released := r t \<rparr>) (claims s) \<rparr>)))"
  by (rule safe_claim_update) (simp_all add: claim_scope_def claim_active_def)

lemma safe_claim_expired [safe_intros]:
  "safe (exec (\<lambda>t s. (g t s, s\<lparr> claims := update_where (c t) claim_expire (claims s) \<rparr>)))"
  by (rule safe_claim_update) simp_all

lemma safe_claim_beat [safe_intros]:
  "safe (exec (\<lambda>t s. (g t s, s\<lparr> claims := update_where c (\<lambda>c. c\<lparr> sc_expires := d, sc_heartbeat := h t \<rparr>) (claims s) \<rparr>)))"
  by (rule safe_claim_update) (simp_all add: claim_scope_def claim_active_def)

lemma safe_lease_by_id [safe_intros]: "safe (lease_by_id i)"
  unfolding lease_by_id_def by (rule safe_query)

lemma safe_release [safe_intros]: "safe (release_lease env req)"
  unfolding release_lease_def Let_def by (intro safe_intros)

lemma safe_heartbeat [safe_intros]: "safe (heartbeat_lease env req)"
  unfolding heartbeat_lease_def Let_def by (intro safe_intros)

lemma safe_expire [safe_intros]: "safe expire_stale_claims"
  unfolding expire_stale_claims_def Let_def by (intro safe_intros safe_lease_update) (simp_all add: lease_step_kept)

lemma safe_release_task [safe_intros]: "safe (release_claims_for_task task owner)"
  unfolding release_claims_for_task_def Let_def by (intro safe_intros safe_lease_update) (simp_all add: lease_step_kept)

lemma safe_claim_status [safe_intros]: "safe (claim_status env project kind key limit)"
  unfolding claim_status_def by (intro safe_intros)

lemma safe_claim_write_scope [safe_intros]: "safe (claim_write_scope env project task owner scopes shard)"
  unfolding claim_write_scope_def by (intro safe_intros)

end
