(* ===== verification/Kernel_Scope.thy ===== *)
theory Kernel_Scope
  imports Kernel_Tables
begin

text \<open>
  The pure parts of \<open>engine/shared_memory.rs\<close>: reading arguments and metadata, paths and scopes, the
  output of git, the changed paths of an attempt, and the checks on statuses, artifacts and attempts. Text
  that git prints is ASCII: it quotes other bytes.
\<close>

subsection \<open>Text\<close>

fun trim_dot_slash :: "string \<Rightarrow> string" where
  "trim_dot_slash (c # d # s) = (if c = CHR ''.'' \<and> d = CHR ''/'' then trim_dot_slash s else c # d # s)"
| "trim_dot_slash s = s"

definition trim_end_slash :: "string \<Rightarrow> string" where
  "trim_end_slash s = rev (dropWhile ((=) CHR ''/'') (rev s))"

definition trim_quotes :: "string \<Rightarrow> string" where
  "trim_quotes s = rev (dropWhile ((=) CHR 0x22) (rev (dropWhile ((=) CHR 0x22) s)))"

definition has_prefix :: "string \<Rightarrow> string \<Rightarrow> bool" where
  "has_prefix p s \<longleftrightarrow> take (length p) s = p"

definition strip_suffix :: "string \<Rightarrow> string \<Rightarrow> string option" where
  "strip_suffix suf s = (if length suf \<le> length s \<and> drop (length s - length suf) s = suf
     then Some (take (length s - length suf) s) else None)"

fun split_at :: "char \<Rightarrow> string \<Rightarrow> string list" where
  "split_at c [] = [[]]"
| "split_at c (d # s) = (if d = c then [] # split_at c s else
     (case split_at c s of [] \<Rightarrow> [[d]] | x # xs \<Rightarrow> (d # x) # xs))"

fun split_once :: "string \<Rightarrow> string \<Rightarrow> (string \<times> string) option" where
  "split_once pat [] = (if pat = [] then Some ([], []) else None)"
| "split_once pat (c # s) = (if has_prefix pat (c # s) then Some ([], drop (length pat) (c # s))
     else map_option (\<lambda>(a, b). (c # a, b)) (split_once pat s))"

definition strip_cr :: "string \<Rightarrow> string" where
  "strip_cr l = (case strip_suffix [CHR 0x0D] l of Some m \<Rightarrow> m | None \<Rightarrow> l)"

text \<open>\<open>str::lines\<close>: a final newline ends the last line, and a carriage return before a newline is dropped.\<close>

definition text_lines :: "string \<Rightarrow> string list" where
  "text_lines s = (let ls = split_at CHR 0x0A s in
     map strip_cr (butlast ls) @ (if last ls = [] then [] else [last ls]))"

definition text_contains :: "string \<Rightarrow> string \<Rightarrow> bool" where
  "text_contains pat s \<longleftrightarrow> split_once pat s \<noteq> None"

subsection \<open>Arguments and metadata\<close>

definition string_arg :: "json \<Rightarrow> string \<Rightarrow> string option" where
  "string_arg args key = (case Option.bind (j_get args key) as_str of
      Some v \<Rightarrow> if trim v = [] then None else Some (trim v) | None \<Rightarrow> None)"

text \<open>A chain of \<open>or_else\<close> over spellings of one argument.\<close>

fun string_args :: "json \<Rightarrow> string list \<Rightarrow> string option" where
  "string_args args [] = None"
| "string_args args (k # ks) = (case string_arg args k of Some v \<Rightarrow> Some v | None \<Rightarrow> string_args args ks)"

fun j_get_any :: "json \<Rightarrow> string list \<Rightarrow> json option" where
  "j_get_any v [] = None"
| "j_get_any v (k # ks) = (case j_get v k of Some x \<Rightarrow> Some x | None \<Rightarrow> j_get_any v ks)"

definition or_else :: "'a option \<Rightarrow> 'a option \<Rightarrow> 'a option" where
  "or_else a b = (case a of Some x \<Rightarrow> Some x | None \<Rightarrow> b)"

definition bool_arg_any :: "json \<Rightarrow> string list \<Rightarrow> bool" where
  "bool_arg_any args keys = list_ex (\<lambda>k. case j_get args k of
      None \<Rightarrow> False
    | Some (JBool b) \<Rightarrow> b
    | Some (JString t) \<Rightarrow> to_lower (trim t) \<in> {''true'', ''1'', ''yes'', ''on''}
    | Some _ \<Rightarrow> False) keys"

definition confirm_keys :: "string list" where
  "confirm_keys = [''confirm'', ''operator_confirm'', ''operatorConfirm'', ''operator_confirmed'', ''operatorConfirmed'']"

definition system_or_operator_bypass_allowed :: "json \<Rightarrow> bool" where
  "system_or_operator_bypass_allowed args = (let k = unwrap_or (string_args args [''subject_kind'', ''subjectKind'']) '''' in
     k = ''system'' \<or> k = ''daemon'' \<or> k = ''operator'' \<and> bool_arg_any args confirm_keys)"

fun metadata_string_list_any :: "json option \<Rightarrow> string list" where
  "metadata_string_list_any (Some (JArray vs)) = filter (\<lambda>v. v \<noteq> []) (map trim (List.map_filter as_str vs))"
| "metadata_string_list_any (Some (JString v)) = filter (\<lambda>v. v \<noteq> [] \<and> v \<noteq> ''[]'') (map trim (split_at CHR '','' v))"
| "metadata_string_list_any _ = []"

fun first_non_empty_metadata_list :: "json option list \<Rightarrow> string list" where
  "first_non_empty_metadata_list [] = []"
| "first_non_empty_metadata_list (v # vs) = (let l = metadata_string_list_any v in
     if l = [] then first_non_empty_metadata_list vs else l)"

fun metadata_string_value_any :: "json option \<Rightarrow> string option" where
  "metadata_string_value_any (Some (JString v)) = (if trim v = [] then None else Some (trim v))"
| "metadata_string_value_any (Some (JInt i)) = Some (show_int i)"
| "metadata_string_value_any (Some (JFloat f)) = Some f"
| "metadata_string_value_any _ = None"

definition merge_json_object :: "json \<Rightarrow> json \<Rightarrow> json" where
  "merge_json_object target extra = (case (target, extra) of
      (JObject fs, JObject es) \<Rightarrow> JObject (fold (\<lambda>(k, v). AList.update k v) es fs)
    | _ \<Rightarrow> target)"

subsection \<open>Statuses\<close>

definition normalize_worker_settle_status :: "string option \<Rightarrow> kerr + string" where
  "normalize_worker_settle_status st = (let v = unwrap_or st ''done'' in
     if v \<in> {''done'', ''failed'', ''blocked'', ''skipped''} then Inr v
     else Inl (Other (''unsupported worker_settle status `'' @ v @ ''`; expected done, failed, blocked, or skipped'')))"

definition job_state_for_event :: "string \<Rightarrow> string option" where
  "job_state_for_event kind = map_of
     [(''job.created'', ''created''), (''job.claimed'', ''claimed''), (''attempt.started'', ''running''),
      (''observation.recorded'', ''running''), (''artifact.accepted'', ''running''), (''settle.requested'', ''running''),
      (''job.completed'', ''completed''), (''job.blocked'', ''blocked''), (''job.failed'', ''failed''),
      (''lease.expired'', ''blocked''), (''capability.denied'', ''blocked'')] kind"

definition EVIDENCE_REQUIRED :: string where
  "EVIDENCE_REQUIRED = ''EVIDENCE_REQUIRED''"

definition COMPLETION_ARTIFACT_INVALID :: string where
  "COMPLETION_ARTIFACT_INVALID = ''COMPLETION_ARTIFACT_INVALID''"

definition WRITE_SCOPE_VIOLATION :: string where
  "WRITE_SCOPE_VIOLATION = ''WRITE_SCOPE_VIOLATION''"

definition j_strs :: "string list \<Rightarrow> json" where
  "j_strs xs = JArray (map JString xs)"

definition validate_write_scoped_settle_attempt :: "string \<Rightarrow> string \<Rightarrow> string option \<Rightarrow> string option \<Rightarrow> string option \<Rightarrow> kerr + unit" where
  "validate_write_scoped_settle_attempt task hash artifact current provided =
     (if (case (artifact, current, provided) of (Some a, Some c, Some p) \<Rightarrow> a = c \<and> p = c | _ \<Rightarrow> False) then Inr ()
      else Inl (Control EVIDENCE_REQUIRED
        (''worker_settle(done) for write-scoped task '' @ task @ '' requires artifact, current, and provided attempt_id to match'')
        (JObject [(''task_id'', JString task), (''artifact_hash'', JString hash), (''artifact_attempt_id'', j_opt artifact),
          (''current_attempt_id'', j_opt current), (''provided_attempt_id'', j_opt provided),
          (''required'', JString ''artifact_attempt_id == jobs.current_attempt_id == worker_settle.attempt_id'')])))"

fun content_empty :: "json \<Rightarrow> bool" where
  "content_empty JNull = True"
| "content_empty (JString v) = (trim v = [])"
| "content_empty (JArray vs) = (vs = [])"
| "content_empty (JObject fs) = (fs = [])"
| "content_empty _ = False"

definition artifact_invalid :: "string \<Rightarrow> string \<Rightarrow> kerr" where
  "artifact_invalid task reason = Control COMPLETION_ARTIFACT_INVALID
     (''task_result_artifact invalid for task '' @ task @ '': '' @ reason)
     (JObject [(''task_id'', JString task), (''reason'', JString reason)])"

definition validate_task_result_artifact_payload :: "string \<Rightarrow> string \<Rightarrow> string \<Rightarrow> string \<Rightarrow> string \<Rightarrow> json \<Rightarrow> json list \<Rightarrow> bool \<Rightarrow>
    kerr + unit" where
  "validate_task_result_artifact_payload task project provider status summary content refs has_evidence =
     (let bad = (\<lambda>c m. fail_if c (artifact_invalid task m)) in
      bind_res (bad (trim task = []) ''task_id is required'') (\<lambda>_.
      bind_res (bad (trim project = []) ''project_id is required'') (\<lambda>_.
      bind_res (bad (trim provider = []) ''producer.provider is required'') (\<lambda>_.
      bind_res (bad (\<not> is_completed_result_status status \<and> to_lower status \<notin> {''failed'', ''blocked'', ''skipped''})
        (''unsupported result_status `'' @ status @ ''`'')) (\<lambda>_.
      bind_res (bad (trim summary = []) ''summary is required'') (\<lambda>_.
      bind_res (bad (content_empty content) ''content is required'') (\<lambda>_.
      bad (refs = [] \<or> \<not> has_evidence) ''evidence_refs or raw_evidence must be explicitly provided'')))))))"

subsection \<open>Scopes\<close>

definition norm_scope :: "string \<Rightarrow> string" where
  "norm_scope s = trim_end_slash (trim_dot_slash (trim s))"

definition scope_matches_path :: "string \<Rightarrow> string \<Rightarrow> bool" where
  "scope_matches_path scope0 path0 = (let scope = norm_scope scope0; path = norm_scope path0 in
     if scope = [] \<or> path = [] then False
     else if scope = ''*'' \<or> scope = ''**/*'' then True
     else case strip_suffix ''/**'' scope of
         Some prefix \<Rightarrow> path = prefix \<or> has_prefix (prefix @ ''/'') path
       | None \<Rightarrow> (case strip_suffix ''/*'' scope of
           Some prefix \<Rightarrow> has_prefix (prefix @ ''/'') path \<and> CHR ''/'' \<notin> set (drop (length prefix + 1) path)
         | None \<Rightarrow> path = scope \<or> has_prefix (scope @ ''/'') path))"

definition in_scopes :: "string list \<Rightarrow> string \<Rightarrow> bool" where
  "in_scopes scopes path = list_ex (\<lambda>s. scope_matches_path s path) scopes"

subsection \<open>Changed paths\<close>

definition changed_path_keys :: "string list" where
  "changed_path_keys = [''changed_paths'', ''changedPaths'', ''files_changed'', ''filesChanged'']"

fun changed_paths_in :: "json \<Rightarrow> json \<Rightarrow> string list \<Rightarrow> string list option" where
  "changed_paths_in args details [] = None"
| "changed_paths_in args details (k # ks) = (let a = metadata_string_list_any (j_get args k) in
     if a \<noteq> [] then Some a else
     let d = metadata_string_list_any (j_get details k) in
     if d \<noteq> [] then Some d else changed_paths_in args details ks)"

definition changed_paths_from_payload :: "json \<Rightarrow> json \<Rightarrow> string list" where
  "changed_paths_from_payload args details = (case changed_paths_in args details changed_path_keys of
      Some ps \<Rightarrow> ps
    | None \<Rightarrow> (case Option.bind (j_get details ''verification'') (\<lambda>v. j_get_any v [''changed_paths'', ''files_changed'']) of
        Some v \<Rightarrow> metadata_string_list_any (Some v) | None \<Rightarrow> []))"

definition verification_evidence_present :: "json \<Rightarrow> json \<Rightarrow> bool" where
  "verification_evidence_present args details \<longleftrightarrow>
     j_get_any args [''verification'', ''verification_evidence'', ''verificationEvidence''] \<noteq> None \<or>
     j_get_any details [''verification'', ''verification_evidence''] \<noteq> None \<or>
     (case Option.bind (j_get details ''evidence_refs'') as_array of
        Some refs \<Rightarrow> list_ex (\<lambda>r. case Option.bind (j_get r ''kind'') as_str of
            Some k \<Rightarrow> text_contains ''verification'' k | None \<Rightarrow> False) refs
      | None \<Rightarrow> False)"

definition push_changed_path :: "string list \<Rightarrow> string \<Rightarrow> string list" where
  "push_changed_path ps p = (let n = trim_dot_slash (trim_quotes (trim p)) in if n = [] then ps else ps @ [n])"

definition status_line :: "string list \<Rightarrow> string \<Rightarrow> string list" where
  "status_line ps line = (if length line < 4 then ps else let p = trim (drop 3 line) in
     if p = [] then ps else (case split_once '' -> '' p of
         Some (a, b) \<Rightarrow> push_changed_path (push_changed_path ps a) b
       | None \<Rightarrow> push_changed_path ps p))"

text \<open>\<open>sort\<close> and \<open>dedup\<close>.\<close>

definition sorted_paths :: "string list \<Rightarrow> string list" where
  "sorted_paths ps = remdups_adj (sort ps)"

definition git_reply :: "string \<Rightarrow> string + git_output \<Rightarrow> kerr + string" where
  "git_reply what r = (case r of
      Inl m \<Rightarrow> Inl (Other m)
    | Inr g \<Rightarrow> if git_success g then Inr (git_stdout g) else Inl (Other (what @ '' failed: '' @ trim (git_stderr g))))"

definition git_status_changed_paths :: "instant \<Rightarrow> string \<Rightarrow> kerr + string list" where
  "git_status_changed_paths t root = bind_res (git_reply ''git status'' (in_git t root [''status'', ''--porcelain=v1'']))
     (\<lambda>out. Inr (sorted_paths (foldl status_line [] (text_lines out))))"

definition git_changed_paths_between :: "instant \<Rightarrow> string \<Rightarrow> string \<Rightarrow> string \<Rightarrow> kerr + string list" where
  "git_changed_paths_between t root a b = bind_res
     (git_reply ''git diff --name-only'' (in_git t root [''diff'', ''--name-only'', a @ ''..'' @ b]))
     (\<lambda>out. Inr (sorted_paths (foldl push_changed_path [] (text_lines out))))"

definition git_head :: "instant \<Rightarrow> string \<Rightarrow> kerr + string" where
  "git_head t root = bind_res (git_reply ''git rev-parse HEAD'' (in_git t root [''rev-parse'', ''HEAD''])) (\<lambda>out. Inr (trim out))"

definition normalize_changed_path :: "string \<Rightarrow> string" where
  "normalize_changed_path p = trim_end_slash (trim_dot_slash (trim_quotes (trim p)))"

definition attempt_actual_changed_paths :: "string list \<Rightarrow> string list \<Rightarrow> string list \<Rightarrow> string list" where
  "attempt_actual_changed_paths pre now committed = (let norm = (\<lambda>ps. filter (\<lambda>p. p \<noteq> []) (map normalize_changed_path ps)) in
     btree_of_list (norm committed @ filter (\<lambda>p. p \<notin> set (norm pre)) (norm now)))"

subsection \<open>Which paths a scope covers\<close>

lemma has_prefix_iff: "has_prefix p s \<longleftrightarrow> (\<exists>r. s = p @ r)"
  by (metis append_eq_conv_conj has_prefix_def)

lemma strip_suffix_Some: "strip_suffix suf s = Some p \<longleftrightarrow> s = p @ suf"
  by (auto simp: strip_suffix_def) (metis append_take_drop_id)

lemma strip_suffix_None: "strip_suffix suf s = None \<longleftrightarrow> (\<forall>p. s \<noteq> p @ suf)"
  by (metis not_Some_eq strip_suffix_Some)

text \<open>A literal scope covers itself and what lies under it, \<open>dir/**\<close> the same of \<open>dir\<close>, \<open>dir/*\<close> the
  entries of \<open>dir\<close> only.\<close>

lemma scope_literal:
  assumes "norm_scope scope = s" "s \<noteq> []" "s \<noteq> ''*''" "\<And>d. s \<noteq> d @ ''/*''" "\<And>d. s \<noteq> d @ ''/**''"
  shows "scope_matches_path scope path \<longleftrightarrow> norm_scope path = s \<or> (\<exists>r. norm_scope path = s @ ''/'' @ r)"
proof -
  have "s \<noteq> ''**/*''" using assms(4)[of "''**''"] by auto
  moreover have "strip_suffix ''/**'' s = None" "strip_suffix ''/*'' s = None"
    using assms(4,5) by (simp_all add: strip_suffix_None)
  ultimately show ?thesis using assms(1-3)
    by (auto simp: scope_matches_path_def Let_def has_prefix_iff)
qed

lemma scope_deep:
  assumes "norm_scope scope = d @ ''/**''"
  shows "scope_matches_path scope path \<longleftrightarrow>
    norm_scope path \<noteq> [] \<and> (norm_scope path = d \<or> (\<exists>r. norm_scope path = d @ ''/'' @ r))"
proof -
  have "strip_suffix ''/**'' (d @ ''/**'') = Some d" by (simp add: strip_suffix_Some)
  moreover have "d @ ''/**'' \<noteq> ''*''" "d @ ''/**'' \<noteq> ''**/*''" by (auto simp: append_eq_Cons_conv)
  ultimately show ?thesis using assms by (auto simp: scope_matches_path_def Let_def has_prefix_iff)
qed

lemma scope_shallow:
  assumes "norm_scope scope = d @ ''/*''" "d \<noteq> ''**''"
  shows "scope_matches_path scope path \<longleftrightarrow> (\<exists>r. norm_scope path = d @ ''/'' @ r \<and> CHR ''/'' \<notin> set r)"
proof -
  have "strip_suffix ''/*'' (d @ ''/*'') = Some d" by (simp add: strip_suffix_Some)
  moreover have "strip_suffix ''/**'' (d @ ''/*'') = None"
    by (auto simp: strip_suffix_None append_eq_append_conv2 append_eq_Cons_conv Cons_eq_append_conv)
  moreover have "d @ ''/*'' \<noteq> ''*''" "d @ ''/*'' \<noteq> ''**/*''" using assms(2) by (auto simp: append_eq_Cons_conv)
  ultimately show ?thesis using assms(1)
    by (auto simp: scope_matches_path_def Let_def has_prefix_iff)
qed

lemma actual_paths_set:
  "set (attempt_actual_changed_paths pre now committed) = {p. p \<noteq> [] \<and>
     (p \<in> normalize_changed_path ` set committed \<or>
      p \<in> normalize_changed_path ` set now \<and> p \<notin> normalize_changed_path ` set pre)}"
  by (auto simp: attempt_actual_changed_paths_def Let_def)

end
