(* ===== verification/Kernel_Job.thy ===== *)
theory Kernel_Job
  imports Kernel_Lease Kernel_Scope
begin

text \<open>
  Shared events, jobs, attempts, worktree manifests and task contracts (\<open>engine/shared_memory.rs\<close>).
\<close>

subsection \<open>Shared events\<close>

definition shared_row :: "instant \<Rightarrow> json \<Rightarrow> int \<Rightarrow> shared_event" where
  "shared_row t args n = \<lparr> se_id = in_uuid t, se_stream = unwrap_or (string_args args [''stream_id'', ''streamId'']) ''default'',
     se_seq = n, se_project = string_args args [''project_id'', ''projectId''], se_task = string_args args [''task_id'', ''taskId''],
     se_agent = string_args args [''agent_id'', ''agentId''],
     se_kind = unwrap_or (string_args args [''event_kind'', ''eventKind'']) ''shared_memory_event'',
     se_payload = unwrap_or (j_get args ''payload'') (JObject []),
     se_key = string_args args [''idempotency_key'', ''idempotencyKey''],
     se_correlation = string_args args [''correlation_id'', ''correlationId''],
     se_parents = unwrap_or (j_get_any args [''parent_event_ids'', ''parentEventIds'']) (JArray []), se_created = in_db_now t \<rparr>"

text \<open>The row with the same key on the same stream is returned unchanged; the sequence number drawn for the
  insert is lost.\<close>

definition insert_event :: "json \<Rightarrow> shared_event kprog" where
  "insert_event args = exec (\<lambda>t s. let e = shared_row t args (next_seq s) in
     case (if se_key e = None then None else find (\<lambda>d. event_key d = event_key e) (shared_events s)) of
       Some d \<Rightarrow> (Inr d, s\<lparr> next_seq := next_seq s + 1 \<rparr>)
     | None \<Rightarrow> if se_id e \<in> se_id ` set (shared_events s) then (Inl ''shared_events_pkey'', s)
         else (Inr e, s\<lparr> shared_events := shared_events s @ [e], next_seq := next_seq s + 1 \<rparr>))"

definition append_event :: "kernel_env \<Rightarrow> json \<Rightarrow> json kprog" where
  "append_event env args = bind_prog (insert_event args) (\<lambda>e. let
       stream = unwrap_or (string_args args [''stream_id'', ''streamId'']) ''default'';
       kind = unwrap_or (string_args args [''event_kind'', ''eventKind'']) ''shared_memory_event'' in
     then_prog (publish (ExternalServiceEvent (se_id e) kind))
      (Ret (JObject [(''schema'', JString ''missiond.shared-event.v1''), (''id'', JString (se_id e)), (''stream_id'', JString stream),
        (''seq'', JInt (se_seq e)), (''event_kind'', JString kind), (''created_at'', JString (rfc3339 env (se_created e)))])))"

definition timestamp_millis :: "int \<Rightarrow> string" where
  "timestamp_millis now = show_int (now div 1000)"

subsection \<open>Jobs\<close>

definition job_states :: "string list" where
  "job_states = [''created'', ''claimed'', ''running'', ''blocked'', ''failed'', ''completed'', ''skipped'']"

definition ensure_job_for_task :: "string option \<Rightarrow> string \<Rightarrow> string \<Rightarrow> json \<Rightarrow> string kprog" where
  "ensure_job_for_task project task state metadata = then_prog
     (exec (\<lambda>t s. if state \<notin> set job_states then (Inl ''jobs_state_check'', s)
       else if list_ex (\<lambda>j. jo_task j = task) (jobs s)
       then (Inr (), s\<lparr> jobs := update_where (\<lambda>j. jo_task j = task) (\<lambda>j. j\<lparr> jo_state := state,
          jo_metadata := (if metadata = JObject [] then jo_metadata j else metadata) \<rparr>) (jobs s) \<rparr>)
       else if (''job:'' @ task) \<in> jo_id ` set (jobs s) then (Inl ''jobs_pkey'', s)
       else (Inr (), s\<lparr> jobs := jobs s @ [\<lparr> jo_id = ''job:'' @ task, jo_project = project, jo_task = task, jo_state = state,
          jo_attempt = None, jo_artifact = None, jo_metadata = metadata \<rparr>] \<rparr>)))
     (Ret (''job:'' @ task))"

definition job_event_args :: "string option \<Rightarrow> string \<Rightarrow> string \<Rightarrow> string \<Rightarrow> int \<Rightarrow> json \<Rightarrow> json" where
  "job_event_args project task kind agent now payload = JObject [(''stream_id'', JString ''execution-control-plane''),
     (''event_kind'', JString kind), (''project_id'', j_opt project), (''task_id'', JString task), (''agent_id'', JString agent),
     (''idempotency_key'', JString (''job-event:'' @ task @ '':'' @ kind @ '':'' @ timestamp_millis now)), (''payload'', payload)]"

definition record_control_plane_event :: "kernel_env \<Rightarrow> string option \<Rightarrow> string \<Rightarrow> string \<Rightarrow> string \<Rightarrow> json \<Rightarrow>
    string option \<Rightarrow> string option \<Rightarrow> string kprog" where
  "record_control_plane_event env project task kind agent payload state hash = bind_prog
     (ensure_job_for_task project task (unwrap_or (or_else state (job_state_for_event kind)) ''running'') (JObject [])) (\<lambda>job.
     then_prog (case hash of None \<Rightarrow> Ret ()
       | Some h \<Rightarrow> exec (\<lambda>t s. (Inr (), s\<lparr> jobs := update_where (\<lambda>j. jo_id j = job) (\<lambda>j. j\<lparr> jo_artifact := Some h \<rparr>) (jobs s) \<rparr>)))
     (bind_prog (observe in_app_now) (\<lambda>now.
      then_prog (append_event env (job_event_args project task kind agent now payload)) (Ret job))))"

definition project_board_task_view :: "string \<Rightarrow> string option \<Rightarrow> string \<Rightarrow> string option \<Rightarrow> json \<Rightarrow> unit kprog" where
  "project_board_task_view task job status hash projection = exec (\<lambda>t s. let v = \<lparr> bv_task = task, bv_job = job, bv_status = status,
       bv_artifact = hash, bv_projection = projection \<rparr> in
     (Inr (), s\<lparr> views := (if list_ex (\<lambda>w. bv_task w = task) (views s) then update_where (\<lambda>w. bv_task w = task) (\<lambda>_. v) (views s)
        else views s @ [v]) \<rparr>))"

definition current_job_attempt_for_task :: "string \<Rightarrow> (string option \<times> string option) kprog" where
  "current_job_attempt_for_task task = query (\<lambda>t s. case find (\<lambda>j. jo_task j = task) (jobs s) of
      Some j \<Rightarrow> (Some (jo_id j), jo_attempt j) | None \<Rightarrow> (None, None))"

subsection \<open>Task contracts\<close>

record task_contract =
  rc_project :: "string option"
  rc_root :: "string option"
  rc_contract_id :: string
  rc_parent :: "string option"
  rc_source :: "string option"
  rc_shard :: "string option"
  rc_context_pack :: "string option"
  rc_class :: "string option"
  rc_engine :: "string option"
  rc_pool :: "string option"
  rc_output :: "string option"
  rc_conversation :: "string option"
  rc_grounding :: "string option"
  rc_read :: "string list"
  rc_write :: "string list"
  rc_must_not :: "string list"
  rc_grants :: "string list"
  rc_sandbox :: "string option"
  rc_policy :: "string option"

definition task_contract_projection_from_metadata :: "string \<Rightarrow> string option \<Rightarrow> json \<Rightarrow> contract_row" where
  "task_contract_projection_from_metadata task project md = (let
     dispatch = unwrap_or (j_get_any md [''dispatch_metadata'', ''swarm_metadata'', ''metadata'']) md;
     val = (\<lambda>k. or_else (metadata_string_value_any (j_get md k)) (metadata_string_value_any (j_get dispatch k)));
     lst = (\<lambda>k. first_non_empty_metadata_list [j_get md k, j_get dispatch k]);
     refs = (\<lambda>k. unwrap_or (or_else (j_get md k) (j_get dispatch k)) (JArray []))
   in \<lparr> tc_id = ''task-contract:'' @ task, tc_task = task,
     tc_project = or_else (metadata_string_value_any (j_get dispatch ''project_id''))
       (case project of Some p \<Rightarrow> if trim p = [] then None else Some (trim p) | None \<Rightarrow> None),
     tc_contract_id = unwrap_or (val ''task_contract_id'') (''board-task:'' @ task), tc_dispatch = dispatch,
     tc_read = j_strs (lst ''read_scope''), tc_write = j_strs (lst ''write_scope''), tc_must_not = j_strs (lst ''must_not_touch''),
     tc_grants = j_strs (metadata_string_list_any (j_get md ''capability_grant_ids'') @
       metadata_string_list_any (j_get dispatch ''capability_grant_ids'')),
     tc_sandbox = val ''sandbox_profile'', tc_policy = val ''completion_materialization_policy'',
     tc_grounding = refs ''grounding_refs'', tc_context = refs ''context_refs'' \<rparr>)"

text \<open>\<open>INSERT ... ON CONFLICT (task_id) DO UPDATE\<close> sets every column but the key.\<close>

definition upsert_task_contract_from_metadata :: "string \<Rightarrow> string option \<Rightarrow> json \<Rightarrow> string kprog" where
  "upsert_task_contract_from_metadata task project md = (let c = task_contract_projection_from_metadata task project md in then_prog
     (exec (\<lambda>t s. if list_ex (\<lambda>d. tc_task d = task) (contracts s)
        then (Inr (), s\<lparr> contracts := update_where (\<lambda>d. tc_task d = task) (\<lambda>d. c\<lparr> tc_id := tc_id d \<rparr>) (contracts s) \<rparr>)
        else if tc_id c \<in> tc_id ` set (contracts s) then (Inl ''task_contracts_pkey'', s)
        else (Inr (), s\<lparr> contracts := contracts s @ [c] \<rparr>)))
     (Ret (tc_contract_id c)))"

definition contract_id_of :: "string \<Rightarrow> string option kprog" where
  "contract_id_of task = query (\<lambda>t s. map_option tc_contract_id (find (\<lambda>d. tc_task d = task) (contracts s)))"

definition ensure_task_contract_from_metadata :: "string \<Rightarrow> string option \<Rightarrow> json \<Rightarrow> string kprog" where
  "ensure_task_contract_from_metadata task project md = bind_prog (contract_id_of task) (\<lambda>existing. case existing of
      Some i \<Rightarrow> Ret i
    | None \<Rightarrow> let c = task_contract_projection_from_metadata task project md in bind_prog
        (exec (\<lambda>t s. if list_ex (\<lambda>d. tc_task d = task) (contracts s) then (Inr None, s)
           else if tc_id c \<in> tc_id ` set (contracts s) then (Inl ''task_contracts_pkey'', s)
           else (Inr (Some (tc_contract_id c)), s\<lparr> contracts := contracts s @ [c] \<rparr>)))
        (\<lambda>inserted. case inserted of
           Some i \<Rightarrow> Ret i
         | None \<Rightarrow> bind_prog (contract_id_of task) (\<lambda>again. case again of
             Some i \<Rightarrow> Ret i
           | None \<Rightarrow> Err (Other (''task_contracts insert raced but no row exists for task '' @ task @ '' ('' @ tc_contract_id c @ '')'')))))"

definition update_task_contract_capability_grants :: "string \<Rightarrow> string list \<Rightarrow> unit kprog" where
  "update_task_contract_capability_grants task ids = exec (\<lambda>t s. (Inr (),
     s\<lparr> contracts := update_where (\<lambda>d. tc_task d = task) (\<lambda>d. d\<lparr> tc_grants := j_strs ids \<rparr>) (contracts s) \<rparr>))"

definition task_completion_materialization_policy :: "string \<Rightarrow> string option kprog" where
  "task_completion_materialization_policy task = query (\<lambda>t s. Option.bind (find (\<lambda>d. tc_task d = task) (contracts s)) tc_policy)"

definition contract_view :: "contract_row \<Rightarrow> task_contract" where
  "contract_view d = (let
     one = (\<lambda>k. metadata_string_value_any (j_get (tc_dispatch d) k));
     two = (\<lambda>k l. or_else (one k) (one l))
   in \<lparr> rc_project = or_else (tc_project d) (one ''project_id''), rc_root = one ''project_root'', rc_contract_id = tc_contract_id d,
     rc_parent = two ''parent_board_task_id'' ''parentBoardTaskId'',
     rc_source = or_else (two ''source_board_task_id'' ''sourceBoardTaskId'') (two ''source_id'' ''sourceId''),
     rc_shard = two ''accepted_shard_id'' ''acceptedShardId'', rc_context_pack = two ''context_pack_path'' ''contextPackPath'',
     rc_class = two ''task_class'' ''taskClass'', rc_engine = two ''engine_hint'' ''engineHint'', rc_pool = two ''pool_hint'' ''poolHint'',
     rc_output = two ''output_contract'' ''outputContract'', rc_conversation = two ''conversation_id'' ''conversationId'',
     rc_grounding = two ''grounding_context_id'' ''groundingContextId'', rc_read = metadata_string_list_any (Some (tc_read d)),
     rc_write = metadata_string_list_any (Some (tc_write d)), rc_must_not = metadata_string_list_any (Some (tc_must_not d)),
     rc_grants = metadata_string_list_any (Some (tc_grants d)), rc_sandbox = tc_sandbox d, rc_policy = tc_policy d \<rparr>)"

definition TASK_CONTRACT_REQUIRED :: string where
  "TASK_CONTRACT_REQUIRED = ''TASK_CONTRACT_REQUIRED''"

definition task_runtime_contract :: "string \<Rightarrow> task_contract kprog" where
  "task_runtime_contract task = bind_prog (query (\<lambda>t s. find (\<lambda>d. tc_task d = task) (contracts s))) (\<lambda>row. case row of
      Some d \<Rightarrow> Ret (contract_view d)
    | None \<Rightarrow> Err (Control TASK_CONTRACT_REQUIRED (''task '' @ task @
        '' has no canonical task_contracts row; legacy BoardTask.description/runtime_metadata fallback is disabled'')
        (JObject [(''task_id'', JString task), (''required'', JString ''task_contracts''), (''legacy_fallback'', JBool False)])))"

subsection \<open>Worktree manifests\<close>

record manifest_snapshot =
  ms_head :: "string option"
  ms_changed :: "string list"

definition opt_of_res :: "'e + 'a \<Rightarrow> 'a option" where
  "opt_of_res r = (case r of Inl _ \<Rightarrow> None | Inr x \<Rightarrow> Some x)"

definition record_worktree_manifest :: "string \<Rightarrow> string option \<Rightarrow> string option \<Rightarrow> string option \<Rightarrow> string \<Rightarrow> string \<Rightarrow>
    string list \<Rightarrow> json \<Rightarrow> unit kprog" where
  "record_worktree_manifest task project job attempt_id root phase changed extra = bind_prog
     (observe (\<lambda>t. (opt_of_res (git_head t root), in_app_now t))) (\<lambda>(head, now). let
       i = ''manifest:'' @ task @ '':'' @ phase @ '':'' @ timestamp_millis now;
       m = merge_json_object (JObject [(''schema'', JString ''missiond.worktree-manifest.v1''), (''source'', JString ''post-run-verifier''),
         (''changed_paths'', j_strs changed), (''head'', j_opt head), (''dirty'', JBool (changed \<noteq> []))]) extra in
     exec (\<lambda>t s. if i \<in> wm_id ` set (manifests s) then (Inl ''worktree_manifests_pkey'', s)
       else if (case job of Some j \<Rightarrow> j \<notin> jo_id ` set (jobs s) | None \<Rightarrow> False) then (Inl ''worktree_manifests_job_id_fkey'', s)
       else if (case attempt_id of Some a \<Rightarrow> a \<notin> ja_id ` set (attempts s) | None \<Rightarrow> False) then (Inl ''worktree_manifests_attempt_id_fkey'', s)
       else if phase \<noteq> ''pre'' \<and> phase \<noteq> ''post'' then (Inl ''worktree_manifests_phase_check'', s)
       else (Inr (), s\<lparr> manifests := manifests s @ [\<lparr> wm_id = i, wm_job = job, wm_attempt = attempt_id, wm_task = task, wm_project = project,
         wm_root = root, wm_phase = phase, wm_manifest = m, wm_changed = j_strs changed, wm_created = in_db_now t \<rparr>] \<rparr>)))"

definition latest_worktree_manifest :: "string \<Rightarrow> string \<Rightarrow> string \<Rightarrow> manifest_snapshot option kprog" where
  "latest_worktree_manifest task attempt_id phase = query (\<lambda>t s. map_option (\<lambda>m.
       \<lparr> ms_head = Option.bind (j_get (wm_manifest m) ''head'') as_str, ms_changed = metadata_string_list_any (Some (wm_changed m)) \<rparr>)
     (newest wm_created (filter (\<lambda>m. wm_task m = task \<and> wm_attempt m = Some attempt_id \<and> wm_phase m = phase) (manifests s))))"

definition non_blank :: "string option \<Rightarrow> string option" where
  "non_blank v = (case v of Some x \<Rightarrow> if trim x = [] then None else Some (trim x) | None \<Rightarrow> None)"

subsection \<open>Job events\<close>

record job_event_request =
  je_task :: string
  je_project :: "string option"
  je_agent :: string
  je_kind :: string
  je_attempt :: "string option"
  je_worker :: "string option"
  je_conversation :: "string option"
  je_metadata :: json
  je_payload :: json

definition upsert_attempt :: "string \<Rightarrow> string \<Rightarrow> string option \<Rightarrow> string option \<Rightarrow> json \<Rightarrow> unit kprog" where
  "upsert_attempt i job worker conversation details = exec (\<lambda>t s.
     if list_ex (\<lambda>a. ja_id a = i) (attempts s)
     then (Inr (), s\<lparr> attempts := update_where (\<lambda>a. ja_id a = i) (\<lambda>a. a\<lparr> ja_state := ''started'',
        ja_started := or_else (ja_started a) (Some (in_db_now t)), ja_details := details \<rparr>) (attempts s) \<rparr>)
     else if job \<notin> jo_id ` set (jobs s) then (Inl ''job_attempts_job_id_fkey'', s)
     else (Inr (), s\<lparr> attempts := attempts s @ [\<lparr> ja_id = i, ja_job = job, ja_worker = worker, ja_conversation = conversation,
        ja_state = ''started'', ja_started = Some (in_db_now t), ja_details = details \<rparr>] \<rparr>))"

definition start_attempt :: "job_event_request \<Rightarrow> string \<Rightarrow> string kprog" where
  "start_attempt req job = bind_prog (observe in_app_now) (\<lambda>now. let
       i = unwrap_or (je_attempt req) (''attempt:'' @ je_task req @ '':'' @ timestamp_millis now) in
     then_prog (upsert_attempt i job (or_else (je_worker req) (Some (je_agent req))) (je_conversation req) (je_payload req))
     (then_prog (exec (\<lambda>t s. (Inr (), s\<lparr> jobs := update_where (\<lambda>j. jo_id j = job)
        (\<lambda>j. j\<lparr> jo_attempt := Some i, jo_state := ''running'' \<rparr>) (jobs s) \<rparr>)))
     (bind_prog (task_runtime_contract (je_task req)) (\<lambda>contract.
      then_prog (case non_blank (rc_root contract) of
          None \<Rightarrow> Ret ()
        | Some root \<Rightarrow> bind_prog (observe (\<lambda>t. unwrap_or (opt_of_res (git_status_changed_paths t root)) [])) (\<lambda>changed.
            record_worktree_manifest (je_task req) (or_else (rc_project contract) (je_project req)) (Some job) (Some i) root ''pre'' changed
              (JObject [(''source'', JString ''attempt-baseline''), (''phase_role'', JString ''pre_attempt_baseline'')])))
      (Ret i)))))"

definition job_event_command :: "kernel_env \<Rightarrow> job_event_request \<Rightarrow> json kprog" where
  "job_event_command env req = (let state = unwrap_or (job_state_for_event (je_kind req)) ''running'' in
     bind_prog (ensure_job_for_task (je_project req) (je_task req) state (je_metadata req)) (\<lambda>job.
     bind_prog (if je_kind req = ''attempt.started'' then bind_prog (start_attempt req job) (\<lambda>i. Ret (Some i)) else Ret None) (\<lambda>attempt_id.
     bind_prog (observe in_app_now) (\<lambda>now.
     bind_prog (append_event env (job_event_args (je_project req) (je_task req) (je_kind req) (je_agent req) now (je_payload req))) (\<lambda>event.
     Ret (JObject [(''schema'', JString ''missiond.job-event.v1''), (''ok'', JBool True), (''job_id'', JString job),
       (''attempt_id'', j_opt attempt_id), (''state'', JString state), (''event'', event)]))))))"

subsection \<open>What the operations keep\<close>

lemma kdb_events: "kdb_ok s \<Longrightarrow> events_ok (shared_events s) (next_seq s)"
  by (simp add: kdb_ok_def)

lemma events_ok_next: "events_ok es n \<Longrightarrow> events_ok es (n + 1)"
  unfolding events_ok_def by (meson add_strict_increasing zero_less_one less_trans less_add_one)

lemma events_ok_snoc:
  assumes "events_ok es n" "se_seq e = n" "se_id e \<notin> se_id ` set es"
    "se_key e \<noteq> None \<Longrightarrow> find (\<lambda>d. event_key d = event_key e) es = None"
  shows "events_ok (es @ [e]) (n + 1)"
proof -
  have "one_active (\<lambda>e. se_key e \<noteq> None) event_key (es @ [e])"
  proof (cases "se_key e")
    case None
    with assms(1) show ?thesis by (simp add: events_ok_def one_active_def)
  next
    case (Some k)
    then show ?thesis using assms(1,4) by (intro one_active_snoc) (auto simp: events_ok_def find_None_iff)
  qed
  with assms show ?thesis by (auto simp: events_ok_def sorted_wrt_append less_add_one intro: less_trans)
qed

lemma safe_insert_event [safe_intros]: "safe (insert_event args)"
  unfolding insert_event_def Let_def
proof (rule safe_exec)
  fix t s
  assume s: "kdb_ok s"
  have seq: "se_seq (shared_row t args n) = n" for n by (simp add: shared_row_def)
  show "kept_ok s (snd (case if se_key (shared_row t args (next_seq s)) = None then None
        else find (\<lambda>d. event_key d = event_key (shared_row t args (next_seq s))) (shared_events s) of
      None \<Rightarrow> if se_id (shared_row t args (next_seq s)) \<in> se_id ` set (shared_events s) then (Inl ''shared_events_pkey'', s)
        else (Inr (shared_row t args (next_seq s)), s\<lparr> shared_events := shared_events s @ [shared_row t args (next_seq s)], next_seq := next_seq s + 1 \<rparr>)
    | Some d \<Rightarrow> (Inr d, s\<lparr> next_seq := next_seq s + 1 \<rparr>)))"
    using s kdb_events[OF s] events_ok_next events_ok_snoc[OF kdb_events[OF s] seq]
    by (auto split: option.splits if_splits)
qed

lemma safe_append_event [safe_intros]: "safe (append_event env args)"
  unfolding append_event_def Let_def by (intro safe_intros)

lemma safe_ensure_job [safe_intros]: "safe (ensure_job_for_task a b c d)"
  unfolding ensure_job_for_task_def by (intro safe_intros) auto

lemma safe_jobs [safe_intros]: "safe (exec (\<lambda>t s. (g t s, s\<lparr> jobs := f t s \<rparr>)))"
  by (rule safe_exec) simp

lemma safe_record_event [safe_intros]: "safe (record_control_plane_event env a b c d e f g)"
  unfolding record_control_plane_event_def by (intro safe_intros)

lemma safe_view [safe_intros]: "safe (project_board_task_view a b c d e)"
  unfolding project_board_task_view_def Let_def by (rule safe_exec) simp

lemma safe_current_attempt [safe_intros]: "safe (current_job_attempt_for_task task)"
  unfolding current_job_attempt_for_task_def by (intro safe_intros)

lemma safe_contract_ops [safe_intros]:
  "safe (upsert_task_contract_from_metadata a b c)" "safe (contract_id_of a)" "safe (ensure_task_contract_from_metadata a b c)"
  "safe (update_task_contract_capability_grants a ids)" "safe (task_completion_materialization_policy a)" "safe (task_runtime_contract a)"
  unfolding upsert_task_contract_from_metadata_def contract_id_of_def ensure_task_contract_from_metadata_def Let_def
    update_task_contract_capability_grants_def task_completion_materialization_policy_def task_runtime_contract_def
  by ((intro safe_intros; auto)+)

lemma safe_manifest [safe_intros]: "safe (record_worktree_manifest a b c d e f g h)" "safe (latest_worktree_manifest i j k)"
  unfolding record_worktree_manifest_def latest_worktree_manifest_def Let_def by (intro safe_intros; auto)+

lemma safe_attempt_row [safe_intros]: "safe (upsert_attempt a b c d e)"
  unfolding upsert_attempt_def by (rule safe_exec) auto

lemma safe_start_attempt [safe_intros]: "safe (start_attempt req job)"
  unfolding start_attempt_def Let_def by (intro safe_intros)

lemma safe_job_event [safe_intros]: "safe (job_event_command env req)"
  unfolding job_event_command_def Let_def by (intro safe_intros)

end
