(* ===== verification/Kernel_Artifact.thy ===== *)
theory Kernel_Artifact
  imports Kernel_Job
begin

text \<open>
  Completion artifacts (\<open>engine/shared_memory.rs\<close>): the content-addressed store, the verification of what
  a worker reports against what git sees, and \<open>task_result_put\<close>.
\<close>

subsection \<open>Shared artifacts\<close>

definition put_artifact_bytes :: "kernel_env \<Rightarrow> string \<Rightarrow> string option \<Rightarrow> string option \<Rightarrow> string \<Rightarrow> string \<Rightarrow> json \<Rightarrow>
    (string \<times> int) kprog" where
  "put_artifact_bytes env kind project task media content metadata = (let
       h = sha256_hex env content; size = min (int (length content)) i64_max in
     then_prog (exec (\<lambda>t s. (Inr (), if h \<in> sa_hash ` set (blobs s) then s else s\<lparr> blobs := blobs s @
         [\<lparr> sa_hash = h, sa_kind = kind, sa_project = project, sa_task = task, sa_media = media, sa_bytes = content,
            sa_size = size, sa_metadata = metadata \<rparr>] \<rparr>)))
       (Ret (h, size)))"

definition put_json_artifact :: "kernel_env \<Rightarrow> string \<Rightarrow> string option \<Rightarrow> string option \<Rightarrow> json \<Rightarrow> json \<Rightarrow> json kprog" where
  "put_json_artifact env kind project task body metadata = bind_prog
     (put_artifact_bytes env kind project task ''application/json'' (json_bytes env body) metadata) (\<lambda>(h, size).
     Ret (JObject [(''schema'', JString ''missiond.shared-artifact.v1''), (''hash'', JString h), (''kind'', JString kind),
       (''size_bytes'', JInt size), (''media_type'', JString ''application/json'')]))"

subsection \<open>Verification of a write scope\<close>

definition text_of_error :: "kerr \<Rightarrow> string" where
  "text_of_error e = (case e of Control c m d \<Rightarrow> c @ '': '' @ m | Other m \<Rightarrow> m | EvidenceRequired i \<Rightarrow> i | NotFound a b \<Rightarrow> b
     | ClaimConflict a b c d \<Rightarrow> b)"

definition path_violation :: "string \<Rightarrow> task_contract \<Rightarrow> string \<Rightarrow> json option" where
  "path_violation pre contract path = (
     if in_scopes (rc_must_not contract) path
     then Some (JObject [(''path'', JString path), (''reason'', JString (pre @ ''must_not_touch'')), (''scope'', j_strs (rc_must_not contract))])
     else if \<not> in_scopes (rc_write contract) path
     then Some (JObject [(''path'', JString path), (''reason'', JString (pre @ ''outside_write_scope'')), (''scope'', j_strs (rc_write contract))])
     else None)"

definition actual_violation :: "task_contract \<Rightarrow> string list \<Rightarrow> string \<Rightarrow> json option" where
  "actual_violation contract reported path = (case path_violation ''actual_'' contract path of
      Some v \<Rightarrow> Some v
    | None \<Rightarrow> if in_scopes reported path then None
        else Some (JObject [(''path'', JString path), (''reason'', JString ''actual_path_not_reported_by_artifact''),
          (''reported_changed_paths'', j_strs reported)]))"

definition incomplete :: "string \<Rightarrow> json \<Rightarrow> kerr" where
  "incomplete m d = Control COMPLETION_ARTIFACT_INVALID m d"

definition deny_write_scope :: "kernel_env \<Rightarrow> task_contract \<Rightarrow> string \<Rightarrow> string \<Rightarrow> json \<Rightarrow> 'a kprog" where
  "deny_write_scope env contract task m details = then_prog
     (attempt (record_control_plane_event env (rc_project contract) task ''capability.denied'' ''post-run-verifier''
        (JObject [(''code'', JString WRITE_SCOPE_VIOLATION), (''details'', details)]) (Some ''blocked'') None))
     (Err (Control WRITE_SCOPE_VIOLATION m details))"

definition map_err :: "(kerr \<Rightarrow> kerr) \<Rightarrow> kerr + 'a \<Rightarrow> kerr + 'a" where
  "map_err f r = (case r of Inl e \<Rightarrow> Inl (f e) | Inr x \<Rightarrow> Inr x)"

definition observe_res :: "(instant \<Rightarrow> kerr + 'a) \<Rightarrow> 'a kprog" where
  "observe_res f = bind_prog (observe f) of_res"

definition head_paths :: "string \<Rightarrow> string \<Rightarrow> string option \<Rightarrow> string option \<Rightarrow> string list kprog" where
  "head_paths task root before after = (case (before, after) of
      (Some a, Some b) \<Rightarrow> if a \<noteq> b
        then observe_res (\<lambda>t. map_err (\<lambda>e. incomplete
            (''task '' @ task @ '' post-run verifier failed to diff attempt heads: '' @ text_of_error e)
            (JObject [(''task_id'', JString task), (''project_root'', JString root), (''pre_head'', JString a), (''post_head'', JString b),
              (''verifier'', JString ''git diff --name-only'')])) (git_changed_paths_between t root a b))
        else Ret []
    | _ \<Rightarrow> Ret [])"

definition verify_paths :: "kernel_env \<Rightarrow> string \<Rightarrow> string list \<Rightarrow> task_contract \<Rightarrow> string \<Rightarrow> string list \<Rightarrow> unit kprog" where
  "verify_paths env task reported contract root actual = (
     if actual = [] then Err (incomplete (''task '' @ task @ '' reported changed paths but attempt diff found no actual post-run change'')
       (JObject [(''task_id'', JString task), (''project_root'', JString root), (''reported_changed_paths'', j_strs reported),
         (''verifier'', JString ''attempt baseline diff''), (''required'', JString ''post manifest dirty diff or committed HEAD diff'')]))
     else let vs = List.map_filter (actual_violation contract reported) actual in
       if vs = [] then Ret ()
       else deny_write_scope env contract task (''task '' @ task @ '' actual worktree changes violate write_scope'')
         (JObject [(''task_id'', JString task), (''project_root'', JString root), (''actual_changed_paths'', j_strs actual),
           (''reported_changed_paths'', j_strs reported), (''violations'', JArray vs), (''write_scope'', j_strs (rc_write contract)),
           (''must_not_touch'', j_strs (rc_must_not contract))]))"

definition verify_actual_worktree_changes :: "kernel_env \<Rightarrow> string \<Rightarrow> string list \<Rightarrow> task_contract \<Rightarrow> unit kprog" where
  "verify_actual_worktree_changes env task reported contract = (if rc_write contract = [] then Ret () else
     case non_blank (rc_root contract) of
       None \<Rightarrow> Err (incomplete (''task '' @ task @ '' completed write-scoped work without project_root metadata'')
         (JObject [(''task_id'', JString task), (''required'', JString ''runtime_metadata.dispatch_metadata.project_root'')]))
     | Some root \<Rightarrow> bind_prog (current_job_attempt_for_task task) (\<lambda>(job, current). case current of
         None \<Rightarrow> Err (incomplete (''task '' @ task @ '' completed write-scoped work without a current attempt'')
           (JObject [(''task_id'', JString task), (''required'', JString ''jobs.current_attempt_id''), (''verifier'', JString ''attempt baseline diff'')]))
       | Some a \<Rightarrow> bind_prog (latest_worktree_manifest task a ''pre'') (\<lambda>pre. case pre of
           None \<Rightarrow> Err (incomplete (''task '' @ task @ '' completed write-scoped work without a pre worktree manifest for attempt '' @ a)
             (JObject [(''task_id'', JString task), (''attempt_id'', JString a), (''required'', JString ''worktree_manifests phase=pre''),
               (''verifier'', JString ''attempt baseline diff'')]))
         | Some pm \<Rightarrow> bind_prog (observe_res (\<lambda>t. map_err (\<lambda>e. incomplete (''task '' @ task @ '' post-run verifier failed: '' @ text_of_error e)
               (JObject [(''task_id'', JString task), (''project_root'', JString root), (''verifier'', JString ''git status --porcelain=v1'')]))
               (git_status_changed_paths t root))) (\<lambda>status_paths.
             bind_prog (observe (\<lambda>t. opt_of_res (git_head t root))) (\<lambda>post_head.
             bind_prog (head_paths task root (ms_head pm) post_head) (\<lambda>committed. let
               actual = attempt_actual_changed_paths (ms_changed pm) status_paths committed in
             then_prog (attempt (record_worktree_manifest task (rc_project contract) job (Some a) root ''post'' actual
               (JObject [(''source'', JString ''attempt-diff-verifier''), (''phase_role'', JString ''post_attempt_diff''), (''attempt_id'', JString a),
                 (''pre_head'', j_opt (ms_head pm)), (''post_head'', j_opt post_head), (''pre_changed_paths'', j_strs (ms_changed pm)),
                 (''status_changed_paths'', j_strs status_paths), (''head_changed_paths'', j_strs committed),
                 (''algorithm'', JString ''actual = committed paths between pre/post HEAD + current dirty paths not present in pre manifest'')])))
             (verify_paths env task reported contract root actual)))))))"

definition verify_completion_scope :: "kernel_env \<Rightarrow> string \<Rightarrow> json \<Rightarrow> json \<Rightarrow> task_contract \<Rightarrow> unit kprog" where
  "verify_completion_scope env task args details contract = (let changed = changed_paths_from_payload args details;
       scopes = [(''write_scope'', j_strs (rc_write contract)), (''must_not_touch'', j_strs (rc_must_not contract))] in
     if rc_write contract = [] \<and> changed = [] then Ret ()
     else if rc_write contract = []
     then Err (Control WRITE_SCOPE_VIOLATION (''task '' @ task @ '' reports changed paths but has no write_scope grant'')
       (JObject ([(''task_id'', JString task), (''changed_paths'', j_strs changed)] @ scopes)))
     else if changed = []
     then Err (incomplete (''task '' @ task @ '' completed a write-scoped job without changed-path evidence'')
       (JObject [(''task_id'', JString task), (''write_scope'', j_strs (rc_write contract)), (''required'', JString ''changed_paths or files_changed'')]))
     else if \<not> verification_evidence_present args details
     then Err (incomplete (''task '' @ task @ '' completed a write-scoped job without verification evidence'')
       (JObject [(''task_id'', JString task), (''required'', JString ''verification evidence'')]))
     else let vs = List.map_filter (path_violation '''' contract) changed in
       if vs \<noteq> [] then deny_write_scope env contract task (''task '' @ task @ '' changed files outside its write_scope'')
         (JObject ([(''task_id'', JString task), (''violations'', JArray vs)] @ scopes))
       else verify_actual_worktree_changes env task changed contract)"

subsection \<open>Putting a task result\<close>

record result_request =
  rr_task :: string
  rr_project :: string
  rr_slot :: "string option"
  rr_conversation :: "string option"
  rr_provider :: string
  rr_status :: string
  rr_summary :: string
  rr_content :: json
  rr_details :: json
  rr_shard :: "string option"
  rr_attempt :: "string option"
  rr_grant :: "string option"
  rr_subject_kind :: string
  rr_subject_id :: string
  rr_producer :: json
  rr_raw :: "json option"
  rr_refs :: "json list"
  rr_explicit :: bool
  rr_created :: string
  rr_bypass :: bool
  rr_args :: json

definition result_agent :: "result_request \<Rightarrow> string" where
  "result_agent req = unwrap_or (or_else (rr_slot req) (rr_conversation req)) (rr_provider req)"

definition check_current_attempt :: "result_request \<Rightarrow> task_contract \<Rightarrow> unit kprog" where
  "check_current_attempt req contract = (if is_completed_result_status (rr_status req) \<and> rc_write contract \<noteq> [] then
     (case rr_attempt req of
        None \<Rightarrow> Err (Control CAPABILITY_DENIED (''task_result_put for write-scoped task '' @ rr_task req @ '' requires current attempt_id'')
          (JObject [(''task_id'', JString (rr_task req)), (''required'', JString ''attempt_id''), (''write_scope'', j_strs (rc_write contract))]))
      | Some a \<Rightarrow> bind_prog (current_job_attempt_for_task (rr_task req)) (\<lambda>(job, current).
          if current \<noteq> Some a
          then Err (Control CAPABILITY_DENIED (''task_result_put attempt_id '' @ a @ '' is not current for task '' @ rr_task req)
            (JObject [(''task_id'', JString (rr_task req)), (''attempt_id'', JString a), (''current_attempt_id'', j_opt current)]))
          else Ret ()))
     else Ret ())"

definition result_check :: "result_request \<Rightarrow> task_contract \<Rightarrow> capability_check" where
  "result_check req contract = \<lparr> cc_grant = rr_grant req, cc_subject_kind = rr_subject_kind req, cc_subject_id = rr_subject_id req,
     cc_operation = ''write'', cc_scope_kind = ''task'', cc_scope_key = rr_task req, cc_task = Some (rr_task req),
     cc_bypass = rr_bypass req, cc_reason = Some ''task_result_put system/operator authority'',
     cc_details = JObject [(''provider'', JString (rr_provider req)), (''attempt_id'', j_opt (rr_attempt req)),
       (''task_contract_id'', JString (rc_contract_id contract)), (''runtime_contract_grants'', j_strs (rc_grants contract))] \<rparr>"

definition same_result :: "result_request \<Rightarrow> result_row \<Rightarrow> bool" where
  "same_result req r \<longleftrightarrow> ra_task r = rr_task req \<and> ra_slot r = rr_slot req \<and> ra_conversation r = rr_conversation req \<and>
     ra_provider r = Some (rr_provider req) \<and> ra_status r = rr_status req \<and> ra_summary r = rr_summary req"

definition accepted :: "kernel_env \<Rightarrow> result_request \<Rightarrow> string \<Rightarrow> (string \<times> json) \<Rightarrow> string kprog" where
  "accepted env req h extra = record_control_plane_event env (Some (rr_project req)) (rr_task req) ''artifact.accepted'' (result_agent req)
     (JObject [(''schema'', JString ''missiond.artifact-accepted.v1''), (''artifact_hash'', JString h),
       (''result_status'', JString (rr_status req)), extra]) (Some ''running'') (Some h)"

definition result_body :: "result_request \<Rightarrow> json" where
  "result_body req = JObject [(''schema'', JString ''missiond.task-result-artifact.v1''), (''task_id'', JString (rr_task req)),
     (''project_id'', JString (rr_project req)), (''slot_id'', j_opt (rr_slot req)), (''conversation_id'', j_opt (rr_conversation req)),
     (''provider'', JString (rr_provider req)), (''producer'', rr_producer req), (''producer_subject_kind'', JString (rr_subject_kind req)),
     (''producer_subject_id'', JString (rr_subject_id req)), (''capability_grant_id'', j_opt (rr_grant req)),
     (''attempt_id'', j_opt (rr_attempt req)), (''result_status'', JString (rr_status req)), (''result_kind'', JString (rr_status req)),
     (''summary'', JString (rr_summary req)), (''content'', rr_content req), (''details'', rr_details req),
     (''evidence_refs'', JArray (rr_refs req)), (''raw_evidence'', unwrap_or (rr_raw req) JNull), (''created_at'', JString (rr_created req))]"

definition result_metadata :: "result_request \<Rightarrow> json" where
  "result_metadata req = JObject [(''schema'', JString ''missiond.task-result-artifact.v1''), (''task_id'', JString (rr_task req)),
     (''project_id'', JString (rr_project req)), (''slot_id'', j_opt (rr_slot req)), (''conversation_id'', j_opt (rr_conversation req)),
     (''provider'', JString (rr_provider req)), (''result_status'', JString (rr_status req)),
     (''producer_subject_kind'', JString (rr_subject_kind req)), (''producer_subject_id'', JString (rr_subject_id req)),
     (''capability_grant_id'', j_opt (rr_grant req)), (''attempt_id'', j_opt (rr_attempt req)), (''accepted_shard_id'', j_opt (rr_shard req))]"

definition new_result :: "instant \<Rightarrow> result_request \<Rightarrow> string \<Rightarrow> string option \<Rightarrow> string \<Rightarrow> result_row" where
  "new_result t req h job gid = \<lparr> ra_id = in_uuid t, ra_hash = h, ra_project = Some (rr_project req), ra_task = rr_task req,
     ra_slot = rr_slot req, ra_conversation = rr_conversation req, ra_provider = Some (rr_provider req), ra_status = rr_status req,
     ra_summary = rr_summary req, ra_job = job, ra_attempt = rr_attempt req, ra_subject_kind = Some (rr_subject_kind req),
     ra_subject_id = Some (rr_subject_id req), ra_grant = (if is_bypass gid then None else Some gid), ra_created = in_db_now t \<rparr>"

definition merge_result :: "result_row \<Rightarrow> result_row \<Rightarrow> result_row" where
  "merge_result new old = old\<lparr> ra_summary := ra_summary new, ra_job := or_else (ra_job new) (ra_job old),
     ra_attempt := or_else (ra_attempt new) (ra_attempt old), ra_subject_kind := or_else (ra_subject_kind new) (ra_subject_kind old),
     ra_subject_id := or_else (ra_subject_id new) (ra_subject_id old), ra_grant := or_else (ra_grant new) (ra_grant old) \<rparr>"

text \<open>The reply names the identifier it drew, also when the row of another one was updated.\<close>

definition insert_result :: "result_request \<Rightarrow> string \<Rightarrow> string option \<Rightarrow> string \<Rightarrow> string kprog" where
  "insert_result req h job gid = exec (\<lambda>t s. let r = new_result t req h job gid; hit = (\<lambda>q. ra_task q = rr_task req \<and> ra_hash q = h) in
     if list_ex hit (results s) then (Inr (in_uuid t), s\<lparr> results := update_where hit (merge_result r) (results s) \<rparr>)
     else if in_uuid t \<in> ra_id ` set (results s) then (Inl ''task_result_artifacts_pkey'', s)
     else if h \<notin> sa_hash ` set (blobs s) then (Inl ''task_result_artifacts_artifact_hash_fkey'', s)
     else (Inr (in_uuid t), s\<lparr> results := results s @ [r] \<rparr>))"

definition store_result :: "kernel_env \<Rightarrow> result_request \<Rightarrow> string \<Rightarrow> json kprog" where
  "store_result env req gid = bind_prog (put_artifact_bytes env ''task-result-artifact'' (Some (rr_project req)) (Some (rr_task req))
       ''application/json'' (json_bytes env (result_body req)) (result_metadata req)) (\<lambda>(h, size).
     bind_prog (current_job_attempt_for_task (rr_task req)) (\<lambda>(job, current).
     bind_prog (insert_result req h job gid) (\<lambda>i.
     bind_prog (append_event env (JObject [(''stream_id'', JString ''execution-control-plane''), (''event_kind'', JString ''task_result_artifact.created''),
         (''project_id'', JString (rr_project req)), (''task_id'', JString (rr_task req)), (''agent_id'', JString (result_agent req)),
         (''idempotency_key'', JString (''task-result:'' @ rr_task req @ '':'' @ h)),
         (''payload'', JObject [(''artifact_hash'', JString h), (''summary'', JString (rr_summary req)), (''result_status'', JString (rr_status req))])])) (\<lambda>event.
     then_prog (accepted env req h (''summary'', JString (rr_summary req)))
     (Ret (JObject [(''schema'', JString ''missiond.task-result-artifact.v1''), (''ok'', JBool True), (''id'', JString i),
        (''artifact_hash'', JString h), (''size_bytes'', JInt size), (''event'', event)]))))))"

definition deduped_reply :: "result_row \<Rightarrow> json" where
  "deduped_reply r = JObject [(''schema'', JString ''missiond.task-result-artifact.v1''), (''ok'', JBool True), (''id'', JString (ra_id r)),
     (''artifact_hash'', JString (ra_hash r)), (''deduped'', JBool True)]"

definition task_result_put :: "kernel_env \<Rightarrow> result_request \<Rightarrow> json kprog" where
  "task_result_put env req = bind_prog (task_runtime_contract (rr_task req)) (\<lambda>contract.
     then_prog (check_current_attempt req contract)
     (bind_prog (require_capability (result_check req contract)) (\<lambda>gid.
     then_prog (if is_completed_result_status (rr_status req)
        then verify_completion_scope env (rr_task req) (rr_args req) (rr_details req) contract else Ret ())
     (then_prog (of_res (validate_task_result_artifact_payload (rr_task req) (rr_project req) (rr_provider req) (rr_status req)
        (rr_summary req) (rr_content req) (rr_refs req) (rr_explicit req)))
     (bind_prog (query (\<lambda>t s. newest ra_created (filter (same_result req) (results s)))) (\<lambda>seen. case seen of
        Some r \<Rightarrow> then_prog (accepted env req (ra_hash r) (''deduped'', JBool True)) (Ret (deduped_reply r))
      | None \<Rightarrow> store_result env req gid))))))"

subsection \<open>What the operations keep\<close>

lemma safe_put_bytes [safe_intros]: "safe (put_artifact_bytes env a b c d e f)"
  unfolding put_artifact_bytes_def Let_def by (intro safe_intros) auto

lemma safe_put_json [safe_intros]: "safe (put_json_artifact env a b c d e)"
  unfolding put_json_artifact_def by (intro safe_intros)

lemma safe_deny_scope [safe_intros]: "safe (deny_write_scope env a b c d)"
  unfolding deny_write_scope_def by (intro safe_intros)

lemma safe_observe_res [safe_intros]: "safe (observe_res f)"
  unfolding observe_res_def by (intro safe_intros)

lemma safe_head_paths [safe_intros]: "safe (head_paths a b c d)"
  unfolding head_paths_def by (auto split: option.splits intro!: safe_intros)

lemma safe_verify_paths [safe_intros]: "safe (verify_paths env a b c d e)"
  unfolding verify_paths_def Let_def by (intro safe_intros)

lemma safe_verify_actual [safe_intros]: "safe (verify_actual_worktree_changes env a b c)"
  unfolding verify_actual_worktree_changes_def Let_def by (intro safe_intros)

lemma safe_verify_scope [safe_intros]: "safe (verify_completion_scope env a b c d)"
  unfolding verify_completion_scope_def Let_def by (intro safe_intros)

lemma safe_check_attempt [safe_intros]: "safe (check_current_attempt req c)"
  unfolding check_current_attempt_def by (intro safe_intros)

lemma safe_accepted [safe_intros]: "safe (accepted env req h x)"
  unfolding accepted_def by (intro safe_intros)

lemma merge_result_keys [simp]: "ra_id (merge_result n r) = ra_id r" "ra_task (merge_result n r) = ra_task r" "ra_hash (merge_result n r) = ra_hash r"
  by (simp_all add: merge_result_def)

lemma merge_result_kept: "result_kept r (merge_result n r)"
  unfolding merge_result_def result_kept_def by blast

lemma kdb_results: "kdb_ok s \<Longrightarrow> results_ok (results s)"
  by (simp add: kdb_ok_def)

lemma results_ok_merge: "results_ok rs \<Longrightarrow> results_ok (update_where c (merge_result n) rs)"
  by (simp add: results_ok_def)

lemma results_ok_snoc: "results_ok rs \<Longrightarrow> ra_id r \<notin> ra_id ` set rs \<Longrightarrow> \<forall>q \<in> set rs. (ra_task q, ra_hash q) \<noteq> (ra_task r, ra_hash r) \<Longrightarrow>
    results_ok (rs @ [r])"
  by (auto simp: results_ok_def)


lemma safe_insert_result [safe_intros]: "safe (insert_result req h job gid)"
  unfolding insert_result_def Let_def
  by (rule safe_exec) (auto simp: kdb_results list_ex_iff new_result_def intro!: results_ok_merge results_ok_snoc rows_kept_update merge_result_kept)

lemma safe_store_result [safe_intros]: "safe (store_result env req gid)"
  unfolding store_result_def by (intro safe_intros)

lemma safe_task_result_put [safe_intros]: "safe (task_result_put env req)"
  unfolding task_result_put_def by (intro safe_intros)

end
