(* ===== verification/Kernel_Board.thy ===== *)
theory Kernel_Board
  imports Kernel_Artifact
begin

text \<open>
  The board store (\<open>missiond-core/src/db/pg/board.rs\<close>) as far as it decides the status of a task and the
  work lease of its scope \<open>board_task\<close>: lookups, the status update with its evidence check, notes, claims
  and their recovery. The columns \<open>claimed_at\<close>, \<open>lease_expires_at\<close> and \<open>updated_at\<close> of \<open>board_tasks\<close> are
  \<open>TEXT\<close>: a \<open>timestamptz\<close> stored there takes PostgreSQL's format, a bound string keeps its own.
\<close>

subsection \<open>Lookup\<close>

text \<open>\<open>LIKE\<close>, with its wild cards and its escape character.\<close>

function like :: "string \<Rightarrow> string \<Rightarrow> bool" where
  "like [] s = (s = [])"
| "like (c # p) [] = (c = CHR ''%'' \<and> like p [])"
| "like (c # p) (d # s) = (if c = CHR ''%'' then like p (d # s) \<or> like (c # p) s
     else if c = CHR ''_'' then like p s
     else if c = CHR 0x5C then (case p of [] \<Rightarrow> False | e # q \<Rightarrow> e = d \<and> like q s)
     else c = d \<and> like p s)"
  by pat_completeness auto

termination like
  by (relation "measures [\<lambda>(p, s). length p + length s]") auto

definition resolve_board_task_id :: "string \<Rightarrow> string option kprog" where
  "resolve_board_task_id i = bind_prog (query (\<lambda>t s. find (\<lambda>b. bt_id b = i) (board s))) (\<lambda>exact. case exact of
      Some b \<Rightarrow> Ret (Some (bt_id b))
    | None \<Rightarrow> if 6 \<le> length i \<and> length i < 36
        then bind_prog (query (\<lambda>t s. map bt_id (filter (\<lambda>b. like (i @ ''%'') (bt_id b)) (board s)))) (\<lambda>ids.
          Ret (case ids of [j] \<Rightarrow> Some j | _ \<Rightarrow> None))
        else Ret None)"

definition board_statuses :: "string list" where
  "board_statuses = [''open'', ''running'', ''verifying'', ''done'', ''blocked'', ''failed'', ''skipped'']"

text \<open>\<open>into_board_task\<close>: an unknown status reads as open.\<close>

definition into_board_task :: "board_row \<Rightarrow> board_row" where
  "into_board_task b = (if bt_status b \<in> set board_statuses then b else b\<lparr> bt_status := ''open'' \<rparr>)"

definition get_board_task :: "string \<Rightarrow> board_row option kprog" where
  "get_board_task i = bind_prog (resolve_board_task_id i) (\<lambda>full. case full of
      None \<Rightarrow> Ret None
    | Some j \<Rightarrow> query (\<lambda>t s. map_option into_board_task (find (\<lambda>b. bt_id b = j) (board s))))"

subsection \<open>Status\<close>

definition has_evidence :: "string \<Rightarrow> string \<Rightarrow> result_row \<Rightarrow> bool" where
  "has_evidence task h r \<longleftrightarrow> ra_task r = task \<and> ra_hash r = h \<and> is_completed_result_status (ra_status r)"

definition evidence_exists :: "string \<Rightarrow> string \<Rightarrow> bool kprog" where
  "evidence_exists task h = query (\<lambda>t s. list_ex (has_evidence task h) (results s))"

definition require_task_completion_evidence :: "string \<Rightarrow> string option \<Rightarrow> unit kprog" where
  "require_task_completion_evidence task h = (case non_blank h of
      None \<Rightarrow> Err (EvidenceRequired task)
    | Some v \<Rightarrow> bind_prog (evidence_exists task v) (\<lambda>found. if found then Ret () else Err (EvidenceRequired task)))"

text \<open>\<open>update_board_task\<close> with the two fields its caller in the kernel sets.\<close>

definition set_status :: "string \<Rightarrow> string \<Rightarrow> board_row \<Rightarrow> board_row" where
  "set_status now st b = (let c = b\<lparr> bt_updated := now, bt_status := st \<rparr> in
     if st \<noteq> ''running'' then c\<lparr> bt_executor := None, bt_executor_kind := None, bt_claimed := None \<rparr> else c)"

definition update_board_task :: "kernel_env \<Rightarrow> string \<Rightarrow> string \<Rightarrow> string option \<Rightarrow> board_row option kprog" where
  "update_board_task env i status h = bind_prog (resolve_board_task_id i) (\<lambda>full. case full of
      None \<Rightarrow> Ret None
    | Some j \<Rightarrow> bind_prog (observe in_app_now) (\<lambda>now.
        then_prog (if to_lower status = ''done'' then require_task_completion_evidence j h else Ret ())
        (then_prog (exec (\<lambda>t s. (Inr (), s\<lparr> board := update_where (\<lambda>b. bt_id b = j) (set_status (rfc3339 env now) status) (board s) \<rparr>)))
        (get_board_task j))))"

definition add_board_task_note :: "string \<Rightarrow> string \<Rightarrow> string \<Rightarrow> string \<Rightarrow> note_row kprog" where
  "add_board_task_note task content ty author = bind_prog (query (\<lambda>t s. list_ex (\<lambda>b. bt_id b = task) (board s))) (\<lambda>exists.
     if \<not> exists then Err (NotFound ''board_task'' task)
     else exec (\<lambda>t s. let n = \<lparr> bn_id = in_uuid t, bn_task = task, bn_content = content,
          bn_type = (if ty \<in> {''progress'', ''summary'', ''note''} then ty else ''note''), bn_author = Some author \<rparr> in
        if bn_id n \<in> bn_id ` set (board_notes s) then (Inl ''board_task_notes_pkey'', s)
        else if \<not> list_ex (\<lambda>b. bt_id b = task) (board s) then (Inl ''board_task_notes_task_id_fkey'', s)
        else (Inr n, s\<lparr> board_notes := board_notes s @ [n] \<rparr>)))"

subsection \<open>Claims on a task\<close>

definition board_claim :: "instant \<Rightarrow> string \<Rightarrow> string \<Rightarrow> string \<Rightarrow> lease_row" where
  "board_claim t task executor kind = \<lparr> wl_id = in_uuid t, wl_project = None, wl_task = Some task, wl_holder = executor,
     wl_holder_kind = kind, wl_scope_kind = ''board_task'', wl_scope_key = task, wl_status = LActive, wl_acquired = in_db_now t,
     wl_expires = in_app_now t + 1800000000, wl_released = None, wl_heartbeat = Some (in_db_now t),
     wl_metadata = JObject [(''source'', JString ''board.claim''), (''projection'', JString ''board_tasks'')] \<rparr>"

definition board_claimed :: "kernel_env \<Rightarrow> instant \<Rightarrow> string \<Rightarrow> string \<Rightarrow> board_row \<Rightarrow> board_row" where
  "board_claimed env t executor kind b = b\<lparr> bt_executor := Some executor, bt_executor_kind := Some kind,
     bt_claimed := Some (pg_text env (in_app_now t)), bt_lease := Some (pg_text env (in_app_now t + 1800000000)),
     bt_status := ''running'', bt_updated := pg_text env (in_app_now t) \<rparr>"

datatype board_outcome = Conflict "string option" "string option" | NoTask | Claimed

definition claim_board_tx :: "kernel_env \<Rightarrow> string \<Rightarrow> string \<Rightarrow> string \<Rightarrow> board_outcome kprog" where
  "claim_board_tx env task executor kind = exec (\<lambda>t s. let now = in_db_now t; here = lease_at ''board_task'' task;
       ls = update_where (\<lambda>l. here l \<and> wl_expires l < now) lease_expire (leases s); s1 = s\<lparr> leases := ls \<rparr> in
     case newest (\<lambda>l. - wl_acquired l) (filter (\<lambda>l. here l \<and> now \<le> wl_expires l) ls) of
       Some l \<Rightarrow> (Inr (Conflict (Some (wl_holder l)) (Some (pg_text env (wl_expires l)))), s1)
     | None \<Rightarrow> (case find (\<lambda>b. bt_id b = task) (board s) of
         None \<Rightarrow> (Inr NoTask, s1)
       | Some b \<Rightarrow> if bt_status b \<noteq> ''open'' \<and> bt_status b \<noteq> ''running'' then (Inr (Conflict (Some (bt_status b)) None), s1)
           else if in_uuid t \<in> wl_id ` set ls then (Inl ''work_leases_pkey'', s)
           else if list_ex here ls then (Inl ''uq_work_leases_active_scope'', s)
           else (Inr Claimed, s\<lparr> leases := ls @ [board_claim t task executor kind],
             board := update_where (\<lambda>b. bt_id b = task) (board_claimed env t executor kind) (board s) \<rparr>)))"

definition claim_board_task :: "kernel_env \<Rightarrow> string \<Rightarrow> string \<Rightarrow> string \<Rightarrow> board_row option kprog" where
  "claim_board_task env i executor kind = bind_prog (resolve_board_task_id i) (\<lambda>full. case full of
      None \<Rightarrow> Ret None
    | Some j \<Rightarrow> bind_prog (claim_board_tx env j executor kind) (\<lambda>r. case r of
        Conflict holder expires \<Rightarrow> Err (ClaimConflict ''board_task'' j holder expires)
      | NoTask \<Rightarrow> Ret None
      | Claimed \<Rightarrow> get_board_task j))"

definition unclaimed :: "string \<Rightarrow> string \<Rightarrow> board_row \<Rightarrow> board_row" where
  "unclaimed st now b = b\<lparr> bt_status := st, bt_executor := None, bt_executor_kind := None, bt_claimed := None, bt_lease := None,
     bt_updated := now \<rparr>"

definition fail_board_task_and_release_claim :: "kernel_env \<Rightarrow> string \<Rightarrow> board_row option kprog" where
  "fail_board_task_and_release_claim env i = bind_prog (resolve_board_task_id i) (\<lambda>full. case full of
      None \<Rightarrow> Ret None
    | Some j \<Rightarrow> bind_prog (exec (\<lambda>t s. if \<not> list_ex (\<lambda>b. bt_id b = j) (board s) then (Inr False, s)
          else (Inr True, s\<lparr> leases := update_where (\<lambda>l. lease_active l \<and> wl_scope_kind l = ''board_task'' \<and>
               (wl_scope_key l = j \<or> wl_task l = Some j)) (set_released t) (leases s),
             board := update_where (\<lambda>b. bt_id b = j) (unclaimed ''failed'' (pg_text env (in_app_now t))) (board s) \<rparr>)))
        (\<lambda>found. if found then get_board_task j else Ret None))"

definition release_board_claims_by_executor :: "kernel_env \<Rightarrow> string \<Rightarrow> nat kprog" where
  "release_board_claims_by_executor env executor = exec (\<lambda>t s. let
       c = (\<lambda>b. bt_executor b = Some executor \<and> bt_status b = ''running'') in
     (Inr (rows_affected c (board s)), s\<lparr> leases := update_where (\<lambda>l. lease_active l \<and> wl_holder l = executor \<and>
          wl_scope_kind l = ''board_task'') (set_released t) (leases s),
        board := update_where c (unclaimed ''open'' (rfc3339 env (in_app_now t))) (board s) \<rparr>))"

text \<open>The first update of the recovery compares two texts; the second one parses \<open>updated_at\<close>, and a text
  that does not parse fails the transaction. \<open>epoch\<close> stands for the cast \<open>::timestamp\<close>, in microseconds.\<close>

definition board_lease_live :: "lease_row list \<Rightarrow> int \<Rightarrow> string \<Rightarrow> bool" where
  "board_lease_live ls now i \<longleftrightarrow> list_ex (\<lambda>l. lease_at ''board_task'' i l \<and> now \<le> wl_expires l) ls"

definition lease_looks_stale :: "lease_row list \<Rightarrow> int \<Rightarrow> string \<Rightarrow> board_row \<Rightarrow> bool" where
  "lease_looks_stale ls now now_text b \<longleftrightarrow> bt_status b = ''running'' \<and>
     ((case bt_lease b of Some x \<Rightarrow> x < now_text | None \<Rightarrow> False) \<or> \<not> board_lease_live ls now (bt_id b))"

definition fallback_stale :: "(string \<Rightarrow> int option) \<Rightarrow> int \<Rightarrow> int \<Rightarrow> board_row \<Rightarrow> bool" where
  "fallback_stale epoch now secs b \<longleftrightarrow> bt_status b = ''running'' \<and> bt_lease b = None \<and>
     (case epoch (bt_updated b) of Some u \<Rightarrow> unwrap_or (bt_timeout b) secs * 1000000 < now - u | None \<Rightarrow> False)"

definition recover_stale_running_tasks :: "kernel_env \<Rightarrow> (string \<Rightarrow> int option) \<Rightarrow> int \<Rightarrow> nat kprog" where
  "recover_stale_running_tasks env epoch minutes = bind_prog (observe in_app_now) (\<lambda>app. exec (\<lambda>t s. let
       now = in_db_now t; text = rfc3339 env app;
       ls = update_where (\<lambda>l. lease_active l \<and> wl_scope_kind l = ''board_task'' \<and> wl_expires l < now) lease_expire (leases s);
       c1 = lease_looks_stale ls now text; bs = update_where c1 (unclaimed ''open'' text) (board s);
       c2 = fallback_stale epoch now (minutes * 60) in
     if list_ex (\<lambda>b. bt_status b = ''running'' \<and> bt_lease b = None \<and> epoch (bt_updated b) = None) bs
     then (Inl ''invalid input syntax for type timestamp'', s)
     else (Inr (rows_affected c1 (board s) + rows_affected c2 bs),
       s\<lparr> leases := ls, board := update_where c2 (\<lambda>b. unclaimed ''open'' text b) bs \<rparr>)))"

definition set_board_task_lease :: "kernel_env \<Rightarrow> string \<Rightarrow> int \<Rightarrow> nat kprog" where
  "set_board_task_lease env task d = exec (\<lambda>t s. let c = (\<lambda>b. bt_id b = task \<and> bt_status b = ''running'') in
     (Inr (rows_affected c (board s)), s\<lparr> leases := update_where (\<lambda>l. lease_active l \<and> wl_task l = Some task \<and>
          wl_scope_kind l = ''board_task'') (set_deadline d t) (leases s),
        board := update_where c (\<lambda>b. b\<lparr> bt_lease := Some (pg_text env d), bt_updated := pg_text env (in_db_now t) \<rparr>) (board s) \<rparr>))"

definition release_board_leases :: "instant \<Rightarrow> string \<Rightarrow> lease_row list \<Rightarrow> lease_row list" where
  "release_board_leases t task = update_where (\<lambda>l. lease_active l \<and> wl_task l = Some task \<and> wl_scope_kind l = ''board_task'') (set_released t)"

definition increment_board_task_retry :: "kernel_env \<Rightarrow> string \<Rightarrow> int \<Rightarrow> unit kprog" where
  "increment_board_task_retry env task n = exec (\<lambda>t s. (Inr (), s\<lparr> leases := release_board_leases t task (leases s),
     board := update_where (\<lambda>b. bt_id b = task) (\<lambda>b. unclaimed ''open'' (rfc3339 env (in_app_now t)) (b\<lparr> bt_retries := n \<rparr>)) (board s) \<rparr>))"

definition unclaim_board_task :: "kernel_env \<Rightarrow> string \<Rightarrow> unit kprog" where
  "unclaim_board_task env task = exec (\<lambda>t s. (Inr (), s\<lparr> leases := release_board_leases t task (leases s),
     board := update_where (\<lambda>b. bt_id b = task) (unclaimed ''open'' (rfc3339 env (in_app_now t))) (board s) \<rparr>))"

definition clear_board_task_assignee :: "kernel_env \<Rightarrow> string \<Rightarrow> string \<Rightarrow> nat kprog" where
  "clear_board_task_assignee env i expected = bind_prog (resolve_board_task_id i) (\<lambda>full. case full of
      None \<Rightarrow> Ret 0
    | Some j \<Rightarrow> exec (\<lambda>t s. let c = (\<lambda>b. bt_id b = j \<and> bt_status b = ''open'' \<and> bt_assignee b = Some expected) in
        (Inr (rows_affected c (board s)), s\<lparr> board := update_where c (\<lambda>b. b\<lparr> bt_assignee := None,
           bt_updated := rfc3339 env (in_app_now t) \<rparr>) (board s) \<rparr>)))"

text \<open>Toggling opens a task that is done; any other is refused.\<close>

definition toggle_board_task :: "kernel_env \<Rightarrow> string \<Rightarrow> board_row option kprog" where
  "toggle_board_task env i = bind_prog (get_board_task i) (\<lambda>found. case found of
      None \<Rightarrow> Ret None
    | Some b \<Rightarrow> if bt_status b \<noteq> ''done'' then Err (EvidenceRequired (bt_id b)) else update_board_task env i ''open'' None)"

subsection \<open>What the operations keep\<close>

lemma kdb_board: "kdb_ok s \<Longrightarrow> board_ok (results s) (board s)"
  by (simp add: kdb_ok_def)

lemma board_ok_update:
  assumes "board_ok rs bs" "\<And>b. c b \<Longrightarrow> bt_status (f b) = ''done'' \<Longrightarrow> evidenced rs (bt_id (f b)) \<or> bt_status b = ''done'' \<and> bt_id (f b) = bt_id b"
  shows "board_ok rs (update_where c f bs)"
  using assms by (fastforce simp: board_ok_def)

lemma board_fields [simp]:
  "bt_id (unclaimed st now b) = bt_id b" "bt_status (unclaimed st now b) = st" "bt_id (board_claimed env t e k b) = bt_id b"
  "bt_status (board_claimed env t e k b) = ''running''" "bt_id (set_status now st b) = bt_id b" "bt_status (set_status now st b) = st"
  by (simp_all add: unclaimed_def board_claimed_def set_status_def Let_def)

lemma safe_board_update:
  assumes "\<And>t b. bt_id (f t b) = bt_id b" "\<And>t b. c t b \<Longrightarrow> bt_status (f t b) = ''done'' \<Longrightarrow> bt_status b = ''done''"
  shows "safe (exec (\<lambda>t s. (g t s, s\<lparr> board := update_where (c t) (f t) (board s) \<rparr>)))"
  by (rule safe_exec) (simp add: board_ok_update kdb_board assms)

lemma lease_kept_active:
  "lease_active l \<Longrightarrow> lease_kept l (lease_expire l)" "lease_active l \<Longrightarrow> lease_kept l (set_released t l)"
  "lease_active l \<Longrightarrow> lease_kept l (set_deadline d t l)"
  by (rule lease_step_kept, assumption)+

lemma both_kept:
  assumes "kdb_ok s" "\<And>l. wl_id (f l) = wl_id l" "\<And>l. lease_scope (f l) = lease_scope l" "\<And>l. c l \<Longrightarrow> lease_active l"
    "\<And>l. lease_active l \<Longrightarrow> lease_kept l (f l)" "board_ok (results s) bs"
  shows "kept_ok s (s\<lparr> leases := update_where c f (leases s), board := bs \<rparr>)"
  using assms by (auto simp: kdb_leases intro!: leases_ok_update rows_kept_update dest: assms(4))

lemma safe_both:
  assumes "\<And>t l. wl_id (f t l) = wl_id l" "\<And>t l. lease_scope (f t l) = lease_scope l" "\<And>t l. c t l \<Longrightarrow> lease_active l"
    "\<And>t l. lease_active l \<Longrightarrow> lease_kept l (f t l)" "\<And>t b. bt_id (h t b) = bt_id b"
    "\<And>t b. d t b \<Longrightarrow> bt_status (h t b) = ''done'' \<Longrightarrow> bt_status b = ''done''"
  shows "safe (exec (\<lambda>t s. (g t s, s\<lparr> leases := update_where (c t) (f t) (leases s), board := update_where (d t) (h t) (board s) \<rparr>)))"
proof (rule safe_exec)
  fix t s
  assume s: "kdb_ok s"
  have "board_ok (results s) (update_where (d t) (h t) (board s))"
    by (rule board_ok_update[OF kdb_board[OF s]]) (simp add: assms(5,6))
  from both_kept[OF s assms(1,2) assms(3) assms(4) this]
  show "kept_ok s (snd (g t s, s\<lparr> leases := update_where (c t) (f t) (leases s), board := update_where (d t) (h t) (board s) \<rparr>))"
    by simp
qed

lemma safe_resolve [safe_intros]: "safe (resolve_board_task_id i)"
  unfolding resolve_board_task_id_def by (intro safe_intros)

lemma safe_get [safe_intros]: "safe (get_board_task i)"
  unfolding get_board_task_def by (intro safe_intros)

lemma safe_evidence [safe_intros]: "safe (evidence_exists i h)" "safe (require_task_completion_evidence i h')"
  unfolding evidence_exists_def require_task_completion_evidence_def by (intro safe_intros)+

lemma safe_note [safe_intros]: "safe (add_board_task_note a b c d)"
  unfolding add_board_task_note_def Let_def by (intro safe_intros) auto

lemma sat_evidence: "sat (\<lambda>s. True) (evidence_exists i h) (\<lambda>b s. b \<longrightarrow> (\<exists>r \<in> set (results s). has_evidence i h r))"
proof -
  have "result_kept r q \<Longrightarrow> has_evidence i h r \<Longrightarrow> has_evidence i h q" for r q
    by (auto simp: result_kept_def has_evidence_def)
  then show ?thesis unfolding evidence_exists_def by (intro sat_query lasting) (auto simp: list_ex_iff)
qed

lemma evidence_gives: "\<exists>r \<in> set rs. has_evidence i h r \<Longrightarrow> evidenced rs i"
  by (auto simp: has_evidence_def evidenced_def)

lemma sat_require_evidence: "sat (\<lambda>s. True) (require_task_completion_evidence i h) (\<lambda>_ s. evidenced (results s) i)"
proof (cases "non_blank h")
  case None
  then show ?thesis by (simp add: require_task_completion_evidence_def)
next
  case (Some v)
  have "sat (\<lambda>s. True) (evidence_exists i v) (\<lambda>b s. b \<longrightarrow> evidenced (results s) i)"
    by (rule sat_post[OF sat_evidence]) (auto intro: evidence_gives)
  then show ?thesis unfolding require_task_completion_evidence_def Some option.case
    by (rule sat_bind) (auto intro!: lasting sat_Ret)
qed

lemma safe_update_board_task [safe_intros]: "safe (update_board_task env i st h)"
proof -
  have main: "safe (then_prog (if to_lower st = ''done'' then require_task_completion_evidence j h else Ret ())
      (then_prog (exec (\<lambda>t s. (Inr (), s\<lparr> board := update_where (\<lambda>b. bt_id b = j) (set_status (rfc3339 env now) st) (board s) \<rparr>)))
      (get_board_task j)))" for j now
  proof -
    let ?w = "exec (\<lambda>t s. (Inr (), s\<lparr> board := update_where (\<lambda>b. bt_id b = j) (set_status (rfc3339 env now) st) (board s) \<rparr>)) :: unit kprog"
    have "sat (\<lambda>s. st = ''done'' \<longrightarrow> evidenced (results s) j) ?w (\<lambda>_ _. True)"
      by (rule sat_exec) (auto intro!: lasting board_ok_update kdb_board)
    from sat_then[OF this lasts_const] have w: "sat (\<lambda>s. st = ''done'' \<longrightarrow> evidenced (results s) j) (then_prog ?w (get_board_task j)) (\<lambda>_ _. True)"
      using safe_get[of j] by (simp add: safe_def)
    have e: "sat (\<lambda>s. True) (if to_lower st = ''done'' then require_task_completion_evidence j h else Ret ())
        (\<lambda>_ s. st = ''done'' \<longrightarrow> evidenced (results s) j)"
    proof (cases "to_lower st = ''done''")
      case True
      then show ?thesis using sat_post[OF sat_require_evidence] by auto
    next
      case False
      then have "st \<noteq> ''done''" by (auto simp: to_lower_def lower_char_def)
      with False show ?thesis by (auto intro: sat_Ret)
    qed
    show ?thesis unfolding safe_def by (rule sat_then[OF e _ w]) (intro lasting)
  qed
  show ?thesis unfolding update_board_task_def
    by (rule safe_bind[OF safe_resolve] safe_option safe_end safe_bind[OF safe_observe] main)+
qed

lemma safe_toggle [safe_intros]: "safe (toggle_board_task env i)"
  unfolding toggle_board_task_def by (intro safe_intros)

lemma safe_claim_board_tx [safe_intros]: "safe (claim_board_tx env task executor kind)"
  unfolding claim_board_tx_def Let_def
proof (rule safe_exec)
  fix t :: instant and s
  assume s: "kdb_ok s"
  let ?here = "lease_at ''board_task'' task"
  let ?ls = "update_where (\<lambda>l. ?here l \<and> wl_expires l < in_db_now t) lease_expire (leases s)"
  have k: "kept_ok s (s\<lparr> leases := ?ls \<rparr>)"
    using s by (auto simp: kdb_leases lease_at_def intro!: leases_ok_update rows_kept_update lease_step_kept)
  have l: "leases_ok (?ls @ [board_claim t task executor kind])" if "in_uuid t \<notin> wl_id ` set ?ls" "\<not> list_ex ?here ?ls"
    using k s that by (intro leases_ok_snoc) (auto simp: board_claim_def)
  have r: "rows_kept lease_kept (leases s) (?ls @ [b])" for b
    using k s by (auto intro: rows_kept_trans[OF kept_trans(2)])
  have b: "board_ok (results s) (update_where (\<lambda>b. bt_id b = task) (board_claimed env t executor kind) (board s))"
    by (rule board_ok_update[OF kdb_board[OF s]]) simp
  show "kept_ok s (snd (case newest (\<lambda>l. - wl_acquired l) (filter (\<lambda>l. ?here l \<and> in_db_now t \<le> wl_expires l) ?ls) of
      None \<Rightarrow> (case find (\<lambda>b. bt_id b = task) (board s) of None \<Rightarrow> (Inr NoTask, s\<lparr> leases := ?ls \<rparr>)
        | Some b \<Rightarrow> if bt_status b \<noteq> ''open'' \<and> bt_status b \<noteq> ''running'' then (Inr (Conflict (Some (bt_status b)) None), s\<lparr> leases := ?ls \<rparr>)
            else if in_uuid t \<in> wl_id ` set ?ls then (Inl ''work_leases_pkey'', s)
            else if list_ex ?here ?ls then (Inl ''uq_work_leases_active_scope'', s)
            else (Inr Claimed, s\<lparr> leases := ?ls @ [board_claim t task executor kind],
               board := update_where (\<lambda>b. bt_id b = task) (board_claimed env t executor kind) (board s) \<rparr>))
    | Some l \<Rightarrow> (Inr (Conflict (Some (wl_holder l)) (Some (pg_text env (wl_expires l)))), s\<lparr> leases := ?ls \<rparr>)))"
    using s k l r b by (simp split: option.splits if_splits del: kept_ok_leases)
qed

lemma safe_claim_board [safe_intros]: "safe (claim_board_task env i e k)"
  unfolding claim_board_task_def by (intro safe_intros; split board_outcome.splits; auto intro!: safe_intros)

lemma safe_release_executor [safe_intros]: "safe (release_board_claims_by_executor env e)"
  unfolding release_board_claims_by_executor_def Let_def by (rule safe_both) (simp_all add: lease_kept_active)

lemma safe_fail_board [safe_intros]: "safe (fail_board_task_and_release_claim env i)"
  unfolding fail_board_task_and_release_claim_def
  by (intro safe_intros) (auto intro!: both_kept board_ok_update kdb_board lease_kept_active simp del: kept_ok_board)

lemma safe_recover [safe_intros]: "safe (recover_stale_running_tasks env epoch m)"
  unfolding recover_stale_running_tasks_def Let_def
  by (intro safe_intros) (auto intro!: both_kept board_ok_update kdb_board lease_kept_active simp del: kept_ok_board)

lemma safe_set_lease [safe_intros]: "safe (set_board_task_lease env task d)"
  unfolding set_board_task_lease_def Let_def by (rule safe_both) (simp_all add: lease_kept_active)

lemma safe_retry [safe_intros]: "safe (increment_board_task_retry env task n)" "safe (unclaim_board_task env task)"
  unfolding increment_board_task_retry_def unclaim_board_task_def release_board_leases_def
  by (rule safe_both; simp add: lease_kept_active)+

lemma safe_clear_assignee [safe_intros]: "safe (clear_board_task_assignee env i e)"
  unfolding clear_board_task_assignee_def Let_def by (intro safe_intros safe_board_update) auto

end
