(* ===== verification/Kernel_Settle.thy ===== *)
theory Kernel_Settle
  imports Kernel_Board
begin

text \<open>
  Settling a task (\<open>engine/shared_memory.rs\<close>): \<open>worker_settle\<close> with its capability, its evidence, the
  consumption of the grant, the release of the worker's leases and the move of the board task; and the
  completion of a task by the system itself (\<open>engine/control_plane_kernel.rs\<close>,
  \<open>engine/task_completion_evidence.rs\<close>). The 20 second limit on writing the artifact is not modelled: it
  ends the handler between two statements, as does a handler that is never scheduled again.
\<close>

subsection \<open>Settling the board task\<close>

definition conv_completed :: "string \<Rightarrow> string option \<Rightarrow> string \<Rightarrow> conv_row \<Rightarrow> conv_row" where
  "conv_completed task slot now c = c\<lparr> cv_task := or_else (cv_task c) (Some task), cv_slot := or_else (cv_slot c) slot,
     cv_status := Some ''completed'', cv_ended := or_else (cv_ended c) (Some now), cv_type := ''worker'' \<rparr>"

definition mark_worker_conversation_completed :: "kernel_env \<Rightarrow> string \<Rightarrow> string option \<Rightarrow> string option \<Rightarrow> nat kprog" where
  "mark_worker_conversation_completed env task conversation slot = bind_prog (observe in_app_now) (\<lambda>app. let now = rfc3339 env app in
     exec (\<lambda>t s. case conversation of
        Some i \<Rightarrow> let c = (\<lambda>c. cv_id c = i) in
          (Inr (rows_affected c (convs s)), s\<lparr> convs := update_where c (conv_completed task slot now) (convs s) \<rparr>)
      | None \<Rightarrow> let c = (\<lambda>c. cv_task c = Some task \<and> cv_status c \<noteq> None \<and> cv_status c \<noteq> Some ''completed'') in
          (Inr (rows_affected c (convs s)), s\<lparr> convs := update_where c (\<lambda>c. c\<lparr> cv_status := Some ''completed'',
             cv_ended := or_else (cv_ended c) (Some now), cv_type := ''worker'' \<rparr>) (convs s) \<rparr>)))"

definition settle_agent :: string where
  "settle_agent = ''missiond.worker-completion-settle''"

definition terminal_event :: "string \<Rightarrow> (string \<times> string) option" where
  "terminal_event status = map_of [(''done'', ''job.completed'', ''completed''), (''completed'', ''job.completed'', ''completed''),
     (''failed'', ''job.failed'', ''failed''), (''blocked'', ''job.blocked'', ''blocked''), (''skipped'', ''job.blocked'', ''skipped'')]
     (to_lower status)"

definition missing_hash :: "string \<Rightarrow> kerr" where
  "missing_hash task = Control EVIDENCE_REQUIRED (''BoardTask '' @ task @ '' done requires a canonical completed task-result-artifact hash'')
     (JObject [(''task_id'', JString task), (''required'', JString ''artifact_hash'')])"

definition wrong_hash :: "string \<Rightarrow> string \<Rightarrow> kerr" where
  "wrong_hash task h = Control EVIDENCE_REQUIRED
     (''artifact_hash '' @ h @ '' is not a completed task-result-artifact for task '' @ task)
     (JObject [(''task_id'', JString task), (''artifact_hash'', JString h)])"

definition check_settle_evidence :: "string \<Rightarrow> string \<Rightarrow> string option \<Rightarrow> unit kprog" where
  "check_settle_evidence task status hash = (if to_lower status = ''done'' then
     (case hash of None \<Rightarrow> Err (missing_hash task)
      | Some h \<Rightarrow> bind_prog (evidence_exists task h) (\<lambda>found. if found then Ret () else Err (wrong_hash task h)))
     else Ret ())"

definition announce_task :: "string option \<Rightarrow> board_row option \<Rightarrow> unit kprog" where
  "announce_task old updated = (case updated of None \<Rightarrow> Ret ()
    | Some b \<Rightarrow> if old \<noteq> Some (bt_status b)
        then then_prog (publish (StatusChanged (bt_id b) (unwrap_or old ''unknown'') (bt_status b)))
          (if bt_status b = ''done'' then publish (TaskCompleted (bt_id b)) else Ret ())
        else publish (BoardUpdated (bt_id b) (bt_status b) (bt_category b)))"

definition settle_note :: "string \<Rightarrow> string option \<Rightarrow> string" where
  "settle_note summary hash = (case hash of None \<Rightarrow> summary
    | Some h \<Rightarrow> summary @ [CHR 0x0A, CHR 0x0A] @ ''task_result_artifact: '' @ h)"

definition settle_board_task :: "kernel_env \<Rightarrow> string \<Rightarrow> string \<Rightarrow> string option \<Rightarrow> string \<Rightarrow> json kprog" where
  "settle_board_task env task status hash summary = then_prog (check_settle_evidence task status hash)
     (bind_prog (get_board_task task) (\<lambda>old. let project = Option.bind old bt_project in
      bind_prog (record_control_plane_event env project task ''settle.requested'' settle_agent
         (JObject [(''schema'', JString ''missiond.settle-requested.v1''), (''target_status'', JString status), (''artifact_hash'', j_opt hash),
           (''summary'', JString summary)]) None hash) (\<lambda>_.
      bind_prog (update_board_task env task status hash) (\<lambda>updated. let
         projected = (case updated of Some b \<Rightarrow> bt_status b | None \<Rightarrow> status) in
      bind_prog (case terminal_event status of
          None \<Rightarrow> Ret None
        | Some (kind, state) \<Rightarrow> bind_prog (record_control_plane_event env (or_else (Option.bind updated bt_project) project) task kind settle_agent
            (JObject [(''schema'', JString ''missiond.job-terminal.v1''), (''target_status'', JString status), (''artifact_hash'', j_opt hash),
              (''summary'', JString summary)]) (Some state) hash) (\<lambda>j. Ret (Some j))) (\<lambda>job.
      then_prog (project_board_task_view task job projected hash (JObject [(''schema'', JString ''missiond.board-task-view.v1''),
          (''source'', JString ''job_state_machine''), (''projected_status'', JString projected), (''artifact_hash'', j_opt hash), (''summary'', JString summary)]))
      (bind_prog (attempt (add_board_task_note task (settle_note summary hash) ''summary'' settle_agent)) (\<lambda>note.
      then_prog (announce_task (map_option bt_status old) updated)
      (then_prog (case note of Inl _ \<Rightarrow> Ret () | Inr n \<Rightarrow> publish (NoteAdded task (bn_id n) (take 160 (settle_note summary hash))))
      (Ret (JObject [(''updated'', (case updated of None \<Rightarrow> JNull | Some b \<Rightarrow> JObject [(''id'', JString (bt_id b)), (''status'', JString (bt_status b)),
           (''title'', JString (bt_title b))])), (''note_id'', (case note of Inl _ \<Rightarrow> JNull | Inr n \<Rightarrow> JString (bn_id n)))]))))))))))"

subsection \<open>Settling a worker\<close>

record settle_request =
  sr_task :: string
  sr_project :: "string option"
  sr_slot :: "string option"
  sr_conversation :: "string option"
  sr_hash :: "string option"
  sr_status :: string
  sr_summary :: "string option"
  sr_grant :: "string option"
  sr_subject_kind :: string
  sr_subject_id :: string
  sr_attempt :: "string option"
  sr_bypass :: bool

definition settle_check :: "settle_request \<Rightarrow> task_contract \<Rightarrow> capability_check" where
  "settle_check req contract = \<lparr> cc_grant = sr_grant req, cc_subject_kind = sr_subject_kind req, cc_subject_id = sr_subject_id req,
     cc_operation = ''settle'', cc_scope_kind = ''task'', cc_scope_key = sr_task req, cc_task = Some (sr_task req), cc_bypass = sr_bypass req,
     cc_reason = Some ''worker_settle system/operator authority'',
     cc_details = JObject [(''artifact_hash'', j_opt (sr_hash req)), (''task_contract_id'', JString (rc_contract_id contract)),
       (''runtime_contract_grants'', j_strs (rc_grants contract))] \<rparr>"

definition artifact_attempt :: "string \<Rightarrow> string \<Rightarrow> string option kprog" where
  "artifact_attempt task h = query (\<lambda>t s. Option.bind (find (\<lambda>r. ra_task r = task \<and> ra_hash r = h) (results s)) ra_attempt)"

definition check_settle_attempt :: "settle_request \<Rightarrow> task_contract \<Rightarrow> unit kprog" where
  "check_settle_attempt req contract = (if to_lower (sr_status req) = ''done'' \<and> rc_write contract \<noteq> [] then
     (case sr_hash req of
        None \<Rightarrow> Err (Control EVIDENCE_REQUIRED (''worker_settle(done) for write-scoped task '' @ sr_task req @ '' requires artifact_hash'')
          (JObject [(''task_id'', JString (sr_task req)), (''required'', JString ''artifact_hash'')]))
      | Some h \<Rightarrow> bind_prog (artifact_attempt (sr_task req) h) (\<lambda>a.
          bind_prog (current_job_attempt_for_task (sr_task req)) (\<lambda>(job, current).
          of_res (validate_write_scoped_settle_attempt (sr_task req) h a current (sr_attempt req)))))
     else Ret ())"

definition finish_settle :: "kernel_env \<Rightarrow> settle_request \<Rightarrow> string \<Rightarrow> json kprog" where
  "finish_settle env req status = bind_prog (mark_worker_conversation_completed env (sr_task req) (sr_conversation req) (sr_slot req)) (\<lambda>rows.
     bind_prog (release_claims_for_task (sr_task req) (sr_slot req)) (\<lambda>released.
     bind_prog (settle_board_task env (sr_task req) status (sr_hash req) (unwrap_or (sr_summary req) ''Worker durable final settled.'')) (\<lambda>view.
     then_prog (case sr_slot req of None \<Rightarrow> Ret () | Some sl \<Rightarrow> publish (SlotBecameIdle sl))
     (bind_prog (append_event env (JObject [(''stream_id'', JString ''execution-control-plane''), (''event_kind'', JString ''worker_completion.settled''),
        (''project_id'', j_opt (sr_project req)), (''task_id'', JString (sr_task req)),
        (''agent_id'', JString (unwrap_or (or_else (sr_slot req) (sr_conversation req)) ''worker'')),
        (''idempotency_key'', JString (''worker-settle:'' @ sr_task req @ '':'' @ unwrap_or (sr_hash req) ''no-artifact'')),
        (''payload'', JObject [(''task_id'', JString (sr_task req)), (''slot_id'', j_opt (sr_slot req)), (''conversation_id'', j_opt (sr_conversation req)),
          (''artifact_hash'', j_opt (sr_hash req)), (''board'', view), (''conversation_rows_completed'', JInt (int rows)),
          (''released_claims'', JInt (int released))])])) (\<lambda>event.
     Ret (JObject [(''schema'', JString ''missiond.worker-completion-settle.v1''), (''ok'', JBool True), (''task_id'', JString (sr_task req)),
       (''artifact_hash'', j_opt (sr_hash req)), (''conversation_rows_completed'', JInt (int rows)), (''released_claims'', JInt (int released)),
       (''board'', view), (''event'', event)]))))))"

definition worker_settle :: "kernel_env \<Rightarrow> settle_request \<Rightarrow> json kprog" where
  "worker_settle env req = bind_prog (of_res (normalize_worker_settle_status (Some (sr_status req)))) (\<lambda>status.
     if to_lower status = ''done'' \<and> sr_hash req = None
     then Err (Control EVIDENCE_REQUIRED (''worker_settle(done) for task '' @ sr_task req @ '' requires artifact_hash'')
       (JObject [(''task_id'', JString (sr_task req)), (''required'', JString ''artifact_hash'')]))
     else bind_prog (task_runtime_contract (sr_task req)) (\<lambda>contract.
       bind_prog (require_capability (settle_check req contract)) (\<lambda>gid.
       then_prog (check_settle_attempt req contract)
       (then_prog (if to_lower status = ''done''
          then consume_capability_grant gid ''settle'' (sr_task req) (sr_subject_kind req) (sr_subject_id req) else Ret ())
       (finish_settle env req status)))))"

subsection \<open>Completion by the system\<close>

record evidence_input =
  ei_task :: string
  ei_project :: "string option"
  ei_slot :: "string option"
  ei_conversation :: "string option"
  ei_provider :: string
  ei_status :: string
  ei_summary :: string
  ei_content :: "string option"
  ei_json :: json
  ei_shard :: "string option"
  ei_attempt :: "string option"
  ei_grant :: "string option"
  ei_subject_kind :: "string option"
  ei_subject_id :: "string option"
  ei_confirm :: "bool option"
  ei_producer :: "json option"
  ei_raw :: "json option"
  ei_refs :: "json option"
  ei_created :: "string option"

definition j_opt_bool :: "bool option \<Rightarrow> json" where
  "j_opt_bool v = (case v of None \<Rightarrow> JNull | Some b \<Rightarrow> JBool b)"

definition default_subject_kind :: "string option \<Rightarrow> string option \<Rightarrow> string" where
  "default_subject_kind slot conversation = (if slot \<noteq> None then ''worker'' else if conversation \<noteq> None then ''conversation'' else ''task'')"

definition into_task_result_put_request :: "string \<Rightarrow> evidence_input \<Rightarrow> result_request" where
  "into_task_result_put_request now i = (let
     project = unwrap_or (ei_project i) ''missiond''; details = ei_json i;
     content = (case ei_content i of Some c \<Rightarrow> JString c | None \<Rightarrow> details);
     raw = unwrap_or (ei_raw i) (JObject [(''kind'', JString ''task_completion_evidence_input''), (''payload'', details)]);
     refs = (case unwrap_or (ei_refs i) (JArray [JObject [(''kind'', JString ''task_completion_evidence_input''), (''storage'', JString ''inline_raw_evidence'')]]) of
        JArray vs \<Rightarrow> vs | JNull \<Rightarrow> [] | v \<Rightarrow> [v]);
     sk = unwrap_or (ei_subject_kind i) (default_subject_kind (ei_slot i) (ei_conversation i));
     si = unwrap_or (or_else (ei_subject_id i) (or_else (ei_slot i) (ei_conversation i))) (ei_task i);
     producer = unwrap_or (ei_producer i) (JObject [(''kind'', JString ''worker-completion-producer''), (''provider'', JString (ei_provider i)),
        (''slot_id'', j_opt (ei_slot i)), (''conversation_id'', j_opt (ei_conversation i))]);
     created = unwrap_or (ei_created i) now
   in \<lparr> rr_task = ei_task i, rr_project = project, rr_slot = ei_slot i, rr_conversation = ei_conversation i, rr_provider = ei_provider i,
     rr_status = ei_status i, rr_summary = ei_summary i, rr_content = content, rr_details = details, rr_shard = ei_shard i,
     rr_attempt = ei_attempt i, rr_grant = ei_grant i, rr_subject_kind = sk, rr_subject_id = si, rr_producer = producer, rr_raw = Some raw,
     rr_refs = refs, rr_explicit = True, rr_created = created,
     rr_bypass = (sk = ''system'' \<or> sk = ''daemon'' \<or> sk = ''operator'' \<and> ei_confirm i = Some True),
     rr_args = JObject [(''task_id'', JString (ei_task i)), (''project_id'', JString project), (''slot_id'', j_opt (ei_slot i)),
       (''conversation_id'', j_opt (ei_conversation i)), (''provider'', JString (ei_provider i)), (''result_status'', JString (ei_status i)),
       (''summary'', JString (ei_summary i)), (''content'', content), (''json'', details), (''accepted_shard_id'', j_opt (ei_shard i)),
       (''attempt_id'', j_opt (ei_attempt i)), (''capability_grant_id'', j_opt (ei_grant i)), (''subject_kind'', JString sk),
       (''subject_id'', JString si), (''confirm'', j_opt_bool (ei_confirm i)), (''producer'', producer), (''raw_evidence'', raw),
       (''evidence_refs'', JArray refs), (''created_at'', JString created)] \<rparr>)"

definition evidence_write_failed :: "string \<Rightarrow> string \<Rightarrow> kerr" where
  "evidence_write_failed task m = Other (''COMPLETION_ARTIFACT_WRITE_FAILED: task_id='' @ task @ '': '' @ m)"

definition write_completion_artifact :: "kernel_env \<Rightarrow> evidence_input \<Rightarrow> (string \<times> json) kprog" where
  "write_completion_artifact env i = bind_prog (observe in_app_now) (\<lambda>now.
     bind_prog (attempt (task_result_put env (into_task_result_put_request (rfc3339 env now) i))) (\<lambda>r. case r of
        Inl e \<Rightarrow> Err (evidence_write_failed (ei_task i) (text_of_error e))
      | Inr v \<Rightarrow> (case Option.bind (j_get v ''artifact_hash'') as_str of
          None \<Rightarrow> Err (evidence_write_failed (ei_task i) ''task_result_put returned no artifact_hash'')
        | Some h \<Rightarrow> Ret (h, v))))"

definition settle_task :: "kernel_env \<Rightarrow> string \<Rightarrow> string \<Rightarrow> string \<Rightarrow> string \<Rightarrow> json kprog" where
  "settle_task env task h summary producer = worker_settle env \<lparr> sr_task = task, sr_project = None, sr_slot = Some producer,
     sr_conversation = None, sr_hash = Some h, sr_status = ''done'', sr_summary = Some summary, sr_grant = None, sr_subject_kind = ''system'',
     sr_subject_id = producer, sr_attempt = None, sr_bypass = True \<rparr>"

record system_completion =
  sy_task :: string
  sy_project :: "string option"
  sy_producer :: string
  sy_summary :: string
  sy_content :: "string option"
  sy_raw :: json
  sy_refs :: "json list"
  sy_status :: string
  sy_metadata :: json

definition system_contract :: "string \<Rightarrow> string \<Rightarrow> json" where
  "system_contract task project = JObject [(''schema'', JString ''missiond.runtime-task-metadata.v1''), (''source'', JString ''control-plane-kernel''),
     (''task_contract_id'', JString (''board-task:'' @ task)),
     (''dispatch_metadata'', JObject [(''project_id'', JString project), (''task_id'', JString task), (''read_scope'', JArray []),
        (''write_scope'', JArray []), (''must_not_touch'', JArray []), (''control_state'', JString ''task_contracts''), (''authority'', JString ''system'')]),
     (''sandbox_profile'', JString ''system-no-sandbox'')]"

definition complete_system_task :: "kernel_env \<Rightarrow> system_completion \<Rightarrow> json kprog" where
  "complete_system_task env i = bind_prog (get_board_task (sy_task i)) (\<lambda>found. case found of
      None \<Rightarrow> Err (Other (''BoardTask '' @ sy_task i @ '' not found''))
    | Some b \<Rightarrow> let project = unwrap_or (or_else (sy_project i) (bt_project b)) ''missiond'' in
        then_prog (ensure_task_contract_from_metadata (sy_task i) (Some project) (system_contract (sy_task i) project))
        (bind_prog (observe in_app_now) (\<lambda>app. let created = rfc3339 env app;
           refs = (if sy_refs i = [] then [JObject [(''kind'', JString ''system_fact''), (''producer_id'', JString (sy_producer i)), (''created_at'', JString created)]]
             else sy_refs i) in
         bind_prog (write_completion_artifact env \<lparr> ei_task = sy_task i, ei_project = Some project, ei_slot = None, ei_conversation = None,
           ei_provider = sy_producer i, ei_status = sy_status i, ei_summary = sy_summary i,
           ei_content = or_else (sy_content i) (Some (sy_summary i)), ei_json = sy_metadata i, ei_shard = None, ei_attempt = None, ei_grant = None,
           ei_subject_kind = Some ''system'', ei_subject_id = Some (sy_producer i), ei_confirm = Some True,
           ei_producer = Some (JObject [(''kind'', JString ''system''), (''id'', JString (sy_producer i)), (''created_at'', JString created),
             (''source'', JString ''control-plane-kernel'')]),
           ei_raw = Some (sy_raw i), ei_refs = Some (JArray refs), ei_created = Some created \<rparr>) (\<lambda>(h, artifact).
         bind_prog (settle_task env (sy_task i) h (sy_summary i) (sy_producer i)) (\<lambda>settle.
         Ret (JObject [(''schema'', JString ''missiond.control-plane-kernel.system-completion.v1''), (''ok'', JBool True), (''task_id'', JString (sy_task i)),
           (''artifact_hash'', JString h), (''artifact'', artifact), (''settle'', settle)]))))))"

subsection \<open>What the operations keep\<close>

lemma safe_conv [safe_intros]: "safe (mark_worker_conversation_completed env a b c)"
  unfolding mark_worker_conversation_completed_def Let_def by (intro safe_intros) (auto split: option.splits)

lemma safe_settle_evidence [safe_intros]: "safe (check_settle_evidence a b c)"
  unfolding check_settle_evidence_def by (intro safe_intros)

lemma safe_announce [safe_intros]: "safe (announce_task a b)"
  unfolding announce_task_def by (intro safe_intros)

lemma safe_settle_board [safe_intros]: "safe (settle_board_task env a b c d)"
  unfolding settle_board_task_def Let_def by (intro safe_intros)

lemma safe_settle_attempt [safe_intros]: "safe (check_settle_attempt req c)" "safe (artifact_attempt a b)"
  unfolding check_settle_attempt_def artifact_attempt_def by (intro safe_intros)+

lemma safe_finish [safe_intros]: "safe (finish_settle env req st)"
  unfolding finish_settle_def by (intro safe_intros)

lemma safe_settle [safe_intros]: "safe (worker_settle env req)"
  unfolding worker_settle_def by (intro safe_intros)

lemma safe_write_artifact [safe_intros]: "safe (write_completion_artifact env i)"
  unfolding write_completion_artifact_def by (intro safe_intros)

lemma safe_complete [safe_intros]: "safe (complete_system_task env i)"
  unfolding complete_system_task_def settle_task_def Let_def by (intro safe_intros)

end
