(* ===== verification/Kernel_Adapter.thy ===== *)
theory Kernel_Adapter
  imports Kernel_Settle
begin

text \<open>
  The tool \<open>mission_shared_memory\<close> (\<open>handlers/knowledge/shared_memory.rs\<close>): from the arguments of a call to
  the command of the kernel, with the parsers of \<open>engine/shared_memory.rs\<close>, the forwarding operations of
  \<open>engine/control_plane_kernel.rs\<close>, and the reads that answer from the tables of the kernel.
\<close>

subsection \<open>Arguments\<close>

definition DEFAULT_QUERY_LIMIT :: int where
  "DEFAULT_QUERY_LIMIT = 50"

definition MAX_QUERY_LIMIT :: int where
  "MAX_QUERY_LIMIT = 500"

definition bounded_limit :: "json \<Rightarrow> nat" where
  "bounded_limit args = nat (max 1 (min (unwrap_or (Option.bind (j_get args ''limit'') as_i64) DEFAULT_QUERY_LIMIT) MAX_QUERY_LIMIT))"

definition grant_id_arg :: "json \<Rightarrow> string option" where
  "grant_id_arg args = string_args args [''grant_id'', ''grantId'', ''capability_grant_id'', ''capabilityGrantId'']"

definition require_arg :: "json \<Rightarrow> string list \<Rightarrow> kerr + string" where
  "require_arg args keys = (case string_args args keys of Some v \<Rightarrow> Inr v | None \<Rightarrow> Inl (Other (hd keys @ '' is required'')))"

definition claim_id_arg :: "json \<Rightarrow> kerr + string" where
  "claim_id_arg args = require_arg args [''claim_id'', ''claimId'', ''id'']"

definition j_or_empty :: "json \<Rightarrow> string list \<Rightarrow> json" where
  "j_or_empty args keys = unwrap_or (j_get_any args keys) (JObject [])"

definition lease_secs_arg :: "json \<Rightarrow> int" where
  "lease_secs_arg args = unwrap_or (Option.bind (j_get_any args [''lease_secs'', ''leaseSecs'']) as_i64) DEFAULT_LEASE_SECS"

subsection \<open>Commands\<close>

definition claim_lease_command_from_args :: "json \<Rightarrow> kerr + claim_request" where
  "claim_lease_command_from_args args = bind_res (require_arg args [''scope_key'', ''scopeKey'']) (\<lambda>key. Inr
     \<lparr> cr_project = string_args args [''project_id'', ''projectId''], cr_task = string_args args [''task_id'', ''taskId''],
       cr_owner = unwrap_or (string_args args [''owner_id'', ''ownerId'']) ''unknown'', cr_grant = grant_id_arg args,
       cr_subject_kind = unwrap_or (string_args args [''subject_kind'', ''subjectKind'']) ''worker'',
       cr_subject_id = unwrap_or (string_args args [''subject_id'', ''subjectId'', ''owner_id'', ''ownerId'']) ''unknown'',
       cr_scope_kind = unwrap_or (string_args args [''scope_kind'', ''scopeKind'']) ''write_scope'', cr_scope_key = key,
       cr_lease_secs = lease_secs_arg args, cr_metadata = j_or_empty args [''metadata''],
       cr_bypass = system_or_operator_bypass_allowed args, cr_reason = Some ''mission_shared_memory claim system/operator authority'' \<rparr>)"

definition capability_check_command_from_args :: "json \<Rightarrow> kerr + capability_check" where
  "capability_check_command_from_args args = bind_res (require_arg args [''task_id'', ''taskId'']) (\<lambda>task.
     bind_res (require_arg args [''operation'']) (\<lambda>op. Inr
     \<lparr> cc_grant = grant_id_arg args, cc_subject_kind = unwrap_or (string_args args [''subject_kind'', ''subjectKind'']) ''task'',
       cc_subject_id = unwrap_or (string_args args [''subject_id'', ''subjectId'']) task, cc_operation = op,
       cc_scope_kind = unwrap_or (string_args args [''scope_kind'', ''scopeKind'']) ''task'',
       cc_scope_key = unwrap_or (string_args args [''scope_key'', ''scopeKey'']) task, cc_task = Some task,
       cc_bypass = system_or_operator_bypass_allowed args, cc_reason = Some ''mission_shared_memory capability_check bypass'',
       cc_details = j_or_empty args [''details''] \<rparr>))"

definition authority_kind_keys :: "string list" where
  "authority_kind_keys = [''authority_subject_kind'', ''authoritySubjectKind'', ''issuer_subject_kind'', ''issuerSubjectKind'',
     ''actor_subject_kind'', ''actorSubjectKind'']"

definition authority_id_keys :: "string list" where
  "authority_id_keys = [''authority_subject_id'', ''authoritySubjectId'', ''issuer_subject_id'', ''issuerSubjectId'',
     ''actor_subject_id'', ''actorSubjectId'']"

definition authority_grant_keys :: "string list" where
  "authority_grant_keys = [''authority_grant_id'', ''authorityGrantId'', ''issuer_grant_id'', ''issuerGrantId'',
     ''delegate_grant_id'', ''delegateGrantId'']"

definition capability_grant_command_from_args :: "json \<Rightarrow> kerr + grant_command" where
  "capability_grant_command_from_args args = (let ak = unwrap_or (string_args args authority_kind_keys) ''operator'' in
     bind_res (require_arg args [''subject_id'', ''subjectId'']) (\<lambda>si.
     bind_res (require_arg args [''operation'']) (\<lambda>op.
     bind_res (require_arg args [''scope_kind'', ''scopeKind'']) (\<lambda>kind.
     bind_res (require_arg args [''scope_key'', ''scopeKey'']) (\<lambda>key. Inr
     \<lparr> gc_authority_grant = string_args args authority_grant_keys, gc_authority_kind = ak,
       gc_authority_id = unwrap_or (string_args args authority_id_keys) ''operator'',
       gc_target = \<lparr> gi_subject_kind = unwrap_or (string_args args [''subject_kind'', ''subjectKind'']) ''task'', gi_subject_id = si,
         gi_operation = op, gi_scope_kind = kind, gi_scope_key = key, gi_project = string_args args [''project_id'', ''projectId''],
         gi_task = string_args args [''task_id'', ''taskId''], gi_issuer = unwrap_or (string_arg args ''issuer'') ''missiond'',
         gi_evidence = string_args args [''evidence_requirement'', ''evidenceRequirement''], gi_details = j_or_empty args [''details''] \<rparr>,
       gc_bypass = (ak = ''system'' \<or> ak = ''daemon'' \<or> ak = ''operator'' \<and> bool_arg_any args confirm_keys),
       gc_reason = string_args args [''bypass_reason'', ''bypassReason''] \<rparr>)))))"

definition job_event_command_from_args :: "json \<Rightarrow> kerr + job_event_request" where
  "job_event_command_from_args args = bind_res (require_arg args [''task_id'', ''taskId'']) (\<lambda>task. Inr
     \<lparr> je_task = task, je_project = string_args args [''project_id'', ''projectId''],
       je_agent = unwrap_or (string_args args [''agent_id'', ''agentId'']) ''missiond'',
       je_kind = unwrap_or (string_args args [''event_kind'', ''eventKind'']) ''observation.recorded'',
       je_attempt = string_args args [''attempt_id'', ''attemptId''], je_worker = string_args args [''worker_id'', ''workerId''],
       je_conversation = string_args args [''conversation_id'', ''conversationId''],
       je_metadata = j_or_empty args [''runtime_metadata'', ''runtimeMetadata''], je_payload = j_or_empty args [''payload''] \<rparr>)"

definition lease_command_from_args :: "string \<Rightarrow> json \<Rightarrow> kerr + lease_request" where
  "lease_command_from_args verb args = bind_res (claim_id_arg args) (\<lambda>i. Inr
     \<lparr> lr_claim = i, lr_owner = string_args args [''owner_id'', ''ownerId''], lr_grant = grant_id_arg args,
       lr_subject_kind = unwrap_or (string_args args [''subject_kind'', ''subjectKind'']) [],
       lr_subject_id = unwrap_or (string_args args [''subject_id'', ''subjectId'']) [], lr_lease_secs = lease_secs_arg args,
       lr_details = j_or_empty args [''details''], lr_bypass = system_or_operator_bypass_allowed args,
       lr_reason = Some (''mission_shared_memory '' @ verb @ '' system/operator authority'') \<rparr>)"

definition release_lease_command_from_args :: "json \<Rightarrow> kerr + lease_request" where
  "release_lease_command_from_args = lease_command_from_args ''release''"

definition heartbeat_lease_command_from_args :: "json \<Rightarrow> kerr + lease_request" where
  "heartbeat_lease_command_from_args = lease_command_from_args ''heartbeat''"

subsection \<open>Results and settlements\<close>

definition subject_id_or :: "json \<Rightarrow> string option \<Rightarrow> string option \<Rightarrow> string \<Rightarrow> string" where
  "subject_id_or args slot conversation task =
     unwrap_or (or_else (string_args args [''subject_id'', ''subjectId'']) (or_else slot conversation)) task"

definition worker_settle_request_from_args :: "json \<Rightarrow> kerr + settle_request" where
  "worker_settle_request_from_args args = bind_res (require_arg args [''task_id'', ''taskId'']) (\<lambda>task.
     bind_res (normalize_worker_settle_status (string_arg args ''status'')) (\<lambda>status. let
       slot = string_args args [''slot_id'', ''slotId'']; conversation = string_args args [''conversation_id'', ''conversationId''] in Inr
     \<lparr> sr_task = task, sr_project = string_args args [''project_id'', ''projectId''], sr_slot = slot, sr_conversation = conversation,
       sr_hash = string_args args [''artifact_hash'', ''artifactHash''], sr_status = status, sr_summary = string_arg args ''summary'',
       sr_grant = grant_id_arg args,
       sr_subject_kind = unwrap_or (string_args args [''subject_kind'', ''subjectKind'']) (default_subject_kind slot conversation),
       sr_subject_id = subject_id_or args slot conversation task, sr_attempt = string_args args [''attempt_id'', ''attemptId''],
       sr_bypass = system_or_operator_bypass_allowed args \<rparr>))"

definition summary_from_result_payload :: "kernel_env \<Rightarrow> json \<Rightarrow> string" where
  "summary_from_result_payload env args = (case string_arg args ''content'' of
      Some c \<Rightarrow> take 500 c
    | None \<Rightarrow> (case j_get args ''json'' of Some v \<Rightarrow> take 500 (json_bytes env v) | None \<Rightarrow> ''Worker result artifact''))"

fun evidence_array :: "json \<Rightarrow> json \<Rightarrow> string \<Rightarrow> json list option" where
  "evidence_array args details key = Option.bind (or_else (j_get args key) (j_get details key)) as_array"

definition task_result_evidence_refs :: "json \<Rightarrow> json \<Rightarrow> json option \<Rightarrow> string \<Rightarrow> string option \<Rightarrow> string option \<Rightarrow> json list" where
  "task_result_evidence_refs args details raw provider slot conversation =
     (case or_else (evidence_array args details ''evidence_refs'') (evidence_array args details ''evidenceRefs'') of
        Some vs \<Rightarrow> vs
      | None \<Rightarrow> let refs =
            (case conversation of None \<Rightarrow> [] | Some c \<Rightarrow> [JObject [(''kind'', JString ''provider_conversation''), (''provider'', JString provider),
               (''conversation_id'', JString c)]]) @
            (case slot of None \<Rightarrow> [] | Some sl \<Rightarrow> [JObject [(''kind'', JString ''pty_observation''), (''slot_id'', JString sl)]]) @
            (case raw of None \<Rightarrow> [] | Some _ \<Rightarrow> [JObject [(''kind'', JString ''raw_evidence_inline'')]])
          in if refs = [] then [JObject [(''kind'', JString ''completion_content_inline'')]] else refs)"

definition task_result_has_explicit_evidence :: "json \<Rightarrow> json \<Rightarrow> json option \<Rightarrow> bool" where
  "task_result_has_explicit_evidence args details raw \<longleftrightarrow>
     list_ex (\<lambda>k. case evidence_array args details k of Some vs \<Rightarrow> vs \<noteq> [] | None \<Rightarrow> False) [''evidence_refs'', ''evidenceRefs''] \<or> raw \<noteq> None"

definition task_result_put_request_from_args :: "kernel_env \<Rightarrow> int \<Rightarrow> json \<Rightarrow> kerr + result_request" where
  "task_result_put_request_from_args env now args = bind_res (require_arg args [''task_id'', ''taskId'']) (\<lambda>task. let
     project = unwrap_or (string_args args [''project_id'', ''projectId'']) ''missiond'';
     slot = string_args args [''slot_id'', ''slotId'']; conversation = string_args args [''conversation_id'', ''conversationId''];
     provider = unwrap_or (string_arg args ''provider'') ''unknown''; details = j_or_empty args [''json''];
     content = (case j_get args ''content'' of Some v \<Rightarrow> if v = JNull then details else v | None \<Rightarrow> details);
     raw = or_else (j_get_any args [''raw_evidence'', ''rawEvidence'']) (j_get_any details [''raw_evidence'', ''rawEvidence'']) in Inr
     \<lparr> rr_task = task, rr_project = project, rr_slot = slot, rr_conversation = conversation, rr_provider = provider,
       rr_status = unwrap_or (string_args args [''result_status'', ''resultStatus'', ''result_kind'', ''resultKind'']) ''completed'',
       rr_summary = unwrap_or (string_arg args ''summary'') (summary_from_result_payload env args), rr_content = content, rr_details = details,
       rr_shard = string_args args [''accepted_shard_id'', ''acceptedShardId''], rr_attempt = string_args args [''attempt_id'', ''attemptId''],
       rr_grant = grant_id_arg args,
       rr_subject_kind = unwrap_or (string_args args [''subject_kind'', ''subjectKind'']) (default_subject_kind slot conversation),
       rr_subject_id = subject_id_or args slot conversation task,
       rr_producer = unwrap_or (or_else (j_get args ''producer'') (j_get details ''producer''))
         (JObject [(''kind'', JString ''worker-completion-producer''), (''provider'', JString provider), (''slot_id'', j_opt slot),
           (''conversation_id'', j_opt conversation)]),
       rr_raw = raw, rr_refs = task_result_evidence_refs args details raw provider slot conversation,
       rr_explicit = task_result_has_explicit_evidence args details raw,
       rr_created = unwrap_or (string_args args [''created_at'', ''createdAt'']) (rfc3339 env now),
       rr_bypass = system_or_operator_bypass_allowed args, rr_args = args \<rparr>)"

subsection \<open>The tool\<close>

text \<open>The actions that go to the kernel; \<open>None\<close> for the projections of the older store and for unknown
  actions.\<close>

definition command_of :: "(kerr + 'c) \<Rightarrow> ('c \<Rightarrow> json kprog) \<Rightarrow> json kprog" where
  "command_of r p = bind_prog (of_res r) p"

definition action_arg :: "json \<Rightarrow> string" where
  "action_arg args = trim (unwrap_or (Option.bind (j_get args ''action'') as_str) ''query'')"

definition control_action :: "kernel_env \<Rightarrow> json \<Rightarrow> json kprog option" where
  "control_action env args = (let action = action_arg args in
     if action \<in> {''task_result_put'', ''put_task_result''}
       then Some (bind_prog (observe in_app_now) (\<lambda>now. command_of (task_result_put_request_from_args env now args) (task_result_put env)))
     else if action \<in> {''worker_settle'', ''completion_settle'', ''settle_worker''}
       then Some (command_of (worker_settle_request_from_args args) (worker_settle env))
     else if action = ''claim'' then Some (command_of (claim_lease_command_from_args args) (claim_lease_typed env))
     else if action = ''release'' then Some (command_of (release_lease_command_from_args args) (release_lease env))
     else if action = ''heartbeat'' then Some (command_of (heartbeat_lease_command_from_args args) (heartbeat_lease env))
     else if action \<in> {''capability_check'', ''check_capability''}
       then Some (command_of (capability_check_command_from_args args) capability_check_command)
     else if action \<in> {''capability_grant'', ''grant_capability''}
       then Some (command_of (capability_grant_command_from_args args) capability_grant_command)
     else if action \<in> {''job_event'', ''record_job_event''}
       then Some (command_of (job_event_command_from_args args) (job_event_command env))
     else None)"

subsection \<open>Kernel commands of other components\<close>

definition job_event_of :: "string \<Rightarrow> string option \<Rightarrow> string \<Rightarrow> string \<Rightarrow> string option \<Rightarrow> string option \<Rightarrow> json \<Rightarrow> job_event_request" where
  "job_event_of task project agent kind attempt_id worker body = \<lparr> je_task = task, je_project = project, je_agent = agent, je_kind = kind,
     je_attempt = attempt_id, je_worker = worker, je_conversation = None, je_metadata = JObject [], je_payload = body \<rparr>"

definition record_observation_command :: "kernel_env \<Rightarrow> string \<Rightarrow> string option \<Rightarrow> string \<Rightarrow> json \<Rightarrow> json kprog" where
  "record_observation_command env task project producer body =
     job_event_command env (job_event_of task project producer ''observation.recorded'' None None body)"

definition start_attempt_command :: "kernel_env \<Rightarrow> string \<Rightarrow> string option \<Rightarrow> string \<Rightarrow> string \<Rightarrow> string \<Rightarrow> json \<Rightarrow> json kprog" where
  "start_attempt_command env task project attempt_id agent worker body =
     job_event_command env (job_event_of task project agent ''attempt.started'' (Some attempt_id) (Some worker) body)"

definition project_board_view :: "kernel_env \<Rightarrow> string \<Rightarrow> string \<Rightarrow> json \<Rightarrow> json kprog" where
  "project_board_view env task status body = job_event_command env (job_event_of task None ''control-plane-kernel'' ''observation.recorded'' None None
     (JObject [(''schema'', JString ''missiond.board-task-view-projection-request.v1''), (''projected_status'', JString status), (''projection'', body)]))"

definition kernel_claim_lease :: "kernel_env \<Rightarrow> string \<Rightarrow> string \<Rightarrow> string \<Rightarrow> string \<Rightarrow> json kprog" where
  "kernel_claim_lease env task owner kind key = claim_lease_typed env \<lparr> cr_project = None, cr_task = Some task, cr_owner = owner, cr_grant = None,
     cr_subject_kind = ''system'', cr_subject_id = ''control-plane-kernel'', cr_scope_kind = kind, cr_scope_key = key, cr_lease_secs = 1800,
     cr_metadata = JObject [(''source'', JString ''control-plane-kernel'')], cr_bypass = True,
     cr_reason = Some ''internal control-plane kernel lease authority'' \<rparr>"

subsection \<open>Reads and artifacts\<close>

definition event_row_json :: "kernel_env \<Rightarrow> shared_event \<Rightarrow> json" where
  "event_row_json env e = JObject [(''id'', JString (se_id e)), (''stream_id'', JString (se_stream e)), (''seq'', JInt (se_seq e)),
     (''project_id'', j_opt (se_project e)), (''task_id'', j_opt (se_task e)), (''agent_id'', j_opt (se_agent e)),
     (''event_kind'', JString (se_kind e)), (''payload'', se_payload e), (''idempotency_key'', j_opt (se_key e)),
     (''correlation_id'', j_opt (se_correlation e)), (''parent_event_ids'', se_parents e), (''created_at'', JString (rfc3339 env (se_created e)))]"

definition query_events :: "kernel_env \<Rightarrow> json \<Rightarrow> json kprog" where
  "query_events env args = (let since = unwrap_or (Option.bind (j_get_any args [''since_seq'', ''sinceSeq'']) as_i64) 0;
       wanted = (\<lambda>e. since < se_seq e \<and> opt_matches (string_args args [''stream_id'', ''streamId'']) (Some (se_stream e)) \<and>
          opt_matches (string_args args [''project_id'', ''projectId'']) (se_project e) \<and>
          opt_matches (string_args args [''task_id'', ''taskId'']) (se_task e)) in
     then_prog expire_stale_claims
     (bind_prog (query (\<lambda>t s. take (bounded_limit args) (sort_key se_seq (filter wanted (shared_events s))))) (\<lambda>rows.
      Ret (JObject [(''schema'', JString ''missiond.shared-memory.query.v1''), (''events'', JArray (map (event_row_json env) rows))]))))"

definition task_result_row_json :: "kernel_env \<Rightarrow> result_row \<Rightarrow> json" where
  "task_result_row_json env r = JObject [(''id'', JString (ra_id r)), (''artifact_hash'', JString (ra_hash r)), (''project_id'', j_opt (ra_project r)),
     (''task_id'', JString (ra_task r)), (''job_id'', j_opt (ra_job r)), (''attempt_id'', j_opt (ra_attempt r)), (''slot_id'', j_opt (ra_slot r)),
     (''conversation_id'', j_opt (ra_conversation r)), (''provider'', j_opt (ra_provider r)), (''result_status'', JString (ra_status r)),
     (''summary'', JString (ra_summary r)), (''producer_subject_kind'', j_opt (ra_subject_kind r)),
     (''producer_subject_id'', j_opt (ra_subject_id r)), (''capability_grant_id'', j_opt (ra_grant r)),
     (''created_at'', JString (rfc3339 env (ra_created r)))]"

definition task_result_get :: "kernel_env \<Rightarrow> json \<Rightarrow> json kprog" where
  "task_result_get env args = (let task = string_args args [''task_id'', ''taskId'']; h = string_args args [''hash'', ''artifact_hash''] in
     bind_prog (query (\<lambda>t s. take (bounded_limit args) (rev (sort_key ra_created (filter (\<lambda>r. opt_matches task (Some (ra_task r)) \<and>
        opt_matches h (Some (ra_hash r))) (results s)))))) (\<lambda>rows.
     Ret (JObject [(''schema'', JString ''missiond.task-result-artifacts.v1''), (''results'', JArray (map (task_result_row_json env) rows))])))"

definition artifact_put :: "kernel_env \<Rightarrow> json \<Rightarrow> json kprog" where
  "artifact_put env args = (let kind = unwrap_or (string_arg args ''kind'') ''artifact'';
       media = unwrap_or (string_args args [''media_type'', ''mediaType'']) ''application/json'';
       content = (case string_arg args ''content'' of Some c \<Rightarrow> c | None \<Rightarrow> json_bytes env (unwrap_or (j_get args ''json'') JNull)) in
     bind_prog (put_artifact_bytes env kind (string_args args [''project_id'', ''projectId'']) (string_args args [''task_id'', ''taskId''])
        media content (j_or_empty args [''metadata''])) (\<lambda>(h, size).
     Ret (JObject [(''schema'', JString ''missiond.shared-artifact.v1''), (''hash'', JString h), (''kind'', JString kind),
       (''size_bytes'', JInt size), (''media_type'', JString media)])))"

subsection \<open>What the operations keep\<close>

lemma control_actions:
  "action_arg args \<in> {''task_result_put'', ''put_task_result''} \<Longrightarrow> control_action env args =
     Some (bind_prog (observe in_app_now) (\<lambda>now. command_of (task_result_put_request_from_args env now args) (task_result_put env)))"
  "action_arg args \<in> {''worker_settle'', ''completion_settle'', ''settle_worker''} \<Longrightarrow> control_action env args =
     Some (command_of (worker_settle_request_from_args args) (worker_settle env))"
  "action_arg args = ''claim'' \<Longrightarrow> control_action env args = Some (command_of (claim_lease_command_from_args args) (claim_lease_typed env))"
  "action_arg args = ''release'' \<Longrightarrow> control_action env args = Some (command_of (release_lease_command_from_args args) (release_lease env))"
  "action_arg args = ''heartbeat'' \<Longrightarrow> control_action env args = Some (command_of (heartbeat_lease_command_from_args args) (heartbeat_lease env))"
  "action_arg args \<in> {''capability_check'', ''check_capability''} \<Longrightarrow> control_action env args =
     Some (command_of (capability_check_command_from_args args) capability_check_command)"
  "action_arg args \<in> {''capability_grant'', ''grant_capability''} \<Longrightarrow> control_action env args =
     Some (command_of (capability_grant_command_from_args args) capability_grant_command)"
  by (((elim insertE emptyE)?; simp add: control_action_def Let_def)+)

lemma safe_command [safe_intros]: "(\<And>c. safe (p c)) \<Longrightarrow> safe (command_of r p)"
  unfolding command_of_def by (intro safe_intros)

lemma safe_control: "control_action env args = Some p \<Longrightarrow> safe p"
  unfolding control_action_def Let_def by (auto split: if_splits intro!: safe_intros)

lemma safe_reads [safe_intros]: "safe (query_events env args)" "safe (task_result_get env args)" "safe (artifact_put env args)"
  unfolding query_events_def task_result_get_def artifact_put_def Let_def by (intro safe_intros)+

lemma safe_kernel_commands [safe_intros]: "safe (record_observation_command env a b c d)" "safe (start_attempt_command env a b e c f d)"
  "safe (project_board_view env a c d)" "safe (kernel_claim_lease env a c e f)"
  unfolding record_observation_command_def start_attempt_command_def project_board_view_def kernel_claim_lease_def by (intro safe_intros)+

end
