(* ===== verification/Kernel_Pool.thy ===== *)
theory Kernel_Pool
  imports Kernel_Program
begin

text \<open>
  A pool of sessions over one store: the handlers of a daemon that serve requests at the same time. A
  session begins with the program of its request, advances by one atomic statement at a time, and may be
  dropped before its end (a client that goes away, a timeout); a session that has ended stays. The locale
  states what a handler owes the store, and what follows for every reachable pool; the kernel's handlers
  are its interpretation in \<open>Kernel_System\<close>.
\<close>

subsection \<open>Pools\<close>

record ('r, 't, 's, 'e, 'a) pool =
  store :: 's
  sessions :: "nat \<Rightarrow> ('r \<times> ('t, 's, 'e, 'a) prog) option"

definition idle_pool :: "'s \<Rightarrow> ('r, 't, 's, 'e, 'a) pool" where
  "idle_pool s = \<lparr> store = s, sessions = (\<lambda>_. None) \<rparr>"

inductive pool_step :: "('r \<Rightarrow> ('t, 's, 'e, 'a) prog) \<Rightarrow> ('r, 't, 's, 'e, 'a) pool \<Rightarrow> ('r, 't, 's, 'e, 'a) pool \<Rightarrow> bool"
  for handle where
  opened: "sessions \<sigma> i = None \<Longrightarrow> pool_step handle \<sigma> (\<sigma>\<lparr> sessions := (sessions \<sigma>)(i \<mapsto> (r, handle r)) \<rparr>)"
| advanced: "sessions \<sigma> i = Some (r, Atom f) \<Longrightarrow> f t (store \<sigma>) = (p, s) \<Longrightarrow>
    pool_step handle \<sigma> (\<sigma>\<lparr> store := s, sessions := (sessions \<sigma>)(i \<mapsto> (r, p)) \<rparr>)"
| dropped: "sessions \<sigma> i = Some (r, Atom f) \<Longrightarrow> pool_step handle \<sigma> (\<sigma>\<lparr> sessions := (sessions \<sigma>)(i := None) \<rparr>)"

inductive pool_run :: "('r \<Rightarrow> ('t, 's, 'e, 'a) prog) \<Rightarrow> ('r, 't, 's, 'e, 'a) pool \<Rightarrow> ('r, 't, 's, 'e, 'a) pool \<Rightarrow> bool"
  for handle \<sigma> where
  run_start: "pool_run handle \<sigma> \<sigma>"
| run_step: "pool_run handle \<sigma> \<tau> \<Longrightarrow> pool_step handle \<tau> \<upsilon> \<Longrightarrow> pool_run handle \<sigma> \<upsilon>"

definition ended_ok :: "('r, 't, 's, 'e, 'a) pool \<Rightarrow> nat \<Rightarrow> 'r \<Rightarrow> bool" where
  "ended_ok \<sigma> i r \<longleftrightarrow> (\<exists>v. sessions \<sigma> i = Some (r, Ret v))"

inductive_simps pool_step_simps: "pool_step handle \<sigma> \<tau>"

text \<open>A run of one session alone is a run of the pool.\<close>

lemma pool_run_trans: "pool_run handle \<tau> \<upsilon> \<Longrightarrow> pool_run handle \<sigma> \<tau> \<Longrightarrow> pool_run handle \<sigma> \<upsilon>"
  by (induction rule: pool_run.induct) (auto intro: pool_run.intros)

lemma pool_alone:
  "sessions \<sigma> i = Some (r, p) \<Longrightarrow> run p ts (store \<sigma>) = (q, s) \<Longrightarrow>
    pool_run handle \<sigma> (\<sigma>\<lparr> store := s, sessions := (sessions \<sigma>)(i \<mapsto> (r, q)) \<rparr>)"
proof (induction ts arbitrary: p \<sigma>)
  case Nil
  then show ?case by (auto simp: fun_upd_idem intro: run_start)
next
  case (Cons t ts)
  show ?case
  proof (cases p)
    case (Atom f)
    obtain p' s' where f: "f t (store \<sigma>) = (p', s')" by fastforce
    let ?\<tau> = "\<sigma>\<lparr> store := s', sessions := (sessions \<sigma>)(i \<mapsto> (r, p')) \<rparr>"
    have "pool_step handle \<sigma> ?\<tau>" by (rule advanced[where f = f and t = t]) (use Cons.prems Atom f in auto)
    moreover have "pool_run handle ?\<tau> (?\<tau>\<lparr> store := s, sessions := (sessions ?\<tau>)(i \<mapsto> (r, q)) \<rparr>)"
      by (rule Cons.IH) (use Cons.prems Atom f in auto)
    ultimately have "pool_run handle \<sigma> (?\<tau>\<lparr> store := s, sessions := (sessions ?\<tau>)(i \<mapsto> (r, q)) \<rparr>)"
      by (blast intro: pool_run_trans pool_run.intros)
    then show ?thesis by (simp add: fun_upd_def cong: if_cong)
  qed (use Cons.prems in \<open>auto simp: fun_upd_idem intro: run_start\<close>)
qed

subsection \<open>Steps that use something up\<close>

text \<open>\<open>A\<close> is available, and every way to a successful end passes a statement that makes it unavailable.\<close>

inductive spends :: "('s \<Rightarrow> bool) \<Rightarrow> ('s \<Rightarrow> bool) \<Rightarrow> ('t, 's, 'e, 'a) prog \<Rightarrow> bool" for I A where
  spends_Err: "spends I A (Err e)"
| spends_Atom: "(\<And>t s. I s \<Longrightarrow> spends I A (fst (f t s)) \<or> A s \<and> \<not> A (snd (f t s))) \<Longrightarrow> spends I A (Atom f)"

inductive_simps spends_simps [simp]: "spends I A (Ret x)" "spends I A (Err e)" "spends I A (Atom f)"

lemma spends_bind_first: "spends I A p \<Longrightarrow> spends I A (bind_prog p k)"
proof (induction rule: spends.induct)
  case (spends_Atom f)
  then show ?case by (auto simp: map_prod_def split_beta)
qed simp

text \<open>Every value a program may return satisfies \<open>V\<close>, whatever the store.\<close>

inductive gives :: "('a \<Rightarrow> bool) \<Rightarrow> ('t, 's, 'e, 'a) prog \<Rightarrow> bool" for V where
  gives_Ret: "V x \<Longrightarrow> gives V (Ret x)"
| gives_Err: "gives V (Err e)"
| gives_Atom: "(\<And>t s. gives V (fst (f t s))) \<Longrightarrow> gives V (Atom f)"

inductive_simps gives_simps [simp]: "gives V (Ret x)" "gives V (Err e)" "gives V (Atom f)"

lemma gives_True [simp]: "gives (\<lambda>x. True) p"
  by (induction p rule: prog_induct) auto

lemma gives_bind: "gives V p \<Longrightarrow> (\<And>x. V x \<Longrightarrow> gives W (k x)) \<Longrightarrow> gives W (bind_prog p k)"
  by (induction rule: gives.induct) (auto simp: map_prod_def split_beta)

lemma gives_then: "gives W q \<Longrightarrow> gives W (then_prog p q)"
  unfolding then_prog_def by (rule gives_bind[OF gives_True])

lemma gives_never: "gives (\<lambda>x. False) p \<Longrightarrow> gives V (bind_prog p k)"
  by (erule gives_bind) simp

lemma gives_run: "gives V p \<Longrightarrow> result (fst (run p ts s)) = Some (Inr x) \<Longrightarrow> V x"
proof (induction arbitrary: ts s rule: gives.induct)
  case (gives_Atom f)
  show ?case
  proof (cases ts)
    case (Cons t us)
    then show ?thesis using gives_Atom by (auto split: prod.splits) (metis fst_conv)
  qed (use gives_Atom in simp)
qed auto

lemma spends_bind: "gives V p \<Longrightarrow> (\<And>x. V x \<Longrightarrow> spends I A (k x)) \<Longrightarrow> spends I A (bind_prog p k)"
  by (induction rule: gives.induct) (auto simp: map_prod_def split_beta)

lemma spends_then: "spends I A q \<Longrightarrow> spends I A (then_prog p q)"
  unfolding then_prog_def by (rule spends_bind[OF gives_True])

lemma spends_then_first: "spends I A p \<Longrightarrow> spends I A (then_prog p q)"
  unfolding then_prog_def by (rule spends_bind_first)

subsection \<open>What handlers owe the store\<close>

inductive_cases rg_AtomE: "rg I G P (Atom f) Q"

lemma rg_next:
  assumes "rg I G P (Atom f) Q" "I s" "P s" "f t s = (p, s')"
  shows "\<exists>P'. I s' \<and> G s s' \<and> P' s' \<and> stable I G P' \<and> rg I G P' p Q"
proof -
  have "I (snd (f t s)) \<and> G s (snd (f t s)) \<and> (\<exists>P'. P' (snd (f t s)) \<and> stable I G P' \<and> rg I G P' (fst (f t s)) Q)"
    using assms(1) by (rule rg_AtomE) (use assms(2,3) in blast)
  then show ?thesis using assms(4) by simp
qed

locale guarded_store =
  fixes handle :: "'r \<Rightarrow> ('t, 's, 'e, 'a) prog"
    and I :: "'s \<Rightarrow> bool"
    and G :: "'s \<Rightarrow> 's \<Rightarrow> bool"
  assumes same: "G s s"
    and onward: "G s t \<Longrightarrow> G t u \<Longrightarrow> G s u"
    and guarded: "rg I G (\<lambda>s. True) (handle r) (\<lambda>_ _. True)"
begin

text \<open>Every session is at a point of its proof: it holds an assertion the others keep.\<close>

lemma run_inv:
  assumes "pool_run handle (idle_pool s0) \<sigma>" "I s0" "\<And>r. rg I G (\<lambda>s. True) (handle r) (Q r)"
  shows "I (store \<sigma>) \<and> (\<forall>i r p. sessions \<sigma> i = Some (r, p) \<longrightarrow> (\<exists>P. P (store \<sigma>) \<and> stable I G P \<and> rg I G P p (Q r)))"
  using assms(1)
proof (induction rule: pool_run.induct)
  case run_start
  then show ?case using assms(2) by (simp add: idle_pool_def)
next
  case (run_step \<tau> \<upsilon>)
  then have inv: "I (store \<tau>)" and at: "\<And>i r p. sessions \<tau> i = Some (r, p) \<Longrightarrow> \<exists>P. P (store \<tau>) \<and> stable I G P \<and> rg I G P p (Q r)"
    by blast+
  from run_step(2) show ?case
  proof cases
    case (opened i r)
    have "\<exists>P. P (store \<tau>) \<and> stable I G P \<and> rg I G P (handle r) (Q r)"
      by (rule exI[of _ "\<lambda>s. True"]) (simp add: assms(3))
    with inv at opened show ?thesis by simp
  next
    case (advanced i r f t p s)
    obtain P' where n: "I s" "G (store \<tau>) s" "P' s" "stable I G P'" "rg I G P' p (Q r)"
      using at[OF advanced(2)] rg_next[where f = f and t = t and s = "store \<tau>"] inv advanced(3) by metis
    have "\<exists>P. P s \<and> stable I G P \<and> rg I G P q (Q x)" if "sessions \<tau> j = Some (x, q)" for j x q
      using at[OF that] inv n(1,2) unfolding stable_def by blast
    moreover have "\<exists>P. P s \<and> stable I G P \<and> rg I G P p (Q r)" using n by blast
    ultimately show ?thesis using n(1) advanced(1) by simp
  next
    case (dropped i r f)
    then show ?thesis using inv at by simp
  qed
qed

lemma run_ok: "pool_run handle (idle_pool s0) \<sigma> \<Longrightarrow> I s0 \<Longrightarrow> I (store \<sigma>)"
  using run_inv[OF _ _ guarded] by blast

lemma step_grows:
  assumes "pool_step handle \<sigma> \<tau>" "pool_run handle (idle_pool s0) \<sigma>" "I s0"
  shows "G (store \<sigma>) (store \<tau>)"
  using assms(1)
proof cases
  case (advanced i r f t p s)
  from run_inv[OF assms(2,3) guarded] advanced(2) obtain P where
    "I (store \<sigma>)" "P (store \<sigma>)" "rg I G P (Atom f) (\<lambda>_ _. True)" by blast
  from rg_next[OF this(3,1,2) advanced(3)] advanced(1) show ?thesis by auto
qed (simp_all add: same)

lemma run_grows: "pool_run handle \<sigma> \<tau> \<Longrightarrow> pool_run handle (idle_pool s0) \<sigma> \<Longrightarrow> I s0 \<Longrightarrow> G (store \<sigma>) (store \<tau>)"
proof (induction rule: pool_run.induct)
  case (run_step \<tau> \<upsilon>)
  show ?case
    by (rule onward[OF run_step(3)[OF run_step(4,5)] step_grows[OF run_step(2) pool_run_trans[OF run_step(1,4)] run_step(5)]])
qed (rule same)

lemma run_result:
  assumes "pool_run handle (idle_pool s0) \<sigma>" "I s0" "rg I G (\<lambda>s. True) (handle r) Q" "sessions \<sigma> i = Some (r, p)" "result p = Some x"
  shows "Q x (store \<sigma>)"
proof -
  let ?Q = "\<lambda>q. if q = r then Q else (\<lambda>_ _. True)"
  have "rg I G (\<lambda>s. True) (handle q) (?Q q)" for q using guarded assms(3) by simp
  note inv = run_inv[where Q = ?Q, OF assms(1,2) this]
  then obtain P where "P (store \<sigma>)" "rg I G P p (?Q r)" using assms(4) by blast
  moreover have "I (store \<sigma>)" using inv by blast
  ultimately have "I (store \<sigma>)" "P (store \<sigma>)" "rg I G P p Q" by simp_all
  from rg_run[OF this(3,1,2), of "[]"] assms(5) show ?thesis by simp
qed

lemma spent_now:
  assumes "pool_step handle \<tau> \<upsilon>" "I (store \<tau>)" "\<forall>r. R r \<longrightarrow> spends I A (handle r)"
    "sessions \<upsilon> i = Some (r, u)" "R r" "\<not> spends I A u" "\<forall>u'. sessions \<tau> i = Some (r, u') \<longrightarrow> spends I A u'"
  shows "A (store \<tau>) \<and> \<not> A (store \<upsilon>) \<and> (\<forall>j q v. j \<noteq> i \<longrightarrow> sessions \<upsilon> j = Some (q, v) \<longrightarrow> sessions \<tau> j = Some (q, v))"
  using assms(1)
proof cases
  case (opened k q)
  with assms(3-7) show ?thesis by (auto split: if_splits)
next
  case (advanced k q f t p s)
  have k: "k = i" using assms(4,6,7) advanced(1) by (auto split: if_splits)
  then have "q = r" "u = p" "spends I A (Atom f)" using assms(4,7) advanced(1,2) by auto
  then have "spends I A p \<or> A (store \<tau>) \<and> \<not> A s" using assms(2) advanced(3) by (metis spends_simps(3) fst_conv snd_conv)
  then show ?thesis using assms(6) \<open>u = p\<close> advanced(1) k by auto
next
  case (dropped k q f)
  with assms(4-7) show ?thesis by (auto split: if_splits)
qed

text \<open>What is used up once stays used up, and then at most one session has used it.\<close>

lemma run_spent:
  assumes "pool_run handle (idle_pool s0) \<sigma>" "I s0" "\<forall>s s'. I s \<longrightarrow> G s s' \<longrightarrow> A s' \<longrightarrow> A s"
    "\<forall>r. R r \<longrightarrow> spends I A (handle r)"
  shows "\<forall>i r p. sessions \<sigma> i = Some (r, p) \<longrightarrow> R r \<longrightarrow> \<not> spends I A p \<longrightarrow>
    \<not> A (store \<sigma>) \<and> (\<forall>j q u. sessions \<sigma> j = Some (q, u) \<longrightarrow> R q \<longrightarrow> \<not> spends I A u \<longrightarrow> j = i)"
  using assms(1)
proof (induction rule: pool_run.induct)
  case run_start
  then show ?case by (simp add: idle_pool_def)
next
  case (run_step \<tau> \<upsilon>)
  have inv: "I (store \<tau>)" using run_ok[OF run_step(1) assms(2)] .
  have grow: "G (store \<tau>) (store \<upsilon>)" by (rule step_grows[OF run_step(2,1) assms(2)])
  have keep: "\<not> A (store \<tau>) \<Longrightarrow> \<not> A (store \<upsilon>)" using assms(3) inv grow by blast
  note IH = run_step(3)
  show ?case
  proof (cases "\<exists>i r u. sessions \<upsilon> i = Some (r, u) \<and> R r \<and> \<not> spends I A u \<and> (\<forall>u'. sessions \<tau> i = Some (r, u') \<longrightarrow> spends I A u')")
    case False
    have "\<exists>u'. sessions \<tau> i = Some (r, u') \<and> \<not> spends I A u'" if "sessions \<upsilon> i = Some (r, u)" "R r" "\<not> spends I A u" for i r u
      using False that by blast
    then show ?thesis using IH keep by blast
  next
    case True
    then obtain i r u where n: "sessions \<upsilon> i = Some (r, u)" "R r" "\<not> spends I A u" "\<forall>u'. sessions \<tau> i = Some (r, u') \<longrightarrow> spends I A u'"
      by blast
    from spent_now[OF run_step(2) inv assms(4) n] have A: "A (store \<tau>)" "\<not> A (store \<upsilon>)"
      and others: "\<And>j q v. j \<noteq> i \<Longrightarrow> sessions \<upsilon> j = Some (q, v) \<Longrightarrow> sessions \<tau> j = Some (q, v)" by blast+
    have "j = i" if "sessions \<upsilon> j = Some (q, v)" "R q" "\<not> spends I A v" for j q v
      using others[of j q v] that IH A(1) by blast
    with A(2) show ?thesis by blast
  qed
qed

lemma spent_once:
  assumes "pool_run handle (idle_pool s0) \<sigma>" "I s0" "\<forall>s s'. I s \<longrightarrow> G s s' \<longrightarrow> A s' \<longrightarrow> A s"
    "\<forall>r. R r \<longrightarrow> spends I A (handle r)" "ended_ok \<sigma> i r" "R r" "ended_ok \<sigma> j q" "R q"
  shows "i = j \<and> \<not> A (store \<sigma>)"
  using run_spent[OF assms(1-4)] assms(5-8) unfolding ended_ok_def by (metis spends_simps(1))

end

end
