(* ===== verification/Kernel_System.thy ===== *)
theory Kernel_System
  imports Kernel_Adapter Kernel_Pool
begin

text \<open>
  A tool call whose action is not a control action is not served here (it goes to the older store).
  The kernel as a whole: every command it serves is a session of one pool over its tables, and every handler
  is shown to respect the invariant, so that the facts of \<open>Kernel_Pool\<close> hold of every history of requests,
  with any interleaving of their statements, any clock, and any failure of the database.
\<close>

datatype kernel_request =
    Tool json
  | Query json
  | Results json
  | PutArtifact json
  | Append json
  | ClaimLease claim_request
  | WriteScope "string option" "string option" string "string list" "string option"
  | ReleaseLease lease_request
  | HeartbeatLease lease_request
  | CheckCapability capability_check
  | GrantCapability grant_command
  | GrantTask "string option" string string string "string list" "string list" "string list" string
  | UpsertContract string "string option" json
  | EnsureContract string "string option" json
  | SetContractGrants string "string list"
  | JobEvent job_event_request
  | PutResult result_request
  | Settle settle_request
  | CompleteSystem system_completion
  | UpdateTask string string "string option"
  | ToggleTask string
  | ClaimTask string string string
  | FailTask string
  | ReleaseExecutor string
  | RecoverTasks "string \<Rightarrow> int option" int
  | SetTaskLease string int
  | RetryTask string int
  | UnclaimTask string
  | ClearAssignee string string
  | TaskNote string string string string

definition answered :: "'a kprog \<Rightarrow> json kprog" where
  "answered p = bind_prog p (\<lambda>_. Ret JNull)"

fun serve :: "kernel_env \<Rightarrow> kernel_request \<Rightarrow> json kprog" where
  "serve env (Tool args) = (case control_action env args of Some p \<Rightarrow> p | None \<Rightarrow> Err (Other ''not a control action''))"
| "serve env (Query args) = query_events env args"
| "serve env (Results args) = task_result_get env args"
| "serve env (PutArtifact args) = artifact_put env args"
| "serve env (Append args) = append_event env args"
| "serve env (ClaimLease r) = claim_lease_typed env r"
| "serve env (WriteScope p t w scopes sh) = answered (claim_write_scope env p t w scopes sh)"
| "serve env (ReleaseLease r) = release_lease env r"
| "serve env (HeartbeatLease r) = heartbeat_lease env r"
| "serve env (CheckCapability c) = capability_check_command c"
| "serve env (GrantCapability c) = capability_grant_command c"
| "serve env (GrantTask p t sk si rs ws ms is) = answered (grant_task_capabilities p t sk si rs ws ms is)"
| "serve env (UpsertContract t p m) = answered (upsert_task_contract_from_metadata t p m)"
| "serve env (EnsureContract t p m) = answered (ensure_task_contract_from_metadata t p m)"
| "serve env (SetContractGrants t gs) = answered (update_task_contract_capability_grants t gs)"
| "serve env (JobEvent r) = job_event_command env r"
| "serve env (PutResult r) = task_result_put env r"
| "serve env (Settle r) = worker_settle env r"
| "serve env (CompleteSystem c) = complete_system_task env c"
| "serve env (UpdateTask i st h) = answered (update_board_task env i st h)"
| "serve env (ToggleTask i) = answered (toggle_board_task env i)"
| "serve env (ClaimTask i e k) = answered (claim_board_task env i e k)"
| "serve env (FailTask i) = answered (fail_board_task_and_release_claim env i)"
| "serve env (ReleaseExecutor e) = answered (release_board_claims_by_executor env e)"
| "serve env (RecoverTasks f m) = answered (recover_stale_running_tasks env f m)"
| "serve env (SetTaskLease t d) = answered (set_board_task_lease env t d)"
| "serve env (RetryTask t n) = answered (increment_board_task_retry env t n)"
| "serve env (UnclaimTask t) = answered (unclaim_board_task env t)"
| "serve env (ClearAssignee i e) = answered (clear_board_task_assignee env i e)"
| "serve env (TaskNote t c ty a) = answered (add_board_task_note t c ty a)"

lemma safe_answered [safe_intros]: "safe p \<Longrightarrow> safe (answered p)"
  unfolding answered_def by (intro safe_intros)

lemma safe_serve [safe_intros]: "safe (serve env r)"
  by (cases r) (auto intro!: safe_intros split: option.split dest: safe_control)

text \<open>The contract of \<open>Kernel_Pool\<close>, discharged by the kernel's own handlers.\<close>

interpretation kernel: guarded_store "serve env" kdb_ok kdb_grows for env
proof unfold_locales
  show "rg kdb_ok kdb_grows (\<lambda>s. True) (serve env r) (\<lambda>_ _. True)" for r
    using safe_serve[of env r] by (auto simp: safe_def sat_def elim: rg_post)
qed (auto intro: kdb_grows_trans)

type_synonym kernel_pool = "(kernel_request, instant, kdb, kerr, json) pool"

definition empty_kdb :: kdb where
  "empty_kdb = \<lparr> grants = [], audits = [], leases = [], claims = [], jobs = [], attempts = [], manifests = [], blobs = [], results = [],
     contracts = [], shared_events = [], next_seq = 1, board = [], views = [], board_notes = [], convs = [], published = [] \<rparr>"

lemma kdb_ok_empty [simp]: "kdb_ok empty_kdb"
  by (simp add: empty_kdb_def kdb_ok_def grants_ok_def leases_ok_def claims_ok_def one_active_def results_ok_def events_ok_def board_ok_def)

text \<open>A history of the kernel: from a database that satisfies the invariant, any steps of any sessions.\<close>

definition history :: "kernel_env \<Rightarrow> kdb \<Rightarrow> kernel_pool \<Rightarrow> bool" where
  "history env s0 \<sigma> \<longleftrightarrow> kdb_ok s0 \<and> pool_run (serve env) (idle_pool s0) \<sigma>"

lemma history_ok: "history env s0 \<sigma> \<Longrightarrow> kdb_ok (store \<sigma>)"
  unfolding history_def using kernel.run_ok by blast

lemma history_grows: "history env s0 \<sigma> \<Longrightarrow> pool_run (serve env) \<sigma> \<tau> \<Longrightarrow> kdb_grows (store \<sigma>) (store \<tau>)"
  unfolding history_def using kernel.run_grows by blast

text \<open>What \<open>sat\<close> promises of a handler holds when its session has ended.\<close>

lemma history_sat:
  assumes "history env s0 \<sigma>" "sat (\<lambda>s. True) (serve env r) R" "sessions \<sigma> i = Some (r, Ret v)"
  shows "R v (store \<sigma>)"
  using kernel.run_result[of env s0 \<sigma> r "on_ok R" i "Ret v" "Inr v"] assms by (simp add: history_def sat_def)

lemma sat_answered: "sat P p (\<lambda>_. R) \<Longrightarrow> lasts R \<Longrightarrow> sat P (answered p) (\<lambda>_. R)"
  unfolding answered_def by (rule sat_bind) (auto intro: sat_Ret)

text \<open>One request, served alone on a fresh pool.\<close>

definition alone :: "kernel_env \<Rightarrow> kernel_request \<Rightarrow> instant list \<Rightarrow> kdb \<Rightarrow> kernel_pool" where
  "alone env r ts s = (case run (serve env r) ts s of (p, s') \<Rightarrow> \<lparr> store = s', sessions = (\<lambda>_. None)(0 \<mapsto> (r, p)) \<rparr>)"

lemma alone_history:
  assumes "kdb_ok s"
  shows "history env s (alone env r ts s)"
proof -
  let ?\<sigma> = "idle_pool s :: kernel_pool"
  let ?\<tau> = "?\<sigma>\<lparr> sessions := (sessions ?\<sigma>)(0 \<mapsto> (r, serve env r)) \<rparr>"
  obtain q s' where r: "run (serve env r) ts s = (q, s')" by fastforce
  have "pool_run (serve env) ?\<sigma> ?\<tau>" by (rule run_step[OF run_start opened]) (simp add: idle_pool_def)
  moreover have "pool_run (serve env) ?\<tau> (?\<tau>\<lparr> store := s', sessions := (sessions ?\<tau>)(0 \<mapsto> (r, q)) \<rparr>)"
    by (rule pool_alone[where ts = ts and p = "serve env r"]) (simp_all add: r idle_pool_def)
  ultimately have "pool_run (serve env) ?\<sigma> (?\<tau>\<lparr> store := s', sessions := (sessions ?\<tau>)(0 \<mapsto> (r, q)) \<rparr>)"
    by (rule pool_run_trans[rotated])
  then show ?thesis using assms r by (simp add: history_def alone_def idle_pool_def)
qed

end
