(* ===== verification/Kernel_Facts.thy ===== *)
theory Kernel_Facts
  imports Kernel_System
begin

text \<open>
  Lemmas about single commands on which the properties of \<open>Kernel_Claims\<close> rest: which values they can
  return, which of them a caller without authority cannot get past and what it changes then, which use a
  grant up, and what a settlement leaves behind.
\<close>

subsection \<open>Rows\<close>

lemma one_active_unique:
  "one_active act key rs \<Longrightarrow> distinct (map f rs) \<Longrightarrow> x \<in> set rs \<Longrightarrow> y \<in> set rs \<Longrightarrow> act x \<Longrightarrow> act y \<Longrightarrow> key x = key y \<Longrightarrow> x = y"
  using one_active_inj[of rs act key] by (auto simp: distinct_map dest: inj_onD)

lemma rows_kept_prefix: "rows_kept (=) xs ys \<Longrightarrow> \<exists>zs. ys = xs @ zs"
  by (metis append_take_drop_id list.rel_eq rows_kept_def)

lemma find_unique: "distinct (map f rs) \<Longrightarrow> r \<in> set rs \<Longrightarrow> f r = i \<Longrightarrow> find (\<lambda>x. f x = i) rs = Some r"
  by (induction rs) auto

subsection \<open>Statements that are served\<close>

named_theorems run_simps \<open>runs of a command whose statements are served\<close>

lemma run_exec [run_simps]:
  "in_answer t = Served \<Longrightarrow> run (bind_prog (exec f) k) (t # ts) s =
     (case f t s of (Inl m, _) \<Rightarrow> (Err (Other m), s) | (Inr x, s') \<Rightarrow> run (k x) ts s')"
  "in_answer t = Served \<Longrightarrow> run (exec f) (t # ts) s =
     (case f t s of (Inl m, _) \<Rightarrow> (Err (Other m), s) | (Inr x, s') \<Rightarrow> (Ret x, s'))"
  by (auto simp: exec_def stmt_def split: prod.split sum.split)

lemma run_query [run_simps]:
  "in_answer t = Served \<Longrightarrow> run (bind_prog (query f) k) (t # ts) s = run (k (f t s)) ts s"
  "in_answer t = Served \<Longrightarrow> run (query f) (t # ts) s = (Ret (f t s), s)"
  by (auto simp: query_def stmt_def)

lemma run_observe [run_simps]: "run (bind_prog (observe f) k) (t # ts) s = run (k (f t)) ts s"
  by (simp add: observe_def)

lemma run_publish [run_simps]:
  "run (bind_prog (publish e) k) (t # ts) s = run (k ()) ts (s\<lparr> published := published s @ [e] \<rparr>)"
  by (simp add: publish_def stmt_def)

lemma run_attempt [run_simps]:
  "in_answer t = Served \<Longrightarrow> run (bind_prog (attempt (bind_prog (query f) h)) k) (t # ts) s = run (bind_prog (attempt (h (f t s))) k) ts s"
  "in_answer t = Served \<Longrightarrow> run (bind_prog (attempt (exec g)) l) (t # ts) s =
     (case g t s of (Inl m, _) \<Rightarrow> run (l (Inl (Other m))) ts s | (Inr x, s') \<Rightarrow> run (l (Inr x)) ts s')"
  by (auto simp: query_def exec_def stmt_def split: prod.split sum.split)

lemmas run_flat [run_simps] = bind_bind then_prog_def

text \<open>The continuation of a command is not rewritten before its turn.\<close>

lemma bind_weak: "p = p' \<Longrightarrow> bind_prog p k = bind_prog p' k"
  by simp

definition event_reply :: "kernel_env \<Rightarrow> json \<Rightarrow> shared_event \<Rightarrow> json" where
  "event_reply env args e = JObject [(''schema'', JString ''missiond.shared-event.v1''), (''id'', JString (se_id e)),
     (''stream_id'', JString (unwrap_or (string_args args [''stream_id'', ''streamId'']) ''default'')), (''seq'', JInt (se_seq e)),
     (''event_kind'', JString (unwrap_or (string_args args [''event_kind'', ''eventKind'']) ''shared_memory_event'')),
     (''created_at'', JString (rfc3339 env (se_created e)))]"

lemma run_append_event:
  assumes "in_answer t = Served" "in_uuid t \<notin> se_id ` set (shared_events s)"
    "\<forall>e \<in> set (shared_events s). event_key e \<noteq> event_key (shared_row t args (next_seq s))"
  shows "run (bind_prog (append_event env args) k) (t # t2 # ts) s = run (k (event_reply env args (shared_row t args (next_seq s)))) ts
    (s\<lparr> shared_events := shared_events s @ [shared_row t args (next_seq s)], next_seq := next_seq s + 1,
      published := published s @ [ExternalServiceEvent (in_uuid t) (unwrap_or (string_args args [''event_kind'', ''eventKind'']) ''shared_memory_event'')] \<rparr>)"
proof -
  have "find (\<lambda>d. event_key d = event_key (shared_row t args (next_seq s))) (shared_events s) = None"
    using assms(3) by (auto simp: find_None_iff)
  moreover have "se_id (shared_row t args (next_seq s)) = in_uuid t" by (simp add: shared_row_def)
  ultimately show ?thesis using assms(1,2)
    by (simp add: append_event_def insert_event_def run_simps Let_def event_reply_def del: string_args.simps)
qed

lemma event_row [simp]:
  "se_id (shared_row t args n) = in_uuid t"
  "event_key (shared_row t args n) = (unwrap_or (string_args args [''stream_id'', ''streamId'']) ''default'', string_args args [''idempotency_key'', ''idempotencyKey''])"
  by (simp_all add: shared_row_def event_key_def del: string_args.simps)

lemma job_args [simp]:
  "j_get (job_event_args p t k a n b) ''stream_id'' = Some (JString ''execution-control-plane'')"
  "j_get (job_event_args p t k a n b) ''event_kind'' = Some (JString k)"
  "j_get (job_event_args p t k a n b) ''idempotency_key'' = Some (JString (''job-event:'' @ t @ '':'' @ k @ '':'' @ timestamp_millis n))"
  by (simp_all add: job_event_args_def)

lemma show_zero [simp]: "show_nat 0 = ''0''"
  by code_simp

subsection \<open>Values\<close>

lemma gives_stmt: "(\<And>t s x s'. f t s = (Inr x, s') \<Longrightarrow> V x) \<Longrightarrow> gives V (stmt f)"
  unfolding stmt_def by (auto simp: map_prod_def split_beta) (metis gives.intros(1,2) of_res.elims prod.collapse)

lemma gives_observe: "gives (\<lambda>x. \<exists>t. x = f t) (observe f)"
  unfolding observe_def by auto

lemma gives_deny: "gives V (deny_capability req)"
  unfolding deny_capability_def by (auto intro: gives_then)

lemma gives_query: "(\<And>t s. V (f t s)) \<Longrightarrow> gives V (query f)"
  unfolding query_def by (rule gives_stmt) (auto split: answer.splits)

lemma gives_of_res: "(\<And>x. r = Inr x \<Longrightarrow> V x) \<Longrightarrow> gives V (of_res r)"
  by (cases r) auto

lemma gives_if: "(b \<Longrightarrow> gives V p) \<Longrightarrow> (\<not> b \<Longrightarrow> gives V q) \<Longrightarrow> gives V (if b then p else q)"
  by simp

lemma gives_require: "gives (\<lambda>gid. cc_grant req = Some gid \<or> cc_grant req = None \<and> cc_bypass req \<and> cc_subject_kind req \<in> set bypass_kinds)
    (require_capability req)"
proof (cases "cc_grant req")
  case None
  then show ?thesis by (auto simp: require_capability_def intro!: gives_then gives_deny)
next
  case (Some g)
  have "gives (\<lambda>row. \<forall>r. row = Some r \<longrightarrow> gr_id r = g) (query (\<lambda>t s. find (grant_matches g req (in_db_now t)) (grants s)))"
    by (rule gives_query) (auto simp: find_Some_iff grant_matches_def)
  then show ?thesis unfolding require_capability_def Some option.case
    by (rule gives_bind) (auto split: option.splits intro!: gives_then gives_deny)
qed

subsection \<open>Refusals\<close>

text \<open>A program that changes nothing but the audit trail, and whose values satisfy \<open>V\<close>.\<close>

definition audited_only :: "kdb \<Rightarrow> kdb \<Rightarrow> bool" where
  "audited_only s s' \<longleftrightarrow> (\<exists>as. s' = s\<lparr> audits := audits s @ as \<rparr>)"

lemma audited_only_refl [simp]: "audited_only s s"
  unfolding audited_only_def by (rule exI[of _ "[]"]) simp

lemma audited_only_trans: "audited_only s t \<Longrightarrow> audited_only t u \<Longrightarrow> audited_only s u"
  by (auto simp: audited_only_def)

inductive reads :: "('a \<Rightarrow> bool) \<Rightarrow> 'a kprog \<Rightarrow> bool" for V where
  reads_Ret: "V x \<Longrightarrow> reads V (Ret x)"
| reads_Err: "reads V (Err e)"
| reads_Atom: "(\<And>t s. reads V (fst (f t s)) \<and> audited_only s (snd (f t s))) \<Longrightarrow> reads V (Atom f)"

inductive_simps reads_simps [simp]: "reads V (Ret x)" "reads V (Err e)" "reads V (Atom f)"

lemma reads_bind: "reads V p \<Longrightarrow> (\<And>x. V x \<Longrightarrow> reads W (k x)) \<Longrightarrow> reads W (bind_prog p k)"
  by (induction rule: reads.induct) (auto simp: map_prod_def split_beta)

lemma reads_then: "reads V p \<Longrightarrow> reads W q \<Longrightarrow> reads W (then_prog p q)"
  unfolding then_prog_def by (erule reads_bind) simp

lemma reads_never: "reads (\<lambda>x. False) p \<Longrightarrow> reads V (bind_prog p k)"
  by (erule reads_bind) simp

lemma reads_run:
  "reads V p \<Longrightarrow> audited_only s (snd (run p ts s)) \<and> (result (fst (run p ts s)) = Some (Inr x) \<longrightarrow> V x)"
proof (induction arbitrary: ts s rule: reads.induct)
  case (reads_Atom f)
  show ?case
  proof (cases ts)
    case (Cons t us)
    obtain q s' where f: "f t s = (q, s')" by fastforce
    with reads_Atom[of t s] have "audited_only s s'"
      "audited_only s' (snd (run q us s')) \<and> (result (fst (run q us s')) = Some (Inr x) \<longrightarrow> V x)" by simp_all
    then show ?thesis using Cons f audited_only_trans by auto
  qed simp
qed auto

lemma reads_query: "(\<And>t s. V (f t s)) \<Longrightarrow> reads V (query f)"
  by (auto simp: query_def stmt_def split: answer.split)

lemma reads_of_res: "(\<And>x. r = Inr x \<Longrightarrow> V x) \<Longrightarrow> reads V (of_res r)"
  by (cases r) auto

lemma reads_observe: "reads (\<lambda>_. True) (observe f)"
  by (simp add: observe_def)

lemma reads_audit: "reads (\<lambda>_. True) (audit_of req g d c j)"
proof -
  have "audited_only s (s\<lparr> audits := audits s @ as \<rparr>)" for s as by (auto simp: audited_only_def)
  then show ?thesis
    by (auto simp: audit_of_def audit_capability_def exec_def stmt_def split: answer.split)
qed

lemma reads_deny: "reads V (deny_capability req)"
  unfolding deny_capability_def by (rule reads_then[OF reads_audit]) simp

lemma require_refuses:
  "cc_grant req = None \<Longrightarrow> \<not> (cc_bypass req \<and> cc_subject_kind req \<in> set bypass_kinds) \<Longrightarrow> reads V (bind_prog (require_capability req) k)"
  by (rule reads_never) (auto simp: require_capability_def intro: reads_deny)

lemma then_require_refuses:
  "cc_grant req = None \<Longrightarrow> \<not> cc_bypass req \<Longrightarrow> reads V (then_prog (require_capability req) q)"
  unfolding then_prog_def by (rule require_refuses) auto

lemma reads_contract: "reads (\<lambda>_. True) (task_runtime_contract task)"
  unfolding task_runtime_contract_def by (rule reads_bind[OF reads_query[of "\<lambda>_. True"]]) (auto split: option.split)

lemma reads_attempt_check: "reads (\<lambda>_. True) (check_current_attempt req contract)"
  unfolding check_current_attempt_def current_job_attempt_for_task_def
  by (auto split: option.split intro!: reads_bind[OF reads_query[of "\<lambda>_. True"]])

text \<open>Without a grant and without the right to pass by, a command has no successful end and changes nothing
  but the audit trail.\<close>

lemma refused_commands:
  "cr_grant c = None \<Longrightarrow> \<not> cr_bypass c \<Longrightarrow> reads V (claim_lease_typed env c)"
  "lr_grant r = None \<Longrightarrow> \<not> lr_bypass r \<Longrightarrow> reads V (release_lease env r)"
  "lr_grant r = None \<Longrightarrow> \<not> lr_bypass r \<Longrightarrow> reads V (heartbeat_lease env r)"
  "cc_grant k = None \<Longrightarrow> \<not> cc_bypass k \<Longrightarrow> reads V (capability_check_command k)"
  "sr_grant a = None \<Longrightarrow> \<not> sr_bypass a \<Longrightarrow> reads V (worker_settle env a)"
  "rr_grant p = None \<Longrightarrow> \<not> rr_bypass p \<Longrightarrow> reads V (task_result_put env p)"
  "gc_authority_grant g = None \<Longrightarrow> \<not> gc_bypass g \<Longrightarrow> reads V (capability_grant_command g)"
proof -
  show "reads V (claim_lease_typed env c)" if "cr_grant c = None" "\<not> cr_bypass c"
    unfolding claim_lease_typed_def using that by (intro then_require_refuses) (auto simp: claim_check_def)
  have found: "reads V (case found of None \<Rightarrow> Err e | Some l \<Rightarrow> then_prog (require_capability (lease_check v r l)) (q l))"
    if "lr_grant r = None" "\<not> lr_bypass r" for found v r q V and e
    using that by (auto split: option.split intro!: then_require_refuses simp: lease_check_def)
  show "reads V (release_lease env r)" "reads V (heartbeat_lease env r)" if "lr_grant r = None" "\<not> lr_bypass r"
    unfolding release_lease_def heartbeat_lease_def Let_def lease_by_id_def
    by (auto intro!: reads_bind[OF reads_observe] reads_bind[OF reads_query[of "\<lambda>_. True"]] found[OF that])
  show "reads V (capability_check_command k)" if "cc_grant k = None" "\<not> cc_bypass k"
    unfolding capability_check_command_def using that by (intro require_refuses) auto
  show "reads V (worker_settle env a)" if "sr_grant a = None" "\<not> sr_bypass a"
  proof -
    have "reads V (bind_prog (task_runtime_contract (sr_task a)) (\<lambda>c. bind_prog (require_capability (settle_check a c)) (q c)))"
      for q :: "task_contract \<Rightarrow> string \<Rightarrow> json kprog"
      by (rule reads_bind[OF reads_contract], rule require_refuses) (auto simp: settle_check_def that)
    then show ?thesis unfolding worker_settle_def
      by (intro reads_bind[OF reads_of_res[of _ "\<lambda>_. True"]]) auto
  qed
  show "reads V (task_result_put env p)" if "rr_grant p = None" "\<not> rr_bypass p"
    unfolding task_result_put_def
    by (rule reads_bind[OF reads_contract], rule reads_then[OF reads_attempt_check], rule require_refuses)
      (auto simp: result_check_def that)
  show "reads V (capability_grant_command g)" if "gc_authority_grant g = None" "\<not> gc_bypass g"
    unfolding capability_grant_command_def by (rule require_refuses) (auto simp: delegation_check_def Let_def that)
qed

text \<open>Who may pass by as the authority of a new grant: the arguments name it under keys of their own, and an
  authority of no stated kind is an operator.\<close>

definition grant_bypass_allowed :: "json \<Rightarrow> bool" where
  "grant_bypass_allowed args = (let k = unwrap_or (string_args args authority_kind_keys) ''operator'' in
     k = ''system'' \<or> k = ''daemon'' \<or> k = ''operator'' \<and> bool_arg_any args confirm_keys)"

text \<open>A call without authority: it names no grant, and its caller may not pass by.\<close>

definition no_authority :: "json \<Rightarrow> bool" where
  "no_authority args \<longleftrightarrow> (if action_arg args \<in> {''capability_grant'', ''grant_capability''}
     then string_args args authority_grant_keys = None \<and> \<not> grant_bypass_allowed args
     else grant_id_arg args = None \<and> \<not> system_or_operator_bypass_allowed args)"

text \<open>A parsed command has the grant and the right to pass by of its arguments.\<close>

lemma parsed_authority:
  "claim_lease_command_from_args args = Inr c \<Longrightarrow> cr_grant c = grant_id_arg args \<and> cr_bypass c = system_or_operator_bypass_allowed args"
  "lease_command_from_args verb args = Inr r \<Longrightarrow> lr_grant r = grant_id_arg args \<and> lr_bypass r = system_or_operator_bypass_allowed args"
  "capability_check_command_from_args args = Inr k \<Longrightarrow> cc_grant k = grant_id_arg args \<and> cc_bypass k = system_or_operator_bypass_allowed args"
  "worker_settle_request_from_args args = Inr a \<Longrightarrow> sr_grant a = grant_id_arg args \<and> sr_bypass a = system_or_operator_bypass_allowed args"
  "task_result_put_request_from_args env now args = Inr p \<Longrightarrow> rr_grant p = grant_id_arg args \<and> rr_bypass p = system_or_operator_bypass_allowed args"
  "capability_grant_command_from_args args = Inr g \<Longrightarrow> gc_authority_grant g = string_args args authority_grant_keys \<and>
     gc_bypass g = grant_bypass_allowed args"
  by (clarsimp simp: claim_lease_command_from_args_def capability_grant_command_from_args_def grant_bypass_allowed_def lease_command_from_args_def capability_check_command_from_args_def
    worker_settle_request_from_args_def task_result_put_request_from_args_def bind_res_Inr Let_def simp del: string_args.simps)+

lemma refused_tool: "(\<And>c. r = Inr c \<Longrightarrow> reads V (p c)) \<Longrightarrow> reads V (command_of r p)"
  unfolding command_of_def by (cases r) auto

subsection \<open>Using a grant up\<close>

text \<open>The grant has not been used: no row with its identifier is inactive.\<close>

definition unspent :: "string \<Rightarrow> kdb \<Rightarrow> bool" where
  "unspent g s \<longleftrightarrow> (\<forall>r \<in> set (grants s). gr_id r = g \<longrightarrow> gr_status r = GActive)"

lemma unspent_back: "kdb_grows s s' \<Longrightarrow> unspent g s' \<Longrightarrow> unspent g s"
  unfolding unspent_def
proof
  fix r
  assume "kdb_grows s s'" and u: "\<forall>r \<in> set (grants s'). gr_id r = g \<longrightarrow> gr_status r = GActive" and r: "r \<in> set (grants s)"
  then obtain q where "q \<in> set (grants s')" "grant_kept r q" using rows_kept_in[of grant_kept "grants s" "grants s'" r]
    by (auto simp: kdb_grows_def)
  with u show "gr_id r = g \<longrightarrow> gr_status r = GActive" by (auto simp: grant_kept_def)
qed

lemma mark_spends:
  assumes "\<And>n. n \<noteq> 1 \<Longrightarrow> spends kdb_ok (unspent g) (k n)"
  shows "spends kdb_ok (unspent g) (bind_prog (mark_consumed g op task sk si) k)"
proof -
  let ?c = "\<lambda>t :: instant. consumable g op task sk si (in_db_now t)"
  let ?s = "\<lambda>(t :: instant) s. s\<lparr> grants := update_where (?c t) (\<lambda>r. r\<lparr> gr_status := GConsumed, gr_consumed := Some (in_db_now t) \<rparr>) (grants s) \<rparr>"
  have one: "unspent g s \<and> \<not> unspent g (?s t s)" if ok: "kdb_ok s" and n: "rows_affected (?c t) (grants s) = 1" for s and t :: instant
  proof -
    from n have "filter (?c t) (grants s) \<noteq> []" by (auto simp: rows_affected_def)
    then obtain x where x: "x \<in> set (grants s)" "?c t x" by (auto simp: filter_empty_conv)
    then have a: "gr_id x = g" "gr_status x = GActive" by (auto simp: consumable_active[OF x(2)])
    have "distinct (map gr_id (grants s))" using kdb_grants[OF ok] by (simp add: grants_ok_def)
    then have "\<forall>r \<in> set (grants s). gr_id r = g \<longrightarrow> r = x" using x(1) a(1) by (auto simp: distinct_map dest: inj_onD)
    then have "unspent g s" using a(2) by (auto simp: unspent_def)
    moreover have rows: "grants (?s t s) = update_where (?c t) (\<lambda>r. r\<lparr> gr_status := GConsumed, gr_consumed := Some (in_db_now t) \<rparr>) (grants s)"
      by simp
    then have "\<not> unspent g (?s t s)"
    proof (intro notI)
      assume u: "unspent g (?s t s)"
      have "(if ?c t x then x\<lparr> gr_status := GConsumed, gr_consumed := Some (in_db_now t) \<rparr> else x) \<in> set (grants (?s t s))"
        using imageI[OF x(1), of "\<lambda>r. if ?c t r then r\<lparr> gr_status := GConsumed, gr_consumed := Some (in_db_now t) \<rparr> else r"]
        unfolding rows update_where_simps .
      from u[unfolded unspent_def, rule_format, OF this] x(2) a(1) show False by simp
    qed
    ultimately show ?thesis ..
  qed
  show ?thesis unfolding mark_consumed_def exec_def stmt_def Let_def bind_prog.simps spends_simps(3)
  proof (intro allI impI)
    fix t s
    assume ok: "kdb_ok s"
    show "spends kdb_ok (unspent g) (fst (map_prod (\<lambda>p. bind_prog p k) id (map_prod of_res id (case in_answer t of
        Served \<Rightarrow> (case (Inr (rows_affected (?c t) (grants s)), ?s t s) of (Inl m, _) \<Rightarrow> (Inl (Other m), s) | (Inr x, s') \<Rightarrow> (Inr x, s'))
      | Refused m \<Rightarrow> (Inl (Other m), s) | Lost m \<Rightarrow> (Inl (Other m), snd (Inr (rows_affected (?c t) (grants s)), ?s t s)))))) \<or>
      unspent g s \<and> \<not> unspent g (snd (map_prod (\<lambda>p. bind_prog p k) id (map_prod of_res id (case in_answer t of
        Served \<Rightarrow> (case (Inr (rows_affected (?c t) (grants s)), ?s t s) of (Inl m, _) \<Rightarrow> (Inl (Other m), s) | (Inr x, s') \<Rightarrow> (Inr x, s'))
      | Refused m \<Rightarrow> (Inl (Other m), s) | Lost m \<Rightarrow> (Inl (Other m), snd (Inr (rows_affected (?c t) (grants s)), ?s t s))))))"
      using one[OF ok, of t] assms by (cases "in_answer t") auto
  qed
qed

lemma consume_spends: "\<not> is_bypass g \<Longrightarrow> spends kdb_ok (unspent g) (consume_capability_grant g op task sk si)"
  unfolding consume_capability_grant_def by (simp, rule mark_spends) (simp add: spends_then)

lemma settle_spends:
  assumes "sr_grant a = Some g" "sr_status a = ''done''" "\<not> is_bypass g"
  shows "spends kdb_ok (unspent g) (worker_settle env a)"
proof -
  have "gives (\<lambda>st. st = ''done'') (of_res (normalize_worker_settle_status (Some (sr_status a))))"
    by (rule gives_of_res) (use assms(2) in \<open>auto simp: normalize_worker_settle_status_def\<close>)
  then show ?thesis unfolding worker_settle_def
  proof (rule spends_bind)
    fix st :: string
    assume st: "st = ''done''"
    have req: "gives ((=) g) (require_capability (settle_check a c))" for c
      using gives_require[of "settle_check a c"] assms(1) by (simp add: settle_check_def)
    show "spends kdb_ok (unspent g) (if to_lower st = ''done'' \<and> sr_hash a = None
       then Err (Control EVIDENCE_REQUIRED (''worker_settle(done) for task '' @ sr_task a @ '' requires artifact_hash'')
         (JObject [(''task_id'', JString (sr_task a)), (''required'', JString ''artifact_hash'')]))
       else bind_prog (task_runtime_contract (sr_task a)) (\<lambda>contract.
         bind_prog (require_capability (settle_check a contract)) (\<lambda>gid.
         then_prog (check_settle_attempt a contract)
         (then_prog (if to_lower st = ''done''
            then consume_capability_grant gid ''settle'' (sr_task a) (sr_subject_kind a) (sr_subject_id a) else Ret ())
         (finish_settle env a st)))))"
      using st assms(3)
      by (simp add: to_lower_def lower_char_def)
        (rule impI, rule spends_bind[OF gives_True], rule spends_bind[OF req], hypsubst, rule spends_then, rule spends_then_first,
          rule consume_spends)
  qed
qed

subsection \<open>What a settlement leaves\<close>

lemma sat_first:
  assumes "sat P p (\<lambda>_. F)" "lasts F" "\<And>x. safe (k x)"
  shows "sat P (bind_prog p k) (\<lambda>_. F)"
  by (rule sat_bind[OF assms(1)]) (use assms safe_keeps in auto)

lemma sat_then_safe: "sat P p (\<lambda>_. F) \<Longrightarrow> lasts F \<Longrightarrow> safe q \<Longrightarrow> sat P (then_prog p q) (\<lambda>_. F)"
  unfolding then_prog_def by (rule sat_first)

lemma sat_conj: "sat (\<lambda>s. P s) p (\<lambda>_ s. R s) \<Longrightarrow> lasts F \<Longrightarrow> sat (\<lambda>s. P s \<and> F s) p (\<lambda>_ s. R s \<and> F s)"
  by (rule sat_frame)

definition proven :: "string \<Rightarrow> string option \<Rightarrow> kdb \<Rightarrow> bool" where
  "proven task hash s \<longleftrightarrow> (\<exists>h. hash = Some h \<and> (\<exists>q \<in> set (results s). has_evidence task h q))"

lemma lasts_proven [lasting]: "lasts (proven task hash)"
proof -
  have "result_kept r q \<Longrightarrow> has_evidence task h r \<Longrightarrow> has_evidence task h q" for r q h
    by (auto simp: result_kept_def has_evidence_def)
  then show ?thesis unfolding proven_def[abs_def] by (intro lasting)
qed

lemma sat_settle_evidence: "sat (\<lambda>s. True) (check_settle_evidence task st hash) (\<lambda>_ s. to_lower st = ''done'' \<longrightarrow> proven task hash s)"
proof (cases "to_lower st = ''done'' \<and> hash \<noteq> None")
  case True
  then obtain h where h: "hash = Some h" by blast
  have p: "lasts (\<lambda>s. proven task hash s)" by (rule lasting)
  have "sat (\<lambda>s. True) (evidence_exists task h) (\<lambda>b s. b \<longrightarrow> proven task hash s)"
    by (rule sat_post[OF sat_evidence]) (auto simp: proven_def h)
  then show ?thesis using True unfolding check_settle_evidence_def h
    by (simp, intro sat_bind[where R = "\<lambda>b s. b \<longrightarrow> proven task hash s"]) (auto simp: h intro!: lasting p sat_Ret)
next
  case False
  then show ?thesis by (auto simp: check_settle_evidence_def intro: sat_Ret)
qed

lemma sat_settle_board: "sat (\<lambda>s. True) (settle_board_task env task st hash summary) (\<lambda>_ s. to_lower st = ''done'' \<longrightarrow> proven task hash s)"
  unfolding settle_board_task_def Let_def
  by (rule sat_then_safe[OF sat_settle_evidence]) (intro lasting safe_intros)+

lemma sat_finish: "sat (\<lambda>s. True) (finish_settle env a st) (\<lambda>_ s. to_lower st = ''done'' \<longrightarrow> proven (sr_task a) (sr_hash a) s)"
  unfolding finish_settle_def
  by (rule sat_safe_bind[OF safe_conv lasts_const], rule sat_safe_bind[OF safe_release_task lasts_const],
      rule sat_first[OF sat_settle_board]) (intro lasting safe_intros)+

text \<open>A grant that was used has terms, status and time; \<open>used\<close> is what \<open>consume_capability_grant\<close> leaves.\<close>

definition used :: "string \<Rightarrow> kdb \<Rightarrow> bool" where
  "used gid s \<longleftrightarrow> is_bypass gid \<or> (\<exists>g \<in> set (grants s). gr_id g = gid \<and> gr_status g = GConsumed)"

lemma lasts_used [lasting]: "lasts (used gid)"
proof -
  have "grant_kept g h \<Longrightarrow> gr_id g = gid \<and> gr_status g = GConsumed \<Longrightarrow> gr_id h = gid \<and> gr_status h = GConsumed" for g h
    by (auto simp: grant_kept_def)
  then show ?thesis unfolding used_def[abs_def] by (intro lasting)
qed

lemma sat_mark: "sat (\<lambda>s. True) (mark_consumed gid op task sk si) (\<lambda>n s. n = 1 \<longrightarrow> used gid s)"
  unfolding mark_consumed_def Let_def
proof (rule sat_exec)
  fix t :: instant and s r s'
  let ?c = "consumable gid op task sk si (in_db_now t)"
  let ?f = "\<lambda>g. g\<lparr> gr_status := GConsumed, gr_consumed := Some (in_db_now t) \<rparr>"
  assume s: "kdb_ok s" and e: "(Inr (rows_affected ?c (grants s)), s\<lparr> grants := update_where ?c ?f (grants s) \<rparr>) = (r, s')"
  have rows: "grants (s\<lparr> grants := update_where ?c ?f (grants s) \<rparr>) = update_where ?c ?f (grants s)" by simp
  have "used gid (s\<lparr> grants := update_where ?c ?f (grants s) \<rparr>)" if "rows_affected ?c (grants s) = 1"
  proof -
    from that have "filter ?c (grants s) \<noteq> []" by (auto simp: rows_affected_def)
    then obtain x where x: "x \<in> set (grants s)" "?c x" by (auto simp: filter_empty_conv)
    from imageI[OF x(1), of "\<lambda>r. if ?c r then ?f r else r"] x(2)
    have "?f x \<in> set (update_where ?c ?f (grants s))" by (simp only: update_where_simps if_True)
    then show ?thesis unfolding used_def rows using consumable_active[OF x(2)] by (intro disjI2 bexI[of _ "?f x"]) auto
  qed
  then show "kept_ok s s' \<and> (\<forall>x. r = Inr x \<longrightarrow> x = 1 \<longrightarrow> used gid s')"
    using e consume_kept[OF s] by auto
qed (intro lasting)

lemma sat_consume: "sat (\<lambda>s. True) (consume_capability_grant gid op task sk si) (\<lambda>_ s. used gid s)"
proof (cases "is_bypass gid")
  case True
  then show ?thesis by (auto simp: consume_capability_grant_def used_def intro: sat_Ret)
next
  case False
  show ?thesis unfolding consume_capability_grant_def if_not_P[OF False]
  proof (rule sat_bind[OF sat_mark])
    fix n :: nat
    show "sat (\<lambda>s. n = 1 \<longrightarrow> used gid s) (if n \<noteq> 1
       then then_prog (audit_capability (Some gid) (Some sk) (Some si) op ''task'' task ''denied'' (Some CAPABILITY_DENIED)
             (JObject [(''reason'', JString ''exact capability grant was not consumable''), (''task_id'', JString task),
               (''grant_id'', JString gid), (''subject_kind'', JString sk), (''subject_id'', JString si)]))
           (Err (Control CAPABILITY_DENIED
              (''exact '' @ op @ '' grant '' @ gid @ '' for task '' @ task @ '' was not consumable'')
              (JObject [(''task_id'', JString task), (''grant_id'', JString gid), (''subject_kind'', JString sk),
                (''subject_id'', JString si), (''required'', JString ''active exact unconsumed grant'')])))
       else audit_capability (Some gid) (Some sk) (Some si) op ''task'' task ''allowed'' None
             (JObject [(''task_id'', JString task), (''grant_id'', JString gid), (''consumed'', JBool True),
               (''exact_grant'', JBool True)])) (\<lambda>_ s. used gid s)"
    proof (cases "n = 1")
      case True
      then show ?thesis using safe_keeps[OF safe_audit lasts_used] by simp
    next
      case False
      have "sat (\<lambda>s. True) (then_prog (audit_capability a b c d e f g h i) (Err x)) R" for a b c d e f g h i x and R :: "unit \<Rightarrow> kdb \<Rightarrow> bool"
        by (rule sat_safe_then[OF safe_audit lasts_const]) simp
      with False show ?thesis by simp
    qed
  qed (intro lasting)
qed

text \<open>A settlement that ends well as done: it was allowed, its grant is used, its artifact is there.\<close>

definition settled_done :: "settle_request \<Rightarrow> kdb \<Rightarrow> bool" where
  "settled_done a s \<longleftrightarrow> proven (sr_task a) (sr_hash a) s \<and> (\<exists>c gid. allowed_by (settle_check a c) gid s \<and> used gid s)"

lemma sat_settle: "sat (\<lambda>s. True) (worker_settle env a) (\<lambda>_ s. sr_status a = ''done'' \<longrightarrow> settled_done a s)"
proof (cases "sr_status a = ''done''")
  case False
  then show ?thesis using safe_settle[of env a] by (simp add: safe_def)
next
  case True
  have low: "to_lower ''done'' = ''done''" by (simp add: to_lower_def lower_char_def)
  have last: "lasts (\<lambda>s. proven (sr_task a) (sr_hash a) s \<and> used gid s \<and> allowed_by (settle_check a c) gid s)" for c gid
    by (intro lasting)
  have tail: "sat (\<lambda>s. allowed_by (settle_check a c) gid s)
     (then_prog (check_settle_attempt a c) (then_prog (consume_capability_grant gid ''settle'' (sr_task a) (sr_subject_kind a) (sr_subject_id a))
       (finish_settle env a ''done''))) (\<lambda>_ s. sr_status a = ''done'' \<longrightarrow> settled_done a s)" for c gid
  proof (rule sat_safe_then[OF safe_settle_attempt(1) lasts_allowed], rule sat_then)
    show "sat (allowed_by (settle_check a c) gid) (consume_capability_grant gid ''settle'' (sr_task a) (sr_subject_kind a) (sr_subject_id a))
       (\<lambda>_ s. used gid s \<and> allowed_by (settle_check a c) gid s)"
      by (rule sat_pre[OF sat_conj[OF sat_consume lasts_allowed]]) simp
    show "lasts (\<lambda>s. used gid s \<and> allowed_by (settle_check a c) gid s)" by (intro lasting)
    from sat_conj[OF sat_finish this, of env a "''done''"]
    show "sat (\<lambda>s. used gid s \<and> allowed_by (settle_check a c) gid s) (finish_settle env a ''done'')
       (\<lambda>_ s. sr_status a = ''done'' \<longrightarrow> settled_done a s)"
      by (rule sat_pre[OF sat_post]) (auto simp: settled_done_def low)
  qed
  have st: "of_res (normalize_worker_settle_status (Some (sr_status a))) = Ret ''done''"
    by (simp add: True normalize_worker_settle_status_def)
  show ?thesis
  proof (cases "sr_hash a = None")
    case True
    then show ?thesis by (simp add: worker_settle_def st low)
  next
    case False
    then show ?thesis unfolding worker_settle_def st bind_prog.simps low
      by (simp only: simp_thms if_False if_True)
        (rule sat_safe_bind[OF safe_contract_ops(6) lasts_const], rule sat_bind[OF sat_require lasts_allowed], rule tail)
  qed
qed

text \<open>A lease that was released or prolonged under a grant lies in a scope that grants can name.\<close>

definition grantable :: "string \<Rightarrow> kdb \<Rightarrow> bool" where
  "grantable i s \<longleftrightarrow> (\<exists>l \<in> set (leases s). wl_id l = i \<and> wl_scope_kind l \<in> set grant_scopes)"

lemma lasts_scope: "lasts (\<lambda>s. \<exists>m \<in> set (leases s). wl_id m = i \<and> wl_scope_kind m = k)"
  by (rule lasts_lease) (auto simp: lease_kept_def)

lemma lasts_grantable [lasting]: "lasts (grantable i)"
  unfolding grantable_def[abs_def] by (rule lasts_lease) (auto simp: lease_kept_def)

lemma sat_lease_by_id: "sat (\<lambda>s. True) (lease_by_id i) (\<lambda>found s. \<forall>l. found = Some l \<longrightarrow>
    (\<exists>m \<in> set (leases s). wl_id m = i \<and> wl_scope_kind m = wl_scope_kind l))"
  unfolding lease_by_id_def
  by (rule sat_query) (auto simp: find_Some_iff intro!: lasts_all lasts_imp lasts_scope bexI nth_mem)

lemma allowed_grantable:
  assumes "kdb_ok s" "allowed_by (lease_check v r l) gid s" "lr_grant r = Some g"
  shows "wl_scope_kind l \<in> set grant_scopes"
proof -
  obtain x where "x \<in> set (grants s)" "grant_terms (lease_check v r l) gid x"
    using assms(2,3) by (auto simp: allowed_by_def lease_check_def granted_def)
  moreover from this(1) have "grant_checked x" using kdb_grants[OF assms(1)] by (simp add: grants_ok_def)
  ultimately show ?thesis by (simp add: grant_terms_def grant_checked_def lease_check_def)
qed

lemma sat_lease_authority:
  assumes "lr_grant r = Some g" "\<And>l. safe (q l)"
  shows "sat (\<lambda>s. \<forall>l. found = Some l \<longrightarrow> (\<exists>m \<in> set (leases s). wl_id m = i \<and> wl_scope_kind m = wl_scope_kind l))
    (case found of None \<Rightarrow> Err e | Some l \<Rightarrow> then_prog (require_capability (lease_check v r l)) (q l)) (\<lambda>_. grantable i)"
proof (cases found)
  case (Some l)
  let ?F = "\<lambda>s. \<exists>m \<in> set (leases s). wl_id m = i \<and> wl_scope_kind m = wl_scope_kind l"
  have "sat (\<lambda>s. True \<and> ?F s) (require_capability (lease_check v r l)) (\<lambda>gid s. allowed_by (lease_check v r l) gid s \<and> ?F s)"
    by (rule sat_frame[OF sat_require lasts_scope])
  then have "sat ?F (require_capability (lease_check v r l)) (\<lambda>_. grantable i)"
    by (rule sat_post[OF sat_pre]) (use allowed_grantable[OF _ _ assms(1)] in \<open>auto simp: grantable_def\<close>)
  with Some show ?thesis using assms(2) by (simp add: sat_then_safe lasts_grantable)
qed simp

lemma sat_lease_commands:
  assumes "lr_grant r = Some g"
  shows "sat (\<lambda>s. True) (release_lease env r) (\<lambda>_. grantable (trim (lr_claim r)))"
    and "sat (\<lambda>s. True) (heartbeat_lease env r) (\<lambda>_. grantable (trim (lr_claim r)))"
proof -
  have found: "lasts (\<lambda>s. \<forall>l. found = Some l \<longrightarrow> (\<exists>m \<in> set (leases s). wl_id m = i \<and> wl_scope_kind m = wl_scope_kind l))" for i and found :: "lease_row option"
    by (intro lasts_all lasts_imp lasts_scope)
  show "sat (\<lambda>s. True) (release_lease env r) (\<lambda>_. grantable (trim (lr_claim r)))"
    unfolding release_lease_def Let_def
    by (cases "trim (lr_claim r) = []", simp, simp only: if_False, rule sat_bind[OF sat_lease_by_id found],
      rule sat_lease_authority[OF assms]) (intro safe_intros)
  show "sat (\<lambda>s. True) (heartbeat_lease env r) (\<lambda>_. grantable (trim (lr_claim r)))"
    unfolding heartbeat_lease_def Let_def
    by (cases "trim (lr_claim r) = []", simp, simp only: if_False, rule sat_safe_bind[OF safe_observe lasts_const],
      rule sat_bind[OF sat_lease_by_id found], rule sat_lease_authority[OF assms]) (intro safe_intros)
qed

text \<open>The event an \<open>append_event\<close> with a key answers with.\<close>

definition answers_event :: "string \<times> string option \<Rightarrow> json \<Rightarrow> kdb \<Rightarrow> bool" where
  "answers_event key v s \<longleftrightarrow> (\<exists>e \<in> set (shared_events s). event_key e = key \<and> j_get v ''id'' = Some (JString (se_id e)) \<and>
     j_get v ''seq'' = Some (JInt (se_seq e)))"

definition key_of :: "json \<Rightarrow> string \<times> string option" where
  "key_of args = (unwrap_or (string_args args [''stream_id'', ''streamId'']) ''default'', string_args args [''idempotency_key'', ''idempotencyKey''])"

lemma sat_insert_event: "sat (\<lambda>s. True) (insert_event args) (\<lambda>e s. \<exists>d \<in> set (shared_events s). d = e \<and> event_key d = key_of args)"
  unfolding insert_event_def Let_def
proof (rule sat_exec)
  fix t :: instant and s s' :: kdb and r
  let ?e = "shared_row t args (next_seq s)"
  let ?f = "\<lambda>(t :: instant) (s :: kdb). case if se_key (shared_row t args (next_seq s)) = None then None
        else find (\<lambda>d. event_key d = event_key (shared_row t args (next_seq s))) (shared_events s) of
      None \<Rightarrow> if se_id (shared_row t args (next_seq s)) \<in> se_id ` set (shared_events s) then (Inl ''shared_events_pkey'', s)
        else (Inr (shared_row t args (next_seq s)), s\<lparr> shared_events := shared_events s @ [shared_row t args (next_seq s)], next_seq := next_seq s + 1 \<rparr>)
    | Some d \<Rightarrow> (Inr d, s\<lparr> next_seq := next_seq s + 1 \<rparr>)"
  assume s: "kdb_ok s" and f: "?f t s = (r, s')"
  have key: "event_key ?e = key_of args" by (simp add: key_of_def del: string_args.simps)
  have "kept_ok s s'"
    using s f kdb_events[OF s] events_ok_next events_ok_snoc[OF kdb_events[OF s], of ?e]
    by (auto split: option.splits if_splits simp: shared_row_def simp del: string_args.simps)
  moreover have "\<exists>d \<in> set (shared_events s'). d = x \<and> event_key d = key_of args" if "r = Inr x" for x
    using f that key by (auto split: option.splits if_splits simp: find_Some_iff simp del: event_row)
  ultimately show "kept_ok s s' \<and> (\<forall>x. r = Inr x \<longrightarrow> (\<exists>d \<in> set (shared_events s'). d = x \<and> event_key d = key_of args))" by blast
qed (intro lasting)

lemma sat_append: "sat (\<lambda>s. True) (append_event env args) (\<lambda>v. answers_event (key_of args) v)"
  unfolding append_event_def Let_def
proof (rule sat_bind[OF sat_insert_event])
  fix e
  let ?F = "\<lambda>s. \<exists>d \<in> set (shared_events s). d = e \<and> event_key d = key_of args"
  show "lasts ?F" by (rule lasts_event)
  show "sat ?F (then_prog (publish (ExternalServiceEvent (se_id e) (unwrap_or (string_args args [''event_kind'', ''eventKind'']) ''shared_memory_event'')))
      (Ret (JObject [(''schema'', JString ''missiond.shared-event.v1''), (''id'', JString (se_id e)),
        (''stream_id'', JString (unwrap_or (string_args args [''stream_id'', ''streamId'']) ''default'')),
        (''seq'', JInt (se_seq e)), (''event_kind'', JString (unwrap_or (string_args args [''event_kind'', ''eventKind'']) ''shared_memory_event'')),
        (''created_at'', JString (rfc3339 env (se_created e)))]))) (answers_event (key_of args))"
    by (rule sat_safe_then[OF safe_publish lasts_event]) (auto simp: answers_event_def intro!: sat_Ret)
qed

subsection \<open>A settlement without its artifact\<close>

lemma failed_settle_run:
  assumes "find (\<lambda>d. tc_task d = sr_task a) (contracts s) = Some c" "rc_write (contract_view c) = []"
    "sr_status a = ''done''" "sr_hash a = Some h" "\<not> is_bypass g"
    and found: "\<And>k now. find (grant_matches g (settle_check a k) now) (grants s) = Some x"
    and grant: "\<And>k. cc_grant (settle_check a k) = Some g" and "gr_id x = g"
    and one: "rows_affected (consumable g ''settle'' (sr_task a) (sr_subject_kind a) (sr_subject_id a) (in_db_now t4)) (grants s) = 1"
    and none: "\<not> list_ex (has_evidence (sr_task a) h) (results s)"
    and served: "in_answer t1 = Served" "in_answer t2 = Served" "in_answer t3 = Served" "in_answer t4 = Served" "in_answer t5 = Served"
      "in_answer t7 = Served" "in_answer t8 = Served" "in_answer t9 = Served" "in_answer t10 = Served"
    and ids: "in_uuid t3 \<notin> au_id ` set (audits s)" "in_uuid t5 \<notin> au_id ` set (audits s)" "in_uuid t5 \<noteq> in_uuid t3"
  shows "\<exists>s'. run (worker_settle env a) [t1, t2, t3, t4, t5, t6, t7, t8, t9, t10] s = (Err (wrong_hash (sr_task a) h), s') \<and>
    grants s' = update_where (consumable g ''settle'' (sr_task a) (sr_subject_kind a) (sr_subject_id a) (in_db_now t4))
      (\<lambda>g. g\<lparr> gr_status := GConsumed, gr_consumed := Some (in_db_now t4) \<rparr>) (grants s) \<and>
    leases s' = update_where (\<lambda>l. lease_active l \<and> wl_task l = Some (sr_task a) \<and> held_by (sr_slot a) (wl_holder l)) (set_released t8) (leases s) \<and>
    board s' = board s"
proof -
  have low: "to_lower ''done'' = ''done''" by (simp add: to_lower_def lower_char_def)
  show ?thesis
    by (cases "sr_conversation a")
      (simp_all add: worker_settle_def normalize_worker_settle_status_def task_runtime_contract_def require_capability_def audit_of_def
        audit_capability_def consume_capability_grant_def mark_consumed_def finish_settle_def mark_worker_conversation_completed_def
        release_claims_for_task_def settle_board_task_def check_settle_evidence_def evidence_exists_def check_settle_attempt_def
        run_simps assms Let_def low del: update_where_simps cong: bind_weak option.case_cong_weak)
qed

end
