(* ===== verification/Kernel_Lock.thy ===== *)
theory Kernel_Lock
  imports Kernel_Facts
begin

text \<open>
  The work leases as a table of locks: who holds a scope and until when, and what a claim that the database
  serves does to it.
\<close>


definition lease_map :: "kdb \<Rightarrow> string \<times> string \<Rightarrow> (string \<times> int) option" where
  "lease_map s sc = map_option (\<lambda>l. (wl_holder l, wl_expires l)) (find (\<lambda>l. lease_active l \<and> lease_scope l = sc) (leases s))"

definition lock_claim :: "int \<Rightarrow> 'k \<Rightarrow> string \<Rightarrow> int \<Rightarrow> ('k \<Rightarrow> (string \<times> int) option) \<Rightarrow> (string \<times> int) option \<times> ('k \<Rightarrow> (string \<times> int) option)" where
  "lock_claim now sc owner until m = (case m sc of
      Some (h, d) \<Rightarrow> if now \<le> d then (Some (h, d), m) else (None, m(sc \<mapsto> (owner, until)))
    | None \<Rightarrow> (None, m(sc \<mapsto> (owner, until))))"

lemma in_update: "x \<in> set xs \<Longrightarrow> c x \<Longrightarrow> f x \<in> set (update_where c f xs)"
  by auto

lemma in_update_skip: "x \<in> set xs \<Longrightarrow> \<not> c x \<Longrightarrow> x \<in> set (update_where c f xs)"
  by (auto simp: image_iff intro: bexI[of _ x])

lemma find_update_other:
  "(\<And>l. l \<in> set ls \<Longrightarrow> c l \<Longrightarrow> \<not> P l \<and> \<not> P (f l)) \<Longrightarrow> find P (update_where c f ls) = find P ls"
  by (induction ls) (auto simp: update_where_def)

lemma update_none: "(\<And>l. l \<in> set ls \<Longrightarrow> \<not> c l) \<Longrightarrow> update_where c f ls = ls"
  by (induction ls) (auto simp: update_where_def)

lemma find_append: "find P (xs @ ys) = (case find P xs of None \<Rightarrow> find P ys | Some x \<Rightarrow> Some x)"
  by (induction xs) auto

lemma upsert_fresh:
  assumes "sc_id c \<notin> sc_id ` set cs"
  shows "\<exists>cs'. upsert_claim c (update_where (claim_at (sc_scope_kind c) (sc_scope_key c)) claim_expire cs) = Inr cs'"
proof -
  have "find (\<lambda>d. sc_id d = sc_id c) (update_where (claim_at (sc_scope_kind c) (sc_scope_key c)) claim_expire cs) = None"
  proof -
    have "sc_id d \<in> sc_id ` set cs" if "d \<in> set (update_where (claim_at (sc_scope_kind c) (sc_scope_key c)) claim_expire cs)" for d
      using that by (auto simp del: Un_iff)
    then show ?thesis using assms unfolding find_None_iff by metis
  qed
  moreover have "\<not> list_ex (claim_at (sc_scope_kind c) (sc_scope_key c)) (update_where (claim_at (sc_scope_kind c) (sc_scope_key c)) claim_expire cs)"
    by (auto simp: list_ex_iff claim_at_def)
  ultimately show ?thesis by (simp add: upsert_claim_def)
qed

lemma claim_held:
  assumes "kdb_ok s" "in_answer t = Served" "l \<in> set (leases s)" "lease_at (cr_scope_kind req) (cr_scope_key req) l" "in_db_now t \<le> wl_expires l"
  shows "\<exists>cs. run (claim env req) [t] s = (Err (conflict_error env req l), s\<lparr> claims := cs \<rparr>)"
proof -
  let ?here = "lease_at (cr_scope_kind req) (cr_scope_key req)"
  have one: "m = l" if "m \<in> set (leases s)" "?here m" for m
    using one_active_unique[where act = lease_active and key = lease_scope and f = wl_id, OF _ _ that(1) assms(3)] that(2) assms(4)
      kdb_leases[OF assms(1)] by (simp add: leases_ok_def lease_at_def)
  have same: "update_where (\<lambda>l. ?here l \<and> wl_expires l < in_db_now t) lease_expire (leases s) = leases s"
    by (rule update_none) (use one assms(5) in auto)
  have "newest (\<lambda>l. - wl_acquired l) (filter (\<lambda>l. ?here l \<and> in_db_now t \<le> wl_expires l) (leases s)) = Some l"
  proof (cases "newest (\<lambda>l. - wl_acquired l) (filter (\<lambda>l. ?here l \<and> in_db_now t \<le> wl_expires l) (leases s))")
    case None
    then show ?thesis using assms(3-5) by (auto simp: filter_empty_conv)
  next
    case (Some m)
    then show ?thesis using newest_in[OF Some] one by auto
  qed
  then show ?thesis using assms(2) by (auto simp: claim_def claim_tx_def Let_def same run_simps)
qed

lemma claim_free:
  assumes "kdb_ok s" "in_answer t = Served" "\<And>l. l \<in> set (leases s) \<Longrightarrow> lease_at (cr_scope_kind req) (cr_scope_key req) l \<Longrightarrow> wl_expires l < in_db_now t"
    "in_uuid t \<notin> wl_id ` set (leases s)" "in_uuid t \<notin> sc_id ` set (claims s)"
  shows "\<exists>cs. run (claim env req) [t] s = (Ret (claim_reply env (new_lease t req)), s\<lparr> leases := update_where
    (\<lambda>l. lease_at (cr_scope_kind req) (cr_scope_key req) l \<and> wl_expires l < in_db_now t) lease_expire (leases s) @ [new_lease t req], claims := cs \<rparr>)"
proof -
  let ?here = "lease_at (cr_scope_kind req) (cr_scope_key req)"
  let ?ls = "update_where (\<lambda>l. ?here l \<and> wl_expires l < in_db_now t) lease_expire (leases s)"
  let ?cs = "update_where (\<lambda>c. claim_at (cr_scope_kind req) (cr_scope_key req) c \<and> sc_expires c < in_db_now t) claim_expire (claims s)"
  have none: "\<not> ?here l" if "l \<in> set ?ls" for l
    using that assms(3) by (auto simp: lease_at_def)
  then have "newest (\<lambda>l. - wl_acquired l) (filter (\<lambda>l. ?here l \<and> in_db_now t \<le> wl_expires l) ?ls) = None"
    by (auto simp: filter_empty_conv)
  moreover have "in_uuid t \<notin> wl_id ` set ?ls" using assms(4) by (auto simp: image_iff)
  moreover have "\<not> list_ex ?here ?ls" using none by (auto simp: list_ex_iff)
  moreover have "sc_id (new_claim t req) \<notin> sc_id ` set ?cs" using assms(5) by (auto simp: image_iff new_claim_def)
  from upsert_fresh[OF this] obtain cs where "upsert_claim (new_claim t req)
      (update_where (claim_at (cr_scope_kind req) (cr_scope_key req)) claim_expire ?cs) = Inr cs" by (auto simp: new_claim_def)
  ultimately show ?thesis using assms(2) by (intro exI[of _ cs]) (simp add: claim_def claim_tx_def Let_def run_simps del: update_where_simps)
qed

end
