(* ===== verification/Kernel_Claims.thy ===== *)
theory Kernel_Claims
  imports Kernel_Lock
begin

text \<open>
  The properties of the control-plane kernel, each with a concrete history in which its hypotheses hold.
\<close>

subsection \<open>Concrete data\<close>

definition plain_env :: kernel_env where
  "plain_env = \<lparr> rfc3339 = (\<lambda>n. ''2026-01-01T'' @ show_int n), json_bytes = (\<lambda>_. ''{}''), sha256_hex = (\<lambda>s. s),
     pg_text = (\<lambda>n. ''2026-01-01 '' @ show_int n) \<rparr>"

definition at_time :: "int \<Rightarrow> string \<Rightarrow> instant" where
  "at_time now u = \<lparr> in_db_now = now, in_app_now = now, in_uuid = u, in_answer = Served, in_git = (\<lambda>_ _. Inl ''no git'') \<rparr>"

definition settle_grant :: grant_row where
  "settle_grant = \<lparr> gr_id = ''g'', gr_subject_kind = ''worker'', gr_subject_id = ''w'', gr_operation = ''settle'', gr_scope_kind = ''task'',
     gr_scope_key = ''t'', gr_project = None, gr_task = Some ''t'', gr_status = GActive, gr_issuer = ''m'', gr_evidence = None,
     gr_expires = None, gr_consumed = None, gr_details = JNull, gr_created = 0 \<rparr>"

definition open_contract :: contract_row where
  "open_contract = \<lparr> tc_id = ''c'', tc_task = ''t'', tc_project = None, tc_contract_id = ''c'', tc_dispatch = JNull, tc_read = JArray [],
     tc_write = JArray [], tc_must_not = JArray [], tc_grants = JArray [], tc_sandbox = None, tc_policy = None, tc_grounding = JArray [],
     tc_context = JArray [] \<rparr>"

definition done_result :: result_row where
  "done_result = \<lparr> ra_id = ''r'', ra_hash = ''h'', ra_project = None, ra_task = ''t'', ra_slot = Some ''w'', ra_conversation = None,
     ra_provider = None, ra_status = ''completed'', ra_summary = ''s'', ra_job = None, ra_attempt = None, ra_subject_kind = None,
     ra_subject_id = None, ra_grant = None, ra_created = 0 \<rparr>"

definition running_task :: board_row where
  "running_task = \<lparr> bt_id = ''t'', bt_title = ''T'', bt_status = ''running'', bt_category = ''c'', bt_project = None, bt_executor = Some ''w'',
     bt_executor_kind = None, bt_claimed = None, bt_lease = None, bt_updated = ''0'', bt_retries = 0, bt_assignee = None, bt_timeout = None \<rparr>"

definition worker_kdb :: kdb where
  "worker_kdb = empty_kdb\<lparr> grants := [settle_grant], contracts := [open_contract], results := [done_result], board := [running_task] \<rparr>"

definition done_request :: settle_request where
  "done_request = \<lparr> sr_task = ''t'', sr_project = None, sr_slot = Some ''w'', sr_conversation = None, sr_hash = Some ''h'', sr_status = ''done'',
     sr_summary = None, sr_grant = Some ''g'', sr_subject_kind = ''worker'', sr_subject_id = ''w'', sr_attempt = None, sr_bypass = False \<rparr>"

definition served :: "string \<Rightarrow> instant list" where
  "served = map (\<lambda>c. at_time 1 [c])"

definition settled_pool :: kernel_pool where
  "settled_pool = alone plain_env (Settle done_request) (served ''abcdefghijklmnopqrstuvwxyzABCDEFGHIJKLMNOPQ'') worker_kdb"

lemma worker_kdb_ok: "kdb_ok worker_kdb"
  by (simp add: worker_kdb_def empty_kdb_def kdb_ok_def grants_ok_def grant_checked_def subject_kinds_def grant_operations_def grant_scopes_def
    settle_grant_def leases_ok_def claims_ok_def one_active_def results_ok_def events_ok_def board_ok_def running_task_def)

lemmas settle_run = worker_settle_def normalize_worker_settle_status_def task_runtime_contract_def require_capability_def audit_of_def
  audit_capability_def settle_check_def check_settle_attempt_def consume_capability_grant_def mark_consumed_def finish_settle_def
  mark_worker_conversation_completed_def release_claims_for_task_def settle_board_task_def check_settle_evidence_def evidence_exists_def
  get_board_task_def resolve_board_task_id_def record_control_plane_event_def ensure_job_for_task_def update_board_task_def
  require_task_completion_evidence_def project_board_task_view_def add_board_task_note_def announce_task_def terminal_event_def
  contract_view_def grant_matches_def grant_live_def rows_affected_def consumable_def update_where_def is_bypass_def
  has_evidence_def is_completed_result_status_def job_states_def job_state_for_event_def or_else_def conv_completed_def
  into_board_task_def board_statuses_def non_blank_def set_status_def settle_note_def settle_agent_def j_opt_def

lemmas text_eval = to_lower_def lower_char_def string_arg_def trim_def trim_start_def trim_end_def is_ws_def timestamp_millis_def show_int_def

lemma settled_run: "\<exists>v s. run (worker_settle plain_env done_request) (served ''abcdefghijklmnopqrstuvwxyzABCDEFGHIJKLMNOPQ'') worker_kdb =
    (Ret v, s) \<and> map gr_status (grants s) = [GConsumed] \<and> map gr_id (grants s) = [''g''] \<and> map bt_status (board s) = [''done'']"
  by (simp add: run_simps run_append_event settle_run Let_def served_def done_request_def worker_kdb_def empty_kdb_def settle_grant_def
    open_contract_def done_result_def running_task_def at_time_def text_eval cong: bind_weak)

lemma settled_pool_session:
  shows "history plain_env worker_kdb settled_pool" and "\<exists>v. sessions settled_pool 0 = Some (Settle done_request, Ret v)"
proof -
  show "history plain_env worker_kdb settled_pool" unfolding settled_pool_def by (rule alone_history[OF worker_kdb_ok])
  show "\<exists>v. sessions settled_pool 0 = Some (Settle done_request, Ret v)"
    using settled_run by (auto simp: settled_pool_def alone_def)
qed

subsection \<open>Histories\<close>

text \<open>C2: In every state any history of requests can reach, with any interleaving of the statements of any
  number of handlers and any failure of the database: a scope has at most one active work lease, no two
  events of a stream carry the same idempotency key, a board task that is done has a completed result
  artifact, and a grant is consumed at most once: it carries a time of consumption exactly when it was
  consumed, and from then on no continuation of the history changes its row.\<close>

theorem kernel_invariant:
  assumes "history env s0 \<sigma>" "pool_run (serve env) \<sigma> \<tau>"
  shows "(\<forall>l \<in> set (leases (store \<sigma>)). \<forall>m \<in> set (leases (store \<sigma>)).
      lease_active l \<and> lease_active m \<and> lease_scope l = lease_scope m \<longrightarrow> l = m) \<and>
    (\<forall>d \<in> set (shared_events (store \<sigma>)). \<forall>e \<in> set (shared_events (store \<sigma>)).
      se_key d \<noteq> None \<and> event_key d = event_key e \<longrightarrow> d = e) \<and>
    (\<forall>b \<in> set (board (store \<sigma>)). bt_status b = ''done'' \<longrightarrow>
      (\<exists>r \<in> set (results (store \<sigma>)). ra_task r = bt_id b \<and> is_completed_result_status (ra_status r))) \<and>
    (\<forall>g \<in> set (grants (store \<sigma>)). (gr_status g = GConsumed \<longleftrightarrow> gr_consumed g \<noteq> None) \<and>
      (gr_status g = GConsumed \<longrightarrow> (\<forall>h \<in> set (grants (store \<tau>)). gr_id h = gr_id g \<longrightarrow> h = g)))"
proof -
  have kept: "h = g" if g: "g \<in> set (grants (store \<sigma>))" "gr_status g = GConsumed"
    and h: "h \<in> set (grants (store \<tau>))" "gr_id h = gr_id g" for g h
  proof -
    have "kdb_grows (store \<sigma>) (store \<tau>)" by (rule history_grows[OF assms])
    then have "rows_kept grant_kept (grants (store \<sigma>)) (grants (store \<tau>))" by (simp add: kdb_grows_def)
    from rows_kept_in[OF this g(1)] g(2) have "g \<in> set (grants (store \<tau>))" by (auto simp: grant_kept_def)
    moreover have "history env s0 \<tau>" using assms by (auto simp: history_def intro: pool_run_trans)
    then have "distinct (map gr_id (grants (store \<tau>)))" using kdb_grants[OF history_ok] by (simp add: grants_ok_def)
    ultimately show ?thesis using h by (auto simp: distinct_map dest: inj_onD)
  qed
  from history_ok[OF assms(1)] have l: "one_active lease_active lease_scope (leases (store \<sigma>))" "distinct (map wl_id (leases (store \<sigma>)))"
    and e: "one_active (\<lambda>e. se_key e \<noteq> None) event_key (shared_events (store \<sigma>))" "distinct (map se_id (shared_events (store \<sigma>)))"
    and g: "grants_ok (grants (store \<sigma>))" and b: "board_ok (results (store \<sigma>)) (board (store \<sigma>))"
    by (simp_all add: kdb_ok_def leases_ok_def events_ok_def)
  have "d = e" if "d \<in> set (shared_events (store \<sigma>))" "e \<in> set (shared_events (store \<sigma>))" "se_key d \<noteq> None" "event_key d = event_key e" for d e
    using one_active_unique[OF e that(1,2)] that(3,4) by (simp add: event_key_def)
  moreover have "l = m" if "l \<in> set (leases (store \<sigma>))" "m \<in> set (leases (store \<sigma>))" "lease_active l" "lease_active m"
    "lease_scope l = lease_scope m" for l m
    using one_active_unique[OF l that] .
  moreover have "(gr_status g = GConsumed \<longleftrightarrow> gr_consumed g \<noteq> None) \<and>
      (gr_status g = GConsumed \<longrightarrow> (\<forall>h \<in> set (grants (store \<tau>)). gr_id h = gr_id g \<longrightarrow> h = g))" if "g \<in> set (grants (store \<sigma>))" for g
    using kept[OF that] g that unfolding grants_ok_def by blast
  ultimately show ?thesis using b unfolding board_ok_def evidenced_def by blast
qed

definition first_claim :: claim_request where
  "first_claim = \<lparr> cr_project = None, cr_task = Some ''t'', cr_owner = ''w'', cr_grant = None, cr_subject_kind = ''system'', cr_subject_id = ''k'',
     cr_scope_kind = ''task'', cr_scope_key = ''t'', cr_lease_secs = 60, cr_metadata = JNull, cr_bypass = True, cr_reason = None \<rparr>"

lemmas claim_defs = alone_def claim_lease_typed_def require_capability_def audit_of_def audit_capability_def claim_def claim_tx_def claim_check_def
  bypass_kinds_def upsert_claim_def lease_at_def claim_at_def Let_def

definition claimed_pool :: kernel_pool where
  "claimed_pool = alone plain_env (ClaimLease first_claim) [at_time 1 ''a'', at_time 2 ''b''] empty_kdb"

lemma claimed_lease: "leases (store claimed_pool) = [new_lease (at_time 2 ''b'') first_claim]"
  by (simp add: run_simps claim_defs claimed_pool_def first_claim_def at_time_def empty_kdb_def new_claim_def new_lease_def)

text \<open>The settlement runs on from the statement that consumed its grant; and a claim.\<close>

theorem kernel_invariant_witness:
  "(\<exists>\<tau> g. pool_run (serve plain_env) settled_pool \<tau> \<and> sessions \<tau> 1 = Some (Settle done_request, worker_settle plain_env done_request) \<and>
      g \<in> set (grants (store settled_pool)) \<and> gr_id g = ''g'' \<and> gr_consumed g \<noteq> None \<and> g \<in> set (grants (store \<tau>))) \<and>
   (\<exists>b r. b \<in> set (board (store settled_pool)) \<and> bt_status b = ''done'' \<and> r \<in> set (results (store settled_pool)) \<and>
      ra_task r = bt_id b \<and> is_completed_result_status (ra_status r)) \<and>
   (\<exists>!l. l \<in> set (leases (store claimed_pool)) \<and> lease_active l \<and> lease_scope l = (''task'', ''t''))"
proof -
  have st: "map gr_status (grants (store settled_pool)) = [GConsumed]" "map gr_id (grants (store settled_pool)) = [''g'']"
    "map bt_status (board (store settled_pool)) = [''done'']"
    using settled_run by (auto simp: settled_pool_def alone_def)
  then obtain g b where g: "g \<in> set (grants (store settled_pool))" "gr_status g = GConsumed" "gr_id g = ''g''"
    and b: "b \<in> set (board (store settled_pool))" "bt_status b = ''done''" by auto
  let ?\<tau> = "settled_pool\<lparr> sessions := (sessions settled_pool)(1 \<mapsto> (Settle done_request, serve plain_env (Settle done_request))) \<rparr>"
  have "sessions settled_pool 1 = None" by (simp add: settled_pool_def alone_def split: prod.split)
  then have r: "pool_run (serve plain_env) settled_pool ?\<tau>" by (blast intro: pool_run.intros pool_step.opened)
  note inv = kernel_invariant[OF settled_pool_session(1) r]
  have "gr_consumed g \<noteq> None" using inv g(1,2) by blast
  moreover have "\<exists>r. r \<in> set (results (store settled_pool)) \<and> ra_task r = bt_id b \<and> is_completed_result_status (ra_status r)"
    using inv b by blast
  moreover have "\<exists>!l. l \<in> set (leases (store claimed_pool)) \<and> lease_active l \<and> lease_scope l = (''task'', ''t'')"
  proof -
    have "history plain_env empty_kdb claimed_pool" unfolding claimed_pool_def by (rule alone_history) simp
    note one = kernel_invariant[OF this run_start, THEN conjunct1]
    have "new_lease (at_time 2 ''b'') first_claim \<in> set (leases (store claimed_pool))" "lease_active (new_lease (at_time 2 ''b'') first_claim)"
      "lease_scope (new_lease (at_time 2 ''b'') first_claim) = (''task'', ''t'')"
      by (simp_all add: claimed_lease) (simp_all add: new_lease_def lease_active_def lease_scope_def first_claim_def)
    with one show ?thesis by metis
  qed
  ultimately show ?thesis using r g b by (intro conjI exI[of _ ?\<tau>]) auto
qed

text \<open>C9: Records are append-only along a history: audit rows, artifacts and events are never changed or
  removed, a grant keeps its terms, and a grant that is not active any more never becomes active again; a
  lease that has ended stays as it ended.\<close>

theorem records_are_kept:
  assumes "history env s0 \<sigma>" "pool_run (serve env) \<sigma> \<tau>"
  shows "(\<exists>as. audits (store \<tau>) = audits (store \<sigma>) @ as) \<and> (\<exists>bs. blobs (store \<tau>) = blobs (store \<sigma>) @ bs) \<and>
    (\<exists>es. shared_events (store \<tau>) = shared_events (store \<sigma>) @ es) \<and>
    (\<forall>g \<in> set (grants (store \<sigma>)). \<exists>h \<in> set (grants (store \<tau>)).
      (if gr_status g = GActive then h = g\<lparr> gr_status := gr_status h, gr_consumed := gr_consumed h \<rparr> else h = g)) \<and>
    (\<forall>l \<in> set (leases (store \<sigma>)). \<exists>m \<in> set (leases (store \<tau>)). wl_id m = wl_id l \<and> lease_scope m = lease_scope l \<and>
      wl_holder m = wl_holder l \<and> (\<not> lease_active l \<longrightarrow> m = l))"
proof -
  have g: "kdb_grows (store \<sigma>) (store \<tau>)" by (rule history_grows[OF assms])
  have grant: "\<exists>h \<in> set (grants (store \<tau>)).
      (if gr_status g = GActive then h = g\<lparr> gr_status := gr_status h, gr_consumed := gr_consumed h \<rparr> else h = g)"
    if "g \<in> set (grants (store \<sigma>))" for g
  proof -
    from g have "rows_kept grant_kept (grants (store \<sigma>)) (grants (store \<tau>))" by (simp add: kdb_grows_def)
    from rows_kept_in[OF this that] obtain h where h: "h \<in> set (grants (store \<tau>))" "grant_kept g h" by blast
    from h(2) show ?thesis unfolding grant_kept_def by (intro bexI[OF _ h(1)]) auto
  qed
  have lease: "\<exists>m \<in> set (leases (store \<tau>)). wl_id m = wl_id l \<and> lease_scope m = lease_scope l \<and>
      wl_holder m = wl_holder l \<and> (\<not> lease_active l \<longrightarrow> m = l)" if "l \<in> set (leases (store \<sigma>))" for l
  proof -
    from g have "rows_kept lease_kept (leases (store \<sigma>)) (leases (store \<tau>))" by (simp add: kdb_grows_def)
    from rows_kept_in[OF this that] obtain m where m: "m \<in> set (leases (store \<tau>))" "lease_kept l m" by blast
    from m(2) show ?thesis unfolding lease_kept_def lease_active_def lease_scope_def by (intro bexI[OF _ m(1)]) auto
  qed
  from g have "rows_kept (=) (audits (store \<sigma>)) (audits (store \<tau>))" "rows_kept (=) (blobs (store \<sigma>)) (blobs (store \<tau>))"
    "rows_kept (=) (shared_events (store \<sigma>)) (shared_events (store \<tau>))"
    by (simp_all add: kdb_grows_def)
  then show ?thesis using grant lease by (blast dest: rows_kept_prefix)
qed

theorem records_are_kept_witness: "\<exists>m \<in> set (leases (store claimed_pool)). wl_id m = ''b'' \<and> wl_holder m = ''w''"
proof -
  have "history plain_env empty_kdb claimed_pool" unfolding claimed_pool_def by (rule alone_history) simp
  from records_are_kept[OF this run_start] show ?thesis
    unfolding claimed_lease by (auto simp: new_lease_def at_time_def first_claim_def)
qed

subsection \<open>Settlements\<close>

text \<open>The settlement a request asks for: of a worker's own call, or typed by a component of the daemon.\<close>

fun settle_of :: "kernel_request \<Rightarrow> settle_request option" where
  "settle_of (Settle a) = Some a"
| "settle_of (Tool args) = (if action_arg args \<in>
       {''worker_settle'', ''completion_settle'', ''settle_worker''}
     then (case worker_settle_request_from_args args of Inr a \<Rightarrow> Some a | Inl _ \<Rightarrow> None) else None)"
| "settle_of r = None"

lemma serve_settle: "settle_of r = Some a \<Longrightarrow> serve env r = worker_settle env a"
  by (cases r) (auto simp: control_actions(2) command_of_def simp del: insert_iff split: if_splits sum.splits)

text \<open>C3: A settlement as done that has succeeded means: the task has a completed artifact with the hash the
  request names, the audit trail says the settlement was allowed for this subject, and either the grant it
  names was an exact grant for this subject and task and is now consumed, or the subject is one of the
  trusted kinds and its caller was let past.\<close>

theorem done_settlement_is_proven:
  assumes "history env s0 \<sigma>" "sessions \<sigma> i = Some (r, Ret v)" "settle_of r = Some a" "sr_status a = ''done''"
  shows "(\<exists>h. sr_hash a = Some h \<and> (\<exists>q \<in> set (results (store \<sigma>)). ra_task q = sr_task a \<and> ra_hash q = h \<and> is_completed_result_status (ra_status q))) \<and>
    (\<exists>u \<in> set (audits (store \<sigma>)). au_decision u = ''allowed'' \<and> au_operation u = ''settle'' \<and> au_scope_kind u = ''task'' \<and>
      au_scope_key u = sr_task a \<and> au_grant u = sr_grant a \<and> au_subject_kind u = Some (sr_subject_kind a) \<and> au_subject_id u = Some (sr_subject_id a)) \<and>
    (case sr_grant a of
       None \<Rightarrow> sr_bypass a \<and> sr_subject_kind a \<in> {''system'', ''operator'', ''daemon''}
     | Some g \<Rightarrow> \<exists>x \<in> set (grants (store \<sigma>)). gr_id x = g \<and> gr_task x = Some (sr_task a) \<and> gr_operation x = ''settle'' \<and>
         gr_subject_kind x = sr_subject_kind a \<and> gr_subject_id x = sr_subject_id a \<and> (is_bypass g \<or> gr_status x = GConsumed))"
proof -
  have "settled_done a (store \<sigma>)"
    using history_sat[OF assms(1) _ assms(2), of "\<lambda>_ s. sr_status a = ''done'' \<longrightarrow> settled_done a s"] sat_settle[of env a] assms(3,4)
    by (simp add: serve_settle)
  then obtain c gid where p: "proven (sr_task a) (sr_hash a) (store \<sigma>)" "allowed_by (settle_check a c) gid (store \<sigma>)" "used gid (store \<sigma>)"
    by (auto simp: settled_done_def)
  have u: "\<exists>u \<in> set (audits (store \<sigma>)). audited (settle_check a c) (sr_grant a) u"
    using p(2) by (auto simp: allowed_by_def settle_check_def split: option.splits)
  have "case sr_grant a of None \<Rightarrow> sr_bypass a \<and> sr_subject_kind a \<in> {''system'', ''operator'', ''daemon''}
     | Some g \<Rightarrow> \<exists>x \<in> set (grants (store \<sigma>)). gr_id x = g \<and> gr_task x = Some (sr_task a) \<and> gr_operation x = ''settle'' \<and>
         gr_subject_kind x = sr_subject_kind a \<and> gr_subject_id x = sr_subject_id a \<and> (is_bypass g \<or> gr_status x = GConsumed)"
  proof (cases "sr_grant a")
    case None
    with p(2) show ?thesis by (auto simp: allowed_by_def settle_check_def bypass_kinds_def)
  next
    case (Some g)
    with p(2) obtain x where x: "gid = g" "x \<in> set (grants (store \<sigma>))" "grant_terms (settle_check a c) g x"
      by (auto simp: allowed_by_def settle_check_def granted_def)
    have "distinct (map gr_id (grants (store \<sigma>)))" using kdb_grants[OF history_ok[OF assms(1)]] by (simp add: grants_ok_def)
    then have "is_bypass g \<or> gr_status x = GConsumed"
      using p(3) x by (auto simp: used_def grant_terms_def distinct_map dest: inj_onD)
    with Some x(2,3) show ?thesis by (auto simp: grant_terms_def settle_check_def)
  qed
  with p(1) u show ?thesis by (auto simp: proven_def has_evidence_def audited_def settle_check_def)
qed

theorem done_settlement_is_proven_witness: "\<exists>q \<in> set (results (store settled_pool)). ra_hash q = ''h'' \<and>
    is_completed_result_status (ra_status q)"
proof -
  obtain v where "sessions settled_pool 0 = Some (Settle done_request, Ret v)" using settled_pool_session(2) by blast
  from done_settlement_is_proven[OF settled_pool_session(1) this, of done_request] show ?thesis by (auto simp: done_request_def)
qed

text \<open>C4: A grant settles once: of all settlements as done that name the same grant, in any history and
  however they interleave, at most one succeeds, and then the grant is not active any more.\<close>

theorem grant_settles_once:
  assumes "history env s0 \<sigma>" "ended_ok \<sigma> i r" "settle_of r = Some a" "ended_ok \<sigma> j q" "settle_of q = Some b"
    "sr_grant a = Some g" "sr_grant b = Some g" "sr_status a = ''done''" "sr_status b = ''done''" "\<not> is_bypass g"
  shows "i = j \<and> (\<exists>x \<in> set (grants (store \<sigma>)). gr_id x = g \<and> gr_status x \<noteq> GActive)"
proof -
  let ?R = "\<lambda>r. \<exists>a. settle_of r = Some a \<and> sr_grant a = Some g \<and> sr_status a = ''done''"
  have h: "pool_run (serve env) (idle_pool s0) \<sigma>" "kdb_ok s0" using assms(1) by (auto simp: history_def)
  have "\<forall>r. ?R r \<longrightarrow> spends kdb_ok (unspent g) (serve env r)"
    using settle_spends assms(10) by (auto simp: serve_settle)
  moreover have "\<forall>s s'. kdb_ok s \<longrightarrow> kdb_grows s s' \<longrightarrow> unspent g s' \<longrightarrow> unspent g s" using unspent_back by blast
  ultimately have "i = j \<and> \<not> unspent g (store \<sigma>)"
    using kernel.spent_once[where A = "unspent g" and R = ?R, OF h, of i r j q] assms(2-9) by blast
  then show ?thesis by (auto simp: unspent_def)
qed

theorem grant_settles_once_witness: "\<exists>x \<in> set (grants (store settled_pool)). gr_id x = ''g'' \<and> gr_status x \<noteq> GActive"
proof -
  have "ended_ok settled_pool 0 (Settle done_request)" using settled_pool_session(2) by (auto simp: ended_ok_def)
  from grant_settles_once[OF settled_pool_session(1) this _ this, of done_request done_request "''g''"] show ?thesis
    by (simp add: done_request_def is_bypass_def)
qed

text \<open>C8: Who has no authority gets nothing: every action of the tool that the kernel answers, except
  \<open>job_event\<close>, asks for a capability (\<open>claim\<close>, \<open>release\<close>, \<open>heartbeat\<close>, the names of settling, of putting a
  task result, of checking and of granting a capability). A call of one of them that names no grant, and
  whose caller is of no kind let past (system, daemon, an operator who confirms; for a new grant the kind of
  its authority counts), never succeeds, and whatever the database answers it changes nothing but the audit
  trail. \<open>job_event\<close>, and the reads and \<open>artifact_put\<close> of other handlers, ask for none.\<close>

theorem no_authority_no_success:
  assumes "control_action env args = Some p" "action_arg args \<notin> {''job_event'', ''record_job_event''}" "no_authority args"
  shows "result (fst (run p ts s)) \<noteq> Some (Inr v) \<and> (\<exists>as. snd (run p ts s) = s\<lparr> audits := audits s @ as \<rparr>)"
proof -
  have "action_arg args \<in> {''task_result_put'', ''put_task_result''} \<or>
      action_arg args \<in> {''worker_settle'', ''completion_settle'', ''settle_worker''} \<or> action_arg args = ''claim'' \<or>
      action_arg args = ''release'' \<or> action_arg args = ''heartbeat'' \<or> action_arg args \<in> {''capability_check'', ''check_capability''} \<or>
      action_arg args \<in> {''capability_grant'', ''grant_capability''}"
    using assms(1,2) unfolding control_action_def Let_def by (auto split: if_splits)
  then have "reads (\<lambda>_. False) p"
  proof (elim disjE)
    assume a: "action_arg args \<in> {''task_result_put'', ''put_task_result''}"
    then have n: "grant_id_arg args = None" "\<not> system_or_operator_bypass_allowed args" using assms(3) by (auto simp: no_authority_def)
    show ?thesis using assms(1) unfolding control_actions(1)[OF a]
      by (simp, elim subst, intro reads_bind[OF reads_observe] refused_tool refused_commands(6)) (simp_all add: parsed_authority n)
  next
    assume a: "action_arg args \<in> {''worker_settle'', ''completion_settle'', ''settle_worker''}"
    then have n: "grant_id_arg args = None" "\<not> system_or_operator_bypass_allowed args" using assms(3) by (auto simp: no_authority_def)
    show ?thesis using assms(1) unfolding control_actions(2)[OF a]
      by (simp, elim subst, intro refused_tool refused_commands(5)) (simp_all add: parsed_authority n)
  next
    assume a: "action_arg args = ''claim''"
    then have n: "grant_id_arg args = None" "\<not> system_or_operator_bypass_allowed args" using assms(3) by (auto simp: no_authority_def)
    show ?thesis using assms(1) unfolding control_actions(3)[OF a]
      by (simp, elim subst, intro refused_tool refused_commands(1)) (simp_all add: parsed_authority n)
  next
    assume a: "action_arg args = ''release''"
    then have n: "grant_id_arg args = None" "\<not> system_or_operator_bypass_allowed args" using assms(3) by (auto simp: no_authority_def)
    show ?thesis using assms(1) unfolding control_actions(4)[OF a]
      by (simp, elim subst, intro refused_tool refused_commands(2))
        (simp_all add: parsed_authority n release_lease_command_from_args_def)
  next
    assume a: "action_arg args = ''heartbeat''"
    then have n: "grant_id_arg args = None" "\<not> system_or_operator_bypass_allowed args" using assms(3) by (auto simp: no_authority_def)
    show ?thesis using assms(1) unfolding control_actions(5)[OF a]
      by (simp, elim subst, intro refused_tool refused_commands(3))
        (simp_all add: parsed_authority n heartbeat_lease_command_from_args_def)
  next
    assume a: "action_arg args \<in> {''capability_check'', ''check_capability''}"
    then have n: "grant_id_arg args = None" "\<not> system_or_operator_bypass_allowed args" using assms(3) by (auto simp: no_authority_def)
    show ?thesis using assms(1) unfolding control_actions(6)[OF a]
      by (simp, elim subst, intro refused_tool refused_commands(4)) (simp_all add: parsed_authority n)
  next
    assume a: "action_arg args \<in> {''capability_grant'', ''grant_capability''}"
    then have n: "string_args args authority_grant_keys = None" "\<not> grant_bypass_allowed args" using assms(3) by (auto simp: no_authority_def)
    show ?thesis using assms(1) unfolding control_actions(7)[OF a]
      by (simp, elim subst, intro refused_tool refused_commands(7)) (simp_all add: parsed_authority n)
  qed
  from reads_run[OF this, of s ts v] show ?thesis by (simp add: audited_only_def)
qed

definition anonymous_claim :: json where
  "anonymous_claim = JObject [(''action'', JString ''claim''), (''scope_key'', JString ''src/**''), (''subject_kind'', JString ''operator'')]"

text \<open>An operator who did not confirm: the claim is refused with the kernel's code, and the refusal is audited.\<close>

theorem no_authority_no_success_witness: "\<exists>p e as. control_action plain_env anonymous_claim = Some p \<and>
    result (fst (run p [at_time 1 ''a'', at_time 2 ''b''] empty_kdb)) = Some (Inl e) \<and>
    snd (run p [at_time 1 ''a'', at_time 2 ''b''] empty_kdb) = empty_kdb\<lparr> audits := as \<rparr> \<and> map au_decision as = [''denied'']"
proof -
  let ?ts = "[at_time 1 ''a'', at_time 2 ''b'']"
  let ?p = "command_of (claim_lease_command_from_args anonymous_claim) (claim_lease_typed plain_env)"
  have a: "action_arg anonymous_claim = ''claim''"
    by (simp add: action_arg_def anonymous_claim_def trim_def trim_start_def trim_end_def is_ws_def)
  have p: "control_action plain_env anonymous_claim = Some ?p" by (rule control_actions(3)[OF a])
  have n: "no_authority anonymous_claim"
    by (simp add: no_authority_def a, simp add: anonymous_claim_def grant_id_arg_def system_or_operator_bypass_allowed_def string_arg_def
      bool_arg_any_def confirm_keys_def trim_def trim_start_def trim_end_def is_ws_def)
  have "result (fst (run ?p ?ts empty_kdb)) \<noteq> None \<and> map au_decision (audits (snd (run ?p ?ts empty_kdb))) = [''denied'']"
    by (simp add: anonymous_claim_def claim_lease_command_from_args_def run_simps claim_defs command_of_def deny_capability_def at_time_def
      empty_kdb_def text_eval require_arg_def grant_id_arg_def system_or_operator_bypass_allowed_def bool_arg_any_def confirm_keys_def
      lease_secs_arg_def)
  moreover have "result (fst (run ?p ?ts empty_kdb)) \<noteq> Some (Inr v) \<and> (\<exists>as. snd (run ?p ?ts empty_kdb) = empty_kdb\<lparr> audits := audits empty_kdb @ as \<rparr>)" for v
    by (rule no_authority_no_success[OF p _ n]) (simp add: a)
  ultimately show ?thesis using p
    by (intro exI[of _ ?p]) (cases "result (fst (run ?p ?ts empty_kdb))"; cases "the (result (fst (run ?p ?ts empty_kdb)))";
      fastforce simp: empty_kdb_def)
qed

subsection \<open>Leases\<close>

text \<open>C27: A release or heartbeat that names a grant and succeeds is on a lease whose kind of scope the grant
  table admits. The leases on write scopes (\<open>write_scope\<close>, the kind a claim has by default) and on board
  tasks (\<open>board_task\<close>) are of no such kind, so no release or heartbeat under a grant ever reaches them.\<close>

theorem grants_reach_grantable_leases:
  assumes "history env s0 \<sigma>" "ended_ok \<sigma> i (ReleaseLease r) \<or> ended_ok \<sigma> i (HeartbeatLease r)" "lr_grant r = Some g"
    "l \<in> set (leases (store \<sigma>))" "wl_id l = trim (lr_claim r)"
  shows "wl_scope_kind l \<in> {''project'', ''path'', ''task'', ''shared-memory'', ''deploy-target'', ''network-target''} \<and>
    wl_scope_kind l \<noteq> ''write_scope'' \<and> wl_scope_kind l \<noteq> ''board_task''"
proof -
  have "grantable (trim (lr_claim r)) (store \<sigma>)"
    using assms(2) history_sat[OF assms(1), of "ReleaseLease r" "\<lambda>_. grantable (trim (lr_claim r))" i]
      history_sat[OF assms(1), of "HeartbeatLease r" "\<lambda>_. grantable (trim (lr_claim r))" i] sat_lease_commands[OF assms(3), of env]
    by (auto simp: ended_ok_def)
  then obtain m where m: "m \<in> set (leases (store \<sigma>))" "wl_id m = trim (lr_claim r)" "wl_scope_kind m \<in> set grant_scopes"
    by (auto simp: grantable_def)
  have "distinct (map wl_id (leases (store \<sigma>)))" using kdb_leases[OF history_ok[OF assms(1)]] by (simp add: leases_ok_def)
  then have "inj_on wl_id (set (leases (store \<sigma>)))" by (simp add: distinct_map)
  then have "l = m" using assms(4,5) m(1,2) by (metis inj_onD)
  with m(3) show ?thesis by (auto simp: grant_scopes_def)
qed

definition task_lease :: lease_row where
  "task_lease = \<lparr> wl_id = ''l'', wl_project = None, wl_task = Some ''t'', wl_holder = ''w'', wl_holder_kind = ''worker'', wl_scope_kind = ''task'',
     wl_scope_key = ''t'', wl_status = LActive, wl_acquired = 0, wl_expires = 90, wl_released = None, wl_heartbeat = None, wl_metadata = JNull \<rparr>"

definition lease_kdb :: kdb where
  "lease_kdb = empty_kdb\<lparr> grants := [settle_grant\<lparr> gr_operation := ''claim'' \<rparr>], leases := [task_lease] \<rparr>"

definition release_request :: lease_request where
  "release_request = \<lparr> lr_claim = ''l'', lr_owner = None, lr_grant = Some ''g'', lr_subject_kind = ''worker'', lr_subject_id = ''w'',
     lr_lease_secs = 60, lr_details = JNull, lr_bypass = False, lr_reason = None \<rparr>"

definition released_pool :: kernel_pool where
  "released_pool = alone plain_env (ReleaseLease release_request) (served ''abcdef'') lease_kdb"

lemma lease_kdb_ok: "kdb_ok lease_kdb"
  by (simp add: lease_kdb_def empty_kdb_def kdb_ok_def grants_ok_def grant_checked_def subject_kinds_def grant_operations_def grant_scopes_def
    settle_grant_def task_lease_def leases_ok_def claims_ok_def one_active_def results_ok_def events_ok_def board_ok_def)

lemma released_run: "\<exists>v s. run (release_lease plain_env release_request) (served ''abcdef'') lease_kdb = (Ret v, s) \<and>
    leases s = [set_released (at_time 1 ''d'') task_lease]"
  by (simp add: run_simps release_lease_def lease_by_id_def lease_check_def update_lease_def settle_run Let_def served_def release_request_def
    lease_kdb_def empty_kdb_def settle_grant_def task_lease_def at_time_def text_eval held_by_def lease_active_def set_released_def
    cong: bind_weak)

theorem grants_reach_grantable_leases_witness:
  "ended_ok released_pool 0 (ReleaseLease release_request) \<and> (\<exists>l \<in> set (leases (store released_pool)). wl_scope_kind l \<noteq> ''write_scope'')"
proof -
  obtain v s where r: "run (release_lease plain_env release_request) (served ''abcdef'') lease_kdb = (Ret v, s)"
    "leases s = [set_released (at_time 1 ''d'') task_lease]" using released_run by blast
  have e: "ended_ok released_pool 0 (ReleaseLease release_request)" "leases (store released_pool) = [set_released (at_time 1 ''d'') task_lease]"
    using r by (auto simp: ended_ok_def released_pool_def alone_def)
  have h: "history plain_env lease_kdb released_pool" unfolding released_pool_def by (rule alone_history[OF lease_kdb_ok])
  from grants_reach_grantable_leases[OF h disjI1[OF e(1)], of "''g''" "set_released (at_time 1 ''d'') task_lease"] e show ?thesis
    by (simp add: release_request_def set_released_def task_lease_def text_eval)
qed

text \<open>C5: Claiming is locking: a claim served by the database is the claim of a lock table. If the scope is
  held by a lease that has not run out, the claim is refused with that holder and that deadline and no lease
  changes; otherwise it succeeds, the claimer holds the scope until a deadline between 30 seconds and two
  hours ahead whatever it asked for, and no other scope changes hands. No constraint of the tables is ever
  violated.\<close>

theorem claim_refines_lock:
  assumes "kdb_ok s" "in_answer t = Served" "in_uuid t \<notin> wl_id ` set (leases s)" "in_uuid t \<notin> sc_id ` set (claims s)"
  shows "\<exists>s'. lease_map s' = snd (lock_claim (in_db_now t) (cr_scope_kind req, cr_scope_key req) (cr_owner req)
        (deadline (in_app_now t) (cr_lease_secs req)) (lease_map s)) \<and>
      (case fst (lock_claim (in_db_now t) (cr_scope_kind req, cr_scope_key req) (cr_owner req)
        (deadline (in_app_now t) (cr_lease_secs req)) (lease_map s)) of
         Some (h, d) \<Rightarrow> \<exists>l. run (claim env req) [t] s = (Err (conflict_error env req l), s') \<and> wl_holder l = h \<and> wl_expires l = d
       | None \<Rightarrow> run (claim env req) [t] s = (Ret (claim_reply env (new_lease t req)), s')) \<and>
      in_app_now t + 30000000 \<le> deadline (in_app_now t) (cr_lease_secs req) \<and>
      deadline (in_app_now t) (cr_lease_secs req) \<le> in_app_now t + 7200000000"
proof -
  let ?sc = "(cr_scope_kind req, cr_scope_key req)"
  let ?here = "lease_at (cr_scope_kind req) (cr_scope_key req)"
  let ?d = "deadline (in_app_now t) (cr_lease_secs req)"
  have bounds: "in_app_now t + 30000000 \<le> ?d \<and> ?d \<le> in_app_now t + 7200000000"
    by (simp add: deadline_def clamp_secs_def MAX_LEASE_SECS_def)
  have here: "?here = (\<lambda>l. lease_active l \<and> lease_scope l = ?sc)" by (simp add: lease_at_def fun_eq_iff)
  have one: "m = l" if "l \<in> set (leases s)" "?here l" "m \<in> set (leases s)" "?here m" for l m
    using one_active_unique[where act = lease_active and key = lease_scope and f = wl_id, OF _ _ that(3,1)] that(2,4)
      kdb_leases[OF assms(1)] by (simp add: leases_ok_def lease_at_def)
  show ?thesis
  proof (cases "\<exists>l \<in> set (leases s). ?here l \<and> in_db_now t \<le> wl_expires l")
    case True
    then obtain l where l: "l \<in> set (leases s)" "?here l" "in_db_now t \<le> wl_expires l" by blast
    have "find ?here (leases s) = Some l"
      using l one by (cases "find ?here (leases s)") (auto simp: find_None_iff find_Some_iff)
    then have "lease_map s ?sc = Some (wl_holder l, wl_expires l)" by (simp add: lease_map_def here)
    then have "lock_claim (in_db_now t) ?sc (cr_owner req) ?d (lease_map s) = (Some (wl_holder l, wl_expires l), lease_map s)"
      using l(3) by (simp add: lock_claim_def)
    moreover obtain cs where "run (claim env req) [t] s = (Err (conflict_error env req l), s\<lparr> claims := cs \<rparr>)"
      using claim_held[OF assms(1,2) l] by blast
    moreover have "lease_map (s\<lparr> claims := cs \<rparr>) = lease_map s" by (simp add: lease_map_def fun_eq_iff)
    ultimately show ?thesis using bounds by auto
  next
    case False
    then have past: "\<And>l. l \<in> set (leases s) \<Longrightarrow> ?here l \<Longrightarrow> wl_expires l < in_db_now t" by force
    let ?ls = "update_where (\<lambda>l. ?here l \<and> wl_expires l < in_db_now t) lease_expire (leases s)"
    obtain cs where run: "run (claim env req) [t] s = (Ret (claim_reply env (new_lease t req)), s\<lparr> leases := ?ls @ [new_lease t req], claims := cs \<rparr>)"
      using claim_free[OF assms(1,2) past assms(3,4)] by blast
    have "\<not> (lease_active l \<and> lease_scope l = ?sc)" if "l \<in> set ?ls" for l
      using that past by (auto simp: lease_at_def)
    then have n: "find (\<lambda>l. lease_active l \<and> lease_scope l = ?sc) ?ls = None" by (auto simp: find_None_iff)
    have other: "find (\<lambda>l. lease_active l \<and> lease_scope l = sc) ?ls = find (\<lambda>l. lease_active l \<and> lease_scope l = sc) (leases s)" if "sc \<noteq> ?sc" for sc
      by (rule find_update_other) (use that in \<open>auto simp: lease_at_def\<close>)
    have new: "lease_active (new_lease t req)" "lease_scope (new_lease t req) = ?sc" "wl_holder (new_lease t req) = cr_owner req"
      "wl_expires (new_lease t req) = ?d"
      by (simp_all add: new_lease_def lease_active_def lease_scope_def)
    have "lease_map (s\<lparr> leases := ?ls @ [new_lease t req], claims := cs \<rparr>) sc = ((lease_map s)(?sc \<mapsto> (cr_owner req, ?d))) sc" for sc
      using n other[of sc] new by (cases "sc = ?sc") (auto simp: lease_map_def find_append split: option.split)
    moreover have "lock_claim (in_db_now t) ?sc (cr_owner req) ?d (lease_map s) = (None, (lease_map s)(?sc \<mapsto> (cr_owner req, ?d)))"
    proof (cases "find (\<lambda>l. lease_active l \<and> lease_scope l = ?sc) (leases s)")
      case None
      then show ?thesis by (simp add: lock_claim_def lease_map_def)
    next
      case (Some l)
      then have "wl_expires l < in_db_now t" using past by (auto simp: find_Some_iff here)
      with Some show ?thesis by (simp add: lock_claim_def lease_map_def)
    qed
    ultimately show ?thesis using bounds run by (intro exI[of _ "s\<lparr> leases := ?ls @ [new_lease t req], claims := cs \<rparr>"]) (simp add: fun_eq_iff)
  qed
qed

theorem claim_refines_lock_witness: "\<exists>s'. lease_map s' = (\<lambda>_. None)((''task'', ''t'') \<mapsto> (''w'', 60000001)) \<and>
    run (claim plain_env first_claim) [at_time 1 ''a''] empty_kdb = (Ret (claim_reply plain_env (new_lease (at_time 1 ''a'') first_claim)), s')"
proof -
  have m: "lease_map empty_kdb = (\<lambda>_. None)" by (simp add: lease_map_def empty_kdb_def fun_eq_iff)
  have t: "in_answer (at_time 1 ''a'') = Served" "in_uuid (at_time 1 ''a'') \<notin> wl_id ` set (leases empty_kdb)"
    "in_uuid (at_time 1 ''a'') \<notin> sc_id ` set (claims empty_kdb)" by (simp_all add: at_time_def empty_kdb_def)
  have l: "lock_claim (in_db_now (at_time 1 ''a'')) (cr_scope_kind first_claim, cr_scope_key first_claim) (cr_owner first_claim)
      (deadline (in_app_now (at_time 1 ''a'')) (cr_lease_secs first_claim)) (\<lambda>_. None) = (None, (\<lambda>_. None)((''task'', ''t'') \<mapsto> (''w'', 60000001)))"
    by (simp add: lock_claim_def at_time_def first_claim_def deadline_def clamp_secs_def MAX_LEASE_SECS_def)
  from claim_refines_lock[OF kdb_ok_empty t, of first_claim plain_env] show ?thesis unfolding m l by auto
qed

subsection \<open>Scopes and changed paths\<close>

text \<open>C13: What a scope covers, exactly: \<open>*\<close> and \<open>**/*\<close> every path, \<open>dir/**\<close> the directory and all below it,
  \<open>dir/*\<close> its entries and nothing deeper, and any other scope itself and all below it; nothing covers the
  empty path and the empty scope covers nothing. Both sides are trimmed of white space, of a leading \<open>./\<close>
  and of final slashes.\<close>

theorem scope_matches_exact:
  "scope_matches_path scope path \<longleftrightarrow> norm_scope path \<noteq> [] \<and> (
     norm_scope scope \<in> {''*'', ''**/*''} \<or>
     (\<exists>d. norm_scope scope = d @ ''/**'' \<and> (norm_scope path = d \<or> (\<exists>r. norm_scope path = d @ ''/'' @ r))) \<or>
     (\<exists>d. norm_scope scope = d @ ''/*'' \<and> norm_scope scope \<noteq> ''**/*'' \<and> (\<exists>r. norm_scope path = d @ ''/'' @ r \<and> CHR ''/'' \<notin> set r)) \<or>
     (norm_scope scope \<noteq> [] \<and> (\<forall>d. norm_scope scope \<noteq> d @ ''/*'' \<and> norm_scope scope \<noteq> d @ ''/**'') \<and>
       (norm_scope path = norm_scope scope \<or> (\<exists>r. norm_scope path = norm_scope scope @ ''/'' @ r))))"
  (is "_ \<longleftrightarrow> ?spec")
proof (cases "(\<exists>d. norm_scope scope = d @ ''/**'') \<or> norm_scope scope = [] \<or> norm_scope path = [] \<or> norm_scope scope \<in> {''*'', ''**/*''}")
  case True
  then consider (deep) d where "norm_scope scope = d @ ''/**''" | (empty) "norm_scope scope = [] \<or> norm_scope path = []"
    | (all) "norm_scope scope \<in> {''*'', ''**/*''}" "norm_scope path \<noteq> []" by blast
  then show ?thesis
  proof cases
    case deep
    have no: "\<And>e. d @ ''/**'' \<noteq> e @ ''/*''" "d @ ''/**'' \<noteq> ''*''" "d @ ''/**'' \<noteq> ''**/*''"
      by (auto simp: append_eq_append_conv2 append_eq_Cons_conv Cons_eq_append_conv)
    show ?thesis unfolding scope_deep[OF deep] deep using no by auto
  next
    case empty
    then show ?thesis by (auto simp: scope_matches_path_def Let_def)
  next
    case all
    then show ?thesis by (auto simp: scope_matches_path_def Let_def)
  qed
next
  case False
  show ?thesis
  proof (cases "\<exists>d. norm_scope scope = d @ ''/*''")
    case True
    then obtain d where d: "norm_scope scope = d @ ''/*''" by blast
    have "d \<noteq> ''**''" using False d by auto
    from scope_shallow[OF d this] d False show ?thesis by auto
  next
    case none: False
    from scope_literal[OF refl, of scope path] False none show ?thesis by auto
  qed
qed

text \<open>C12: The check of a worktree passes exactly when the attempt changed something, and every path it
  changed (committed between its heads, or dirty now and not dirty before it) lies inside the write scope,
  outside what must not be touched, and under a path the artifact reports.\<close>

theorem worktree_check_exact:
  "verify_paths env task reported contract root (attempt_actual_changed_paths before now committed) = Ret () \<longleftrightarrow>
    (let changed = {p. p \<noteq> [] \<and> (p \<in> normalize_changed_path ` set committed \<or>
        p \<in> normalize_changed_path ` set now \<and> p \<notin> normalize_changed_path ` set before)}
     in changed \<noteq> {} \<and> changed \<subseteq> {p. in_scopes (rc_write contract) p \<and> \<not> in_scopes (rc_must_not contract) p \<and> in_scopes reported p})"
proof -
  let ?actual = "attempt_actual_changed_paths before now committed"
  have none: "List.map_filter (actual_violation contract reported) xs = [] \<longleftrightarrow>
      (\<forall>p \<in> set xs. in_scopes (rc_write contract) p \<and> \<not> in_scopes (rc_must_not contract) p \<and> in_scopes reported p)" for xs
    by (induction xs) (auto simp: map_filter_simps actual_violation_def path_violation_def split: option.splits if_splits)
  have deny: "deny_write_scope env contract task m d \<noteq> Ret x" for m d and x :: unit
    by (simp add: deny_write_scope_def then_prog_def record_control_plane_event_def ensure_job_for_task_def exec_def stmt_def)
  show ?thesis unfolding verify_paths_def Let_def actual_paths_set[symmetric]
    using none deny by (auto simp del: set_empty simp: set_empty[symmetric])
qed

subsection \<open>Events\<close>

text \<open>C14: Events are idempotent: two calls of append on one stream with the same idempotency key, by any
  callers and in any interleaving, are answered with the same event and the same sequence number.\<close>

theorem append_is_idempotent:
  assumes "history env s0 \<sigma>" "sessions \<sigma> i = Some (Append a, Ret v)" "sessions \<sigma> j = Some (Append b, Ret w)"
    "key_of a = key_of b" "snd (key_of a) \<noteq> None"
  shows "j_get v ''id'' = j_get w ''id'' \<and> j_get v ''seq'' = j_get w ''seq'' \<and> j_get v ''id'' \<noteq> None"
proof -
  have "answers_event (key_of a) v (store \<sigma>)" "answers_event (key_of b) w (store \<sigma>)"
    using history_sat[OF assms(1) _ assms(2)] history_sat[OF assms(1) _ assms(3)] sat_append by auto
  then obtain d e where d: "d \<in> set (shared_events (store \<sigma>))" "event_key d = key_of a" "j_get v ''id'' = Some (JString (se_id d))"
      "j_get v ''seq'' = Some (JInt (se_seq d))"
    and e: "e \<in> set (shared_events (store \<sigma>))" "event_key e = key_of b" "j_get w ''id'' = Some (JString (se_id e))"
      "j_get w ''seq'' = Some (JInt (se_seq e))"
    by (auto simp: answers_event_def)
  have "one_active (\<lambda>e. se_key e \<noteq> None) event_key (shared_events (store \<sigma>))" "distinct (map se_id (shared_events (store \<sigma>)))"
    using kdb_events[OF history_ok[OF assms(1)]] by (simp_all add: events_ok_def)
  moreover have "se_key d \<noteq> None" "se_key e \<noteq> None" using d(2) e(2) assms(4,5) by (metis event_key_def snd_conv)+
  ultimately have "d = e"
    using one_active_unique[where act = "\<lambda>e. se_key e \<noteq> None" and f = se_id and key = event_key, OF _ _ d(1) e(1)] d(2) e(2) assms(4) by simp
  with d e show ?thesis by simp
qed

definition note_event :: json where
  "note_event = JObject [(''event_kind'', JString ''note''), (''idempotency_key'', JString ''k'')]"

definition noted_pool :: kernel_pool where
  "noted_pool = alone plain_env (Append note_event) (served ''ab'') empty_kdb"

text \<open>A second session appends the same event after the first.\<close>

definition twice_pool :: kernel_pool where
  "twice_pool = (case run (serve plain_env (Append note_event)) (served ''cd'') (store noted_pool) of (p, s) \<Rightarrow>
     noted_pool\<lparr> store := s, sessions := (sessions noted_pool)(1 \<mapsto> (Append note_event, p)) \<rparr>)"

lemma twice_history: "history plain_env empty_kdb twice_pool"
proof -
  let ?r = "Append note_event"
  let ?\<sigma> = "noted_pool\<lparr> sessions := (sessions noted_pool)(1 \<mapsto> (?r, serve plain_env ?r)) \<rparr>"
  obtain p s where p: "run (serve plain_env ?r) (served ''cd'') (store noted_pool) = (p, s)" by fastforce
  have "history plain_env empty_kdb noted_pool" unfolding noted_pool_def by (rule alone_history) simp
  then have h: "pool_run (serve plain_env) (idle_pool empty_kdb) noted_pool" by (simp add: history_def)
  have "sessions noted_pool 1 = None" by (simp add: noted_pool_def alone_def split: prod.split)
  then have "pool_run (serve plain_env) (idle_pool empty_kdb) ?\<sigma>" using h by (blast intro: pool_run.intros pool_step.opened)
  moreover have "pool_run (serve plain_env) ?\<sigma> (?\<sigma>\<lparr> store := s, sessions := (sessions ?\<sigma>)(1 \<mapsto> (?r, p)) \<rparr>)"
    by (rule pool_alone) (use p in simp_all)
  ultimately show ?thesis unfolding history_def twice_pool_def p
    by (auto intro: pool_run_trans simp: fun_upd_def cong: if_cong)
qed

theorem append_is_idempotent_witness: "\<exists>v w. sessions twice_pool 0 = Some (Append note_event, Ret v) \<and>
    sessions twice_pool 1 = Some (Append note_event, Ret w) \<and> j_get v ''id'' = j_get w ''id'' \<and> j_get v ''id'' \<noteq> None"
proof -
  have "\<exists>v w s. run (append_event plain_env note_event) (served ''ab'') empty_kdb = (Ret v, s) \<and>
      fst (run (append_event plain_env note_event) (served ''cd'') s) = Ret w"
    by (simp add: append_event_def insert_event_def run_simps served_def at_time_def note_event_def empty_kdb_def Let_def
      text_eval shared_row_def event_key_def publish_def stmt_def)
  then obtain v w s where r: "run (append_event plain_env note_event) (served ''ab'') empty_kdb = (Ret v, s)"
    "fst (run (append_event plain_env note_event) (served ''cd'') s) = Ret w" by blast
  then have v: "sessions twice_pool 0 = Some (Append note_event, Ret v)" "sessions twice_pool 1 = Some (Append note_event, Ret w)"
    by (simp_all add: twice_pool_def noted_pool_def alone_def split_beta)
  have "snd (key_of note_event) \<noteq> None" by (simp add: key_of_def note_event_def text_eval)
  from append_is_idempotent[OF twice_history v refl this] v show ?thesis by blast
qed

subsection \<open>Where the kernel goes wrong\<close>

text \<open>C25: For a task without a write scope (a write-scoped one is checked against its artifact before its
  grant is touched), a settlement as done whose artifact is not there fails, but only after it has used up
  the grant and released the leases of the worker: the task stays as it is on the board, and the worker
  cannot settle it again with the grant it was given.\<close>

theorem failed_settlement_spends_grant:
  assumes "kdb_ok s" "find (\<lambda>d. tc_task d = sr_task a) (contracts s) = Some c" "rc_write (contract_view c) = []"
    "x \<in> set (grants s)" "gr_id x = g" "gr_status x = GActive" "gr_consumed x = None" "gr_expires x = None"
    "gr_subject_kind x = sr_subject_kind a" "gr_subject_id x = sr_subject_id a" "gr_operation x = ''settle''"
    "gr_scope_kind x = ''task''" "gr_scope_key x = sr_task a" "gr_task x = Some (sr_task a)"
    "sr_status a = ''done''" "sr_hash a = Some h" "sr_grant a = Some g" "\<not> is_bypass g"
    "\<forall>q \<in> set (results s). \<not> (ra_task q = sr_task a \<and> ra_hash q = h)"
    "in_answer t1 = Served" "in_answer t2 = Served" "in_answer t3 = Served" "in_answer t4 = Served" "in_answer t5 = Served"
    "in_answer t7 = Served" "in_answer t8 = Served" "in_answer t9 = Served" "in_answer t10 = Served"
    "in_uuid t3 \<notin> au_id ` set (audits s)" "in_uuid t5 \<notin> au_id ` set (audits s)" "in_uuid t3 \<noteq> in_uuid t5"
  shows "\<exists>s'. run (worker_settle env a) [t1, t2, t3, t4, t5, t6, t7, t8, t9, t10] s = (Err (wrong_hash (sr_task a) h), s') \<and>
    x\<lparr> gr_status := GConsumed, gr_consumed := Some (in_db_now t4) \<rparr> \<in> set (grants s') \<and>
    (\<forall>l \<in> set (leases s'). wl_task l = Some (sr_task a) \<and> held_by (sr_slot a) (wl_holder l) \<longrightarrow> \<not> lease_active l) \<and>
    board s' = board s"
proof -
  have d: "distinct (map gr_id (grants s))" using kdb_grants[OF assms(1)] by (simp add: grants_ok_def)
  have same: "y = x" if "y \<in> set (grants s)" "gr_id y = g" for y
    using d that assms(4,5) by (metis distinct_map inj_onD)
  have live: "grant_live now x" for now using assms(6-8) by (simp add: grant_live_def)
  have found: "find (grant_matches g (settle_check a k) now) (grants s) = Some x" for k now
  proof (cases "find (grant_matches g (settle_check a k) now) (grants s)")
    case None
    have "grant_matches g (settle_check a k) now x" using live assms(5,9-14) by (simp add: grant_matches_def settle_check_def)
    with None assms(4) show ?thesis unfolding find_None_iff by blast
  next
    case (Some y)
    then have "y \<in> set (grants s)" "gr_id y = g" by (auto simp: find_Some_iff grant_matches_def)
    with Some same show ?thesis by simp
  qed
  let ?c = "consumable g ''settle'' (sr_task a) (sr_subject_kind a) (sr_subject_id a) (in_db_now t4)"
  have c: "?c x" using live assms(5,9-14) by (simp add: consumable_def)
  have "gr_id y = g" if "?c y" for y using that by (simp add: consumable_def)
  then have "{y. ?c y} \<inter> set (grants s) = {x}" using c same assms(4) by blast
  then have one: "rows_affected ?c (grants s) = 1"
    using distinct_length_filter[of "grants s" ?c] d by (simp add: rows_affected_def distinct_map)
  have none: "\<not> list_ex (has_evidence (sr_task a) h) (results s)" using assms(19) by (auto simp: list_ex_iff has_evidence_def)
  have consumed: "x\<lparr> gr_status := GConsumed, gr_consumed := Some (in_db_now t4) \<rparr> \<in>
      set (update_where ?c (\<lambda>g. g\<lparr> gr_status := GConsumed, gr_consumed := Some (in_db_now t4) \<rparr>) (grants s))"
    by (rule in_update[OF assms(4)]) (rule c)
  have released: "\<not> lease_active l" if "l \<in> set (update_where (\<lambda>l. lease_active l \<and> wl_task l = Some (sr_task a) \<and> held_by (sr_slot a) (wl_holder l)) (set_released t8) (leases s))"
    "wl_task l = Some (sr_task a)" "held_by (sr_slot a) (wl_holder l)" for l
    using that by auto
  have grant: "cc_grant (settle_check a k) = Some g" for k by (simp add: settle_check_def assms(17))
  note run = failed_settle_run[where x = x and ?t4.0 = t4, OF assms(2,3,15,16,18) found grant assms(5) one none]
  have "\<exists>s'. run (worker_settle env a) [t1, t2, t3, t4, t5, t6, t7, t8, t9, t10] s = (Err (wrong_hash (sr_task a) h), s') \<and>
    grants s' = update_where ?c (\<lambda>g. g\<lparr> gr_status := GConsumed, gr_consumed := Some (in_db_now t4) \<rparr>) (grants s) \<and>
    leases s' = update_where (\<lambda>l. lease_active l \<and> wl_task l = Some (sr_task a) \<and> held_by (sr_slot a) (wl_holder l)) (set_released t8) (leases s) \<and>
    board s' = board s"
    by (rule run) (fact assms(20-30) assms(31)[symmetric])+
  then obtain s' where r: "run (worker_settle env a) [t1, t2, t3, t4, t5, t6, t7, t8, t9, t10] s = (Err (wrong_hash (sr_task a) h), s')"
    and g: "grants s' = update_where ?c (\<lambda>g. g\<lparr> gr_status := GConsumed, gr_consumed := Some (in_db_now t4) \<rparr>) (grants s)"
    and l: "leases s' = update_where (\<lambda>l. lease_active l \<and> wl_task l = Some (sr_task a) \<and> held_by (sr_slot a) (wl_holder l)) (set_released t8) (leases s)"
    and b: "board s' = board s" by (elim exE conjE) (rule that)
  show ?thesis
    by (rule exI[of _ s'], intro conjI ballI impI r b, unfold g l, rule consumed) (use released in blast)
qed

definition unproven_kdb :: kdb where
  "unproven_kdb = worker_kdb\<lparr> results := [], leases := [task_lease] \<rparr>"

lemma unproven_kdb_ok: "kdb_ok unproven_kdb"
  by (simp add: unproven_kdb_def worker_kdb_def empty_kdb_def kdb_ok_def grants_ok_def grant_checked_def subject_kinds_def grant_operations_def
    grant_scopes_def settle_grant_def task_lease_def leases_ok_def claims_ok_def one_active_def results_ok_def events_ok_def board_ok_def running_task_def)

theorem failed_settlement_spends_grant_witness: "\<exists>s'. run (worker_settle plain_env done_request)
    [at_time 1 ''a'', at_time 2 ''b'', at_time 3 ''c'', at_time 4 ''d'', at_time 5 ''e'', at_time 6 ''f'', at_time 7 ''g'', at_time 8 ''h'',
     at_time 9 ''i'', at_time 10 ''j''] unproven_kdb = (Err (wrong_hash ''t'' ''h''), s') \<and>
    settle_grant\<lparr> gr_status := GConsumed, gr_consumed := Some 4 \<rparr> \<in> set (grants s') \<and> board s' = [running_task]"
proof -
  have f: "sr_task done_request = ''t''" "sr_hash done_request = Some ''h''" "sr_grant done_request = Some ''g''" "sr_status done_request = ''done''"
    "sr_subject_kind done_request = ''worker''" "sr_subject_id done_request = ''w''" by (simp_all add: done_request_def)
  have t: "in_answer (at_time n u) = Served" "in_uuid (at_time n u) = u" "in_db_now (at_time n u) = n" for n u by (simp_all add: at_time_def)
  have k: "find (\<lambda>d. tc_task d = ''t'') (contracts unproven_kdb) = Some open_contract" "rc_write (contract_view open_contract) = []"
    "settle_grant \<in> set (grants unproven_kdb)" "board unproven_kdb = [running_task]" "results unproven_kdb = []" "audits unproven_kdb = []"
    by (simp_all add: unproven_kdb_def worker_kdb_def empty_kdb_def open_contract_def contract_view_def)
  have g: "gr_id settle_grant = ''g''" "gr_status settle_grant = GActive" "gr_consumed settle_grant = None" "gr_expires settle_grant = None"
    "gr_subject_kind settle_grant = ''worker''" "gr_subject_id settle_grant = ''w''" "gr_operation settle_grant = ''settle''"
    "gr_scope_kind settle_grant = ''task''" "gr_scope_key settle_grant = ''t''" "gr_task settle_grant = Some ''t''"
    by (simp_all add: settle_grant_def)
  have "\<exists>s'. run (worker_settle plain_env done_request)
    [at_time 1 ''a'', at_time 2 ''b'', at_time 3 ''c'', at_time 4 ''d'', at_time 5 ''e'', at_time 6 ''f'', at_time 7 ''g'', at_time 8 ''h'',
     at_time 9 ''i'', at_time 10 ''j''] unproven_kdb = (Err (wrong_hash (sr_task done_request) ''h''), s') \<and>
    settle_grant\<lparr> gr_status := GConsumed, gr_consumed := Some (in_db_now (at_time 4 ''d'')) \<rparr> \<in> set (grants s') \<and>
    (\<forall>l \<in> set (leases s'). wl_task l = Some (sr_task done_request) \<and> held_by (sr_slot done_request) (wl_holder l) \<longrightarrow> \<not> lease_active l) \<and>
    board s' = board unproven_kdb"
    by (rule failed_settlement_spends_grant[OF unproven_kdb_ok, of done_request open_contract settle_grant "''g''"])
      (simp_all add: f t k g is_bypass_def)
  then show ?thesis by (auto simp: f t k)
qed

text \<open>C26: A live lease looks stale on the day it ends: the deadline of a running task is stored in the text
  format of PostgreSQL (a blank between day and time) and compared as text with an RFC 3339 time (a
  \<open>T\<close> there), so a recovery on the same day reopens the task, takes its executor away, and leaves its
  work lease active.\<close>

theorem live_task_is_reopened:
  assumes "rfc3339 env (in_app_now t0) = day @ ''T'' @ x" "pg_text env (wl_expires l) = day @ '' '' @ y"
    "b \<in> set (board s)" "bt_status b = ''running''" "bt_lease b = Some (pg_text env (wl_expires l))"
    "l \<in> set (leases s)" "lease_active l" "in_db_now t \<le> wl_expires l" "in_answer t = Served"
    "\<forall>c \<in> set (board s). epoch (bt_updated c) \<noteq> None"
  shows "\<exists>n s'. run (recover_stale_running_tasks env epoch minutes) [t0, t] s = (Ret n, s') \<and> 0 < n \<and> l \<in> set (leases s') \<and>
    (\<exists>c \<in> set (board s'). bt_id c = bt_id b \<and> bt_status c = ''open'' \<and> bt_executor c = None \<and> bt_lease c = None)"
proof -
  let ?text = "rfc3339 env (in_app_now t0)"
  let ?ls = "update_where (\<lambda>l. lease_active l \<and> wl_scope_kind l = ''board_task'' \<and> wl_expires l < in_db_now t) lease_expire (leases s)"
  let ?c1 = "lease_looks_stale ?ls (in_db_now t) ?text"
  let ?bs = "update_where ?c1 (unclaimed ''open'' ?text) (board s)"
  let ?c2 = "fallback_stale epoch (in_db_now t) (minutes * 60)"
  let ?after = "s\<lparr> leases := ?ls, board := update_where ?c2 (\<lambda>b. unclaimed ''open'' ?text b) ?bs \<rparr>"
  have less: "pg_text env (wl_expires l) < ?text"
  proof -
    have "day @ '' '' @ y < day @ ''T'' @ x" by (induction day) simp_all
    then show ?thesis by (simp add: assms(1,2))
  qed
  have stale: "?c1 b" using less assms(4,5) by (simp add: lease_looks_stale_def)
  then have n: "0 < rows_affected ?c1 (board s)" using assms(3) by (auto simp: rows_affected_def filter_empty_conv)
  have kept: "l \<in> set ?ls" using assms(6,8) by (auto simp: image_iff)
  have parsed: "\<not> list_ex (\<lambda>b. bt_status b = ''running'' \<and> bt_lease b = None \<and> epoch (bt_updated b) = None) ?bs"
    using assms(10) by (auto simp: list_ex_iff)
  have "unclaimed ''open'' ?text b \<in> set ?bs" by (rule in_update[OF assms(3)]) (rule stale)
  then have "unclaimed ''open'' ?text b \<in> set (update_where ?c2 (\<lambda>b. unclaimed ''open'' ?text b) ?bs)"
    by (rule in_update_skip) (simp add: fallback_stale_def)
  then have "\<exists>c \<in> set (board ?after). bt_id c = bt_id b \<and> bt_status c = ''open'' \<and> bt_executor c = None \<and> bt_lease c = None"
    by (intro bexI[of _ "unclaimed ''open'' ?text b"]) (simp_all add: unclaimed_def)
  moreover have "run (recover_stale_running_tasks env epoch minutes) [t0, t] s =
      (Ret (rows_affected ?c1 (board s) + rows_affected ?c2 ?bs), ?after)"
    using parsed assms(9) by (simp add: recover_stale_running_tasks_def run_simps Let_def del: update_where_simps)
  ultimately show ?thesis using n kept by (intro exI[of _ "rows_affected ?c1 (board s) + rows_affected ?c2 ?bs"] exI[of _ ?after]) simp
qed

definition live_lease :: lease_row where
  "live_lease = board_claim (at_time 10 ''b'') ''t'' ''w'' ''worker''"

definition live_kdb :: kdb where
  "live_kdb = empty_kdb\<lparr> leases := [live_lease], board := [running_task\<lparr> bt_lease := Some (pg_text plain_env (wl_expires live_lease)) \<rparr>] \<rparr>"

theorem live_task_is_reopened_witness: "\<exists>n s'. run (recover_stale_running_tasks plain_env (\<lambda>_. Some 0) 30) [at_time 20 ''c'', at_time 20 ''c''] live_kdb = (Ret n, s') \<and>
    live_lease \<in> set (leases s') \<and> (\<exists>c \<in> set (board s'). bt_id c = ''t'' \<and> bt_status c = ''open'')"
proof -
  have "\<exists>n s'. run (recover_stale_running_tasks plain_env (\<lambda>_. Some 0) 30) [at_time 20 ''c'', at_time 20 ''c''] live_kdb = (Ret n, s') \<and> 0 < n \<and>
    live_lease \<in> set (leases s') \<and> (\<exists>c \<in> set (board s'). bt_id c = bt_id (running_task\<lparr> bt_lease := Some (pg_text plain_env (wl_expires live_lease)) \<rparr>) \<and>
      bt_status c = ''open'' \<and> bt_executor c = None \<and> bt_lease c = None)"
    by (rule live_task_is_reopened[where day = "''2026-01-01''" and x = "show_int 20" and y = "show_int (wl_expires live_lease)"])
      (simp_all add: plain_env_def at_time_def live_kdb_def running_task_def live_lease_def board_claim_def lease_active_def)
  then show ?thesis by (auto simp: running_task_def)
qed

end
