(* ===== verification/Spec2Isabelle.thy ===== *)
theory Spec2Isabelle
  imports Policy_Claims Action_Claims Event_Claims Kernel_Claims
begin

text \<open>
  Verification of missiond: the plan DAG engine and the control-plane kernel of \<open>crates/missiond-daemon\<close>,
  the event bus and the board store of \<open>crates/missiond-core\<close>. The definitions are translations of the Rust functions they are named after,
  executable, with every error return of the source as a value.

  \<^bold>\<open>The program and its parts.\<close>

  missiond is a daemon that coordinates agents. A plan is a graph of nodes with targets, file scopes,
  acceptance modes and rollback descriptors. \<open>mission_plan(execute, scheduler_mode=dag_v1)\<close> reads the
  compiled contract of a plan, validates it, runs its nodes in waves under work claims, decides the
  acceptance of every node, compensates after failures, stores the result and reports it. What happens in
  the daemon is published on the event bus: producers append events to one ordered log (in memory, or the
  table \<open>event_log\<close> under a single batching writer), a tail loop fans the committed rows out to topics by
  domain, and subscriptions read history, follow the live topic, and keep a cursor. Who may do what to a
  task is decided by the control-plane kernel: capability grants, work leases, jobs and attempts, the
  completion artifacts of workers, and the settlement that moves a task of the board to its end. Its
  state is in tables of PostgreSQL; handlers run side by side, one statement after the other.

  \<^bold>\<open>Foundations.\<close>

  \<^item> \<open>Prelude\<close>: machine integers (\<open>u32\<close>, \<open>u64\<close> as words, \<open>i64\<close> as \<open>int\<close> with its range, saturating
    addition), association lists as the hash maps whose order the code observes, lemmas on lists.
  \<^item> \<open>Rust_Text\<close>: \<open>trim\<close>, \<open>split\<close>, \<open>to_ascii_lowercase\<close>, \<open>parse\<close> and the other text operations used.
  \<^item> \<open>Json\<close>: \<open>serde_json::Value\<close> and the accessors the handlers read it with.

  \<^bold>\<open>The plan DAG engine\<close> (\<open>src/crates/missiond-daemon/src/handlers/knowledge/plan_dag\<close>).

  \<^item> \<open>Dag_Types\<close>: nodes, errors and typed modes (\<open>parser/types\<close>).
  \<^item> \<open>Lisp_List\<close>: the bracketed list hints (\<open>plan/execute_hints.rs\<close>). The reader loops on a bracket in
    place of an item; it is a \<open>partial_function\<close>, so "it never returns" is the value \<open>None\<close>.
  \<^item> \<open>Dag_Contract\<close>, \<open>Dag_Validation\<close>, \<open>Topo_Sort\<close>: contract reading, \<open>validate_parsed_dag\<close>, Kahn's sort
    and ancestors (\<open>parser/validation.rs\<close>). Proved: validation accepts exactly the well-formed plans,
    Kahn's sort finds an order exactly when there is one, ancestors are reachability.
  \<^item> \<open>Dag_Scheduler\<close>: capacity preview and waves (\<open>scheduler.rs\<close>), taint (\<open>runtime/bookkeeping.rs\<close>).
  \<^item> \<open>Claim_Lease\<close>: the claims of a run (\<open>claim_lease.rs\<close>), with the locale \<open>claim_store\<close> for the registry.
  \<^item> \<open>Acceptance\<close>, \<open>Rollback\<close>, \<open>Workstation\<close>: acceptance and fan-in (\<open>acceptance/\<close>), descriptor, safety
    rules and compensation cascade (\<open>rollback/\<close>), the routing decision (\<open>workstation_dispatch/decision.rs\<close>).
  \<^item> \<open>Dag_Outcome\<close>, \<open>Dag_Report\<close>: results, states, rows and JSON reports (\<open>outcome/\<close>, \<open>projection.rs\<close>).
  \<^item> \<open>Dag_Runtime\<close>: the wave loop (\<open>runtime.rs\<close>, \<open>runtime/\<close>) as a function on the state \<open>engine\<close>: skips,
    gates, claims, spawns, drains, retries, failures and rollbacks.
  \<^item> \<open>Dag_Steps\<close>, \<open>Dag_Invariant\<close>, \<open>Dag_Execution\<close>: the loop of \<open>Dag_Runtime\<close> proved to be a sequence of small
    moves \<open>run_step\<close>, the abstract machine \<open>life_step\<close> of node lifecycles, the simulation, the invariant, and
    termination. The moves are a device of the proofs: the properties speak of \<open>execute_with_concurrency\<close>,
    \<open>compute_ready_ids\<close>, \<open>spawn_wave\<close> and the log of events the run leaves.
  \<^item> \<open>Lease_Balance\<close>, \<open>Run_Results\<close>, \<open>Run_Log\<close>: leases acquired against leases given back, or left behind
    because the lease kernel refused the release (\<open>EvReleaseFailed\<close>: the source ignores that answer); what a
    run returns; and what the log of a run shows: starts, running tasks, attempts, dependencies.
  \<^item> \<open>Dag_Finalize\<close>, \<open>Dag_Action\<close>: mode switches, tool errors, storing the outcome, the distill call, and
    the action as a whole (\<open>plan_dag.rs\<close>, \<open>finalization.rs\<close>, \<open>mode.rs\<close>).
  \<^item> \<open>Plan_Claims\<close>, \<open>Policy_Claims\<close>, \<open>Engine_Claims\<close>, \<open>Action_Claims\<close>: the properties and their witnesses.

  \<^bold>\<open>The event bus\<close> (\<open>src/crates/missiond-core/src/event\<close>).

  \<^item> \<open>Event_Types\<close>: domains, pause policy, persistence, causation guard, gate (\<open>domain.rs\<close>, \<open>step1\<close>, \<open>step2\<close>,
    \<open>step6\<close>).
  \<^item> \<open>Event_Blob\<close>: the three blob stores and the claim check, over the locale \<open>blob_store\<close>.
  \<^item> \<open>Event_Log\<close>: logged rows, reader and bounded query, with the locales \<open>readable_log\<close> and
    \<open>queryable_log\<close>.
  \<^item> \<open>Event_Memory\<close>, \<open>Event_Memory_Inv\<close>: the in-memory log, its writer task and its tail, as a step
    relation with an invariant.
  \<^item> \<open>Event_Writer\<close>, \<open>Event_Writer_Inv\<close>, \<open>Event_Pg\<close>: the durable writer (handle, batch, retries, dedupe
    and collisions, \<open>step3_commit\<close>) over the locale \<open>writer_backend\<close>, and the table \<open>event_log\<close> under it.
  \<^item> \<open>Event_Tail\<close>: the tail loop, the dispatcher, the topics and the control gate (\<open>step5\<close> to \<open>step7\<close>).
  \<^item> \<open>Event_Subscription\<close>, \<open>Event_Cursor\<close>: subscriptions, failure router and cursor stores; the runtime of
    a subscription with its flusher, over the locale \<open>cursor_store\<close>.
  \<^item> \<open>Event_Delivery\<close>, \<open>Event_Running\<close>: the bus end to end over the locale \<open>growing_log\<close> and its two
    interpretations.
  \<^item> \<open>Event_Stored\<close>: the durable log with its blob table: a committed row of a large payload names a blob
    that is there. \<open>Event_Rejection\<close>: a subscription with its consumer and its runtime, and what becomes of
    rejected events. \<open>Event_Claims\<close>: the properties.

  \<^bold>\<open>The control-plane kernel\<close> (\<open>crates/missiond-daemon/src/engine/shared_memory.rs\<close>,
  \<open>engine/control_plane_kernel.rs\<close>, \<open>engine/task_completion_evidence.rs\<close>,
  \<open>handlers/knowledge/shared_memory.rs\<close>; \<open>crates/missiond-core/src/db/pg/board.rs\<close> and the migrations).

  \<^item> \<open>Kernel_Program\<close>: a handler as a tree of atomic statements, with rely-guarantee rules.
  \<^item> \<open>Kernel_Tables\<close>, \<open>Kernel_Rules\<close>: the tables as lists of rows with their keys and checks, the
    invariant \<open>kdb_ok\<close>, the growth \<open>kdb_grows\<close> every statement guarantees, and the rules \<open>safe\<close> and \<open>sat\<close>.
  \<^item> \<open>Kernel_Capability\<close>, \<open>Kernel_Lease\<close>, \<open>Kernel_Job\<close>: grants and their audit; leases; events, jobs,
    attempts, contracts and manifests.
  \<^item> \<open>Kernel_Scope\<close>, \<open>Kernel_Artifact\<close>: scope patterns, changed paths and payload checks as pure functions;
    the artifact store and \<open>task_result_put\<close>.
  \<^item> \<open>Kernel_Board\<close>, \<open>Kernel_Settle\<close>, \<open>Kernel_Adapter\<close>: the board store, the settlement, the tool.
  \<^item> \<open>Kernel_Pool\<close>, \<open>Kernel_System\<close>: a pool of sessions under any interleaving, as the locale
    \<open>guarded_store\<close>, interpreted on the kernel: every request of \<open>kernel_request\<close> keeps the invariant, so
    what holds of \<open>history\<close> holds of every run of any number of sessions, including dropped ones.
  \<^item> \<open>Kernel_Facts\<close>, \<open>Kernel_Lock\<close>, \<open>Kernel_Claims\<close>: what a success of each command means, leases as a
    table of locks, and the properties. Proved: one active lease per scope, one event per idempotency key,
    evidence behind every done task, one settlement per grant, consumed grants left as they are, no success
    without authority and nothing but an audit row from a refusal, append-only records, exactness of the worktree check; and three defects, each with a concrete run.

  \<^bold>\<open>Fuel and bounds.\<close>

  \<^item> The wave loop runs with one unit of fuel per node and one more: every turn that neither stops nor
    pauses settles at least one node. \<open>executor_terminates\<close> proves that this is enough.
  \<^item> The drain of running tasks has four units per node and one more: a node has at most three attempts,
    and every turn ends an attempt.
  \<^item> The tail drains pages of 256 rows; a fuel with \<open>rows < 256 * fuel\<close> lets it reach the end.
  \<^item> A flush retries a transient failure up to \<open>FAILED_STATE_RETRY_CAP\<close>; its recursion is proved to end.
  \<^item> A program of the kernel is a finite tree of statements and needs no fuel.

  \<^bold>\<open>The environment.\<close> What is not under \<open>src\<close>, or is I/O, is a parameter:

  \<^item> \<open>dag_env\<close>: the lease kernel (acquisitions and releases), node tasks, stores and tools a run calls, each
    free to fail;
  \<^item> \<open>bus_env\<close>: the codec of payloads, SHA-256 and the text of UUIDs, with the round trips of the codec and
    of UUIDs and the length of the digest as named hypotheses where a theorem needs them;
  \<^item> \<open>db_fault\<close>: for every call of the database, whether it fails and how;
  \<^item> \<open>kernel_env\<close>: the text formats of times, JSON bytes and SHA-256 of the kernel, with no hypothesis; in
    \<open>live_task_is_reopened\<close> the two formats are an RFC 3339 text with \<open>T\<close> and a PostgreSQL text with a blank;
  \<^item> \<open>instant\<close>: what one statement of the kernel meets: both clocks, the identifier it would draw, the
    answers of git, and whether the database serves it, refuses it or loses the answer after it ran. A
    transaction, and a claim under its advisory lock, is one statement;
  \<^item> a tokio broadcast receiver is a bounded queue with a lag flag, an mpsc channel a bounded queue.

  \<^bold>\<open>Not modelled.\<close>

  \<^item> Sleeps, poll intervals, retry jitter, metrics, logging and spans; the evidence payloads of a node.
  \<^item> Characters beyond 255 (strings are lists of \<open>char\<close>; a long dash in a message is written \<open>--\<close>), the
    sign of a floating zero.
  \<^item> \<open>BIGSERIAL\<close> is an unbounded integer: a log of \<open>2^63\<close> rows is out of scope.
  \<^item> An in-memory tail asked for zero rows, and the marker text of a blob error.
  \<^item> The combinators of subscriptions, the wire format, retention and the projection of events.
  \<^item> Of the kernel: suggestions in errors, columns that are only written, the legacy projection actions of
    the tool, workflow runs, evidence views and route outcomes; of the board store: insertion, deletion,
    listings and the columns that decide neither status nor claim. Texts are compared byte by byte, the
    order of PostgreSQL under the collation C.
  \<^item> The rest of the repository: drivers of providers, terminals, web sockets, handlers that render
    context, stores that only forward SQL, workers and the web front end.
\<close>

end
